(* ===== verification/Prelude.thy ===== *)
theory Prelude
  imports Main "HOL-Library.Word" "HOL-Library.Multiset"
begin

text \<open>
  Shared vocabulary of the development: the arithmetic of Rust's unsigned and signed 64-bit
  integers as it is used by the gateway (\<^verbatim>\<open>saturating_add\<close>, \<^verbatim>\<open>saturating_sub\<close>,
  \<^verbatim>\<open>checked_sub\<close>, an \<^verbatim>\<open>as u32\<close> cast), the string operations of Rust's standard
  library that the modelled functions call (\<^verbatim>\<open>find\<close>, \<^verbatim>\<open>split\<close>, \<^verbatim>\<open>strip_prefix\<close>,
  \<^verbatim>\<open>strip_suffix\<close>, \<^verbatim>\<open>trim\<close>, decimal formatting) and generic lemmas on lists and maps.

  A Rust \<^verbatim>\<open>u64\<close> that is only added with saturation, compared and divided is a \<open>nat\<close> with the
  saturation written out; hash functions, where the wrap-around is the point, use \<open>64 word\<close>.
\<close>

named_theorems arith_simps \<open>saturating and checked machine arithmetic\<close>

section \<open>Machine arithmetic\<close>

definition u64_max :: nat where
  "u64_max = 18446744073709551615"

definition u32_modulus :: nat where
  "u32_modulus = 4294967296"

definition sat_add :: "nat \<Rightarrow> nat \<Rightarrow> nat" where
  "sat_add a b = min (a + b) u64_max"

definition sat_sub :: "nat \<Rightarrow> nat \<Rightarrow> nat" where
  "sat_sub a b = a - b"

definition sat_mul :: "nat \<Rightarrow> nat \<Rightarrow> nat" where
  "sat_mul a b = min (a * b) u64_max"

definition as_u32 :: "nat \<Rightarrow> nat" where
  "as_u32 n = n mod u32_modulus"

definition i64_min :: int where
  "i64_min = - 9223372036854775808"

definition i64_max :: int where
  "i64_max = 9223372036854775807"

definition in_i64 :: "int \<Rightarrow> bool" where
  "in_i64 i \<longleftrightarrow> i64_min \<le> i \<and> i \<le> i64_max"

definition checked_sub_i64 :: "int \<Rightarrow> int \<Rightarrow> int option" where
  "checked_sub_i64 a b = (if in_i64 (a - b) then Some (a - b) else None)"

lemma sat_add_le_max [simp]: "sat_add a b \<le> u64_max"
  by (simp add: sat_add_def)

lemma sat_add_exact [arith_simps]: "a + b \<le> u64_max \<Longrightarrow> sat_add a b = a + b"
  by (simp add: sat_add_def)

lemma sat_add_0_right [simp]: "a \<le> u64_max \<Longrightarrow> sat_add a 0 = a"
  by (simp add: sat_add_def)

lemma sat_add_ge_left: "a \<le> u64_max \<Longrightarrow> a \<le> sat_add a b"
  by (simp add: sat_add_def)

lemma sat_add_assoc: "sat_add (sat_add a b) c = sat_add a (b + c)"
  by (simp add: sat_add_def min_def)

lemma sat_add_mono: "a \<le> a' \<Longrightarrow> sat_add a b \<le> sat_add a' b"
  by (simp add: sat_add_def)

lemma as_u32_small [arith_simps]: "n < u32_modulus \<Longrightarrow> as_u32 n = n"
  by (simp add: as_u32_def)

lemma checked_sub_i64_Some [arith_simps]:
  "checked_sub_i64 a b = Some d \<longleftrightarrow> d = a - b \<and> in_i64 (a - b)"
  by (auto simp: checked_sub_i64_def)

lemma checked_sub_i64_None [arith_simps]:
  "checked_sub_i64 a b = None \<longleftrightarrow> \<not> in_i64 (a - b)"
  by (auto simp: checked_sub_i64_def)

section \<open>Decimal formatting\<close>

text \<open>\<^verbatim>\<open>to_string\<close> on an unsigned integer, and a reader that inverts it.\<close>

definition digit_char :: "nat \<Rightarrow> char" where
  "digit_char d = char_of (48 + d)"

fun nat_str :: "nat \<Rightarrow> string" where
  "nat_str n = (if n < 10 then [digit_char n] else nat_str (n div 10) @ [digit_char (n mod 10)])"

declare nat_str.simps [simp del]

definition read_nat :: "string \<Rightarrow> nat" where
  "read_nat cs = foldl (\<lambda>acc c. acc * 10 + (of_char c - 48)) 0 cs"

lemma of_digit_char [simp]: "d < 10 \<Longrightarrow> (of_char (digit_char d) :: nat) = 48 + d"
  by (simp add: digit_char_def)

lemma read_nat_str [simp]: "read_nat (nat_str n) = n"
proof (induction n rule: nat_str.induct)
  case (1 n)
  show ?case
  proof (cases "n < 10")
    case True
    then show ?thesis by (simp add: nat_str.simps [of n] read_nat_def)
  next
    case False
    with 1 have "read_nat (nat_str (n div 10)) = n div 10" by simp
    with False show ?thesis by (simp add: nat_str.simps [of n] read_nat_def)
  qed
qed

lemma nat_str_inject [simp]: "nat_str m = nat_str n \<longleftrightarrow> m = n"
  by (metis read_nat_str)

lemma nat_str_digits: "c \<in> set (nat_str n) \<Longrightarrow> \<exists>d < 10. c = digit_char d"
proof (induction n rule: nat_str.induct)
  case (1 n)
  show ?case
  proof (cases "n < 10")
    case True
    with "1.prems" show ?thesis by (auto simp: nat_str.simps [of n])
  next
    case False
    with "1.prems" have "c \<in> set (nat_str (n div 10)) \<or> c = digit_char (n mod 10)"
      by (auto simp: nat_str.simps [of n])
    with 1 False show ?thesis by (metis mod_less_divisor zero_less_numeral)
  qed
qed

lemma digit_char_not_colon: "d < 10 \<Longrightarrow> digit_char d \<noteq> CHR '':''"
  using of_digit_char [of d] by (auto dest: arg_cong [of _ _ "of_char :: char \<Rightarrow> nat"])

lemma nat_str_no_colon: "CHR '':'' \<notin> set (nat_str n)"
  using nat_str_digits digit_char_not_colon by fastforce

section \<open>Byte strings\<close>

text \<open>ASCII classes and case folding as the Rust methods on bytes define them, and substring
  search.\<close>

definition ascii_upper :: "char \<Rightarrow> bool" where
  "ascii_upper c \<longleftrightarrow> 65 \<le> (of_char c :: nat) \<and> (of_char c :: nat) \<le> 90"

definition ascii_lower_letter :: "char \<Rightarrow> bool" where
  "ascii_lower_letter c \<longleftrightarrow> 97 \<le> (of_char c :: nat) \<and> (of_char c :: nat) \<le> 122"

definition ascii_digit :: "char \<Rightarrow> bool" where
  "ascii_digit c \<longleftrightarrow> 48 \<le> (of_char c :: nat) \<and> (of_char c :: nat) \<le> 57"

definition ascii_alnum :: "char \<Rightarrow> bool" where
  "ascii_alnum c \<longleftrightarrow> ascii_upper c \<or> ascii_lower_letter c \<or> ascii_digit c"

definition ascii_lower :: "char \<Rightarrow> char" where
  "ascii_lower c = (if ascii_upper c then char_of ((of_char c :: nat) + 32) else c)"

fun is_prefix :: "'a list \<Rightarrow> 'a list \<Rightarrow> bool" where
  "is_prefix [] ys = True"
| "is_prefix (x # xs) [] = False"
| "is_prefix (x # xs) (y # ys) = (x = y \<and> is_prefix xs ys)"

fun contains :: "'a list \<Rightarrow> 'a list \<Rightarrow> bool" where
  "contains pat [] = (pat = [])"
| "contains pat (y # ys) = (is_prefix pat (y # ys) \<or> contains pat ys)"

lemma is_prefix_iff: "is_prefix xs ys \<longleftrightarrow> (\<exists>zs. ys = xs @ zs)"
  by (induction xs ys rule: is_prefix.induct) auto

lemma contains_iff: "contains pat s \<longleftrightarrow> (\<exists>us vs. s = us @ pat @ vs)"
proof (induction s)
  case (Cons y ys)
  show ?case
  proof
    assume "contains pat (y # ys)"
    then show "\<exists>us vs. y # ys = us @ pat @ vs"
      using Cons.IH is_prefix_iff [of pat "y # ys"] by (auto intro: exI [of _ "[]"]) (metis append_Cons)
  next
    assume "\<exists>us vs. y # ys = us @ pat @ vs"
    then obtain us vs where e: "y # ys = us @ pat @ vs" by blast
    show "contains pat (y # ys)"
    proof (cases us)
      case Nil
      with e have "is_prefix pat (y # ys)" by (auto simp: is_prefix_iff)
      then show ?thesis by simp
    next
      case (Cons u us')
      with e Cons.IH show ?thesis by auto
    qed
  qed
qed auto

text \<open>\<^verbatim>\<open>trim\<close> on ASCII white space, \<^verbatim>\<open>split\<close> at a character and \<^verbatim>\<open>splitn(2, _)\<close>.\<close>

definition ascii_space :: "char \<Rightarrow> bool" where
  "ascii_space c \<longleftrightarrow> (of_char c :: nat) \<in> {9, 10, 11, 12, 13, 32}"

definition trim :: "string \<Rightarrow> string" where
  "trim s = rev (dropWhile ascii_space (rev (dropWhile ascii_space s)))"

fun split_at_char :: "char \<Rightarrow> string \<Rightarrow> string list" where
  "split_at_char c [] = [[]]"
| "split_at_char c (x # xs) =
     (if x = c then [] # split_at_char c xs
      else (case split_at_char c xs of [] \<Rightarrow> [[x]] | p # ps \<Rightarrow> (x # p) # ps))"

definition splitn2 :: "char \<Rightarrow> string \<Rightarrow> string \<times> string option" where
  "splitn2 c s =
     (takeWhile (\<lambda>x. x \<noteq> c) s, if c \<in> set s then Some (tl (dropWhile (\<lambda>x. x \<noteq> c) s)) else None)"

fun join :: "string \<Rightarrow> string list \<Rightarrow> string" where
  "join sep [] = []"
| "join sep [s] = s"
| "join sep (s # t # ts) = s @ sep @ join sep (t # ts)"

text \<open>The \<^verbatim>\<open>Debug\<close> form of a list of ASCII strings.\<close>

definition debug_char :: "char \<Rightarrow> string" where
  "debug_char c =
     (if c = CHR 0x22 then [CHR 0x5C, CHR 0x22]
      else if c = CHR 0x5C then [CHR 0x5C, CHR 0x5C]
      else if c = CHR 0x0A then [CHR 0x5C, CHR ''n'']
      else if c = CHR 0x0D then [CHR 0x5C, CHR ''r'']
      else if c = CHR 0x09 then [CHR 0x5C, CHR ''t'']
      else if c = CHR 0x00 then [CHR 0x5C, CHR ''0'']
      else [c])"

definition debug_strings :: "string list \<Rightarrow> string" where
  "debug_strings ss =
     ''['' @ join '', '' (map (\<lambda>s. [CHR 0x22] @ concat (map debug_char s) @ [CHR 0x22]) ss) @ '']''"

section \<open>Floating point\<close>

text \<open>A Rust \<^verbatim>\<open>f64\<close> is its 64 bits. \<^verbatim>\<open>f64::total_cmp\<close> compares the bits as a signed integer after
  flipping all but the sign bit of a negative number; \<open>total_key\<close> is that integer. The arithmetic of the
  processor is a parameter.\<close>

type_synonym f64 = "64 word"

definition total_key :: "f64 \<Rightarrow> int" where
  "total_key x = (if bit x 63 then sint (semiring_bit_operations_class.xor x 0x7FFFFFFFFFFFFFFF) else sint x)"

definition F64_INFINITY :: f64 where "F64_INFINITY = 0x7FF0000000000000"
definition F64_NEG_INFINITY :: f64 where "F64_NEG_INFINITY = 0xFFF0000000000000"

record f64_ops =
  f_add :: "f64 \<Rightarrow> f64 \<Rightarrow> f64"
  f_mul :: "f64 \<Rightarrow> f64 \<Rightarrow> f64"
  f_div :: "f64 \<Rightarrow> f64 \<Rightarrow> f64"
  f_of_nat :: "nat \<Rightarrow> f64"

lemma total_key_infinities [simp]:
  "total_key F64_INFINITY = 9218868437227405312" "total_key F64_NEG_INFINITY = -9218868437227405313"
  by (simp_all add: total_key_def F64_INFINITY_def F64_NEG_INFINITY_def)

section \<open>Caches keyed by a generation\<close>

text \<open>An index derived from configuration is kept with the key it was built under and rebuilt when a
  request brings another key. The key is coherent on a set of inputs when equal keys mean equal indices;
  a cache is then exact whatever mixture of requests, racing rebuilds included, filled it.\<close>

locale generation_cache =
  fixes key :: "'s \<Rightarrow> 'k" and build :: "'s \<Rightarrow> 'i"
    and cached :: "'c \<Rightarrow> ('k \<times> 'i) option" and lookup :: "'c \<Rightarrow> 's \<Rightarrow> 'c \<times> 'i"
  assumes hit: "cached c = Some (key s, i) \<Longrightarrow> lookup c s = (c, i)"
    and miss: "(\<And>i. cached c \<noteq> Some (key s, i)) \<Longrightarrow>
      snd (lookup c s) = build s \<and> cached (fst (lookup c s)) = Some (key s, build s)"
begin

definition holds_built :: "'s set \<Rightarrow> 'c \<Rightarrow> bool" where
  "holds_built S c \<longleftrightarrow> (\<forall>k i. cached c = Some (k, i) \<longrightarrow> (\<exists>s \<in> S. k = key s \<and> i = build s))"

lemma lookup_exact:
  assumes "holds_built S c" and "s \<in> S"
    and coherent: "\<And>a b. a \<in> S \<Longrightarrow> b \<in> S \<Longrightarrow> key a = key b \<Longrightarrow> build a = build b"
  shows "snd (lookup c s) = build s \<and> holds_built S (fst (lookup c s))"
proof (cases "\<exists>i. cached c = Some (key s, i)")
  case True
  then obtain i where i: "cached c = Some (key s, i)" by blast
  have "\<exists>s' \<in> S. key s = key s' \<and> i = build s'"
    using assms(1) [unfolded holds_built_def, rule_format, OF i] .
  then obtain s' where s': "s' \<in> S" "key s = key s'" "i = build s'" by (elim bexE conjE)
  have "i = build s" using coherent [OF assms(2) s'(1,2)] s'(3) by simp
  with hit [OF i] assms(1) show ?thesis by simp
next
  case False
  then have "snd (lookup c s) = build s \<and> cached (fst (lookup c s)) = Some (key s, build s)"
    using miss [of c s] by blast
  with assms(2) show ?thesis by (auto simp: holds_built_def)
qed

end

end
