(* ===== verification/Window.thy ===== *)
theory Window
  imports Prelude
begin

text \<open>
  The fixed-window counter of \<^verbatim>\<open>crates/aisix-ratelimit/src/window.rs\<close>: a count that resets
  when the wall clock enters another window. A method with a \<^verbatim>\<open>&mut self\<close> receiver returns
  the updated counter next to its result. Times and counts are \<^verbatim>\<open>u64\<close>; sums saturate.
\<close>

section \<open>The counter\<close>

datatype window_check = WOk | WFull (retry_after_secs: nat)

record window_counter =
  window_secs :: nat
  window_start :: nat
  count :: nat

definition fresh_window :: "nat \<Rightarrow> window_counter" where
  "fresh_window secs = \<lparr>window_secs = secs, window_start = 0, count = 0\<rparr>"

text \<open>\<open>None\<close> is the panic of the assertion that the window is positive.\<close>

definition window_new :: "nat \<Rightarrow> window_counter option" where
  "window_new secs = (if secs > 0 then Some (fresh_window secs) else None)"

definition bucket_of :: "nat \<Rightarrow> nat \<Rightarrow> nat" where
  "bucket_of secs now = (now div secs) * secs"

definition roll_if_stale :: "window_counter \<Rightarrow> nat \<Rightarrow> window_counter" where
  "roll_if_stale w now =
     (let bucket_start = bucket_of (window_secs w) now
      in if bucket_start \<noteq> window_start w
         then w\<lparr>window_start := bucket_start, count := 0\<rparr>
         else w)"

definition retry_hint :: "window_counter \<Rightarrow> nat \<Rightarrow> nat" where
  "retry_hint w now =
     max (sat_sub (window_secs w) (sat_sub now (window_start w))) 1"

definition check_and_increment ::
    "window_counter \<Rightarrow> nat \<Rightarrow> nat \<Rightarrow> nat \<Rightarrow> window_counter \<times> window_check" where
  "check_and_increment w now delta limit =
     (let w1 = roll_if_stale w now;
          would_be = sat_add (count w1) delta
      in if would_be > limit then (w1, WFull (retry_hint w1 now))
         else (w1\<lparr>count := would_be\<rparr>, WOk))"

definition window_add :: "window_counter \<Rightarrow> nat \<Rightarrow> nat \<Rightarrow> window_counter" where
  "window_add w now delta =
     (let w1 = roll_if_stale w now in w1\<lparr>count := sat_add (count w1) delta\<rparr>)"

definition decrement :: "window_counter \<Rightarrow> nat \<Rightarrow> nat \<Rightarrow> window_counter" where
  "decrement w now delta =
     (if bucket_of (window_secs w) now = window_start w
      then w\<lparr>count := sat_sub (count w) delta\<rparr> else w)"

definition window_current :: "window_counter \<Rightarrow> nat \<Rightarrow> window_counter \<times> nat" where
  "window_current w now = (let w1 = roll_if_stale w now in (w1, count w1))"

definition is_exceeded :: "window_counter \<Rightarrow> nat \<Rightarrow> nat \<Rightarrow> window_counter \<times> nat option" where
  "is_exceeded w now limit =
     (let w1 = roll_if_stale w now
      in if count w1 \<ge> limit then (w1, Some (retry_hint w1 now)) else (w1, None))"


lemmas window_ops_def =
  check_and_increment_def window_add_def window_current_def is_exceeded_def Let_def

section \<open>Invariant and basic facts\<close>

definition window_wf :: "window_counter \<Rightarrow> bool" where
  "window_wf w \<longleftrightarrow>
     window_secs w > 0 \<and> window_secs w dvd window_start w \<and> count w \<le> u64_max"

abbreviation used :: "window_counter \<Rightarrow> nat \<Rightarrow> nat" where
  "used w now \<equiv> count (roll_if_stale w now)"

lemma bucket_of_le [simp]: "bucket_of secs now \<le> now"
  by (simp add: bucket_of_def)

lemma bucket_of_upper: "secs > 0 \<Longrightarrow> now < bucket_of secs now + secs"
  using dividend_less_div_times [of secs now] by (simp add: bucket_of_def)

lemma bucket_of_dvd [simp]: "secs dvd bucket_of secs now"
  by (simp add: bucket_of_def)

lemma bucket_of_mono: "s \<le> t \<Longrightarrow> bucket_of secs s \<le> bucket_of secs t"
  by (simp add: bucket_of_def div_le_mono)

lemma bucket_of_same_window:
  assumes "secs > 0" and "now \<le> t" and "t < bucket_of secs now + secs"
  shows "bucket_of secs t = bucket_of secs now"
proof -
  have "now div secs \<le> t div secs" using assms(2) by (rule div_le_mono)
  moreover have "t div secs < Suc (now div secs)"
    using assms(1,3) by (simp add: bucket_of_def less_mult_imp_div_less algebra_simps)
  ultimately show ?thesis by (simp add: bucket_of_def)
qed

lemma bucket_of_eq_sub_mod: "bucket_of secs now = now - now mod secs"
  by (simp add: bucket_of_def minus_mod_eq_div_mult)

lemma window_secs_roll [simp]: "window_secs (roll_if_stale w now) = window_secs w"
  by (simp add: roll_if_stale_def Let_def)

lemma window_start_roll [simp]:
  "window_start (roll_if_stale w now) = bucket_of (window_secs w) now"
  by (simp add: roll_if_stale_def Let_def)

lemma roll_idem [simp]: "roll_if_stale (roll_if_stale w now) now = roll_if_stale w now"
  by (simp add: roll_if_stale_def Let_def)

lemma roll_current [simp]:
  "bucket_of (window_secs w) now = window_start w \<Longrightarrow> roll_if_stale w now = w"
  by (simp add: roll_if_stale_def)

lemma count_roll:
  "count (roll_if_stale w now) =
     (if bucket_of (window_secs w) now = window_start w then count w else 0)"
  by (simp add: roll_if_stale_def Let_def)

lemma count_update_roll [simp]:
  "used (roll_if_stale w now\<lparr>count := c\<rparr>) now = c"
  by (simp add: count_roll)

lemma wf_fresh [simp]: "secs > 0 \<Longrightarrow> window_wf (fresh_window secs)"
  by (simp add: window_wf_def fresh_window_def)

lemma wf_roll [simp]: "window_wf w \<Longrightarrow> window_wf (roll_if_stale w now)"
  by (auto simp: window_wf_def count_roll)

lemma wf_check_and_increment [simp]:
  "window_wf w \<Longrightarrow> window_wf (fst (check_and_increment w now d l))"
  using wf_roll [of w now] by (auto simp: window_ops_def window_wf_def)

lemma wf_window_add [simp]: "window_wf w \<Longrightarrow> window_wf (window_add w now d)"
  using wf_roll [of w now] by (auto simp: window_ops_def window_wf_def)

lemma wf_decrement [simp]: "window_wf w \<Longrightarrow> window_wf (decrement w now d)"
  by (auto simp: decrement_def window_wf_def sat_sub_def)

text \<open>The retry hint lies in the current window: it is never zero, never longer than the window,
  and it is exactly the distance to the next window boundary.\<close>

lemma retry_hint_exact:
  assumes "window_secs w > 0"
  shows "retry_hint (roll_if_stale w now) now =
           bucket_of (window_secs w) now + window_secs w - now"
  using bucket_of_upper [OF assms, of now] bucket_of_le [of "window_secs w" now]
  by (auto simp: retry_hint_def sat_sub_def)

lemma retry_hint_bounds:
  assumes "window_secs w > 0"
  shows "1 \<le> retry_hint (roll_if_stale w now) now"
    and "retry_hint (roll_if_stale w now) now \<le> window_secs w"
proof -
  show "1 \<le> retry_hint (roll_if_stale w now) now" by (simp add: retry_hint_def)
  show "retry_hint (roll_if_stale w now) now \<le> window_secs w"
    using bucket_of_le [of "window_secs w" now] unfolding retry_hint_exact [OF assms] by linarith
qed

lemma bucket_changes_after_hint:
  assumes "window_secs w > 0"
  shows "bucket_of (window_secs w) (now + retry_hint (roll_if_stale w now) now) =
           bucket_of (window_secs w) now + window_secs w"
proof -
  let ?b = "bucket_of (window_secs w) now"
  have "now + retry_hint (roll_if_stale w now) now = ?b + window_secs w"
    using bucket_of_upper [OF assms, of now] by (simp add: retry_hint_exact [OF assms])
  moreover have "bucket_of (window_secs w) (?b + window_secs w) = ?b + window_secs w"
    using assms by (simp add: bucket_of_def)
  ultimately show ?thesis by simp
qed

section \<open>What each operation does to the count of the current window\<close>

lemma used_check_and_increment:
  "used (fst (check_and_increment w now d l)) now =
     (if sat_add (used w now) d > l then used w now else sat_add (used w now) d)"
  by (simp add: window_ops_def)

lemma result_check_and_increment:
  "snd (check_and_increment w now d l) =
     (if sat_add (used w now) d > l then WFull (retry_hint (roll_if_stale w now) now) else WOk)"
  by (simp add: window_ops_def)

lemma used_window_add: "used (window_add w now d) now = sat_add (used w now) d"
  by (simp add: window_ops_def)

lemma used_decrement: "used (decrement w now d) now = used w now - d"
  by (auto simp: decrement_def count_roll sat_sub_def)

lemma window_secs_ops [simp]:
  "window_secs (fst (check_and_increment w now d l)) = window_secs w"
  "window_secs (window_add w now d) = window_secs w"
  "window_secs (decrement w now d) = window_secs w"
  "window_secs (fst (window_current w now)) = window_secs w"
  "window_secs (fst (is_exceeded w now l)) = window_secs w"
  by (auto simp: window_ops_def decrement_def)

lemma window_current_simps [simp]:
  "fst (window_current w now) = roll_if_stale w now"
  "snd (window_current w now) = used w now"
  by (simp_all add: window_ops_def)

lemma is_exceeded_simps [simp]:
  "fst (is_exceeded w now l) = roll_if_stale w now"
  "snd (is_exceeded w now l) =
     (if used w now \<ge> l then Some (retry_hint (roll_if_stale w now) now) else None)"
  by (simp_all add: window_ops_def)

text \<open>An increment that is taken back leaves the rolled counter it started from.\<close>

lemma decrement_undoes_increment:
  assumes "snd (check_and_increment w now d l) = WOk"
    and "used w now + d \<le> u64_max"
  shows "decrement (fst (check_and_increment w now d l)) now d = roll_if_stale w now"
  using assms by (auto simp: window_ops_def decrement_def sat_sub_def arith_simps split: if_splits)

section \<open>One slot against one slot per window\<close>

text \<open>
  The counter keeps only the window it is in. The specification keeps a count for every window;
  \<open>tracks w m t\<close> says that from time \<open>t\<close> on the two give the same answers.
\<close>

definition tracks :: "window_counter \<Rightarrow> (nat \<Rightarrow> nat) \<Rightarrow> nat \<Rightarrow> bool" where
  "tracks w m t \<longleftrightarrow>
     window_secs w > 0 \<and>
     window_start w \<le> bucket_of (window_secs w) t \<and>
     m (bucket_of (window_secs w) t) = used w t \<and>
     (\<forall>b > bucket_of (window_secs w) t. m b = 0)"

lemma tracks_fresh: "secs > 0 \<Longrightarrow> tracks (fresh_window secs) (\<lambda>_. 0) t"
  by (auto simp: tracks_def fresh_window_def count_roll)

lemma tracks_later:
  assumes "tracks w m s" and "s \<le> t"
  shows "tracks w m t"
proof (cases "bucket_of (window_secs w) s = bucket_of (window_secs w) t")
  case True
  with assms(1) show ?thesis by (simp add: tracks_def count_roll)
next
  case False
  with bucket_of_mono [OF assms(2), of "window_secs w"]
  have less: "bucket_of (window_secs w) s < bucket_of (window_secs w) t" by simp
  with assms(1) show ?thesis by (auto simp: tracks_def count_roll)
qed

lemma tracks_used: "tracks w m t \<Longrightarrow> used w t = m (bucket_of (window_secs w) t)"
  by (simp add: tracks_def)

lemma tracks_roll: "tracks w m t \<Longrightarrow> tracks (roll_if_stale w t) m t"
  by (simp add: tracks_def)

lemma tracks_upd:
  assumes "tracks w m t"
  shows "tracks (roll_if_stale w t\<lparr>count := c\<rparr>) (m(bucket_of (window_secs w) t := c)) t"
  using assms by (simp add: tracks_def)

lemma tracks_check_and_increment:
  assumes "tracks w m t"
  shows "tracks (fst (check_and_increment w t d l))
           (if sat_add (m (bucket_of (window_secs w) t)) d > l then m
            else m(bucket_of (window_secs w) t := sat_add (m (bucket_of (window_secs w) t)) d)) t"
  using tracks_roll [OF assms] tracks_upd [OF assms, of "sat_add (used w t) d"]
  by (simp add: window_ops_def tracks_used [OF assms])

lemma tracks_window_add:
  assumes "tracks w m t"
  shows "tracks (window_add w t d)
           (m(bucket_of (window_secs w) t := sat_add (m (bucket_of (window_secs w) t)) d)) t"
  using tracks_upd [OF assms, of "sat_add (used w t) d"]
  by (simp add: window_ops_def tracks_used [OF assms])

section \<open>A run of requests against one limit\<close>

fun window_run :: "window_counter \<Rightarrow> nat \<Rightarrow> nat list \<Rightarrow> (nat \<times> window_check) list" where
  "window_run w limit [] = []"
| "window_run w limit (t # ts) =
     (let (w', r) = check_and_increment w t 1 limit in (t, r) # window_run w' limit ts)"

definition admitted_in :: "nat \<Rightarrow> nat \<Rightarrow> (nat \<times> window_check) list \<Rightarrow> nat" where
  "admitted_in secs b rs = length (filter (\<lambda>(t, r). r = WOk \<and> bucket_of secs t = b) rs)"

definition arrivals_in :: "nat \<Rightarrow> nat \<Rightarrow> nat list \<Rightarrow> nat" where
  "arrivals_in secs b ts = length (filter (\<lambda>t. bucket_of secs t = b) ts)"

lemma admitted_in_Cons:
  "admitted_in secs b ((t, r) # rs) =
     (if r = WOk \<and> bucket_of secs t = b then 1 else 0) + admitted_in secs b rs"
  by (simp add: admitted_in_def)

lemma arrivals_in_Cons:
  "arrivals_in secs b (t # ts) = (if bucket_of secs t = b then 1 else 0) + arrivals_in secs b ts"
  by (simp add: arrivals_in_def)

lemma arrivals_in_past:
  assumes "\<forall>t \<in> set ts. s \<le> t" and "b < bucket_of secs s"
  shows "arrivals_in secs b ts = 0"
proof -
  have "bucket_of secs t \<noteq> b" if "t \<in> set ts" for t
    using bucket_of_mono [of s t secs] assms that by fastforce
  then show ?thesis by (simp add: arrivals_in_def filter_empty_conv)
qed

lemma admitted_le_arrivals:
  "admitted_in secs b (window_run w limit ts) \<le> arrivals_in secs b ts"
proof (induction ts arbitrary: w)
  case Nil
  then show ?case by (simp add: admitted_in_def)
next
  case (Cons t ts)
  from Cons.IH [of "fst (check_and_increment w t 1 limit)"] show ?case
    by (auto simp: split_beta admitted_in_Cons arrivals_in_Cons)
qed

text \<open>One request against the per-window counts: it is admitted while its window is below the
  limit, and only an admitted request is counted.\<close>

lemma tracks_unit_request:
  assumes "tracks w m t" and "limit < u64_max" and "m (bucket_of (window_secs w) t) \<le> limit"
  defines "b \<equiv> bucket_of (window_secs w) t"
  shows "tracks (fst (check_and_increment w t 1 limit))
           (if m b < limit then m(b := Suc (m b)) else m) t"
    and "snd (check_and_increment w t 1 limit) = WOk \<longleftrightarrow> m b < limit"
proof -
  have sat: "sat_add (m b) 1 = Suc (m b)"
    using assms(2,3) by (simp add: sat_add_def b_def)
  show "tracks (fst (check_and_increment w t 1 limit))
           (if m b < limit then m(b := Suc (m b)) else m) t"
    using tracks_check_and_increment [OF assms(1), of 1 limit]
    by (simp add: b_def [symmetric] sat del: One_nat_def split: if_splits)
  show "snd (check_and_increment w t 1 limit) = WOk \<longleftrightarrow> m b < limit"
    using tracks_used [OF assms(1)]
    by (simp add: b_def [symmetric] result_check_and_increment sat del: One_nat_def)
qed

lemma window_run_counts:
  assumes "sorted ts" and "\<forall>t \<in> set ts. s \<le> t"
    and "tracks w m s" and "limit < u64_max" and "\<forall>b. m b \<le> limit"
  shows "m b + admitted_in (window_secs w) b (window_run w limit ts) =
           (if bucket_of (window_secs w) s \<le> b
            then min limit (m b + arrivals_in (window_secs w) b ts) else m b)"
  using assms
proof (induction ts arbitrary: w m s)
  case Nil
  then show ?case by (simp add: admitted_in_def arrivals_in_def)
next
  case (Cons t ts)
  let ?secs = "window_secs w"
  let ?c = "bucket_of ?secs t"
  let ?w = "fst (check_and_increment w t 1 limit)"
  let ?m = "if m ?c < limit then m(?c := Suc (m ?c)) else m"
  have st: "s \<le> t" using Cons.prems(2) by simp
  have tr: "tracks w m t" using tracks_later [OF Cons.prems(3) st] .
  note step = tracks_unit_request [OF tr Cons.prems(4) Cons.prems(5) [rule_format]]
  have bound: "\<forall>b. ?m b \<le> limit" using Cons.prems(5) by simp
  have later: "\<forall>u \<in> set ts. t \<le> u" and srt: "sorted ts" using Cons.prems(1) by auto
  have IH: "?m b + admitted_in ?secs b (window_run ?w limit ts) =
      (if ?c \<le> b then min limit (?m b + arrivals_in ?secs b ts) else ?m b)"
    using Cons.IH [OF srt later step(1) Cons.prems(4) bound] by simp
  have run: "window_run w limit (t # ts) =
      (t, snd (check_and_increment w t 1 limit)) # window_run ?w limit ts"
    by (simp add: split_beta)
  show ?case
  proof (cases "?c \<le> b")
    case True
    with bucket_of_mono [OF st, of ?secs] have "bucket_of ?secs s \<le> b" by simp
    with True IH Cons.prems(5) [rule_format, of ?c] show ?thesis
      unfolding run admitted_in_Cons arrivals_in_Cons step(2)
      by (cases "m ?c < limit"; cases "b = ?c") auto
  next
    case False
    then have "arrivals_in ?secs b (t # ts) = 0"
      using Cons.prems(1) by (intro arrivals_in_past [of _ t]) auto
    with admitted_le_arrivals [of ?secs b w limit "t # ts"] Cons.prems(5) show ?thesis by simp
  qed
qed

text \<open>Starting from a new counter every window admits exactly the smaller of its limit and its
  arrivals.\<close>

lemma window_run_fresh:
  assumes "secs > 0" and "sorted ts" and "limit < u64_max"
  shows "admitted_in secs b (window_run (fresh_window secs) limit ts) =
           min limit (arrivals_in secs b ts)"
proof -
  have "window_secs (fresh_window secs) = secs" by (simp add: fresh_window_def)
  moreover have "bucket_of secs 0 = 0" by (simp add: bucket_of_def)
  ultimately show ?thesis
    using window_run_counts [of ts 0 "fresh_window secs" "\<lambda>_. 0" limit b]
      tracks_fresh [OF assms(1), of 0] assms by simp
qed

section \<open>Main results\<close>

text \<open>C13. A fixed window admits exactly the smaller of its limit and its arrivals: for every
  sequence of request times that never runs backwards and every window, the number of admitted
  requests is the minimum of the two, so no request is lost and none is let through.\<close>

theorem window_admits_exactly:
  assumes "secs > 0" and "sorted ts" and "limit < u64_max"
  shows "admitted_in secs b (window_run (fresh_window secs) limit ts) =
           min limit (arrivals_in secs b ts)"
  by (rule window_run_fresh [OF assms])

theorem window_admits_exactly_witness:
  "admitted_in 60 60 (window_run (fresh_window 60) 2 [59, 60, 61, 119, 120]) = 2"
  using window_admits_exactly [of 60 "[59, 60, 61, 119, 120]" 2 60]
  by (simp add: arrivals_in_def bucket_of_def u64_max_def)

text \<open>The retry hint of a refusal is the least wait that helps: the same request repeated any
  time before it is refused again, and repeated exactly then it is admitted, provided it fits
  the limit at all.\<close>

theorem retry_hint_least_wait:
  assumes "window_secs w > 0" and "check_and_increment w now d limit = (w', WFull h)"
    and "d \<le> limit" and "limit \<le> u64_max"
  shows "1 \<le> h \<and> h \<le> window_secs w \<and>
         (\<forall>h' < h. snd (check_and_increment w' (now + h') d limit) \<noteq> WOk) \<and>
         snd (check_and_increment w' (now + h) d limit) = WOk"
proof (intro conjI allI impI)
  from assms(2) have w': "w' = roll_if_stale w now" and h: "h = retry_hint (roll_if_stale w now) now"
    and full: "limit < sat_add (used w now) d"
    by (auto simp: check_and_increment_def Let_def split: if_splits)
  show "1 \<le> h" and "h \<le> window_secs w"
    unfolding h using retry_hint_bounds [OF assms(1)] by simp_all
  show "snd (check_and_increment w' (now + h') d limit) \<noteq> WOk" if "h' < h" for h'
  proof -
    have "bucket_of (window_secs w) (now + h') = bucket_of (window_secs w) now"
      using that retry_hint_exact [OF assms(1), of now] bucket_of_same_window [OF assms(1), of now "now + h'"]
      by (simp add: h)
    then show ?thesis
      using full by (simp add: result_check_and_increment w' roll_current)
  qed
  show "snd (check_and_increment w' (now + h) d limit) = WOk"
  proof -
    have "used w' (now + h) = 0"
      using bucket_changes_after_hint [OF assms(1), of now] assms(1) by (simp add: w' h count_roll)
    with assms(3,4) show ?thesis by (simp add: result_check_and_increment sat_add_def)
  qed
qed

theorem retry_hint_least_wait_witness:
  "check_and_increment \<lparr>window_secs = 60, window_start = 60, count = 3\<rparr> 100 1 3 =
     (\<lparr>window_secs = 60, window_start = 60, count = 3\<rparr>, WFull 20)
   \<and> snd (check_and_increment \<lparr>window_secs = 60, window_start = 60, count = 3\<rparr> (100 + 20) 1 3) = WOk"
proof -
  have *: "check_and_increment \<lparr>window_secs = 60, window_start = 60, count = 3\<rparr> 100 1 3 =
     (\<lparr>window_secs = 60, window_start = 60, count = 3\<rparr>, WFull 20)"
    by (simp add: check_and_increment_def roll_if_stale_def bucket_of_def sat_add_def sat_sub_def
        u64_max_def retry_hint_def Let_def)
  moreover have "snd (check_and_increment \<lparr>window_secs = 60, window_start = 60, count = 3\<rparr>
      (100 + 20) 1 3) = WOk"
    using retry_hint_least_wait [OF _ *] by (simp add: u64_max_def)
  ultimately show ?thesis by (rule conjI)
qed

end
