(* ===== verification/Rate_Limit.thy ===== *)
theory Rate_Limit
  imports Prelude
begin

text \<open>
  The limit configuration of \<^verbatim>\<open>crates/aisix-core/src/models/rate_limit.rs\<close>, the error
  taxonomy of \<^verbatim>\<open>crates/aisix-ratelimit/src/error.rs\<close> and the windowed dimensions of
  \<^verbatim>\<open>crates/aisix-ratelimit/src/store/mod.rs\<close> that both counter backends share.
\<close>

section \<open>Configuration\<close>

record rate_limit =
  tpm :: "nat option"
  tph :: "nat option"
  tpd :: "nat option"
  rps :: "nat option"
  rpm :: "nat option"
  rph :: "nat option"
  rpd :: "nat option"
  concurrency :: "nat option"
  granted_micro_usd :: "nat option"

definition rate_limit_default :: rate_limit where
  "rate_limit_default =
     \<lparr>tpm = None, tph = None, tpd = None, rps = None, rpm = None, rph = None, rpd = None,
      concurrency = None, granted_micro_usd = None\<rparr>"

definition is_unrestricted :: "rate_limit \<Rightarrow> bool" where
  "is_unrestricted l \<longleftrightarrow>
     tpm l = None \<and> tph l = None \<and> tpd l = None \<and> rps l = None \<and> rpm l = None \<and>
     rph l = None \<and> rpd l = None \<and> concurrency l = None \<and> granted_micro_usd l = None"

record mcp_rate_limit =
  mcp_rps :: "nat option"
  mcp_rpm :: "nat option"
  mcp_rph :: "nat option"
  mcp_rpd :: "nat option"
  mcp_concurrency :: "nat option"

definition mcp_is_unrestricted :: "mcp_rate_limit \<Rightarrow> bool" where
  "mcp_is_unrestricted m \<longleftrightarrow>
     mcp_rps m = None \<and> mcp_rpm m = None \<and> mcp_rph m = None \<and> mcp_rpd m = None \<and>
     mcp_concurrency m = None"

definition rate_limit_from_mcp :: "mcp_rate_limit \<Rightarrow> rate_limit" where
  "rate_limit_from_mcp m =
     \<lparr>tpm = None, tph = None, tpd = None, rps = mcp_rps m, rpm = mcp_rpm m, rph = mcp_rph m,
      rpd = mcp_rpd m, concurrency = mcp_concurrency m, granted_micro_usd = None\<rparr>"

section \<open>Errors\<close>

datatype rate_limit_scope = ScopeRequests | ScopeTokens

definition CONCURRENCY_RETRY_AFTER_SECS :: nat where
  "CONCURRENCY_RETRY_AFTER_SECS = 60"

definition CONCURRENCY_DIMENSION :: string where
  "CONCURRENCY_DIMENSION = ''concurrency''"

record limit_detail =
  dimension :: string
  limit :: nat
  remaining :: nat
  reset_secs :: nat

definition detail_window :: "string \<Rightarrow> nat \<Rightarrow> nat \<Rightarrow> nat \<Rightarrow> limit_detail" where
  "detail_window dim lim used_now reset =
     \<lparr>dimension = dim, limit = lim, remaining = sat_sub lim used_now, reset_secs = reset\<rparr>"

definition detail_concurrency :: "nat \<Rightarrow> nat \<Rightarrow> limit_detail" where
  "detail_concurrency lim in_flight_now =
     \<lparr>dimension = CONCURRENCY_DIMENSION, limit = lim, remaining = sat_sub lim in_flight_now,
      reset_secs = CONCURRENCY_RETRY_AFTER_SECS\<rparr>"

datatype rate_limit_error =
    Requests rate_limit_scope limit_detail
  | Tokens rate_limit_scope limit_detail
  | Concurrency limit_detail
  | AllowanceExhausted

fun error_scope :: "rate_limit_error \<Rightarrow> rate_limit_scope" where
  "error_scope (Requests scope _) = scope"
| "error_scope (Tokens scope _) = scope"
| "error_scope (Concurrency _) = ScopeRequests"
| "error_scope AllowanceExhausted = ScopeTokens"

fun error_detail :: "rate_limit_error \<Rightarrow> limit_detail option" where
  "error_detail (Requests _ d) = Some d"
| "error_detail (Tokens _ d) = Some d"
| "error_detail (Concurrency d) = Some d"
| "error_detail AllowanceExhausted = None"

definition error_retry_after_secs :: "rate_limit_error \<Rightarrow> nat option" where
  "error_retry_after_secs e = map_option reset_secs (error_detail e)"

section \<open>Windowed dimensions\<close>

definition SECOND_SECS :: nat where "SECOND_SECS = 1"
definition MINUTE_SECS :: nat where "MINUTE_SECS = 60"
definition HOUR_SECS :: nat where "HOUR_SECS = 60 * 60"
definition DAY_SECS :: nat where "DAY_SECS = 24 * 60 * 60"

lemmas window_widths = SECOND_SECS_def MINUTE_SECS_def HOUR_SECS_def DAY_SECS_def

definition DIM_RPS :: string where "DIM_RPS = ''rps''"
definition DIM_RPM :: string where "DIM_RPM = ''rpm''"
definition DIM_RPH :: string where "DIM_RPH = ''rph''"
definition DIM_RPD :: string where "DIM_RPD = ''rpd''"
definition DIM_TPM :: string where "DIM_TPM = ''tpm''"
definition DIM_TPH :: string where "DIM_TPH = ''tph''"
definition DIM_TPD :: string where "DIM_TPD = ''tpd''"

lemmas dim_names =
  DIM_RPS_def DIM_RPM_def DIM_RPH_def DIM_RPD_def DIM_TPM_def DIM_TPH_def DIM_TPD_def

record dim =
  dim_name :: string
  dim_secs :: nat
  dim_limit :: nat

fun dims_of :: "(string \<times> nat \<times> nat option) list \<Rightarrow> dim list" where
  "dims_of [] = []"
| "dims_of ((n, secs, None) # ds) = dims_of ds"
| "dims_of ((n, secs, Some l) # ds) =
     \<lparr>dim_name = n, dim_secs = secs, dim_limit = l\<rparr> # dims_of ds"

definition request_dims :: "rate_limit \<Rightarrow> dim list" where
  "request_dims l = dims_of
     [(DIM_RPS, SECOND_SECS, rps l), (DIM_RPM, MINUTE_SECS, rpm l),
      (DIM_RPH, HOUR_SECS, rph l), (DIM_RPD, DAY_SECS, rpd l)]"

definition token_dims :: "rate_limit \<Rightarrow> dim list" where
  "token_dims l = dims_of
     [(DIM_TPM, MINUTE_SECS, tpm l), (DIM_TPH, HOUR_SECS, tph l), (DIM_TPD, DAY_SECS, tpd l)]"

lemma window_widths_pos [simp]:
  "SECOND_SECS > 0" "MINUTE_SECS > 0" "HOUR_SECS > 0" "DAY_SECS > 0"
  by (simp_all add: window_widths)

lemma dims_of_append: "dims_of (xs @ ys) = dims_of xs @ dims_of ys"
  by (induction xs rule: dims_of.induct) auto

lemma dims_of_step:
  "dims_of ((n, secs, x) # ds) =
     (case x of None \<Rightarrow> dims_of ds
      | Some l \<Rightarrow> \<lparr>dim_name = n, dim_secs = secs, dim_limit = l\<rparr> # dims_of ds)"
  by (cases x) simp_all

text \<open>A limit record is unrestricted exactly when no gate of the limiter has anything to check.\<close>

lemma is_unrestricted_iff:
  "is_unrestricted l \<longleftrightarrow>
     request_dims l = [] \<and> token_dims l = [] \<and> concurrency l = None \<and>
     granted_micro_usd l = None"
  by (auto simp: is_unrestricted_def request_dims_def token_dims_def dims_of_step
      split: option.splits)

lemma rate_limit_from_mcp_unrestricted:
  "is_unrestricted (rate_limit_from_mcp m) = mcp_is_unrestricted m"
  by (auto simp: is_unrestricted_def mcp_is_unrestricted_def rate_limit_from_mcp_def)

text \<open>MCP limits never carry a token dimension nor an allowance.\<close>

lemma rate_limit_from_mcp_tokens:
  "token_dims (rate_limit_from_mcp m) = []" "granted_micro_usd (rate_limit_from_mcp m) = None"
  by (simp_all add: token_dims_def rate_limit_from_mcp_def)

text \<open>Only an exhausted allowance is reported without a retry hint.\<close>

lemma error_retry_None: "error_retry_after_secs e = None \<longleftrightarrow> e = AllowanceExhausted"
  by (cases e) (simp_all add: error_retry_after_secs_def)

section \<open>The admission decision as a specification\<close>

text \<open>
  What both backends have to decide for one bucket: \<open>cur\<close> gives the count of each dimension in
  its current window, \<open>inflight\<close> the slots held, \<open>consumed\<close> the micro-USD spent. The first
  gate that refuses, in the order concurrency, allowance, token windows, request windows, is
  reported; inside a group the order is that of the dimension list.
\<close>

fun first_refusal :: "(string \<Rightarrow> nat) \<Rightarrow> nat \<Rightarrow> dim list \<Rightarrow> limit_detail option" where
  "first_refusal cur now [] = None"
| "first_refusal cur now (d # ds) =
     (if dim_limit d \<le> cur (dim_name d)
      then Some (detail_window (dim_name d) (dim_limit d) (cur (dim_name d))
                   (dim_secs d - now mod dim_secs d))
      else first_refusal cur now ds)"

definition acquire_verdict ::
    "(string \<Rightarrow> nat) \<Rightarrow> nat \<Rightarrow> nat \<Rightarrow> nat \<Rightarrow> rate_limit \<Rightarrow> rate_limit_error option" where
  "acquire_verdict cur inflight consumed now l =
     (if \<exists>mx. concurrency l = Some mx \<and> mx \<le> inflight
      then Some (Concurrency (detail_concurrency (the (concurrency l)) inflight))
      else if \<exists>g. granted_micro_usd l = Some g \<and> g \<le> consumed then Some AllowanceExhausted
      else (case first_refusal cur now (token_dims l) of
              Some d \<Rightarrow> Some (Tokens ScopeTokens d)
            | None \<Rightarrow> map_option (Requests ScopeRequests) (first_refusal cur now (request_dims l))))"

lemma first_refusal_None:
  "first_refusal cur now ds = None \<longleftrightarrow> (\<forall>d \<in> set ds. cur (dim_name d) < dim_limit d)"
  by (induction ds) auto

lemma first_refusal_Some:
  "first_refusal cur now ds = Some x \<Longrightarrow>
     \<exists>d \<in> set ds. dim_limit d \<le> cur (dim_name d) \<and>
       x = detail_window (dim_name d) (dim_limit d) (cur (dim_name d))
             (dim_secs d - now mod dim_secs d)"
  by (induction ds) (auto split: if_splits)

lemma dims_of_secs:
  "d \<in> set (dims_of xs) \<Longrightarrow> \<exists>n x. (n, dim_secs d, x) \<in> set xs"
proof (induction xs rule: dims_of.induct)
  case (3 n secs l ds)
  then show ?case by (cases "d \<in> set (dims_of ds)") auto
qed auto

lemma dims_secs_pos:
  assumes "d \<in> set (request_dims l) \<union> set (token_dims l)"
  shows "dim_secs d > 0"
  using assms dims_of_secs [of d] by (fastforce simp: request_dims_def token_dims_def)

text \<open>Every windowed refusal reports no headroom and a hint of at least one second that does not
  outlast its window.\<close>

lemma first_refusal_detail:
  assumes "first_refusal cur now ds = Some x" and "\<forall>d \<in> set ds. dim_secs d > 0"
  shows "remaining x = 0" and "1 \<le> reset_secs x" and "\<exists>d \<in> set ds. reset_secs x \<le> dim_secs d"
proof -
  from first_refusal_Some [OF assms(1)] obtain d where d: "d \<in> set ds"
    "dim_limit d \<le> cur (dim_name d)"
    "x = detail_window (dim_name d) (dim_limit d) (cur (dim_name d))
           (dim_secs d - now mod dim_secs d)" by blast
  from d(1) assms(2) have "now mod dim_secs d < dim_secs d" by simp
  with d show "remaining x = 0" and "1 \<le> reset_secs x" and "\<exists>d \<in> set ds. reset_secs x \<le> dim_secs d"
    by (simp_all add: detail_window_def sat_sub_def bexI [of _ d])
qed

end
