(* ===== verification/Local_Store.thy ===== *)
theory Local_Store
  imports Window Rate_Limit
begin

text \<open>
  The in-process counter store of \<^verbatim>\<open>crates/aisix-ratelimit/src/store/local.rs\<close>. The
  \<^verbatim>\<open>DashMap\<close> of locked key states is a map from bucket keys to \<open>key_state\<close>; an operation
  takes the store and the clock reading and returns the updated store with its result. Every
  operation locks one key state for its whole body, so one operation is one step.
\<close>

section \<open>State\<close>

record key_state =
  ks_rps :: window_counter
  ks_rpm :: window_counter
  ks_rph :: window_counter
  ks_rpd :: window_counter
  ks_tpm :: window_counter
  ks_tph :: window_counter
  ks_tpd :: window_counter
  consumed_micro_usd :: nat
  carries_allowance :: bool
  in_flight :: "string set"
  last_touched :: nat

definition key_state_new :: "nat \<Rightarrow> key_state" where
  "key_state_new now =
     \<lparr>ks_rps = fresh_window SECOND_SECS, ks_rpm = fresh_window MINUTE_SECS,
      ks_rph = fresh_window HOUR_SECS, ks_rpd = fresh_window DAY_SECS,
      ks_tpm = fresh_window MINUTE_SECS, ks_tph = fresh_window HOUR_SECS,
      ks_tpd = fresh_window DAY_SECS,
      consumed_micro_usd = 0, carries_allowance = False, in_flight = {}, last_touched = now\<rparr>"

record local_store =
  states :: "string \<rightharpoonup> key_state"
  claims :: "string \<rightharpoonup> nat"

definition local_store_new :: local_store where
  "local_store_new = \<lparr>states = Map.empty, claims = Map.empty\<rparr>"

text \<open>The key's state, created when the bucket is seen for the first time. \<open>put_state\<close> writes
  the locked state back.\<close>

definition state_for :: "local_store \<Rightarrow> nat \<Rightarrow> string \<Rightarrow> key_state" where
  "state_for st now key = (case states st key of Some s \<Rightarrow> s | None \<Rightarrow> key_state_new now)"

definition put_state :: "local_store \<Rightarrow> string \<Rightarrow> key_state \<Rightarrow> local_store" where
  "put_state st key s = st\<lparr>states := (states st)(key \<mapsto> s)\<rparr>"

definition note_allowance :: "local_store \<Rightarrow> nat \<Rightarrow> string \<Rightarrow> rate_limit \<Rightarrow> local_store" where
  "note_allowance st now key l =
     (if granted_micro_usd l \<noteq> None
      then put_state st key ((state_for st now key)\<lparr>carries_allowance := True\<rparr>)
      else (case states st key of
              Some s \<Rightarrow> put_state st key (s\<lparr>carries_allowance := False\<rparr>)
            | None \<Rightarrow> st))"

definition reap_keeps :: "nat \<Rightarrow> key_state \<Rightarrow> bool" where
  "reap_keeps cutoff s \<longleftrightarrow>
     in_flight s \<noteq> {} \<or> last_touched s \<ge> cutoff \<or>
     (carries_allowance s \<and> consumed_micro_usd s > 0)"

definition reap :: "local_store \<Rightarrow> nat \<Rightarrow> nat \<Rightarrow> local_store" where
  "reap st now idle_secs =
     (let cutoff = sat_sub now idle_secs
      in st\<lparr>states := (\<lambda>key. case states st key of
                                None \<Rightarrow> None
                              | Some s \<Rightarrow> if reap_keeps cutoff s then Some s else None)\<rparr>)"

section \<open>Acquire\<close>

text \<open>A stage of the acquire body returns the key state it leaves behind and, when it refuses,
  the error it returns with.\<close>

definition acquire_concurrency :: "key_state \<Rightarrow> rate_limit \<Rightarrow> rate_limit_error option" where
  "acquire_concurrency s l =
     (case concurrency l of
        None \<Rightarrow> None
      | Some mx \<Rightarrow>
          if as_u32 (card (in_flight s)) \<ge> mx
          then Some (Concurrency (detail_concurrency mx (card (in_flight s))))
          else None)"

definition acquire_allowance ::
    "key_state \<Rightarrow> rate_limit \<Rightarrow> key_state \<times> rate_limit_error option" where
  "acquire_allowance s l =
     (let s1 = s\<lparr>carries_allowance := (granted_micro_usd l \<noteq> None)\<rparr>
      in case granted_micro_usd l of
           None \<Rightarrow> (s1, None)
         | Some granted \<Rightarrow>
             if consumed_micro_usd s1 \<ge> granted then (s1, Some AllowanceExhausted)
             else (s1, None))"

text \<open>Check one token window: refuse when it is used up, else leave it rolled.\<close>

definition token_gate ::
    "window_counter \<Rightarrow> nat \<Rightarrow> string \<Rightarrow> nat option \<Rightarrow> window_counter \<times> rate_limit_error option"
  where
  "token_gate w now dim x =
     (case x of
        None \<Rightarrow> (w, None)
      | Some mx \<Rightarrow>
          (case is_exceeded w now mx of
             (w1, Some retry) \<Rightarrow>
               (let (w2, u) = window_current w1 now
                in (w2, Some (Tokens ScopeTokens (detail_window dim mx u retry))))
           | (w1, None) \<Rightarrow> (w1, None)))"

definition acquire_tokens ::
    "key_state \<Rightarrow> nat \<Rightarrow> rate_limit \<Rightarrow> key_state \<times> rate_limit_error option" where
  "acquire_tokens s now l =
     (case token_gate (ks_tpm s) now DIM_TPM (tpm l) of
        (w, Some e) \<Rightarrow> (s\<lparr>ks_tpm := w\<rparr>, Some e)
      | (w, None) \<Rightarrow>
          (let s1 = s\<lparr>ks_tpm := w\<rparr>
           in case token_gate (ks_tph s1) now DIM_TPH (tph l) of
                (w', Some e) \<Rightarrow> (s1\<lparr>ks_tph := w'\<rparr>, Some e)
              | (w', None) \<Rightarrow>
                  (let s2 = s1\<lparr>ks_tph := w'\<rparr>
                   in case token_gate (ks_tpd s2) now DIM_TPD (tpd l) of
                        (w'', r) \<Rightarrow> (s2\<lparr>ks_tpd := w''\<rparr>, r))))"

text \<open>Check and increment one request window. The flag of the result says whether the window
  was incremented, that is, whether a later refusal has to take the increment back.\<close>

definition request_gate ::
    "window_counter \<Rightarrow> nat \<Rightarrow> string \<Rightarrow> nat option \<Rightarrow>
     window_counter \<times> bool \<times> rate_limit_error option" where
  "request_gate w now dim x =
     (case x of
        None \<Rightarrow> (w, False, None)
      | Some mx \<Rightarrow>
          (case check_and_increment w now 1 mx of
             (w1, WFull retry) \<Rightarrow>
               (let (w2, u) = window_current w1 now
                in (w2, False, Some (Requests ScopeRequests (detail_window dim mx u retry))))
           | (w1, WOk) \<Rightarrow> (w1, True, None)))"

definition undo_if :: "bool \<Rightarrow> window_counter \<Rightarrow> nat \<Rightarrow> window_counter" where
  "undo_if incremented w now = (if incremented then decrement w now 1 else w)"

definition acquire_requests ::
    "key_state \<Rightarrow> nat \<Rightarrow> rate_limit \<Rightarrow> key_state \<times> rate_limit_error option" where
  "acquire_requests s now l =
     (case request_gate (ks_rps s) now DIM_RPS (rps l) of
        (w, _, Some e) \<Rightarrow> (s\<lparr>ks_rps := w\<rparr>, Some e)
      | (w, rps_incremented, None) \<Rightarrow>
     (let s1 = s\<lparr>ks_rps := w\<rparr>
      in case request_gate (ks_rpm s1) now DIM_RPM (rpm l) of
        (w, _, Some e) \<Rightarrow>
          (s1\<lparr>ks_rpm := w, ks_rps := undo_if rps_incremented (ks_rps s1) now\<rparr>, Some e)
      | (w, rpm_incremented, None) \<Rightarrow>
     (let s2 = s1\<lparr>ks_rpm := w\<rparr>
      in case request_gate (ks_rph s2) now DIM_RPH (rph l) of
        (w, _, Some e) \<Rightarrow>
          (s2\<lparr>ks_rph := w, ks_rpm := undo_if rpm_incremented (ks_rpm s2) now,
              ks_rps := undo_if rps_incremented (ks_rps s2) now\<rparr>, Some e)
      | (w, rph_incremented, None) \<Rightarrow>
     (let s3 = s2\<lparr>ks_rph := w\<rparr>
      in case request_gate (ks_rpd s3) now DIM_RPD (rpd l) of
        (w, _, Some e) \<Rightarrow>
          (s3\<lparr>ks_rpd := w, ks_rph := undo_if rph_incremented (ks_rph s3) now,
              ks_rpm := undo_if rpm_incremented (ks_rpm s3) now,
              ks_rps := undo_if rps_incremented (ks_rps s3) now\<rparr>, Some e)
      | (w, _, None) \<Rightarrow> (s3\<lparr>ks_rpd := w\<rparr>, None)))))"

definition key_acquire ::
    "key_state \<Rightarrow> nat \<Rightarrow> rate_limit \<Rightarrow> string \<Rightarrow> key_state \<times> (rate_limit_error + unit)" where
  "key_acquire s now l member =
     (case acquire_concurrency s l of
        Some e \<Rightarrow> (s, Inl e)
      | None \<Rightarrow>
     (case acquire_allowance s l of
        (s1, Some e) \<Rightarrow> (s1, Inl e)
      | (s1, None) \<Rightarrow>
     (case acquire_tokens s1 now l of
        (s2, Some e) \<Rightarrow> (s2, Inl e)
      | (s2, None) \<Rightarrow>
     (case acquire_requests s2 now l of
        (s3, Some e) \<Rightarrow> (s3, Inl e)
      | (s3, None) \<Rightarrow>
          (s3\<lparr>in_flight := insert member (in_flight s3), last_touched := now\<rparr>, Inr ())))))"

definition acquire ::
    "local_store \<Rightarrow> nat \<Rightarrow> string \<Rightarrow> rate_limit \<Rightarrow> string \<Rightarrow>
     local_store \<times> (rate_limit_error + unit)" where
  "acquire st now key l member =
     (let (s, r) = key_acquire (state_for st now key) now l member in (put_state st key s, r))"

section \<open>Commit, release, post-stream accounting\<close>

definition charge :: "key_state \<Rightarrow> nat \<Rightarrow> nat \<Rightarrow> key_state" where
  "charge s now tokens =
     s\<lparr>ks_tpm := window_add (ks_tpm s) now tokens, ks_tph := window_add (ks_tph s) now tokens,
       ks_tpd := window_add (ks_tpd s) now tokens,
       consumed_micro_usd := sat_add (consumed_micro_usd s) tokens\<rparr>"

definition commit :: "local_store \<Rightarrow> nat \<Rightarrow> string \<Rightarrow> nat \<Rightarrow> string \<Rightarrow> local_store" where
  "commit st now key tokens member =
     (let s = charge (state_for st now key) now tokens
      in put_state st key (s\<lparr>in_flight := in_flight s - {member}, last_touched := now\<rparr>))"

definition release :: "local_store \<Rightarrow> nat \<Rightarrow> string \<Rightarrow> string \<Rightarrow> local_store" where
  "release st now key member =
     (case states st key of
        None \<Rightarrow> st
      | Some s \<Rightarrow>
          put_state st key (s\<lparr>in_flight := in_flight s - {member}, last_touched := now\<rparr>))"

definition add_tokens :: "local_store \<Rightarrow> nat \<Rightarrow> string \<Rightarrow> nat \<Rightarrow> local_store" where
  "add_tokens st now key tokens =
     (if tokens = 0 then st
      else put_state st key ((charge (state_for st now key) now tokens)\<lparr>last_touched := now\<rparr>))"

fun add_tokens_all :: "local_store \<Rightarrow> nat \<Rightarrow> string list \<Rightarrow> nat \<Rightarrow> local_store" where
  "add_tokens_all st now [] tokens = st"
| "add_tokens_all st now (key # keys) tokens =
     add_tokens_all (add_tokens st now key tokens) now keys tokens"

section \<open>One-shot claims and the status snapshot\<close>

definition claim_once :: "local_store \<Rightarrow> nat \<Rightarrow> string \<Rightarrow> nat \<Rightarrow> local_store \<times> bool" where
  "claim_once st now key ttl_secs =
     (let live = (\<lambda>k. case claims st k of
                        None \<Rightarrow> None
                      | Some expires_at \<Rightarrow> if expires_at > now then Some expires_at else None)
      in case live key of
           Some _ \<Rightarrow> (st\<lparr>claims := live\<rparr>, False)
         | None \<Rightarrow> (st\<lparr>claims := live(key \<mapsto> sat_add now (max ttl_secs 1))\<rparr>, True))"

definition local_key_count :: "local_store \<Rightarrow> nat option" where
  "local_key_count st = Some (card (dom (states st)))"

record rate_limit_status =
  rpm_limit :: "nat option"
  rpm_used :: nat
  rpm_reset_secs :: nat
  tpm_limit :: "nat option"
  tpm_used :: nat
  tpm_reset_secs :: nat
  concurrency_limit :: "nat option"
  status_in_flight :: nat

definition peek ::
    "local_store \<Rightarrow> nat \<Rightarrow> string \<Rightarrow> rate_limit \<Rightarrow> local_store \<times> rate_limit_status option" where
  "peek st now key l =
     (case states st key of
        None \<Rightarrow> (st, None)
      | Some s \<Rightarrow>
          (let (rw, ru) = window_current (ks_rpm s) now;
               (tw, tu) = window_current (ks_tpm s) now;
               minute_reset = MINUTE_SECS - now mod MINUTE_SECS
           in (put_state st key (s\<lparr>ks_rpm := rw, ks_tpm := tw\<rparr>),
               Some \<lparr>rpm_limit = rpm l, rpm_used = ru, rpm_reset_secs = minute_reset,
                     tpm_limit = tpm l, tpm_used = tu, tpm_reset_secs = minute_reset,
                     concurrency_limit = concurrency l,
                     status_in_flight = as_u32 (card (in_flight s))\<rparr>)))"

definition rpm_remaining :: "rate_limit_status \<Rightarrow> nat option" where
  "rpm_remaining r = map_option (\<lambda>lim. sat_sub lim (rpm_used r)) (rpm_limit r)"

definition tpm_remaining :: "rate_limit_status \<Rightarrow> nat option" where
  "tpm_remaining r = map_option (\<lambda>lim. sat_sub lim (tpm_used r)) (tpm_limit r)"

section \<open>Well-formed key states\<close>

definition ks_wf :: "key_state \<Rightarrow> bool" where
  "ks_wf s \<longleftrightarrow>
     window_wf (ks_rps s) \<and> window_secs (ks_rps s) = SECOND_SECS \<and>
     window_wf (ks_rpm s) \<and> window_secs (ks_rpm s) = MINUTE_SECS \<and>
     window_wf (ks_rph s) \<and> window_secs (ks_rph s) = HOUR_SECS \<and>
     window_wf (ks_rpd s) \<and> window_secs (ks_rpd s) = DAY_SECS \<and>
     window_wf (ks_tpm s) \<and> window_secs (ks_tpm s) = MINUTE_SECS \<and>
     window_wf (ks_tph s) \<and> window_secs (ks_tph s) = HOUR_SECS \<and>
     window_wf (ks_tpd s) \<and> window_secs (ks_tpd s) = DAY_SECS \<and>
     consumed_micro_usd s \<le> u64_max \<and> finite (in_flight s)"

definition store_wf :: "local_store \<Rightarrow> bool" where
  "store_wf st \<longleftrightarrow> (\<forall>key s. states st key = Some s \<longrightarrow> ks_wf s)"

lemma ks_wf_new [simp]: "ks_wf (key_state_new now)"
  by (simp add: ks_wf_def key_state_new_def fresh_window_def window_wf_def u64_max_def)

lemma ks_wf_state_for: "store_wf st \<Longrightarrow> ks_wf (state_for st now key)"
  by (auto simp: store_wf_def state_for_def split: option.splits)

lemma store_wf_new [simp]: "store_wf local_store_new"
  by (simp add: store_wf_def local_store_new_def)

lemma store_wf_put: "store_wf st \<Longrightarrow> ks_wf s \<Longrightarrow> store_wf (put_state st key s)"
  by (simp add: store_wf_def put_state_def)

lemma states_put [simp]:
  "states (put_state st key s) = (states st)(key \<mapsto> s)"
  "claims (put_state st key s) = claims st"
  by (simp_all add: put_state_def)

section \<open>The gates\<close>

lemma token_gate_eq:
  "token_gate w now d x =
     (case x of
        None \<Rightarrow> (w, None)
      | Some mx \<Rightarrow>
          (roll_if_stale w now,
           if mx \<le> used w now
           then Some (Tokens ScopeTokens
                  (detail_window d mx (used w now) (retry_hint (roll_if_stale w now) now)))
           else None))"
  by (auto simp: token_gate_def window_ops_def split: option.splits)

lemma request_gate_eq:
  "request_gate w now d x =
     (case x of
        None \<Rightarrow> (w, False, None)
      | Some mx \<Rightarrow>
          if sat_add (used w now) 1 > mx
          then (roll_if_stale w now, False,
                Some (Requests ScopeRequests
                  (detail_window d mx (used w now) (retry_hint (roll_if_stale w now) now))))
          else (roll_if_stale w now\<lparr>count := sat_add (used w now) 1\<rparr>, True, None))"
  by (auto simp: request_gate_def window_ops_def split: option.splits)

lemma undo_increment:
  assumes "used w now < u64_max"
  shows "undo_if True (roll_if_stale w now\<lparr>count := sat_add (used w now) 1\<rparr>) now =
           roll_if_stale w now"
  using assms by (simp add: undo_if_def decrement_def sat_sub_def sat_add_def)

lemma undo_False [simp]: "undo_if False w now = w"
  by (simp add: undo_if_def)

lemma sat_add_1_gt: "c < u64_max \<Longrightarrow> sat_add c 1 > mx \<longleftrightarrow> mx \<le> c"
  by (auto simp: sat_add_def)

lemma retry_hint_mod:
  assumes "window_secs w = secs" and "secs > 0"
  shows "retry_hint (roll_if_stale w now) now = secs - now mod secs"
proof -
  have "bucket_of secs now + now mod secs = now" by (simp add: bucket_of_def)
  with retry_hint_exact [of w now] assms show ?thesis by simp
qed

section \<open>Counts per dimension\<close>

definition ks_used :: "key_state \<Rightarrow> nat \<Rightarrow> string \<Rightarrow> nat" where
  "ks_used s now d =
     (if d = DIM_RPS then used (ks_rps s) now
      else if d = DIM_RPM then used (ks_rpm s) now
      else if d = DIM_RPH then used (ks_rph s) now
      else if d = DIM_RPD then used (ks_rpd s) now
      else if d = DIM_TPM then used (ks_tpm s) now
      else if d = DIM_TPH then used (ks_tph s) now
      else if d = DIM_TPD then used (ks_tpd s) now
      else 0)"

lemma ks_used_simps [simp]:
  "ks_used s now DIM_RPS = used (ks_rps s) now" "ks_used s now DIM_RPM = used (ks_rpm s) now"
  "ks_used s now DIM_RPH = used (ks_rph s) now" "ks_used s now DIM_RPD = used (ks_rpd s) now"
  "ks_used s now DIM_TPM = used (ks_tpm s) now" "ks_used s now DIM_TPH = used (ks_tph s) now"
  "ks_used s now DIM_TPD = used (ks_tpd s) now"
  by (simp_all add: ks_used_def dim_names)

definition requests_below_max :: "key_state \<Rightarrow> nat \<Rightarrow> bool" where
  "requests_below_max s now \<longleftrightarrow>
     used (ks_rps s) now < u64_max \<and> used (ks_rpm s) now < u64_max \<and>
     used (ks_rph s) now < u64_max \<and> used (ks_rpd s) now < u64_max"

text \<open>\<open>rolled s s' now\<close>: every window of \<open>s'\<close> is that of \<open>s\<close>, possibly moved to the window of
  \<open>now\<close>, and everything else but the allowance mark is untouched.\<close>

definition rolled_window :: "window_counter \<Rightarrow> window_counter \<Rightarrow> nat \<Rightarrow> bool" where
  "rolled_window w w' now \<longleftrightarrow> w' = w \<or> w' = roll_if_stale w now"

definition rolled :: "key_state \<Rightarrow> key_state \<Rightarrow> nat \<Rightarrow> bool" where
  "rolled s s' now \<longleftrightarrow>
     rolled_window (ks_rps s) (ks_rps s') now \<and> rolled_window (ks_rpm s) (ks_rpm s') now \<and>
     rolled_window (ks_rph s) (ks_rph s') now \<and> rolled_window (ks_rpd s) (ks_rpd s') now \<and>
     rolled_window (ks_tpm s) (ks_tpm s') now \<and> rolled_window (ks_tph s) (ks_tph s') now \<and>
     rolled_window (ks_tpd s) (ks_tpd s') now \<and>
     consumed_micro_usd s' = consumed_micro_usd s \<and> in_flight s' = in_flight s \<and>
     last_touched s' = last_touched s"

lemma rolled_window_refl [simp]: "rolled_window w w now"
  and rolled_window_roll [simp]: "rolled_window w (roll_if_stale w now) now"
  by (simp_all add: rolled_window_def)

lemma rolled_window_used: "rolled_window w w' now \<Longrightarrow> used w' now = used w now"
  by (auto simp: rolled_window_def)

lemma rolled_window_secs: "rolled_window w w' now \<Longrightarrow> window_secs w' = window_secs w"
  by (auto simp: rolled_window_def)

lemma rolled_window_wf: "rolled_window w w' now \<Longrightarrow> window_wf w \<Longrightarrow> window_wf w'"
  by (auto simp: rolled_window_def)

lemma rolled_window_trans:
  "rolled_window w w' now \<Longrightarrow> rolled_window w' w'' now \<Longrightarrow> rolled_window w w'' now"
  by (auto simp: rolled_window_def)

lemmas rolled_dests = rolled_window_used rolled_window_secs rolled_window_wf

lemma rolled_used: "rolled s s' now \<Longrightarrow> ks_used s' now = ks_used s now"
  by (auto simp: fun_eq_iff ks_used_def rolled_def dest: rolled_window_used)

lemma rolled_counts:
  assumes "rolled s s' now"
  shows "used (ks_rps s') now = used (ks_rps s) now" "used (ks_rpm s') now = used (ks_rpm s) now"
    "used (ks_rph s') now = used (ks_rph s) now" "used (ks_rpd s') now = used (ks_rpd s) now"
    "used (ks_tpm s') now = used (ks_tpm s) now" "used (ks_tph s') now = used (ks_tph s) now"
    "used (ks_tpd s') now = used (ks_tpd s) now"
  using assms by (auto simp: rolled_def dest: rolled_window_used)

lemma rolled_wf: "rolled s s' now \<Longrightarrow> ks_wf s \<Longrightarrow> ks_wf s'"
  by (auto simp: ks_wf_def rolled_def dest: rolled_dests)

lemma rolled_trans: "rolled s s' now \<Longrightarrow> rolled s' s'' now \<Longrightarrow> rolled s s'' now"
  unfolding rolled_def by (blast intro: rolled_window_trans dest: sym trans)

lemma rolled_refl [simp]: "rolled s s now"
  by (simp add: rolled_def)

lemma requests_below_max_rolled:
  "rolled s s' now \<Longrightarrow> requests_below_max s' now = requests_below_max s now"
  by (auto simp: requests_below_max_def rolled_def dest: rolled_window_used)

section \<open>Acquire, stage by stage\<close>

lemma acquire_concurrency_eq:
  assumes "card (in_flight s) < u32_modulus"
  shows "acquire_concurrency s l =
     (if \<exists>mx. concurrency l = Some mx \<and> mx \<le> card (in_flight s)
      then Some (Concurrency (detail_concurrency (the (concurrency l)) (card (in_flight s))))
      else None)"
  using assms by (auto simp: acquire_concurrency_def arith_simps split: option.splits)

lemma acquire_allowance_eq:
  "acquire_allowance s l =
     (s\<lparr>carries_allowance := (granted_micro_usd l \<noteq> None)\<rparr>,
      if \<exists>g. granted_micro_usd l = Some g \<and> g \<le> consumed_micro_usd s
      then Some AllowanceExhausted else None)"
  by (cases "granted_micro_usd l") (simp_all add: acquire_allowance_def)

lemma acquire_tokens_result:
  assumes "ks_wf s"
  shows "snd (acquire_tokens s now l) =
     map_option (Tokens ScopeTokens) (first_refusal (ks_used s now) now (token_dims l))"
  using assms
  by (auto simp: acquire_tokens_def token_gate_eq token_dims_def dims_of_step ks_wf_def
      retry_hint_mod Let_def split: option.splits)

lemma acquire_tokens_rolled: "rolled s (fst (acquire_tokens s now l)) now"
  by (auto simp: acquire_tokens_def token_gate_eq rolled_def Let_def split: option.splits)

lemma acquire_tokens_allowance [simp]:
  "carries_allowance (fst (acquire_tokens s now l)) = carries_allowance s"
  by (auto simp: acquire_tokens_def token_gate_eq Let_def split: option.splits)

lemma acquire_requests_result:
  assumes "ks_wf s" and "requests_below_max s now"
  shows "snd (acquire_requests s now l) =
     map_option (Requests ScopeRequests) (first_refusal (ks_used s now) now (request_dims l))"
  using assms
  by (auto simp: acquire_requests_def request_gate_eq request_dims_def dims_of_step ks_wf_def
      retry_hint_mod Let_def requests_below_max_def sat_add_1_gt
      simp del: One_nat_def split: option.splits)

text \<open>The chain in terms of the outcomes of its four gates.\<close>

lemma acquire_requests_gates:
  obtains w1 b1 r1 w2 b2 r2 w3 b3 r3 w4 b4 r4 where
    "request_gate (ks_rps s) now DIM_RPS (rps l) = (w1, b1, r1)"
    "request_gate (ks_rpm s) now DIM_RPM (rpm l) = (w2, b2, r2)"
    "request_gate (ks_rph s) now DIM_RPH (rph l) = (w3, b3, r3)"
    "request_gate (ks_rpd s) now DIM_RPD (rpd l) = (w4, b4, r4)"
    "acquire_requests s now l =
       (if r1 \<noteq> None then (s\<lparr>ks_rps := w1\<rparr>, r1)
        else if r2 \<noteq> None then (s\<lparr>ks_rps := undo_if b1 w1 now, ks_rpm := w2\<rparr>, r2)
        else if r3 \<noteq> None
        then (s\<lparr>ks_rps := undo_if b1 w1 now, ks_rpm := undo_if b2 w2 now, ks_rph := w3\<rparr>, r3)
        else if r4 \<noteq> None
        then (s\<lparr>ks_rps := undo_if b1 w1 now, ks_rpm := undo_if b2 w2 now,
                ks_rph := undo_if b3 w3 now, ks_rpd := w4\<rparr>, r4)
        else (s\<lparr>ks_rps := w1, ks_rpm := w2, ks_rph := w3, ks_rpd := w4\<rparr>, None))"
proof -
  obtain w1 b1 r1 where 1: "request_gate (ks_rps s) now DIM_RPS (rps l) = (w1, b1, r1)"
    using prod_cases3 by blast
  obtain w2 b2 r2 where 2: "request_gate (ks_rpm s) now DIM_RPM (rpm l) = (w2, b2, r2)"
    using prod_cases3 by blast
  obtain w3 b3 r3 where 3: "request_gate (ks_rph s) now DIM_RPH (rph l) = (w3, b3, r3)"
    using prod_cases3 by blast
  obtain w4 b4 r4 where 4: "request_gate (ks_rpd s) now DIM_RPD (rpd l) = (w4, b4, r4)"
    using prod_cases3 by blast
  show thesis
    by (rule that [OF 1 2 3 4])
      (simp add: acquire_requests_def Let_def 1 2 3 4 split: option.splits)
qed

lemma request_gate_rolled:
  assumes "request_gate w now d x = (w1, b, r)" and "used w now < u64_max"
  shows "r \<noteq> None \<Longrightarrow> rolled_window w w1 now"
    and "rolled_window w (undo_if b w1 now) now"
  using assms undo_increment [OF assms(2)]
  by (auto simp: request_gate_eq simp del: One_nat_def split: option.splits if_splits)

lemma acquire_requests_refused:
  assumes "requests_below_max s now" and "snd (acquire_requests s now l) \<noteq> None"
  shows "rolled s (fst (acquire_requests s now l)) now"
proof (cases rule: acquire_requests_gates [of s now l])
  case gates: (1 w1 b1 r1 w2 b2 r2 w3 b3 r3 w4 b4 r4)
  have below: "used (ks_rps s) now < u64_max" "used (ks_rpm s) now < u64_max"
    "used (ks_rph s) now < u64_max" "used (ks_rpd s) now < u64_max"
    using assms(1) by (simp_all add: requests_below_max_def)
  note out = request_gate_rolled [OF gates(1) below(1)] request_gate_rolled [OF gates(2) below(2)]
    request_gate_rolled [OF gates(3) below(3)] request_gate_rolled [OF gates(4) below(4)]
  show ?thesis
    using assms(2) out unfolding gates(5) by (simp add: rolled_def split: if_splits)
qed

lemma acquire_requests_frame [simp]:
  "consumed_micro_usd (fst (acquire_requests s now l)) = consumed_micro_usd s"
  "in_flight (fst (acquire_requests s now l)) = in_flight s"
  "last_touched (fst (acquire_requests s now l)) = last_touched s"
  "carries_allowance (fst (acquire_requests s now l)) = carries_allowance s"
  "ks_tpm (fst (acquire_requests s now l)) = ks_tpm s"
  "ks_tph (fst (acquire_requests s now l)) = ks_tph s"
  "ks_tpd (fst (acquire_requests s now l)) = ks_tpd s"
  by (simp_all add: acquire_requests_def Let_def split: prod.splits option.splits)

text \<open>The window an admitting request gate leaves behind.\<close>

definition bumped :: "window_counter \<Rightarrow> nat \<Rightarrow> nat option \<Rightarrow> window_counter" where
  "bumped w now x =
     (case x of None \<Rightarrow> w | Some _ \<Rightarrow> roll_if_stale w now\<lparr>count := sat_add (used w now) 1\<rparr>)"

lemma request_gate_admits:
  "request_gate w now d x = (w', b, None) \<Longrightarrow> w' = bumped w now x"
  by (auto simp: request_gate_eq bumped_def split: option.splits if_splits)

lemma acquire_requests_admitted:
  assumes "snd (acquire_requests s now l) = None"
  shows "ks_rps (fst (acquire_requests s now l)) = bumped (ks_rps s) now (rps l)"
    and "ks_rpm (fst (acquire_requests s now l)) = bumped (ks_rpm s) now (rpm l)"
    and "ks_rph (fst (acquire_requests s now l)) = bumped (ks_rph s) now (rph l)"
    and "ks_rpd (fst (acquire_requests s now l)) = bumped (ks_rpd s) now (rpd l)"
proof -
  obtain w1 b1 r1 w2 b2 r2 w3 b3 r3 w4 b4 r4 where
    gates: "request_gate (ks_rps s) now DIM_RPS (rps l) = (w1, b1, r1)"
      "request_gate (ks_rpm s) now DIM_RPM (rpm l) = (w2, b2, r2)"
      "request_gate (ks_rph s) now DIM_RPH (rph l) = (w3, b3, r3)"
      "request_gate (ks_rpd s) now DIM_RPD (rpd l) = (w4, b4, r4)"
    and ok: "r1 = None" "r2 = None" "r3 = None" "r4 = None"
      "acquire_requests s now l = (s\<lparr>ks_rps := w1, ks_rpm := w2, ks_rph := w3, ks_rpd := w4\<rparr>, None)"
    using assms by (cases rule: acquire_requests_gates [of s now l]) (simp split: if_splits)
  note w = gates [unfolded ok(1-4), THEN request_gate_admits]
  show "ks_rps (fst (acquire_requests s now l)) = bumped (ks_rps s) now (rps l)"
    "ks_rpm (fst (acquire_requests s now l)) = bumped (ks_rpm s) now (rpm l)"
    "ks_rph (fst (acquire_requests s now l)) = bumped (ks_rph s) now (rph l)"
    "ks_rpd (fst (acquire_requests s now l)) = bumped (ks_rpd s) now (rpd l)"
    by (simp_all add: ok(5) w)
qed

lemma used_bumped: "used (bumped w now x) now = (case x of None \<Rightarrow> used w now | Some _ \<Rightarrow> sat_add (used w now) 1)"
  by (simp add: bumped_def split: option.splits)

lemma wf_bumped [simp]: "window_wf w \<Longrightarrow> window_wf (bumped w now x)"
  using wf_roll [of w now] by (auto simp: bumped_def window_wf_def split: option.splits)

lemma window_secs_bumped [simp]: "window_secs (bumped w now x) = window_secs w"
  by (simp add: bumped_def split: option.splits)

section \<open>The whole acquire on one key\<close>

text \<open>The three outcomes of the body, as equations for its stages.\<close>

lemma key_acquire_cases:
  obtains (concurrency) e where "acquire_concurrency s l = Some e"
      "key_acquire s now l m = (s, Inl e)"
  | (allowance) s1 e where "acquire_concurrency s l = None" "acquire_allowance s l = (s1, Some e)"
      "key_acquire s now l m = (s1, Inl e)"
  | (tokens) s1 s2 e where "acquire_concurrency s l = None" "acquire_allowance s l = (s1, None)"
      "acquire_tokens s1 now l = (s2, Some e)" "key_acquire s now l m = (s2, Inl e)"
  | (requests) s1 s2 s3 e where "acquire_concurrency s l = None"
      "acquire_allowance s l = (s1, None)" "acquire_tokens s1 now l = (s2, None)"
      "acquire_requests s2 now l = (s3, Some e)" "key_acquire s now l m = (s3, Inl e)"
  | (admitted) s1 s2 s3 where "acquire_concurrency s l = None"
      "acquire_allowance s l = (s1, None)" "acquire_tokens s1 now l = (s2, None)"
      "acquire_requests s2 now l = (s3, None)"
      "key_acquire s now l m =
         (s3\<lparr>in_flight := insert m (in_flight s3), last_touched := now\<rparr>, Inr ())"
proof -
  obtain s1 r1 where 1: "acquire_allowance s l = (s1, r1)" by fastforce
  obtain s2 r2 where 2: "acquire_tokens s1 now l = (s2, r2)" by fastforce
  obtain s3 r3 where 3: "acquire_requests s2 now l = (s3, r3)" by fastforce
  show thesis
  proof (cases "acquire_concurrency s l")
    case (Some e)
    then show thesis by (intro that(1) [of e]) (simp_all add: key_acquire_def)
  next
    case None
    note c = None
    show thesis
    proof (cases r1)
      case (Some e)
      then show thesis using c 1 by (intro that(2) [of s1 e]) (simp_all add: key_acquire_def)
    next
      case None
      note r1 = None
      show thesis
      proof (cases r2)
        case (Some e)
        then show thesis using c 1 2 r1
          by (intro that(3) [of s1 s2 e]) (simp_all add: key_acquire_def)
      next
        case None
        note r2 = None
        show thesis
        proof (cases r3)
          case (Some e)
          then show thesis using c 1 2 3 r1 r2
            by (intro that(4) [of s1 s2 s3 e]) (simp_all add: key_acquire_def)
        next
          case None
          then show thesis using c 1 2 3 r1 r2
            by (intro that(5) [of s1 s2 s3]) (simp_all add: key_acquire_def)
        qed
      qed
    qed
  qed
qed

lemma allowance_rolled:
  "acquire_allowance s l = (s1, r) \<Longrightarrow>
     rolled s s1 now \<and> carries_allowance s1 = (granted_micro_usd l \<noteq> None)"
  by (auto simp: acquire_allowance_eq rolled_def)

lemma key_acquire_refused:
  assumes "key_acquire s now l m = (s', Inl e)" and "requests_below_max s now"
  shows "rolled s s' now"
  using assms(1)
proof (cases rule: key_acquire_cases [of s l now m])
  case (concurrency e)
  with assms(1) show ?thesis by simp
next
  case (allowance s1 e)
  with assms(1) allowance_rolled [OF allowance(2), of now] show ?thesis by simp
next
  case (tokens s1 s2 e)
  with assms(1) allowance_rolled [OF tokens(2), of now] acquire_tokens_rolled [of s1 now l]
  show ?thesis by (auto intro: rolled_trans)
next
  case (requests s1 s2 s3 e)
  have r2: "rolled s s2 now"
    using allowance_rolled [OF requests(2), of now] acquire_tokens_rolled [of s1 now l] requests(3)
    by (auto intro: rolled_trans)
  with assms(2) have "requests_below_max s2 now" by (simp add: requests_below_max_rolled)
  with acquire_requests_refused [of s2 now l] requests(4) have "rolled s2 s3 now" by simp
  with r2 requests(5) assms(1) show ?thesis by (auto intro: rolled_trans)
next
  case (admitted s1 s2 s3)
  with assms(1) show ?thesis by simp
qed

lemma key_acquire_verdict:
  assumes "ks_wf s" and "requests_below_max s now" and "card (in_flight s) < u32_modulus"
  shows "snd (key_acquire s now l m) =
           (case acquire_verdict (ks_used s now) (card (in_flight s)) (consumed_micro_usd s) now l
            of Some e \<Rightarrow> Inl e | None \<Rightarrow> Inr ())"
proof -
  define s1 where "s1 = s\<lparr>carries_allowance := (granted_micro_usd l \<noteq> None)\<rparr>"
  define s2 where "s2 = fst (acquire_tokens s1 now l)"
  have r1: "rolled s s1 now" by (simp add: s1_def rolled_def)
  have r2: "rolled s s2 now"
    using rolled_trans [OF r1 acquire_tokens_rolled] by (simp add: s2_def)
  have allow: "acquire_allowance s l = (s1,
      if \<exists>g. granted_micro_usd l = Some g \<and> g \<le> consumed_micro_usd s
      then Some AllowanceExhausted else None)"
    by (simp add: acquire_allowance_eq s1_def)
  have tok: "acquire_tokens s1 now l = (s2,
      map_option (Tokens ScopeTokens) (first_refusal (ks_used s now) now (token_dims l)))"
    using acquire_tokens_result [OF rolled_wf [OF r1 assms(1)], of now l] rolled_used [OF r1]
    by (simp add: s2_def prod_eq_iff)
  have req: "snd (acquire_requests s2 now l) =
      map_option (Requests ScopeRequests) (first_refusal (ks_used s now) now (request_dims l))"
    using acquire_requests_result [OF rolled_wf [OF r2 assms(1)], of now l] rolled_used [OF r2]
      requests_below_max_rolled [OF r2] assms(2) by simp
  show ?thesis
    using req
    by (auto simp: key_acquire_def acquire_verdict_def acquire_concurrency_eq [OF assms(3)] allow tok
        split: option.splits prod.splits)
qed

text \<open>An admitted request moves every limited request dimension by one, takes one slot and
  changes nothing else.\<close>

lemma key_acquire_admitted:
  assumes "key_acquire s now l m = (s', Inr ())"
  shows "used (ks_rps s') now = (case rps l of None \<Rightarrow> used (ks_rps s) now | Some _ \<Rightarrow> sat_add (used (ks_rps s) now) 1)"
    and "used (ks_rpm s') now = (case rpm l of None \<Rightarrow> used (ks_rpm s) now | Some _ \<Rightarrow> sat_add (used (ks_rpm s) now) 1)"
    and "used (ks_rph s') now = (case rph l of None \<Rightarrow> used (ks_rph s) now | Some _ \<Rightarrow> sat_add (used (ks_rph s) now) 1)"
    and "used (ks_rpd s') now = (case rpd l of None \<Rightarrow> used (ks_rpd s) now | Some _ \<Rightarrow> sat_add (used (ks_rpd s) now) 1)"
    and "used (ks_tpm s') now = used (ks_tpm s) now"
    and "used (ks_tph s') now = used (ks_tph s) now"
    and "used (ks_tpd s') now = used (ks_tpd s) now"
    and "in_flight s' = insert m (in_flight s)"
    and "consumed_micro_usd s' = consumed_micro_usd s"
    and "last_touched s' = now"
    and "carries_allowance s' = (granted_micro_usd l \<noteq> None)"
proof -
  from assms obtain s1 s2 s3 where st: "acquire_allowance s l = (s1, None)"
      "acquire_tokens s1 now l = (s2, None)" "acquire_requests s2 now l = (s3, None)"
    and s': "s' = s3\<lparr>in_flight := insert m (in_flight s3), last_touched := now\<rparr>"
    by (cases rule: key_acquire_cases [of s l now m]) auto
  have r1: "rolled s s1 now" "carries_allowance s1 = (granted_micro_usd l \<noteq> None)"
    using allowance_rolled [OF st(1)] by auto
  have r2: "rolled s1 s2 now" "carries_allowance s2 = carries_allowance s1"
    using acquire_tokens_rolled [of s1 now l] acquire_tokens_allowance [of s1 now l] st(2) by auto
  have r: "rolled s s2 now" using rolled_trans [OF r1(1) r2(1)] .
  have bump: "ks_rps s3 = bumped (ks_rps s2) now (rps l)" "ks_rpm s3 = bumped (ks_rpm s2) now (rpm l)"
      "ks_rph s3 = bumped (ks_rph s2) now (rph l)" "ks_rpd s3 = bumped (ks_rpd s2) now (rpd l)"
    using acquire_requests_admitted [of s2 now l] st(3) by simp_all
  note frame = acquire_requests_frame [of s2 now l, unfolded st(3) fst_conv]
  note same = rolled_counts [OF r]
  show "used (ks_rps s') now = (case rps l of None \<Rightarrow> used (ks_rps s) now | Some _ \<Rightarrow> sat_add (used (ks_rps s) now) 1)"
    and "used (ks_rpm s') now = (case rpm l of None \<Rightarrow> used (ks_rpm s) now | Some _ \<Rightarrow> sat_add (used (ks_rpm s) now) 1)"
    and "used (ks_rph s') now = (case rph l of None \<Rightarrow> used (ks_rph s) now | Some _ \<Rightarrow> sat_add (used (ks_rph s) now) 1)"
    and "used (ks_rpd s') now = (case rpd l of None \<Rightarrow> used (ks_rpd s) now | Some _ \<Rightarrow> sat_add (used (ks_rpd s) now) 1)"
    by (simp_all add: s' bump used_bumped same split: option.splits)
  show "used (ks_tpm s') now = used (ks_tpm s) now" "used (ks_tph s') now = used (ks_tph s) now"
      "used (ks_tpd s') now = used (ks_tpd s) now" "in_flight s' = insert m (in_flight s)"
      "consumed_micro_usd s' = consumed_micro_usd s" "last_touched s' = now"
      "carries_allowance s' = (granted_micro_usd l \<noteq> None)"
    using r r1(2) r2(2) by (simp_all add: s' frame same rolled_def)
qed

end
