(* ===== verification/Local_Runs.thy ===== *)
theory Local_Runs
  imports Local_Store
begin

text \<open>
  Sequences of operations on the in-process store. Every operation holds its key's lock for its
  whole body, so any interleaving of callers is a sequence of \<open>store_step\<close>s; the clock never
  runs backwards. Shown here: every operation keeps the store well formed, the concurrency cap
  holds at every point of every run, a spent allowance never refills, reclaiming idle buckets
  is invisible to callers, and a one-shot claim is granted once per lifetime.
\<close>

section \<open>Operations as steps\<close>

datatype store_op =
    Acquire string rate_limit string
  | Commit string nat string
  | Release string string
  | AddTokens string nat
  | NoteAllowance string rate_limit
  | Reap nat
  | ClaimOnce string nat
  | Peek string rate_limit

fun store_step :: "local_store \<Rightarrow> nat \<Rightarrow> store_op \<Rightarrow> local_store" where
  "store_step st now (Acquire key l m) = fst (acquire st now key l m)"
| "store_step st now (Commit key n m) = commit st now key n m"
| "store_step st now (Release key m) = release st now key m"
| "store_step st now (AddTokens key n) = add_tokens st now key n"
| "store_step st now (NoteAllowance key l) = note_allowance st now key l"
| "store_step st now (Reap idle) = reap st now idle"
| "store_step st now (ClaimOnce key ttl) = fst (claim_once st now key ttl)"
| "store_step st now (Peek key l) = fst (peek st now key l)"

inductive store_steps :: "(store_op \<Rightarrow> bool) \<Rightarrow> local_store \<Rightarrow> nat \<Rightarrow> local_store \<Rightarrow> nat \<Rightarrow> bool"
  for allowed where
  none: "store_steps allowed st t st t"
| more: "store_steps allowed st t st1 t1 \<Longrightarrow> t1 \<le> t2 \<Longrightarrow> allowed op \<Longrightarrow>
     store_steps allowed st t (store_step st1 t2 op) t2"

lemma store_steps_time: "store_steps allowed st t st' t' \<Longrightarrow> t \<le> t'"
  by (induction rule: store_steps.induct) auto

text \<open>The store is a product of its keys: what a step does to one key's state depends on that
  state alone.\<close>

abbreviation or_new :: "key_state option \<Rightarrow> nat \<Rightarrow> key_state" where
  "or_new x now \<equiv> (case x of Some s \<Rightarrow> s | None \<Rightarrow> key_state_new now)"

fun key_step :: "string \<Rightarrow> key_state option \<Rightarrow> nat \<Rightarrow> store_op \<Rightarrow> key_state option" where
  "key_step k x now (Acquire key l m) =
     (if k = key then Some (fst (key_acquire (or_new x now) now l m)) else x)"
| "key_step k x now (Commit key n m) =
     (if k = key
      then Some ((charge (or_new x now) now n)
             \<lparr>in_flight := in_flight (or_new x now) - {m}, last_touched := now\<rparr>)
      else x)"
| "key_step k x now (Release key m) =
     (if k = key then map_option (\<lambda>s. s\<lparr>in_flight := in_flight s - {m}, last_touched := now\<rparr>) x
      else x)"
| "key_step k x now (AddTokens key n) =
     (if k = key \<and> n \<noteq> 0 then Some ((charge (or_new x now) now n)\<lparr>last_touched := now\<rparr>) else x)"
| "key_step k x now (NoteAllowance key l) =
     (if k = key
      then (if granted_micro_usd l \<noteq> None then Some ((or_new x now)\<lparr>carries_allowance := True\<rparr>)
            else map_option (\<lambda>s. s\<lparr>carries_allowance := False\<rparr>) x)
      else x)"
| "key_step k x now (Reap idle) = Option.bind x (\<lambda>s. if reap_keeps (now - idle) s then Some s else None)"
| "key_step k x now (ClaimOnce key ttl) = x"
| "key_step k x now (Peek key l) =
     (if k = key
      then map_option (\<lambda>s. s\<lparr>ks_rpm := roll_if_stale (ks_rpm s) now,
                              ks_tpm := roll_if_stale (ks_tpm s) now\<rparr>) x
      else x)"

lemma states_step: "states (store_step st now op) k = key_step k (states st k) now op"
proof (cases op)
  case (Acquire key l m)
  then show ?thesis by (auto simp: acquire_def split_beta Let_def state_for_def)
next
  case (Commit key n m)
  then show ?thesis by (auto simp: commit_def charge_def Let_def state_for_def)
next
  case (Peek key l)
  then show ?thesis by (auto simp: peek_def split_beta Let_def split: option.splits)
qed (auto simp: release_def add_tokens_def note_allowance_def reap_def claim_once_def Let_def
    state_for_def sat_sub_def split: option.splits)

lemma claims_step:
  "claims (store_step st now op) k =
     (case op of
        ClaimOnce key ttl \<Rightarrow>
          (if k = key \<and> snd (claim_once st now key ttl) then Some (sat_add now (max ttl 1))
           else Option.bind (claims st k) (\<lambda>e. if e > now then Some e else None))
      | _ \<Rightarrow> claims st k)"
proof (cases op)
  case (ClaimOnce key ttl)
  then show ?thesis by (auto simp: claim_once_def Let_def split: option.splits)
qed (simp_all add: acquire_def commit_def release_def add_tokens_def note_allowance_def reap_def
    peek_def split_beta Let_def split: option.splits)

declare store_step.simps [simp del]

section \<open>Well-formedness\<close>

lemma ks_wf_charge [simp]: "ks_wf s \<Longrightarrow> ks_wf (charge s now n)"
  by (simp add: ks_wf_def charge_def)

lemma charge_simps [simp]:
  "in_flight (charge s now n) = in_flight s" "carries_allowance (charge s now n) = carries_allowance s"
  "consumed_micro_usd (charge s now n) = sat_add (consumed_micro_usd s) n"
  "last_touched (charge s now n) = last_touched s"
  by (simp_all add: charge_def)

lemma wf_undo [simp]: "window_wf w \<Longrightarrow> window_wf (undo_if b w now)"
  and secs_undo [simp]: "window_secs (undo_if b w now) = window_secs w"
  by (simp_all add: undo_if_def)

text \<open>What the request chain can leave in one of its windows: the window untouched, the outcome of
  its gate, or that outcome taken back.\<close>

definition gate_leaves :: "window_counter \<Rightarrow> nat \<Rightarrow> nat option \<Rightarrow> window_counter \<Rightarrow> bool" where
  "gate_leaves w now x w' \<longleftrightarrow>
     w' = w \<or> (\<exists>d w1 b r c. request_gate w now d x = (w1, b, r) \<and> w' = undo_if c w1 now)"

lemma gate_leavesI:
  "gate_leaves w now x w"
  "request_gate w now d x = (w1, b, r) \<Longrightarrow> gate_leaves w now x w1"
  "request_gate w now d x = (w1, b, r) \<Longrightarrow> gate_leaves w now x (undo_if c w1 now)"
  unfolding gate_leaves_def by (metis undo_False)+

lemma acquire_requests_windows:
  "gate_leaves (ks_rps s) now (rps l) (ks_rps (fst (acquire_requests s now l))) \<and>
   gate_leaves (ks_rpm s) now (rpm l) (ks_rpm (fst (acquire_requests s now l))) \<and>
   gate_leaves (ks_rph s) now (rph l) (ks_rph (fst (acquire_requests s now l))) \<and>
   gate_leaves (ks_rpd s) now (rpd l) (ks_rpd (fst (acquire_requests s now l)))"
proof (cases rule: acquire_requests_gates [of s now l])
  case gates: (1 w1 b1 r1 w2 b2 r2 w3 b3 r3 w4 b4 r4)
  show ?thesis
    by (simp add: gates(5) gate_leavesI(1) gate_leavesI(2,3) [OF gates(1)]
        gate_leavesI(2,3) [OF gates(2)] gate_leavesI(2,3) [OF gates(3)]
        gate_leavesI(2,3) [OF gates(4)])
qed

lemma gate_leaves_wf:
  assumes "gate_leaves w now x w'" and "window_wf w"
  shows "window_wf w' \<and> window_secs w' = window_secs w"
proof -
  have "window_wf w1 \<and> window_secs w1 = window_secs w" if "request_gate w now d x = (w1, b, r)"
    for d w1 b r
    using that assms(2) wf_roll [OF assms(2), of now]
    by (auto simp: request_gate_eq window_wf_def split: option.splits if_splits)
  then show ?thesis using assms by (auto simp: gate_leaves_def)
qed

lemma ks_wf_requests: "ks_wf s \<Longrightarrow> ks_wf (fst (acquire_requests s now l))"
  using acquire_requests_windows [of s now l]
  by (simp add: ks_wf_def gate_leaves_wf [THEN conjunct1] gate_leaves_wf [THEN conjunct2])
    (metis gate_leaves_wf)

lemma ks_wf_key_acquire: "ks_wf s \<Longrightarrow> ks_wf (fst (key_acquire s now l m))"
proof -
  assume wf: "ks_wf s"
  have 1: "ks_wf s1" if "acquire_allowance s l = (s1, r)" for s1 r
    using wf allowance_rolled [OF that, of now] by (auto intro: rolled_wf)
  have 2: "ks_wf s2" if "acquire_allowance s l = (s1, r)" "acquire_tokens s1 now l = (s2, r')"
    for s1 r s2 r'
    using rolled_wf [OF acquire_tokens_rolled 1 [OF that(1)], of now l] that(2) by simp
  show ?thesis
  proof (cases rule: key_acquire_cases [of s l now m])
    case (requests s1 s2 s3 e)
    with ks_wf_requests [OF 2 [OF requests(2,3)], of now l] show ?thesis by simp
  next
    case (admitted s1 s2 s3)
    with ks_wf_requests [OF 2 [OF admitted(2,3)], of now l] show ?thesis
      by (simp add: ks_wf_def)
  qed (use wf 1 2 in auto)
qed

definition key_wf :: "key_state option \<Rightarrow> bool" where
  "key_wf x \<longleftrightarrow> (\<forall>s. x = Some s \<longrightarrow> ks_wf s)"

lemma key_wf_or_new: "key_wf x \<Longrightarrow> ks_wf (or_new x now)"
  by (cases x) (simp_all add: key_wf_def)

lemma key_step_wf: "key_wf x \<Longrightarrow> key_wf (key_step k x now op)"
proof (cases op)
  case (Acquire key l m)
  assume "key_wf x"
  with ks_wf_key_acquire [OF key_wf_or_new, of x now now l m] Acquire show ?thesis
    by (simp add: key_wf_def)
next
  case (Commit key n m)
  assume "key_wf x"
  with Commit ks_wf_charge [OF key_wf_or_new, of x now now n] show ?thesis
    by (simp add: key_wf_def ks_wf_def)
next
  case (AddTokens key n)
  assume "key_wf x"
  with AddTokens ks_wf_charge [OF key_wf_or_new, of x now now n] show ?thesis
    by (simp add: key_wf_def ks_wf_def)
next
  case (NoteAllowance key l)
  assume "key_wf x"
  with NoteAllowance key_wf_or_new [of x now] show ?thesis by (auto simp: key_wf_def ks_wf_def)
qed (auto simp: key_wf_def ks_wf_def bind_eq_Some_conv split: if_splits)

lemma store_wf_keys: "store_wf st \<longleftrightarrow> (\<forall>k. key_wf (states st k))"
  by (simp add: store_wf_def key_wf_def)

lemma store_step_wf: "store_wf st \<Longrightarrow> store_wf (store_step st now op)"
  by (simp add: store_wf_keys states_step key_step_wf)

lemma store_steps_wf: "store_steps allowed st t st' t' \<Longrightarrow> store_wf st \<Longrightarrow> store_wf st'"
  by (induction rule: store_steps.induct) (auto intro: store_step_wf)

section \<open>The concurrency cap\<close>

text \<open>\<open>holders_after\<close> keeps, beside the store, the callers that were admitted on each key and have
  neither committed nor released since.\<close>

fun holders_after ::
    "local_store \<Rightarrow> nat \<Rightarrow> store_op \<Rightarrow> (string \<Rightarrow> string set) \<Rightarrow> (string \<Rightarrow> string set)" where
  "holders_after st now (Acquire key l m) H =
     (if snd (acquire st now key l m) = Inr () then H(key := insert m (H key)) else H)"
| "holders_after st now (Commit key n m) H = H(key := H key - {m})"
| "holders_after st now (Release key m) H = H(key := H key - {m})"
| "holders_after st now op H = H"

inductive guarded_run ::
    "(store_op \<Rightarrow> bool) \<Rightarrow> local_store \<Rightarrow> nat \<Rightarrow> (string \<Rightarrow> string set) \<Rightarrow> bool"
  for allowed where
  start: "guarded_run allowed local_store_new t (\<lambda>_. {})"
| step: "guarded_run allowed st t H \<Longrightarrow> t \<le> t' \<Longrightarrow> allowed op \<Longrightarrow>
     guarded_run allowed (store_step st t' op) t' (holders_after st t' op H)"

abbreviation slots :: "key_state option \<Rightarrow> string set" where
  "slots x \<equiv> (case x of None \<Rightarrow> {} | Some s \<Rightarrow> in_flight s)"

lemma in_flight_new [simp]: "in_flight (key_state_new now) = {}"
  by (simp add: key_state_new_def)

lemma stage_frames:
  "acquire_allowance s l = (s1, r) \<Longrightarrow>
     in_flight s1 = in_flight s \<and> consumed_micro_usd s1 = consumed_micro_usd s \<and>
     carries_allowance s1 = (granted_micro_usd l \<noteq> None)"
  "acquire_tokens s now l = (s2, r) \<Longrightarrow>
     in_flight s2 = in_flight s \<and> consumed_micro_usd s2 = consumed_micro_usd s \<and>
     carries_allowance s2 = carries_allowance s"
  "acquire_requests s now l = (s3, r) \<Longrightarrow>
     in_flight s3 = in_flight s \<and> consumed_micro_usd s3 = consumed_micro_usd s \<and>
     carries_allowance s3 = carries_allowance s"
proof -
  show "acquire_allowance s l = (s1, r) \<Longrightarrow> in_flight s1 = in_flight s \<and>
      consumed_micro_usd s1 = consumed_micro_usd s \<and>
      carries_allowance s1 = (granted_micro_usd l \<noteq> None)"
    using allowance_rolled [of s l s1 r undefined] by (simp add: rolled_def)
  show "acquire_tokens s now l = (s2, r) \<Longrightarrow> in_flight s2 = in_flight s \<and>
      consumed_micro_usd s2 = consumed_micro_usd s \<and> carries_allowance s2 = carries_allowance s"
    using acquire_tokens_rolled [of s now l] acquire_tokens_allowance [of s now l]
    by (simp add: rolled_def)
  show "acquire_requests s now l = (s3, r) \<Longrightarrow> in_flight s3 = in_flight s \<and>
      consumed_micro_usd s3 = consumed_micro_usd s \<and> carries_allowance s3 = carries_allowance s"
    using acquire_requests_frame [of s now l] by simp
qed

lemma key_acquire_in_flight:
  "in_flight (fst (key_acquire s now l m)) =
     (if snd (key_acquire s now l m) = Inr () then insert m (in_flight s) else in_flight s)"
  by (cases rule: key_acquire_cases [of s l now m]) (auto dest!: stage_frames)

lemma slots_or_new: "in_flight (or_new x now) = slots x"
  by (cases x) simp_all

text \<open>The slots of the store are exactly the callers still holding one, on every key.\<close>

lemma snd_acquire: "snd (acquire st now key l m) = snd (key_acquire (or_new (states st key) now) now l m)"
  by (simp add: acquire_def split_beta Let_def state_for_def)

lemma slots_step:
  assumes "slots (states st k) = H k"
  shows "slots (states (store_step st now op) k) = holders_after st now op H k"
proof (cases op)
  case (Acquire key l m)
  with assms show ?thesis unfolding states_step
    by (cases "k = key") (simp_all add: key_acquire_in_flight snd_acquire slots_or_new)
next
  case (Commit key n m)
  with assms show ?thesis unfolding states_step
    by (cases "k = key") (simp_all add: slots_or_new)
next
  case (AddTokens key n)
  with assms show ?thesis unfolding states_step
    by (cases "k = key"; cases "n = 0") (simp_all add: slots_or_new)
next
  case (NoteAllowance key l)
  with assms show ?thesis unfolding states_step by (cases "states st k") simp_all
next
  case (Reap idle)
  with assms show ?thesis unfolding states_step
    by (cases "states st k") (auto simp: reap_keeps_def)
next
  case (Release key m)
  with assms show ?thesis unfolding states_step by (cases "states st k") auto
next
  case (Peek key l)
  with assms show ?thesis unfolding states_step by (cases "states st k") auto
next
  case (ClaimOnce key ttl)
  with assms show ?thesis unfolding states_step by simp
qed

lemma guarded_run_slots: "guarded_run allowed st t H \<Longrightarrow> slots (states st k) = H k"
proof (induction rule: guarded_run.induct)
  case (start t)
  then show ?case by (simp add: local_store_new_def)
next
  case (step st t H t' op)
  then show ?case by (intro slots_step)
qed

definition capped :: "string \<Rightarrow> nat \<Rightarrow> store_op \<Rightarrow> bool" where
  "capped key mx op \<longleftrightarrow>
     (case op of Acquire k l m \<Rightarrow> k = key \<longrightarrow> concurrency l = Some mx | _ \<Rightarrow> True)"

lemma key_acquire_needs_slot:
  assumes "snd (key_acquire s now l m) = Inr ()" and "concurrency l = Some mx"
    and "card (in_flight s) < u32_modulus"
  shows "card (in_flight s) < mx"
  using assms(1)
proof (cases rule: key_acquire_cases [of s l now m])
  case (admitted s1 s2 s3)
  with acquire_concurrency_eq [OF assms(3), of l] assms(2) show ?thesis
    by (simp split: if_splits)
qed auto

lemma holders_capped:
  assumes "guarded_run (capped key mx) st t H" and "mx < u32_modulus"
  shows "finite (H key) \<and> card (H key) \<le> mx"
  using assms(1)
proof (induction rule: guarded_run.induct)
  case (start t)
  then show ?case by simp
next
  case (step st t H t' op)
  note IH = step.IH and slots_eq = guarded_run_slots [OF step.hyps(1), of key]
  show ?case
  proof (cases op)
    case (Acquire k l m)
    let ?s = "or_new (states st key) t'"
    have inf: "in_flight ?s = H key" using slots_eq by (simp add: slots_or_new)
    show ?thesis
    proof (cases "k = key \<and> snd (acquire st t' k l m) = Inr ()")
      case True
      with step.hyps(3) Acquire have "concurrency l = Some mx" by (simp add: capped_def)
      with key_acquire_needs_slot [of ?s t' l m mx] True inf IH assms(2)
      have "card (H key) < mx" by (auto simp: snd_acquire)
      with True Acquire IH show ?thesis by (simp add: card_insert_if)
    next
      case False
      with Acquire IH show ?thesis by auto
    qed
  next
    case (Commit k n m)
    with IH show ?thesis by (auto intro: le_trans [OF card_Diff1_le])
  next
    case (Release k m)
    with IH show ?thesis by (auto intro: le_trans [OF card_Diff1_le])
  qed (use IH in auto)
qed

section \<open>A spent allowance never refills\<close>

definition keeps_allowance :: "string \<Rightarrow> store_op \<Rightarrow> bool" where
  "keeps_allowance key op \<longleftrightarrow>
     (case op of
        Acquire k l m \<Rightarrow> k = key \<longrightarrow> granted_micro_usd l \<noteq> None
      | NoteAllowance k l \<Rightarrow> k = key \<longrightarrow> granted_micro_usd l \<noteq> None
      | _ \<Rightarrow> True)"

definition spent :: "nat \<Rightarrow> key_state option \<Rightarrow> bool" where
  "spent g x \<longleftrightarrow>
     (\<exists>s. x = Some s \<and> g \<le> consumed_micro_usd s \<and> 0 < consumed_micro_usd s \<and>
          consumed_micro_usd s \<le> u64_max \<and> carries_allowance s)"

lemma key_acquire_spend:
  "consumed_micro_usd (fst (key_acquire s now l m)) = consumed_micro_usd s"
  "granted_micro_usd l \<noteq> None \<Longrightarrow> carries_allowance s \<Longrightarrow>
     carries_allowance (fst (key_acquire s now l m))"
  by (cases rule: key_acquire_cases [of s l now m]; auto dest!: stage_frames)+

lemma spent_step:
  assumes "spent g (states st key)" and "keeps_allowance key op"
  shows "spent g (states (store_step st now op) key)"
proof -
  from assms(1) obtain s where s: "states st key = Some s" "g \<le> consumed_micro_usd s"
    "0 < consumed_micro_usd s" "consumed_micro_usd s \<le> u64_max" "carries_allowance s"
    by (auto simp: spent_def)
  have more: "g \<le> sat_add (consumed_micro_usd s) n \<and> 0 < sat_add (consumed_micro_usd s) n" for n
    using sat_add_ge_left [OF s(4), of n] s(2,3) by linarith
  show ?thesis
  proof (cases op)
    case (Reap idle)
    with s show ?thesis by (simp add: states_step spent_def reap_keeps_def)
  qed (use s more assms(2) in \<open>auto simp: states_step spent_def keeps_allowance_def key_acquire_spend
      split: if_splits\<close>)
qed

lemma spent_steps:
  assumes "store_steps (keeps_allowance key) st t st' t'" and "spent g (states st key)"
  shows "spent g (states st' key)"
  using assms by (induction rule: store_steps.induct) (auto intro: spent_step)

lemma spent_refuses:
  assumes "spent g (states st key)" and "granted_micro_usd l = Some g'" and "g' \<le> g"
  shows "\<exists>e. snd (acquire st now key l m) = Inl e"
proof -
  from assms(1) obtain s where s: "states st key = Some s" "g \<le> consumed_micro_usd s"
    by (auto simp: spent_def)
  then have "snd (key_acquire s now l m) \<noteq> Inr ()"
    using assms(2,3) by (cases rule: key_acquire_cases [of s l now m]) (auto simp: acquire_allowance_eq)
  with s show ?thesis
    by (cases "snd (key_acquire s now l m)") (auto simp: snd_acquire)
qed

section \<open>One-shot claims\<close>

lemma claim_once_result:
  "snd (claim_once st now key ttl) \<longleftrightarrow> (\<forall>e. claims st key = Some e \<longrightarrow> e \<le> now)"
  by (auto simp: claim_once_def Let_def split: option.splits)

lemma claim_persists:
  assumes "store_steps allowed st t st' t'" and "claims st key = Some e" and "t' < e"
  shows "claims st' key = Some e"
  using assms
proof (induction rule: store_steps.induct)
  case (none st t)
  then show ?case by simp
next
  case (more st t st1 t1 t2 op)
  then have c: "claims st1 key = Some e" by simp
  show ?case
  proof (cases op)
    case (ClaimOnce k ttl)
    with c more.prems(2) show ?thesis by (auto simp: claims_step claim_once_result not_le)
  qed (use c in \<open>simp_all add: claims_step\<close>)
qed

section \<open>Reclaiming idle buckets is invisible\<close>

text \<open>A window that has counted something was last written inside itself, so the touch time of
  the bucket is at or after the start of that window.\<close>

definition window_touched :: "window_counter \<Rightarrow> nat \<Rightarrow> bool" where
  "window_touched w touched \<longleftrightarrow> (count w > 0 \<longrightarrow> window_start w \<le> touched)"

definition touch_inv :: "key_state \<Rightarrow> nat \<Rightarrow> bool" where
  "touch_inv s t \<longleftrightarrow>
     last_touched s \<le> t \<and>
     window_touched (ks_rps s) (last_touched s) \<and> window_touched (ks_rpm s) (last_touched s) \<and>
     window_touched (ks_rph s) (last_touched s) \<and> window_touched (ks_rpd s) (last_touched s) \<and>
     window_touched (ks_tpm s) (last_touched s) \<and> window_touched (ks_tph s) (last_touched s) \<and>
     window_touched (ks_tpd s) (last_touched s)"

lemma window_touched_roll: "window_touched w t \<Longrightarrow> window_touched (roll_if_stale w now) t"
  by (auto simp: window_touched_def roll_if_stale_def Let_def)

lemma window_touched_rolled:
  "rolled_window w w' now \<Longrightarrow> window_touched w t \<Longrightarrow> window_touched w' t"
  by (auto simp: rolled_window_def intro: window_touched_roll)

lemma window_touched_later: "window_touched w t \<Longrightarrow> t \<le> t' \<Longrightarrow> window_touched w t'"
  by (auto simp: window_touched_def)

lemma window_touched_write: "window_touched (roll_if_stale w now\<lparr>count := c\<rparr>) now"
  by (simp add: window_touched_def)

lemma window_touched_add: "window_touched (window_add w now n) now"
  by (simp add: window_add_def Let_def window_touched_write)

lemma window_touched_bumped:
  "window_touched w t \<Longrightarrow> t \<le> now \<Longrightarrow> window_touched (bumped w now x) now"
  by (auto simp: bumped_def window_touched_write window_touched_later split: option.splits)

lemma touch_inv_new [simp]: "now \<le> t \<Longrightarrow> touch_inv (key_state_new now) t"
  by (simp add: touch_inv_def key_state_new_def fresh_window_def window_touched_def)

lemma touch_inv_later: "touch_inv s t \<Longrightarrow> t \<le> t' \<Longrightarrow> touch_inv s t'"
  by (auto simp: touch_inv_def)

lemma touch_inv_or_new: "\<forall>s. x = Some s \<longrightarrow> touch_inv s t \<Longrightarrow> t \<le> now \<Longrightarrow> touch_inv (or_new x now) now"
  by (cases x) (auto intro: touch_inv_later)

lemma touch_inv_rolled: "rolled s s' now \<Longrightarrow> touch_inv s t \<Longrightarrow> touch_inv s' t"
  by (auto simp: rolled_def touch_inv_def intro: window_touched_rolled)

lemma touch_inv_charge: "touch_inv s now \<Longrightarrow> touch_inv ((charge s now n)\<lparr>last_touched := now\<rparr>) now"
  by (auto simp: touch_inv_def charge_def window_touched_add intro: window_touched_later)

lemma touch_inv_key_acquire:
  assumes "touch_inv s now" and "requests_below_max s now"
  shows "touch_inv (fst (key_acquire s now l m)) now"
proof (cases "snd (key_acquire s now l m)")
  case (Inl e)
  then have "rolled s (fst (key_acquire s now l m)) now"
    using key_acquire_refused [OF _ assms(2), of l m "fst (key_acquire s now l m)" e]
    by (simp add: prod_eq_iff)
  with assms(1) show ?thesis by (rule touch_inv_rolled [rotated])
next
  case (Inr u)
  then show ?thesis
  proof (cases rule: key_acquire_cases [of s l now m])
    case (admitted s1 s2 s3)
    have "rolled s s2 now"
      using allowance_rolled [OF admitted(2), of now] acquire_tokens_rolled [of s1 now l] admitted(3)
      by (auto intro: rolled_trans)
    with assms(1) have t2: "touch_inv s2 now" by (rule touch_inv_rolled [rotated])
    note b = acquire_requests_admitted [of s2 now l, unfolded admitted(4) fst_conv snd_conv, OF refl]
    note f = acquire_requests_frame [of s2 now l, unfolded admitted(4) fst_conv]
    show ?thesis
      using t2 unfolding admitted(5) fst_conv touch_inv_def
      by (auto simp: b f intro: window_touched_bumped window_touched_later)
  qed simp_all
qed

text \<open>An untouched bucket: with the idle time at least a day, every window it counted in is over,
  so its counts read zero, as those of a new bucket do.\<close>

lemma stale_window_reads_zero:
  assumes "window_touched w touched" and "window_secs w = secs" and "secs > 0"
    and "touched + secs \<le> now"
  shows "used w now = 0"
proof (cases "count w > 0")
  case True
  with assms(1) have "window_start w \<le> touched" by (simp add: window_touched_def)
  moreover have "now < bucket_of secs now + secs" using bucket_of_upper [OF assms(3)] .
  ultimately have "bucket_of secs now \<noteq> window_start w" using assms(4) by linarith
  then show ?thesis using assms(2) by (simp add: count_roll)
next
  case False
  then show ?thesis by (simp add: count_roll)
qed

lemma fresh_reads_zero [simp]: "used (fresh_window secs) now = 0"
  by (simp add: fresh_window_def count_roll)

lemma ks_used_new [simp]: "ks_used (key_state_new now) t = (\<lambda>_. 0)"
  by (simp add: fun_eq_iff ks_used_def key_state_new_def)

lemma dropped_bucket_reads_zero:
  assumes "ks_wf s" and "touch_inv s t" and "\<not> reap_keeps (now - idle) s"
    and "DAY_SECS \<le> idle" and "now \<le> now'"
  shows "ks_used s now' = (\<lambda>_. 0)"
proof -
  have idle: "last_touched s + DAY_SECS \<le> now'"
    using assms(3,4,5) by (auto simp: reap_keeps_def not_le)
  have day: "SECOND_SECS \<le> DAY_SECS" "MINUTE_SECS \<le> DAY_SECS" "HOUR_SECS \<le> DAY_SECS"
    by (simp_all add: window_widths)
  have z: "used w now' = 0" if "window_touched w (last_touched s)" "window_secs w = secs"
      "secs > 0" "secs \<le> DAY_SECS" for w secs
    using stale_window_reads_zero [OF that(1-3), of now'] that(4) idle by simp
  show ?thesis
    using assms(1,2) day by (simp add: fun_eq_iff ks_used_def ks_wf_def touch_inv_def z)
qed

lemma acquire_dropped:
  assumes "ks_wf s" and "touch_inv s t" and "\<not> reap_keeps (now - idle) s"
    and "DAY_SECS \<le> idle" and "now \<le> now'"
    and "granted_micro_usd l = None \<or> carries_allowance s"
  shows "snd (key_acquire (key_state_new now') now' l m) = snd (key_acquire s now' l m)"
proof -
  have zero: "ks_used s now' = (\<lambda>_. 0)" by (rule dropped_bucket_reads_zero [OF assms(1-5)])
  have below: "requests_below_max s now'"
    using fun_cong [OF zero, of DIM_RPS] fun_cong [OF zero, of DIM_RPM] fun_cong [OF zero, of DIM_RPH]
      fun_cong [OF zero, of DIM_RPD]
    by (simp add: requests_below_max_def u64_max_def)
  have new: "requests_below_max (key_state_new now') now'"
    by (simp add: requests_below_max_def key_state_new_def u64_max_def)
  have fl: "in_flight s = {}" using assms(3) by (simp add: reap_keeps_def)
  have spend: "consumed_micro_usd s = 0 \<or> granted_micro_usd l = None"
    using assms(3,6) by (auto simp: reap_keeps_def)
  have u32: "(0::nat) < u32_modulus" by (simp add: u32_modulus_def)
  have cnew: "consumed_micro_usd (key_state_new now') = 0" by (simp add: key_state_new_def)
  show ?thesis
    using key_acquire_verdict [OF ks_wf_new new, of l m]
      key_acquire_verdict [OF assms(1) below, of l m] fl u32 zero spend cnew
    by (auto simp: acquire_verdict_def)
qed

lemma reap_transparent_on:
  assumes "store_wf st" and "\<forall>s. states st key = Some s \<longrightarrow> touch_inv s now"
    and "DAY_SECS \<le> idle" and "now \<le> now'"
    and "granted_micro_usd l = None \<or> (\<forall>s. states st key = Some s \<longrightarrow> carries_allowance s)"
  shows "snd (acquire (reap st now idle) now' key l m) = snd (acquire st now' key l m)"
proof (cases "states st key")
  case None
  then show ?thesis by (simp add: snd_acquire reap_def Let_def)
next
  case (Some s)
  with assms(1,2) have "ks_wf s" "touch_inv s now" by (auto simp: store_wf_def)
  with Some assms(3-5) acquire_dropped [of s now now idle now' l m] show ?thesis
    by (auto simp: snd_acquire reap_def Let_def sat_sub_def)
qed

text \<open>The invariant of a run whose request limits are proper numbers: the touch times are right
  and no request counter ever saturates.\<close>

definition requests_small :: "key_state \<Rightarrow> bool" where
  "requests_small s \<longleftrightarrow>
     count (ks_rps s) < u64_max \<and> count (ks_rpm s) < u64_max \<and>
     count (ks_rph s) < u64_max \<and> count (ks_rpd s) < u64_max"

definition proper_limits :: "store_op \<Rightarrow> bool" where
  "proper_limits op \<longleftrightarrow>
     (case op of
        Acquire k l m \<Rightarrow> (\<forall>x \<in> {rps l, rpm l, rph l, rpd l}. \<forall>mx. x = Some mx \<longrightarrow> mx < u64_max)
      | _ \<Rightarrow> True)"

lemma u64_max_pos [simp]: "0 < u64_max"
  by (simp add: u64_max_def)

lemma requests_small_below: "requests_small s \<Longrightarrow> requests_below_max s now"
  by (simp add: requests_small_def requests_below_max_def count_roll)

lemma requests_small_new [simp]: "requests_small (key_state_new now)"
  by (simp add: requests_small_def key_state_new_def fresh_window_def)

lemma gate_leaves_small:
  assumes "gate_leaves w now x w'" and "count w < u64_max" and "\<forall>mx. x = Some mx \<longrightarrow> mx < u64_max"
  shows "count w' < u64_max"
proof -
  have "count w1 < u64_max" if "request_gate w now d x = (w1, b, r)" for d w1 b r
    using that assms(2,3) by (auto simp: request_gate_eq count_roll split: option.splits if_splits)
  moreover have "count (undo_if c w1 now) \<le> count w1" for c w1
    by (simp add: undo_if_def decrement_def sat_sub_def)
  ultimately show ?thesis
    using assms(1,2) unfolding gate_leaves_def by (metis le_less_trans)
qed

lemma requests_small_acquire:
  assumes "requests_small s" and "proper_limits (Acquire k l m)"
  shows "requests_small (fst (acquire_requests s now l))"
  using acquire_requests_windows [of s now l] assms
  by (auto simp: requests_small_def proper_limits_def elim: gate_leaves_small)

lemma rolled_window_small: "rolled_window w w' now \<Longrightarrow> count w < u64_max \<Longrightarrow> count w' < u64_max"
  by (auto simp: rolled_window_def count_roll)

lemma requests_small_rolled: "rolled s s' now \<Longrightarrow> requests_small s \<Longrightarrow> requests_small s'"
  unfolding rolled_def requests_small_def by (blast intro: rolled_window_small)

lemma requests_small_key_acquire:
  assumes "requests_small s" and "proper_limits (Acquire k l m)"
  shows "requests_small (fst (key_acquire s now l m))"
proof -
  have 1: "requests_small s2" if "acquire_allowance s l = (s1, r)" "acquire_tokens s1 now l = (s2, r')"
    for s1 r s2 r'
    using requests_small_rolled [OF rolled_trans [of s s1 now s2] assms(1)]
      allowance_rolled [OF that(1), of now] acquire_tokens_rolled [of s1 now l] that(2) by simp
  show ?thesis
  proof (cases rule: key_acquire_cases [of s l now m])
    case (allowance s1 e)
    with allowance_rolled [OF allowance(2), of now] assms(1) show ?thesis
      by (auto intro: requests_small_rolled)
  next
    case (requests s1 s2 s3 e)
    with requests_small_acquire [OF 1 [OF requests(2,3)] assms(2), of now] show ?thesis by simp
  next
    case (admitted s1 s2 s3)
    with requests_small_acquire [OF 1 [OF admitted(2,3)] assms(2), of now] show ?thesis
      by (simp add: requests_small_def)
  qed (use assms(1) 1 in auto)
qed

definition bucket_inv :: "key_state option \<Rightarrow> nat \<Rightarrow> bool" where
  "bucket_inv x t \<longleftrightarrow> (\<forall>s. x = Some s \<longrightarrow> touch_inv s t \<and> requests_small s)"

lemma bucket_inv_or_new:
  assumes "bucket_inv x t" and "t \<le> now"
  shows "touch_inv (or_new x now) now" and "requests_small (or_new x now)"
  using assms by (cases x; auto simp: bucket_inv_def intro: touch_inv_later)+

lemma bucket_inv_step:
  assumes "bucket_inv x t" and "t \<le> now" and "proper_limits op"
  shows "bucket_inv (key_step k x now op) now"
proof -
  note new = bucket_inv_or_new [OF assms(1,2)]
  have touch: "touch_inv s now" if "x = Some s" for s
    using assms(1,2) that by (auto simp: bucket_inv_def intro: touch_inv_later)
  have small: "requests_small s" if "x = Some s" for s
    using assms(1) that by (auto simp: bucket_inv_def)
  show ?thesis
  proof (cases op)
    case (Acquire key l m)
    with touch_inv_key_acquire [OF new(1) requests_small_below [OF new(2)], of l m]
      requests_small_key_acquire [OF new(2), of key l m now] assms(3) touch small
    show ?thesis by (auto simp: bucket_inv_def)
  next
    case (Commit key n m)
    have "touch_inv ((charge (or_new x now) now n)
        \<lparr>in_flight := in_flight (or_new x now) - {m}, last_touched := now\<rparr>) now"
      using touch_inv_charge [OF new(1), of n] by (simp add: touch_inv_def)
    moreover have "requests_small ((charge (or_new x now) now n)
        \<lparr>in_flight := in_flight (or_new x now) - {m}, last_touched := now\<rparr>)"
      using new(2) by (simp add: requests_small_def charge_def)
    ultimately show ?thesis using Commit touch small by (auto simp: bucket_inv_def)
  next
    case (AddTokens key n)
    have "requests_small ((charge (or_new x now) now n)\<lparr>last_touched := now\<rparr>)"
      using new(2) by (simp add: requests_small_def charge_def)
    with AddTokens touch_inv_charge [OF new(1), of n] touch small show ?thesis
      by (auto simp: bucket_inv_def)
  next
    case (NoteAllowance key l)
    with new touch small show ?thesis
      by (auto simp: bucket_inv_def touch_inv_def requests_small_def)
  next
    case (Release key m)
    with touch small show ?thesis
      by (auto simp: bucket_inv_def touch_inv_def requests_small_def intro: window_touched_later)
  next
    case (Peek key l)
    with touch small show ?thesis
      by (auto simp: bucket_inv_def touch_inv_def requests_small_def count_roll
          intro: window_touched_roll)
  next
    case (Reap idle)
    with touch small show ?thesis by (auto simp: bucket_inv_def bind_eq_Some_conv split: if_splits)
  next
    case (ClaimOnce key ttl)
    with touch small show ?thesis by (auto simp: bucket_inv_def)
  qed
qed

lemma store_steps_bucket_inv:
  "store_steps proper_limits local_store_new t st t' \<Longrightarrow> bucket_inv (states st key) t'"
proof (induction local_store_new t st t' rule: store_steps.induct)
  case (none t)
  then show ?case by (simp add: bucket_inv_def local_store_new_def)
next
  case (more t st1 t1 t2 op)
  then show ?case by (auto simp: states_step intro: bucket_inv_step)
qed

end
