(* ===== verification/Limiter.thy ===== *)
theory Limiter
  imports Local_Runs
begin

text \<open>
  The two-phase limiter of \<^verbatim>\<open>crates/aisix-ratelimit/src/limiter.rs\<close> over the
  \<^verbatim>\<open>RateStore\<close> trait of \<^verbatim>\<open>store/mod.rs\<close>. A trait object is a record of operations, passed
  as an argument, as \<^verbatim>\<open>Arc<dyn RateStore>\<close> is. What the limiter relies on is the locale
  \<open>rate_store_contract\<close>; the in-process store is an interpretation of it. The background task
  that renews a distributed lease is the flag \<open>refresh_task\<close> of the reservation that owns it,
  and one turn of its loop is \<open>refresh_tick\<close>.
\<close>

section \<open>The store interface\<close>

datatype stream_lease_refresh = Renewed | Missing | Unavailable

record 's rate_store =
  rs_acquire :: "'s \<Rightarrow> nat \<Rightarrow> string \<Rightarrow> rate_limit \<Rightarrow> string \<Rightarrow> 's \<times> (rate_limit_error + unit)"
  rs_commit :: "'s \<Rightarrow> nat \<Rightarrow> string \<Rightarrow> nat \<Rightarrow> string \<Rightarrow> 's"
  rs_release :: "'s \<Rightarrow> nat \<Rightarrow> string \<Rightarrow> string \<Rightarrow> 's"
  rs_add_tokens :: "'s \<Rightarrow> nat \<Rightarrow> string \<Rightarrow> nat \<Rightarrow> 's"
  rs_refresh_interval :: "nat option"
  rs_refresh_outcome :: "'s \<Rightarrow> nat \<Rightarrow> string \<Rightarrow> string \<Rightarrow> 's \<times> stream_lease_refresh"

text \<open>The default method of the trait: one \<open>add_tokens\<close> per key.\<close>

fun rs_add_tokens_all :: "'s rate_store \<Rightarrow> 's \<Rightarrow> nat \<Rightarrow> string list \<Rightarrow> nat \<Rightarrow> 's" where
  "rs_add_tokens_all ops st now [] tokens = st"
| "rs_add_tokens_all ops st now (key # keys) tokens =
     rs_add_tokens_all ops (rs_add_tokens ops st now key tokens) now keys tokens"

definition local_ops :: "local_store rate_store" where
  "local_ops =
     \<lparr>rs_acquire = acquire, rs_commit = commit, rs_release = release, rs_add_tokens = add_tokens,
      rs_refresh_interval = None, rs_refresh_outcome = (\<lambda>st _ _ _. (st, Unavailable))\<rparr>"

section \<open>Reservations\<close>

datatype counter_unit = UnitTokens | UnitMicroUsd

record reservation =
  res_key :: string
  res_member :: string
  has_concurrency_slot :: bool
  refresh_task :: bool
  lease_loss :: bool
  committed :: bool
  res_unit :: counter_unit

record 's limiter =
  lim_store :: 's
  member_prefix :: string
  seq :: nat

definition u64_modulus :: nat where
  "u64_modulus = 18446744073709551616"

definition next_member :: "'s limiter \<Rightarrow> 's limiter \<times> string" where
  "next_member lim =
     (lim\<lparr>seq := (seq lim + 1) mod u64_modulus\<rparr>, member_prefix lim @ nat_str (seq lim))"

text \<open>A refresh task is started for a held slot when the store renews leases at all.\<close>

definition spawn_lease_refresh :: "'s rate_store \<Rightarrow> bool \<Rightarrow> bool" where
  "spawn_lease_refresh ops has_slot \<longleftrightarrow> has_slot \<and> rs_refresh_interval ops \<noteq> None"

definition pre_commit_with_unit ::
    "'s rate_store \<Rightarrow> 's limiter \<Rightarrow> nat \<Rightarrow> string \<Rightarrow> rate_limit \<Rightarrow> counter_unit \<Rightarrow>
     's limiter \<times> (rate_limit_error + reservation)" where
  "pre_commit_with_unit ops lim now key l u =
     (let (lim1, member) = next_member lim;
          (st, r) = rs_acquire ops (lim_store lim1) now key l member;
          lim2 = lim1\<lparr>lim_store := st\<rparr>
      in case r of
           Inl e \<Rightarrow> (lim2, Inl e)
         | Inr _ \<Rightarrow>
             (lim2, Inr \<lparr>res_key = key, res_member = member,
                         has_concurrency_slot = (concurrency l \<noteq> None),
                         refresh_task = spawn_lease_refresh ops (concurrency l \<noteq> None),
                         lease_loss = False, committed = False, res_unit = u\<rparr>))"

definition pre_commit ::
    "'s rate_store \<Rightarrow> 's limiter \<Rightarrow> nat \<Rightarrow> string \<Rightarrow> rate_limit \<Rightarrow>
     's limiter \<times> (rate_limit_error + reservation)" where
  "pre_commit ops lim now key l = pre_commit_with_unit ops lim now key l UnitTokens"

definition add_tokens_post_stream :: "'s rate_store \<Rightarrow> 's \<Rightarrow> nat \<Rightarrow> string \<Rightarrow> nat \<Rightarrow> 's" where
  "add_tokens_post_stream ops st now key tokens =
     (if tokens = 0 then st else rs_add_tokens ops st now key tokens)"

definition add_tokens_post_stream_all :: "'s rate_store \<Rightarrow> 's \<Rightarrow> nat \<Rightarrow> string list \<Rightarrow> nat \<Rightarrow> 's" where
  "add_tokens_post_stream_all ops st now keys tokens =
     (if tokens = 0 \<or> keys = [] then st else rs_add_tokens_all ops st now keys tokens)"

text \<open>One turn of the renewal loop: only a definitive miss raises the loss flag, and the loop ends
  with it (the handle of the ended task stays).\<close>

definition refresh_tick :: "'s rate_store \<Rightarrow> 's \<Rightarrow> nat \<Rightarrow> reservation \<Rightarrow> 's \<times> reservation" where
  "refresh_tick ops st now r =
     (if \<not> refresh_task r \<or> lease_loss r then (st, r)
      else (case rs_refresh_outcome ops st now (res_key r) (res_member r) of
              (st', Missing) \<Rightarrow> (st', r\<lparr>lease_loss := True\<rparr>)
            | (st', _) \<Rightarrow> (st', r)))"

definition stop_refresh :: "reservation \<Rightarrow> reservation" where
  "stop_refresh r = r\<lparr>refresh_task := False\<rparr>"

definition drop_reservation :: "'s rate_store \<Rightarrow> 's \<Rightarrow> nat \<Rightarrow> reservation \<Rightarrow> 's" where
  "drop_reservation ops st now r =
     (let r1 = stop_refresh r
      in if committed r1 then st else rs_release ops st now (res_key r1) (res_member r1))"

text \<open>\<open>commit_tokens\<close> consumes the reservation, so the reservation is dropped at its end.\<close>

definition commit_tokens :: "'s rate_store \<Rightarrow> 's \<Rightarrow> nat \<Rightarrow> reservation \<Rightarrow> nat \<Rightarrow> 's" where
  "commit_tokens ops st now r tokens =
     (let r1 = stop_refresh r;
          st1 = rs_commit ops st now (res_key r1) tokens (res_member r1)
      in drop_reservation ops st1 now (r1\<lparr>committed := True\<rparr>))"

fun amount_for :: "reservation \<Rightarrow> nat \<Rightarrow> nat \<Rightarrow> nat" where
  "amount_for r tokens spend =
     (case res_unit r of UnitTokens \<Rightarrow> tokens | UnitMicroUsd \<Rightarrow> spend)"

section \<open>Several layers at once\<close>

type_synonym multi_reservation = "reservation list"

fun multi_commit :: "'s rate_store \<Rightarrow> 's \<Rightarrow> nat \<Rightarrow> multi_reservation \<Rightarrow> nat \<Rightarrow> nat \<Rightarrow> 's" where
  "multi_commit ops st now [] tokens spend = st"
| "multi_commit ops st now (r # rs) tokens spend =
     multi_commit ops (commit_tokens ops st now r (amount_for r tokens spend)) now rs tokens spend"

definition commit_tokens_no_spend :: "'s rate_store \<Rightarrow> 's \<Rightarrow> nat \<Rightarrow> multi_reservation \<Rightarrow> nat \<Rightarrow> 's" where
  "commit_tokens_no_spend ops st now rs tokens = multi_commit ops st now rs tokens 0"

fun multi_drop :: "'s rate_store \<Rightarrow> 's \<Rightarrow> nat \<Rightarrow> multi_reservation \<Rightarrow> 's" where
  "multi_drop ops st now [] = st"
| "multi_drop ops st now (r # rs) = multi_drop ops (drop_reservation ops st now r) now rs"

definition keys_of_unit :: "multi_reservation \<Rightarrow> counter_unit \<Rightarrow> string list" where
  "keys_of_unit rs u = map res_key (filter (\<lambda>r. res_unit r = u) rs)"

definition token_keys :: "multi_reservation \<Rightarrow> string list" where
  "token_keys rs = keys_of_unit rs UnitTokens"

definition spend_keys :: "multi_reservation \<Rightarrow> string list" where
  "spend_keys rs = keys_of_unit rs UnitMicroUsd"

definition multi_merge :: "multi_reservation \<Rightarrow> multi_reservation \<Rightarrow> multi_reservation" where
  "multi_merge rs other = rs @ other"

record stream_guard =
  holds :: "(string \<times> string) list"
  refresh_tasks :: nat
  guard_lease_loss :: bool
  released :: bool

text \<open>The slots stay held: every reservation is defused and the guard owns the release. A loss
  observed before the hand-over is carried into the guard.\<close>

definition into_stream_hold ::
    "'s rate_store \<Rightarrow> 's \<Rightarrow> nat \<Rightarrow> multi_reservation \<Rightarrow> 's \<times> stream_guard" where
  "into_stream_hold ops st now rs =
     (multi_drop ops st now (map (\<lambda>r. r\<lparr>committed := True\<rparr>) rs),
      \<lparr>holds = map (\<lambda>r. (res_key r, res_member r)) rs,
       refresh_tasks =
         length (filter (\<lambda>r. refresh_task r \<or> spawn_lease_refresh ops (has_concurrency_slot r)) rs),
       guard_lease_loss = list_ex lease_loss rs,
       released = False\<rparr>)"

fun release_holds :: "'s rate_store \<Rightarrow> 's \<Rightarrow> nat \<Rightarrow> (string \<times> string) list \<Rightarrow> 's" where
  "release_holds ops st now [] = st"
| "release_holds ops st now ((key, member) # hs) =
     release_holds ops (rs_release ops st now key member) now hs"

definition release_now :: "'s rate_store \<Rightarrow> 's \<Rightarrow> nat \<Rightarrow> stream_guard \<Rightarrow> 's \<times> stream_guard" where
  "release_now ops st now g =
     (if released g then (st, g)
      else (release_holds ops st now (holds g), g\<lparr>released := True, refresh_tasks := 0\<rparr>))"

section \<open>The contract of a store\<close>

text \<open>
  \<open>held st key\<close> are the members holding a slot, \<open>charged st key\<close> is the amount accounted to the
  bucket so far. The laws say who changes what.
\<close>

locale rate_store_contract =
  fixes ops :: "'s rate_store"
    and invar :: "'s \<Rightarrow> bool"
    and held :: "'s \<Rightarrow> string \<Rightarrow> string set"
    and charged :: "'s \<Rightarrow> string \<Rightarrow> nat"
  assumes invar_acquire: "invar st \<Longrightarrow> invar (fst (rs_acquire ops st now key l m))"
    and invar_commit: "invar st \<Longrightarrow> invar (rs_commit ops st now key n m)"
    and invar_release: "invar st \<Longrightarrow> invar (rs_release ops st now key m)"
    and invar_add: "invar st \<Longrightarrow> invar (rs_add_tokens ops st now key n)"
    and charged_le: "invar st \<Longrightarrow> charged st key \<le> u64_max"
    and held_acquire: "held (fst (rs_acquire ops st now key l m)) =
          (if snd (rs_acquire ops st now key l m) = Inr ()
           then (held st)(key := insert m (held st key)) else held st)"
    and held_commit: "held (rs_commit ops st now key n m) = (held st)(key := held st key - {m})"
    and held_release: "held (rs_release ops st now key m) = (held st)(key := held st key - {m})"
    and held_add: "held (rs_add_tokens ops st now key n) = held st"
    and charged_acquire: "charged (fst (rs_acquire ops st now key l m)) = charged st"
    and charged_commit: "invar st \<Longrightarrow>
          charged (rs_commit ops st now key n m) = (charged st)(key := sat_add (charged st key) n)"
    and charged_release: "charged (rs_release ops st now key m) = charged st"
    and charged_add: "invar st \<Longrightarrow>
          charged (rs_add_tokens ops st now key n) = (charged st)(key := sat_add (charged st key) n)"
begin

text \<open>What is left of the slots after a list of layers has given theirs back.\<close>

lemma held_commit_tokens:
  "held (commit_tokens ops st now r n) = (held st)(res_key r := held st (res_key r) - {res_member r})"
  by (simp add: commit_tokens_def drop_reservation_def stop_refresh_def Let_def held_commit)

lemma held_drop:
  "\<not> committed r \<Longrightarrow>
     held (drop_reservation ops st now r) = (held st)(res_key r := held st (res_key r) - {res_member r})"
  by (simp add: drop_reservation_def stop_refresh_def Let_def held_release)

lemma invar_commit_tokens: "invar st \<Longrightarrow> invar (commit_tokens ops st now r n)"
  by (simp add: commit_tokens_def drop_reservation_def stop_refresh_def Let_def invar_commit)

lemma held_multi_commit:
  "held (multi_commit ops st now rs tokens spend) key =
     held st key - res_member ` {r \<in> set rs. res_key r = key}"
  by (induction rs arbitrary: st) (auto simp: held_commit_tokens)

lemma held_multi_drop:
  "\<forall>r \<in> set rs. \<not> committed r \<Longrightarrow>
     held (multi_drop ops st now rs) key = held st key - res_member ` {r \<in> set rs. res_key r = key}"
  by (induction rs arbitrary: st) (auto simp: held_drop)

lemma multi_drop_defused: "\<forall>r \<in> set rs. committed r \<Longrightarrow> multi_drop ops st now rs = st"
  by (induction rs) (auto simp: drop_reservation_def stop_refresh_def)

lemma into_stream_hold_keeps: "fst (into_stream_hold ops st now rs) = st"
  by (simp add: into_stream_hold_def multi_drop_defused)

lemma held_release_holds:
  "held (release_holds ops st now hs) key = held st key - snd ` {h \<in> set hs. fst h = key}"
proof (induction hs arbitrary: st)
  case (Cons h hs)
  obtain k m where h: "h = (k, m)" by fastforce
  have "snd ` {x \<in> set (h # hs). fst x = key} =
      (if k = key then insert m else id) (snd ` {x \<in> set hs. fst x = key})"
    unfolding h by force
  with Cons.IH [of "rs_release ops st now k m"] show ?case by (auto simp: h held_release)
qed simp

lemma charged_release_holds: "charged (release_holds ops st now hs) = charged st"
proof (induction hs arbitrary: st)
  case (Cons h hs)
  then show ?case by (cases h) (simp add: charged_release)
qed simp

lemma held_release_now:
  assumes "\<not> released g"
  shows "held (fst (release_now ops st now g)) key =
           held st key - snd ` {h \<in> set (holds g). fst h = key}"
  using assms by (simp add: release_now_def held_release_holds)

lemma release_now_once:
  "release_now ops st' now' (snd (release_now ops st now g)) = (st', snd (release_now ops st now g))"
  by (simp add: release_now_def)

section \<open>Accounting\<close>

lemma charged_commit_tokens:
  "invar st \<Longrightarrow>
     charged (commit_tokens ops st now r n) = (charged st)(res_key r := sat_add (charged st (res_key r)) n)"
  by (simp add: commit_tokens_def drop_reservation_def stop_refresh_def Let_def charged_commit)

lemma charged_multi_commit:
  "invar st \<Longrightarrow>
     charged (multi_commit ops st now rs tokens spend) key =
       sat_add (charged st key)
         (sum_list (map (\<lambda>r. amount_for r tokens spend) (filter (\<lambda>r. res_key r = key) rs)))"
proof (induction rs arbitrary: st)
  case Nil
  then show ?case by (simp add: charged_le)
next
  case (Cons r rs)
  then show ?case
    by (auto simp: invar_commit_tokens charged_commit_tokens sat_add_assoc simp del: amount_for.simps)
qed

lemma invar_add_all: "invar st \<Longrightarrow> invar (rs_add_tokens_all ops st now keys n)"
  by (induction keys arbitrary: st) (auto simp: invar_add)

lemma charged_add_all:
  "invar st \<Longrightarrow>
     charged (rs_add_tokens_all ops st now keys n) key =
       sat_add (charged st key) (n * count_list keys key)"
proof (induction keys arbitrary: st)
  case Nil
  then show ?case by (simp add: charged_le)
next
  case (Cons k keys)
  then show ?case by (auto simp: invar_add charged_add sat_add_assoc)
qed

lemma charged_post_stream:
  "invar st \<Longrightarrow>
     charged (add_tokens_post_stream_all ops st now keys n) key =
       sat_add (charged st key) (n * count_list keys key)"
  by (auto simp: add_tokens_post_stream_all_def charged_add_all charged_le)

lemma invar_post_stream: "invar st \<Longrightarrow> invar (add_tokens_post_stream_all ops st now keys n)"
  by (simp add: add_tokens_post_stream_all_def invar_add_all)

lemma amounts_by_unit:
  "sum_list (map (\<lambda>r. amount_for r tokens spend) (filter (\<lambda>r. res_key r = key) rs)) =
     tokens * count_list (token_keys rs) key + spend * count_list (spend_keys rs) key"
  by (induction rs)
    (auto simp: token_keys_def spend_keys_def keys_of_unit_def split: counter_unit.splits)

text \<open>A streamed response (hold the slots, account each unit's layers after the stream, drop the
  guard) charges every bucket exactly what a unary commit would, and frees the same slots.\<close>

lemma streaming_accounts_like_commit:
  fixes rs :: multi_reservation and now now' tokens spend :: nat
  assumes "invar st"
  defines "g \<equiv> snd (into_stream_hold ops st now rs)"
    and "st1 \<equiv> add_tokens_post_stream_all ops (fst (into_stream_hold ops st now rs)) now' (token_keys rs) tokens"
  defines "st2 \<equiv> add_tokens_post_stream_all ops st1 now' (spend_keys rs) spend"
  defines "st3 \<equiv> fst (release_now ops st2 now' g)"
  shows "charged st3 key = charged (multi_commit ops st now rs tokens spend) key"
    and "held st3 key = held (multi_commit ops st now rs tokens spend) key"
proof -
  have inv1: "invar st1" using assms(1) by (simp add: st1_def into_stream_hold_keeps invar_post_stream)
  have "charged st3 key = charged st2 key"
    by (simp add: st3_def release_now_def charged_release_holds)
  also have "\<dots> = sat_add (charged st key)
      (tokens * count_list (token_keys rs) key + spend * count_list (spend_keys rs) key)"
    using assms(1) inv1
    by (simp add: st2_def charged_post_stream)
      (simp add: st1_def into_stream_hold_keeps charged_post_stream sat_add_assoc)
  finally show "charged st3 key = charged (multi_commit ops st now rs tokens spend) key"
    using assms(1) by (simp add: charged_multi_commit amounts_by_unit del: amount_for.simps)
  have heldall: "held (rs_add_tokens_all ops st now ks n) = held st" for st now ks n
    by (induction ks arbitrary: st) (simp_all add: held_add)
  have "held st2 = held st"
    by (simp add: st2_def st1_def add_tokens_post_stream_all_def heldall into_stream_hold_keeps)
  moreover have "snd ` {h \<in> set (holds g). fst h = key} = res_member ` {r \<in> set rs. res_key r = key}"
    by (auto simp: g_def into_stream_hold_def image_iff)
  ultimately show "held st3 key = held (multi_commit ops st now rs tokens spend) key"
    by (simp add: st3_def held_release_now g_def into_stream_hold_def held_multi_commit)
qed

section \<open>Life of one reservation\<close>

text \<open>Reserving and then giving back, by commit or by drop, restores the slots of a store in which
  the new member name was free; a refusal takes nothing.\<close>

lemma reservation_roundtrip:
  assumes "pre_commit_with_unit ops lim now key l u = (lim', Inr r)"
    and "member_prefix lim @ nat_str (seq lim) \<notin> held (lim_store lim) key"
  shows "held (lim_store lim') key = insert (res_member r) (held (lim_store lim) key)"
    and "held (drop_reservation ops (lim_store lim') now' r) = held (lim_store lim)"
    and "held (commit_tokens ops (lim_store lim') now' r n) = held (lim_store lim)"
proof -
  let ?m = "member_prefix lim @ nat_str (seq lim)"
  have r: "res_key r = key" "res_member r = ?m" "\<not> committed r"
    and st: "lim_store lim' = fst (rs_acquire ops (lim_store lim) now key l ?m)"
      "snd (rs_acquire ops (lim_store lim) now key l ?m) = Inr ()"
    using assms(1)
    by (auto simp: pre_commit_with_unit_def next_member_def Let_def split: prod.splits sum.splits)
  have h: "held (lim_store lim') = (held (lim_store lim))(key := insert ?m (held (lim_store lim) key))"
    unfolding st(1) held_acquire by (simp add: st(2))
  show "held (lim_store lim') key = insert (res_member r) (held (lim_store lim) key)"
    by (simp add: h r)
  show "held (drop_reservation ops (lim_store lim') now' r) = held (lim_store lim)"
    using assms(2) by (simp add: held_drop r h)
  show "held (commit_tokens ops (lim_store lim') now' r n) = held (lim_store lim)"
    using assms(2) by (simp add: held_commit_tokens r h)
qed

lemma refusal_takes_nothing:
  assumes "pre_commit_with_unit ops lim now key l u = (lim', Inl e)"
  shows "held (lim_store lim') = held (lim_store lim)"
    and "charged (lim_store lim') = charged (lim_store lim)"
proof -
  let ?m = "member_prefix lim @ nat_str (seq lim)"
  have st: "lim_store lim' = fst (rs_acquire ops (lim_store lim) now key l ?m)"
      "snd (rs_acquire ops (lim_store lim) now key l ?m) = Inl e"
    using assms
    by (auto simp: pre_commit_with_unit_def next_member_def Let_def split: prod.splits sum.splits)
  show "held (lim_store lim') = held (lim_store lim)"
    unfolding st(1) held_acquire by (simp add: st(2))
  show "charged (lim_store lim') = charged (lim_store lim)"
    by (simp add: st(1) charged_acquire)
qed

end

section \<open>The in-process store meets the contract\<close>

definition local_held :: "local_store \<Rightarrow> string \<Rightarrow> string set" where
  "local_held st key = slots (states st key)"

definition local_charged :: "local_store \<Rightarrow> string \<Rightarrow> nat" where
  "local_charged st key = (case states st key of None \<Rightarrow> 0 | Some s \<Rightarrow> consumed_micro_usd s)"

lemma consumed_new [simp]: "consumed_micro_usd (key_state_new now) = 0"
  by (simp add: key_state_new_def)

lemma consumed_or_new: "consumed_micro_usd (or_new x now) =
    (case x of None \<Rightarrow> 0 | Some s \<Rightarrow> consumed_micro_usd s)"
  by (cases x) simp_all

lemmas local_step_eqs =
  store_step.simps(1) [symmetric] store_step.simps(2) [symmetric] store_step.simps(3) [symmetric]
  store_step.simps(4) [symmetric]

interpretation local_limiter: rate_store_contract local_ops store_wf local_held local_charged
proof (unfold_locales, goal_cases)
  case (1 st now key l m)
  then show ?case using store_step_wf [of st now "Acquire key l m"]
    by (simp add: local_ops_def store_step.simps)
next
  case (2 st now key n m)
  then show ?case using store_step_wf [of st now "Commit key n m"]
    by (simp add: local_ops_def store_step.simps)
next
  case (3 st now key m)
  then show ?case using store_step_wf [of st now "Release key m"]
    by (simp add: local_ops_def store_step.simps)
next
  case (4 st now key n)
  then show ?case using store_step_wf [of st now "AddTokens key n"]
    by (simp add: local_ops_def store_step.simps)
next
  case (5 st key)
  then show ?case by (auto simp: local_charged_def store_wf_def ks_wf_def split: option.splits)
next
  case (6 st now key l m)
  show ?case
    using states_step [of st now "Acquire key l m"]
    by (auto simp: local_ops_def fun_eq_iff local_held_def store_step.simps snd_acquire
        key_acquire_in_flight slots_or_new)
next
  case (7 st now key n m)
  show ?case
    using states_step [of st now "Commit key n m"]
    by (auto simp: local_ops_def fun_eq_iff local_held_def store_step.simps slots_or_new)
next
  case (8 st now key m)
  show ?case
    using states_step [of st now "Release key m"]
    by (auto simp: local_ops_def fun_eq_iff local_held_def store_step.simps split: option.splits)
next
  case (9 st now key n)
  show ?case
    using states_step [of st now "AddTokens key n"]
    by (auto simp: local_ops_def fun_eq_iff local_held_def store_step.simps slots_or_new)
next
  case (10 st now key l m)
  show ?case
    using states_step [of st now "Acquire key l m"]
    by (auto simp: local_ops_def fun_eq_iff local_charged_def store_step.simps
        key_acquire_spend(1) consumed_or_new split: option.splits)
next
  case (11 st now key n m)
  show ?case
    using states_step [of st now "Commit key n m"]
    by (auto simp: local_ops_def fun_eq_iff local_charged_def store_step.simps consumed_or_new)
next
  case (12 st now key m)
  show ?case
    using states_step [of st now "Release key m"]
    by (auto simp: local_ops_def fun_eq_iff local_charged_def store_step.simps split: option.splits)
next
  case (13 st now key n)
  show ?case
  proof (cases "n = 0")
    case True
    with 13 show ?thesis
      by (auto simp: local_ops_def add_tokens_def fun_eq_iff local_charged_def store_wf_def ks_wf_def
          split: option.splits)
  next
    case False
    then show ?thesis
      using states_step [of st now "AddTokens key n"]
      by (auto simp: local_ops_def fun_eq_iff local_charged_def store_step.simps consumed_or_new)
  qed
qed

section \<open>Member names\<close>

text \<open>Within \<open>2 ^ 64\<close> reservations of one process no two members share a name.\<close>

fun members_from :: "'s limiter \<Rightarrow> nat \<Rightarrow> string list" where
  "members_from lim 0 = []"
| "members_from lim (Suc n) = (let (lim', m) = next_member lim in m # members_from lim' n)"

lemma members_from_eq:
  "seq lim < u64_modulus \<Longrightarrow>
     members_from lim n = map (\<lambda>i. member_prefix lim @ nat_str ((seq lim + i) mod u64_modulus)) [0..<n]"
proof (induction n arbitrary: lim)
  case (Suc n)
  have "[0..<Suc n] = 0 # map Suc [0..<n]" by (simp add: upt_conv_Cons map_Suc_upt)
  with Suc.IH [of "fst (next_member lim)"] Suc.prems show ?case
    by (simp add: next_member_def u64_modulus_def mod_simps comp_def)
qed simp

lemma members_distinct:
  assumes "seq lim < u64_modulus" and "n \<le> u64_modulus"
  shows "distinct (members_from lim n)"
proof -
  have same: "i = j" if "(seq lim + i) mod u64_modulus = (seq lim + j) mod u64_modulus"
      "i < n" "j < n" for i j
  proof -
    from that(1) have "i mod u64_modulus = j mod u64_modulus"
      unfolding nat_mod_eq_iff by (simp only: add.assoc add_left_cancel)
    with that(2,3) assms(2) show ?thesis by simp
  qed
  have "inj_on (\<lambda>i. member_prefix lim @ nat_str ((seq lim + i) mod u64_modulus)) (set [0..<n])"
    by (rule inj_onI) (simp only: same_append_eq nat_str_inject set_upt atLeastLessThan_iff, rule same, simp_all)
  then show ?thesis
    by (simp only: members_from_eq [OF assms(1)] distinct_map distinct_upt simp_thms)
qed

end
