(* ===== verification/Limiter_Results.thy ===== *)
theory Limiter_Results
  imports Limiter
begin

text \<open>
  The guarantees of the rate limiter, stated for every store that a run of operations can reach
  from a new one, and for the limiter's reservations over the in-process store.
\<close>

section \<open>Reachable stores\<close>

abbreviation reachable :: "local_store \<Rightarrow> nat \<Rightarrow> bool" where
  "reachable st t \<equiv> \<exists>t0. store_steps proper_limits local_store_new t0 st t"

lemma reachable_wf: "reachable st t \<Longrightarrow> store_wf st"
  using store_steps_wf store_wf_new by blast

lemma reachable_touch:
  "reachable st t \<Longrightarrow> t \<le> now \<Longrightarrow> states st key = Some s \<Longrightarrow> touch_inv s now"
  using store_steps_bucket_inv touch_inv_later unfolding bucket_inv_def by metis

lemma reachable_below_max: "reachable st t \<Longrightarrow> requests_below_max (state_for st now key) now"
  using store_steps_bucket_inv requests_small_below requests_small_new
  unfolding bucket_inv_def state_for_def by (auto split: option.splits)

lemma reachable_new: "reachable local_store_new t"
  using store_steps.none by blast

lemma reachable_step:
  "reachable st t \<Longrightarrow> t \<le> t' \<Longrightarrow> proper_limits op \<Longrightarrow> reachable (store_step st t' op) t'"
  using store_steps.more by blast

lemma acquire_eq:
  "acquire st now key l m =
     (put_state st key (fst (key_acquire (state_for st now key) now l m)),
      snd (key_acquire (state_for st now key) now l m))"
  by (simp add: acquire_def split: prod.splits)

lemma state_for_put [simp]: "state_for (put_state st key s) now key = s"
  by (simp add: state_for_def)

text \<open>The store after one admitted request of a key limited to one request in flight, the state
  the examples below start from.\<close>

definition one_at_a_time :: rate_limit where
  "one_at_a_time = rate_limit_default\<lparr>concurrency := Some 1, rpm := Some 5, granted_micro_usd := Some 7\<rparr>"

definition busy_store :: local_store where
  "busy_store = store_step local_store_new 61 (Acquire ''k'' one_at_a_time ''m0'')"

lemma busy_reachable: "reachable busy_store 61"
  unfolding busy_store_def
  by (rule reachable_step [OF reachable_new])
    (auto simp: proper_limits_def one_at_a_time_def rate_limit_default_def u64_max_def)

lemmas eval_store =
  busy_store_def one_at_a_time_def rate_limit_default_def store_step.simps acquire_def
  key_acquire_def acquire_concurrency_def acquire_allowance_def acquire_tokens_def
  acquire_requests_def token_gate_def request_gate_def check_and_increment_def
  is_exceeded_def window_current_def roll_if_stale_def retry_hint_def bucket_of_def
  local_store_new_def state_for_def put_state_def key_state_new_def fresh_window_def
  SECOND_SECS_def MINUTE_SECS_def HOUR_SECS_def DAY_SECS_def as_u32_def u32_modulus_def
  sat_add_def sat_sub_def u64_max_def Let_def

section \<open>Admission\<close>

text \<open>C1. On every reachable store the acquire of \<^verbatim>\<open>LocalStore\<close> decides exactly as the
  specification does from the current counts, the slots held and the spend: it reports the first
  refusing gate in the order concurrency, allowance, token windows, request windows, with that
  gate's dimension, limit, headroom and reset, and admits when no gate refuses.\<close>

theorem acquire_follows_verdict:
  assumes "reachable st t" and "t \<le> now"
    and "card (in_flight (state_for st now key)) < u32_modulus"
  shows "snd (acquire st now key l m) =
           (case acquire_verdict (ks_used (state_for st now key) now)
                   (card (in_flight (state_for st now key)))
                   (consumed_micro_usd (state_for st now key)) now l of
              Some e \<Rightarrow> Inl e
            | None \<Rightarrow> Inr ())"
  using key_acquire_verdict [OF ks_wf_state_for [OF reachable_wf [OF assms(1)]]
      reachable_below_max [OF assms(1)] assms(3)]
  by (simp add: acquire_eq)

theorem acquire_follows_verdict_witness:
  "snd (acquire busy_store 62 ''k'' one_at_a_time ''m1'') =
     Inl (Concurrency (detail_concurrency 1 1))"
proof -
  have s: "in_flight (state_for busy_store 62 ''k'') = {''m0''}" "concurrency one_at_a_time = Some 1"
    by (simp_all add: eval_store)
  show ?thesis
    using acquire_follows_verdict [OF busy_reachable, of 62 "''k''" one_at_a_time "''m1''"]
    by (simp add: s acquire_verdict_def u32_modulus_def)
qed

text \<open>C2. A refused acquire takes nothing: on every reachable store the key's counts in all seven
  windows, its slots and its spend are those from before, the increments of the windows that had
  already admitted are taken back, and no other key and no claim is touched.\<close>

theorem refused_acquire_takes_nothing:
  assumes "reachable st t" and "t \<le> now" and "acquire st now key l m = (st', Inl e)"
  shows "ks_used (state_for st' now key) now = ks_used (state_for st now key) now \<and>
         in_flight (state_for st' now key) = in_flight (state_for st now key) \<and>
         consumed_micro_usd (state_for st' now key) = consumed_micro_usd (state_for st now key) \<and>
         (\<forall>k. k \<noteq> key \<longrightarrow> states st' k = states st k) \<and> claims st' = claims st"
proof -
  obtain s' where s': "key_acquire (state_for st now key) now l m = (s', Inl e)"
    and st': "st' = put_state st key s'"
    using assms(3) by (auto simp: acquire_def split: prod.splits)
  have "rolled (state_for st now key) s' now"
    by (rule key_acquire_refused [OF s' reachable_below_max [OF assms(1)]])
  then show ?thesis
    using rolled_used [of "state_for st now key" s' now] by (simp add: st' rolled_def)
qed

theorem refused_acquire_takes_nothing_witness:
  "in_flight (state_for (fst (acquire busy_store 62 ''k'' one_at_a_time ''m1'')) 62 ''k'') =
     {''m0''}"
proof -
  obtain st' where r: "acquire busy_store 62 ''k'' one_at_a_time ''m1'' =
      (st', Inl (Concurrency (detail_concurrency 1 1)))"
    by (simp add: eval_store)
  have "in_flight (state_for busy_store 62 ''k'') = {''m0''}" by (simp add: eval_store)
  then show ?thesis
    using refused_acquire_takes_nothing [OF busy_reachable _ r] by (simp add: r)
qed

text \<open>An admitted acquire counts exactly once: each request window with a limit goes up by one,
  each without a limit stays, no token window and no spend moves, and exactly the caller's
  member name is added to the slots.\<close>

theorem admitted_acquire_counts_once:
  assumes "acquire st now key l m = (st', Inr ())"
    and "d \<in> {DIM_RPS, DIM_RPM, DIM_RPH, DIM_RPD, DIM_TPM, DIM_TPH, DIM_TPD}"
  shows "ks_used (state_for st' now key) now d =
           (if \<exists>x \<in> set (request_dims l). dim_name x = d
            then sat_add (ks_used (state_for st now key) now d) 1
            else ks_used (state_for st now key) now d) \<and>
         in_flight (state_for st' now key) = insert m (in_flight (state_for st now key)) \<and>
         consumed_micro_usd (state_for st' now key) = consumed_micro_usd (state_for st now key)"
proof -
  obtain s' where s': "key_acquire (state_for st now key) now l m = (s', Inr ())"
    and st': "st' = put_state st key s'"
    using assms(1) by (auto simp: acquire_def split: prod.splits)
  show ?thesis
    using assms(2) key_acquire_admitted [OF s']
    by (auto simp: st' request_dims_def dims_of_step dim_names ks_used_def split: option.splits)
qed

theorem admitted_acquire_counts_once_witness:
  "ks_used (state_for busy_store 61 ''k'') 61 DIM_RPM = 1 \<and>
   in_flight (state_for busy_store 61 ''k'') = {''m0''}"
proof -
  have r: "acquire local_store_new 61 ''k'' one_at_a_time ''m0'' = (busy_store, Inr ())"
    by (simp add: eval_store)
  show ?thesis
    using admitted_acquire_counts_once [OF r, of DIM_RPM]
    by (simp add: state_for_def local_store_new_def request_dims_def one_at_a_time_def
        rate_limit_default_def dims_of_step sat_add_def u64_max_def)
qed

section \<open>Runs\<close>





definition no_claim_on :: "string \<Rightarrow> store_op \<Rightarrow> bool" where
  "no_claim_on key op \<longleftrightarrow> (case op of ClaimOnce k _ \<Rightarrow> k \<noteq> key | _ \<Rightarrow> True)"

lemma claim_unrenewed:
  assumes "store_steps (no_claim_on key) st t st' t'" and "claims st key \<in> {None, Some e}"
  shows "claims st' key \<in> {None, Some e}"
  using assms
proof (induction rule: store_steps.induct)
  case (more st t st1 t1 t2 op)
  then show ?case
    by (cases op) (auto simp: claims_step no_claim_on_def split: Option.bind_splits)
qed simp

lemma claim_once_stores:
  "snd (claim_once st t key ttl) \<Longrightarrow>
     claims (fst (claim_once st t key ttl)) key = Some (sat_add t (max ttl 1))"
  using claims_step [of st t "ClaimOnce key ttl" key] by (simp add: store_step.simps)

text \<open>A one-shot claim is granted once per lifetime: after a granted claim every claim on that
  key within the lifetime (at least one second) is refused in every interleaving, and the
  first claim at or after its end is granted.\<close>

theorem claim_granted_once:
  assumes "snd (claim_once st t key ttl)"
    and "store_steps (no_claim_on key) (fst (claim_once st t key ttl)) t st' t'" and "t' \<le> now"
  shows "snd (claim_once st' now key ttl') \<longleftrightarrow> sat_add t (max ttl 1) \<le> now"
proof -
  note c = claim_once_stores [OF assms(1)]
  have "claims st' key \<in> {None, Some (sat_add t (max ttl 1))}"
    by (rule claim_unrenewed [OF assms(2)]) (simp add: c)
  moreover have "claims st' key = Some (sat_add t (max ttl 1))" if "t' < sat_add t (max ttl 1)"
    by (rule claim_persists [OF assms(2) c that])
  ultimately show ?thesis
    using assms(3) by (force simp: claim_once_result not_le)
qed

theorem claim_granted_once_witness:
  "\<not> snd (claim_once (fst (claim_once local_store_new 10 ''event'' 5)) 14 ''event'' 5) \<and>
   snd (claim_once (fst (claim_once local_store_new 10 ''event'' 5)) 15 ''event'' 5)"
proof -
  have g: "snd (claim_once local_store_new 10 ''event'' 5)"
    by (simp add: claim_once_def local_store_new_def)
  show ?thesis
    using claim_granted_once [OF g store_steps.none, of 14 5]
      claim_granted_once [OF g store_steps.none, of 15 5]
    by (simp add: sat_add_def u64_max_def)
qed



text \<open>Every operation keeps the store well formed: in every reachable store each bucket has its
  seven windows at their widths, aligned to a window start, with counts in \<^verbatim>\<open>u64\<close>, a spend in
  \<^verbatim>\<open>u64\<close> and finitely many slots, and no request counter is saturated.\<close>

theorem reachable_stores_well_formed:
  assumes "reachable st t"
  shows "store_wf st \<and> (\<forall>key now. requests_below_max (state_for st now key) now)"
  using reachable_wf [OF assms] reachable_below_max [OF assms] by blast

theorem reachable_stores_well_formed_witness: "store_wf busy_store"
  using reachable_stores_well_formed [OF busy_reachable] by blast

section \<open>Reservations\<close>

definition held_on :: "local_store limiter \<Rightarrow> string \<Rightarrow> string set" where
  "held_on lim = local_held (lim_store lim)"

text \<open>C14. A streamed response costs what a unary one does: holding the slots over the stream,
  accounting tokens and spend to the layers of each unit afterwards and dropping the guard
  leaves every bucket with the same accounted amount and the same slots as committing all
  layers at once.\<close>

theorem streaming_costs_like_commit:
  assumes "store_wf st"
  shows "let (st0, g) = into_stream_hold local_ops st now rs;
             st1 = add_tokens_post_stream_all local_ops st0 now' (token_keys rs) tokens;
             st2 = add_tokens_post_stream_all local_ops st1 now' (spend_keys rs) spend;
             (st3, g') = release_now local_ops st2 now' g;
             unary = multi_commit local_ops st now rs tokens spend
         in local_charged st3 key = local_charged unary key \<and>
            local_held st3 key = local_held unary key \<and> released g'"
  using local_limiter.streaming_accounts_like_commit [OF assms, of now rs now' tokens spend key]
  by (auto simp: Let_def release_now_def into_stream_hold_def split: prod.splits)

definition demo_layers :: multi_reservation where
  "demo_layers =
     [\<lparr>res_key = ''k'', res_member = ''m0'', has_concurrency_slot = True, refresh_task = False,
       lease_loss = False, committed = False, res_unit = UnitMicroUsd\<rparr>]"

theorem streaming_costs_like_commit_witness:
  "local_charged (fst (release_now local_ops
     (add_tokens_post_stream_all local_ops
       (add_tokens_post_stream_all local_ops (fst (into_stream_hold local_ops busy_store 62 demo_layers))
          63 (token_keys demo_layers) 5) 63 (spend_keys demo_layers) 9)
     63 (snd (into_stream_hold local_ops busy_store 62 demo_layers)))) ''k'' =
   local_charged (multi_commit local_ops busy_store 62 demo_layers 5 9) ''k''"
  using streaming_costs_like_commit [OF reachable_wf [OF busy_reachable], of 62 demo_layers 63 5 9 "''k''"]
  by (simp add: Let_def split: prod.splits)

text \<open>C15. A reservation gives back exactly what it took: after \<^verbatim>\<open>pre_commit\<close> the caller's member
  holds one more slot, and dropping the reservation or committing it restores the slots of every
  bucket; a refused \<^verbatim>\<open>pre_commit\<close> takes no slot and charges nothing.\<close>

theorem reservation_gives_back:
  assumes "pre_commit_with_unit local_ops lim now key l u = (lim', res)"
    and "member_prefix lim @ nat_str (seq lim) \<notin> held_on lim key"
  shows "case res of
           Inr r \<Rightarrow>
             held_on lim' key = insert (res_member r) (held_on lim key) \<and>
             local_held (drop_reservation local_ops (lim_store lim') now' r) = held_on lim \<and>
             local_held (commit_tokens local_ops (lim_store lim') now' r n) = held_on lim
         | Inl e \<Rightarrow> held_on lim' = held_on lim \<and>
             local_charged (lim_store lim') = local_charged (lim_store lim)"
proof (cases res)
  case (Inl e)
  with assms(1) show ?thesis
    using local_limiter.refusal_takes_nothing by (simp add: held_on_def)
next
  case (Inr r)
  with assms show ?thesis
    using local_limiter.reservation_roundtrip by (simp add: held_on_def)
qed

theorem reservation_gives_back_witness:
  "\<exists>lim' r. pre_commit_with_unit local_ops \<lparr>lim_store = local_store_new, member_prefix = ''p:'', seq = 0\<rparr>
       61 ''k'' one_at_a_time UnitTokens = (lim', Inr r) \<and>
     local_held (drop_reservation local_ops (lim_store lim') 70 r) = local_held local_store_new"
proof -
  define lim :: "local_store limiter" where "lim = \<lparr>lim_store = local_store_new, member_prefix = ''p:'', seq = 0\<rparr>"
  obtain lim' r where p: "pre_commit_with_unit local_ops lim 61 ''k'' one_at_a_time UnitTokens = (lim', Inr r)"
    by (simp add: lim_def pre_commit_with_unit_def next_member_def local_ops_def eval_store)
  have "member_prefix lim @ nat_str (seq lim) \<notin> held_on lim ''k''"
    by (simp add: held_on_def local_held_def lim_def local_store_new_def)
  from reservation_gives_back [OF p this, of 70] p show ?thesis
    by (auto simp: held_on_def lim_def)
qed

text \<open>The members of one process are distinct: any \<open>2 ^ 64\<close> consecutive reservations draw
  pairwise different names, so no two requests in flight can share a slot.\<close>

theorem member_names_distinct:
  assumes "seq lim < u64_modulus" and "n \<le> u64_modulus"
  shows "distinct (members_from lim n)"
  by (rule members_distinct [OF assms])

theorem member_names_distinct_witness:
  "distinct (members_from \<lparr>lim_store = local_store_new, member_prefix = ''p:'', seq = 18446744073709551614\<rparr> 4)"
  by (rule member_names_distinct) (simp_all add: u64_modulus_def)

text \<open>A stream guard releases once: the first \<^verbatim>\<open>release_now\<close> removes exactly the held members
  from their buckets, and a second one (the drop after an explicit release) changes nothing.\<close>

theorem guard_releases_once:
  assumes "\<not> released g" and "release_now local_ops st now g = (st1, g1)"
  shows "local_held st1 key = local_held st key - snd ` {h \<in> set (holds g). fst h = key} \<and>
         local_charged st1 = local_charged st \<and>
         release_now local_ops st' now' g1 = (st', g1)"
  using local_limiter.held_release_now [OF assms(1), of st now key] assms
    local_limiter.release_now_once [of st' now' st now g]
    local_limiter.charged_release_holds [of st now "holds g"]
  by (simp add: release_now_def)

theorem guard_releases_once_witness:
  "local_held (fst (release_now local_ops busy_store 70
      \<lparr>holds = [(''k'', ''m0'')], refresh_tasks = 0, guard_lease_loss = False, released = False\<rparr>)) ''k'' = {}"
    (is "local_held (fst (release_now local_ops busy_store 70 ?g)) ''k'' = {}")
proof -
  have "local_held busy_store ''k'' = {''m0''}" by (simp add: local_held_def eval_store)
  moreover have "snd ` {h \<in> set (holds ?g). fst h = ''k''} = {''m0''}" by force
  moreover have "local_held (fst (release_now local_ops busy_store 70 ?g)) ''k'' =
      local_held busy_store ''k'' - snd ` {h \<in> set (holds ?g). fst h = ''k''}"
    using guard_releases_once [of ?g, OF _ surjective_pairing] by simp
  ultimately show ?thesis by (simp only: Diff_cancel)
qed

end
