(* ===== verification/Redis_Bucket.thy ===== *)
theory Redis_Bucket
  imports Local_Store
begin

text \<open>
  The counters of one bucket on a Redis server and the Lua scripts of
  \<^verbatim>\<open>crates/aisix-ratelimit/src/store/redis.rs\<close> that read and write them. A script is one step of the
  server; it ends with its reply, or with an error (\<open>None\<close>) that leaves behind what it had written.

  Server time is in microseconds; expiry deadlines are in milliseconds, as Redis keeps them. The score
  of a concurrency member is kept in microseconds. A Lua number is a double: \<open>lua\<close> is the rounding of an
  integer to it, the identity up to \<open>2 ^ 53\<close>.
\<close>

section \<open>The server's state\<close>

record redis_bucket =
  rb_counters :: "(string \<times> nat) \<rightharpoonup> (nat \<times> nat)"
  rb_consumed :: "nat option"
  rb_conc :: "string \<rightharpoonup> nat"
  rb_conc_expiry :: nat

definition redis_bucket_new :: redis_bucket where
  "redis_bucket_new = \<lparr>rb_counters = Map.empty, rb_consumed = None, rb_conc = Map.empty, rb_conc_expiry = 0\<rparr>"

definition MICROS :: nat where "MICROS = 1000000"

definition secs_of :: "nat \<Rightarrow> nat" where "secs_of us = us div MICROS"
definition ms_of :: "nat \<Rightarrow> nat" where "ms_of us = us div 1000"

text \<open>\<^verbatim>\<open>GET\<close> of a counter, zero when absent or expired.\<close>

definition live_counter :: "redis_bucket \<Rightarrow> nat \<Rightarrow> string \<times> nat \<Rightarrow> (nat \<times> nat) option" where
  "live_counter rb us k =
     (case rb_counters rb k of
        Some (v, e) \<Rightarrow> if ms_of us \<le> e then Some (v, e) else None
      | None \<Rightarrow> None)"

definition get_counter :: "redis_bucket \<Rightarrow> nat \<Rightarrow> string \<times> nat \<Rightarrow> nat" where
  "get_counter rb us k = (case live_counter rb us k of Some (v, _) \<Rightarrow> v | None \<Rightarrow> 0)"

definition get_consumed :: "redis_bucket \<Rightarrow> nat" where
  "get_consumed rb = (case rb_consumed rb of Some v \<Rightarrow> v | None \<Rightarrow> 0)"

text \<open>The members of the concurrency set, none when its key has expired.\<close>

definition conc_set :: "redis_bucket \<Rightarrow> nat \<Rightarrow> (string \<rightharpoonup> nat)" where
  "conc_set rb us = (if ms_of us \<le> rb_conc_expiry rb then rb_conc rb else Map.empty)"

text \<open>\<^verbatim>\<open>INCRBY\<close> and, when it returns the amount added, \<^verbatim>\<open>EXPIRE\<close>. The counter is a signed 64-bit
  integer, and the command fails rather than overflow.\<close>

definition incr_expire ::
    "(nat \<Rightarrow> nat) \<Rightarrow> nat \<Rightarrow> string \<times> nat \<Rightarrow> nat \<Rightarrow> nat \<Rightarrow> redis_bucket \<Rightarrow> redis_bucket option" where
  "incr_expire lua us k amount ttl rb =
     (let v = get_counter rb us k + amount;
          keep = (case live_counter rb us k of Some (_, e) \<Rightarrow> e | None \<Rightarrow> 0);
          e = (if lua v = amount then ms_of us + ttl * 1000 else keep)
      in if int v > i64_max then None else Some (rb\<lparr>rb_counters := (rb_counters rb)(k \<mapsto> (v, e))\<rparr>))"

text \<open>Stale members are pruned at a whole-second boundary; the second range removes members an older
  version wrote with millisecond scores.\<close>

definition conc_kept :: "nat \<Rightarrow> nat \<Rightarrow> nat \<Rightarrow> bool" where
  "conc_kept conc_ttl us score \<longleftrightarrow>
     (let prune_before = int (secs_of us) - int conc_ttl
      in \<not> int score < prune_before * int MICROS \<and>
         \<not> (100000000000 * MICROS \<le> score \<and> int score \<le> prune_before * 1000 * int MICROS))"

definition prune_conc :: "nat \<Rightarrow> nat \<Rightarrow> redis_bucket \<Rightarrow> redis_bucket" where
  "prune_conc conc_ttl us rb =
     rb\<lparr>rb_conc := (\<lambda>m. case conc_set rb us m of
                          Some score \<Rightarrow> if conc_kept conc_ttl us score then Some score else None
                        | None \<Rightarrow> None)\<rparr>"

definition zadd_conc :: "nat \<Rightarrow> nat \<Rightarrow> string \<Rightarrow> redis_bucket \<Rightarrow> redis_bucket" where
  "zadd_conc conc_key_ttl us member rb =
     rb\<lparr>rb_conc := (conc_set rb us)(member \<mapsto> us), rb_conc_expiry := ms_of us + conc_key_ttl * 1000\<rparr>"

definition zrem_conc :: "string \<Rightarrow> redis_bucket \<Rightarrow> redis_bucket" where
  "zrem_conc member rb = rb\<lparr>rb_conc := (rb_conc rb)(member := None)\<rparr>"

section \<open>The acquire script\<close>

definition CODE_OK :: int where "CODE_OK = 0"
definition CODE_CONCURRENCY :: int where "CODE_CONCURRENCY = 1"
definition CODE_TOKENS :: int where "CODE_TOKENS = 2"
definition CODE_REQUESTS :: int where "CODE_REQUESTS = 3"
definition CODE_ALLOWANCE :: int where "CODE_ALLOWANCE = 4"

lemmas codes = CODE_OK_def CODE_CONCURRENCY_def CODE_TOKENS_def CODE_REQUESTS_def CODE_ALLOWANCE_def

definition script_retry :: "nat \<Rightarrow> nat \<Rightarrow> nat" where
  "script_retry now secs = max (secs - (now - bucket_of secs now)) 1"

text \<open>The loops over the token and the request triples; \<open>i\<close> counts from one.\<close>

fun token_refusal :: "(nat \<Rightarrow> nat) \<Rightarrow> redis_bucket \<Rightarrow> nat \<Rightarrow> nat \<Rightarrow> dim list \<Rightarrow> int list option" where
  "token_refusal lua rb us i [] = None"
| "token_refusal lua rb us i (d # ds) =
     (let now = secs_of us;
          cur = lua (get_counter rb us (dim_name d, bucket_of (dim_secs d) now));
          lim = lua (dim_limit d)
      in if cur \<ge> lim then Some [CODE_TOKENS, int (script_retry now (dim_secs d)), int i, int lim, int cur]
         else token_refusal lua rb us (i + 1) ds)"

fun request_refusal :: "(nat \<Rightarrow> nat) \<Rightarrow> redis_bucket \<Rightarrow> nat \<Rightarrow> nat \<Rightarrow> dim list \<Rightarrow> int list option" where
  "request_refusal lua rb us i [] = None"
| "request_refusal lua rb us i (d # ds) =
     (let now = secs_of us;
          cur = lua (get_counter rb us (dim_name d, bucket_of (dim_secs d) now));
          lim = lua (dim_limit d)
      in if lua (cur + 1) > lim then Some [CODE_REQUESTS, int (script_retry now (dim_secs d)), int i, int lim, int cur]
         else request_refusal lua rb us (i + 1) ds)"

text \<open>The increments, with whether they all succeeded.\<close>

fun incr_requests :: "(nat \<Rightarrow> nat) \<Rightarrow> nat \<Rightarrow> nat \<Rightarrow> dim list \<Rightarrow> redis_bucket \<Rightarrow> redis_bucket \<times> bool" where
  "incr_requests lua us grace [] rb = (rb, True)"
| "incr_requests lua us grace (d # ds) rb =
     (case incr_expire lua us (dim_name d, bucket_of (dim_secs d) (secs_of us)) 1 (dim_secs d + grace) rb of
        None \<Rightarrow> (rb, False)
      | Some rb' \<Rightarrow> incr_requests lua us grace ds rb')"

text \<open>The part after the concurrency gate.\<close>

definition acquire_rest ::
    "(nat \<Rightarrow> nat) \<Rightarrow> nat \<Rightarrow> string \<Rightarrow> bool \<Rightarrow> nat \<Rightarrow> nat \<Rightarrow> dim list \<Rightarrow> dim list \<Rightarrow> nat option \<Rightarrow>
     redis_bucket \<Rightarrow> redis_bucket \<times> int list option" where
  "acquire_rest lua us member has_conc conc_key_ttl grace req tok granted rb =
     (if \<exists>g \<in> set_option granted. lua (get_consumed rb) \<ge> lua g then (rb, Some [CODE_ALLOWANCE, 0])
      else (case token_refusal lua rb us 1 tok of
              Some reply \<Rightarrow> (rb, Some reply)
            | None \<Rightarrow>
          (case request_refusal lua rb us 1 req of
              Some reply \<Rightarrow> (rb, Some reply)
            | None \<Rightarrow>
          (case incr_requests lua us grace req rb of
              (rb1, False) \<Rightarrow> (rb1, None)
            | (rb1, True) \<Rightarrow>
                (if has_conc then zadd_conc conc_key_ttl us member rb1 else rb1, Some [CODE_OK, 0, 0, 0, 0])))))"

definition acquire_script ::
    "(nat \<Rightarrow> nat) \<Rightarrow> nat \<Rightarrow> string \<Rightarrow> nat option \<Rightarrow> nat \<Rightarrow> nat \<Rightarrow> nat \<Rightarrow> dim list \<Rightarrow> dim list \<Rightarrow> nat option \<Rightarrow>
     redis_bucket \<Rightarrow> redis_bucket \<times> int list option" where
  "acquire_script lua us member conc_max conc_ttl conc_key_ttl grace req tok granted rb =
     (case conc_max of
        None \<Rightarrow> acquire_rest lua us member False conc_key_ttl grace req tok granted rb
      | Some mx \<Rightarrow>
          (let rb1 = prune_conc conc_ttl us rb;
               in_flight = card (dom (conc_set rb1 us))
           in if in_flight \<ge> mx then (rb1, Some [CODE_CONCURRENCY, 0, 0, int mx, int in_flight])
              else acquire_rest lua us member True conc_key_ttl grace req tok granted rb1))"

section \<open>The other scripts\<close>

text \<open>A number reaches \<^verbatim>\<open>INCRBY\<close> with seventeen significant digits: from \<open>10 ^ 17\<close> on it is not written
  as an integer, and the command fails.\<close>

definition token_windows :: "(string \<times> nat) list" where
  "token_windows = [(DIM_TPM, 60), (DIM_TPH, 3600), (DIM_TPD, 86400)]"

fun add_windows ::
    "(nat \<Rightarrow> nat) \<Rightarrow> nat \<Rightarrow> nat \<Rightarrow> nat \<Rightarrow> (string \<times> nat) list \<Rightarrow> redis_bucket \<Rightarrow> redis_bucket \<times> bool" where
  "add_windows lua us grace amount [] rb = (rb, True)"
| "add_windows lua us grace amount ((name, secs) # ws) rb =
     (if amount \<ge> 10 ^ 17 then (rb, False)
      else (case incr_expire lua us (name, bucket_of secs (secs_of us)) amount (secs + grace) rb of
              None \<Rightarrow> (rb, False)
            | Some rb' \<Rightarrow> add_windows lua us grace amount ws rb'))"

definition add_consumed :: "nat \<Rightarrow> redis_bucket \<Rightarrow> redis_bucket \<times> bool" where
  "add_consumed amount rb =
     (if amount \<ge> 10 ^ 17 \<or> int (get_consumed rb + amount) > i64_max then (rb, False)
      else (rb\<lparr>rb_consumed := Some (get_consumed rb + amount)\<rparr>, True))"

definition account :: "(nat \<Rightarrow> nat) \<Rightarrow> nat \<Rightarrow> nat \<Rightarrow> nat \<Rightarrow> redis_bucket \<Rightarrow> redis_bucket \<times> bool" where
  "account lua us grace tokens rb =
     (if lua tokens > 0
      then (case add_windows lua us grace (lua tokens) token_windows rb of
              (rb1, False) \<Rightarrow> (rb1, False)
            | (rb1, True) \<Rightarrow> add_consumed (lua tokens) rb1)
      else (rb, True))"

definition commit_script :: "(nat \<Rightarrow> nat) \<Rightarrow> nat \<Rightarrow> string \<Rightarrow> nat \<Rightarrow> nat \<Rightarrow> redis_bucket \<Rightarrow> redis_bucket \<times> int option" where
  "commit_script lua us member tokens grace rb =
     (case account lua us grace tokens rb of
        (rb1, False) \<Rightarrow> (rb1, None)
      | (rb1, True) \<Rightarrow> (zrem_conc member rb1, Some 1))"

definition add_tokens_script :: "(nat \<Rightarrow> nat) \<Rightarrow> nat \<Rightarrow> nat \<Rightarrow> nat \<Rightarrow> redis_bucket \<Rightarrow> redis_bucket \<times> int option" where
  "add_tokens_script lua us tokens grace rb =
     (case account lua us grace tokens rb of
        (rb1, False) \<Rightarrow> (rb1, None)
      | (rb1, True) \<Rightarrow> (rb1, Some 1))"

definition refresh_script :: "nat \<Rightarrow> string \<Rightarrow> nat \<Rightarrow> redis_bucket \<Rightarrow> redis_bucket \<times> int" where
  "refresh_script us member conc_key_ttl rb =
     (if conc_set rb us member = None then (rb, 0) else (zadd_conc conc_key_ttl us member rb, 1))"

definition peek_script :: "(nat \<Rightarrow> nat) \<Rightarrow> nat \<Rightarrow> nat \<Rightarrow> redis_bucket \<Rightarrow> redis_bucket \<times> int list" where
  "peek_script lua us conc_ttl rb =
     (let now = secs_of us;
          ws = bucket_of 60 now;
          rb1 = prune_conc conc_ttl us rb
      in (rb1, [int (lua (get_counter rb us (DIM_RPM, ws))), int (lua (get_counter rb us (DIM_TPM, ws))),
                int (card (dom (conc_set rb1 us))), int (60 - now mod 60)]))"

section \<open>What the store reads out of the replies\<close>

definition UNKNOWN_DIMENSION :: string where "UNKNOWN_DIMENSION = ''unknown''"

definition reply_at :: "int list \<Rightarrow> nat \<Rightarrow> int" where
  "reply_at reply i = (if i < length reply then reply ! i else 0)"

definition refused_detail :: "int list \<Rightarrow> dim list \<Rightarrow> limit_detail" where
  "refused_detail reply dims =
     (let idx = reply_at reply 2;
          name = (if idx \<ge> 1 \<and> nat idx - 1 < length dims then dim_name (dims ! (nat idx - 1)) else UNKNOWN_DIMENSION)
      in detail_window name (nat (max (reply_at reply 3) 0)) (nat (max (reply_at reply 4) 0))
           (nat (max (reply_at reply 1) 0)))"

definition decode_acquire :: "rate_limit \<Rightarrow> int list \<Rightarrow> rate_limit_error option" where
  "decode_acquire l reply =
     (let code = reply_at reply 0
      in if code = CODE_OK then None
         else if code = CODE_CONCURRENCY
         then Some (Concurrency (detail_concurrency (nat (max (reply_at reply 3) 0)) (nat (max (reply_at reply 4) 0))))
         else if code = CODE_TOKENS then Some (Tokens ScopeTokens (refused_detail reply (token_dims l)))
         else if code = CODE_REQUESTS then Some (Requests ScopeRequests (refused_detail reply (request_dims l)))
         else if code = CODE_ALLOWANCE then Some AllowanceExhausted
         else None)"

text \<open>The acquire as the store invokes it, and its answer.\<close>

definition redis_acquire ::
    "(nat \<Rightarrow> nat) \<Rightarrow> nat \<Rightarrow> nat \<Rightarrow> nat \<Rightarrow> rate_limit \<Rightarrow> string \<Rightarrow> redis_bucket \<Rightarrow>
     redis_bucket \<times> (rate_limit_error option) option" where
  "redis_acquire lua us conc_ttl grace l member rb =
     (let (rb', reply) = acquire_script lua us member (concurrency l) conc_ttl (sat_add conc_ttl 1) grace
                           (request_dims l) (token_dims l) (granted_micro_usd l) rb
      in (rb', map_option (decode_acquire l) reply))"

definition redis_peek ::
    "(nat \<Rightarrow> nat) \<Rightarrow> nat \<Rightarrow> nat \<Rightarrow> rate_limit \<Rightarrow> redis_bucket \<Rightarrow> redis_bucket \<times> rate_limit_status" where
  "redis_peek lua us conc_ttl l rb =
     (let (rb', reply) = peek_script lua us conc_ttl rb
      in (rb', \<lparr>rpm_limit = rpm l, rpm_used = nat (max (reply_at reply 0) 0), rpm_reset_secs = nat (max (reply_at reply 3) 0),
               tpm_limit = tpm l, tpm_used = nat (max (reply_at reply 1) 0), tpm_reset_secs = nat (max (reply_at reply 3) 0),
               concurrency_limit = concurrency l, status_in_flight = as_u32 (nat (max (reply_at reply 2) 0))\<rparr>))"

end
