(* ===== verification/Redis_Refines.thy ===== *)
theory Redis_Refines
  imports Redis_Bucket Local_Runs
begin

text \<open>
  The scripts against the in-process store: on one bucket, with the server answering and the leases
  kept alive, the two backends give the same answers. The relation between their states compares the
  server's counter of every window with the single counter of the process (\<open>tracks\<close>).
\<close>

section \<open>Numbers and windows\<close>

definition exact_bound :: nat where "exact_bound = 9007199254740992"

text \<open>Rounding to a double: monotone, and exact up to \<open>2 ^ 53\<close>.\<close>

definition lua_double :: "(nat \<Rightarrow> nat) \<Rightarrow> bool" where
  "lua_double lua \<longleftrightarrow> mono lua \<and> (\<forall>n \<le> exact_bound. lua n = n)"

lemma lua_exact: "lua_double lua \<Longrightarrow> n \<le> exact_bound \<Longrightarrow> lua n = n"
  by (simp add: lua_double_def)

lemma lua_le_small:
  assumes "lua_double lua" and "n < exact_bound"
  shows "lua m \<le> n \<longleftrightarrow> m \<le> n"
proof (cases "m \<le> exact_bound")
  case False
  with assms have "exact_bound \<le> lua m"
    by (metis lua_double_def monoD nat_le_linear order_refl)
  with assms False show ?thesis by simp
qed (simp add: lua_exact [OF assms(1)])

definition dim_width :: "string \<Rightarrow> nat" where
  "dim_width d =
     (if d \<in> {DIM_RPM, DIM_TPM} then MINUTE_SECS
      else if d \<in> {DIM_RPH, DIM_TPH} then HOUR_SECS
      else if d \<in> {DIM_RPD, DIM_TPD} then DAY_SECS else SECOND_SECS)"

definition request_names :: "string list" where "request_names = [DIM_RPS, DIM_RPM, DIM_RPH, DIM_RPD]"
definition token_names :: "string list" where "token_names = [DIM_TPM, DIM_TPH, DIM_TPD]"

lemma dim_width_pos [simp]: "dim_width d > 0"
  by (simp add: dim_width_def)

lemma dim_widths [simp]:
  "dim_width DIM_RPS = SECOND_SECS" "dim_width DIM_RPM = MINUTE_SECS" "dim_width DIM_RPH = HOUR_SECS"
  "dim_width DIM_RPD = DAY_SECS" "dim_width DIM_TPM = MINUTE_SECS" "dim_width DIM_TPH = HOUR_SECS"
  "dim_width DIM_TPD = DAY_SECS"
  by (simp_all add: dim_width_def dim_names)

lemma dims_of_mem:
  "d \<in> set (dims_of xs) \<longleftrightarrow> (\<exists>n secs l. (n, secs, Some l) \<in> set xs \<and> d = \<lparr>dim_name = n, dim_secs = secs, dim_limit = l\<rparr>)"
  by (induction xs rule: dims_of.induct) auto

lemma dims_width: "d \<in> set (request_dims l) \<union> set (token_dims l) \<Longrightarrow> dim_secs d = dim_width (dim_name d)"
  unfolding request_dims_def token_dims_def Un_iff dims_of_mem by auto

lemma dims_distinct: "distinct (map dim_name (request_dims l))" "distinct (map dim_name (token_dims l))"
  by (simp_all add: request_dims_def token_dims_def dims_of_step dim_names split: option.splits)

text \<open>The count of a dimension's current window, and the count kept for any window.\<close>

definition kept_count :: "redis_bucket \<Rightarrow> string \<Rightarrow> nat \<Rightarrow> nat" where
  "kept_count rb d b = (case rb_counters rb (d, b) of Some (v, _) \<Rightarrow> v | None \<Rightarrow> 0)"

definition redis_used :: "redis_bucket \<Rightarrow> nat \<Rightarrow> string \<Rightarrow> nat" where
  "redis_used rb us d = get_counter rb us (d, bucket_of (dim_width d) (secs_of us))"

text \<open>No counter expires before its window closes.\<close>

definition expiry_ok :: "redis_bucket \<Rightarrow> bool" where
  "expiry_ok rb \<longleftrightarrow> (\<forall>d b v e. rb_counters rb (d, b) = Some (v, e) \<longrightarrow> (b + dim_width d) * 1000 \<le> e)"

lemma ms_secs: "secs_of us * 1000 \<le> ms_of us" "ms_of us < secs_of us * 1000 + 1000"
  by (simp_all add: secs_of_def ms_of_def MICROS_def)

lemma live_in_window:
  assumes "expiry_ok rb" and "rb_counters rb (d, bucket_of (dim_width d) (secs_of us)) = Some (v, e)"
  shows "ms_of us \<le> e"
proof -
  have "secs_of us < bucket_of (dim_width d) (secs_of us) + dim_width d" by (simp add: bucket_of_upper)
  then have "(secs_of us + 1) * 1000 \<le> (bucket_of (dim_width d) (secs_of us) + dim_width d) * 1000"
    by (intro mult_le_mono1) simp
  moreover have "(bucket_of (dim_width d) (secs_of us) + dim_width d) * 1000 \<le> e"
    using assms unfolding expiry_ok_def by blast
  ultimately show ?thesis using ms_secs(2) [of us] by simp
qed

lemma redis_used_kept:
  "expiry_ok rb \<Longrightarrow> redis_used rb us d = kept_count rb d (bucket_of (dim_width d) (secs_of us))"
  using live_in_window [of rb d us]
  by (auto simp: redis_used_def get_counter_def live_counter_def kept_count_def split: option.split)

lemma live_in_window_Some:
  "expiry_ok rb \<Longrightarrow> rb_counters rb (d, bucket_of (dim_width d) (secs_of us)) = Some x \<Longrightarrow>
     live_counter rb us (d, bucket_of (dim_width d) (secs_of us)) = Some x"
  using live_in_window [of rb d us] by (cases x) (auto simp: live_counter_def)

section \<open>One increment\<close>

lemma incr_current:
  assumes lua: "lua_double lua" and ok: "expiry_ok rb" and ttl: "dim_width d \<le> ttl"
    and small: "redis_used rb us d + amount \<le> exact_bound" and b: "b = bucket_of (dim_width d) (secs_of us)"
  obtains rb' where "incr_expire lua us (d, b) amount ttl rb = Some rb'" and "expiry_ok rb'"
    and "kept_count rb' = (kept_count rb)(d := (kept_count rb d)(b := kept_count rb d b + amount))"
    and "rb_consumed rb' = rb_consumed rb" and "rb_conc rb' = rb_conc rb" and "rb_conc_expiry rb' = rb_conc_expiry rb"
proof -
  define v where "v = get_counter rb us (d, b) + amount"
  define e where "e = (if lua v = amount then ms_of us + ttl * 1000
                       else case live_counter rb us (d, b) of Some (_, e) \<Rightarrow> e | None \<Rightarrow> 0)"
  have used: "get_counter rb us (d, b) = redis_used rb us d" by (simp add: redis_used_def b)
  have v: "v = kept_count rb d b + amount" using used redis_used_kept [OF ok, of us d] by (simp only: v_def b)
  have lv: "lua v = v" using small by (intro lua_exact [OF lua]) (simp add: v_def used)
  have "int v \<le> i64_max" using small by (simp add: v_def used exact_bound_def i64_max_def)
  then have some: "incr_expire lua us (d, b) amount ttl rb = Some (rb\<lparr>rb_counters := (rb_counters rb)((d, b) \<mapsto> (v, e))\<rparr>)"
    by (simp add: incr_expire_def Let_def v_def e_def)
  have e_ok: "(b + dim_width d) * 1000 \<le> e"
  proof (cases "lua v = amount")
    case True
    have "(b + dim_width d) * 1000 \<le> (secs_of us + ttl) * 1000" using ttl b by (intro mult_le_mono1 add_mono) simp_all
    then show ?thesis using True ms_secs(1) [of us] by (simp add: e_def add_mult_distrib)
  next
    case False
    then have "get_counter rb us (d, b) \<noteq> 0" using lv by (simp add: v_def)
    then obtain w x where "live_counter rb us (d, b) = Some (w, x)"
      by (auto simp: get_counter_def split: option.splits)
    moreover from this have "rb_counters rb (d, b) = Some (w, x)" by (auto simp: live_counter_def split: option.splits if_splits)
    ultimately show ?thesis using False ok unfolding expiry_ok_def e_def by auto
  qed
  show thesis
    by (rule that [OF some]) (use ok e_ok in \<open>auto simp: expiry_ok_def kept_count_def fun_eq_iff v\<close>)
qed

section \<open>The loops of the scripts\<close>

definition bump_all :: "string set \<Rightarrow> nat \<Rightarrow> nat \<Rightarrow> (string \<Rightarrow> nat \<Rightarrow> nat) \<Rightarrow> (string \<Rightarrow> nat \<Rightarrow> nat)" where
  "bump_all names now amount m d =
     (if d \<in> names then (m d)(bucket_of (dim_width d) now := m d (bucket_of (dim_width d) now) + amount) else m d)"

lemma bump_all_empty [simp]: "bump_all {} now amount m = m"
  by (simp add: bump_all_def fun_eq_iff)

lemma bump_all_insert:
  "d \<notin> names \<Longrightarrow>
   bump_all names now amount (m(d := (m d)(bucket_of (dim_width d) now := m d (bucket_of (dim_width d) now) + amount))) =
   bump_all (insert d names) now amount m"
  by (auto simp: bump_all_def fun_eq_iff)

text \<open>What the increments of a script do to a bucket.\<close>

definition counters_bumped :: "nat \<Rightarrow> string set \<Rightarrow> nat \<Rightarrow> redis_bucket \<Rightarrow> redis_bucket \<Rightarrow> bool" where
  "counters_bumped us names amount rb rb' \<longleftrightarrow>
     expiry_ok rb' \<and> kept_count rb' = bump_all names (secs_of us) amount (kept_count rb) \<and>
     rb_consumed rb' = rb_consumed rb \<and> rb_conc rb' = rb_conc rb \<and> rb_conc_expiry rb' = rb_conc_expiry rb"

lemma counters_bumped_step:
  assumes "expiry_ok rb" and "expiry_ok rb1"
    and "kept_count rb1 = (kept_count rb)(d := (kept_count rb d)(bucket_of (dim_width d) (secs_of us) :=
           kept_count rb d (bucket_of (dim_width d) (secs_of us)) + amount))"
    and "rb_consumed rb1 = rb_consumed rb" "rb_conc rb1 = rb_conc rb" "rb_conc_expiry rb1 = rb_conc_expiry rb"
    and "d \<notin> names" and "counters_bumped us names amount rb1 rb'"
  shows "counters_bumped us (insert d names) amount rb rb'"
  using assms bump_all_insert [OF assms(7), of "secs_of us" amount "kept_count rb"] by (simp add: counters_bumped_def)

lemma counters_bumped_used:
  assumes "expiry_ok rb" and "counters_bumped us names amount rb rb'"
  shows "redis_used rb' us d = (if d \<in> names then redis_used rb us d + amount else redis_used rb us d)"
  using assms by (simp add: redis_used_kept counters_bumped_def bump_all_def)

lemma used_other:
  assumes "expiry_ok rb" and "expiry_ok rb1"
    and "kept_count rb1 = (kept_count rb)(d := f)" and "c \<noteq> d"
  shows "redis_used rb1 us c = redis_used rb us c"
  using assms by (simp add: redis_used_kept)

lemma incr_requests_bumps:
  assumes "lua_double lua" and "expiry_ok rb" and "distinct (map dim_name ds)"
    and "\<forall>d \<in> set ds. dim_secs d = dim_width (dim_name d) \<and> redis_used rb us (dim_name d) + 1 \<le> exact_bound"
  shows "\<exists>rb'. incr_requests lua us grace ds rb = (rb', True) \<and>
           counters_bumped us (dim_name ` set ds) 1 rb rb'"
  using assms
proof (induction ds arbitrary: rb)
  case Nil
  then show ?case by (simp add: counters_bumped_def)
next
  case (Cons d ds)
  let ?b = "bucket_of (dim_width (dim_name d)) (secs_of us)"
  from Cons.prems have w: "dim_secs d = dim_width (dim_name d)" "dim_width (dim_name d) \<le> dim_secs d + grace"
    and small: "redis_used rb us (dim_name d) + 1 \<le> exact_bound" by simp_all
  obtain rb1 where 1: "incr_expire lua us (dim_name d, ?b) 1 (dim_secs d + grace) rb = Some rb1" "expiry_ok rb1"
    "kept_count rb1 = (kept_count rb)(dim_name d := (kept_count rb (dim_name d))(?b := kept_count rb (dim_name d) ?b + 1))"
    "rb_consumed rb1 = rb_consumed rb" "rb_conc rb1 = rb_conc rb" "rb_conc_expiry rb1 = rb_conc_expiry rb"
    by (rule incr_current [OF Cons.prems(1,2) w(2) small refl])
  have new: "dim_name d \<notin> dim_name ` set ds" using Cons.prems(3) by simp
  have "\<forall>c \<in> set ds. dim_secs c = dim_width (dim_name c) \<and> redis_used rb1 us (dim_name c) + 1 \<le> exact_bound"
    using Cons.prems(4) new used_other [OF Cons.prems(2) 1(2,3), of _ us] by (auto simp: image_iff)
  with Cons.IH [OF Cons.prems(1) 1(2)] Cons.prems(3) obtain rb' where
    2: "incr_requests lua us grace ds rb1 = (rb', True)" "counters_bumped us (dim_name ` set ds) 1 rb1 rb'" by auto
  have "incr_requests lua us grace (d # ds) rb = (rb', True)" using 1(1) 2(1) w(1) by simp
  moreover have "counters_bumped us (insert (dim_name d) (dim_name ` set ds)) 1 rb rb'"
    by (rule counters_bumped_step [OF Cons.prems(2) 1(2-6) new 2(2)])
  ultimately show ?case by simp
qed

lemma add_windows_bumps:
  assumes "lua_double lua" and "expiry_ok rb" and "distinct (map fst ws)" and "amount < exact_bound"
    and "\<forall>(d, secs) \<in> set ws. secs = dim_width d \<and> redis_used rb us d + amount \<le> exact_bound"
  shows "\<exists>rb'. add_windows lua us grace amount ws rb = (rb', True) \<and> counters_bumped us (fst ` set ws) amount rb rb'"
  using assms
proof (induction ws arbitrary: rb)
  case Nil
  then show ?case by (simp add: counters_bumped_def)
next
  case (Cons w ws)
  obtain d secs where w: "w = (d, secs)" by fastforce
  let ?b = "bucket_of (dim_width d) (secs_of us)"
  from Cons.prems w have secs: "secs = dim_width d" "dim_width d \<le> secs + grace"
    and small: "redis_used rb us d + amount \<le> exact_bound" by simp_all
  have arg: "\<not> amount \<ge> 10 ^ 17" using Cons.prems(4) by (simp add: exact_bound_def)
  obtain rb1 where 1: "incr_expire lua us (d, ?b) amount (secs + grace) rb = Some rb1" "expiry_ok rb1"
    "kept_count rb1 = (kept_count rb)(d := (kept_count rb d)(?b := kept_count rb d ?b + amount))"
    "rb_consumed rb1 = rb_consumed rb" "rb_conc rb1 = rb_conc rb" "rb_conc_expiry rb1 = rb_conc_expiry rb"
    by (rule incr_current [OF Cons.prems(1,2) secs(2) small refl])
  have new: "d \<notin> fst ` set ws" using Cons.prems(3) w by simp
  have "\<forall>(c, secs) \<in> set ws. secs = dim_width c \<and> redis_used rb1 us c + amount \<le> exact_bound"
  proof (clarify, intro conjI)
    fix c cs assume c: "(c, cs) \<in> set ws"
    with new have "c \<noteq> d" by force
    with used_other [OF Cons.prems(2) 1(2,3), of c us] Cons.prems(5) c
    show "cs = dim_width c" "redis_used rb1 us c + amount \<le> exact_bound" by auto
  qed
  with Cons.IH [OF Cons.prems(1) 1(2)] Cons.prems(3,4) obtain rb' where
    2: "add_windows lua us grace amount ws rb1 = (rb', True)" "counters_bumped us (fst ` set ws) amount rb1 rb'" by auto
  have "add_windows lua us grace amount (w # ws) rb = (rb', True)" using 1(1) 2(1) w secs(1) arg by simp
  moreover have "counters_bumped us (insert d (fst ` set ws)) amount rb rb'"
    by (rule counters_bumped_step [OF Cons.prems(2) 1(2-6) new 2(2)])
  ultimately show ?case using w by simp
qed

section \<open>Verdicts\<close>

definition refusal_reply :: "int \<Rightarrow> nat \<Rightarrow> dim list \<Rightarrow> int list \<Rightarrow> limit_detail \<Rightarrow> bool" where
  "refusal_reply code i dims reply x \<longleftrightarrow>
     (\<exists>j lim cur retry. j < length dims \<and> reply = [code, int retry, int (i + j), int lim, int cur] \<and>
        x = detail_window (dim_name (dims ! j)) lim cur retry)"

lemma refusal_reply_Cons: "refusal_reply code (i + 1) dims reply x \<Longrightarrow> refusal_reply code i (d # dims) reply x"
  unfolding refusal_reply_def
proof (elim exE conjE)
  fix j lim cur retry assume "j < length dims" "reply = [code, int retry, int (i + 1 + j), int lim, int cur]"
    "x = detail_window (dim_name (dims ! j)) lim cur retry"
  then show "\<exists>j lim cur retry. j < length (d # dims) \<and> reply = [code, int retry, int (i + j), int lim, int cur] \<and>
      x = detail_window (dim_name ((d # dims) ! j)) lim cur retry"
    by (intro exI [of _ "Suc j"] exI [of _ lim] exI [of _ cur] exI [of _ retry]) simp
qed

lemma refusal_reply_here:
  "refusal_reply code i (d # dims) [code, int retry, int i, int lim, int cur] (detail_window (dim_name d) lim cur retry)"
  unfolding refusal_reply_def
  by (intro exI [of _ 0] exI [of _ lim] exI [of _ cur] exI [of _ retry]) simp

lemma refused_detail_reply:
  assumes "refusal_reply code 1 dims reply x"
  shows "reply_at reply 0 = code \<and> refused_detail reply dims = x"
proof -
  from assms obtain j lim cur retry where "j < length dims" "reply = [code, int retry, int (1 + j), int lim, int cur]"
    "x = detail_window (dim_name (dims ! j)) lim cur retry" unfolding refusal_reply_def by blast
  then show ?thesis by (simp add: refused_detail_def reply_at_def eval_nat_numeral Let_def nat_add_distrib)
qed

lemma script_retry_mod: "secs > 0 \<Longrightarrow> script_retry now secs = secs - now mod secs"
proof -
  assume "secs > 0"
  then have "now mod secs < secs" by simp
  then show ?thesis by (simp add: script_retry_def bucket_of_eq_sub_mod)
qed

lemma token_refusal_first:
  assumes "lua_double lua" and "\<forall>d \<in> set ds. dim_secs d = dim_width (dim_name d) \<and> redis_used rb us (dim_name d) < exact_bound"
  shows "case token_refusal lua rb us i ds of
           None \<Rightarrow> first_refusal (redis_used rb us) (secs_of us) ds = None
         | Some reply \<Rightarrow> \<exists>x. first_refusal (redis_used rb us) (secs_of us) ds = Some x \<and> refusal_reply CODE_TOKENS i ds reply x"
  using assms(2)
proof (induction ds arbitrary: i)
  case (Cons d ds)
  let ?u = "redis_used rb us (dim_name d)"
  from Cons.prems have w: "dim_secs d = dim_width (dim_name d)" and small: "?u < exact_bound" by simp_all
  have cur: "get_counter rb us (dim_name d, bucket_of (dim_secs d) (secs_of us)) = ?u" by (simp add: redis_used_def w)
  have u: "lua ?u = ?u" using small by (intro lua_exact [OF assms(1)]) simp
  have le: "lua (dim_limit d) \<le> ?u \<longleftrightarrow> dim_limit d \<le> ?u" by (rule lua_le_small [OF assms(1) small])
  have retry: "script_retry (secs_of us) (dim_secs d) = dim_secs d - secs_of us mod dim_secs d"
    by (rule script_retry_mod) (simp add: w)
  show ?case
  proof (cases "dim_limit d \<le> ?u")
    case True
    then have "lua (dim_limit d) = dim_limit d" using small by (intro lua_exact [OF assms(1)]) simp
    with True le show ?thesis unfolding token_refusal.simps Let_def cur u by (simp add: retry refusal_reply_here)
  next
    case False
    with Cons.IH [of "i + 1"] Cons.prems le show ?thesis
      unfolding token_refusal.simps Let_def cur u
      by (auto split: option.splits intro: refusal_reply_Cons simp del: One_nat_def add_Suc_right)
  qed
qed simp

lemma request_refusal_first:
  assumes "lua_double lua" and "\<forall>d \<in> set ds. dim_secs d = dim_width (dim_name d) \<and> redis_used rb us (dim_name d) < exact_bound"
  shows "case request_refusal lua rb us i ds of
           None \<Rightarrow> first_refusal (redis_used rb us) (secs_of us) ds = None
         | Some reply \<Rightarrow> \<exists>x. first_refusal (redis_used rb us) (secs_of us) ds = Some x \<and> refusal_reply CODE_REQUESTS i ds reply x"
  using assms(2)
proof (induction ds arbitrary: i)
  case (Cons d ds)
  let ?u = "redis_used rb us (dim_name d)"
  from Cons.prems have w: "dim_secs d = dim_width (dim_name d)" and small: "?u < exact_bound" by simp_all
  have cur: "get_counter rb us (dim_name d, bucket_of (dim_secs d) (secs_of us)) = ?u" by (simp add: redis_used_def w)
  have u: "lua ?u = ?u" "lua (?u + 1) = ?u + 1" using small by (simp_all add: lua_exact [OF assms(1)])
  have le: "lua (dim_limit d) < ?u + 1 \<longleftrightarrow> dim_limit d \<le> ?u"
    using lua_le_small [OF assms(1) small, of "dim_limit d"] by linarith
  have retry: "script_retry (secs_of us) (dim_secs d) = dim_secs d - secs_of us mod dim_secs d"
    by (rule script_retry_mod) (simp add: w)
  show ?case
  proof (cases "dim_limit d \<le> ?u")
    case True
    then have "lua (dim_limit d) = dim_limit d" using small by (intro lua_exact [OF assms(1)]) simp
    with True le show ?thesis unfolding request_refusal.simps Let_def cur u by (simp add: retry refusal_reply_here)
  next
    case False
    with Cons.IH [of "i + 1"] Cons.prems le show ?thesis
      unfolding request_refusal.simps Let_def cur u
      by (auto split: option.splits intro: refusal_reply_Cons simp del: One_nat_def add_Suc_right)
  qed
qed simp

section \<open>Leases\<close>

text \<open>Every member was refreshed in the last \<open>ttl\<close> seconds. Times stay below the scores of the older
  format, \<open>10 ^ 11\<close> seconds.\<close>

definition leases_fresh :: "nat \<Rightarrow> nat \<Rightarrow> redis_bucket \<Rightarrow> bool" where
  "leases_fresh ttl us rb \<longleftrightarrow> (\<forall>m score. rb_conc rb m = Some score \<longrightarrow> us \<le> score + ttl * MICROS)"

definition leases_ok :: "nat \<Rightarrow> nat \<Rightarrow> redis_bucket \<Rightarrow> bool" where
  "leases_ok ttl us rb \<longleftrightarrow>
     (\<forall>m score. rb_conc rb m = Some score \<longrightarrow> score \<le> us \<and> ms_of score + (ttl + 1) * 1000 \<le> rb_conc_expiry rb)"

definition time_bound :: nat where "time_bound = 100000000000000000"

lemma fresh_kept:
  assumes "us \<le> score + ttl * MICROS" and "score \<le> us" and "us < time_bound"
  shows "conc_kept ttl us score"
proof -
  have "int (secs_of us) * int MICROS \<le> int us"
    by (simp add: secs_of_def flip: of_nat_mult)
  moreover have "int us \<le> int score + int ttl * int MICROS" using assms(1) by (simp flip: of_nat_mult of_nat_add)
  ultimately have "(int (secs_of us) - int ttl) * int MICROS \<le> int score" by (simp add: left_diff_distrib)
  moreover have "\<not> 100000000000 * MICROS \<le> score" using assms(2,3) by (simp add: time_bound_def MICROS_def)
  ultimately show ?thesis by (simp add: conc_kept_def Let_def)
qed

lemma fresh_unexpired:
  assumes "us \<le> score + ttl * MICROS" and "ms_of score + (ttl + 1) * 1000 \<le> expiry"
  shows "ms_of us \<le> expiry"
proof -
  have "ms_of us \<le> ms_of (score + ttl * 1000 * 1000)" using assms(1) by (simp add: ms_of_def MICROS_def div_le_mono mult.assoc)
  also have "\<dots> = ms_of score + ttl * 1000" by (simp add: ms_of_def)
  finally show ?thesis using assms(2) by simp
qed

lemma fresh_conc_set:
  assumes "leases_fresh ttl us rb" and "leases_ok ttl us' rb"
  shows "conc_set rb us = rb_conc rb"
proof (cases "rb_conc rb = Map.empty")
  case False
  then obtain m score where m: "rb_conc rb m = Some score" by fastforce
  with assms have "us \<le> score + ttl * MICROS" "ms_of score + (ttl + 1) * 1000 \<le> rb_conc_expiry rb"
    unfolding leases_fresh_def leases_ok_def by blast+
  then have "ms_of us \<le> rb_conc_expiry rb" by (rule fresh_unexpired)
  then show ?thesis by (simp add: conc_set_def)
qed (simp add: conc_set_def)

lemma fresh_prune:
  assumes "leases_fresh ttl us rb" and "leases_ok ttl us rb" and "us < time_bound"
  shows "prune_conc ttl us rb = rb"
proof -
  have "(case rb_conc rb m of Some score \<Rightarrow> if conc_kept ttl us score then Some score else None | None \<Rightarrow> None) = rb_conc rb m" for m
    using assms fresh_kept unfolding leases_fresh_def leases_ok_def by (auto split: option.split)
  then show ?thesis by (simp add: prune_conc_def fresh_conc_set [OF assms(1,2)])
qed

lemma leases_later: "leases_ok ttl us rb \<Longrightarrow> us \<le> us' \<Longrightarrow> leases_ok ttl us' rb"
  unfolding leases_ok_def by (meson le_trans)

lemma leases_zadd:
  assumes "leases_ok ttl us rb" and "conc_set rb us = rb_conc rb"
  shows "leases_ok ttl us (zadd_conc (ttl + 1) us m rb)"
  unfolding leases_ok_def
proof (intro allI impI)
  fix m' score assume "rb_conc (zadd_conc (ttl + 1) us m rb) m' = Some score"
  then have "score \<le> us" using assms unfolding leases_ok_def by (auto simp: zadd_conc_def split: if_splits)
  then show "score \<le> us \<and> ms_of score + (ttl + 1) * 1000 \<le> rb_conc_expiry (zadd_conc (ttl + 1) us m rb)"
    by (simp add: zadd_conc_def ms_of_def div_le_mono)
qed

section \<open>The acquire script decides the specification\<close>

lemma dims_unlimited:
  fixes l :: rate_limit
  shows "token_dims (l\<lparr>concurrency := None\<rparr>) = token_dims l" "request_dims (l\<lparr>concurrency := None\<rparr>) = request_dims l"
  by (simp_all add: token_dims_def request_dims_def)

lemma decode_codes:
  "reply_at reply 0 = CODE_OK \<Longrightarrow> decode_acquire l reply = None"
  "reply_at reply 0 = CODE_TOKENS \<Longrightarrow> decode_acquire l reply = Some (Tokens ScopeTokens (refused_detail reply (token_dims l)))"
  "reply_at reply 0 = CODE_REQUESTS \<Longrightarrow> decode_acquire l reply = Some (Requests ScopeRequests (refused_detail reply (request_dims l)))"
  "reply_at reply 0 = CODE_ALLOWANCE \<Longrightarrow> decode_acquire l reply = Some AllowanceExhausted"
  by (simp_all add: decode_acquire_def codes)

lemma acquire_rest_verdict:
  fixes l :: rate_limit
  assumes lua: "lua_double lua" and ok: "expiry_ok rb"
    and small: "\<forall>d \<in> set (request_names @ token_names). redis_used rb us d < exact_bound" "get_consumed rb < exact_bound"
  defines "v \<equiv> acquire_verdict (redis_used rb us) 0 (get_consumed rb) (secs_of us) (l\<lparr>concurrency := None\<rparr>)"
  shows "\<exists>rb' reply. acquire_rest lua us m c kt grace (request_dims l) (token_dims l) (granted_micro_usd l) rb = (rb', Some reply) \<and>
           decode_acquire l reply = v \<and> (v \<noteq> None \<longrightarrow> rb' = rb) \<and>
           (v = None \<longrightarrow> (\<exists>rb1. counters_bumped us (dim_name ` set (request_dims l)) 1 rb rb1 \<and>
                            rb' = (if c then zadd_conc kt us m rb1 else rb1)))"
proof -
  have names: "dim_name d \<in> set (request_names @ token_names)" if "d \<in> set (request_dims l) \<union> set (token_dims l)" for d
    using that unfolding request_dims_def token_dims_def Un_iff dims_of_mem by (auto simp: request_names_def token_names_def)
  have all: "\<forall>d \<in> set (token_dims l). dim_secs d = dim_width (dim_name d) \<and> redis_used rb us (dim_name d) < exact_bound"
    "\<forall>d \<in> set (request_dims l). dim_secs d = dim_width (dim_name d) \<and> redis_used rb us (dim_name d) < exact_bound"
    using dims_width names small(1) by blast+
  define over where "over \<longleftrightarrow> (\<exists>g. granted_micro_usd l = Some g \<and> g \<le> get_consumed rb)"
  have gate: "(\<exists>g \<in> set_option (granted_micro_usd l). lua (get_consumed rb) \<ge> lua g) \<longleftrightarrow> over"
    using lua_le_small [OF lua small(2)] lua_exact [OF lua, of "get_consumed rb"] small(2) by (auto simp: over_def)
  have v: "v = (if over then Some AllowanceExhausted
      else (case first_refusal (redis_used rb us) (secs_of us) (token_dims l) of
              Some d \<Rightarrow> Some (Tokens ScopeTokens d)
            | None \<Rightarrow> map_option (Requests ScopeRequests) (first_refusal (redis_used rb us) (secs_of us) (request_dims l))))"
    unfolding v_def acquire_verdict_def dims_unlimited over_def by auto
  note tok = token_refusal_first [OF lua all(1), of 1]
  note req = request_refusal_first [OF lua all(2), of 1]
  consider (allowance) over
    | (tokens) reply where "\<not> over" "token_refusal lua rb us 1 (token_dims l) = Some reply"
    | (requests) reply where "\<not> over" "token_refusal lua rb us 1 (token_dims l) = None"
        "request_refusal lua rb us 1 (request_dims l) = Some reply"
    | (admitted) "\<not> over" "token_refusal lua rb us 1 (token_dims l) = None"
        "request_refusal lua rb us 1 (request_dims l) = None" by blast
  then show ?thesis
  proof cases
    case allowance
    then show ?thesis unfolding acquire_rest_def gate v by (simp add: decode_codes(4) reply_at_def)
  next
    case (tokens reply)
    with tok obtain x where x: "first_refusal (redis_used rb us) (secs_of us) (token_dims l) = Some x"
      "refusal_reply CODE_TOKENS 1 (token_dims l) reply x" by auto
    with tokens refused_detail_reply [OF x(2)] show ?thesis unfolding acquire_rest_def gate v
      by (simp add: decode_codes(2))
  next
    case (requests reply)
    with req obtain x where x: "first_refusal (redis_used rb us) (secs_of us) (request_dims l) = Some x"
      "refusal_reply CODE_REQUESTS 1 (request_dims l) reply x" by auto
    with requests tok refused_detail_reply [OF x(2)] show ?thesis unfolding acquire_rest_def gate v
      by (simp add: decode_codes(3))
  next
    case admitted
    have "\<forall>d \<in> set (request_dims l). dim_secs d = dim_width (dim_name d) \<and> redis_used rb us (dim_name d) + 1 \<le> exact_bound"
      using all(2) by (simp add: Suc_le_eq)
    from incr_requests_bumps [OF lua ok dims_distinct(1) this] obtain rb1 where
      "incr_requests lua us grace (request_dims l) rb = (rb1, True)"
      "counters_bumped us (dim_name ` set (request_dims l)) 1 rb rb1" by blast
    moreover have "first_refusal (redis_used rb us) (secs_of us) (token_dims l) = None"
      "first_refusal (redis_used rb us) (secs_of us) (request_dims l) = None"
      using admitted tok req by simp_all
    ultimately show ?thesis using admitted unfolding acquire_rest_def gate v
      by (auto simp: decode_codes(1) reply_at_def)
  qed
qed

text \<open>With the leases alive, the whole script decides the specification, changes nothing on a refusal
  and counts an admitted request once.\<close>

lemma redis_acquire_verdict:
  fixes l :: rate_limit
  assumes lua: "lua_double lua" and ok: "expiry_ok rb"
    and small: "\<forall>d \<in> set (request_names @ token_names). redis_used rb us d < exact_bound" "get_consumed rb < exact_bound"
    and leases: "leases_fresh ttl us rb" "leases_ok ttl us rb" "us < time_bound" and ttl: "ttl < u64_max"
  defines "v \<equiv> acquire_verdict (redis_used rb us) (card (dom (rb_conc rb))) (get_consumed rb) (secs_of us) l"
  shows "\<exists>rb'. redis_acquire lua us ttl grace l m rb = (rb', Some v) \<and> (v \<noteq> None \<longrightarrow> rb' = rb) \<and>
           (v = None \<longrightarrow> (\<exists>rb1. counters_bumped us (dim_name ` set (request_dims l)) 1 rb rb1 \<and>
                            rb' = (if concurrency l \<noteq> None then zadd_conc (ttl + 1) us m rb1 else rb1)))"
proof -
  let ?rest = "\<lambda>c. acquire_rest lua us m c (ttl + 1) grace (request_dims l) (token_dims l) (granted_micro_usd l) rb"
  have kt: "sat_add ttl 1 = ttl + 1" using ttl by (simp add: sat_add_def)
  have v0: "v = (if \<exists>mx. concurrency l = Some mx \<and> mx \<le> card (dom (rb_conc rb))
      then Some (Concurrency (detail_concurrency (the (concurrency l)) (card (dom (rb_conc rb)))))
      else acquire_verdict (redis_used rb us) 0 (get_consumed rb) (secs_of us) (l\<lparr>concurrency := None\<rparr>))"
    unfolding v_def acquire_verdict_def dims_unlimited by auto
  note rest = acquire_rest_verdict [OF lua ok small, of m _ "ttl + 1" grace l]
  show ?thesis
  proof (cases "concurrency l")
    case None
    with v0 rest [of False] show ?thesis
      unfolding redis_acquire_def kt by (auto simp: acquire_script_def)
  next
    case (Some mx)
    have script: "acquire_script lua us m (concurrency l) ttl (ttl + 1) grace (request_dims l) (token_dims l)
        (granted_micro_usd l) rb = (if card (dom (rb_conc rb)) \<ge> mx
          then (rb, Some [CODE_CONCURRENCY, 0, 0, int mx, int (card (dom (rb_conc rb)))]) else ?rest True)"
      by (simp add: acquire_script_def Some fresh_prune [OF leases] fresh_conc_set [OF leases(1,2)])
    show ?thesis
    proof (cases "mx \<le> card (dom (rb_conc rb))")
      case True
      with Some v0 show ?thesis
        unfolding redis_acquire_def kt script by (simp add: decode_acquire_def reply_at_def codes Let_def)
    next
      case False
      with Some v0 rest [of True] show ?thesis
        unfolding redis_acquire_def kt script by auto
    qed
  qed
qed

end
