(* ===== verification/Redis_Twin.thy ===== *)
theory Redis_Twin
  imports Redis_Refines
begin

text \<open>
  A run of operations on one bucket, once against the server and once against the process: the relation
  between the two states, its preservation by every operation and by the passing of time, and the
  equality of the answers.
\<close>

section \<open>The relation\<close>

definition ks_window :: "key_state \<Rightarrow> string \<Rightarrow> window_counter" where
  "ks_window s d =
     (if d = DIM_RPS then ks_rps s else if d = DIM_RPM then ks_rpm s else if d = DIM_RPH then ks_rph s
      else if d = DIM_RPD then ks_rpd s else if d = DIM_TPM then ks_tpm s else if d = DIM_TPH then ks_tph s
      else ks_tpd s)"

abbreviation all_dims :: "string set" where "all_dims \<equiv> set (request_names @ token_names)"

lemma names_cases [consumes 1, case_names rps rpm rph rpd tpm tph tpd]:
  assumes "d \<in> all_dims"
  obtains "d = DIM_RPS" | "d = DIM_RPM" | "d = DIM_RPH" | "d = DIM_RPD" | "d = DIM_TPM" | "d = DIM_TPH" | "d = DIM_TPD"
  using assms by (auto simp: request_names_def token_names_def)

lemma ks_window_simps [simp]:
  "ks_window s DIM_RPS = ks_rps s" "ks_window s DIM_RPM = ks_rpm s" "ks_window s DIM_RPH = ks_rph s"
  "ks_window s DIM_RPD = ks_rpd s" "ks_window s DIM_TPM = ks_tpm s" "ks_window s DIM_TPH = ks_tph s"
  "ks_window s DIM_TPD = ks_tpd s"
  by (simp_all add: ks_window_def dim_names)

lemma window_width: "ks_wf s \<Longrightarrow> d \<in> all_dims \<Longrightarrow> window_secs (ks_window s d) = dim_width d"
  by (erule names_cases) (simp_all add: ks_wf_def)

lemma window_used: "d \<in> all_dims \<Longrightarrow> used (ks_window s d) now = ks_used s now d"
  by (erule names_cases) simp_all

definition windows_track :: "(string \<Rightarrow> nat \<Rightarrow> nat) \<Rightarrow> key_state \<Rightarrow> nat \<Rightarrow> bool" where
  "windows_track m s now \<longleftrightarrow> (\<forall>d \<in> all_dims. tracks (ks_window s d) (m d) now)"

text \<open>\<open>n\<close> bounds the counts, \<open>k\<close> the slots; \<open>limited\<close> says whether the bucket's limits carry a
  concurrency cap, without which the server keeps no slots.\<close>

definition twin :: "nat \<Rightarrow> bool \<Rightarrow> nat \<Rightarrow> nat \<Rightarrow> nat \<Rightarrow> redis_bucket \<Rightarrow> key_state \<Rightarrow> bool" where
  "twin ttl limited n k us rb s \<longleftrightarrow>
     ks_wf s \<and> expiry_ok rb \<and> leases_ok ttl us rb \<and>
     windows_track (kept_count rb) s (secs_of us) \<and> get_consumed rb = consumed_micro_usd s \<and>
     (limited \<longrightarrow> dom (rb_conc rb) = in_flight s) \<and>
     (\<forall>d \<in> all_dims. ks_used s (secs_of us) d \<le> n) \<and> consumed_micro_usd s \<le> n \<and> card (in_flight s) \<le> k"

lemma twin_used:
  assumes "twin ttl limited n k us rb s" and "d \<in> all_dims"
  shows "redis_used rb us d = ks_used s (secs_of us) d"
proof -
  from assms have t: "tracks (ks_window s d) (kept_count rb d) (secs_of us)" and wf: "ks_wf s" and ok: "expiry_ok rb"
    unfolding twin_def windows_track_def by blast+
  from tracks_used [OF t] window_width [OF wf assms(2)] window_used [OF assms(2)] redis_used_kept [OF ok]
  show ?thesis by simp
qed

lemma used_later:
  assumes "tracks w m s" and "s \<le> t"
  shows "used w t \<le> used w s"
proof (cases "bucket_of (window_secs w) t = bucket_of (window_secs w) s")
  case False
  with bucket_of_mono [OF assms(2), of "window_secs w"] assms(1) have "bucket_of (window_secs w) t \<noteq> window_start w"
    unfolding tracks_def by linarith
  then show ?thesis by (simp add: count_roll)
qed (simp add: count_roll)

lemma secs_mono: "us \<le> us' \<Longrightarrow> secs_of us \<le> secs_of us'"
  by (simp add: secs_of_def div_le_mono)

lemma twin_later:
  assumes "twin ttl limited n k us rb s" and "us \<le> us'"
  shows "twin ttl limited n k us' rb s"
proof -
  have track: "\<forall>d \<in> all_dims. tracks (ks_window s d) (kept_count rb d) (secs_of us)" and le: "\<forall>d \<in> all_dims. ks_used s (secs_of us) d \<le> n"
    using assms(1) unfolding twin_def windows_track_def by blast+
  have "windows_track (kept_count rb) s (secs_of us')"
    unfolding windows_track_def using track tracks_later [OF _ secs_mono [OF assms(2)]] by blast
  moreover have "ks_used s (secs_of us') d \<le> n" if "d \<in> all_dims" for d
    using used_later [of "ks_window s d" "kept_count rb d", OF _ secs_mono [OF assms(2)]] track le that window_used [OF that]
    by (metis le_trans)
  ultimately show ?thesis using assms leases_later unfolding twin_def by blast
qed

lemma twin_mono: "twin ttl limited n k us rb s \<Longrightarrow> n \<le> n' \<Longrightarrow> k \<le> k' \<Longrightarrow> twin ttl limited n' k' us rb s"
  unfolding twin_def by (meson le_trans)

lemma twin_start: "twin ttl limited 0 0 us redis_bucket_new (key_state_new now)"
proof -
  have "tracks (ks_window (key_state_new now) d) (kept_count redis_bucket_new d) t" if "d \<in> all_dims" for d t
  proof -
    have "kept_count redis_bucket_new d = (\<lambda>_. 0)" by (simp add: kept_count_def redis_bucket_new_def fun_eq_iff)
    with that show ?thesis by (cases rule: names_cases) (simp_all add: key_state_new_def tracks_fresh)
  qed
  then show ?thesis
    by (simp add: twin_def windows_track_def expiry_ok_def leases_ok_def get_consumed_def redis_bucket_new_def)
      (simp add: key_state_new_def)
qed

section \<open>Local windows\<close>

lemma rolled_windows: "rolled s s' now \<Longrightarrow> d \<in> all_dims \<Longrightarrow> rolled_window (ks_window s d) (ks_window s' d) now"
  by (erule names_cases) (simp_all add: rolled_def)

lemma tracks_rolled: "tracks w m now \<Longrightarrow> rolled_window w w' now \<Longrightarrow> tracks w' m now"
  by (auto simp: rolled_window_def tracks_roll)

lemma windows_track_rolled:
  "windows_track m s now \<Longrightarrow> rolled s s' now \<Longrightarrow> windows_track m s' now"
  unfolding windows_track_def using rolled_windows tracks_rolled by blast

lemma admitted_windows:
  assumes "key_acquire s now l mb = (s', Inr ())" and "d \<in> all_dims"
  shows "\<exists>w. rolled_window (ks_window s d) w now \<and>
           ks_window s' d = (if d \<in> dim_name ` set (request_dims l) then bumped w now (Some 0) else w)"
proof -
  from assms obtain s1 s2 s3 where st: "acquire_allowance s l = (s1, None)"
      "acquire_tokens s1 now l = (s2, None)" "acquire_requests s2 now l = (s3, None)"
    and s': "s' = s3\<lparr>in_flight := insert mb (in_flight s3), last_touched := now\<rparr>"
    by (cases rule: key_acquire_cases [of s l now mb]) auto
  have r: "rolled s s2 now"
    using rolled_trans [OF allowance_rolled [OF st(1), THEN conjunct1] acquire_tokens_rolled [of s1 now l]] st(2) by simp
  have bump: "ks_rps s3 = bumped (ks_rps s2) now (rps l)" "ks_rpm s3 = bumped (ks_rpm s2) now (rpm l)"
      "ks_rph s3 = bumped (ks_rph s2) now (rph l)" "ks_rpd s3 = bumped (ks_rpd s2) now (rpd l)"
    using acquire_requests_admitted [of s2 now l] st(3) by simp_all
  note frame = acquire_requests_frame [of s2 now l, unfolded st(3) fst_conv]
  have opt: "bumped w now x = (if x = None then w else bumped w now (Some 0))" for w x
    by (cases x) (simp_all add: bumped_def)
  have mem: "DIM_RPS \<in> dim_name ` set (request_dims l) \<longleftrightarrow> rps l \<noteq> None"
    "DIM_RPM \<in> dim_name ` set (request_dims l) \<longleftrightarrow> rpm l \<noteq> None"
    "DIM_RPH \<in> dim_name ` set (request_dims l) \<longleftrightarrow> rph l \<noteq> None"
    "DIM_RPD \<in> dim_name ` set (request_dims l) \<longleftrightarrow> rpd l \<noteq> None"
    "DIM_TPM \<notin> dim_name ` set (request_dims l)" "DIM_TPH \<notin> dim_name ` set (request_dims l)"
    "DIM_TPD \<notin> dim_name ` set (request_dims l)"
    by (simp_all add: request_dims_def dims_of_step dim_names split: option.split)
  show ?thesis
    by (rule exI [of _ "ks_window s2 d"], rule conjI [OF rolled_windows [OF r assms(2)]])
      (use assms(2) in \<open>cases rule: names_cases; simp add: s' mem bump frame opt [of _ "_ l"]\<close>)
qed

section \<open>Acquire\<close>

lemma acquire_verdict_cong:
  assumes "\<forall>d \<in> set (token_dims l) \<union> set (request_dims l). f (dim_name d) = g (dim_name d)"
    and "concurrency l \<noteq> None \<longrightarrow> i = j"
  shows "acquire_verdict f i c now l = acquire_verdict g j c now l"
proof -
  have cong: "first_refusal f now ds = first_refusal g now ds" if "\<forall>d \<in> set ds. f (dim_name d) = g (dim_name d)" for ds
    using that by (induction ds) auto
  have eq: "first_refusal f now (token_dims l) = first_refusal g now (token_dims l)"
    "first_refusal f now (request_dims l) = first_refusal g now (request_dims l)"
    using assms(1) by (auto intro: cong)
  show ?thesis using assms(2) unfolding acquire_verdict_def eq by auto
qed

lemma limit_dims: "d \<in> set (request_dims l) \<union> set (token_dims l) \<Longrightarrow> dim_name d \<in> all_dims"
  unfolding request_dims_def token_dims_def Un_iff dims_of_mem by (auto simp: request_names_def token_names_def)

lemma below_max:
  assumes "twin ttl limited n k us rb s" and "n < exact_bound"
  shows "requests_below_max s (secs_of us)"
proof -
  have u: "ks_used s (secs_of us) d < u64_max" if "d \<in> all_dims" for d
    using assms that unfolding twin_def exact_bound_def u64_max_def by fastforce
  then show ?thesis using u [of DIM_RPS] u [of DIM_RPM] u [of DIM_RPH] u [of DIM_RPD]
    by (simp add: requests_below_max_def request_names_def)
qed

lemma track_bumped:
  assumes "tracks w m now" and "rolled_window w w' now" and "window_secs w = dim_width d" and "used w now < u64_max"
  shows "tracks (bumped w' now (Some 0)) (m(bucket_of (dim_width d) now := m (bucket_of (dim_width d) now) + 1)) now"
proof -
  note t = tracks_rolled [OF assms(1,2)]
  have secs: "window_secs w' = dim_width d" using assms(2,3) by (simp add: rolled_window_secs)
  have "sat_add (used w' now) 1 = m (bucket_of (dim_width d) now) + 1"
    using assms(4) rolled_window_used [OF assms(2)] tracks_used [OF assms(1)] assms(3) by (simp add: sat_add_def)
  with tracks_upd [OF t, of "sat_add (used w' now) 1"] secs show ?thesis by (simp add: bumped_def)
qed

lemma used_bumped_le:
  assumes "rolled_window w w' now"
  shows "used (bumped w' now (Some 0)) now \<le> used w now + 1"
  using assms by (simp add: used_bumped rolled_window_used sat_add_def)

lemma twin_acquire:
  assumes lua: "lua_double lua" and tw: "twin ttl limited n k us rb s"
    and cap: "concurrency l \<noteq> None \<longleftrightarrow> limited" and fresh: "leases_fresh ttl us rb"
    and bounds: "us < time_bound" "ttl < u64_max" "n < exact_bound" "k < u32_modulus"
    and loc: "key_acquire s (secs_of us) l m = (s', res)"
  shows "\<exists>rb' v. redis_acquire lua us ttl grace l m rb = (rb', Some v) \<and>
           res = (case v of Some e \<Rightarrow> Inl e | None \<Rightarrow> Inr ()) \<and> twin ttl limited (n + 1) (k + 1) us rb' s'"
proof -
  let ?now = "secs_of us"
  have wf: "ks_wf s" and ok: "expiry_ok rb" and leases: "leases_ok ttl us rb"
    and track: "windows_track (kept_count rb) s ?now" and cons: "get_consumed rb = consumed_micro_usd s"
    and slots: "limited \<longrightarrow> dom (rb_conc rb) = in_flight s"
    and le: "\<forall>d \<in> all_dims. ks_used s ?now d \<le> n" "consumed_micro_usd s \<le> n" "card (in_flight s) \<le> k"
    using tw unfolding twin_def by blast+
  have small: "\<forall>d \<in> all_dims. redis_used rb us d < exact_bound" "get_consumed rb < exact_bound"
    using twin_used [OF tw] le bounds(3) cons by (auto intro: le_less_trans)
  define v where "v = acquire_verdict (redis_used rb us) (card (dom (rb_conc rb))) (get_consumed rb) ?now l"
  have v_local: "v = acquire_verdict (ks_used s ?now) (card (in_flight s)) (consumed_micro_usd s) ?now l"
    unfolding v_def cons using slots cap twin_used [OF tw] limit_dims
    by (intro acquire_verdict_cong) auto
  have below: "requests_below_max s ?now" by (rule below_max [OF tw bounds(3)])
  have "card (in_flight s) < u32_modulus" using le(3) bounds(4) by simp
  from key_acquire_verdict [OF wf below this, of l m] loc
  have res: "res = (case v of Some e \<Rightarrow> Inl e | None \<Rightarrow> Inr ())" by (simp add: v_local)
  obtain rb' where
    r: "redis_acquire lua us ttl grace l m rb = (rb', Some v)" "v \<noteq> None \<longrightarrow> rb' = rb"
    "v = None \<longrightarrow> (\<exists>rb1. counters_bumped us (dim_name ` set (request_dims l)) 1 rb rb1 \<and>
        rb' = (if concurrency l \<noteq> None then zadd_conc (ttl + 1) us m rb1 else rb1))"
    using redis_acquire_verdict [OF lua ok small fresh leases bounds(1,2), of grace l m, folded v_def]
    by (elim exE conjE) (rule that)
  have wf': "ks_wf s'" using ks_wf_key_acquire [OF wf, of ?now l m] loc by simp
  have "twin ttl limited (n + 1) (k + 1) us rb' s'"
  proof (cases v)
    case (Some e)
    with res loc have "key_acquire s ?now l m = (s', Inl e)" by simp
    from key_acquire_refused [OF this below] have rolled: "rolled s s' ?now" .
    have same: "consumed_micro_usd s' = consumed_micro_usd s" "in_flight s' = in_flight s"
      using rolled unfolding rolled_def by blast+
    have "twin ttl limited n k us rb s'"
      unfolding twin_def same rolled_used [OF rolled]
      using wf' ok leases windows_track_rolled [OF track rolled] cons slots le by blast
    from twin_mono [OF this, of "n + 1" "k + 1"] have "twin ttl limited (n + 1) (k + 1) us rb s'" by simp
    moreover have "rb' = rb" using Some r(2) by blast
    ultimately show ?thesis by (simp only:)
  next
    case None
    with res loc have adm: "key_acquire s ?now l m = (s', Inr ())" by simp
    note a = key_acquire_admitted [OF adm]
    from None r(3) obtain rb1 where b: "counters_bumped us (dim_name ` set (request_dims l)) 1 rb rb1"
      and rb': "rb' = (if concurrency l \<noteq> None then zadd_conc (ttl + 1) us m rb1 else rb1)" by blast
    have rb1: "expiry_ok rb1" "kept_count rb1 = bump_all (dim_name ` set (request_dims l)) ?now 1 (kept_count rb)"
      "rb_consumed rb1 = rb_consumed rb" "rb_conc rb1 = rb_conc rb" "rb_conc_expiry rb1 = rb_conc_expiry rb"
      using b unfolding counters_bumped_def by blast+
    have "conc_set rb1 us = conc_set rb us" by (simp add: conc_set_def rb1(4,5))
    then have leases1: "leases_ok ttl us rb1" "conc_set rb1 us = rb_conc rb1"
      using leases fresh_conc_set [OF fresh leases] rb1(4) unfolding leases_ok_def rb1(4,5) by (blast, simp)
    have counts: "expiry_ok rb'" "kept_count rb' = kept_count rb1" "get_consumed rb' = get_consumed rb"
      using rb1(1,3) by (auto simp: rb' expiry_ok_def kept_count_def fun_eq_iff get_consumed_def zadd_conc_def)
    have "tracks (ks_window s' d) (kept_count rb' d) ?now \<and> ks_used s' ?now d \<le> n + 1" if d: "d \<in> all_dims" for d
    proof -
      from admitted_windows [OF adm d] obtain w where w: "rolled_window (ks_window s d) w ?now"
        "ks_window s' d = (if d \<in> dim_name ` set (request_dims l) then bumped w ?now (Some 0) else w)" by blast
      have t: "tracks (ks_window s d) (kept_count rb d) ?now" using track d unfolding windows_track_def by blast
      have u: "used (ks_window s d) ?now \<le> n" using le(1) d window_used [OF d] by simp
      then have u64: "used (ks_window s d) ?now < u64_max" using bounds(3) by (simp add: exact_bound_def u64_max_def)
      have kc: "kept_count rb' d = (if d \<in> dim_name ` set (request_dims l)
          then (kept_count rb d)(bucket_of (dim_width d) ?now := kept_count rb d (bucket_of (dim_width d) ?now) + 1)
          else kept_count rb d)" unfolding counts(2) rb1(2) bump_all_def by simp
      have "tracks (ks_window s' d) (kept_count rb' d) ?now"
        unfolding kc w(2) using track_bumped [OF t w(1) window_width [OF wf d] u64] tracks_rolled [OF t w(1)] by simp
      moreover have "used (ks_window s' d) ?now \<le> n + 1"
        unfolding w(2) using used_bumped_le [OF w(1)] rolled_window_used [OF w(1)] u by auto
      ultimately show ?thesis using window_used [OF d] by simp
    qed
    then have "windows_track (kept_count rb') s' ?now" "\<forall>d \<in> all_dims. ks_used s' ?now d \<le> n + 1"
      unfolding windows_track_def by blast+
    moreover have "leases_ok ttl us rb'" using leases1 leases_zadd unfolding rb' by simp
    moreover have "limited \<longrightarrow> dom (rb_conc rb') = in_flight s'"
      using cap slots a(8) leases1(2) rb1(4) by (auto simp: rb' zadd_conc_def)
    moreover have "card (in_flight s') \<le> k + 1"
      using le(3) card_insert_le_m1 [of "k + 1" "in_flight s" m] unfolding a(8) by simp
    moreover have "get_consumed rb' = consumed_micro_usd s'" "consumed_micro_usd s' \<le> n + 1"
      using counts(3) cons a(9) le(2) by simp_all
    ultimately show ?thesis unfolding twin_def using wf' counts(1) by blast
  qed
  with r(1) res show ?thesis by blast
qed

section \<open>Accounting and slots\<close>

lemma twin_touched: "twin ttl limited n k us rb s \<Longrightarrow> twin ttl limited n k us rb (s\<lparr>last_touched := t\<rparr>)"
proof -
  have "ks_window (s\<lparr>last_touched := t\<rparr>) = ks_window s" "ks_used (s\<lparr>last_touched := t\<rparr>) = ks_used s"
    by (simp_all add: ks_window_def ks_used_def fun_eq_iff)
  then show "twin ttl limited n k us rb s \<Longrightarrow> twin ttl limited n k us rb (s\<lparr>last_touched := t\<rparr>)"
    by (simp add: twin_def windows_track_def ks_wf_def)
qed

lemma twin_zrem:
  assumes "twin ttl limited n k us rb s"
  shows "twin ttl limited n k us (zrem_conc m rb) (s\<lparr>in_flight := in_flight s - {m}, last_touched := t\<rparr>)"
proof -
  let ?s = "s\<lparr>in_flight := in_flight s - {m}, last_touched := t\<rparr>"
  have same: "ks_window ?s = ks_window s" "ks_used ?s = ks_used s" "kept_count (zrem_conc m rb) = kept_count rb"
    "get_consumed (zrem_conc m rb) = get_consumed rb" "consumed_micro_usd ?s = consumed_micro_usd s"
    by (simp_all add: ks_window_def ks_used_def fun_eq_iff kept_count_def zrem_conc_def get_consumed_def)
  have "expiry_ok (zrem_conc m rb)" using assms unfolding twin_def expiry_ok_def zrem_conc_def by simp
  moreover have "leases_ok ttl us (zrem_conc m rb)"
    using assms unfolding twin_def leases_ok_def by (simp add: zrem_conc_def)
  moreover have "limited \<longrightarrow> dom (rb_conc (zrem_conc m rb)) = in_flight ?s"
    using assms unfolding twin_def by (auto simp: zrem_conc_def)
  moreover have "card (in_flight ?s) \<le> k" using assms unfolding twin_def by (auto intro: le_trans [OF card_Diff1_le])
  moreover have "ks_wf ?s" using assms unfolding twin_def by (simp add: ks_wf_def)
  ultimately show ?thesis using assms unfolding twin_def windows_track_def same by blast
qed

lemma twin_refresh:
  assumes "twin ttl limited n k us rb s" and "leases_fresh ttl us rb"
  shows "twin ttl limited n k us (fst (refresh_script us m (ttl + 1) rb)) s"
proof (cases "conc_set rb us m = None")
  case False
  have leases: "leases_ok ttl us rb" using assms(1) unfolding twin_def by blast
  note cs = fresh_conc_set [OF assms(2) leases]
  let ?rb = "zadd_conc (ttl + 1) us m rb"
  have same: "kept_count ?rb = kept_count rb" "get_consumed ?rb = get_consumed rb"
    by (simp_all add: zadd_conc_def kept_count_def get_consumed_def fun_eq_iff)
  have "dom (rb_conc ?rb) = dom (rb_conc rb)" using False cs by (auto simp: zadd_conc_def)
  moreover have "expiry_ok ?rb" using assms(1) unfolding twin_def expiry_ok_def zadd_conc_def by simp
  ultimately have "twin ttl limited n k us ?rb s"
    using assms(1) leases_zadd [OF leases cs, of m] unfolding twin_def windows_track_def same by simp
  moreover have "fst (refresh_script us m (ttl + 1) rb) = ?rb" using False by (auto simp: refresh_script_def)
  ultimately show ?thesis by (simp only:)
qed (use assms in \<open>simp add: refresh_script_def\<close>)

lemma charge_windows:
  "d \<in> all_dims \<Longrightarrow>
     ks_window (charge s now n) d = (if d \<in> set token_names then window_add (ks_window s d) now n else ks_window s d)"
  by (erule names_cases) (simp_all add: charge_def token_names_def ks_window_def dim_names)

lemma twin_account:
  assumes lua: "lua_double lua" and tw: "twin ttl limited n k us rb s" and small: "n + tokens < exact_bound"
  shows "\<exists>rb'. account lua us grace tokens rb = (rb', True) \<and> twin ttl limited (n + tokens) k us rb' (charge s (secs_of us) tokens)"
proof -
  let ?now = "secs_of us"
  let ?s = "charge s ?now tokens"
  have wf: "ks_wf s" and ok: "expiry_ok rb" and leases: "leases_ok ttl us rb"
    and track: "windows_track (kept_count rb) s ?now" and cons: "get_consumed rb = consumed_micro_usd s"
    and slots: "limited \<longrightarrow> dom (rb_conc rb) = in_flight s"
    and le: "\<forall>d \<in> all_dims. ks_used s ?now d \<le> n" "consumed_micro_usd s \<le> n" "card (in_flight s) \<le> k"
    using tw unfolding twin_def by blast+
  have lt: "lua tokens = tokens" using small by (intro lua_exact [OF lua]) simp
  have charged: "consumed_micro_usd ?s = consumed_micro_usd s + tokens"
    using le(2) small by (simp add: sat_add_def exact_bound_def u64_max_def)
  define m where "m d = (if d \<in> set token_names
      then (kept_count rb d)(bucket_of (dim_width d) ?now := kept_count rb d (bucket_of (dim_width d) ?now) + tokens)
      else kept_count rb d)" for d
  have local: "tracks (ks_window ?s d) (m d) ?now \<and> ks_used ?s ?now d \<le> n + tokens" if d: "d \<in> all_dims" for d
  proof -
    have t: "tracks (ks_window s d) (kept_count rb d) ?now" using track d unfolding windows_track_def by blast
    have u: "used (ks_window s d) ?now \<le> n" using le(1) d window_used [OF d] by simp
    have kept: "kept_count rb d (bucket_of (dim_width d) ?now) = used (ks_window s d) ?now"
      using tracks_used [OF t] window_width [OF wf d] by simp
    have sat: "sat_add (used (ks_window s d) ?now) tokens = used (ks_window s d) ?now + tokens"
      using u small by (simp add: sat_add_def exact_bound_def u64_max_def)
    have "tracks (ks_window ?s d) (m d) ?now"
      using tracks_window_add [OF t, of tokens] t window_width [OF wf d] kept sat
      unfolding charge_windows [OF d] m_def by simp
    moreover have "used (ks_window ?s d) ?now \<le> n + tokens"
      unfolding charge_windows [OF d] using u sat by (simp add: used_window_add)
    ultimately show ?thesis using window_used [OF d] by simp
  qed
  have twin: "twin ttl limited (n + tokens) k us rb' ?s"
    if "expiry_ok rb'" "kept_count rb' = m" "get_consumed rb' = get_consumed rb + tokens" "rb_conc rb' = rb_conc rb"
      "rb_conc_expiry rb' = rb_conc_expiry rb" for rb'
  proof -
    have "leases_ok ttl us rb'" using leases that(4,5) unfolding leases_ok_def by simp
    moreover have "windows_track (kept_count rb') ?s ?now" "\<forall>d \<in> all_dims. ks_used ?s ?now d \<le> n + tokens"
      using local unfolding windows_track_def that(2) by blast+
    moreover have "get_consumed rb' = consumed_micro_usd ?s" "consumed_micro_usd ?s \<le> n + tokens"
      using that(3) cons charged le(2) by simp_all
    moreover have "limited \<longrightarrow> dom (rb_conc rb') = in_flight ?s" "card (in_flight ?s) \<le> k"
      using slots le(3) that(4) by simp_all
    ultimately show ?thesis unfolding twin_def using that(1) ks_wf_charge [OF wf] by blast
  qed
  show ?thesis
  proof (cases "tokens = 0")
    case True
    then have "m = kept_count rb" by (simp add: m_def fun_eq_iff)
    moreover have "account lua us grace tokens rb = (rb, True)" unfolding account_def lt using True by simp
    ultimately show ?thesis using twin [OF ok] True by auto
  next
    case False
    have wins: "\<forall>(d, secs) \<in> set token_windows. secs = dim_width d \<and> redis_used rb us d + tokens \<le> exact_bound"
      "distinct (map fst token_windows)" "fst ` set token_windows = set token_names"
    proof -
      have "redis_used rb us d + tokens \<le> exact_bound" if "d \<in> all_dims" for d
        using twin_used [OF tw that] le(1) that small by fastforce
      then have "redis_used rb us DIM_TPM + tokens \<le> exact_bound" "redis_used rb us DIM_TPH + tokens \<le> exact_bound"
        "redis_used rb us DIM_TPD + tokens \<le> exact_bound" by (simp_all add: token_names_def)
      then show "\<forall>(d, secs) \<in> set token_windows. secs = dim_width d \<and> redis_used rb us d + tokens \<le> exact_bound"
        by (simp add: token_windows_def window_widths)
      show "distinct (map fst token_windows)" "fst ` set token_windows = set token_names"
        by (simp_all add: token_windows_def token_names_def dim_names)
    qed
    have "tokens < exact_bound" using small by simp
    from add_windows_bumps [OF lua ok wins(2) this wins(1)] obtain rb1 where
      1: "add_windows lua us grace tokens token_windows rb = (rb1, True)" "counters_bumped us (set token_names) tokens rb rb1"
      unfolding wins(3) by blast
    have b: "expiry_ok rb1" "kept_count rb1 = m" "rb_consumed rb1 = rb_consumed rb" "rb_conc rb1 = rb_conc rb"
      "rb_conc_expiry rb1 = rb_conc_expiry rb"
      using 1(2) unfolding counters_bumped_def by (simp_all add: m_def bump_all_def fun_eq_iff)
    have gc: "get_consumed rb1 = get_consumed rb" by (simp add: get_consumed_def b(3))
    let ?rb = "rb1\<lparr>rb_consumed := Some (get_consumed rb + tokens)\<rparr>"
    have "\<not> (tokens \<ge> 10 ^ 17 \<or> int (get_consumed rb + tokens) > i64_max)"
      using small le(2) cons by (simp add: exact_bound_def i64_max_def)
    then have "account lua us grace tokens rb = (?rb, True)"
      unfolding account_def lt using False 1(1) by (simp add: add_consumed_def gc)
    moreover have "twin ttl limited (n + tokens) k us ?rb ?s"
      by (rule twin) (use b in \<open>auto simp: expiry_ok_def kept_count_def fun_eq_iff get_consumed_def\<close>)
    ultimately show ?thesis by blast
  qed
qed

section \<open>Runs\<close>

text \<open>The operations of the store on one bucket; the answer of an acquire is its verdict.\<close>

datatype bucket_op =
    BAcquire rate_limit string
  | BCommit nat string
  | BAddTokens nat
  | BRelease string
  | BRefresh string

datatype bucket_answer = Verdict "rate_limit_error option" | Done

fun redis_step ::
    "(nat \<Rightarrow> nat) \<Rightarrow> nat \<Rightarrow> nat \<Rightarrow> nat \<Rightarrow> bucket_op \<Rightarrow> redis_bucket \<Rightarrow> redis_bucket \<times> bucket_answer option" where
  "redis_step lua ttl grace us (BAcquire l m) rb =
     (let (rb', v) = redis_acquire lua us ttl grace l m rb in (rb', map_option Verdict v))"
| "redis_step lua ttl grace us (BCommit tokens m) rb =
     (let (rb', r) = commit_script lua us m tokens grace rb in (rb', map_option (\<lambda>_. Done) r))"
| "redis_step lua ttl grace us (BAddTokens tokens) rb =
     (let (rb', r) = add_tokens_script lua us tokens grace rb in (rb', map_option (\<lambda>_. Done) r))"
| "redis_step lua ttl grace us (BRelease m) rb = (zrem_conc m rb, Some Done)"
| "redis_step lua ttl grace us (BRefresh m) rb = (fst (refresh_script us m (sat_add ttl 1) rb), Some Done)"

fun local_op :: "string \<Rightarrow> bucket_op \<Rightarrow> store_op option" where
  "local_op key (BAcquire l m) = Some (Acquire key l m)"
| "local_op key (BCommit tokens m) = Some (Commit key tokens m)"
| "local_op key (BAddTokens tokens) = Some (AddTokens key tokens)"
| "local_op key (BRelease m) = Some (Release key m)"
| "local_op key (BRefresh m) = None"

definition local_bucket_step :: "string \<Rightarrow> nat \<Rightarrow> bucket_op \<Rightarrow> local_store \<Rightarrow> local_store \<times> bucket_answer" where
  "local_bucket_step key now op st =
     (case local_op key op of Some o' \<Rightarrow> store_step st now o' | None \<Rightarrow> st,
      case op of
        BAcquire l m \<Rightarrow> Verdict (case snd (acquire st now key l m) of Inl e \<Rightarrow> Some e | Inr _ \<Rightarrow> None)
      | _ \<Rightarrow> Done)"

fun redis_run ::
    "(nat \<Rightarrow> nat) \<Rightarrow> nat \<Rightarrow> nat \<Rightarrow> (nat \<times> bucket_op) list \<Rightarrow> redis_bucket \<Rightarrow> bucket_answer option list" where
  "redis_run lua ttl grace [] rb = []"
| "redis_run lua ttl grace ((us, op) # ops) rb =
     (let (rb', a) = redis_step lua ttl grace us op rb in a # redis_run lua ttl grace ops rb')"

fun local_run :: "string \<Rightarrow> (nat \<times> bucket_op) list \<Rightarrow> local_store \<Rightarrow> bucket_answer list" where
  "local_run key [] st = []"
| "local_run key ((us, op) # ops) st =
     (let (st', a) = local_bucket_step key (secs_of us) op st in a # local_run key ops st')"

text \<open>At every step of the server's run the leases of the members have been kept.\<close>

fun leases_kept :: "(nat \<Rightarrow> nat) \<Rightarrow> nat \<Rightarrow> nat \<Rightarrow> (nat \<times> bucket_op) list \<Rightarrow> redis_bucket \<Rightarrow> bool" where
  "leases_kept lua ttl grace [] rb = True"
| "leases_kept lua ttl grace ((us, op) # ops) rb =
     (leases_fresh ttl us rb \<and> leases_kept lua ttl grace ops (fst (redis_step lua ttl grace us op rb)))"

fun op_cost :: "bucket_op \<Rightarrow> nat" where
  "op_cost (BCommit tokens m) = tokens"
| "op_cost (BAddTokens tokens) = tokens"
| "op_cost _ = 1"

fun op_uniform :: "bool \<Rightarrow> bucket_op \<Rightarrow> bool" where
  "op_uniform limited (BAcquire l m) \<longleftrightarrow> (concurrency l \<noteq> None) = limited"
| "op_uniform limited _ \<longleftrightarrow> True"

lemma twin_step:
  assumes lua: "lua_double lua" and tw: "twin ttl limited n k us rb (or_new (states st key) (secs_of us))"
    and fresh: "leases_fresh ttl us rb" and uni: "op_uniform limited op"
    and bounds: "us < time_bound" "ttl < u64_max" "n + op_cost op < exact_bound" "k < u32_modulus"
    and loc: "local_bucket_step key (secs_of us) op st = (st', a)"
  shows "\<exists>rb'. redis_step lua ttl grace us op rb = (rb', Some a) \<and>
           twin ttl limited (n + op_cost op) (k + 1) us rb' (or_new (states st' key) (secs_of us))"
proof -
  let ?now = "secs_of us" and ?s = "or_new (states st key) (secs_of us)"
  have n: "n < exact_bound" using bounds(3) by simp
  have kt: "sat_add ttl 1 = ttl + 1" using bounds(2) by (simp add: sat_add_def)
  show ?thesis
  proof (cases op)
    case (BAcquire l m)
    obtain s' res where k: "key_acquire ?s ?now l m = (s', res)" by fastforce
    from twin_acquire [OF lua tw _ fresh bounds(1,2) n bounds(4) k, of grace] uni BAcquire obtain rb' v where
      r: "redis_acquire lua us ttl grace l m rb = (rb', Some v)" "res = (case v of Some e \<Rightarrow> Inl e | None \<Rightarrow> Inr ())"
      "twin ttl limited (n + 1) (k + 1) us rb' s'" by auto
    have "states st' key = Some s'" and "a = Verdict v"
      using loc k r(2) unfolding BAcquire local_bucket_step_def
      by (auto simp: states_step snd_acquire split: option.splits)
    with r BAcquire show ?thesis by simp
  next
    case (BCommit tokens m)
    from twin_account [OF lua tw, of tokens grace] bounds(3) BCommit obtain rb' where
      r: "account lua us grace tokens rb = (rb', True)" "twin ttl limited (n + tokens) k us rb' (charge ?s ?now tokens)" by auto
    have "twin ttl limited (n + tokens) k us (zrem_conc m rb')
        ((charge ?s ?now tokens)\<lparr>in_flight := in_flight ?s - {m}, last_touched := ?now\<rparr>)"
      using twin_zrem [OF r(2), of m ?now] by simp
    moreover have "states st' key = Some ((charge ?s ?now tokens)\<lparr>in_flight := in_flight ?s - {m}, last_touched := ?now\<rparr>)"
      "a = Done" using loc unfolding BCommit local_bucket_step_def by (auto simp: states_step)
    ultimately show ?thesis using r(1) BCommit twin_mono [of ttl limited "n + tokens" k us _ _ "n + tokens" "k + 1"]
      by (simp add: commit_script_def)
  next
    case (BAddTokens tokens)
    from twin_account [OF lua tw, of tokens grace] bounds(3) BAddTokens obtain rb' where
      r: "account lua us grace tokens rb = (rb', True)" "twin ttl limited (n + tokens) k us rb' (charge ?s ?now tokens)" by auto
    show ?thesis
    proof (cases "tokens = 0")
      case True
      have "rb' = rb" using r(1) lua_exact [OF lua, of 0] True by (simp add: account_def)
      moreover have "st' = st" "a = Done" using loc True unfolding BAddTokens local_bucket_step_def
        by (auto simp: add_tokens_def store_step.simps(4))
      ultimately show ?thesis using r(1) BAddTokens True tw twin_mono [OF tw, of n "k + 1"]
        by (simp add: add_tokens_script_def)
    next
      case False
      have "states st' key = Some ((charge ?s ?now tokens)\<lparr>last_touched := ?now\<rparr>)" "a = Done"
        using loc False unfolding BAddTokens local_bucket_step_def by (auto simp: states_step)
      with r BAddTokens twin_mono [OF twin_touched [OF r(2), of ?now], of "n + tokens" "k + 1"] show ?thesis
        by (simp add: add_tokens_script_def)
    qed
  next
    case (BRelease m)
    have tw': "twin ttl limited n k us (zrem_conc m rb) (or_new (states st' key) ?now)"
    proof (cases "states st key")
      case None
      then have "states st' key = None" using loc unfolding BRelease local_bucket_step_def by (auto simp: states_step)
      moreover have "(key_state_new ?now)\<lparr>in_flight := in_flight (key_state_new ?now) - {m}, last_touched := ?now\<rparr> = key_state_new ?now"
        by (simp add: key_state_new_def)
      ultimately show ?thesis using twin_zrem [OF tw, of m ?now] None by simp
    next
      case (Some s)
      then have "states st' key = Some (s\<lparr>in_flight := in_flight s - {m}, last_touched := ?now\<rparr>)"
        using loc unfolding BRelease local_bucket_step_def by (auto simp: states_step)
      with twin_zrem [OF tw, of m ?now] Some show ?thesis by simp
    qed
    have "a = Done" using loc unfolding BRelease local_bucket_step_def by auto
    with tw' twin_mono [OF tw', of "n + 1" "k + 1"] BRelease show ?thesis by simp
  next
    case (BRefresh m)
    have "st' = st" "a = Done" using loc unfolding BRefresh local_bucket_step_def by auto
    with twin_mono [OF twin_refresh [OF tw fresh, of m], of "n + 1" "k + 1"] BRefresh kt show ?thesis by simp
  qed
qed

lemma twin_runs:
  assumes lua: "lua_double lua" and ttl: "ttl < u64_max"
    and "twin ttl limited n k us0 rb (or_new (states st key) t0)"
    and "sorted (us0 # map fst ops)" and "\<forall>(us, op) \<in> set ops. us < time_bound \<and> op_uniform limited op"
    and "leases_kept lua ttl grace ops rb"
    and "n + sum_list (map (op_cost \<circ> snd) ops) < exact_bound" and "k + length ops < u32_modulus"
  shows "redis_run lua ttl grace ops rb = map Some (local_run key ops st)"
  using assms(3-)
proof (induction ops arbitrary: n k us0 rb st t0)
  case (Cons x ops)
  obtain us op where x: "x = (us, op)" by fastforce
  obtain st' a where loc: "local_bucket_step key (secs_of us) op st = (st', a)" by fastforce
  have new: "twin ttl limited n k us0 rb (or_new (states st key) t)" for t
    using Cons.prems(1) twin_touched [of ttl limited n k us0 rb "key_state_new t0" t]
    by (cases "states st key") (simp_all add: key_state_new_def)
  have "us0 \<le> us" using Cons.prems(2) x by simp
  from twin_later [OF new this] have tw: "twin ttl limited n k us rb (or_new (states st key) (secs_of us))" .
  have hyps: "leases_fresh ttl us rb" "op_uniform limited op" "us < time_bound" "n + op_cost op < exact_bound" "k < u32_modulus"
    using Cons.prems(3-6) x by auto
  from twin_step [OF lua tw hyps(1,2,3) ttl hyps(4,5) loc, of grace] obtain rb' where
    s: "redis_step lua ttl grace us op rb = (rb', Some a)"
    "twin ttl limited (n + op_cost op) (k + 1) us rb' (or_new (states st' key) (secs_of us))" by blast
  have "redis_run lua ttl grace ops rb' = map Some (local_run key ops st')"
    by (rule Cons.IH [OF s(2)]) (use Cons.prems(2-6) x s(1) in auto)
  then show ?case using s(1) loc x by simp
qed simp

section \<open>Leases on any run\<close>

lemma incr_requests_conc:
  "rb_conc (fst (incr_requests lua us grace ds rb)) = rb_conc rb \<and>
   rb_conc_expiry (fst (incr_requests lua us grace ds rb)) = rb_conc_expiry rb"
  by (induction ds arbitrary: rb) (auto simp: incr_expire_def Let_def split: option.split if_splits)

lemma add_windows_conc:
  "rb_conc (fst (add_windows lua us grace amount ws rb)) = rb_conc rb \<and>
   rb_conc_expiry (fst (add_windows lua us grace amount ws rb)) = rb_conc_expiry rb"
  by (induction ws arbitrary: rb) (auto simp: incr_expire_def Let_def split: option.split if_splits prod.split)

lemma account_conc:
  "rb_conc (fst (account lua us grace tokens rb)) = rb_conc rb \<and>
   rb_conc_expiry (fst (account lua us grace tokens rb)) = rb_conc_expiry rb"
  using add_windows_conc [of lua us grace "lua tokens" token_windows rb]
  by (auto simp: account_def add_consumed_def split: prod.splits bool.splits)

lemma leases_sub:
  "leases_ok ttl us rb \<Longrightarrow> rb_conc rb' \<subseteq>\<^sub>m rb_conc rb \<Longrightarrow> rb_conc_expiry rb' = rb_conc_expiry rb \<Longrightarrow> leases_ok ttl us rb'"
  unfolding leases_ok_def map_le_def by (metis domI)

lemma leases_same:
  "leases_ok ttl us rb \<Longrightarrow> rb_conc rb' = rb_conc rb \<Longrightarrow> rb_conc_expiry rb' = rb_conc_expiry rb \<Longrightarrow> leases_ok ttl us rb'"
  by (simp add: leases_ok_def)

lemma conc_set_sub: "conc_set rb us \<subseteq>\<^sub>m rb_conc rb"
  by (simp add: conc_set_def)

lemma leases_prune: "leases_ok ttl us rb \<Longrightarrow> leases_ok ttl us (prune_conc conc_ttl us rb)"
  by (erule leases_sub) (auto simp: prune_conc_def map_le_def conc_set_def split: option.splits if_splits)

lemma leases_add:
  assumes "leases_ok ttl us rb"
  shows "leases_ok ttl us (zadd_conc (ttl + 1) us m rb)"
  unfolding leases_ok_def
proof (intro allI impI)
  fix m' score assume "rb_conc (zadd_conc (ttl + 1) us m rb) m' = Some score"
  then have "m' = m \<and> score = us \<or> rb_conc rb m' = Some score"
    by (auto simp: zadd_conc_def conc_set_def split: if_splits)
  then have "score \<le> us" using assms unfolding leases_ok_def by blast
  then show "score \<le> us \<and> ms_of score + (ttl + 1) * 1000 \<le> rb_conc_expiry (zadd_conc (ttl + 1) us m rb)"
    by (simp add: zadd_conc_def ms_of_def div_le_mono)
qed

lemma leases_step:
  assumes "leases_ok ttl us rb" and "ttl < u64_max"
  shows "leases_ok ttl us (fst (redis_step lua ttl grace us op rb))"
proof (cases op)
  case (BAcquire l m)
  have kt: "sat_add ttl 1 = ttl + 1" using assms(2) by (simp add: sat_add_def)
  have rest: "leases_ok ttl us (fst (acquire_rest lua us m c (ttl + 1) grace req tok granted rb1))"
    if "leases_ok ttl us rb1" for c req tok granted rb1
  proof -
    have "leases_ok ttl us (fst (incr_requests lua us grace req rb1))"
      using incr_requests_conc [of lua us grace req rb1] by (intro leases_same [OF that]) simp_all
    then show ?thesis using that leases_add
      by (auto simp: acquire_rest_def split: option.splits prod.splits bool.splits)
  qed
  have "leases_ok ttl us (fst (acquire_script lua us m (concurrency l) ttl (ttl + 1) grace req tok granted rb))" for req tok granted
    using rest [OF assms(1)] rest [OF leases_prune [OF assms(1)]] leases_prune [OF assms(1)]
    by (auto simp: acquire_script_def Let_def split: option.splits)
  then show ?thesis unfolding BAcquire redis_step.simps redis_acquire_def kt by (simp add: Let_def split_beta)
next
  case (BCommit tokens m)
  have a: "leases_ok ttl us (fst (account lua us grace tokens rb))"
    using account_conc [of lua us grace tokens rb] by (intro leases_same [OF assms(1)]) simp_all
  have z: "leases_ok ttl us (zrem_conc m rb1)" if "leases_ok ttl us rb1" for rb1
    by (rule leases_sub [OF that]) (auto simp: zrem_conc_def map_le_def)
  from a z show ?thesis unfolding BCommit
    by (auto simp: commit_script_def Let_def split: prod.splits bool.splits)
next
  case (BAddTokens tokens)
  have "leases_ok ttl us (fst (account lua us grace tokens rb))"
    using account_conc [of lua us grace tokens rb] by (intro leases_same [OF assms(1)]) simp_all
  then show ?thesis unfolding BAddTokens by (auto simp: add_tokens_script_def Let_def split: prod.splits bool.splits)
next
  case (BRelease m)
  show ?thesis unfolding BRelease by (rule leases_sub [OF assms(1)]) (auto simp: zrem_conc_def map_le_def)
next
  case (BRefresh m)
  have kt: "sat_add ttl 1 = ttl + 1" using assms(2) by (simp add: sat_add_def)
  show ?thesis unfolding BRefresh redis_step.simps kt using assms(1) leases_add [OF assms(1)]
    by (simp add: refresh_script_def)
qed

inductive redis_reach :: "(nat \<Rightarrow> nat) \<Rightarrow> nat \<Rightarrow> nat \<Rightarrow> nat \<Rightarrow> redis_bucket \<Rightarrow> bool" for lua ttl grace where
  start: "redis_reach lua ttl grace us redis_bucket_new"
| step: "redis_reach lua ttl grace us rb \<Longrightarrow> us \<le> us' \<Longrightarrow>
     redis_reach lua ttl grace us' (fst (redis_step lua ttl grace us' op rb))"

lemma redis_reach_leases: "redis_reach lua ttl grace us rb \<Longrightarrow> ttl < u64_max \<Longrightarrow> leases_ok ttl us rb"
proof (induction rule: redis_reach.induct)
  case (step us rb us' op)
  from leases_later [OF step.IH [OF step.prems] step.hyps(2)] step.prems show ?case by (rule leases_step)
qed (simp add: leases_ok_def redis_bucket_new_def)

section \<open>Properties\<close>

text \<open>C16. Swapping the in-process store for Redis changes no answer: for every sequence of operations on
  one bucket, at times that do not run backwards, as long as the leases of the held slots are kept and the
  amounts stay where a double is exact, every script succeeds and every acquire is decided, with its
  detail and retry hint, as the in-process store decides it. The acquires must agree on whether the bucket
  has a concurrency cap: without one Redis keeps no slots while the process does.\<close>

theorem redis_refines_local:
  assumes "lua_double lua" and "ttl < u64_max" and "sorted (map fst ops)"
    and "\<forall>(us, op) \<in> set ops. us < time_bound \<and> op_uniform limited op"
    and "leases_kept lua ttl grace ops redis_bucket_new"
    and "sum_list (map (op_cost \<circ> snd) ops) < exact_bound" and "length ops < u32_modulus"
  shows "redis_run lua ttl grace ops redis_bucket_new = map Some (local_run key ops local_store_new)"
proof (rule twin_runs [OF assms(1,2), where n = 0 and k = 0 and ?us0.0 = 0 and ?t0.0 = 0])
  show "twin ttl limited 0 0 0 redis_bucket_new (or_new (states local_store_new key) 0)"
    using twin_start by (simp add: local_store_new_def)
qed (use assms in auto)

definition demo_cap :: rate_limit where
  "demo_cap = rate_limit_default\<lparr>rpm := Some 1, concurrency := Some 2, tpm := Some 10\<rparr>"

definition demo_ops :: "(nat \<times> bucket_op) list" where
  "demo_ops = [(1000000, BAcquire demo_cap ''a''), (2000000, BAcquire demo_cap ''b''), (61000000, BCommit 10 ''a'')]"

lemma id_double: "lua_double id"
  by (simp add: lua_double_def mono_def)

lemma demo_ops_times: "\<forall>(us, op) \<in> set demo_ops. us < time_bound \<and> op_uniform True op"
  by (simp add: demo_ops_def demo_cap_def time_bound_def)

text \<open>Leases hold and lapse on any run of scripts: a slot refreshed in the last \<open>ttl\<close> seconds
  survives the pruning of an acquire or a header read, and the key that holds it has not expired; a slot
  not refreshed for \<open>ttl + 1\<close> seconds is gone.\<close>

theorem lease_reclaimed_in_time:
  assumes "redis_reach lua ttl grace us0 rb" and "ttl < u64_max" and "us0 \<le> us" and "us < time_bound"
    and "rb_conc rb m = Some score"
  shows "(us \<le> score + ttl * MICROS \<longrightarrow> rb_conc (prune_conc ttl us rb) m = Some score) \<and>
         (score + (ttl + 1) * MICROS \<le> us \<longrightarrow> rb_conc (prune_conc ttl us rb) m = None)"
proof -
  have leases: "leases_ok ttl us rb" by (rule leases_later [OF redis_reach_leases [OF assms(1,2)] assms(3)])
  then have score: "score \<le> us" "ms_of score + (ttl + 1) * 1000 \<le> rb_conc_expiry rb"
    using assms(5) unfolding leases_ok_def by blast+
  have "rb_conc (prune_conc ttl us rb) m = Some score" if "us \<le> score + ttl * MICROS"
    using fresh_kept [OF that score(1) assms(4)] fresh_unexpired [OF that score(2)] assms(5)
    by (simp add: prune_conc_def conc_set_def)
  moreover have "rb_conc (prune_conc ttl us rb) m = None" if old: "score + (ttl + 1) * MICROS \<le> us"
  proof -
    have "us < (secs_of us + 1) * MICROS"
      using dividend_less_div_times [of MICROS us] by (simp add: secs_of_def MICROS_def)
    with old have "score + (ttl + 1) * MICROS < (secs_of us + 1) * MICROS" by simp
    then have "int score + (int ttl + 1) * int MICROS < (int (secs_of us) + 1) * int MICROS"
      by (metis of_nat_1 of_nat_add of_nat_less_iff of_nat_mult)
    then have "int score < (int (secs_of us) - int ttl) * int MICROS"
      by (simp add: algebra_simps)
    then show ?thesis using assms(5) by (simp add: prune_conc_def conc_set_def conc_kept_def Let_def)
  qed
  ultimately show ?thesis by blast
qed

lemma demo_dims:
  "request_dims demo_cap = [\<lparr>dim_name = ''rpm'', dim_secs = 60, dim_limit = 1\<rparr>]"
  "token_dims demo_cap = [\<lparr>dim_name = ''tpm'', dim_secs = 60, dim_limit = 10\<rparr>]"
  "concurrency demo_cap = Some 2" "granted_micro_usd demo_cap = None"
  by (simp_all add: request_dims_def token_dims_def dims_of_step demo_cap_def rate_limit_default_def dim_names window_widths)

definition demo_slot :: redis_bucket where
  "demo_slot = \<lparr>rb_counters = [(''rpm'', 0) \<mapsto> (1, 66000)], rb_consumed = None, rb_conc = [''a'' \<mapsto> 1000000],
                rb_conc_expiry = 302000\<rparr>"

lemma demo_first:
  "redis_step id 300 5 1000000 (BAcquire demo_cap ''a'') redis_bucket_new = (demo_slot, Some (Verdict None))"
  by (simp add: redis_acquire_def acquire_script_def acquire_rest_def demo_dims prune_conc_def conc_set_def
      redis_bucket_new_def demo_slot_def get_counter_def live_counter_def incr_expire_def zadd_conc_def secs_of_def
      ms_of_def MICROS_def bucket_of_def sat_add_def u64_max_def decode_acquire_def reply_at_def codes i64_max_def Let_def)

lemma demo_second:
  "redis_step id 300 5 2000000 (BAcquire demo_cap ''b'') demo_slot =
     (demo_slot, Some (Verdict (Some (Requests ScopeRequests (detail_window ''rpm'' 1 1 58)))))"
proof -
  have kept: "conc_kept 300 2000000 1000000" by (simp add: conc_kept_def secs_of_def MICROS_def)
  have "prune_conc 300 2000000 demo_slot = demo_slot"
    by (simp add: prune_conc_def conc_set_def demo_slot_def ms_of_def kept fun_eq_iff)
  then show ?thesis
    by (simp add: redis_acquire_def acquire_script_def acquire_rest_def demo_dims conc_set_def
      demo_slot_def get_counter_def live_counter_def secs_of_def script_retry_def refused_detail_def
      ms_of_def MICROS_def bucket_of_def decode_acquire_def reply_at_def codes Let_def detail_window_def)
qed

theorem redis_refines_local_witness:
  "take 2 (local_run ''k'' demo_ops local_store_new) =
     [Verdict None, Verdict (Some (Requests ScopeRequests (detail_window ''rpm'' 1 1 58)))]"
proof -
  have "leases_fresh 300 1000000 redis_bucket_new" "leases_fresh 300 2000000 demo_slot" "leases_fresh 300 61000000 demo_slot"
    by (simp_all add: leases_fresh_def redis_bucket_new_def demo_slot_def MICROS_def)
  then have kept: "leases_kept id 300 5 demo_ops redis_bucket_new"
    unfolding demo_ops_def leases_kept.simps demo_first demo_second fst_conv by simp
  have "redis_run id 300 5 demo_ops redis_bucket_new = map Some (local_run ''k'' demo_ops local_store_new)"
    by (rule redis_refines_local [OF id_double _ _ demo_ops_times kept])
      (simp_all add: demo_ops_def u64_max_def exact_bound_def u32_modulus_def)
  moreover have "\<exists>rest. redis_run id 300 5 demo_ops redis_bucket_new =
      Some (Verdict None) # Some (Verdict (Some (Requests ScopeRequests (detail_window ''rpm'' 1 1 58)))) # rest"
    unfolding demo_ops_def redis_run.simps demo_first demo_second Let_def prod.case by blast
  ultimately show ?thesis by (auto simp: map_eq_Cons_conv numeral_2_eq_2)
qed

theorem lease_reclaimed_in_time_witness:
  "rb_conc (prune_conc 300 301000000 demo_slot) ''a'' = Some 1000000 \<and>
   rb_conc (prune_conc 300 302000000 demo_slot) ''a'' = None"
proof -
  have reach: "redis_reach id 300 5 1000000 demo_slot"
    using redis_reach.step [OF redis_reach.start [of id 300 5 0], of 1000000 "BAcquire demo_cap ''a''"]
    unfolding demo_first by simp
  have slot: "rb_conc demo_slot ''a'' = Some 1000000" by (simp add: demo_slot_def)
  have "(300 :: nat) < u64_max" "(301000000 :: nat) < time_bound" "(302000000 :: nat) < time_bound"
    by (simp_all add: u64_max_def time_bound_def)
  with lease_reclaimed_in_time [OF reach _ _ _ slot, of 301000000] lease_reclaimed_in_time [OF reach _ _ _ slot, of 302000000]
  show ?thesis by (simp add: MICROS_def)
qed

text \<open>Where acquires do not agree on the cap the two stores differ: a request admitted without a cap holds a
  slot in the process and none on the server, so a capped one that follows is refused by the one and
  admitted by the other.\<close>

definition one_slot :: rate_limit where
  "one_slot = rate_limit_default\<lparr>concurrency := Some 1\<rparr>"

lemma uncapped_slot_counts_only_locally:
  "let ops = [(0, BAcquire rate_limit_default ''a''), (0, BAcquire one_slot ''b'')] in
     redis_run id 300 5 ops redis_bucket_new = [Some (Verdict None), Some (Verdict None)] \<and>
     local_run ''k'' ops local_store_new = [Verdict None, Verdict (Some (Concurrency (detail_concurrency 1 1)))]"
proof -
  have dims: "request_dims rate_limit_default = []" "token_dims rate_limit_default = []" "request_dims one_slot = []"
    "token_dims one_slot = []"
    by (simp_all add: request_dims_def token_dims_def dims_of_step rate_limit_default_def one_slot_def)
  have fields: "concurrency rate_limit_default = None" "granted_micro_usd rate_limit_default = None"
    "concurrency one_slot = Some 1" "granted_micro_usd one_slot = None"
    by (simp_all add: rate_limit_default_def one_slot_def)
  have "redis_run id 300 5 [(0, BAcquire rate_limit_default ''a''), (0, BAcquire one_slot ''b'')] redis_bucket_new
      = [Some (Verdict None), Some (Verdict None)]"
    by (simp add: redis_acquire_def acquire_script_def acquire_rest_def dims fields prune_conc_def conc_set_def
        redis_bucket_new_def decode_acquire_def reply_at_def codes Let_def)
  moreover have "local_run ''k'' [(0, BAcquire rate_limit_default ''a''), (0, BAcquire one_slot ''b'')] local_store_new
      = [Verdict None, Verdict (Some (Concurrency (detail_concurrency 1 1)))]"
    by (simp add: local_bucket_step_def store_step.simps acquire_def key_acquire_def acquire_concurrency_def acquire_allowance_def
        acquire_tokens_def acquire_requests_def token_gate_def request_gate_def state_for_def local_store_new_def
        put_state_def key_state_new_def rate_limit_default_def one_slot_def as_u32_def u32_modulus_def Let_def)
  ultimately show ?thesis by (simp add: Let_def)
qed

end
