(* ===== verification/Redis_Failover.thy ===== *)
theory Redis_Failover
  imports Redis_Store
begin

text \<open>
  Runs of the Redis counter store of one process under arbitrary failures. An event carries the two clocks,
  the outcome of the command, and the state the server is found in: what other replicas, evictions and
  restarts do to the server between two operations is not constrained.
\<close>

section \<open>Runs\<close>

datatype redis_op =
    RAcquire string rate_limit string
  | RCommit string nat string
  | RRelease bool string string
  | RAddTokens "string list" nat
  | RRefresh string string
  | RPeek string rate_limit
  | RClaim string nat
  | RReap nat
  | RZrem nat
  | RWorkerRecv
  | RWorkerSpawn
  | RJobEnds nat

datatype redis_answer = Decided "rate_limit_error + unit" | Lease stream_lease_refresh | JobDone | Quiet

record redis_event =
  ev_us :: nat
  ev_now :: nat
  ev_io :: io_outcome
  ev_server :: redis_server
  ev_op :: redis_op

definition redis_event_step ::
    "(nat \<Rightarrow> nat) \<Rightarrow> redis_event \<Rightarrow> redis_store \<Rightarrow> redis_store \<times> redis_server \<times> redis_answer" where
  "redis_event_step lua e rs =
     (let us = ev_us e; now = ev_now e; io = ev_io e; srv = ev_server e
      in case ev_op e of
           RAcquire key l m \<Rightarrow>
             (let (rs', srv', r) = redis_store_acquire lua us now io key l m rs srv in (rs', srv', Decided r))
         | RCommit key n m \<Rightarrow>
             (let (rs', srv') = redis_store_commit lua us now io key n m rs srv in (rs', srv', Quiet))
         | RRelease in_runtime key m \<Rightarrow> (redis_store_release in_runtime now key m rs, srv, Quiet)
         | RAddTokens keys n \<Rightarrow> (redis_add_tokens_all now keys n rs, srv, Quiet)
         | RRefresh key m \<Rightarrow>
             (let (rs', srv', r) = refresh_stream_lease_outcome us io key m rs srv in (rs', srv', Lease r))
         | RPeek key l \<Rightarrow>
             (let (rs', srv', r) = redis_store_peek lua us now io key l rs srv in (rs', srv', Quiet))
         | RClaim key ttl \<Rightarrow>
             (let (rs', srv', r) = redis_claim_once us now io key ttl rs srv in (rs', srv', Quiet))
         | RReap idle \<Rightarrow> (redis_reap now idle rs, srv, Quiet)
         | RZrem i \<Rightarrow> (let (rs', srv') = run_zrem_task io i rs srv in (rs', srv', Quiet))
         | RWorkerRecv \<Rightarrow> (worker_recv rs, srv, Quiet)
         | RWorkerSpawn \<Rightarrow> (worker_spawn rs, srv, Quiet)
         | RJobEnds i \<Rightarrow>
             (let (rs', srv') = worker_finish lua us io i rs srv
              in (rs', srv', if i < length (worker_jobs rs) then JobDone else Quiet)))"

definition after :: "(nat \<Rightarrow> nat) \<Rightarrow> redis_event list \<Rightarrow> redis_store \<Rightarrow> redis_store" where
  "after lua evs rs = foldl (\<lambda>rs e. fst (redis_event_step lua e rs)) rs evs"

definition answer_to :: "(nat \<Rightarrow> nat) \<Rightarrow> redis_event \<Rightarrow> redis_store \<Rightarrow> redis_answer" where
  "answer_to lua e rs = snd (snd (redis_event_step lua e rs))"

definition server_after :: "(nat \<Rightarrow> nat) \<Rightarrow> redis_event \<Rightarrow> redis_store \<Rightarrow> redis_server" where
  "server_after lua e rs = fst (snd (redis_event_step lua e rs))"

lemma after_simps [simp]:
  "after lua [] rs = rs"
  "after lua (evs @ [e]) rs = fst (redis_event_step lua e (after lua evs rs))"
  by (simp_all add: after_def)

section \<open>What an operation does to the fallback store\<close>

fun op_charge :: "store_op \<Rightarrow> string \<Rightarrow> nat" where
  "op_charge (Commit k n m) key = (if k = key then n else 0)"
| "op_charge (AddTokens k n) key = (if k = key then n else 0)"
| "op_charge _ key = 0"

fun redis_charge :: "redis_op \<Rightarrow> string \<Rightarrow> nat" where
  "redis_charge (RCommit k n m) key = (if k = key then n else 0)"
| "redis_charge (RAddTokens keys n) key = n * count_list keys key"
| "redis_charge _ key = 0"

text \<open>How an operation moves the slots: the members it may add to a key, the members it takes off.\<close>

fun op_slots :: "store_op \<Rightarrow> string \<Rightarrow> string set \<Rightarrow> string set" where
  "op_slots (Acquire k l m) key S = (if k = key then insert m S else S)"
| "op_slots (Commit k n m) key S = (if k = key then S - {m} else S)"
| "op_slots (Release k m) key S = (if k = key then S - {m} else S)"
| "op_slots _ key S = S"

fun redis_slots :: "redis_op \<Rightarrow> string \<Rightarrow> string set \<Rightarrow> string set" where
  "redis_slots (RAcquire k l m) key S = (if k = key then insert m S else S)"
| "redis_slots (RCommit k n m) key S = (if k = key then S - {m} else S)"
| "redis_slots (RRelease b k m) key S = (if k = key then S - {m} else S)"
| "redis_slots _ key S = S"

definition local_steps :: "nat \<Rightarrow> store_op list \<Rightarrow> local_store \<Rightarrow> local_store" where
  "local_steps now ops st = foldl (\<lambda>st op. store_step st now op) st ops"

lemma local_steps_simps [simp]:
  "local_steps now [] st = st" "local_steps now (op # ops) st = local_steps now ops (store_step st now op)"
  by (simp_all add: local_steps_def)

definition is_reap :: "store_op \<Rightarrow> bool" where
  "is_reap op \<longleftrightarrow> (\<exists>idle. op = Reap idle)"

lemma is_reap_simps [simp]:
  "\<not> is_reap (Acquire k l m)" "\<not> is_reap (Commit k n m)" "\<not> is_reap (Release k m)" "\<not> is_reap (AddTokens k n)"
  "\<not> is_reap (NoteAllowance k l)" "\<not> is_reap (Peek k l)" "\<not> is_reap (ClaimOnce k n)" "is_reap (Reap n)"
  by (simp_all add: is_reap_def)

text \<open>\<open>by_local_steps now op rs rs'\<close>: the fallback store moved by steps of the in-process store that charge
  what the operation charges and free the slots it frees.\<close>

definition by_local_steps :: "nat \<Rightarrow> redis_op \<Rightarrow> redis_store \<Rightarrow> redis_store \<Rightarrow> bool" where
  "by_local_steps now op rs rs' \<longleftrightarrow>
     (\<exists>ops. fallback rs' = local_steps now ops (fallback rs) \<and>
            (\<forall>key. sum_list (map (\<lambda>o'. op_charge o' key) ops) = redis_charge op key) \<and>
            (\<forall>key S. foldl (\<lambda>S o'. op_slots o' key S) S ops \<subseteq> redis_slots op key S) \<and>
            (\<forall>o' \<in> set ops. is_reap o' \<longrightarrow> (\<exists>idle. op = RReap idle)))"

lemma by_local_stepsI:
  assumes "fallback rs' = local_steps now ops (fallback rs)"
    and "\<And>key. sum_list (map (\<lambda>o'. op_charge o' key) ops) = redis_charge op key"
    and "\<And>key S. foldl (\<lambda>S o'. op_slots o' key S) S ops \<subseteq> redis_slots op key S"
    and "\<And>o'. o' \<in> set ops \<Longrightarrow> is_reap o' \<Longrightarrow> \<exists>idle. op = RReap idle"
  shows "by_local_steps now op rs rs'"
  using assms unfolding by_local_steps_def by blast

lemma fallback_simps [simp]:
  "fallback (mark_ok rs) = fallback rs" "fallback (note_redis_failure o' rs) = fallback rs"
  "fallback (note_shed_post_stream n rs) = fallback rs"
  "lease_members (mark_ok rs) = lease_members rs" "lease_members (note_redis_failure o' rs) = lease_members rs"
  "lease_members (note_shed_post_stream n rs) = lease_members rs"
  by (simp_all add: mark_ok_def note_redis_failure_def note_shed_post_stream_def)

lemma by_no_steps:
  "fallback rs' = fallback rs \<Longrightarrow> (\<And>key. redis_charge op key = 0) \<Longrightarrow> (\<And>key S. S \<subseteq> redis_slots op key S) \<Longrightarrow>
     by_local_steps now op rs rs'"
  by (rule by_local_stepsI [where ops = "[]"]) auto

lemma by_one_step:
  assumes "fallback rs' = store_step (fallback rs) now o'" and "\<And>key. op_charge o' key = redis_charge op key"
    and "\<And>key S. op_slots o' key S \<subseteq> redis_slots op key S" and "is_reap o' \<Longrightarrow> \<exists>idle. op = RReap idle"
  shows "by_local_steps now op rs rs'"
  by (rule by_local_stepsI [where ops = "[o']"]) (use assms in auto)


lemma fallback_acquire_store:
  "fallback (fst (fallback_acquire now key l m owner rs)) = store_step (fallback rs) now (Acquire key l m)"
  by (simp add: fallback_acquire_def split_beta Let_def store_step.simps)

lemma acquire_by_steps:
  "by_local_steps now (RAcquire key l m) rs (fst (redis_store_acquire lua us now io key l m rs srv))"
proof -
  obtain srv' r where inv: "invoke io (on_bucket (bucket_prefix rs key)
             (acquire_script lua us m (concurrency l) (conc_ttl rs) (sat_add (conc_ttl rs) 1) (grace rs)
                (request_dims l) (token_dims l) (granted_micro_usd l))) srv = (srv', r)" by fastforce
  show ?thesis
  proof (cases r)
    case (Reply reply)
    show ?thesis
      by (rule by_one_step [where o' = "NoteAllowance key l"])
        (auto simp: redis_store_acquire_def inv Reply Let_def store_step.simps simp del: One_nat_def)
  qed (rule by_one_step [where o' = "Acquire key l m"],
      auto simp: redis_store_acquire_def inv split_beta Let_def fallback_acquire_store simp del: One_nat_def)+
qed

lemma commit_by_steps:
  "by_local_steps now (RCommit key n m) rs (fst (redis_store_commit lua us now io key n m rs srv))"
proof -
  obtain srv' r where inv: "invoke io (on_bucket (bucket_prefix rs key) (commit_script lua us m n (grace rs))) srv = (srv', r)"
    by fastforce
  show ?thesis
  proof (cases r)
    case (Reply reply)
    show ?thesis
      by (rule by_local_stepsI [where ops = "[AddTokens key n, Release key m]"])
        (auto simp: redis_store_commit_def inv Reply Let_def store_step.simps)
  qed (rule by_one_step [where o' = "Commit key n m"], auto simp: redis_store_commit_def inv Let_def store_step.simps)+
qed

lemma local_steps_Cons: "local_steps now ops (store_step st now o') = local_steps now (o' # ops) st"
  by simp

lemma offer_each_fallback:
  "fallback (fst (offer_each now n keys shed rs)) = local_steps now (map (\<lambda>k. AddTokens k n) keys) (fallback rs)"
  by (induction keys arbitrary: shed rs) (auto simp: offer_post_stream_def Let_def store_step.simps)

lemma add_by_steps: "by_local_steps now (RAddTokens keys n) rs (redis_add_tokens_all now keys n rs)"
proof (cases "n = 0 \<or> keys = []")
  case True
  then show ?thesis by (intro by_no_steps) (auto simp: redis_add_tokens_all_def)
next
  case False
  have "sum_list (map ((\<lambda>o'. op_charge o' key) \<circ> (\<lambda>k. AddTokens k n)) keys) = n * count_list keys key" for key
    by (induction keys) auto
  moreover have "foldl (\<lambda>S o'. op_slots o' key S) S (map (\<lambda>k. AddTokens k n) keys) = S" for key S
    by (induction keys) auto
  ultimately show ?thesis using False
    by (intro by_local_stepsI [where ops = "map (\<lambda>k. AddTokens k n) keys"])
      (auto simp: redis_add_tokens_all_def offer_each_fallback split_beta Let_def)
qed

lemma invoke_frame:
  fixes rs :: redis_store
  shows "fallback (fst (refresh_stream_lease_outcome us io key m rs srv)) = fallback rs"
    and "fallback (fst (run_zrem_task io i rs srv)) = fallback rs"
    and "fallback (fst (worker_finish lua us io i rs srv)) = fallback rs"
    and "fallback (worker_recv rs) = fallback rs" and "fallback (worker_spawn rs) = fallback rs"
  by (auto simp: refresh_stream_lease_outcome_def run_zrem_task_def worker_finish_def worker_recv_def worker_spawn_def
      split_beta Let_def split: option.splits lease_ownership.splits io_reply.splits list.splits prod.splits)

lemma peek_by_steps: "by_local_steps now (RPeek key l) rs (fst (redis_store_peek lua us now io key l rs srv))"
proof (cases "fallback (fst (redis_store_peek lua us now io key l rs srv)) = fallback rs")
  case False
  then show ?thesis
    by (intro by_one_step [where o' = "Peek key l"])
      (auto simp: redis_store_peek_def split_beta Let_def store_step.simps split: io_reply.splits prod.splits if_splits)
qed (intro by_no_steps, auto)

lemma claim_by_steps: "by_local_steps now (RClaim key ttl) rs (fst (redis_claim_once us now io key ttl rs srv))"
proof (cases "fallback (fst (redis_claim_once us now io key ttl rs srv)) = fallback rs")
  case False
  then show ?thesis
    by (intro by_one_step [where o' = "ClaimOnce key ttl"])
      (auto simp: redis_claim_once_def split_beta Let_def store_step.simps split: io_reply.splits prod.splits if_splits)
qed (intro by_no_steps, auto)

lemma event_by_steps: "by_local_steps (ev_now e) (ev_op e) rs (fst (redis_event_step lua e rs))"
proof (cases "ev_op e")
  case (RRelease b key m)
  then show ?thesis
    by (intro by_one_step [where o' = "Release key m"])
      (auto simp: redis_event_step_def redis_store_release_def store_step.simps)
next
  case (RReap idle)
  then show ?thesis
    by (intro by_one_step [where o' = "Reap idle"]) (auto simp: redis_event_step_def redis_reap_def store_step.simps)
qed (simp_all add: redis_event_step_def split_beta Let_def acquire_by_steps commit_by_steps add_by_steps peek_by_steps
    claim_by_steps by_no_steps invoke_frame)


section \<open>The ledger\<close>

text \<open>\<open>books T c S x t\<close>: the state \<open>x\<close> of a key counts in its three token windows what the ledger \<open>T\<close> has per
  window, holds \<open>c\<close> as its spend and at most the slots \<open>S\<close>; counts saturate.\<close>

definition capped_at_max :: "(nat \<Rightarrow> nat) \<Rightarrow> nat \<Rightarrow> nat" where
  "capped_at_max f b = min (f b) u64_max"

definition token_window_ok :: "window_counter \<Rightarrow> nat \<Rightarrow> (nat \<Rightarrow> nat \<Rightarrow> nat) \<Rightarrow> nat \<Rightarrow> bool" where
  "token_window_ok w secs T t \<longleftrightarrow> window_secs w = secs \<and> tracks w (capped_at_max (T secs)) t"

definition books :: "(nat \<Rightarrow> nat \<Rightarrow> nat) \<Rightarrow> nat \<Rightarrow> string set \<Rightarrow> key_state option \<Rightarrow> nat \<Rightarrow> bool" where
  "books T c S x t \<longleftrightarrow>
     (let s = or_new x t
      in token_window_ok (ks_tpm s) MINUTE_SECS T t \<and> token_window_ok (ks_tph s) HOUR_SECS T t \<and>
         token_window_ok (ks_tpd s) DAY_SECS T t \<and> consumed_micro_usd s = min c u64_max \<and> in_flight s \<subseteq> S)"

definition book_in :: "(nat \<Rightarrow> nat \<Rightarrow> nat) \<Rightarrow> nat \<Rightarrow> nat \<Rightarrow> (nat \<Rightarrow> nat \<Rightarrow> nat)" where
  "book_in T t n = (\<lambda>secs. (T secs)(bucket_of secs t := T secs (bucket_of secs t) + n))"

lemma book_in_0 [simp]: "book_in T t 0 = T"
  by (simp add: book_in_def fun_eq_iff)

lemma book_in_book_in [simp]: "book_in (book_in T t n) t n' = book_in T t (n + n')"
  by (simp add: book_in_def fun_eq_iff)

lemma capped_upd: "(capped_at_max f)(b := sat_add (capped_at_max f b) n) = capped_at_max (f(b := f b + n))"
  by (auto simp: capped_at_max_def sat_add_def fun_eq_iff)

lemma token_window_add: "token_window_ok w secs T t \<Longrightarrow> token_window_ok (window_add w t n) secs (book_in T t n) t"
  using tracks_window_add [of w "capped_at_max (T secs)" t n]
  by (auto simp: token_window_ok_def book_in_def capped_upd)

lemma token_window_rolled: "token_window_ok w secs T t \<Longrightarrow> rolled_window w w' t \<Longrightarrow> token_window_ok w' secs T t"
  by (auto simp: token_window_ok_def rolled_window_def tracks_roll)

lemma token_window_later: "token_window_ok w secs T t \<Longrightarrow> t \<le> t' \<Longrightarrow> token_window_ok w secs T t'"
  by (auto simp: token_window_ok_def intro: tracks_later)

lemma token_window_used: "token_window_ok w secs T t \<Longrightarrow> used w t = min (T secs (bucket_of secs t)) u64_max"
  by (auto simp: token_window_ok_def capped_at_max_def dest!: tracks_used)

lemma books_later:
  assumes "books T c S x t" and "t \<le> t'"
  shows "books T c S x t'"
  using assms token_window_later [OF _ assms(2)]
  by (cases x) (auto simp: books_def Let_def key_state_new_def)

lemma books_charge:
  assumes "books T c S (Some s) t"
  shows "books (book_in T t n) (c + n) S (Some (charge s t n)) t"
  using assms token_window_add [of _ _ T t n]
  by (auto simp: books_def Let_def charge_def sat_add_def)

lemma books_new: "books T c S x t \<longleftrightarrow> books T c S (Some (or_new x t)) t"
  by (simp add: books_def)

lemma books_cong:
  assumes "books T c S (Some s) t" and "rolled_window (ks_tpm s) (ks_tpm s') t" "rolled_window (ks_tph s) (ks_tph s') t"
    "rolled_window (ks_tpd s) (ks_tpd s') t" "consumed_micro_usd s' = consumed_micro_usd s" "in_flight s' \<subseteq> S'"
  shows "books T c S' (Some s') t"
  using assms token_window_rolled by (auto simp: books_def Let_def)

lemma acquire_token_windows:
  "rolled_window (ks_tpm s) (ks_tpm (fst (key_acquire s t l m))) t \<and>
   rolled_window (ks_tph s) (ks_tph (fst (key_acquire s t l m))) t \<and>
   rolled_window (ks_tpd s) (ks_tpd (fst (key_acquire s t l m))) t \<and>
   consumed_micro_usd (fst (key_acquire s t l m)) = consumed_micro_usd s \<and>
   in_flight (fst (key_acquire s t l m)) \<subseteq> insert m (in_flight s)"
proof (cases rule: key_acquire_cases [of s l t m])
  case (allowance s1 e)
  with allowance_rolled [OF allowance(2), of t] show ?thesis by (auto simp: rolled_def)
next
  case (tokens s1 s2 e)
  with rolled_trans [OF allowance_rolled [OF tokens(2), THEN conjunct1] acquire_tokens_rolled [of s1 t l]]
  show ?thesis by (auto simp: rolled_def)
next
  case (requests s1 s2 s3 e)
  with rolled_trans [OF allowance_rolled [OF requests(2), THEN conjunct1] acquire_tokens_rolled [of s1 t l]]
    acquire_requests_frame [of s2 t l]
  show ?thesis by (auto simp: rolled_def)
next
  case (admitted s1 s2 s3)
  with rolled_trans [OF allowance_rolled [OF admitted(2), THEN conjunct1] acquire_tokens_rolled [of s1 t l]]
    acquire_requests_frame [of s2 t l]
  show ?thesis by (auto simp: rolled_def)
qed auto

lemma op_slots_mono: "A \<subseteq> B \<Longrightarrow> op_slots op key A \<subseteq> op_slots op key B"
  by (cases op) auto

lemma books_step:
  assumes "books T c S x t" and "\<not> is_reap op"
  shows "books (book_in T t (op_charge op key)) (c + op_charge op key) (op_slots op key S) (key_step key x t op) t"
proof -
  have now: "books T c S (Some (or_new x t)) t" using assms(1) books_new by simp
  then have slots: "in_flight (or_new x t) \<subseteq> S" by (simp add: books_def Let_def)
  note charged = books_charge [OF now]
  show ?thesis
  proof (cases op)
    case (Acquire k l m)
    have "books T c (insert m S) (Some (fst (key_acquire (or_new x t) t l m))) t"
      by (rule books_cong [OF now]) (use acquire_token_windows [of "or_new x t" t l m] slots in blast)+
    with Acquire assms(1) show ?thesis by simp
  next
    case (Commit k n m)
    have "books (book_in T t n) (c + n) (S - {m})
            (Some ((charge (or_new x t) t n)\<lparr>in_flight := in_flight (or_new x t) - {m}, last_touched := t\<rparr>)) t"
      by (rule books_cong [OF charged]) (use slots in auto)
    with Commit assms(1) show ?thesis by simp
  next
    case (AddTokens k n)
    have "books (book_in T t n) (c + n) S (Some ((charge (or_new x t) t n)\<lparr>last_touched := t\<rparr>)) t"
      by (rule books_cong [OF charged]) (use slots in auto)
    with AddTokens assms(1) show ?thesis by simp
  next
    case (Release k m)
    have "books T c (S - {m}) (Some (s\<lparr>in_flight := in_flight s - {m}, last_touched := t\<rparr>)) t" if "x = Some s" for s
      by (rule books_cong [OF now]) (use slots that in auto)
    moreover have "books T c (S - {m}) None t" if "x = None"
      using assms(1) that by (simp add: books_def Let_def key_state_new_def)
    ultimately show ?thesis using Release assms(1) by (cases x) auto
  next
    case (NoteAllowance k l)
    have "books T c S (Some ((or_new x t)\<lparr>carries_allowance := b\<rparr>)) t" for b
      by (rule books_cong [OF now]) (use slots in auto)
    with NoteAllowance assms(1) show ?thesis by (cases x) auto
  next
    case (Peek k l)
    have "books T c S (Some (s\<lparr>ks_rpm := roll_if_stale (ks_rpm s) t, ks_tpm := roll_if_stale (ks_tpm s) t\<rparr>)) t"
      if "x = Some s" for s
      by (rule books_cong [OF now]) (use slots that in auto)
    with Peek assms(1) show ?thesis by (cases x) auto
  qed (use assms in auto)
qed

lemma books_steps:
  assumes "books T c S (states st key) t" and "\<forall>op \<in> set ops. \<not> is_reap op"
  shows "books (book_in T t (sum_list (map (\<lambda>op. op_charge op key) ops))) (c + sum_list (map (\<lambda>op. op_charge op key) ops))
           (foldl (\<lambda>S op. op_slots op key S) S ops) (states (local_steps t ops st) key) t"
  using assms
proof (induction ops arbitrary: T c S st)
  case (Cons op ops)
  have "books (book_in T t (op_charge op key)) (c + op_charge op key) (op_slots op key S) (states (store_step st t op) key) t"
    unfolding states_step by (rule books_step) (use Cons.prems in auto)
  from Cons.IH [OF this] Cons.prems(2) show ?case by (simp add: add.assoc)
qed simp

lemma books_slots_mono: "books T c S x t \<Longrightarrow> S \<subseteq> S' \<Longrightarrow> books T c S' x t"
  by (auto simp: books_def Let_def)

lemma books_event:
  assumes "books T c S (states (fallback rs) key) (ev_now e)" and "\<nexists>idle. ev_op e = RReap idle"
  shows "books (book_in T (ev_now e) (redis_charge (ev_op e) key)) (c + redis_charge (ev_op e) key)
           (redis_slots (ev_op e) key S) (states (fallback (fst (redis_event_step lua e rs))) key) (ev_now e)"
proof -
  from event_by_steps [of e rs lua] obtain ops where
      st: "fallback (fst (redis_event_step lua e rs)) = local_steps (ev_now e) ops (fallback rs)"
    and charge: "sum_list (map (\<lambda>o'. op_charge o' key) ops) = redis_charge (ev_op e) key"
    and slots: "foldl (\<lambda>S o'. op_slots o' key S) S ops \<subseteq> redis_slots (ev_op e) key S"
    and noreap: "\<forall>o' \<in> set ops. \<not> is_reap o'"
    using assms(2) unfolding by_local_steps_def by blast
  from books_slots_mono [OF books_steps [OF assms(1) noreap] slots] show ?thesis unfolding st charge .
qed

section \<open>Every amount is accounted once\<close>

definition charged_total :: "string \<Rightarrow> redis_event list \<Rightarrow> nat" where
  "charged_total key evs = sum_list (map (\<lambda>e. redis_charge (ev_op e) key) evs)"

definition charged_within :: "string \<Rightarrow> redis_event list \<Rightarrow> nat \<Rightarrow> nat \<Rightarrow> nat" where
  "charged_within key evs secs b = charged_total key (filter (\<lambda>e. bucket_of secs (ev_now e) = b) evs)"

definition open_members :: "string \<Rightarrow> redis_event list \<Rightarrow> string set" where
  "open_members key evs = foldl (\<lambda>S e. redis_slots (ev_op e) key S) {} evs"

lemma charged_snoc:
  "charged_total key (evs @ [e]) = charged_total key evs + redis_charge (ev_op e) key"
  "charged_within key (evs @ [e]) = book_in (charged_within key evs) (ev_now e) (redis_charge (ev_op e) key)"
  "open_members key (evs @ [e]) = redis_slots (ev_op e) key (open_members key evs)"
  by (auto simp: charged_total_def charged_within_def open_members_def book_in_def fun_eq_iff)

lemma books_run:
  assumes "sorted (map ev_now evs)" and "\<forall>e \<in> set evs. \<nexists>idle. ev_op e = RReap idle" and "\<forall>e \<in> set evs. ev_now e \<le> t"
    and "fallback rs0 = local_store_new"
  shows "books (charged_within key evs) (charged_total key evs) (open_members key evs)
           (states (fallback (after lua evs rs0)) key) t"
  using assms(1-3)
proof (induction evs arbitrary: t rule: rev_induct)
  case Nil
  show ?case
    by (simp add: assms(4) books_def Let_def local_store_new_def key_state_new_def charged_within_def charged_total_def
        token_window_ok_def capped_at_max_def tracks_fresh SECOND_SECS_def MINUTE_SECS_def HOUR_SECS_def DAY_SECS_def
        fresh_window_def tracks_def count_roll)
next
  case (snoc e evs)
  have "books (charged_within key evs) (charged_total key evs) (open_members key evs)
          (states (fallback (after lua evs rs0)) key) (ev_now e)"
    by (rule snoc.IH) (use snoc.prems in \<open>auto simp: sorted_append\<close>)
  from books_later [OF books_event [OF this, of lua]] snoc.prems show ?case by (simp add: charged_snoc)
qed



definition demo_event :: "nat \<Rightarrow> io_outcome \<Rightarrow> redis_op \<Rightarrow> redis_event" where
  "demo_event now io op =
     \<lparr>ev_us = now * MICROS, ev_now = now, ev_io = io, ev_server = redis_server_new, ev_op = op\<rparr>"


section \<open>Lost leases\<close>

text \<open>An event confirms a member when the process learns from the server's answer that the server holds it.\<close>

definition confirms :: "(nat \<Rightarrow> nat) \<Rightarrow> redis_event \<Rightarrow> redis_store \<Rightarrow> string \<Rightarrow> string \<Rightarrow> bool" where
  "confirms lua e rs key m \<longleftrightarrow>
     ev_io e = Answered \<and>
     (answer_to lua e rs = Decided (Inr ()) \<and> (\<exists>l. ev_op e = RAcquire key l m) \<or>
      answer_to lua e rs = Lease Renewed \<and> ev_op e = RRefresh key m) \<and>
     conc_set (srv_bucket (server_after lua e rs) (bucket_prefix rs key)) (ev_us e) m = Some (ev_us e)"

definition closes :: "redis_event \<Rightarrow> string \<Rightarrow> string \<Rightarrow> bool" where
  "closes e key m \<longleftrightarrow> (\<exists>n. ev_op e = RCommit key n m) \<or> (\<exists>b. ev_op e = RRelease b key m)"


lemma refusal_codes:
  "token_refusal lua rb us i ds = Some r \<Longrightarrow> reply_at r 0 = CODE_TOKENS"
  "request_refusal lua rb us i ds = Some r \<Longrightarrow> reply_at r 0 = CODE_REQUESTS"
  by (induction ds arbitrary: i) (auto simp: Let_def reply_at_def split: if_splits)

lemma conc_set_zadd: "conc_set (zadd_conc ttl us m rb) us m = Some us"
  by (simp add: conc_set_def zadd_conc_def)

lemma acquire_rest_ok:
  assumes "acquire_rest lua us m True ttl g req tok granted rb = (rb', Some r)" and "reply_at r 0 = CODE_OK"
  shows "conc_set rb' us m = Some us"
  using assms by (auto simp: acquire_rest_def conc_set_zadd reply_at_def codes
      split: if_splits option.splits prod.splits bool.splits dest: refusal_codes [unfolded codes reply_at_def])

lemma acquire_script_ok:
  assumes "acquire_script lua us m mx ttl kttl g req tok granted rb = (rb', Some r)" and "reply_at r 0 = CODE_OK" and "mx \<noteq> None"
  shows "conc_set rb' us m = Some us"
proof -
  from assms(3) obtain n where n: "mx = Some n" by blast
  let ?rb = "prune_conc ttl us rb"
  show ?thesis
  proof (cases "card (dom (conc_set ?rb us)) \<ge> n")
    case True
    with assms n show ?thesis by (auto simp: acquire_script_def reply_at_def codes Let_def)
  next
    case False
    with assms(1) n have "acquire_rest lua us m True kttl g req tok granted ?rb = (rb', Some r)"
      by (simp add: acquire_script_def Let_def)
    from acquire_rest_ok [OF this assms(2)] show ?thesis .
  qed
qed

lemma fallback_acquire_leases:
  "lease_members (fst (fallback_acquire now key l m owner rs)) k =
     (if k = (key, m) \<and> snd (acquire (fallback rs) now key l m) = Inr () \<and> concurrency l \<noteq> None then Some owner
      else lease_members rs k)"
  by (auto simp: fallback_acquire_def Let_def split: prod.split)

lemma acquire_confirms:
  assumes "ev_op e = RAcquire k l n" and "lease_members (fst (redis_event_step lua e rs)) (key, m) = Some ConfirmedRedis"
  shows "confirms lua e rs key m \<or> lease_members rs (key, m) = Some ConfirmedRedis"
proof -
  let ?p = "bucket_prefix rs k"
  let ?script = "acquire_script lua (ev_us e) n (concurrency l) (conc_ttl rs) (sat_add (conc_ttl rs) 1) (grace rs)
                   (request_dims l) (token_dims l) (granted_micro_usd l)"
  obtain srv' r where inv: "invoke (ev_io e) (on_bucket ?p ?script) (ev_server e) = (srv', r)" by fastforce
  note step = redis_event_step_def assms(1) redis_store_acquire_def inv
  show ?thesis
  proof (cases r)
    case NotSent
    with assms(2) show ?thesis
      by (auto simp: step Let_def split_beta fallback_acquire_leases simp del: One_nat_def split: if_splits)
  next
    case IoFailed
    with assms(2) show ?thesis
      by (auto simp: step Let_def split_beta fallback_acquire_leases simp del: One_nat_def split: if_splits)
  next
    case (Reply reply)
    show ?thesis
    proof (cases "reply_at reply 0 = CODE_OK \<and> concurrency l \<noteq> None \<and> (key, m) = (k, n)")
      case False
      with assms(2) Reply show ?thesis by (auto simp: step Let_def simp del: One_nat_def split: if_splits)
    next
      case True
      obtain rb' a where rb': "?script (srv_bucket (ev_server e) ?p) = (rb', a)" by fastforce
      from inv Reply have io: "ev_io e = Answered" by (cases "ev_io e") auto
      with inv Reply rb' have a: "a = Some reply" "srv' = (ev_server e)\<lparr>srv_bucket := (srv_bucket (ev_server e))(?p := rb')\<rparr>"
        by (auto simp: on_bucket_def split: option.splits)
      from acquire_script_ok [OF rb' [unfolded a] ] True have "conc_set rb' (ev_us e) n = Some (ev_us e)" by blast
      moreover have "decode_acquire l reply = None" using True by (simp add: decode_acquire_def)
      moreover from this have "snd (redis_event_step lua e rs) = (srv', Decided (Inr ()))" using Reply
        by (simp add: step Let_def del: One_nat_def)
      ultimately have "confirms lua e rs key m" using True io a
        by (simp add: confirms_def answer_to_def server_after_def assms(1))
      then show ?thesis ..
    qed
  qed
qed

lemma refresh_confirms:
  assumes "ev_op e = RRefresh k n" and "lease_members (fst (redis_event_step lua e rs)) (key, m) = Some ConfirmedRedis"
  shows "confirms lua e rs key m \<or> lease_members rs (key, m) = Some ConfirmedRedis"
proof (cases "lease_members rs (key, m) = Some ConfirmedRedis")
  case False
  let ?p = "bucket_prefix rs k"
  let ?script = "apsnd Some \<circ> refresh_script (ev_us e) n (sat_add (conc_ttl rs) 1)"
  obtain srv' r where inv: "invoke (ev_io e) (on_bucket ?p ?script) (ev_server e) = (srv', r)" by fastforce
  note step = redis_event_step_def assms(1) refresh_stream_lease_outcome_def inv
  have *: "r = Reply 1 \<and> lease_members rs (k, n) = Some Unknown \<and> (key, m) = (k, n)"
    using assms(2) False
    by (auto simp: step Let_def simp del: One_nat_def
        split: option.splits lease_ownership.splits io_reply.splits if_splits)
  then have io: "ev_io e = Answered" using inv by (cases "ev_io e") auto
  have srv: "srv' = (ev_server e)\<lparr>srv_bucket := (srv_bucket (ev_server e))
                       (?p := zadd_conc (sat_add (conc_ttl rs) 1) (ev_us e) n (srv_bucket (ev_server e) ?p))\<rparr>"
    using inv io * by (auto simp: on_bucket_def refresh_script_def Let_def simp del: One_nat_def split: if_splits)
  have "snd (redis_event_step lua e rs) = (srv', Lease Renewed)" using *
    by (auto simp: step Let_def simp del: One_nat_def)
  then have "confirms lua e rs key m" using * io
    by (auto simp: confirms_def answer_to_def server_after_def assms(1) srv conc_set_zadd)
  then show ?thesis ..
qed simp

lemma other_leases:
  assumes "lease_members (fst (redis_event_step lua e rs)) (key, m) = Some ConfirmedRedis"
    and "\<nexists>k l n. ev_op e = RAcquire k l n" and "\<nexists>k n. ev_op e = RRefresh k n"
  shows "lease_members rs (key, m) = Some ConfirmedRedis \<and> \<not> closes e key m"
proof -
  have offer: "lease_members (fst (offer_each now n keys shed rs)) = lease_members rs" for now n keys shed rs
    by (induction keys arbitrary: shed rs) (auto simp: offer_post_stream_def Let_def)
  show ?thesis
    using assms
    by (cases "ev_op e")
      (auto simp: redis_event_step_def closes_def redis_store_commit_def redis_store_release_def redis_add_tokens_all_def offer
        redis_store_peek_def redis_claim_once_def redis_reap_def run_zrem_task_def worker_recv_def worker_spawn_def
        worker_finish_def Let_def split_beta split: io_reply.splits prod.splits if_splits option.splits list.splits)
qed

lemma confirmed_step:
  assumes "lease_members (fst (redis_event_step lua e rs)) (key, m) = Some ConfirmedRedis"
  shows "confirms lua e rs key m \<or> lease_members rs (key, m) = Some ConfirmedRedis \<and> \<not> closes e key m"
proof (cases "(\<exists>k l n. ev_op e = RAcquire k l n) \<or> (\<exists>k n. ev_op e = RRefresh k n)")
  case True
  then show ?thesis using acquire_confirms [OF _ assms] refresh_confirms [OF _ assms] by (auto simp: closes_def)
next
  case False
  then show ?thesis using other_leases [OF assms] by blast
qed

lemma confirmed_before:
  assumes "lease_members (after lua evs rs0) (key, m) = Some ConfirmedRedis" and "lease_members rs0 = Map.empty"
  shows "\<exists>evs1 e1 evs2. evs = evs1 @ e1 # evs2 \<and> confirms lua e1 (after lua evs1 rs0) key m \<and> (\<forall>e2 \<in> set evs2. \<not> closes e2 key m)"
  using assms(1)
proof (induction evs rule: rev_induct)
  case (snoc e evs)
  from confirmed_step [OF snoc.prems [simplified]] show ?case
  proof
    assume "confirms lua e (after lua evs rs0) key m"
    then show ?thesis by (metis empty_iff empty_set)
  next
    assume *: "lease_members (after lua evs rs0) (key, m) = Some ConfirmedRedis \<and> \<not> closes e key m"
    with snoc.IH obtain evs1 e1 evs2 where "evs = evs1 @ e1 # evs2" "confirms lua e1 (after lua evs1 rs0) key m"
      "\<forall>e2 \<in> set evs2. \<not> closes e2 key m" by blast
    then have "evs @ [e] = evs1 @ e1 # (evs2 @ [e])" "\<forall>e2 \<in> set (evs2 @ [e]). \<not> closes e2 key m" using * by auto
    with \<open>confirms lua e1 (after lua evs1 rs0) key m\<close> show ?thesis by blast
  qed
qed (simp add: assms(2))

lemma missing_answer:
  assumes "answer_to lua e rs = Lease Missing" and "ev_op e = RRefresh key m"
  shows "ev_io e = Answered \<and> lease_members rs (key, m) = Some ConfirmedRedis \<and>
         conc_set (srv_bucket (ev_server e) (bucket_prefix rs key)) (ev_us e) m = None"
proof -
  let ?p = "bucket_prefix rs key"
  let ?script = "apsnd Some \<circ> refresh_script (ev_us e) m (sat_add (conc_ttl rs) 1)"
  obtain srv' r where inv: "invoke (ev_io e) (on_bucket ?p ?script) (ev_server e) = (srv', r)" by fastforce
  note step = redis_event_step_def assms(2) refresh_stream_lease_outcome_def inv
  have *: "r = Reply 0 \<and> lease_members rs (key, m) = Some ConfirmedRedis"
    using assms(1)
    by (auto simp: answer_to_def step Let_def simp del: One_nat_def
        split: option.splits lease_ownership.splits io_reply.splits if_splits)
  then have io: "ev_io e = Answered" using inv by (cases "ev_io e") auto
  show ?thesis using inv io *
    by (auto simp: on_bucket_def refresh_script_def Let_def simp del: One_nat_def split: if_splits)
qed

text \<open>C18. A stream is told that its lease is lost only when it is: in every run, with every failure and
  whatever else happens to the server, a refresh answers that the slot is missing only if the server
  answered and does not hold the member, had held it at an earlier moment when this process learned so, and
  the process has neither committed nor released it since. A reservation made by the fallback, or one whose
  fate on the server is unknown, is never reported lost.\<close>

theorem missing_lease_was_confirmed:
  assumes "lease_members rs0 = Map.empty" and "answer_to lua e (after lua evs rs0) = Lease Missing"
    and "ev_op e = RRefresh key m"
  shows "ev_io e = Answered \<and>
         conc_set (srv_bucket (ev_server e) (bucket_prefix (after lua evs rs0) key)) (ev_us e) m = None \<and>
         (\<exists>evs1 e1 evs2. evs = evs1 @ e1 # evs2 \<and> confirms lua e1 (after lua evs1 rs0) key m \<and>
                         (\<forall>e2 \<in> set evs2. \<not> closes e2 key m))"
  using missing_answer [OF assms(2,3)] confirmed_before [OF _ assms(1)] by blast

definition one_slot_limit :: rate_limit where
  "one_slot_limit = rate_limit_default\<lparr>concurrency := Some 1\<rparr>"

theorem missing_lease_was_confirmed_witness:
  "let acq = demo_event 10 Answered (RAcquire ''k'' one_slot_limit ''m''); e = demo_event 400 Answered (RRefresh ''k'' ''m'')
   in answer_to id e (after id [acq] (with_slot False)) = Lease Missing \<and>
      confirms id acq (with_slot False) ''k'' ''m''"
proof -
  let ?acq = "demo_event 10 Answered (RAcquire ''k'' one_slot_limit ''m'')"
  let ?e = "demo_event 400 Answered (RRefresh ''k'' ''m'')"
  have lease: "lease_members (after id [?acq] (with_slot False)) (''k'', ''m'') = Some ConfirmedRedis"
    by (simp add: after_def redis_event_step_def demo_event_def redis_store_acquire_def on_bucket_def acquire_script_def
        acquire_rest_def one_slot_limit_def rate_limit_default_def request_dims_def token_dims_def dims_of_step
        redis_server_new_def redis_bucket_new_def prune_conc_def conc_set_def Let_def reply_at_def codes mark_ok_def)
  have missing: "answer_to id ?e (after id [?acq] (with_slot False)) = Lease Missing"
    by (simp add: answer_to_def redis_event_step_def demo_event_def [of 400] refresh_stream_lease_outcome_def lease
        on_bucket_def refresh_script_def conc_set_def redis_server_new_def redis_bucket_new_def Let_def)
  from missing_lease_was_confirmed [OF _ missing, of "''k''" "''m''"]
  obtain evs1 e1 evs2 where "[?acq] = evs1 @ e1 # evs2" "confirms id e1 (after id evs1 (with_slot False)) ''k'' ''m''"
    by (auto simp: demo_event_def with_slot_def)
  then have "confirms id ?acq (with_slot False) ''k'' ''m''" by (auto simp: Cons_eq_append_conv)
  with missing show ?thesis by (simp add: Let_def)
qed


section \<open>The queue of post-stream updates\<close>

definition updates_offered :: "redis_event list \<Rightarrow> nat" where
  "updates_offered evs =
     sum_list (map (\<lambda>e. case ev_op e of RAddTokens keys n \<Rightarrow> if n = 0 then 0 else length keys | _ \<Rightarrow> 0) evs)"

definition held_updates :: "redis_store \<Rightarrow> nat" where
  "held_updates rs = (case worker_held rs of None \<Rightarrow> 0 | Some _ \<Rightarrow> 1)"

definition updates_waiting :: "redis_store \<Rightarrow> nat" where
  "updates_waiting rs = length (update_queue rs) + held_updates rs + length (worker_jobs rs)"

fun jobs_done :: "(nat \<Rightarrow> nat) \<Rightarrow> redis_event list \<Rightarrow> redis_store \<Rightarrow> nat" where
  "jobs_done lua [] rs = 0"
| "jobs_done lua (e # evs) rs =
     (if answer_to lua e rs = JobDone then 1 else 0) + jobs_done lua evs (fst (redis_event_step lua e rs))"

definition queue_bounded :: "redis_store \<Rightarrow> bool" where
  "queue_bounded rs \<longleftrightarrow>
     length (update_queue rs) \<le> POST_STREAM_QUEUE_DEPTH \<and> length (worker_jobs rs) \<le> POST_STREAM_IN_FLIGHT"

lemma jobs_done_snoc:
  "jobs_done lua (evs @ [e]) rs = jobs_done lua evs rs + (if answer_to lua e (after lua evs rs) = JobDone then 1 else 0)"
  by (induction evs arbitrary: rs) (auto simp: after_def)

text \<open>The worker's state, which only the worker and the offering of updates touch.\<close>

definition queue_view :: "redis_store \<Rightarrow> post_stream_add list \<times> post_stream_add option \<times> post_stream_add list \<times> nat" where
  "queue_view rs = (update_queue rs, worker_held rs, worker_jobs rs, post_stream_shed rs)"

lemma queue_view_marks [simp]:
  "queue_view (mark_ok rs) = queue_view rs" "queue_view (note_redis_failure o' rs) = queue_view rs"
  "queue_view (rs\<lparr>fallback := st\<rparr>) = queue_view rs" "queue_view (rs\<lparr>lease_members := ls\<rparr>) = queue_view rs"
  "queue_view (rs\<lparr>zrem_tasks := ts\<rparr>) = queue_view rs" "queue_view (rs\<lparr>redis_failures := fs\<rparr>) = queue_view rs"
  by (simp_all add: queue_view_def mark_ok_def note_redis_failure_def)

lemma queue_untouched:
  assumes "\<nexists>keys n. ev_op e = RAddTokens keys n" and "ev_op e \<noteq> RWorkerRecv" and "ev_op e \<noteq> RWorkerSpawn"
    and "\<nexists>i. ev_op e = RJobEnds i"
  shows "queue_view (fst (redis_event_step lua e rs)) = queue_view rs \<and> answer_to lua e rs \<noteq> JobDone"
  using assms
  by (cases "ev_op e")
    (auto simp: redis_event_step_def answer_to_def redis_store_acquire_def fallback_acquire_def redis_store_commit_def
      redis_store_release_def refresh_stream_lease_outcome_def redis_store_peek_def redis_claim_once_def redis_reap_def
      run_zrem_task_def Let_def split: prod.splits io_reply.splits option.splits lease_ownership.splits)

lemma offer_each_counts:
  assumes "length (update_queue rs) \<le> POST_STREAM_QUEUE_DEPTH" and "offer_each now n keys shed rs = (rs', shed')"
  shows "length (update_queue rs') + shed' = length (update_queue rs) + shed + length keys \<and>
         length (update_queue rs') \<le> POST_STREAM_QUEUE_DEPTH \<and> shed \<le> shed' \<and>
         (shed < shed' \<longrightarrow> length (update_queue rs') = POST_STREAM_QUEUE_DEPTH) \<and>
         worker_held rs' = worker_held rs \<and> worker_jobs rs' = worker_jobs rs \<and> post_stream_shed rs' = post_stream_shed rs"
  using assms
proof (induction keys arbitrary: rs shed)
  case (Cons key keys)
  let ?rs1 = "rs\<lparr>fallback := add_tokens (fallback rs) now key n\<rparr>"
  let ?c = "\<lparr>add_prefix = bucket_prefix ?rs1 key, add_amount = n\<rparr>"
  show ?case
  proof (cases "length (update_queue rs) < POST_STREAM_QUEUE_DEPTH")
    case True
    then have "offer_each now n keys shed (?rs1\<lparr>update_queue := update_queue rs @ [?c]\<rparr>) = (rs', shed')"
      using Cons.prems by (simp add: offer_post_stream_def Let_def)
    from Cons.IH [OF _ this] True show ?thesis by simp
  next
    case False
    then have full: "length (update_queue rs) = POST_STREAM_QUEUE_DEPTH" using Cons.prems(1) by simp
    have rest: "offer_each now n keys (shed + 1) ?rs1 = (rs', shed')"
      using Cons.prems(2) False by (simp add: offer_post_stream_def Let_def)
    from Cons.IH [OF _ rest] full show ?thesis by (cases "Suc shed < shed'") auto
  qed
qed simp

lemma add_counts:
  assumes "queue_bounded rs" and "redis_add_tokens_all now keys n rs = rs'"
  shows "updates_waiting rs' + post_stream_shed rs' =
           updates_waiting rs + post_stream_shed rs + (if n = 0 then 0 else length keys) \<and> queue_bounded rs' \<and>
         (post_stream_shed rs < post_stream_shed rs' \<longrightarrow> length (update_queue rs') = POST_STREAM_QUEUE_DEPTH)"
proof (cases "n = 0 \<or> keys = []")
  case True
  with assms show ?thesis by (auto simp: redis_add_tokens_all_def)
next
  case False
  obtain rs1 shed where o: "offer_each now n keys 0 rs = (rs1, shed)" by fastforce
  have rs': "rs' = (if shed > 0 then note_shed_post_stream shed rs1 else rs1)"
    using assms(2) False o by (auto simp: redis_add_tokens_all_def)
  show ?thesis using offer_each_counts [OF _ o] assms(1) False
    by (auto simp: queue_bounded_def rs' updates_waiting_def held_updates_def note_shed_post_stream_def)
qed

lemma removed_length: "i < length xs \<Longrightarrow> Suc (length (take i xs @ drop (Suc i) xs)) = length xs"
  by simp

lemma worker_finish_counts:
  "update_queue (fst (worker_finish lua us io i rs srv)) = update_queue rs"
  "worker_held (fst (worker_finish lua us io i rs srv)) = worker_held rs"
  "post_stream_shed (fst (worker_finish lua us io i rs srv)) = post_stream_shed rs"
  "length (worker_jobs rs) = length (worker_jobs (fst (worker_finish lua us io i rs srv))) + (if i < length (worker_jobs rs) then 1 else 0)"
  by (auto simp: worker_finish_def Let_def split: prod.splits)

lemma queue_step:
  assumes "queue_bounded rs" and "redis_event_step lua e rs = (rs', srv', a)"
  shows "updates_waiting rs' + post_stream_shed rs' + (if a = JobDone then 1 else 0) =
           updates_waiting rs + post_stream_shed rs + updates_offered [e] \<and> queue_bounded rs' \<and>
         (post_stream_shed rs < post_stream_shed rs' \<longrightarrow> length (update_queue rs') = POST_STREAM_QUEUE_DEPTH)"
proof (cases "\<exists>keys n. ev_op e = RAddTokens keys n")
  case True
  then obtain keys n where op: "ev_op e = RAddTokens keys n" by blast
  with assms(2) have "redis_add_tokens_all (ev_now e) keys n rs = rs'" "a = Quiet" by (simp_all add: redis_event_step_def)
  with add_counts [OF assms(1), of _ keys n rs'] op show ?thesis by (auto simp: updates_offered_def)
next
  case False
  then have none: "updates_offered [e] = 0" by (auto simp: updates_offered_def split: redis_op.splits)
  consider "ev_op e = RWorkerRecv" | "ev_op e = RWorkerSpawn" | i where "ev_op e = RJobEnds i"
    | "ev_op e \<noteq> RWorkerRecv" "ev_op e \<noteq> RWorkerSpawn" "\<nexists>i. ev_op e = RJobEnds i" by blast
  then show ?thesis
  proof cases
    case 1
    with assms none show ?thesis
      by (auto simp: redis_event_step_def worker_recv_def updates_waiting_def held_updates_def queue_bounded_def
          split: option.splits list.splits)
  next
    case 2
    with assms none show ?thesis
      by (auto simp: redis_event_step_def worker_spawn_def updates_waiting_def held_updates_def queue_bounded_def
          split: option.splits if_splits)
  next
    case (3 i)
    with assms none worker_finish_counts [where lua = lua and us = "ev_us e" and io = "ev_io e" and i = i and rs = rs and srv = "ev_server e"] show ?thesis
      by (auto simp: redis_event_step_def updates_waiting_def held_updates_def queue_bounded_def split: prod.splits if_splits)
  next
    case 4
    with queue_untouched [of e lua rs] False assms none show ?thesis
      by (auto simp: answer_to_def queue_view_def updates_waiting_def held_updates_def queue_bounded_def)
  qed
qed

lemma queue_run:
  "updates_waiting (after lua evs (with_slot d)) + post_stream_shed (after lua evs (with_slot d)) + jobs_done lua evs (with_slot d) =
     updates_offered evs \<and> queue_bounded (after lua evs (with_slot d))"
proof (induction evs rule: rev_induct)
  case Nil
  show ?case by (simp add: with_slot_def updates_waiting_def held_updates_def updates_offered_def queue_bounded_def)
next
  case (snoc e evs)
  obtain rs' srv' a where st: "redis_event_step lua e (after lua evs (with_slot d)) = (rs', srv', a)"
    by (cases "redis_event_step lua e (after lua evs (with_slot d))") auto
  have "updates_offered (evs @ [e]) = updates_offered evs + updates_offered [e]" by (simp add: updates_offered_def)
  with snoc queue_step [OF snoc.IH [THEN conjunct2] st] show ?case by (simp add: jobs_done_snoc st answer_to_def)
qed

text \<open>The post-stream queue neither loses nor repeats an update it does not report: at every moment of
  every run the updates offered are those waiting (queued, held by the worker, or in flight), those carried
  out and those counted as shed; at most 8192 are queued and 256 in flight; and an update is shed only when
  the queue is full.\<close>

theorem post_stream_updates_conserved:
  "let rs = after lua evs (with_slot degraded); rs' = fst (redis_event_step lua e rs)
   in updates_offered evs = updates_waiting rs + jobs_done lua evs (with_slot degraded) + post_stream_shed rs \<and>
      length (update_queue rs) \<le> POST_STREAM_QUEUE_DEPTH \<and> length (worker_jobs rs) \<le> POST_STREAM_IN_FLIGHT \<and>
      \<not> (post_stream_shed rs < post_stream_shed rs' \<and> length (update_queue rs') < POST_STREAM_QUEUE_DEPTH)"
proof -
  let ?rs = "after lua evs (with_slot degraded)"
  obtain rs' srv' a where st: "redis_event_step lua e ?rs = (rs', srv', a)" by (cases "redis_event_step lua e ?rs") auto
  from queue_run [of lua evs degraded] queue_step [OF _ st] show ?thesis by (auto simp: st Let_def queue_bounded_def)
qed

section \<open>Environments sharing a server\<close>

lemma split_at_first_brace:
  assumes "CHR ''{'' \<notin> set xs" and "CHR ''{'' \<notin> set xs'" and "xs @ CHR ''{'' # ys = xs' @ CHR ''{'' # ys'"
  shows "xs = xs' \<and> ys = ys'"
  using assms by (auto simp: append_eq_append_conv2 Cons_eq_append_conv append_eq_Cons_conv)

text \<open>Two environments that share a server share no bucket, and no environment's bucket is another's claim
  marker, as long as environment ids hold no brace.\<close>

lemma environments_share_no_bucket:
  assumes "bucket_prefix (with_env_namespace env (with_slot d)) key = bucket_prefix (with_env_namespace env' (with_slot d')) key'"
    and "CHR ''{'' \<notin> set env" and "CHR ''{'' \<notin> set env'"
  shows "env = env' \<and> key = key'"
proof -
  let ?ns = "\<lambda>env :: string. if env = [] then DEFAULT_PREFIX else DEFAULT_PREFIX @ '':'' @ env"
  have "(?ns env @ '':'') @ CHR ''{'' # key @ ''}'' = (?ns env' @ '':'') @ CHR ''{'' # key' @ ''}''"
    using assms(1) by (simp add: bucket_prefix_def with_env_namespace_def with_slot_def split: if_splits)
  moreover have "CHR ''{'' \<notin> set (?ns env @ '':'')" "CHR ''{'' \<notin> set (?ns env' @ '':'')"
    using assms(2,3) by (auto simp: DEFAULT_PREFIX_def)
  ultimately have "?ns env @ '':'' = ?ns env' @ '':'' \<and> key @ ''}'' = key' @ ''}''" by (rule split_at_first_brace [rotated 2])
  then show ?thesis by (auto split: if_splits)
qed

end
