(* ===== verification/Redis_Breaker.thy ===== *)
theory Redis_Breaker
  imports Prelude
begin

text \<open>
  The cool-off breaker of \<^verbatim>\<open>crates/aisix-redis/src/lib.rs\<close>: what decides whether a command reaches
  Redis or is answered with an error at once, who may close the breaker again, and the background prober
  in charge of it. Times are in milliseconds. A method holds the breaker's lock for its whole body and is
  one step; opening the breaker and claiming the prober, two such bodies with nothing awaited in between,
  are taken as one step.
\<close>

section \<open>The breaker\<close>

record breaker =
  br_window :: nat
  open_until :: "nat option"
  br_generation :: nat
  br_prober :: "nat option"
  br_claims :: nat

definition BREAKER_WINDOW :: nat where "BREAKER_WINDOW = 30000"

definition u64_modulus_br :: nat where "u64_modulus_br = 2 ^ 64"

definition breaker_new :: "nat \<Rightarrow> breaker" where
  "breaker_new window = \<lparr>br_window = window, open_until = None, br_generation = 0, br_prober = None, br_claims = 0\<rparr>"

definition is_open :: "nat \<Rightarrow> breaker \<Rightarrow> bool" where
  "is_open now b \<longleftrightarrow> (case open_until b of Some until \<Rightarrow> now < until | None \<Rightarrow> False)"

definition admit :: "nat \<Rightarrow> breaker \<Rightarrow> breaker \<times> nat option" where
  "admit now b =
     (case open_until b of
        None \<Rightarrow> (b, Some (br_generation b))
      | Some until \<Rightarrow>
          if now < until then (b, None)
          else (b\<lparr>br_prober := None, open_until := Some (now + br_window b)\<rparr>, Some (br_generation b)))"

definition open_breaker :: "nat \<Rightarrow> breaker \<Rightarrow> breaker" where
  "open_breaker now b =
     b\<lparr>open_until := Some (now + br_window b), br_generation := (br_generation b + 1) mod u64_modulus_br\<rparr>"

definition claim_prober :: "breaker \<Rightarrow> breaker \<times> nat option" where
  "claim_prober b =
     (if br_prober b \<noteq> None then (b, None)
      else (b\<lparr>br_claims := br_claims b + 1, br_prober := Some (br_claims b + 1)\<rparr>, Some (br_claims b + 1)))"

definition hold_off :: "nat \<Rightarrow> nat \<Rightarrow> nat \<Rightarrow> breaker \<Rightarrow> breaker \<times> bool" where
  "hold_off now claim for_ms b =
     (if br_prober b \<noteq> Some claim then (b, False) else (b\<lparr>open_until := Some (now + for_ms)\<rparr>, True))"

definition close_from_prober :: "nat \<Rightarrow> nat \<Rightarrow> breaker \<Rightarrow> breaker \<times> bool" where
  "close_from_prober claim seen b =
     (if br_prober b \<noteq> Some claim \<or> br_generation b \<noteq> seen then (b, False)
      else (b\<lparr>open_until := None, br_prober := None\<rparr>, True))"

definition close_unless_reopened :: "nat \<Rightarrow> breaker \<Rightarrow> breaker" where
  "close_unless_reopened seen b = (if br_generation b = seen then b\<lparr>open_until := None\<rparr> else b)"

section \<open>The guard: commands in flight and prober tasks\<close>

datatype prober_phase = Starting | Sleeping nat | Probing nat

record prober_task =
  pt_claim :: nat
  pt_phase :: prober_phase

record redis_guard =
  rg_breaker :: breaker
  rg_registered :: bool
  rg_commands :: "nat list"
  rg_probers :: "prober_task list"

definition guard_new :: "nat \<Rightarrow> redis_guard" where
  "guard_new window = \<lparr>rg_breaker = breaker_new window, rg_registered = False, rg_commands = [], rg_probers = []\<rparr>"

definition drop_nth :: "nat \<Rightarrow> 'a list \<Rightarrow> 'a list" where
  "drop_nth i xs = take i xs @ drop (Suc i) xs"

text \<open>\<open>guard_call\<close> and \<open>guard_result\<close> are the two halves of \<^verbatim>\<open>Guard::run_with\<close>, before and after the
  command. A command ends with a value, with an error the server reported, or with a failure to reach it
  (an I/O error or the end of its budget).\<close>

datatype command_end = CommandOk | ServerError | Unreachable

definition guard_call :: "nat \<Rightarrow> redis_guard \<Rightarrow> redis_guard \<times> bool" where
  "guard_call now g =
     (case admit now (rg_breaker g) of
        (b, None) \<Rightarrow> (g\<lparr>rg_breaker := b\<rparr>, False)
      | (b, Some seen) \<Rightarrow> (g\<lparr>rg_breaker := b, rg_commands := rg_commands g @ [seen]\<rparr>, True))"

definition trip :: "nat \<Rightarrow> redis_guard \<Rightarrow> redis_guard" where
  "trip now g =
     (let b = open_breaker now (rg_breaker g)
      in if \<not> rg_registered g then g\<lparr>rg_breaker := b\<rparr>
         else (case claim_prober b of
                 (b', None) \<Rightarrow> g\<lparr>rg_breaker := b'\<rparr>
               | (b', Some claim) \<Rightarrow>
                   g\<lparr>rg_breaker := b', rg_probers := rg_probers g @ [\<lparr>pt_claim = claim, pt_phase = Starting\<rparr>]\<rparr>))"

definition guard_result :: "nat \<Rightarrow> nat \<Rightarrow> command_end \<Rightarrow> redis_guard \<Rightarrow> redis_guard" where
  "guard_result now i r g =
     (if i < length (rg_commands g)
      then let seen = rg_commands g ! i; g1 = g\<lparr>rg_commands := drop_nth i (rg_commands g)\<rparr>
           in case r of
                CommandOk \<Rightarrow> g1\<lparr>rg_breaker := close_unless_reopened seen (rg_breaker g1)\<rparr>
              | ServerError \<Rightarrow> g1
              | Unreachable \<Rightarrow> trip now g1
      else g)"

text \<open>The prober's loop: \<open>prober_round\<close> is its head, where it claims the sleep and the probe that follows,
  or ends; \<open>probe_starts\<close> is its waking up, \<open>probe_ends\<close> the end of its \<^verbatim>\<open>PING\<close>.\<close>

definition prober_round :: "nat \<Rightarrow> nat \<Rightarrow> nat \<Rightarrow> redis_guard \<Rightarrow> redis_guard" where
  "prober_round budget now i g =
     (case hold_off now (pt_claim (rg_probers g ! i)) (br_window (rg_breaker g) + budget) (rg_breaker g) of
        (b, False) \<Rightarrow> g\<lparr>rg_breaker := b, rg_probers := drop_nth i (rg_probers g)\<rparr>
      | (b, True) \<Rightarrow>
          g\<lparr>rg_breaker := b,
            rg_probers := (rg_probers g)[i := (rg_probers g ! i)\<lparr>pt_phase := Sleeping (now + br_window b)\<rparr>]\<rparr>)"

definition probe_starts :: "nat \<Rightarrow> nat \<Rightarrow> redis_guard \<Rightarrow> redis_guard" where
  "probe_starts now i g =
     g\<lparr>rg_probers := (rg_probers g)[i := (rg_probers g ! i)\<lparr>pt_phase := Probing (br_generation (rg_breaker g))\<rparr>]\<rparr>"

definition probe_ends :: "nat \<Rightarrow> nat \<Rightarrow> nat \<Rightarrow> bool \<Rightarrow> nat \<Rightarrow> redis_guard \<Rightarrow> redis_guard" where
  "probe_ends budget now i answered seen g =
     (if answered
      then (case close_from_prober (pt_claim (rg_probers g ! i)) seen (rg_breaker g) of
              (b, True) \<Rightarrow> g\<lparr>rg_breaker := b, rg_probers := drop_nth i (rg_probers g)\<rparr>
            | (b, False) \<Rightarrow> prober_round budget now i (g\<lparr>rg_breaker := b\<rparr>))
      else prober_round budget now i g)"

section \<open>Steps\<close>

datatype guard_event =
    Registered
  | Call
  | CommandEnds nat command_end
  | ProberStarts nat
  | ProbeBegins nat
  | ProbeEnds nat bool
  | ProberDropped nat

fun guard_step :: "nat \<Rightarrow> nat \<Rightarrow> guard_event \<Rightarrow> redis_guard \<Rightarrow> redis_guard" where
  "guard_step budget now Registered g = g\<lparr>rg_registered := True\<rparr>"
| "guard_step budget now Call g = fst (guard_call now g)"
| "guard_step budget now (CommandEnds i r) g = guard_result now i r g"
| "guard_step budget now (ProberStarts i) g =
     (if i < length (rg_probers g) \<and> pt_phase (rg_probers g ! i) = Starting then prober_round budget now i g else g)"
| "guard_step budget now (ProbeBegins i) g =
     (if i < length (rg_probers g)
      then (case pt_phase (rg_probers g ! i) of
              Sleeping wake \<Rightarrow> if wake \<le> now then probe_starts now i g else g
            | _ \<Rightarrow> g)
      else g)"
| "guard_step budget now (ProbeEnds i answered) g =
     (if i < length (rg_probers g)
      then (case pt_phase (rg_probers g ! i) of
              Probing seen \<Rightarrow> probe_ends budget now i answered seen g
            | _ \<Rightarrow> g)
      else g)"
| "guard_step budget now (ProberDropped i) g =
     (if i < length (rg_probers g) then g\<lparr>rg_probers := drop_nth i (rg_probers g)\<rparr> else g)"

definition guard_run :: "nat \<Rightarrow> (nat \<times> guard_event) list \<Rightarrow> redis_guard \<Rightarrow> redis_guard" where
  "guard_run budget evs g = foldl (\<lambda>g (t, ev). guard_step budget t ev g) g evs"

lemma guard_run_simps [simp]:
  "guard_run budget [] g = g"
  "guard_run budget ((t, ev) # evs) g = guard_run budget evs (guard_step budget t ev g)"
  "guard_run budget (evs @ evs') g = guard_run budget evs' (guard_run budget evs g)"
  by (simp_all add: guard_run_def)

text \<open>\<open>n\<close> counts the steps; the generation counter wraps, so what follows is about runs of fewer than
  \<open>2 ^ 64\<close> steps.\<close>

inductive guard_reach :: "nat \<Rightarrow> nat \<Rightarrow> nat \<Rightarrow> nat \<Rightarrow> redis_guard \<Rightarrow> bool" for window budget where
  start: "guard_reach window budget 0 t (guard_new window)"
| step: "guard_reach window budget n t g \<Longrightarrow> t \<le> t' \<Longrightarrow> guard_reach window budget (Suc n) t' (guard_step budget t' ev g)"


lemmas breaker_defs = admit_def open_breaker_def claim_prober_def hold_off_def close_from_prober_def close_unless_reopened_def

lemma set_drop_nth: "set (drop_nth i xs) \<subseteq> set xs"
  by (auto simp: drop_nth_def dest: in_set_takeD in_set_dropD)

lemma map_drop_nth: "map f (drop_nth i xs) = drop_nth i (map f xs)"
  by (simp add: drop_nth_def take_map drop_map)

lemma distinct_drop_nth: "distinct xs \<Longrightarrow> distinct (drop_nth i xs)"
  by (auto simp: drop_nth_def set_take_disj_set_drop_if_distinct)

lemma map_claims_update:
  "i < length ps \<Longrightarrow> map pt_claim (ps[i := (ps ! i)\<lparr>pt_phase := ph\<rparr>]) = map pt_claim ps"
  by (simp add: map_update) (metis list_update_id nth_map)

section \<open>The invariant\<close>

definition breaker_inv :: "nat \<Rightarrow> nat \<Rightarrow> nat \<Rightarrow> nat \<Rightarrow> nat set \<Rightarrow> nat set \<Rightarrow> breaker \<Rightarrow> bool" where
  "breaker_inv window budget n t seen probed b \<longleftrightarrow>
     br_window b = window \<and> br_generation b \<le> n \<and>
     (\<forall>s \<in> seen \<union> probed. s \<le> br_generation b) \<and>
     (br_prober b \<noteq> None \<longrightarrow> open_until b \<noteq> None \<and> (\<forall>s \<in> seen. s < br_generation b)) \<and>
     (\<forall>c. br_prober b = Some c \<longrightarrow> c \<le> br_claims b) \<and>
     (\<forall>u. open_until b = Some u \<longrightarrow> u \<le> t + window + budget)"

definition probed_by :: "prober_task list \<Rightarrow> nat set" where
  "probed_by ps = {s. \<exists>p \<in> set ps. pt_phase p = Probing s}"

definition sleeps_until :: "prober_task list \<Rightarrow> nat \<Rightarrow> bool" where
  "sleeps_until ps d \<longleftrightarrow> (\<forall>p \<in> set ps. \<forall>wake. pt_phase p = Sleeping wake \<longrightarrow> wake \<le> d)"

definition guard_inv :: "nat \<Rightarrow> nat \<Rightarrow> nat \<Rightarrow> nat \<Rightarrow> redis_guard \<Rightarrow> bool" where
  "guard_inv window budget n t g \<longleftrightarrow>
     breaker_inv window budget n t (set (rg_commands g)) (probed_by (rg_probers g)) (rg_breaker g) \<and>
     distinct (map pt_claim (rg_probers g)) \<and> (\<forall>p \<in> set (rg_probers g). pt_claim p \<le> br_claims (rg_breaker g)) \<and>
     sleeps_until (rg_probers g) (t + window)"

lemma breaker_inv_mono:
  "breaker_inv window budget n t S P b \<Longrightarrow> S' \<subseteq> S \<Longrightarrow> P' \<subseteq> P \<Longrightarrow> n \<le> n' \<Longrightarrow> t \<le> t' \<Longrightarrow> breaker_inv window budget n' t' S' P' b"
  unfolding breaker_inv_def by (auto 0 3)

lemma breaker_inv_admit:
  "breaker_inv window budget n t S P b \<Longrightarrow> admit t b = (b', r) \<Longrightarrow>
     breaker_inv window budget n t (S \<union> set_option r) P b' \<and> br_claims b' = br_claims b"
  by (auto simp: breaker_inv_def breaker_defs split: option.splits if_splits)

lemma breaker_inv_open:
  assumes "breaker_inv window budget n t S P b" and "Suc n < u64_modulus_br"
  shows "breaker_inv window budget (Suc n) t S P (open_breaker t b) \<and> br_generation (open_breaker t b) = Suc (br_generation b)"
proof -
  from assms have "(br_generation b + 1) mod u64_modulus_br = Suc (br_generation b)" by (simp add: breaker_inv_def)
  with assms show ?thesis
    by (auto simp: breaker_inv_def open_breaker_def intro: le_SucI le_imp_less_Suc less_imp_le)
qed

lemma probed_by_simps:
  "probed_by (ps @ [\<lparr>pt_claim = c, pt_phase = Starting\<rparr>]) = probed_by ps"
  "probed_by (drop_nth i ps) \<subseteq> probed_by ps"
  "probed_by (ps[i := p\<lparr>pt_phase := Sleeping w\<rparr>]) \<subseteq> probed_by ps"
  "probed_by (ps[i := p\<lparr>pt_phase := Probing s\<rparr>]) \<subseteq> insert s (probed_by ps)"
  using set_drop_nth [of i ps] by (auto simp: probed_by_def dest!: set_update_subset_insert [THEN subsetD])

lemma sleeps_until_simps:
  "sleeps_until ps d \<Longrightarrow> sleeps_until (ps @ [\<lparr>pt_claim = c, pt_phase = Starting\<rparr>]) d"
  "sleeps_until ps d \<Longrightarrow> sleeps_until (drop_nth i ps) d"
  "sleeps_until ps d \<Longrightarrow> w \<le> d \<Longrightarrow> sleeps_until (ps[i := p\<lparr>pt_phase := Sleeping w\<rparr>]) d"
  "sleeps_until ps d \<Longrightarrow> sleeps_until (ps[i := p\<lparr>pt_phase := Probing s\<rparr>]) d"
  "sleeps_until ps d \<Longrightarrow> d \<le> d' \<Longrightarrow> sleeps_until ps d'"
  using set_drop_nth [of i ps]
  by (auto simp: sleeps_until_def dest!: set_update_subset_insert [THEN subsetD])

lemma inv_trip:
  assumes "guard_inv window budget n t g" and "Suc n < u64_modulus_br"
  shows "guard_inv window budget (Suc n) t (trip t g)"
proof -
  let ?b = "open_breaker t (rg_breaker g)"
  have inv: "breaker_inv window budget n t (set (rg_commands g)) (probed_by (rg_probers g)) (rg_breaker g)"
    using assms(1) unfolding guard_inv_def by blast
  note b = breaker_inv_open [OF inv assms(2), THEN conjunct1] breaker_inv_open [OF inv assms(2), THEN conjunct2]
  have claims: "br_claims ?b = br_claims (rg_breaker g)" and opened: "open_until ?b \<noteq> None"
    by (simp_all add: open_breaker_def)
  have seen: "\<forall>s \<in> set (rg_commands g). s \<le> br_generation (rg_breaker g)" using inv unfolding breaker_inv_def by blast
  from b seen opened have b2: "breaker_inv window budget (Suc n) t (set (rg_commands g)) (probed_by (rg_probers g))
      (?b\<lparr>br_claims := br_claims ?b + 1, br_prober := Some (br_claims ?b + 1)\<rparr>)"
    unfolding breaker_inv_def by auto
  have ps: "distinct (map pt_claim (rg_probers g))" "\<forall>p \<in> set (rg_probers g). pt_claim p \<le> br_claims ?b"
      "sleeps_until (rg_probers g) (t + window)"
    using assms(1) claims unfolding guard_inv_def by auto
  have "guard_inv window budget (Suc n) t (g\<lparr>rg_breaker := ?b\<rparr>)" using b(1) ps by (simp add: guard_inv_def)
  moreover have "guard_inv window budget (Suc n) t
      (g\<lparr>rg_breaker := ?b\<lparr>br_claims := br_claims ?b + 1, br_prober := Some (br_claims ?b + 1)\<rparr>,
         rg_probers := rg_probers g @ [\<lparr>pt_claim = br_claims ?b + 1, pt_phase = Starting\<rparr>]\<rparr>)"
    using b2 ps sleeps_until_simps(1) by (auto simp: guard_inv_def probed_by_simps)
  ultimately show ?thesis by (simp add: trip_def Let_def claim_prober_def)
qed

lemma guard_update_swap: "g\<lparr>rg_breaker := b, rg_commands := cs\<rparr> = g\<lparr>rg_commands := cs, rg_breaker := b\<rparr>"
  by (cases g) simp

lemma inv_drop_command:
  "guard_inv window budget n t g \<Longrightarrow> guard_inv window budget n t (g\<lparr>rg_commands := drop_nth i (rg_commands g)\<rparr>)"
  unfolding guard_inv_def by (auto intro: breaker_inv_mono [OF _ set_drop_nth])

lemma inv_drop_prober:
  "guard_inv window budget n t g \<Longrightarrow> guard_inv window budget n t (g\<lparr>rg_probers := drop_nth i (rg_probers g)\<rparr>)"
  using set_drop_nth [of i "rg_probers g"] unfolding guard_inv_def
  by (auto simp: map_drop_nth intro: breaker_inv_mono [OF _ _ probed_by_simps(2)] distinct_drop_nth sleeps_until_simps(2))

lemma inv_close:
  assumes "guard_inv window budget n t g"
  shows "s \<in> set (rg_commands g) \<Longrightarrow> guard_inv window budget n t (g\<lparr>rg_breaker := close_unless_reopened s (rg_breaker g)\<rparr>)"
    and "guard_inv window budget n t (g\<lparr>rg_breaker := fst (close_from_prober c s (rg_breaker g))\<rparr>)"
  using assms by (auto simp: guard_inv_def breaker_inv_def breaker_defs)

lemma inv_round:
  assumes "guard_inv window budget n t g" and "i < length (rg_probers g)"
  shows "guard_inv window budget n t (prober_round budget t i g)"
proof (cases "br_prober (rg_breaker g) = Some (pt_claim (rg_probers g ! i))")
  case True
  let ?p = "(rg_probers g ! i)\<lparr>pt_phase := Sleeping (t + br_window (rg_breaker g))\<rparr>"
  have "map pt_claim ((rg_probers g)[i := ?p]) = map pt_claim (rg_probers g)"
    using assms(2) by (rule map_claims_update)
  then have d: "distinct (map pt_claim ((rg_probers g)[i := ?p]))" "\<forall>p \<in> set ((rg_probers g)[i := ?p]). pt_claim p \<le> br_claims (rg_breaker g)"
    using assms(1) unfolding guard_inv_def by (auto dest!: set_update_subset_insert [THEN subsetD] simp: assms(2))
  have "breaker_inv window budget n t (set (rg_commands g)) (probed_by ((rg_probers g)[i := ?p]))
      ((rg_breaker g)\<lparr>open_until := Some (t + (br_window (rg_breaker g) + budget))\<rparr>)"
    using assms(1) probed_by_simps(3) unfolding guard_inv_def breaker_inv_def by fastforce
  moreover have "sleeps_until ((rg_probers g)[i := ?p]) (t + window)"
    by (rule sleeps_until_simps(3)) (use assms(1) in \<open>auto simp: guard_inv_def breaker_inv_def\<close>)
  ultimately show ?thesis using True d by (simp add: prober_round_def hold_off_def guard_inv_def)
next
  case False
  then show ?thesis using inv_drop_prober [OF assms(1)] by (simp add: prober_round_def hold_off_def)
qed

lemma inv_step:
  assumes "guard_inv window budget n t g" and "Suc n < u64_modulus_br"
  shows "guard_inv window budget (Suc n) t (guard_step budget t ev g)"
proof -
  have mono: "guard_inv window budget n t g' \<Longrightarrow> guard_inv window budget (Suc n) t g'" for g'
    unfolding guard_inv_def using breaker_inv_mono by (meson le_SucI order_refl)
  show ?thesis
  proof (cases ev)
    case Registered
    then show ?thesis using mono [OF assms(1)] by (simp add: guard_inv_def)
  next
    case Call
    obtain b r where ad: "admit t (rg_breaker g) = (b, r)" by fastforce
    from breaker_inv_admit [OF _ ad] assms(1) have "breaker_inv window budget n t (set (rg_commands g) \<union> set_option r) (probed_by (rg_probers g)) b"
        "br_claims b = br_claims (rg_breaker g)"
      unfolding guard_inv_def by blast+
    with assms(1) Call ad show ?thesis
      by (intro mono) (auto simp: guard_inv_def guard_call_def split: option.splits)
  next
    case (CommandEnds i r)
    show ?thesis
    proof (cases "i < length (rg_commands g)")
      case True
      let ?g = "g\<lparr>rg_commands := drop_nth i (rg_commands g)\<rparr>"
      have "guard_inv window budget n t (g\<lparr>rg_breaker := close_unless_reopened (rg_commands g ! i) (rg_breaker g)\<rparr>)"
        by (rule inv_close(1) [OF assms(1)]) (use True in simp)
      from mono [OF inv_drop_command [OF this, of i]] True inv_trip [OF inv_drop_command [OF assms(1)] assms(2)]
        mono [OF inv_drop_command [OF assms(1)]] CommandEnds
      show ?thesis by (cases r) (simp_all add: guard_result_def Let_def guard_update_swap)
    qed (use CommandEnds mono [OF assms(1)] in \<open>simp add: guard_result_def\<close>)
  next
    case (ProberStarts i)
    then show ?thesis using mono [OF assms(1)] mono [OF inv_round [OF assms(1)]] by simp
  next
    case (ProbeBegins i)
    have "guard_inv window budget n t (probe_starts t i g)" if i: "i < length (rg_probers g)"
    proof -
      let ?p = "(rg_probers g ! i)\<lparr>pt_phase := Probing (br_generation (rg_breaker g))\<rparr>"
      have "map pt_claim ((rg_probers g)[i := ?p]) = map pt_claim (rg_probers g)" using i by (rule map_claims_update)
      then have "distinct (map pt_claim ((rg_probers g)[i := ?p]))" "\<forall>p \<in> set ((rg_probers g)[i := ?p]). pt_claim p \<le> br_claims (rg_breaker g)"
        using assms(1) unfolding guard_inv_def by (auto dest!: set_update_subset_insert [THEN subsetD] simp: i)
      moreover have "breaker_inv window budget n t (set (rg_commands g)) (probed_by ((rg_probers g)[i := ?p])) (rg_breaker g)"
        using assms(1) probed_by_simps(4) unfolding guard_inv_def breaker_inv_def by fastforce
      moreover have "sleeps_until ((rg_probers g)[i := ?p]) (t + window)"
        by (rule sleeps_until_simps(4)) (use assms(1) in \<open>simp add: guard_inv_def\<close>)
      ultimately show ?thesis by (simp add: probe_starts_def guard_inv_def)
    qed
    with ProbeBegins mono mono [OF assms(1)] show ?thesis by (auto split: prober_phase.splits)
  next
    case (ProbeEnds i answered)
    have "guard_inv window budget n t (probe_ends budget t i answered seen g)" if i: "i < length (rg_probers g)" for seen
      using inv_close(2) [OF assms(1), of "pt_claim (rg_probers g ! i)" seen] inv_round [OF assms(1) i] i
        inv_drop_prober [of window budget n t "g\<lparr>rg_breaker := fst (close_from_prober (pt_claim (rg_probers g ! i)) seen (rg_breaker g))\<rparr>" i]
        inv_round [of window budget n t "g\<lparr>rg_breaker := fst (close_from_prober (pt_claim (rg_probers g ! i)) seen (rg_breaker g))\<rparr>" i]
      by (auto simp: probe_ends_def split: prod.splits bool.splits)
    with ProbeEnds mono mono [OF assms(1)] show ?thesis by (auto split: prober_phase.splits)
  next
    case (ProberDropped i)
    then show ?thesis using mono [OF assms(1)] mono [OF inv_drop_prober [OF assms(1)]] by simp
  qed
qed

lemma guard_inv_later: "guard_inv window budget n t g \<Longrightarrow> t \<le> t' \<Longrightarrow> guard_inv window budget n t' g"
  unfolding guard_inv_def by (auto intro: breaker_inv_mono sleeps_until_simps(5))

lemma reach_inv: "guard_reach window budget n t g \<Longrightarrow> n < u64_modulus_br \<Longrightarrow> guard_inv window budget n t g"
proof (induction rule: guard_reach.induct)
  case (start t)
  show ?case by (simp add: guard_inv_def guard_new_def breaker_new_def breaker_inv_def probed_by_def sleeps_until_def)
next
  case (step n t g t' ev)
  have "guard_inv window budget n t' g" by (rule guard_inv_later [OF step.IH step.hyps(2)]) (use step.prems in simp)
  then show ?case by (rule inv_step) (use step.prems in simp)
qed


section \<open>Callers are shielded\<close>

text \<open>\<open>sealed d gen g\<close>: nobody gets through before \<open>d\<close>, and no success of a command in flight, nor a probe
  begun before generation \<open>gen\<close>, can change that.\<close>

definition sealed :: "nat \<Rightarrow> nat \<Rightarrow> redis_guard \<Rightarrow> bool" where
  "sealed d gen g \<longleftrightarrow>
     (\<exists>u. open_until (rg_breaker g) = Some u \<and> d \<le> u) \<and> gen \<le> br_generation (rg_breaker g) \<and>
     (\<forall>s \<in> set (rg_commands g). s < br_generation (rg_breaker g)) \<and> (\<forall>s \<in> probed_by (rg_probers g). s < gen)"

lemma sealed_call: "sealed d gen g \<Longrightarrow> t < d \<Longrightarrow> guard_call t g = (g, False) \<and> is_open t (rg_breaker g)"
  by (auto simp: sealed_def guard_call_def admit_def is_open_def)

lemma sealed_mono:
  "sealed d gen g \<Longrightarrow> set cs \<subseteq> set (rg_commands g) \<Longrightarrow> probed_by ps \<subseteq> probed_by (rg_probers g) \<Longrightarrow>
     sealed d gen (g\<lparr>rg_commands := cs, rg_probers := ps\<rparr>)"
  unfolding sealed_def by auto

lemma sealed_drop_command: "sealed d gen g \<Longrightarrow> sealed d gen (g\<lparr>rg_commands := drop_nth i (rg_commands g)\<rparr>)"
  using set_drop_nth [of i "rg_commands g"] unfolding sealed_def by auto

lemma sealed_drop_prober: "sealed d gen g \<Longrightarrow> sealed d gen (g\<lparr>rg_probers := drop_nth i (rg_probers g)\<rparr>)"
  using probed_by_simps(2) [of i "rg_probers g"] unfolding sealed_def by auto

lemma sealed_trip:
  assumes "sealed d gen g" and "d \<le> t + br_window (rg_breaker g)" and "br_generation (rg_breaker g) + 1 < u64_modulus_br"
  shows "sealed d gen (trip t g)"
proof -
  have "sealed d gen (g\<lparr>rg_breaker := open_breaker t (rg_breaker g)\<rparr>)"
    using assms by (auto simp: sealed_def open_breaker_def intro: less_SucI)
  then show ?thesis by (auto simp: trip_def Let_def claim_prober_def sealed_def probed_by_simps)
qed

lemma sealed_round:
  assumes "sealed d gen g" and "d \<le> t + br_window (rg_breaker g)"
  shows "sealed d gen (prober_round budget t i g)"
proof (cases "br_prober (rg_breaker g) = Some (pt_claim (rg_probers g ! i))")
  case True
  have "probed_by ((rg_probers g)[i := (rg_probers g ! i)\<lparr>pt_phase := Sleeping (t + br_window (rg_breaker g))\<rparr>]) \<subseteq> probed_by (rg_probers g)"
    by (rule probed_by_simps(3))
  with True assms show ?thesis by (auto simp: prober_round_def hold_off_def sealed_def)
next
  case False
  then show ?thesis using sealed_drop_prober [OF assms(1)] by (simp add: prober_round_def hold_off_def)
qed

lemma probed_nth: "i < length ps \<Longrightarrow> pt_phase (ps ! i) = Probing s \<Longrightarrow> s \<in> probed_by ps"
  by (auto simp: probed_by_def)

lemma sealed_step:
  assumes "sealed d gen g" and "t < d" and "d \<le> t + br_window (rg_breaker g)"
    and "br_generation (rg_breaker g) + 1 < u64_modulus_br" and "\<nexists>i. ev = ProbeBegins i"
  shows "sealed d gen (guard_step budget t ev g)"
proof (cases ev)
  case Call
  then show ?thesis using sealed_call [OF assms(1,2)] assms(1) by simp
next
  case (CommandEnds i r)
  show ?thesis
  proof (cases "i < length (rg_commands g)")
    case True
    with assms(1) have "close_unless_reopened (rg_commands g ! i) (rg_breaker g) = rg_breaker g"
      by (auto simp: sealed_def close_unless_reopened_def dest: nth_mem)
    with True CommandEnds sealed_drop_command [OF assms(1)] sealed_trip [OF sealed_drop_command [OF assms(1)]] assms(3,4)
    show ?thesis by (cases r) (simp_all add: guard_result_def Let_def)
  qed (use CommandEnds assms(1) in \<open>simp add: guard_result_def\<close>)
next
  case (ProbeEnds i answered)
  have "probe_ends budget t i answered s g = prober_round budget t i g"
    if "i < length (rg_probers g)" "pt_phase (rg_probers g ! i) = Probing s" for s
  proof -
    have "br_generation (rg_breaker g) \<noteq> s" using probed_nth [OF that] assms(1) by (auto simp: sealed_def)
    then show ?thesis by (simp add: probe_ends_def close_from_prober_def)
  qed
  with ProbeEnds assms(1) sealed_round [OF assms(1,3)] show ?thesis by (auto split: prober_phase.splits)
next
  case (ProberStarts i)
  with assms(1) sealed_round [OF assms(1,3)] show ?thesis by simp
next
  case (ProberDropped i)
  with assms(1) sealed_drop_prober [OF assms(1)] show ?thesis by simp
qed (use assms in \<open>auto simp: sealed_def\<close>)

lemma guard_window [simp]: "br_window (rg_breaker (guard_step budget t ev g)) = br_window (rg_breaker g)"
  by (cases ev)
    (auto simp: guard_call_def guard_result_def trip_def prober_round_def probe_starts_def probe_ends_def breaker_defs Let_def
      split: option.splits command_end.splits prober_phase.splits)

lemma guard_generation:
  "br_generation (rg_breaker (guard_step budget t ev g)) \<le> Suc (br_generation (rg_breaker g))"
  by (cases ev)
    (auto simp: guard_call_def guard_result_def trip_def prober_round_def probe_starts_def probe_ends_def breaker_defs Let_def
      split: option.splits command_end.splits prober_phase.splits)

lemma sealed_run:
  assumes "sealed d gen g" and "br_generation (rg_breaker g) + length evs + 1 < u64_modulus_br"
    and "\<forall>(t, ev) \<in> set evs. t < d \<and> d \<le> t + br_window (rg_breaker g) \<and> (\<nexists>i. ev = ProbeBegins i)"
  shows "sealed d gen (guard_run budget evs g)"
  using assms
proof (induction evs arbitrary: g)
  case (Cons te evs)
  obtain t ev where te: "te = (t, ev)" by fastforce
  have "sealed d gen (guard_step budget t ev g)"
    by (rule sealed_step) (use Cons.prems te in auto)
  moreover have "br_generation (rg_breaker (guard_step budget t ev g)) + length evs + 1 < u64_modulus_br"
    using Cons.prems(2) guard_generation [of budget t ev g] by simp
  ultimately have "sealed d gen (guard_run budget evs (guard_step budget t ev g))"
    by (rule Cons.IH) (use Cons.prems(3) in simp)
  then show ?case unfolding te by simp
qed simp

lemma sealed_by_failure:
  assumes "guard_inv window budget n t g" and "i < length (rg_commands g)" and "Suc n < u64_modulus_br"
  shows "sealed (t + window) (Suc (br_generation (rg_breaker g))) (guard_result t i Unreachable g)"
proof -
  let ?g1 = "g\<lparr>rg_commands := drop_nth i (rg_commands g)\<rparr>"
  have inv: "breaker_inv window budget n t (set (rg_commands g)) (probed_by (rg_probers g)) (rg_breaker g)"
    using assms(1) by (simp add: guard_inv_def)
  from breaker_inv_open [OF inv assms(3)] have gen: "br_generation (open_breaker t (rg_breaker g)) = Suc (br_generation (rg_breaker g))" ..
  from inv have seen: "\<forall>s \<in> set (rg_commands g) \<union> probed_by (rg_probers g). s \<le> br_generation (rg_breaker g)"
    and w: "br_window (rg_breaker g) = window" by (simp_all add: breaker_inv_def)
  have "sealed (t + window) (Suc (br_generation (rg_breaker g))) (?g1\<lparr>rg_breaker := open_breaker t (rg_breaker g)\<rparr>)"
    using seen set_drop_nth [of i "rg_commands g"] gen w
    by (auto simp: sealed_def open_breaker_def le_imp_less_Suc)
  then have "sealed (t + window) (Suc (br_generation (rg_breaker g))) (trip t ?g1)"
    by (auto simp: trip_def Let_def claim_prober_def sealed_def probed_by_simps)
  with assms(2) show ?thesis by (simp add: guard_result_def Let_def)
qed


section \<open>The breaker never latches\<close>



text \<open>A run: two commands in flight when the server goes dark.\<close>

definition dark_start :: redis_guard where
  "dark_start = guard_run 5000 [(0, Registered), (0, Call), (1000, Call)] (guard_new BREAKER_WINDOW)"

lemma dark_start_reached: "guard_reach BREAKER_WINDOW 5000 3 1000 dark_start"
proof -
  have "guard_reach BREAKER_WINDOW 5000 1 0 (guard_step 5000 0 Registered (guard_new BREAKER_WINDOW))"
    using guard_reach.step [OF guard_reach.start [of BREAKER_WINDOW 5000 0] order_refl, of Registered]
    by (simp del: guard_step.simps)
  from guard_reach.step [OF guard_reach.step [OF this, of 0 Call], of 1000 Call]
  show ?thesis by (simp add: dark_start_def numeral_eq_Suc)
qed

lemmas run_defs = guard_call_def guard_result_def trip_def prober_round_def probe_starts_def probe_ends_def breaker_defs
  guard_new_def breaker_new_def drop_nth_def BREAKER_WINDOW_def u64_modulus_br_def

lemma dark_start_eq:
  "dark_start =
     \<lparr>rg_breaker = breaker_new BREAKER_WINDOW, rg_registered = True, rg_commands = [0, 0], rg_probers = []\<rparr>"
  by (simp add: dark_start_def run_defs)



text \<open>The prober's claim covers its sleep and the probe that follows only as long as no command fails in
  between: a failure that lands late moves the deadline back to one window after itself, and a caller
  arriving then takes the claim and pays the budget while the probe is still on its way.\<close>

lemma late_failure_exposes_caller:
  "let g = guard_run 5000
             [(5000, CommandEnds 0 Unreachable), (5000, ProberStarts 0), (6000, CommandEnds 0 Unreachable), (35000, ProbeBegins 0)]
             dark_start
   in open_until (rg_breaker g) = Some 36000 \<and> pt_phase (rg_probers g ! 0) = Probing 2 \<and>
      snd (guard_call 36000 g) \<and> br_prober (rg_breaker (fst (guard_call 36000 g))) = None"
  by (simp add: Let_def dark_start_eq run_defs)

end
