(* ===== verification/Bytes.thy ===== *)
theory Bytes
  imports Prelude
begin

text \<open>
  Byte strings as Rust slices use them: positions, subranges, the lossy decoding of UTF-8 of
  \<^verbatim>\<open>String::from_utf8_lossy\<close> and the whitespace that \<^verbatim>\<open>str::trim\<close> removes.
\<close>

type_synonym byte = "8 word"
type_synonym bytes = "8 word list"

definition bytes_of :: "string \<Rightarrow> bytes" where
  "bytes_of s = map of_char s"

definition ascii :: "char \<Rightarrow> byte" where "ascii c = of_char c"

fun position :: "('a \<Rightarrow> bool) \<Rightarrow> 'a list \<Rightarrow> nat option" where
  "position P [] = None"
| "position P (x # xs) = (if P x then Some 0 else map_option Suc (position P xs))"

lemma position_None: "position P xs = None \<longleftrightarrow> (\<forall>x \<in> set xs. \<not> P x)"
  by (induction xs) auto

lemma position_Some:
  "position P xs = Some i \<longleftrightarrow> i < length xs \<and> P (xs ! i) \<and> (\<forall>j < i. \<not> P (xs ! j))"
proof (induction xs arbitrary: i)
  case (Cons x xs)
  show ?case
  proof (cases i)
    case (Suc k)
    with Cons.IH [of k] show ?thesis by (auto simp: nth_Cons split: nat.splits)
  qed auto
qed simp

lemma position_SomeD:
  assumes "position P xs = Some i"
  shows "i < length xs" "P (xs ! i)" "\<And>j. j < i \<Longrightarrow> \<not> P (xs ! j)"
    "xs = take i xs @ xs ! i # drop (Suc i) xs" "\<forall>x \<in> set (take i xs). \<not> P x"
  using assms by (auto simp: position_Some id_take_nth_drop [symmetric] in_set_conv_nth)

definition subrange :: "'a list \<Rightarrow> nat \<Rightarrow> nat \<Rightarrow> 'a list" where
  "subrange xs i j = take (j - i) (drop i xs)"

fun strip_prefix_bytes :: "bytes \<Rightarrow> bytes \<Rightarrow> bytes option" where
  "strip_prefix_bytes [] bs = Some bs"
| "strip_prefix_bytes (p # ps) [] = None"
| "strip_prefix_bytes (p # ps) (b # bs) = (if p = b then strip_prefix_bytes ps bs else None)"

lemma strip_prefix_bytes_Some: "strip_prefix_bytes ps bs = Some r \<longleftrightarrow> bs = ps @ r"
  by (induction ps bs rule: strip_prefix_bytes.induct) auto

section \<open>UTF-8\<close>

text \<open>The second byte a first byte allows, and the number of bytes of its sequence.\<close>

definition utf8_width :: "nat \<Rightarrow> nat" where
  "utf8_width b =
     (if b < 128 then 1 else if 194 \<le> b \<and> b < 224 then 2 else if 224 \<le> b \<and> b < 240 then 3
      else if 240 \<le> b \<and> b < 245 then 4 else 0)"

definition utf8_second :: "nat \<Rightarrow> nat \<Rightarrow> bool" where
  "utf8_second b c \<longleftrightarrow>
     (if b = 224 then 160 \<le> c \<and> c < 192 else if b = 237 then 128 \<le> c \<and> c < 160
      else if b = 240 then 144 \<le> c \<and> c < 192 else if b = 244 then 128 \<le> c \<and> c < 144 else 128 \<le> c \<and> c < 192)"

definition utf8_cont :: "nat \<Rightarrow> bool" where "utf8_cont c \<longleftrightarrow> 128 \<le> c \<and> c < 192"

definition REPLACEMENT_CHAR :: nat where "REPLACEMENT_CHAR = 65533"

text \<open>One character or one invalid sequence off the front: the code point (none when invalid) and the bytes
  it takes. An invalid sequence is the longest part that could have begun a character.\<close>

definition utf8_char :: "nat list \<Rightarrow> nat option \<times> nat" where
  "utf8_char bs =
     (case bs of
        [] \<Rightarrow> (None, 0)
      | b # rest \<Rightarrow>
          (let w = utf8_width b;
               c1 = (if rest \<noteq> [] then rest ! 0 else 0);
               c2 = (if 1 < length rest then rest ! 1 else 0);
               c3 = (if 2 < length rest then rest ! 2 else 0)
           in if w = 1 then (Some b, 1)
              else if w = 0 then (None, 1)
              else if \<not> utf8_second b c1 then (None, 1)
              else if w = 2 then (Some ((b - 192) * 64 + (c1 - 128)), 2)
              else if \<not> utf8_cont c2 then (None, 2)
              else if w = 3 then (Some ((b - 224) * 4096 + (c1 - 128) * 64 + (c2 - 128)), 3)
              else if \<not> utf8_cont c3 then (None, 3)
              else (Some ((b - 240) * 262144 + (c1 - 128) * 4096 + (c2 - 128) * 64 + (c3 - 128)), 4)))"

lemma utf8_char_takes: "(c, n) = utf8_char bs \<Longrightarrow> bs \<noteq> [] \<Longrightarrow> 0 < n"
  by (cases bs) (auto simp: utf8_char_def Let_def split: if_splits)

function utf8_lossy_nats :: "nat list \<Rightarrow> nat list" where
  "utf8_lossy_nats bs =
     (if bs = [] then []
      else (case utf8_char bs of (c, n) \<Rightarrow>
              (case c of Some cp \<Rightarrow> cp | None \<Rightarrow> REPLACEMENT_CHAR) # utf8_lossy_nats (drop n bs)))"
  by pat_completeness auto
termination by (relation "measure length") (auto dest: utf8_char_takes)

declare utf8_lossy_nats.simps [simp del]

definition from_utf8_lossy :: "bytes \<Rightarrow> nat list" where
  "from_utf8_lossy bs = utf8_lossy_nats (map unat bs)"

text \<open>Text is a list of code points; \<^verbatim>\<open>char::is_whitespace\<close> is the property \<^verbatim>\<open>White_Space\<close>.\<close>

definition unicode_space :: "nat \<Rightarrow> bool" where
  "unicode_space c \<longleftrightarrow>
     9 \<le> c \<and> c \<le> 13 \<or> c \<in> {32, 133, 160, 5760, 8232, 8233, 8239, 8287, 12288} \<or> 8192 \<le> c \<and> c \<le> 8202"

definition trim_text :: "nat list \<Rightarrow> nat list" where
  "trim_text t = rev (dropWhile unicode_space (rev (dropWhile unicode_space t)))"

definition text_of :: "string \<Rightarrow> nat list" where
  "text_of s = map of_char s"

end
