(* ===== verification/Sse.thy ===== *)
theory Sse
  imports Bytes
begin

text \<open>
  Server-sent events, \<^verbatim>\<open>crates/aisix-gateway/src/sse.rs\<close>: cutting a byte stream that arrives in
  chunks into frames, and reading the fields of a frame. The definitions work on offsets into a buffer, as
  the code does; the reference they are compared with reads the stream byte by byte.
\<close>

section \<open>Framing\<close>

definition CR :: byte where "CR = 13"
definition LF :: byte where "LF = 10"
definition UTF8_BOM :: bytes where "UTF8_BOM = [239, 187, 191]"
definition MAX_SSE_FRAME_BYTES :: nat where "MAX_SSE_FRAME_BYTES = 16 * 1024 * 1024"

definition eol :: "byte \<Rightarrow> bool" where "eol b \<longleftrightarrow> b = CR \<or> b = LF"

definition byte_at :: "bytes \<Rightarrow> nat \<Rightarrow> byte option" where
  "byte_at buf i = (if i < length buf then Some (buf ! i) else None)"

definition term_len :: "bytes \<Rightarrow> nat \<Rightarrow> nat" where
  "term_len buf at = (if buf ! at = CR \<and> byte_at buf (at + 1) = Some LF then 2 else 1)"

function scan_loop :: "bytes \<Rightarrow> nat \<Rightarrow> bool \<Rightarrow> (nat \<times> nat) option" where
  "scan_loop buf i at_line_start =
     (case position eol (drop i buf) of
        None \<Rightarrow> None
      | Some off \<Rightarrow>
          (let at = i + off; start = (if off > 0 then False else at_line_start); len = term_len buf at
           in if start then Some (at, at + len) else scan_loop buf (at + len) True))"
  by pat_completeness auto
termination
  by (relation "measure (\<lambda>(buf, i, b). length buf - i)")
    (auto simp: term_len_def position_Some)

declare scan_loop.simps [simp del]

definition scan :: "bytes \<Rightarrow> nat \<Rightarrow> (nat \<times> nat) option" where
  "scan buf from =
     (if from = 0 then scan_loop buf from True
      else if buf ! (from - 1) = LF then scan_loop buf from True
      else if buf ! (from - 1) = CR
      then scan_loop buf (if byte_at buf from = Some LF then from + 1 else from) True
      else scan_loop buf from False)"

definition find_frame_end :: "bytes \<Rightarrow> nat option" where
  "find_frame_end buf = map_option snd (scan buf 0)"

definition find_frame_end_from :: "bytes \<Rightarrow> nat \<Rightarrow> nat option" where
  "find_frame_end_from buf from = map_option snd (scan buf from)"

definition split_frame_end :: "bytes \<Rightarrow> (nat \<times> nat) option" where
  "split_frame_end buf =
     (case scan buf 0 of
        None \<Rightarrow> None
      | Some (blank, end_pos) \<Rightarrow>
          Some (if blank \<ge> 2 \<and> subrange buf (blank - 2) blank = [CR, LF] then blank - 2 else blank - 1, end_pos))"

record sse_frame_splitter =
  sp_buf :: bytes
  sp_scanned :: nat
  sp_after_cr :: bool
  max_frame_bytes :: nat

definition splitter_new :: "nat \<Rightarrow> sse_frame_splitter" where
  "splitter_new max_bytes = \<lparr>sp_buf = [], sp_scanned = 0, sp_after_cr = False, max_frame_bytes = max_bytes\<rparr>"

definition splitter_push :: "bytes \<Rightarrow> sse_frame_splitter \<Rightarrow> sse_frame_splitter" where
  "splitter_push chunk sp = sp\<lparr>sp_buf := sp_buf sp @ chunk\<rparr>"

text \<open>The error carries the bound that was exceeded.\<close>

definition next_frame :: "sse_frame_splitter \<Rightarrow> sse_frame_splitter \<times> (nat + bytes option)" where
  "next_frame sp =
     (let sp1 = (if sp_after_cr sp \<and> sp_buf sp \<noteq> []
                 then (let sp' = sp\<lparr>sp_after_cr := False\<rparr>
                       in if sp_buf sp ! 0 = LF \<and> sp_scanned sp = 0 then sp'\<lparr>sp_scanned := 1\<rparr> else sp')
                 else sp)
      in case scan (sp_buf sp1) (sp_scanned sp1) of
           Some (_, end_pos) \<Rightarrow>
             (let frame = take end_pos (sp_buf sp1); rest = drop end_pos (sp_buf sp1)
              in (sp1\<lparr>sp_buf := rest, sp_scanned := 0,
                      sp_after_cr := (rest = [] \<and> frame \<noteq> [] \<and> last frame = CR)\<rparr>, Inr (Some frame)))
         | None \<Rightarrow>
             (let sp2 = sp1\<lparr>sp_scanned := length (sp_buf sp1)\<rparr>
              in if length (sp_buf sp1) > max_frame_bytes sp1 then (sp2, Inl (max_frame_bytes sp1))
                 else (sp2, Inr None)))"

definition take_rest :: "sse_frame_splitter \<Rightarrow> sse_frame_splitter \<times> bytes" where
  "take_rest sp = (sp\<lparr>sp_scanned := 0, sp_after_cr := False, sp_buf := []\<rparr>, sp_buf sp)"

section \<open>Fields\<close>

record sse_line =
  line_start :: nat
  line_end :: nat
  term_end :: nat

function lines_from :: "bytes \<Rightarrow> nat \<Rightarrow> sse_line list" where
  "lines_from frame pos =
     (if pos \<ge> length frame then []
      else (let (end_pos, tend) =
                  (case position eol (drop pos frame) of
                     Some off \<Rightarrow> (pos + off, pos + off + term_len frame (pos + off))
                   | None \<Rightarrow> (length frame, length frame))
            in \<lparr>line_start = pos, line_end = end_pos, term_end = tend\<rparr> # lines_from frame tend))"
  by pat_completeness auto
termination
  by (relation "measure (\<lambda>(frame, pos). length frame - pos)")
    (auto simp: term_len_def position_Some split: option.splits if_splits)

declare lines_from.simps [simp del]

definition sse_lines :: "bytes \<Rightarrow> sse_line list" where
  "sse_lines frame = lines_from frame (if strip_prefix_bytes UTF8_BOM frame \<noteq> None then length UTF8_BOM else 0)"

definition parse_field :: "bytes \<Rightarrow> (bytes \<times> bytes) option" where
  "parse_field line =
     (if line = [] \<or> line ! 0 = ascii CHR '':'' then None
      else (case position (\<lambda>b. b = ascii CHR '':'') line of
              Some colon \<Rightarrow>
                (let v = drop (colon + 1) line
                 in Some (take colon line, case strip_prefix_bytes [ascii CHR '' ''] v of Some w \<Rightarrow> w | None \<Rightarrow> v))
            | None \<Rightarrow> Some (line, [])))"

definition line_content :: "bytes \<Rightarrow> sse_line \<Rightarrow> bytes" where
  "line_content frame l = subrange frame (line_start l) (line_end l)"

definition data_range :: "bytes \<Rightarrow> sse_line \<Rightarrow> (nat \<times> nat) option" where
  "data_range frame l =
     (case parse_field (line_content frame l) of
        Some (name, v) \<Rightarrow> if name = bytes_of ''data'' then Some (line_end l - length v, line_end l) else None
      | None \<Rightarrow> None)"

definition data_ranges :: "bytes \<Rightarrow> (nat \<times> nat) list" where
  "data_ranges frame = List.map_filter (data_range frame) (sse_lines frame)"

record sse_fields =
  fld_data :: "bytes option"
  fld_event :: "bytes option"
  fld_id :: "bytes option"
  fld_retry :: "nat option"

definition fields_default :: sse_fields where
  "fields_default = \<lparr>fld_data = None, fld_event = None, fld_id = None, fld_retry = None\<rparr>"

definition is_ascii_digit :: "byte \<Rightarrow> bool" where
  "is_ascii_digit b \<longleftrightarrow> 48 \<le> unat b \<and> unat b \<le> 57"

definition parse_u64 :: "bytes \<Rightarrow> nat option" where
  "parse_u64 digits =
     (let n = foldl (\<lambda>n b. n * 10 + (unat b - 48)) 0 digits in if n \<le> u64_max then Some n else None)"

definition add_field :: "bytes \<Rightarrow> bytes \<Rightarrow> sse_fields \<Rightarrow> sse_fields" where
  "add_field name v f =
     (if name = bytes_of ''data''
      then f\<lparr>fld_data := Some (case fld_data f of None \<Rightarrow> v | Some prev \<Rightarrow> prev @ [LF] @ v)\<rparr>
      else if name = bytes_of ''event'' then f\<lparr>fld_event := Some v\<rparr>
      else if name = bytes_of ''id'' \<and> 0 \<notin> set v then f\<lparr>fld_id := Some v\<rparr>
      else if name = bytes_of ''retry'' \<and> v \<noteq> [] \<and> list_all is_ascii_digit v then f\<lparr>fld_retry := parse_u64 v\<rparr>
      else f)"

definition read_line :: "bytes \<Rightarrow> sse_fields \<Rightarrow> sse_fields" where
  "read_line line f = (case parse_field line of None \<Rightarrow> f | Some (name, v) \<Rightarrow> add_field name v f)"

definition parse_frame :: "bytes \<Rightarrow> sse_fields" where
  "parse_frame frame = foldl (\<lambda>f l. read_line (line_content frame l) f) fields_default (sse_lines frame)"

section \<open>The decoder\<close>

datatype sse_event = SseData "nat list" | SseDone

definition event_of_data :: "bytes option \<Rightarrow> sse_event option" where
  "event_of_data d =
     (case d of
        None \<Rightarrow> None
      | Some bs \<Rightarrow>
          if bs = [] then None
          else (let text = from_utf8_lossy bs
                in Some (if trim_text text = text_of ''[DONE]'' then SseDone else SseData text)))"

definition decode_event :: "bytes \<Rightarrow> sse_event option" where
  "decode_event frame = event_of_data (fld_data (parse_frame frame))"

record sse_decoder =
  frames :: sse_frame_splitter
  overflow :: "nat option"

definition with_max_frame_bytes :: "nat \<Rightarrow> sse_decoder" where
  "with_max_frame_bytes max_bytes = \<lparr>frames = splitter_new max_bytes, overflow = None\<rparr>"

definition decoder_new :: sse_decoder where
  "decoder_new = with_max_frame_bytes MAX_SSE_FRAME_BYTES"


lemma scan_loop_bounds:
  "scan_loop buf i b = Some (p, e) \<Longrightarrow> i \<le> p \<and> p < length buf \<and> e = p + term_len buf p \<and> e \<le> length buf"
proof (induction buf i b rule: scan_loop.induct)
  case (1 buf i b)
  show ?case
  proof (cases "position eol (drop i buf)")
    case None
    with 1(2) show ?thesis by (simp add: scan_loop.simps)
  next
    case (Some off)
    note off = position_SomeD(1) [OF Some]
    have len: "i + off + term_len buf (i + off) \<le> length buf"
      using off by (auto simp: term_len_def byte_at_def split: if_splits)
    show ?thesis
    proof (cases "if off > 0 then False else b")
      case True
      with 1(2) Some have "p = i + off" "e = p + term_len buf p" by (auto simp: scan_loop.simps [of buf i] Let_def split: if_splits)
      with off len show ?thesis by simp
    next
      case False
      with 1(2) Some have rest: "scan_loop buf (i + off + term_len buf (i + off)) True = Some (p, e)"
        by (auto simp: scan_loop.simps [of buf i] Let_def split: if_splits)
      from 1(1) [OF Some refl refl refl] False rest show ?thesis by auto
    qed
  qed
qed

lemma scan_bounds:
  assumes "scan buf from = Some (p, e)"
  shows "from \<le> p \<and> p < length buf \<and> e = p + term_len buf p \<and> e \<le> length buf"
  using assms by (auto simp: scan_def dest!: scan_loop_bounds split: if_splits)

lemma term_len_pos [simp]: "0 < term_len buf p"
  by (simp add: term_len_def)

lemma next_frame_shrinks:
  assumes "next_frame sp = (sp', Inr (Some frame))"
  shows "length (sp_buf sp') < length (sp_buf sp)"
proof -
  have "sp_buf sp' = drop e (sp_buf sp) \<and> 0 < e \<and> e \<le> length (sp_buf sp) \<and> sp_buf sp \<noteq> []"
    if "scan (sp_buf sp) s = Some (p, e)" "sp_buf sp' = drop e (sp_buf sp)" for s p e
    using scan_bounds [OF that(1)] that(2) by auto
  with assms show ?thesis
    by (auto simp: next_frame_def Let_def split: option.splits if_splits)
qed

text \<open>The loop of \<open>feed\<close>: take frames until none is complete or one is too large.\<close>

function feed_loop :: "sse_frame_splitter \<Rightarrow> sse_event list \<Rightarrow> sse_frame_splitter \<times> sse_event list \<times> nat option" where
  "feed_loop sp events =
     (case next_frame sp of
        (sp1, Inr (Some frame)) \<Rightarrow>
          feed_loop sp1 (events @ (case decode_event frame of Some e \<Rightarrow> [e] | None \<Rightarrow> []))
      | (sp1, Inr None) \<Rightarrow> (sp1, events, None)
      | (sp1, Inl limit) \<Rightarrow> (fst (take_rest sp1), events, Some limit))"
  by pat_completeness auto
termination
  by (relation "measure (\<lambda>(sp, events). length (sp_buf sp))") (auto dest: next_frame_shrinks [OF sym])

declare feed_loop.simps [simp del]

definition feed :: "bytes \<Rightarrow> sse_decoder \<Rightarrow> sse_decoder \<times> (nat + sse_event list)" where
  "feed chunk d =
     (case overflow d of
        Some limit \<Rightarrow> (d, Inl limit)
      | None \<Rightarrow>
          (case feed_loop (splitter_push chunk (frames d)) [] of
             (sp, events, None) \<Rightarrow> (d\<lparr>frames := sp\<rparr>, Inr events)
           | (sp, events, Some limit) \<Rightarrow>
               if events = [] then (d\<lparr>frames := sp\<rparr>, Inl limit)
               else (d\<lparr>frames := sp, overflow := Some limit\<rparr>, Inr events)))"

definition finish :: "sse_decoder \<Rightarrow> sse_decoder \<times> (nat + sse_event option)" where
  "finish d =
     (case overflow d of
        Some limit \<Rightarrow> (d\<lparr>overflow := None\<rparr>, Inl limit)
      | None \<Rightarrow> (let (sp, rest) = take_rest (frames d) in (d\<lparr>frames := sp\<rparr>, Inr (decode_event rest))))"

end
