(* ===== verification/Sse_Stream.thy ===== *)
theory Sse_Stream
  imports Sse
begin

text \<open>
  What the framing and the decoder of server-sent events compute, however the stream is cut into chunks:
  a reference reads the stream byte by byte, as the standard describes it, and the decoder gives the
  reference's events; the frames handed to a relay are the stream's own bytes.
\<close>

section \<open>The reference\<close>

text \<open>The non-empty lines of the frame so far, the line being read, and whether the last byte was a \<open>CR\<close>,
  whose \<open>LF\<close> may still come. A blank line completes the frame.\<close>

record line_reader =
  lr_runs :: "bytes list"
  lr_line :: bytes
  lr_cr :: bool

abbreviation fresh_reader :: "bool \<Rightarrow> line_reader" where
  "fresh_reader c \<equiv> \<lparr>lr_runs = [], lr_line = [], lr_cr = c\<rparr>"

definition read_byte :: "byte \<Rightarrow> line_reader \<Rightarrow> line_reader \<times> bytes list list" where
  "read_byte b r =
     (if b = LF \<and> lr_cr r then (r\<lparr>lr_cr := False\<rparr>, [])
      else if eol b
      then (if lr_line r = [] then (fresh_reader (b = CR), [lr_runs r])
            else (\<lparr>lr_runs = lr_runs r @ [lr_line r], lr_line = [], lr_cr = (b = CR)\<rparr>, []))
      else (r\<lparr>lr_line := lr_line r @ [b], lr_cr := False\<rparr>, []))"

fun read_bytes :: "bytes \<Rightarrow> line_reader \<Rightarrow> line_reader \<times> bytes list list" where
  "read_bytes [] r = (r, [])"
| "read_bytes (b # bs) r =
     (let (r1, fs) = read_byte b r; (r2, fs') = read_bytes bs r1 in (r2, fs @ fs'))"

fun strip_bom :: "bytes list \<Rightarrow> bytes list" where
  "strip_bom [] = []"
| "strip_bom (l # ls) = (case strip_prefix_bytes UTF8_BOM l of Some l' \<Rightarrow> l' | None \<Rightarrow> l) # ls"

definition lines_event :: "bytes list \<Rightarrow> sse_event option" where
  "lines_event ls = event_of_data (fld_data (foldl (\<lambda>f l. read_line l f) fields_default (strip_bom ls)))"

fun events_of :: "bytes list list \<Rightarrow> sse_event list" where
  "events_of [] = []"
| "events_of (ls # lss) = (case lines_event ls of Some e \<Rightarrow> [e] | None \<Rightarrow> []) @ events_of lss"

lemma events_of_append: "events_of (xs @ ys) = events_of xs @ events_of ys"
  by (induction xs) auto

definition reference_events :: "bytes \<Rightarrow> sse_event list" where
  "reference_events stream =
     (let (r, fs) = read_bytes stream (fresh_reader False)
      in events_of (fs @ [if lr_line r = [] then lr_runs r else lr_runs r @ [lr_line r]]))"

lemma read_bytes_append:
  "read_bytes (xs @ ys) r =
     (let (r1, fs) = read_bytes xs r; (r2, fs') = read_bytes ys r1 in (r2, fs @ fs'))"
  by (induction xs arbitrary: r) (auto simp: Let_def split: prod.splits)

lemma read_bytes_appendD:
  assumes "read_bytes xs r = (r1, fs)" and "read_bytes ys r1 = (r2, fs')"
  shows "read_bytes (xs @ ys) r = (r2, fs @ fs')"
  using assms by (simp add: read_bytes_append)

lemma eol_simps [simp]: "eol CR" "eol LF" "CR \<noteq> LF" "LF \<noteq> CR"
  by (simp_all add: eol_def CR_def LF_def)

text \<open>The state after some bytes is read off the last one.\<close>

lemma read_bytes_state:
  "read_bytes bs r = (r', fs) \<Longrightarrow> bs \<noteq> [] \<Longrightarrow> (lr_cr r \<Longrightarrow> lr_line r = []) \<Longrightarrow>
     (lr_cr r' \<longleftrightarrow> last bs = CR) \<and> (lr_line r' = [] \<longleftrightarrow> eol (last bs))"
proof (induction bs arbitrary: r fs)
  case (Cons b bs)
  obtain r1 fs1 where r1: "read_byte b r = (r1, fs1)" by fastforce
  obtain fs2 where r2: "read_bytes bs r1 = (r', fs2)" using Cons.prems(1) r1 by (auto split: prod.splits)
  have one: "(lr_cr r1 \<longleftrightarrow> b = CR) \<and> (lr_line r1 = [] \<longleftrightarrow> eol b)"
    using r1 Cons.prems(3) by (auto simp: read_byte_def eol_def split: if_splits)
  show ?case
  proof (cases "bs = []")
    case True
    with one r2 show ?thesis by simp
  next
    case False
    have "lr_cr r1 \<Longrightarrow> lr_line r1 = []" using one by (auto simp: eol_def)
    from Cons.IH [OF r2 False this] False show ?thesis by simp
  qed
qed simp

section \<open>Lines\<close>

fun chop :: "bytes \<Rightarrow> bytes \<Rightarrow> bytes list \<times> bytes" where
  "chop cur [] = ([], cur)"
| "chop cur (b # bs) =
     (if eol b then (let (rs, c) = chop [] bs in (if cur = [] then rs else cur # rs, c)) else chop (cur @ [b]) bs)"

definition all_runs :: "bytes \<Rightarrow> bytes \<Rightarrow> bytes list" where
  "all_runs cur bs = (let (rs, c) = chop cur bs in if c = [] then rs else rs @ [c])"

lemma all_runs_simps:
  "all_runs cur [] = (if cur = [] then [] else [cur])"
  "all_runs cur (b # bs) =
     (if eol b then (if cur = [] then all_runs [] bs else cur # all_runs [] bs) else all_runs (cur @ [b]) bs)"
  by (auto simp: all_runs_def Let_def split: prod.splits)

lemma all_runs_plain: "\<forall>b \<in> set bs. \<not> eol b \<Longrightarrow> all_runs cur (bs @ rest) = all_runs (cur @ bs) rest"
  by (induction bs arbitrary: cur) (auto simp: all_runs_simps)

lemma all_runs_eols: "\<forall>b \<in> set es. eol b \<Longrightarrow> all_runs [] (es @ rest) = all_runs [] rest"
  by (induction es) (auto simp: all_runs_simps)

lemma quiet_read:
  "read_bytes bs r = (r', []) \<Longrightarrow>
     chop (lr_line r) bs = (rs, c) \<Longrightarrow> (lr_cr r \<Longrightarrow> lr_line r = []) \<Longrightarrow> lr_runs r' = lr_runs r @ rs \<and> lr_line r' = c"
proof (induction bs arbitrary: r rs c)
  case (Cons b bs)
  obtain r1 fs1 where r1: "read_byte b r = (r1, fs1)" by fastforce
  with Cons.prems(1) have fs1: "fs1 = []" and r2: "read_bytes bs r1 = (r', [])" by (auto split: prod.splits)
  show ?case
  proof (cases "b = LF \<and> lr_cr r")
    case True
    with r1 have "r1 = r\<lparr>lr_cr := False\<rparr>" by (simp add: read_byte_def)
    with True Cons.IH [OF r2] Cons.prems(2,3) show ?thesis by (auto split: prod.splits)
  next
    case False
    show ?thesis
    proof (cases "eol b")
      case True
      with False r1 fs1 have "lr_line r \<noteq> []" "lr_runs r1 = lr_runs r @ [lr_line r]" "lr_line r1 = []"
        by (auto simp: read_byte_def split: if_splits)
      with Cons.IH [OF r2] Cons.prems(2) True show ?thesis by (auto split: prod.splits)
    next
      case noeol: False
      then have "b \<noteq> LF" by (auto simp: eol_def)
      with noeol r1 have "lr_runs r1 = lr_runs r" "lr_line r1 = lr_line r @ [b]" "\<not> lr_cr r1"
        by (auto simp: read_byte_def)
      with Cons.IH [OF r2] Cons.prems(2) noeol show ?thesis by simp
    qed
  qed
qed simp

lemma quiet_read_runs:
  assumes "read_bytes bs (fresh_reader c) = (r', [])"
  shows "(if lr_line r' = [] then lr_runs r' else lr_runs r' @ [lr_line r']) = all_runs [] bs"
proof -
  obtain rs k where ch: "chop [] bs = (rs, k)" by fastforce
  with quiet_read [OF assms, of rs k] show ?thesis by (simp add: all_runs_def)
qed

lemma chop_append:
  "chop cur (xs @ ys) = (let (rs, c) = chop cur xs; (rs', c') = chop c ys in (rs @ rs', c'))"
  by (induction xs arbitrary: cur) (auto simp: Let_def split: prod.splits)

section \<open>The scan finds where the reference completes a frame\<close>

lemma read_plain:
  "\<forall>b \<in> set bs. \<not> eol b \<Longrightarrow> bs \<noteq> [] \<Longrightarrow> read_bytes bs r = (r\<lparr>lr_line := lr_line r @ bs, lr_cr := False\<rparr>, [])"
proof (induction bs arbitrary: r)
  case (Cons b bs)
  have "b \<noteq> LF" using Cons.prems by (auto simp: eol_def)
  then have b: "read_byte b r = (r\<lparr>lr_line := lr_line r @ [b], lr_cr := False\<rparr>, [])"
    using Cons.prems by (simp add: read_byte_def)
  show ?case
  proof (cases "bs = []")
    case True
    with b show ?thesis by simp
  next
    case False
    with Cons b show ?thesis by simp
  qed
qed simp

text \<open>One line end at \<open>at\<close>, \<open>CR LF\<close> taken together.\<close>

lemma read_line_end:
  assumes "at < length buf" and "eol (buf ! at)" and "\<not> (lr_cr r \<and> buf ! at = LF)"
  shows "read_bytes (subrange buf at (at + term_len buf at)) r =
           (\<lparr>lr_runs = (if lr_line r = [] then [] else lr_runs r @ [lr_line r]), lr_line = [],
             lr_cr = (buf ! (at + term_len buf at - 1) = CR)\<rparr>,
            if lr_line r = [] then [lr_runs r] else [])"
proof (cases "buf ! at = CR \<and> byte_at buf (at + 1) = Some LF")
  case True
  then have two: "at + 1 < length buf" "buf ! (at + 1) = LF" by (auto simp: byte_at_def split: if_splits)
  then have "subrange buf at (at + 2) = [CR, LF]"
    using True assms(1) by (simp add: subrange_def numeral_2_eq_2 take_Suc_conv_app_nth)
  with True two show ?thesis by (auto simp: term_len_def read_byte_def)
next
  case False
  then have "term_len buf at = 1" "subrange buf at (at + 1) = [buf ! at]"
    using assms(1) by (auto simp: term_len_def subrange_def take_Suc_conv_app_nth)
  with assms(2,3) show ?thesis by (auto simp: read_byte_def eol_def)
qed

lemma subrange_append:
  "i \<le> j \<Longrightarrow> j \<le> k \<Longrightarrow> subrange xs i j @ subrange xs j k = subrange xs i k"
proof -
  assume a: "i \<le> j" "j \<le> k"
  then have "subrange xs i k = take ((j - i) + (k - j)) (drop i xs)" by (simp add: subrange_def)
  also have "\<dots> = take (j - i) (drop i xs) @ take (k - j) (drop (j - i) (drop i xs))" by (rule take_add)
  finally show ?thesis using a by (simp add: subrange_def)
qed

lemma subrange_all: "subrange xs i (length xs) = drop i xs"
  by (simp add: subrange_def)

lemma scan_loop_read:
  assumes "i \<le> length buf" and "b \<longleftrightarrow> lr_line r = []" and "lr_cr r \<Longrightarrow> byte_at buf i \<noteq> Some LF"
  shows "case scan_loop buf i b of
           None \<Rightarrow> snd (read_bytes (drop i buf) r) = []
         | Some (p, e) \<Rightarrow>
             \<exists>ls. read_bytes (subrange buf i e) r = (fresh_reader (buf ! (e - 1) = CR), [ls])"
  using assms
proof (induction buf i b arbitrary: r rule: scan_loop.induct)
  case (1 buf i b)
  show ?case
  proof (cases "position eol (drop i buf)")
    case None
    then have "\<forall>x \<in> set (drop i buf). \<not> eol x" by (simp add: position_None)
    with None read_plain [of "drop i buf" r] show ?thesis
      by (cases "drop i buf = []") (simp_all add: scan_loop.simps [of buf i b])
  next
    case (Some off)
    let ?at = "i + off" and ?n = "i + off + term_len buf (i + off)"
    let ?r1 = "if off = 0 then r else r\<lparr>lr_line := lr_line r @ subrange buf i (i + off), lr_cr := False\<rparr>"
    note pos = position_SomeD [OF Some]
    have at: "?at < length buf" "eol (buf ! ?at)" using pos(1,2) by simp_all
    have plain: "read_bytes (subrange buf i ?at) r = (?r1, [])"
      using pos(5) read_plain [of "subrange buf i ?at" r] at(1) by (auto simp: subrange_def)
    have start: "(if off > 0 then False else b) \<longleftrightarrow> lr_line ?r1 = []"
      using 1(3) at(1) by (auto simp: subrange_def)
    have notail: "\<not> (lr_cr ?r1 \<and> buf ! ?at = LF)"
      using 1(4) at(1) by (auto simp: byte_at_def)
    have next_le: "?n \<le> length buf" using at(1) by (auto simp: term_len_def byte_at_def split: if_splits)
    from read_bytes_appendD [OF plain read_line_end [OF at notail]]
    have ended: "read_bytes (subrange buf i ?n) r =
        (\<lparr>lr_runs = (if lr_line ?r1 = [] then [] else lr_runs ?r1 @ [lr_line ?r1]), lr_line = [], lr_cr = (buf ! (?n - 1) = CR)\<rparr>,
         if lr_line ?r1 = [] then [lr_runs ?r1] else [])"
      by (simp add: subrange_append)
    show ?thesis
    proof (cases "if off > 0 then False else b")
      case True
      with start have "lr_line ?r1 = []" by simp
      with ended show ?thesis
        using True Some by (auto simp: scan_loop.simps [of buf i b] Let_def)
    next
      case False
      with start have line: "lr_line ?r1 \<noteq> []" by simp
      let ?r2 = "\<lparr>lr_runs = lr_runs ?r1 @ [lr_line ?r1], lr_line = [], lr_cr = (buf ! (?n - 1) = CR)\<rparr>"
      have "byte_at buf ?n \<noteq> Some LF" if "buf ! (?n - 1) = CR"
        using that by (auto simp: term_len_def byte_at_def split: if_splits)
      then have *: "case scan_loop buf ?n True of
           None \<Rightarrow> snd (read_bytes (drop ?n buf) ?r2) = []
         | Some (p, e) \<Rightarrow> \<exists>ls. read_bytes (subrange buf ?n e) ?r2 = (fresh_reader (buf ! (e - 1) = CR), [ls])"
        by (intro 1(1) [OF Some refl refl refl False next_le]) auto
      have loop: "scan_loop buf i b = scan_loop buf ?n True"
        using Some False by (auto simp: scan_loop.simps [of buf i b] Let_def)
      show ?thesis
      proof (cases "scan_loop buf ?n True")
        case None
        have "read_bytes (drop i buf) r = (fst (read_bytes (drop ?n buf) ?r2), [])"
          using read_bytes_appendD [OF ended, of "drop ?n buf"] line * None subrange_append [of i ?n "length buf" buf] next_le
          by (simp add: subrange_all prod_eq_iff)
        with None loop show ?thesis by simp
      next
        case (Some pe)
        obtain p e where pe: "pe = (p, e)" by fastforce
        with * Some obtain ls where ls: "read_bytes (subrange buf ?n e) ?r2 = (fresh_reader (buf ! (e - 1) = CR), [ls])" by auto
        from Some pe have "?n \<le> e" using scan_loop_bounds [of buf ?n True p e] by auto
        with read_bytes_appendD [OF ended, of "subrange buf ?n e"] ls line Some pe loop subrange_append [of i ?n e buf]
        show ?thesis by simp
      qed
    qed
  qed
qed


section \<open>The splitter\<close>

lemma last_take: "0 < n \<Longrightarrow> n \<le> length xs \<Longrightarrow> last (take n xs) = xs ! (n - 1)"
  by (cases n) (simp_all add: take_Suc_conv_app_nth)

text \<open>\<open>c\<close>: the byte before the buffer was a \<open>CR\<close>, with which a leading \<open>LF\<close> belongs.\<close>

definition splitter_ok :: "bool \<Rightarrow> sse_frame_splitter \<Rightarrow> bool" where
  "splitter_ok c sp \<longleftrightarrow>
     sp_scanned sp \<le> length (sp_buf sp) \<and>
     snd (read_bytes (take (sp_scanned sp) (sp_buf sp)) (fresh_reader c)) = [] \<and>
     (sp_after_cr sp \<longrightarrow> c \<and> sp_scanned sp = 0) \<and>
     (c \<and> \<not> sp_after_cr sp \<longrightarrow> sp_buf sp \<noteq> [] \<and> (sp_buf sp ! 0 = LF \<longrightarrow> 0 < sp_scanned sp))"

lemma splitter_ok_new [simp]: "splitter_ok False (splitter_new m)"
  by (simp add: splitter_ok_def splitter_new_def)

lemma splitter_ok_push: "splitter_ok c sp \<Longrightarrow> splitter_ok c (splitter_push chunk sp)"
  by (auto simp: splitter_ok_def splitter_push_def nth_append)

lemma splitter_ok_rest: "splitter_ok False (fst (take_rest sp))"
  by (simp add: splitter_ok_def take_rest_def)

text \<open>The scan, resumed anywhere no frame has ended before.\<close>

lemma scan_read:
  assumes "from \<le> length buf" and "snd (read_bytes (take from buf) (fresh_reader c)) = []"
    and "c \<Longrightarrow> from = 0 \<Longrightarrow> byte_at buf 0 \<noteq> Some LF"
  shows "case scan buf from of
           None \<Rightarrow> snd (read_bytes buf (fresh_reader c)) = []
         | Some (p, e) \<Rightarrow> \<exists>ls. read_bytes (take e buf) (fresh_reader c) = (fresh_reader (buf ! (e - 1) = CR), [ls])"
proof -
  obtain r where r: "read_bytes (take from buf) (fresh_reader c) = (r, [])" using assms(2) by (metis prod.collapse)
  have resume: "case scan_loop buf i b of
           None \<Rightarrow> snd (read_bytes buf (fresh_reader c)) = []
         | Some (p, e) \<Rightarrow> \<exists>ls. read_bytes (take e buf) (fresh_reader c) = (fresh_reader (buf ! (e - 1) = CR), [ls])"
    if "read_bytes (take i buf) (fresh_reader c) = (r', [])" "i \<le> length buf" "b \<longleftrightarrow> lr_line r' = []"
      "lr_cr r' \<Longrightarrow> byte_at buf i \<noteq> Some LF" for i b r'
  proof (cases "scan_loop buf i b")
    case None
    with scan_loop_read [OF that(2-4)] have "read_bytes (drop i buf) r' = (fst (read_bytes (drop i buf) r'), [])"
      by (simp add: prod_eq_iff)
    from read_bytes_appendD [OF that(1) this] None show ?thesis by simp
  next
    case (Some pe)
    obtain p e where pe: "pe = (p, e)" by fastforce
    with scan_loop_read [OF that(2-4)] Some obtain ls where
      ls: "read_bytes (subrange buf i e) r' = (fresh_reader (buf ! (e - 1) = CR), [ls])" by auto
    have "i \<le> e" using Some pe scan_loop_bounds [of buf i b p e] by auto
    then have "take i buf @ subrange buf i e = take e buf" using subrange_append [of 0 i e buf] by (simp add: subrange_def)
    with read_bytes_appendD [OF that(1) ls] Some pe show ?thesis by simp
  qed
  show ?thesis
  proof (cases "from = 0")
    case True
    with r have "r = fresh_reader c" by simp
    with True resume [of 0 r True] r assms(3) show ?thesis by (simp add: scan_def)
  next
    case False
    let ?last = "buf ! (from - 1)"
    have last: "take from buf \<noteq> []" "last (take from buf) = ?last"
      using False assms(1) by (auto simp: last_take)
    have st: "(lr_cr r \<longleftrightarrow> ?last = CR) \<and> (lr_line r = [] \<longleftrightarrow> eol ?last)"
      using read_bytes_state [OF r last(1)] last(2) by simp
    consider "?last = LF" | "?last = CR" "byte_at buf from = Some LF" | "?last = CR" "byte_at buf from \<noteq> Some LF"
      | "\<not> eol ?last" by (auto simp: eol_def)
    then show ?thesis
    proof cases
      case 2
      then have f: "from < length buf" "buf ! from = LF" by (auto simp: byte_at_def split: if_splits)
      have "read_bytes [LF] r = (r\<lparr>lr_cr := False\<rparr>, [])" using st 2 by (simp add: read_byte_def)
      from read_bytes_appendD [OF r this] f have "read_bytes (take (from + 1) buf) (fresh_reader c) = (r\<lparr>lr_cr := False\<rparr>, [])"
        by (simp add: take_Suc_conv_app_nth)
      from resume [OF this, of True] f st 2 False show ?thesis by (simp add: scan_def)
    qed (use resume [OF r assms(1)] st False in \<open>auto simp: scan_def eol_def\<close>)
  qed
qed

text \<open>The flag is resolved by the first byte that arrives after it was set.\<close>

definition settle :: "sse_frame_splitter \<Rightarrow> sse_frame_splitter" where
  "settle sp =
     (if sp_after_cr sp \<and> sp_buf sp \<noteq> []
      then (let sp' = sp\<lparr>sp_after_cr := False\<rparr>
            in if sp_buf sp ! 0 = LF \<and> sp_scanned sp = 0 then sp'\<lparr>sp_scanned := 1\<rparr> else sp')
      else sp)"

lemma settle_simps [simp]:
  "sp_buf (settle sp) = sp_buf sp" "max_frame_bytes (settle sp) = max_frame_bytes sp"
  by (simp_all add: settle_def Let_def)

lemma settle_ok:
  assumes "splitter_ok c sp"
  shows "splitter_ok c (settle sp)"
proof (cases "sp_after_cr sp \<and> sp_buf sp \<noteq> [] \<and> sp_buf sp ! 0 = LF")
  case True
  with assms have c: "c" "sp_scanned sp = 0" by (auto simp: splitter_ok_def)
  obtain rest where "sp_buf sp = LF # rest" using True by (cases "sp_buf sp") auto
  with c True show ?thesis by (simp add: settle_def splitter_ok_def read_byte_def Let_def)
next
  case False
  with assms show ?thesis by (auto simp: settle_def splitter_ok_def Let_def)
qed

lemma settle_scan:
  assumes "splitter_ok c sp"
  shows "case scan (sp_buf sp) (sp_scanned (settle sp)) of
           None \<Rightarrow> snd (read_bytes (sp_buf sp) (fresh_reader c)) = []
         | Some (p, e) \<Rightarrow>
             \<exists>ls. read_bytes (take e (sp_buf sp)) (fresh_reader c) = (fresh_reader (sp_buf sp ! (e - 1) = CR), [ls])"
proof (rule scan_read)
  show "c \<Longrightarrow> sp_scanned (settle sp) = 0 \<Longrightarrow> byte_at (sp_buf sp) 0 \<noteq> Some LF"
    using assms by (cases "sp_after_cr sp") (auto simp: settle_def byte_at_def splitter_ok_def Let_def split: if_splits)
qed (use settle_ok [OF assms] in \<open>auto simp: splitter_ok_def\<close>)

lemma next_frame_settle:
  "next_frame sp =
     (case scan (sp_buf sp) (sp_scanned (settle sp)) of
        Some (_, e) \<Rightarrow>
          ((settle sp)\<lparr>sp_buf := drop e (sp_buf sp), sp_scanned := 0,
             sp_after_cr := (drop e (sp_buf sp) = [] \<and> take e (sp_buf sp) \<noteq> [] \<and> last (take e (sp_buf sp)) = CR)\<rparr>,
           Inr (Some (take e (sp_buf sp))))
      | None \<Rightarrow>
          ((settle sp)\<lparr>sp_scanned := length (sp_buf sp)\<rparr>,
           if length (sp_buf sp) > max_frame_bytes sp then Inl (max_frame_bytes sp) else Inr None))"
  by (auto simp: next_frame_def settle_def Let_def split: option.splits)

lemma next_frame_none:
  assumes "splitter_ok c sp" and "next_frame sp = (sp', x)" and "\<nexists>frame. x = Inr (Some frame)"
  shows "splitter_ok c sp' \<and> sp_buf sp' = sp_buf sp \<and> snd (read_bytes (sp_buf sp) (fresh_reader c)) = [] \<and>
         max_frame_bytes sp' = max_frame_bytes sp \<and>
         x = (if length (sp_buf sp) > max_frame_bytes sp then Inl (max_frame_bytes sp) else Inr None)"
proof -
  from assms(2,3) have none: "scan (sp_buf sp) (sp_scanned (settle sp)) = None"
    by (auto simp: next_frame_settle split: option.splits)
  with settle_scan [OF assms(1)] have quiet: "snd (read_bytes (sp_buf sp) (fresh_reader c)) = []" by simp
  from none assms(2) have sp': "sp' = (settle sp)\<lparr>sp_scanned := length (sp_buf sp)\<rparr>"
    and x: "x = (if length (sp_buf sp) > max_frame_bytes sp then Inl (max_frame_bytes sp) else Inr None)"
    by (auto simp: next_frame_settle)
  have "splitter_ok c sp'"
    using settle_ok [OF assms(1)] quiet
    by (cases "sp_buf sp = []") (auto simp: splitter_ok_def sp' settle_def Let_def)
  then show ?thesis using quiet x by (simp add: sp')
qed

lemma next_frame_some:
  assumes "splitter_ok c sp" and "next_frame sp = (sp', Inr (Some frame))"
  obtains ls c' where "sp_buf sp = frame @ sp_buf sp'" "frame \<noteq> []"
    "read_bytes frame (fresh_reader c) = (fresh_reader c', [ls])" "splitter_ok c' sp'" "c' \<longleftrightarrow> last frame = CR"
    "max_frame_bytes sp' = max_frame_bytes sp"
proof -
  from assms(2) obtain p e where pe: "scan (sp_buf sp) (sp_scanned (settle sp)) = Some (p, e)"
    and frame: "frame = take e (sp_buf sp)"
    and sp': "sp' = (settle sp)\<lparr>sp_buf := drop e (sp_buf sp), sp_scanned := 0,
             sp_after_cr := (drop e (sp_buf sp) = [] \<and> take e (sp_buf sp) \<noteq> [] \<and> last (take e (sp_buf sp)) = CR)\<rparr>"
    by (auto simp: next_frame_settle split: option.splits if_splits)
  note b = scan_bounds [OF pe]
  have e: "0 < e" "e \<le> length (sp_buf sp)" using b by auto
  have last: "last frame = sp_buf sp ! (e - 1)" "frame \<noteq> []" using e frame by (auto simp: last_take)
  from settle_scan [OF assms(1)] pe obtain ls where
    ls: "read_bytes frame (fresh_reader c) = (fresh_reader (last frame = CR), [ls])" using last frame by auto
  have notlf: "sp_buf sp ! e \<noteq> LF" if "e < length (sp_buf sp)" "last frame = CR"
    using that b last by (auto simp: term_len_def byte_at_def split: if_splits)
  have "splitter_ok (last frame = CR) sp'"
    using e last notlf frame by (auto simp: splitter_ok_def sp')
  moreover have "max_frame_bytes sp' = max_frame_bytes sp" using sp' by simp
  ultimately show thesis
    using that [of "last frame = CR" ls] ls frame sp' last by simp
qed

section \<open>Frames are the stream's bytes\<close>

text \<open>A relay that takes every complete frame after each chunk.\<close>

function take_frames :: "sse_frame_splitter \<Rightarrow> bytes list \<Rightarrow> sse_frame_splitter \<times> bytes list" where
  "take_frames sp out =
     (case next_frame sp of
        (sp1, Inr (Some frame)) \<Rightarrow> take_frames sp1 (out @ [frame])
      | (sp1, _) \<Rightarrow> (sp1, out))"
  by pat_completeness auto
termination
  by (relation "measure (\<lambda>(sp, out). length (sp_buf sp))") (auto dest: next_frame_shrinks [OF sym])

declare take_frames.simps [simp del]

fun relay :: "bytes list \<Rightarrow> sse_frame_splitter \<Rightarrow> bytes list \<Rightarrow> sse_frame_splitter \<times> bytes list" where
  "relay [] sp out = (sp, out)"
| "relay (chunk # chunks) sp out = (let (sp1, out1) = take_frames (splitter_push chunk sp) out in relay chunks sp1 out1)"

lemma next_frame_frame:
  assumes "next_frame sp = (sp', x)"
  shows "case x of Inr (Some frame) \<Rightarrow> sp_buf sp = frame @ sp_buf sp' | _ \<Rightarrow> sp_buf sp' = sp_buf sp"
  using assms by (auto simp: next_frame_settle split: option.splits if_splits)

lemma take_frames_bytes: "take_frames sp out = (sp', out') \<Longrightarrow> concat out' @ sp_buf sp' = concat out @ sp_buf sp"
proof (induction sp out rule: take_frames.induct)
  case (1 sp out)
  obtain sp1 x where nf: "next_frame sp = (sp1, x)" by fastforce
  from 1 nf next_frame_frame [OF nf] show ?case
    by (auto simp: take_frames.simps [of sp] split: sum.splits option.splits)
qed

lemma relay_bytes: "relay chunks sp out = (sp', out') \<Longrightarrow> concat out' @ sp_buf sp' = concat out @ sp_buf sp @ concat chunks"
proof (induction chunks arbitrary: sp out)
  case (Cons chunk chunks)
  obtain sp1 out1 where t: "take_frames (splitter_push chunk sp) out = (sp1, out1)" by fastforce
  with Cons take_frames_bytes [OF t] show ?case by (simp add: splitter_push_def)
qed simp

text \<open>C40. A relay forwards the stream unchanged: however the bytes are cut into chunks, the frames taken so
  far followed by what is still buffered are the bytes received.\<close>

theorem frames_are_the_stream:
  "let (sp, out) = relay chunks (splitter_new m) [] in concat out @ snd (take_rest sp) = concat chunks"
proof -
  obtain sp out where r: "relay chunks (splitter_new m) [] = (sp, out)" by fastforce
  with relay_bytes [OF r] show ?thesis by (simp add: splitter_new_def take_rest_def)
qed


section \<open>The fields of a frame\<close>

lemma read_empty_line [simp]: "read_line [] f = f"
  by (simp add: read_line_def parse_field_def)

definition read_lines :: "bytes list \<Rightarrow> sse_fields \<Rightarrow> sse_fields" where
  "read_lines ls f = foldl (\<lambda>f l. read_line l f) f ls"

lemma read_lines_simps [simp]:
  "read_lines [] f = f" "read_lines (l # ls) f = read_lines ls (read_line l f)"
  by (simp_all add: read_lines_def)

text \<open>Blank lines carry no field, so a frame's fields are those of its non-empty lines.\<close>

lemma lines_from_runs:
  "foldl (\<lambda>f l. read_line (line_content frame l) f) f (lines_from frame pos) = read_lines (all_runs [] (drop pos frame)) f"
proof (induction frame pos arbitrary: f rule: lines_from.induct)
  case (1 frame pos)
  show ?case
  proof (cases "pos \<ge> length frame")
    case True
    then show ?thesis by (simp add: lines_from.simps [of frame pos] all_runs_simps)
  next
    case False
    show ?thesis
    proof (cases "position eol (drop pos frame)")
      case None
      let ?rest = "drop pos frame"
      have "all_runs [] ?rest = [?rest]"
        using None False all_runs_plain [of ?rest "[]" "[]"] by (simp add: position_None all_runs_simps)
      with None False show ?thesis
        by (simp add: lines_from.simps [of frame pos] lines_from.simps [of frame "length frame"] Let_def line_content_def
            subrange_all)
    next
      case (Some off)
      note pos = position_SomeD [OF Some]
      let ?at = "pos + off" and ?n = "pos + off + term_len frame (pos + off)"
      have at: "?at < length frame" "eol (frame ! ?at)" using pos(1,2) by simp_all
      have split: "drop pos frame = subrange frame pos ?at @ subrange frame ?at ?n @ drop ?n frame"
      proof -
        have "?n \<le> length frame" using at(1) by (auto simp: term_len_def byte_at_def split: if_splits)
        then show ?thesis
          using subrange_append [of pos ?at "length frame" frame] subrange_append [of ?at ?n "length frame" frame]
          by (simp add: subrange_all)
      qed
      have plain: "\<forall>b \<in> set (subrange frame pos ?at). \<not> eol b" using pos(5) by (simp add: subrange_def)
      have ended: "\<exists>t ts. subrange frame ?at ?n = t # ts \<and> eol t \<and> (\<forall>b \<in> set ts. eol b)"
      proof (cases "frame ! ?at = CR \<and> byte_at frame (?at + 1) = Some LF")
        case True
        then show ?thesis using at
          by (auto simp: term_len_def byte_at_def subrange_def numeral_2_eq_2 take_Suc_conv_app_nth split: if_splits)
      next
        case False
        then show ?thesis using at by (auto simp: term_len_def subrange_def take_Suc_conv_app_nth)
      qed
      have runs: "read_lines (all_runs [] (drop pos frame)) f =
          read_lines (all_runs [] (drop ?n frame)) (read_line (subrange frame pos ?at) f)"
        using ended all_runs_plain [OF plain, of "[]"] all_runs_eols unfolding split
        by (auto simp: all_runs_simps)
      have lines: "lines_from frame pos =
          \<lparr>line_start = pos, line_end = ?at, term_end = ?n\<rparr> # lines_from frame ?n"
        using Some False by (simp add: lines_from.simps [of frame pos] Let_def)
      have "foldl (\<lambda>f l. read_line (line_content frame l) f) g (lines_from frame ?n) = read_lines (all_runs [] (drop ?n frame)) g" for g
        by (rule 1 [OF False refl]) (simp add: Some)
      then show ?thesis by (simp add: lines runs line_content_def)
    qed
  qed
qed

lemma bom_plain: "\<forall>b \<in> set UTF8_BOM. \<not> eol b"
  by (simp add: UTF8_BOM_def eol_def CR_def LF_def)

lemma runs_after_bom: "read_lines (strip_bom (all_runs UTF8_BOM rest)) f = read_lines (all_runs [] rest) f"
proof -
  have gen: "\<exists>l ls. all_runs (UTF8_BOM @ cur) rest = (UTF8_BOM @ l) # ls \<and> all_runs cur rest = (if l = [] then ls else l # ls)" for cur
  proof (induction rest arbitrary: cur)
    case Nil
    show ?case by (simp add: all_runs_simps UTF8_BOM_def)
  next
    case (Cons b bs)
    show ?case
    proof (cases "eol b")
      case True
      then show ?thesis by (simp add: all_runs_simps UTF8_BOM_def)
    next
      case False
      with Cons [of "cur @ [b]"] show ?thesis by (simp add: all_runs_simps)
    qed
  qed
  have strip: "strip_prefix_bytes UTF8_BOM (UTF8_BOM @ l) = Some l" for l by (simp add: strip_prefix_bytes_Some)
  from gen [of "[]"] show ?thesis by (auto simp: strip strip [of "[]", simplified] split: if_splits)
qed

lemma first_run_prefix:
  assumes "all_runs cur bs = l # ls" and "cur \<noteq> [] \<or> bs \<noteq> [] \<and> \<not> eol (hd bs)"
  shows "\<exists>zs. cur @ bs = l @ zs"
  using assms
proof (induction bs arbitrary: cur)
  case (Cons b bs)
  show ?case
  proof (cases "eol b")
    case True
    with Cons.prems show ?thesis by (auto simp: all_runs_simps)
  next
    case False
    with Cons.prems Cons.IH [of "cur @ [b]"] show ?thesis by (simp add: all_runs_simps)
  qed
qed (auto simp: all_runs_simps split: if_splits)

text \<open>The condition under which a frame's own bytes tell where it began: no byte order mark where an
  earlier \<open>LF\<close> was left at the head of the frame.\<close>

definition bom_in_place :: "bytes \<Rightarrow> bool" where
  "bom_in_place frame \<longleftrightarrow> \<not> (frame \<noteq> [] \<and> eol (frame ! 0) \<and> strip_bom (all_runs [] frame) \<noteq> all_runs [] frame)"

lemma decode_runs:
  assumes "bom_in_place frame"
  shows "decode_event frame = lines_event (all_runs [] frame)"
proof (cases "strip_prefix_bytes UTF8_BOM frame")
  case (Some rest)
  then have "frame = UTF8_BOM @ rest" by (simp add: strip_prefix_bytes_Some)
  with all_runs_plain [OF bom_plain, of "[]" rest] Some show ?thesis
    using lines_from_runs [of frame _ "length UTF8_BOM"] runs_after_bom [of rest]
    by (simp add: decode_event_def lines_event_def parse_frame_def sse_lines_def read_lines_def)
next
  case None
  have "strip_bom (all_runs [] frame) = all_runs [] frame"
  proof (cases "frame = [] \<or> eol (frame ! 0)")
    case True
    with assms show ?thesis by (auto simp: bom_in_place_def all_runs_simps)
  next
    case False
    show ?thesis
    proof (cases "all_runs [] frame")
      case (Cons l ls)
      with first_run_prefix [OF Cons] False obtain zs where "frame = l @ zs" by (auto simp: hd_conv_nth)
      have "strip_prefix_bytes UTF8_BOM l = None"
      proof (cases "strip_prefix_bytes UTF8_BOM l")
        case (Some r)
        with \<open>frame = l @ zs\<close> have "strip_prefix_bytes UTF8_BOM frame = Some (r @ zs)"
          unfolding strip_prefix_bytes_Some by simp
        with None show ?thesis by simp
      qed
      with Cons show ?thesis by simp
    qed simp
  qed
  with None lines_from_runs [of frame _ 0] show ?thesis
    by (simp add: decode_event_def lines_event_def parse_frame_def sse_lines_def read_lines_def)
qed


lemma emitted_runs:
  "read_bytes bs r = (r', [ls]) \<Longrightarrow> lr_runs r' = [] \<Longrightarrow> lr_line r' = [] \<Longrightarrow> (lr_cr r \<Longrightarrow> lr_line r = []) \<Longrightarrow>
     ls = lr_runs r @ all_runs (lr_line r) bs"
proof (induction bs arbitrary: r)
  case (Cons b bs)
  obtain r1 fs1 where r1: "read_byte b r = (r1, fs1)" by fastforce
  obtain fs2 where r2: "read_bytes bs r1 = (r', fs2)" and fs: "fs1 @ fs2 = [ls]"
    using Cons.prems(1) r1 by (auto split: prod.splits)
  consider (tail) "b = LF" "lr_cr r" | (blank) "\<not> (b = LF \<and> lr_cr r)" "eol b" "lr_line r = []"
    | (full) "\<not> (b = LF \<and> lr_cr r)" "eol b" "lr_line r \<noteq> []" | (plain) "\<not> eol b" by (auto simp: eol_def)
  then show ?case
  proof cases
    case tail
    with r1 have "r1 = r\<lparr>lr_cr := False\<rparr>" "fs1 = []" by (auto simp: read_byte_def)
    with Cons.IH [of r1] r2 fs Cons.prems(2-4) tail show ?thesis by (simp add: all_runs_simps)
  next
    case blank
    with r1 fs have one: "r1 = fresh_reader (b = CR)" "ls = lr_runs r" "fs2 = []" by (auto simp: read_byte_def)
    obtain rs k where ch: "chop [] bs = (rs, k)" by fastforce
    with quiet_read [of bs r1 r' rs k] r2 one Cons.prems(2,3) have "all_runs [] bs = []" by (simp add: all_runs_def)
    with one blank show ?thesis by (simp add: all_runs_simps)
  next
    case full
    with r1 have "lr_runs r1 = lr_runs r @ [lr_line r]" "lr_line r1 = []" "fs1 = []" by (auto simp: read_byte_def)
    with Cons.IH [of r1] r2 fs Cons.prems(2,3) full show ?thesis by (simp add: all_runs_simps)
  next
    case plain
    then have "b \<noteq> LF" by (auto simp: eol_def)
    with r1 plain have "lr_runs r1 = lr_runs r" "lr_line r1 = lr_line r @ [b]" "\<not> lr_cr r1" "fs1 = []"
      by (auto simp: read_byte_def)
    with Cons.IH [of r1] r2 fs Cons.prems(2,3) plain show ?thesis by (simp add: all_runs_simps)
  qed
qed simp

section \<open>The decoder\<close>

definition bom_after_crlf :: "bytes \<Rightarrow> bool" where
  "bom_after_crlf stream \<longleftrightarrow> (\<exists>pre post. stream = pre @ [CR, LF] @ UTF8_BOM @ post)"

abbreviation before :: "bool \<Rightarrow> bytes \<Rightarrow> bytes" where
  "before c bs \<equiv> (if c then [CR] else []) @ bs"

lemma bom_after_crlf_append: "bom_after_crlf xs \<Longrightarrow> bom_after_crlf (ys @ xs @ zs)"
  unfolding bom_after_crlf_def by (metis append.assoc)

lemma runs_begin:
  assumes "strip_bom (all_runs [] bs) \<noteq> all_runs [] bs" and "bs \<noteq> []" and "\<not> eol (bs ! 0)"
  shows "\<exists>post. bs = UTF8_BOM @ post"
proof (cases "all_runs [] bs")
  case (Cons l ls)
  with assms(1) obtain l' where "strip_prefix_bytes UTF8_BOM l = Some l'" by (auto split: option.splits)
  moreover from first_run_prefix [OF Cons] assms(2,3) obtain zs where "bs = l @ zs" by (auto simp: hd_conv_nth)
  ultimately show ?thesis by (auto simp: strip_prefix_bytes_Some)
qed (use assms(1) in simp)

text \<open>A frame that begins with a line end either is a blank line or begins with the \<open>LF\<close> of an earlier \<open>CR\<close>.\<close>

lemma in_place:
  assumes "read_bytes frame (fresh_reader c) = (r', fs)" and "fs = [] \<or> (\<exists>ls. fs = [ls] \<and> lr_runs r' = [] \<and> lr_line r' = [])"
    and "\<not> bom_after_crlf (before c frame)"
  shows "bom_in_place frame"
proof (cases frame)
  case (Cons b bs)
  show ?thesis
  proof (cases "eol b")
    case True
    show ?thesis
    proof (cases "b = LF \<and> c")
      case False
      have "all_runs [] frame = []"
      proof -
        obtain r2 fs2 where r2: "read_bytes bs (fresh_reader (b = CR)) = (r2, fs2)" by fastforce
        with assms(1,2) Cons True False have "fs2 = []" "r' = r2" "lr_runs r' = []" "lr_line r' = []"
          by (auto simp: read_byte_def)
        with quiet_read_runs [of bs "b = CR" r'] r2 True Cons show ?thesis by (simp add: all_runs_simps)
      qed
      then show ?thesis by (simp add: bom_in_place_def)
    next
      case lf: True
      then have read: "read_bytes bs (fresh_reader False) = (r', fs)" using assms(1) Cons by (simp add: read_byte_def)
      have runs: "all_runs [] frame = all_runs [] bs" using Cons True by (simp add: all_runs_simps)
      show ?thesis
      proof (rule ccontr)
        assume "\<not> bom_in_place frame"
        then have changed: "strip_bom (all_runs [] bs) \<noteq> all_runs [] bs" using runs by (simp add: bom_in_place_def)
        have "bs \<noteq> []" using changed by (auto simp: all_runs_simps)
        moreover have "\<not> eol (bs ! 0)"
        proof
          assume eol0: "eol (bs ! 0)"
          obtain b2 bs2 where bs: "bs = b2 # bs2" using \<open>bs \<noteq> []\<close> by (cases bs) auto
          obtain r2 fs2 where r2: "read_bytes bs2 (fresh_reader (b2 = CR)) = (r2, fs2)" by fastforce
          with read assms(2) bs eol0 have "fs2 = []" "r' = r2" "lr_runs r' = []" "lr_line r' = []"
            by (auto simp: read_byte_def)
          with quiet_read_runs [of bs2 "b2 = CR" r'] r2 bs eol0 have "all_runs [] bs = []" by (simp add: all_runs_simps)
          with changed show False by simp
        qed
        ultimately obtain post where "bs = UTF8_BOM @ post" using runs_begin [OF changed] by blast
        then have "before c frame = [] @ [CR, LF] @ UTF8_BOM @ post" using lf Cons by simp
        with assms(3) show False unfolding bom_after_crlf_def by blast
      qed
    qed
  next
    case False
    with Cons show ?thesis by (simp add: bom_in_place_def)
  qed
qed (simp add: bom_in_place_def)

lemma feed_loop_reads:
  assumes "splitter_ok c sp" and "\<not> bom_after_crlf (before c (sp_buf sp))" and "feed_loop sp evs = (sp', evs', None)"
  shows "\<exists>c' r fs gone. splitter_ok c' sp' \<and> read_bytes (sp_buf sp) (fresh_reader c) = (r, fs) \<and>
           read_bytes (sp_buf sp') (fresh_reader c') = (r, []) \<and> evs' = evs @ events_of fs \<and>
           before c (sp_buf sp) = gone @ before c' (sp_buf sp') \<and> max_frame_bytes sp' = max_frame_bytes sp"
  using assms
proof (induction sp evs arbitrary: c rule: feed_loop.induct)
  case (1 sp evs)
  obtain sp1 x where nf: "next_frame sp = (sp1, x)" by fastforce
  show ?case
  proof (cases "\<exists>frame. x = Inr (Some frame)")
    case False
    note none = next_frame_none [OF 1(2) nf False]
    with 1(4) nf have "x = Inr None" "sp' = sp1" "evs' = evs" by (auto simp: feed_loop.simps [of sp] split: if_splits)
    with none show ?thesis
      by (intro exI [of _ c] exI [of _ "fst (read_bytes (sp_buf sp) (fresh_reader c))"] exI [of _ "[]"])
        (auto simp: prod_eq_iff)
  next
    case True
    then obtain frame where x: "x = Inr (Some frame)" by blast
    from next_frame_some [OF 1(2) nf [unfolded x]] obtain ls c1 where
        buf: "sp_buf sp = frame @ sp_buf sp1" "frame \<noteq> []" and read: "read_bytes frame (fresh_reader c) = (fresh_reader c1, [ls])"
      and ok1: "splitter_ok c1 sp1" and c1: "c1 \<longleftrightarrow> last frame = CR" and mx: "max_frame_bytes sp1 = max_frame_bytes sp"
      by blast
    have nobom: "\<not> bom_after_crlf (before c frame)"
      using 1(3) bom_after_crlf_append [of "before c frame" "[]" "sp_buf sp1"] buf by auto
    have "decode_event frame = lines_event ls"
      using decode_runs [OF in_place [OF read _ nobom]] emitted_runs [OF read] by simp
    then have loop: "feed_loop sp1 (evs @ events_of [ls]) = (sp', evs', None)"
      using 1(4) nf x by (simp add: feed_loop.simps [of sp])
    obtain fi b where fr: "frame = fi @ [b]" using buf(2) by (cases frame rule: rev_cases) auto
    have step: "before c (sp_buf sp) = before c (fi @ (if c1 then [] else [b])) @ before c1 (sp_buf sp1)"
      using buf c1 fr by auto
    then have "\<not> bom_after_crlf (before c1 (sp_buf sp1))"
      using 1(3) bom_after_crlf_append [of "before c1 (sp_buf sp1)" "before c (fi @ (if c1 then [] else [b]))" "[]"]
      by auto
    from 1(1) [OF nf [symmetric] x refl ok1 this] loop \<open>decode_event frame = lines_event ls\<close>
    obtain c' r fs gone where rest: "splitter_ok c' sp'" "read_bytes (sp_buf sp1) (fresh_reader c1) = (r, fs)"
        "read_bytes (sp_buf sp') (fresh_reader c') = (r, [])"
        "evs' = (evs @ events_of [ls]) @ events_of fs"
        "before c1 (sp_buf sp1) = gone @ before c' (sp_buf sp')" "max_frame_bytes sp' = max_frame_bytes sp1"
      by auto
    have "read_bytes (sp_buf sp) (fresh_reader c) = (r, ls # fs)"
      using read_bytes_appendD [OF read rest(2)] buf by simp
    with rest step mx show ?thesis
      by (intro exI [of _ c'] exI [of _ r] exI [of _ "ls # fs"]
          exI [of _ "before c (fi @ (if c1 then [] else [b])) @ gone"])
        simp
  qed
qed


text \<open>A decoder fed one chunk after the other; an error ends the stream.\<close>

fun feed_all :: "bytes list \<Rightarrow> sse_decoder \<Rightarrow> sse_decoder \<times> (nat + sse_event list)" where
  "feed_all [] d = (d, Inr [])"
| "feed_all (chunk # chunks) d =
     (case feed chunk d of
        (d1, Inl limit) \<Rightarrow> (d1, Inl limit)
      | (d1, Inr es) \<Rightarrow>
          (case feed_all chunks d1 of
             (d2, Inl limit) \<Rightarrow> (d2, Inl limit)
           | (d2, Inr es') \<Rightarrow> (d2, Inr (es @ es'))))"

lemma feed_ok:
  assumes "feed chunk d = (d1, Inr es)" and "overflow d1 = None"
  shows "overflow d = None \<and> feed_loop (splitter_push chunk (frames d)) [] = (frames d1, es, None)"
  using assms by (auto simp: feed_def split: option.splits prod.splits if_splits)

lemma feed_all_overflow: "feed_all chunks d = (d', Inr es) \<Longrightarrow> overflow d' = None \<Longrightarrow> overflow d = None"
proof (induction chunks arbitrary: d es)
  case (Cons chunk chunks)
  then show ?case by (auto simp: feed_def split: option.splits prod.splits sum.splits if_splits)
qed simp

lemma feed_all_reads:
  assumes "splitter_ok c (frames d)" and "read_bytes (sp_buf (frames d)) (fresh_reader c) = (r, [])"
    and "read_bytes S (fresh_reader False) = (r, fs)" and "S = gone @ before c (sp_buf (frames d))"
    and "\<not> bom_after_crlf (S @ concat chunks)" and "feed_all chunks d = (d', Inr es)" and "overflow d' = None"
  shows "\<exists>c' r' fs' gone'. read_bytes (S @ concat chunks) (fresh_reader False) = (r', fs @ fs') \<and>
           read_bytes (sp_buf (frames d')) (fresh_reader c') = (r', []) \<and> es = events_of fs' \<and>
           S @ concat chunks = gone' @ before c' (sp_buf (frames d'))"
  using assms
proof (induction chunks arbitrary: c d S r fs gone es)
  case Nil
  then show ?case by (intro exI [of _ c] exI [of _ r] exI [of _ "[]"] exI [of _ gone]) simp
next
  case (Cons chunk chunks)
  obtain d1 es1 es2 where f: "feed chunk d = (d1, Inr es1)" and fa: "feed_all chunks d1 = (d', Inr es2)" and es: "es = es1 @ es2"
    using Cons.prems(6) by (auto split: prod.splits sum.splits)
  from feed_ok [OF f feed_all_overflow [OF fa Cons.prems(7)]]
  have loop: "feed_loop (splitter_push chunk (frames d)) [] = (frames d1, es1, None)" ..
  have nobom: "\<not> bom_after_crlf (before c (sp_buf (frames d) @ chunk))"
    using Cons.prems(4,5) bom_after_crlf_append [of "before c (sp_buf (frames d) @ chunk)" gone "concat chunks"] by auto
  from feed_loop_reads [OF splitter_ok_push [OF Cons.prems(1)] _ loop] nobom
  obtain c1 r1 fs1 gone1 where st: "splitter_ok c1 (frames d1)"
      "read_bytes (sp_buf (frames d) @ chunk) (fresh_reader c) = (r1, fs1)"
      "read_bytes (sp_buf (frames d1)) (fresh_reader c1) = (r1, [])" "es1 = events_of fs1"
      "before c (sp_buf (frames d) @ chunk) = gone1 @ before c1 (sp_buf (frames d1))"
    by (auto simp: splitter_push_def)
  have "read_bytes chunk r = (r1, fs1)"
    using st(2) Cons.prems(2) by (simp add: read_bytes_append split: prod.splits)
  then have S: "read_bytes (S @ chunk) (fresh_reader False) = (r1, fs @ fs1)"
    using read_bytes_appendD [OF Cons.prems(3)] by blast
  have "S @ chunk = (gone @ gone1) @ before c1 (sp_buf (frames d1))"
    using Cons.prems(4) st(5) by simp
  from Cons.IH [OF st(1,3) S this _ fa Cons.prems(7)] Cons.prems(5)
  obtain c' r' fs' gone' where "read_bytes (S @ chunk @ concat chunks) (fresh_reader False) = (r', (fs @ fs1) @ fs')"
      "read_bytes (sp_buf (frames d')) (fresh_reader c') = (r', [])" "es2 = events_of fs'"
      "S @ chunk @ concat chunks = gone' @ before c' (sp_buf (frames d'))" by auto
  then show ?case
    by (intro exI [of _ c'] exI [of _ r'] exI [of _ "fs1 @ fs'"] exI [of _ gone'])
      (simp add: es st(4) events_of_append)
qed

lemma feed_loop_small:
  assumes "length (sp_buf sp) \<le> max_frame_bytes sp" and "feed_loop sp evs = (sp', evs', x)"
  shows "x = None \<and> length (sp_buf sp') \<le> length (sp_buf sp) \<and> max_frame_bytes sp' = max_frame_bytes sp"
  using assms
proof (induction sp evs rule: feed_loop.induct)
  case (1 sp evs)
  obtain sp1 x1 where nf: "next_frame sp = (sp1, x1)" by fastforce
  show ?case
  proof (cases "\<exists>frame. x1 = Inr (Some frame)")
    case True
    then obtain frame where x1: "x1 = Inr (Some frame)" by blast
    have small: "length (sp_buf sp1) < length (sp_buf sp)" using next_frame_shrinks nf x1 by blast
    have mx: "max_frame_bytes sp1 = max_frame_bytes sp"
      using nf by (auto simp: next_frame_settle split: option.splits if_splits)
    with 1(1) [OF nf [symmetric] x1 refl] 1(2,3) nf x1 small show ?thesis by (simp add: feed_loop.simps [of sp])
  next
    case False
    with 1(2,3) nf show ?thesis
      by (auto simp: feed_loop.simps [of sp] next_frame_settle split: option.splits if_splits)
  qed
qed

lemma feed_all_small:
  assumes "length (sp_buf (frames d)) + length (concat chunks) \<le> max_frame_bytes (frames d)" and "overflow d = None"
  shows "\<exists>d' es. feed_all chunks d = (d', Inr es) \<and> overflow d' = None"
  using assms
proof (induction chunks arbitrary: d)
  case (Cons chunk chunks)
  obtain sp es x where loop: "feed_loop (splitter_push chunk (frames d)) [] = (sp, es, x)" by (cases "feed_loop (splitter_push chunk (frames d)) []") auto
  have small: "x = None" "length (sp_buf sp) \<le> length (sp_buf (frames d)) + length chunk" "max_frame_bytes sp = max_frame_bytes (frames d)"
    using feed_loop_small [OF _ loop] Cons.prems(1) by (simp_all add: splitter_push_def)
  then have f: "feed chunk d = (d\<lparr>frames := sp\<rparr>, Inr es)" using loop Cons.prems(2) by (simp add: feed_def)
  from Cons.IH [of "d\<lparr>frames := sp\<rparr>"] small Cons.prems obtain d' es' where
    "feed_all chunks (d\<lparr>frames := sp\<rparr>) = (d', Inr es')" "overflow d' = None" by auto
  with f show ?case by simp
qed simp

lemma decoder_reference:
  assumes "\<not> bom_after_crlf (concat chunks)" and "feed_all chunks (with_max_frame_bytes m) = (d, Inr es)"
    and "finish d = (d', Inr e)"
  shows "es @ (case e of Some x \<Rightarrow> [x] | None \<Rightarrow> []) = reference_events (concat chunks)"
proof -
  have ov: "overflow d = None" using assms(3) by (auto simp: finish_def split: option.splits)
  have new: "frames (with_max_frame_bytes m) = splitter_new m" by (simp add: with_max_frame_bytes_def)
  have empty: "sp_buf (splitter_new m) = []" by (simp add: splitter_new_def)
  obtain c r fs gone where st: "read_bytes (concat chunks) (fresh_reader False) = (r, fs)"
      "read_bytes (sp_buf (frames d)) (fresh_reader c) = (r, [])" "es = events_of fs"
      "concat chunks = gone @ before c (sp_buf (frames d))"
    using feed_all_reads [of False "with_max_frame_bytes m" "fresh_reader False" "[]" "[]" "[]" chunks d es] assms(1,2) ov new empty
    by auto
  let ?rest = "sp_buf (frames d)"
  have "\<not> bom_after_crlf (before c ?rest)"
    using assms(1) st(4) bom_after_crlf_append [of "before c ?rest" gone "[]"] by auto
  then have "bom_in_place ?rest" using in_place [OF st(2)] by blast
  from decode_runs [OF this] quiet_read_runs [OF st(2)]
  have "decode_event ?rest = lines_event (if lr_line r = [] then lr_runs r else lr_runs r @ [lr_line r])" by simp
  moreover have "e = decode_event ?rest" using assms(3) ov by (auto simp: finish_def take_rest_def)
  ultimately show ?thesis
    using st(1,3) by (simp add: reference_events_def events_of_append)
qed

lemma short_streams_fit:
  assumes "length (concat chunks) \<le> m"
  shows "\<exists>d es d' e. feed_all chunks (with_max_frame_bytes m) = (d, Inr es) \<and> finish d = (d', Inr e)"
proof -
  have "length (sp_buf (frames (with_max_frame_bytes m))) + length (concat chunks) \<le> max_frame_bytes (frames (with_max_frame_bytes m))"
    using assms by (simp add: with_max_frame_bytes_def splitter_new_def)
  from feed_all_small [OF this] obtain d es where "feed_all chunks (with_max_frame_bytes m) = (d, Inr es)" "overflow d = None"
    by (auto simp: with_max_frame_bytes_def)
  then show ?thesis by (simp add: finish_def take_rest_def)
qed

definition decode_chunks :: "nat \<Rightarrow> bytes list \<Rightarrow> nat + sse_event list" where
  "decode_chunks m chunks =
     (case feed_all chunks (with_max_frame_bytes m) of
        (d, Inl limit) \<Rightarrow> Inl limit
      | (d, Inr es) \<Rightarrow>
          (case finish d of
             (_, Inl limit) \<Rightarrow> Inl limit
           | (_, Inr e) \<Rightarrow> Inr (es @ (case e of Some x \<Rightarrow> [x] | None \<Rightarrow> []))))"


lemma lossy_ascii: "\<forall>b \<in> set bs. unat b < 128 \<Longrightarrow> from_utf8_lossy bs = map unat bs"
proof (induction bs)
  case Nil
  show ?case by (simp add: from_utf8_lossy_def utf8_lossy_nats.simps)
next
  case (Cons b bs)
  then have "utf8_char (map unat (b # bs)) = (Some (unat b), 1)" by (simp add: utf8_char_def utf8_width_def Let_def)
  with Cons show ?case by (simp add: from_utf8_lossy_def utf8_lossy_nats.simps [of "unat b # map unat bs"])
qed

definition demo_stream :: "bytes list" where
  "demo_stream = [bytes_of ''data: a'' @ [13], [10] @ bytes_of ''data:b'' @ [13, 10, 13], [10] @ bytes_of ''data: [DONE]'']"

lemma demo_stream_bytes:
  "concat demo_stream = [100, 97, 116, 97, 58, 32, 97, 13, 10, 100, 97, 116, 97, 58, 98, 13, 10, 13, 10, 100, 97, 116, 97, 58, 32, 91, 68, 79, 78, 69, 93]"
  by (simp add: demo_stream_def bytes_of_def)

lemma demo_stream_read:
  "read_bytes (concat demo_stream) (fresh_reader False) =
     (\<lparr>lr_runs = [], lr_line = bytes_of ''data: [DONE]'', lr_cr = False\<rparr>, [[bytes_of ''data: a'', bytes_of ''data:b'']])"
  by (simp add: demo_stream_bytes read_byte_def eol_def CR_def LF_def bytes_of_def)

lemma demo_stream_events: "reference_events (concat demo_stream) = [SseData (text_of [CHR ''a'', CHR 0x0A, CHR ''b'']), SseDone]"
proof -
  have "lines_event [bytes_of ''data: a'', bytes_of ''data:b''] = Some (SseData (text_of [CHR ''a'', CHR 0x0A, CHR ''b'']))"
    by (simp add: lines_event_def read_line_def parse_field_def add_field_def fields_default_def UTF8_BOM_def bytes_of_def ascii_def
        Let_def event_of_data_def LF_def lossy_ascii text_of_def trim_text_def unicode_space_def)
  moreover have "lines_event [bytes_of ''data: [DONE]''] = Some SseDone"
    by (simp add: lines_event_def read_line_def parse_field_def add_field_def fields_default_def UTF8_BOM_def bytes_of_def ascii_def
        Let_def event_of_data_def LF_def lossy_ascii text_of_def trim_text_def unicode_space_def)
  ultimately show ?thesis by (simp add: reference_events_def demo_stream_read bytes_of_def)
qed


text \<open>A byte order mark at a frame whose preceding \<open>CR LF\<close> is cut in two is not skipped, and the event is
  lost; uncut it is read.\<close>

lemma take_frames_step:
  "next_frame sp = (sp1, Inr (Some frame)) \<Longrightarrow> take_frames sp out = take_frames sp1 (out @ [frame])"
  "next_frame sp = (sp1, Inr None) \<Longrightarrow> take_frames sp out = (sp1, out)"
  by (simp_all add: take_frames.simps [of sp])

lemma decode_by_runs:
  "decode_event frame =
     event_of_data (fld_data (read_lines (all_runs [] (case strip_prefix_bytes UTF8_BOM frame of Some rest \<Rightarrow> rest | None \<Rightarrow> frame)) fields_default))"
proof (cases "strip_prefix_bytes UTF8_BOM frame")
  case (Some rest)
  then have "drop (length UTF8_BOM) frame = rest" by (simp add: strip_prefix_bytes_Some)
  with Some lines_from_runs [of frame _ "length UTF8_BOM"] show ?thesis
    by (simp add: decode_event_def parse_frame_def sse_lines_def)
next
  case None
  with lines_from_runs [of frame _ 0] show ?thesis by (simp add: decode_event_def parse_frame_def sse_lines_def)
qed

definition marked_frame :: bytes where "marked_frame = UTF8_BOM @ bytes_of ''data:b'' @ [10, 10]"

lemma bom_after_cut_crlf_loses_event:
  "relay [[13], 10 # marked_frame] (splitter_new 100) [] = (splitter_new 100, [[13], 10 # marked_frame])"
  "relay [[13, 10] @ marked_frame] (splitter_new 100) [] = (splitter_new 100, [[13, 10], marked_frame])"
  "decode_event (10 # marked_frame) = None" "decode_event marked_frame = Some (SseData (text_of ''b''))"
proof -
  note frame = marked_frame_def UTF8_BOM_def bytes_of_def
  note scans = next_frame_def scan_def scan_loop.simps term_len_def byte_at_def eol_def CR_def LF_def Let_def
  have n0: "next_frame \<lparr>sp_buf = [], sp_scanned = 0, sp_after_cr = c, max_frame_bytes = 100\<rparr> =
      (\<lparr>sp_buf = [], sp_scanned = 0, sp_after_cr = c, max_frame_bytes = 100\<rparr>, Inr None)" for c
    by (simp add: scans)
  have n1: "next_frame \<lparr>sp_buf = [13], sp_scanned = 0, sp_after_cr = False, max_frame_bytes = 100\<rparr> =
      (\<lparr>sp_buf = [], sp_scanned = 0, sp_after_cr = True, max_frame_bytes = 100\<rparr>, Inr (Some [13]))"
    by (simp add: scans)
  have n2: "next_frame \<lparr>sp_buf = 10 # marked_frame, sp_scanned = 0, sp_after_cr = True, max_frame_bytes = 100\<rparr> =
      (\<lparr>sp_buf = [], sp_scanned = 0, sp_after_cr = False, max_frame_bytes = 100\<rparr>, Inr (Some (10 # marked_frame)))"
    by (simp add: scans frame)
  have n3: "next_frame \<lparr>sp_buf = 13 # 10 # marked_frame, sp_scanned = 0, sp_after_cr = False, max_frame_bytes = 100\<rparr> =
      (\<lparr>sp_buf = marked_frame, sp_scanned = 0, sp_after_cr = False, max_frame_bytes = 100\<rparr>, Inr (Some [13, 10]))"
    by (simp add: scans frame)
  have n4: "next_frame \<lparr>sp_buf = marked_frame, sp_scanned = 0, sp_after_cr = False, max_frame_bytes = 100\<rparr> =
      (\<lparr>sp_buf = [], sp_scanned = 0, sp_after_cr = False, max_frame_bytes = 100\<rparr>, Inr (Some marked_frame))"
    by (simp add: scans frame)
  show "relay [[13], 10 # marked_frame] (splitter_new 100) [] = (splitter_new 100, [[13], 10 # marked_frame])"
    by (simp add: splitter_new_def splitter_push_def take_frames_step(1) [OF n1] take_frames_step(1) [OF n2] take_frames_step(2) [OF n0])
  show "relay [[13, 10] @ marked_frame] (splitter_new 100) [] = (splitter_new 100, [[13, 10], marked_frame])"
    by (simp add: splitter_new_def splitter_push_def take_frames_step(1) [OF n3] take_frames_step(1) [OF n4] take_frames_step(2) [OF n0])
  note fields = decode_by_runs all_runs_simps eol_def CR_def LF_def read_line_def parse_field_def add_field_def fields_default_def
    ascii_def event_of_data_def Let_def
  show "decode_event (10 # marked_frame) = None" by (simp add: fields frame)
  show "decode_event marked_frame = Some (SseData (text_of ''b''))"
    by (simp add: fields frame lossy_ascii text_of_def trim_text_def unicode_space_def)
qed

section \<open>Rewriting in place\<close>

text \<open>The ranges a rewriter writes back into hold the data values of the frame, in order.\<close>

lemma parse_field_value:
  assumes "parse_field line = Some (name, v)"
  shows "length v \<le> length line \<and> v = drop (length line - length v) line"
proof -
  have strip: "strip_prefix_bytes [ascii CHR '' ''] w = Some u \<Longrightarrow> w = ascii CHR '' '' # u" for w u
    by (simp add: strip_prefix_bytes_Some)
  have suffix: "length v \<le> length line \<and> v = drop (length line - length v) line" if "line = p @ v" for p
    using that by simp
  show ?thesis
  proof (cases "position (\<lambda>b. b = ascii CHR '':'') line")
    case None
    with assms show ?thesis by (auto simp: parse_field_def split: if_splits)
  next
    case (Some colon)
    from Some assms have v: "v = (case strip_prefix_bytes [ascii CHR '' ''] (drop (colon + 1) line) of Some w \<Rightarrow> w | None \<Rightarrow> drop (colon + 1) line)"
      by (auto simp: parse_field_def Let_def simp del: One_nat_def split: if_splits)
    show ?thesis
    proof (cases "strip_prefix_bytes [ascii CHR '' ''] (drop (colon + 1) line)")
      case None
      with v suffix [of "take (colon + 1) line"] show ?thesis by simp
    next
      case (Some w)
      with v strip [OF Some] have "line = (take (colon + 1) line @ [ascii CHR '' '']) @ v"
        by (metis append.assoc append_Cons append_Nil append_take_drop_id option.simps(5))
      then show ?thesis by (rule suffix)
    qed
  qed
qed


definition frame_values :: "bytes \<Rightarrow> bytes list" where
  "frame_values frame = map (\<lambda>(i, j). subrange frame i j) (data_ranges frame)"

fun data_values :: "bytes list \<Rightarrow> bytes list" where
  "data_values [] = []"
| "data_values (l # ls) =
     (case parse_field l of
        Some (name, v) \<Rightarrow> if name = bytes_of ''data'' then v # data_values ls else data_values ls
      | None \<Rightarrow> data_values ls)"

fun join_lines :: "bytes list \<Rightarrow> bytes option" where
  "join_lines [] = None"
| "join_lines (v # vs) = Some (foldl (\<lambda>acc w. acc @ [LF] @ w) v vs)"

lemma lines_in_frame: "l \<in> set (lines_from frame pos) \<Longrightarrow> pos \<le> line_start l \<and> line_start l \<le> line_end l \<and> line_end l \<le> length frame"
proof (induction frame pos rule: lines_from.induct)
  case (1 frame pos)
  show ?case
  proof (cases "pos \<ge> length frame")
    case True
    with 1(2) show ?thesis by (simp add: lines_from.simps [of frame pos])
  next
    case False
    show ?thesis
    proof (cases "position eol (drop pos frame)")
      case None
      with 1(2) False show ?thesis
        by (auto simp: lines_from.simps [of frame pos] lines_from.simps [of frame "length frame"] Let_def)
    next
      case (Some off)
      note pos = position_SomeD(1) [OF Some]
      let ?n = "pos + off + term_len frame (pos + off)"
      from 1(2) Some False consider "l = \<lparr>line_start = pos, line_end = pos + off, term_end = ?n\<rparr>" | "l \<in> set (lines_from frame ?n)"
        by (auto simp: lines_from.simps [of frame pos] Let_def)
      then show ?thesis
      proof cases
        case 1
        then show ?thesis using pos by simp
      next
        case 2
        have "?n \<le> line_start l \<and> line_start l \<le> line_end l \<and> line_end l \<le> length frame"
          by (rule 1(1) [OF False refl _ 2]) (simp add: Some)
        then show ?thesis by simp
      qed
    qed
  qed
qed

lemma value_in_frame:
  assumes "l \<in> set (sse_lines frame)" and "parse_field (line_content frame l) = Some (name, v)"
  shows "subrange frame (line_end l - length v) (line_end l) = v"
proof -
  have l: "line_start l \<le> line_end l" "line_end l \<le> length frame"
    using lines_in_frame assms(1) by (auto simp: sse_lines_def)
  let ?line = "line_content frame l"
  have len: "length ?line = line_end l - line_start l" using l by (simp add: line_content_def subrange_def)
  from parse_field_value [OF assms(2)] have v: "length v \<le> length ?line" "v = drop (length ?line - length v) ?line" by blast+
  have "?line = subrange frame (line_start l) (line_end l - length v) @ subrange frame (line_end l - length v) (line_end l)"
    using subrange_append [of "line_start l" "line_end l - length v" "line_end l" frame] v(1) len l
    by (simp add: line_content_def)
  moreover have "length (subrange frame (line_start l) (line_end l - length v)) = length ?line - length v"
    using v(1) len l by (simp add: subrange_def)
  ultimately show ?thesis using v(2) by simp
qed

lemma frame_values_lines: "frame_values frame = data_values (map (line_content frame) (sse_lines frame))"
proof -
  have "map (\<lambda>(i, j). subrange frame i j) (List.map_filter (data_range frame) ls) = data_values (map (line_content frame) ls)"
    if "set ls \<subseteq> set (sse_lines frame)" for ls
    using that
  proof (induction ls)
    case (Cons l ls)
    then have l: "l \<in> set (sse_lines frame)" by simp
    show ?case
    proof (cases "parse_field (line_content frame l)")
      case None
      with Cons show ?thesis by (simp add: data_range_def List.map_filter_simps)
    next
      case (Some nv)
      obtain name v where nv: "nv = (name, v)" by fastforce
      with Some value_in_frame [OF l] Cons show ?thesis
        by (auto simp: data_range_def List.map_filter_simps)
    qed
  qed (simp add: List.map_filter_simps)
  then show ?thesis by (simp add: frame_values_def data_ranges_def)
qed

lemma read_data:
  "fld_data (foldl (\<lambda>f l. read_line l f) f ls) =
     (if fld_data f = None then join_lines (data_values ls)
      else Some (foldl (\<lambda>acc w. acc @ [LF] @ w) (the (fld_data f)) (data_values ls)))"
proof (induction ls arbitrary: f)
  case Nil
  show ?case by auto
next
  case (Cons l ls)
  show ?case
  proof (cases "parse_field l")
    case None
    then show ?thesis using Cons [of f] by (simp add: read_line_def)
  next
    case (Some nv)
    obtain name v where nv: "nv = (name, v)" by fastforce
    show ?thesis
    proof (cases "name = bytes_of ''data''")
      case True
      with Some nv Cons [of "add_field name v f"] show ?thesis
        by (cases "fld_data f") (simp_all add: read_line_def add_field_def)
    next
      case False
      then have "fld_data (add_field name v f) = fld_data f" by (simp add: add_field_def)
      with False Some nv Cons [of "add_field name v f"] show ?thesis by (simp add: read_line_def)
    qed
  qed
qed

text \<open>A rewriter that replaces the ranges of \<open>data_ranges\<close> replaces the payload and nothing else: the
  bytes in the ranges, joined with line feeds, are the frame's data.\<close>

theorem data_ranges_hold_the_data: "fld_data (parse_frame frame) = join_lines (frame_values frame)"
proof -
  have "parse_frame frame = foldl (\<lambda>f l. read_line l f) fields_default (map (line_content frame) (sse_lines frame))"
    by (simp add: parse_frame_def foldl_map)
  then show ?thesis by (simp add: read_data frame_values_lines fields_default_def)
qed

end
