(* ===== verification/Gateway_Errors.thy ===== *)
theory Gateway_Errors
  imports Rate_Limit
begin

text \<open>
  The error taxonomies: \<^verbatim>\<open>BridgeError\<close> of \<^verbatim>\<open>crates/aisix-gateway/src/bridge.rs\<close>,
  \<^verbatim>\<open>ProxyError\<close> of \<^verbatim>\<open>crates/aisix-proxy/src/error.rs\<close>, and what a caller of a shared platform
  is told instead of them, from \<^verbatim>\<open>crates/aisix-proxy/src/platform_errors.rs\<close>. Strings are byte
  strings; a \<^verbatim>\<open>Duration\<close> is a number of milliseconds. Whether the request is served in platform
  mode is read from a task-local cell in the code and is an argument here.
\<close>

section \<open>Errors of an upstream call\<close>

datatype upstream_wire = WireOpenAI | WireAnthropic | WireAzureOpenAI | WireBedrock | WireVertex | WireUnknown

record upstream_error_view =
  view_kind :: "string option"
  view_message :: "string option"
  view_code :: "string option"
  view_param :: "string option"

datatype bridge_capability = Embeddings | TextCompletions | ImageGeneration | AnthropicMessages

fun capability_str :: "bridge_capability \<Rightarrow> string" where
  "capability_str Embeddings = ''embeddings''"
| "capability_str TextCompletions = ''text completions''"
| "capability_str ImageGeneration = ''image generation''"
| "capability_str AnthropicMessages = ''Anthropic messages''"

datatype bridge_error =
    Timeout (elapsed_ms: nat) (timeout_cause: string)
  | UpstreamStatus (up_status: nat) (up_message: string) (up_parsed: "upstream_error_view option")
      (up_wire: upstream_wire) (up_retry_after: "nat option") (up_diagnostic: "string option")
  | UpstreamBodyUnread nat string string
  | UpstreamDecode string
  | TokenExchangeDecode string
  | UpstreamInBand "nat option" string "upstream_error_view option" upstream_wire
  | Config string
  | UnsupportedCapability bridge_capability
  | InvalidUpstreamConfig string
  | BInvalidRequest string
  | BRequestTooLarge nat nat nat
  | InvalidUpstreamCredentials string
  | Transport string
  | StreamAborted

definition client_error :: "nat \<Rightarrow> bool" where
  "client_error s \<longleftrightarrow> 400 \<le> s \<and> s < 500"

fun http_status :: "bridge_error \<Rightarrow> nat" where
  "http_status (Timeout _ _) = 504"
| "http_status (UpstreamStatus s _ _ _ _ _) = (if client_error s then s else 502)"
| "http_status (UpstreamDecode _) = 502"
| "http_status (UpstreamBodyUnread _ _ _) = 502"
| "http_status (TokenExchangeDecode _) = 502"
| "http_status (UpstreamInBand s _ _ _) =
     (case s of Some n \<Rightarrow> if client_error n then n else 502 | None \<Rightarrow> 502)"
| "http_status (Config _) = 500"
| "http_status (UnsupportedCapability _) = 500"
| "http_status (InvalidUpstreamConfig _) = 400"
| "http_status (BInvalidRequest _) = 400"
| "http_status (BRequestTooLarge _ _ _) = 413"
| "http_status (InvalidUpstreamCredentials _) = 401"
| "http_status (Transport _) = 502"
| "http_status StreamAborted = 502"

fun reached_upstream :: "bridge_error \<Rightarrow> bool" where
  "reached_upstream (Timeout _ _) = True"
| "reached_upstream (UpstreamStatus _ _ _ _ _ _) = True"
| "reached_upstream (UpstreamDecode _) = True"
| "reached_upstream (UpstreamBodyUnread _ _ _) = True"
| "reached_upstream (TokenExchangeDecode _) = True"
| "reached_upstream (UpstreamInBand _ _ _ _) = True"
| "reached_upstream (Transport _) = True"
| "reached_upstream StreamAborted = True"
| "reached_upstream (Config _) = False"
| "reached_upstream (UnsupportedCapability _) = False"
| "reached_upstream (InvalidUpstreamConfig _) = False"
| "reached_upstream (BInvalidRequest _) = False"
| "reached_upstream (BRequestTooLarge _ _ _) = False"
| "reached_upstream (InvalidUpstreamCredentials _) = False"

fun error_type :: "bridge_error \<Rightarrow> string" where
  "error_type (Timeout _ _) = ''timeout''"
| "error_type (UpstreamStatus _ _ _ _ _ _) = ''upstream_error''"
| "error_type (UpstreamDecode _) = ''upstream_decode_error''"
| "error_type (UpstreamBodyUnread _ _ _) = ''upstream_decode_error''"
| "error_type (TokenExchangeDecode _) = ''upstream_decode_error''"
| "error_type (UpstreamInBand _ _ _ _) = ''upstream_in_band_error''"
| "error_type (Config _) = ''config_error''"
| "error_type (UnsupportedCapability _) = ''config_error''"
| "error_type (InvalidUpstreamConfig _) = ''invalid_request_error''"
| "error_type (BInvalidRequest _) = ''invalid_request_error''"
| "error_type (BRequestTooLarge _ _ _) = ''invalid_request_error''"
| "error_type (InvalidUpstreamCredentials _) = ''authentication_error''"
| "error_type (Transport _) = ''transport_error''"
| "error_type StreamAborted = ''stream_aborted''"

definition upstream_status :: "nat \<Rightarrow> string \<Rightarrow> bridge_error" where
  "upstream_status s m = UpstreamStatus s m None WireUnknown None None"

definition upstream_status_with_retry_after :: "nat \<Rightarrow> string \<Rightarrow> nat option \<Rightarrow> bridge_error" where
  "upstream_status_with_retry_after s m r = UpstreamStatus s m None WireUnknown r None"

fun with_body_read_error :: "bridge_error \<Rightarrow> string option \<Rightarrow> bridge_error" where
  "with_body_read_error (UpstreamStatus s m p w r d) (Some reason) =
     UpstreamStatus s m p w r
       (Some (''upstream returned HTTP '' @ nat_str s @ '': failed to read response body: '' @ reason))"
| "with_body_read_error e _ = e"

section \<open>Errors of the proxy\<close>

datatype token_exchange_failure =
  XNoSubject | XSubjectRejected "string option" | XMisconfigured | XUnavailable

datatype user_oauth_failure = UNoSubject | UAuthorizationRequired | UMisconfigured | UUnavailable

datatype decision_failure =
    ClassifierTimeout | ClassifierUpstream | ClassifierInvalidResponse | ClassifierUnavailable
  | EmbeddingTimeout | EmbeddingUpstream | EmbeddingUnavailable

datatype budget_scope =
  BudgetOrg | BudgetEnvironment | BudgetApiKey | BudgetMember | BudgetTeam | BudgetTeamMember
| BudgetTag | BudgetProviderKey

record budget_reason =
  br_message :: string
  br_scope :: "string option"
  br_scope_kind :: "budget_scope option"
  br_caller_message :: "string option"
  br_scope_ref :: "string option"
  br_limit_usd :: "string option"
  br_spent_usd :: "string option"
  br_remaining_usd :: "string option"
  br_period :: "string option"
  br_period_resets_at :: "string option"
  br_retry_after_seconds :: "nat option"

datatype proxy_error =
    MissingAuth string
  | MissingRouteAuthHeader string
  | InvalidApiKey
  | ApiKeyExpired
  | ApiKeyDisabled
  | JwtInvalid
  | JwtExpired
  | JwtClaimsRejected
  | JwtInsufficientScope "string list"
  | JwtIdentityUnmapped
  | JwksUnavailable
  | McpTokenExchange token_exchange_failure
  | McpUserOAuth user_oauth_failure string
  | ModelNotFound string
  | VideoNotFound string
  | JobResourceNotFound string
  | ResponseNotFound
  | StoredObjectReference string
  | JobListRefused
  | ModelForbidden string
  | ModelIpRestricted string
  | RouteIpRestricted string
  | RouteForbidden string
  | InvalidRequest string
  | UnusableTarget string
  | TargetRefused string
  | WebSocketUpgradeRequired nat string
  | ProviderUnavailable
  | SemanticDecisionFailed string decision_failure
  | AllCandidatesUnavailable "nat option"
  | ContentFiltered string "string option"
  | BudgetExceeded budget_reason
  | BudgetUnverified
  | RequestTooLarge nat
  | RateLimit rate_limit_error
  | ModelRateLimit rate_limit_error
  | PolicyRateLimit rate_limit_error string string bool
  | Bridge bridge_error

fun exchange_status :: "token_exchange_failure \<Rightarrow> nat" where
  "exchange_status XNoSubject = 401"
| "exchange_status (XSubjectRejected _) = 401"
| "exchange_status XMisconfigured = 500"
| "exchange_status XUnavailable = 503"

fun user_oauth_status :: "user_oauth_failure \<Rightarrow> nat" where
  "user_oauth_status UAuthorizationRequired = 401"
| "user_oauth_status UNoSubject = 403"
| "user_oauth_status UMisconfigured = 500"
| "user_oauth_status UUnavailable = 503"

definition valid_status :: "nat \<Rightarrow> bool" where
  "valid_status n \<longleftrightarrow> 100 \<le> n \<and> n < 1000"

definition proxy_status :: "proxy_error \<Rightarrow> nat" where
  "proxy_status e =
     (case e of
        MissingRouteAuthHeader _ \<Rightarrow> 401 | MissingAuth _ \<Rightarrow> 401 | InvalidApiKey \<Rightarrow> 401
      | ApiKeyExpired \<Rightarrow> 401 | ApiKeyDisabled \<Rightarrow> 401 | JwtInvalid \<Rightarrow> 401 | JwtExpired \<Rightarrow> 401
      | JwtIdentityUnmapped \<Rightarrow> 401
      | JwtClaimsRejected \<Rightarrow> 403 | JwtInsufficientScope _ \<Rightarrow> 403
      | JwksUnavailable \<Rightarrow> 503
      | McpTokenExchange f \<Rightarrow> exchange_status f
      | McpUserOAuth f _ \<Rightarrow> user_oauth_status f
      | ModelForbidden _ \<Rightarrow> 403 | ModelIpRestricted _ \<Rightarrow> 403 | RouteIpRestricted _ \<Rightarrow> 403
      | RouteForbidden _ \<Rightarrow> 403
      | ModelNotFound _ \<Rightarrow> 404 | VideoNotFound _ \<Rightarrow> 404 | JobResourceNotFound _ \<Rightarrow> 404
      | ResponseNotFound \<Rightarrow> 404
      | StoredObjectReference _ \<Rightarrow> 400
      | JobListRefused \<Rightarrow> 403
      | InvalidRequest _ \<Rightarrow> 400 | UnusableTarget _ \<Rightarrow> 400 | TargetRefused _ \<Rightarrow> 400
      | WebSocketUpgradeRequired s _ \<Rightarrow> s
      | ProviderUnavailable \<Rightarrow> 503 | SemanticDecisionFailed _ _ \<Rightarrow> 503
      | AllCandidatesUnavailable _ \<Rightarrow> 503
      | ContentFiltered _ _ \<Rightarrow> 422
      | BudgetExceeded _ \<Rightarrow> 429
      | BudgetUnverified \<Rightarrow> 503
      | RequestTooLarge _ \<Rightarrow> 413
      | RateLimit _ \<Rightarrow> 429 | ModelRateLimit _ \<Rightarrow> 429 | PolicyRateLimit _ _ _ _ \<Rightarrow> 429
      | Bridge b \<Rightarrow> if valid_status (http_status b) then http_status b else 502)"

fun exchange_kind :: "token_exchange_failure \<Rightarrow> string" where
  "exchange_kind XNoSubject = ''authentication_error''"
| "exchange_kind (XSubjectRejected _) = ''authentication_error''"
| "exchange_kind XMisconfigured = ''api_error''"
| "exchange_kind XUnavailable = ''api_error''"

fun user_oauth_kind :: "user_oauth_failure \<Rightarrow> string" where
  "user_oauth_kind UAuthorizationRequired = ''authentication_error''"
| "user_oauth_kind UNoSubject = ''permission_denied''"
| "user_oauth_kind UMisconfigured = ''api_error''"
| "user_oauth_kind UUnavailable = ''api_error''"

definition proxy_kind :: "proxy_error \<Rightarrow> string" where
  "proxy_kind e =
     (case e of
        MissingRouteAuthHeader _ \<Rightarrow> ''invalid_api_key'' | MissingAuth _ \<Rightarrow> ''invalid_api_key''
      | InvalidApiKey \<Rightarrow> ''invalid_api_key'' | ApiKeyExpired \<Rightarrow> ''invalid_api_key''
      | ApiKeyDisabled \<Rightarrow> ''invalid_api_key'' | JwtInvalid \<Rightarrow> ''invalid_api_key''
      | JwtExpired \<Rightarrow> ''invalid_api_key'' | JwtIdentityUnmapped \<Rightarrow> ''invalid_api_key''
      | JwtClaimsRejected \<Rightarrow> ''permission_denied'' | JwtInsufficientScope _ \<Rightarrow> ''permission_denied''
      | JwksUnavailable \<Rightarrow> ''api_error''
      | McpTokenExchange f \<Rightarrow> exchange_kind f
      | McpUserOAuth f _ \<Rightarrow> user_oauth_kind f
      | ModelForbidden _ \<Rightarrow> ''permission_denied'' | ModelIpRestricted _ \<Rightarrow> ''permission_denied''
      | RouteIpRestricted _ \<Rightarrow> ''permission_denied'' | RouteForbidden _ \<Rightarrow> ''permission_denied''
      | ModelNotFound _ \<Rightarrow> ''model_not_found'' | VideoNotFound _ \<Rightarrow> ''video_not_found''
      | JobResourceNotFound _ \<Rightarrow> ''resource_not_found'' | ResponseNotFound \<Rightarrow> ''response_not_found''
      | StoredObjectReference _ \<Rightarrow> ''invalid_request_error''
      | JobListRefused \<Rightarrow> ''permission_denied''
      | InvalidRequest _ \<Rightarrow> ''invalid_request_error'' | UnusableTarget _ \<Rightarrow> ''invalid_request_error''
      | TargetRefused _ \<Rightarrow> ''invalid_request_error''
      | WebSocketUpgradeRequired _ _ \<Rightarrow> ''websocket_upgrade_required''
      | RequestTooLarge _ \<Rightarrow> ''invalid_request_error''
      | ProviderUnavailable \<Rightarrow> ''provider_unavailable''
      | SemanticDecisionFailed _ _ \<Rightarrow> ''api_error''
      | AllCandidatesUnavailable _ \<Rightarrow> ''all_candidates_unavailable''
      | ContentFiltered _ _ \<Rightarrow> ''content_filter''
      | BudgetExceeded _ \<Rightarrow> ''billing_error''
      | BudgetUnverified \<Rightarrow> ''api_error''
      | RateLimit _ \<Rightarrow> ''rate_limit_exceeded'' | ModelRateLimit _ \<Rightarrow> ''rate_limit_exceeded''
      | PolicyRateLimit _ _ _ _ \<Rightarrow> ''rate_limit_exceeded''
      | Bridge b \<Rightarrow> error_type b)"

definition is_guardrail_block :: "proxy_error \<Rightarrow> bool" where
  "is_guardrail_block e = (case e of ContentFiltered _ _ \<Rightarrow> True | _ \<Rightarrow> False)"

definition proxy_retry_after_secs :: "proxy_error \<Rightarrow> nat option" where
  "proxy_retry_after_secs e =
     (case e of
        RateLimit r \<Rightarrow> error_retry_after_secs r
      | ModelRateLimit r \<Rightarrow> error_retry_after_secs r
      | PolicyRateLimit r _ _ _ \<Rightarrow> error_retry_after_secs r
      | AllCandidatesUnavailable r \<Rightarrow> r
      | BudgetExceeded b \<Rightarrow> br_retry_after_seconds b
      | Bridge (UpstreamStatus s _ _ _ (Some d) _) \<Rightarrow> if s = 429 then Some (d div 1000) else None
      | _ \<Rightarrow> None)"

section \<open>Platform mode\<close>

datatype platform_error_class =
    PContextLengthExceeded
  | PRateLimited
  | PInvalidRequest "string option"
  | PContentFiltered
  | PAuthentication
  | PNotFound
  | PUpstreamUnavailable
  | PInternal

fun class_status :: "platform_error_class \<Rightarrow> nat" where
  "class_status PContextLengthExceeded = 400"
| "class_status (PInvalidRequest _) = 400"
| "class_status PContentFiltered = 400"
| "class_status PRateLimited = 429"
| "class_status PAuthentication = 401"
| "class_status PNotFound = 404"
| "class_status PUpstreamUnavailable = 503"
| "class_status PInternal = 500"

fun class_kind :: "platform_error_class \<Rightarrow> string" where
  "class_kind PContextLengthExceeded = ''invalid_request_error''"
| "class_kind (PInvalidRequest _) = ''invalid_request_error''"
| "class_kind PContentFiltered = ''invalid_request_error''"
| "class_kind PNotFound = ''invalid_request_error''"
| "class_kind PRateLimited = ''rate_limit_error''"
| "class_kind PAuthentication = ''authentication_error''"
| "class_kind PUpstreamUnavailable = ''server_error''"
| "class_kind PInternal = ''server_error''"

fun class_code :: "platform_error_class \<Rightarrow> string" where
  "class_code PContextLengthExceeded = ''context_length_exceeded''"
| "class_code PRateLimited = ''rate_limited''"
| "class_code (PInvalidRequest _) = ''invalid_request''"
| "class_code PContentFiltered = ''content_filter''"
| "class_code PAuthentication = ''invalid_api_key''"
| "class_code PNotFound = ''not_found''"
| "class_code PUpstreamUnavailable = ''upstream_unavailable''"
| "class_code PInternal = ''internal_error''"

definition anthropic_kind_from_status :: "nat \<Rightarrow> string" where
  "anthropic_kind_from_status s =
     (if s = 400 \<or> s = 422 then ''invalid_request_error''
      else if s = 401 then ''authentication_error''
      else if s = 403 then ''permission_error''
      else if s = 404 then ''not_found_error''
      else if s = 413 then ''request_too_large''
      else if s = 429 then ''rate_limit_error''
      else if s = 503 then ''overloaded_error''
      else if s = 408 then ''timeout_error''
      else ''api_error'')"

definition class_anthropic_kind :: "platform_error_class \<Rightarrow> string" where
  "class_anthropic_kind c = anthropic_kind_from_status (class_status c)"

fun platform_message :: "platform_error_class \<Rightarrow> string" where
  "platform_message PContextLengthExceeded = ''The request exceeds the model's context length.''"
| "platform_message PRateLimited = ''Rate limit exceeded. Retry later.''"
| "platform_message (PInvalidRequest _) = ''The request is invalid.''"
| "platform_message PContentFiltered = ''The request or response was blocked by content policy.''"
| "platform_message PAuthentication = ''Invalid API key.''"
| "platform_message PNotFound = ''The requested resource was not found.''"
| "platform_message PUpstreamUnavailable = ''The model is temporarily unavailable. Retry later.''"
| "platform_message PInternal = ''Internal error.''"

record error_body =
  eb_message :: string
  eb_kind :: string
  eb_param :: "string option"
  eb_code :: "string option"

definition class_envelope :: "platform_error_class \<Rightarrow> error_body" where
  "class_envelope c =
     \<lparr>eb_message = platform_message c, eb_kind = class_kind c,
      eb_param = (case c of PInvalidRequest p \<Rightarrow> p | _ \<Rightarrow> None),
      eb_code = Some (class_code c)\<rparr>"

subsection \<open>Classification\<close>

definition CONTENT_FILTER_TOKENS :: "string list" where
  "CONTENT_FILTER_TOKENS =
     [''content_filter'', ''content_policy_violation'', ''ResponsibleAIPolicyViolation'']"

definition CONTEXT_OVERFLOW_MARKERS :: "string list" where
  "CONTEXT_OVERFLOW_MARKERS =
     [''context_length_exceeded'', ''maximum context length'', ''context window'',
      ''prompt is too long'', ''input is too long'', ''exceeds the maximum number of tokens'']"

definition RATE_LIMIT_TOKENS :: "string list" where
  "RATE_LIMIT_TOKENS = [''rate_limit_exceeded'', ''rate_limit_error'']"

definition view_names :: "upstream_error_view option \<Rightarrow> string list \<Rightarrow> bool" where
  "view_names view tokens =
     (case view of
        None \<Rightarrow> False
      | Some v \<Rightarrow> list_ex (\<lambda>x. case x of Some t \<Rightarrow> t \<in> set tokens | None \<Rightarrow> False)
                    [view_code v, view_kind v])"

text \<open>The shape a field name of the caller's own request has.\<close>

definition field_shaped :: "string \<Rightarrow> bool" where
  "field_shaped p \<longleftrightarrow>
     length p \<le> 256 \<and> list_all (\<lambda>c. ascii_alnum c \<or> c \<in> set ''_.[]'') p"

definition classify_upstream ::
    "nat option \<Rightarrow> upstream_error_view option \<Rightarrow> string \<Rightarrow> platform_error_class" where
  "classify_upstream st view message =
     (if view_names view CONTENT_FILTER_TOKENS then PContentFiltered
      else if (st = None \<or> st = Some 400) \<and>
              (view_names view [''context_length_exceeded''] \<or>
               list_ex (\<lambda>m. contains m (map ascii_lower message)) CONTEXT_OVERFLOW_MARKERS)
      then PContextLengthExceeded
      else
        (case st of
           None \<Rightarrow> if view_names view RATE_LIMIT_TOKENS then PRateLimited else PUpstreamUnavailable
         | Some s \<Rightarrow>
             if s = 429 then PRateLimited
             else if s = 401 \<or> s = 403 then PUpstreamUnavailable
             else if s = 404 then PNotFound
             else if client_error s
             then PInvalidRequest
                    (Option.bind view (\<lambda>v. Option.bind (view_param v)
                       (\<lambda>p. if field_shaped p then Some p else None)))
             else PUpstreamUnavailable))"

fun classify_bridge :: "bridge_error \<Rightarrow> platform_error_class" where
  "classify_bridge (UpstreamStatus s m p _ _ _) = classify_upstream (Some s) p m"
| "classify_bridge (UpstreamInBand s m p _) = classify_upstream s p m"
| "classify_bridge (BInvalidRequest _) = PInvalidRequest None"
| "classify_bridge (BRequestTooLarge _ _ _) = PInvalidRequest None"
| "classify_bridge (Config _) = PInternal"
| "classify_bridge (UnsupportedCapability _) = PInternal"
| "classify_bridge (InvalidUpstreamConfig _) = PUpstreamUnavailable"
| "classify_bridge (InvalidUpstreamCredentials _) = PUpstreamUnavailable"
| "classify_bridge (Timeout _ _) = PUpstreamUnavailable"
| "classify_bridge (UpstreamDecode _) = PUpstreamUnavailable"
| "classify_bridge (UpstreamBodyUnread _ _ _) = PUpstreamUnavailable"
| "classify_bridge (TokenExchangeDecode _) = PUpstreamUnavailable"
| "classify_bridge (Transport _) = PUpstreamUnavailable"
| "classify_bridge StreamAborted = PUpstreamUnavailable"

definition class_by_status :: "nat \<Rightarrow> platform_error_class" where
  "class_by_status s =
     (if s = 401 then PAuthentication
      else if s = 404 then PNotFound
      else if s = 422 then PContentFiltered
      else if s = 429 then PRateLimited
      else if s = 503 then PUpstreamUnavailable
      else if client_error s then PInvalidRequest None
      else PInternal)"

definition classify :: "proxy_error \<Rightarrow> platform_error_class" where
  "classify e =
     (case e of
        Bridge b \<Rightarrow> classify_bridge b
      | UnusableTarget _ \<Rightarrow> PUpstreamUnavailable
      | TargetRefused _ \<Rightarrow> PInvalidRequest None
      | ResponseNotFound \<Rightarrow> PNotFound
      | StoredObjectReference field \<Rightarrow> PInvalidRequest (Some field)
      | _ \<Rightarrow> class_by_status (proxy_status e))"

definition hides_bridge :: "bridge_error \<Rightarrow> bool" where
  "hides_bridge e = (case e of BRequestTooLarge _ _ _ \<Rightarrow> False | _ \<Rightarrow> True)"

definition hides :: "proxy_error \<Rightarrow> bool" where
  "hides e =
     (case e of
        Bridge b \<Rightarrow> hides_bridge b
      | UnusableTarget _ \<Rightarrow> True
      | TargetRefused _ \<Rightarrow> True
      | ResponseNotFound \<Rightarrow> True
      | StoredObjectReference _ \<Rightarrow> True
      | _ \<Rightarrow> False)"

definition caller_class :: "bool \<Rightarrow> proxy_error \<Rightarrow> platform_error_class option" where
  "caller_class platform e = (if platform \<and> hides e then Some (classify e) else None)"

definition caller_error :: "bool \<Rightarrow> proxy_error \<Rightarrow> proxy_error option" where
  "caller_error platform e =
     (case e of
        ModelForbidden m \<Rightarrow> if platform then Some (ModelNotFound m) else None
      | _ \<Rightarrow> None)"

definition stream_class :: "bool \<Rightarrow> bridge_error \<Rightarrow> platform_error_class option" where
  "stream_class platform e = (if platform \<and> hides_bridge e then Some (classify_bridge e) else None)"

text \<open>The recursive call of the code is on the answered error, which is never itself a
  \<^verbatim>\<open>ModelForbidden\<close>, so it ends after one round.\<close>

definition caller_status_own :: "bool \<Rightarrow> proxy_error \<Rightarrow> nat" where
  "caller_status_own platform e =
     (case caller_class platform e of None \<Rightarrow> proxy_status e | Some c \<Rightarrow> class_status c)"

definition caller_status :: "bool \<Rightarrow> proxy_error \<Rightarrow> nat" where
  "caller_status platform e =
     (case caller_error platform e of
        Some answered \<Rightarrow> caller_status_own platform answered
      | None \<Rightarrow> caller_status_own platform e)"

subsection \<open>Headers\<close>

definition rate_limit_detail :: "proxy_error \<Rightarrow> limit_detail option" where
  "rate_limit_detail e =
     (case e of
        RateLimit r \<Rightarrow> error_detail r
      | ModelRateLimit r \<Rightarrow> error_detail r
      | PolicyRateLimit r _ _ _ \<Rightarrow> error_detail r
      | _ \<Rightarrow> None)"

definition caller_rate_limit_detail :: "bool \<Rightarrow> proxy_error \<Rightarrow> limit_detail option" where
  "caller_rate_limit_detail platform e =
     (let shared = (case e of
                      ModelRateLimit _ \<Rightarrow> True
                    | PolicyRateLimit _ _ _ callers_bucket \<Rightarrow> \<not> callers_bucket
                    | _ \<Rightarrow> False)
      in if shared \<and> platform then None else rate_limit_detail e)"

definition hides_budget_scope :: "bool \<Rightarrow> budget_reason \<Rightarrow> bool" where
  "hides_budget_scope platform r =
     (let own_typed = br_scope_kind r \<in> Some ` {BudgetApiKey, BudgetMember, BudgetTeam, BudgetTeamMember};
          own_text = br_scope r \<in> Some ` {''api_key'', ''member'', ''team'', ''team_member''}
      in platform \<and> \<not> (own_typed \<and> own_text))"

definition caller_retry_after_secs :: "bool \<Rightarrow> proxy_error \<Rightarrow> nat option" where
  "caller_retry_after_secs platform e =
     (case e of
        BudgetExceeded r \<Rightarrow>
          if hides_budget_scope platform r then None else proxy_retry_after_secs e
      | _ \<Rightarrow> proxy_retry_after_secs e)"

datatype auth_challenge =
    MissingCredentials
  | InvalidToken
  | InsufficientScope "string list"
  | InsufficientClaims string

definition auth_challenge_of :: "proxy_error \<Rightarrow> auth_challenge option" where
  "auth_challenge_of e =
     (case e of
        MissingAuth _ \<Rightarrow> Some MissingCredentials
      | InvalidApiKey \<Rightarrow> Some InvalidToken
      | ApiKeyExpired \<Rightarrow> Some InvalidToken
      | ApiKeyDisabled \<Rightarrow> Some InvalidToken
      | JwtInvalid \<Rightarrow> Some InvalidToken
      | JwtExpired \<Rightarrow> Some InvalidToken
      | JwtIdentityUnmapped \<Rightarrow> Some InvalidToken
      | JwtInsufficientScope scopes \<Rightarrow> Some (InsufficientScope scopes)
      | McpTokenExchange f \<Rightarrow>
          (case f of
             XSubjectRejected (Some c) \<Rightarrow> Some (InsufficientClaims c)
           | XNoSubject \<Rightarrow> Some InvalidToken
           | XSubjectRejected None \<Rightarrow> Some InvalidToken
           | _ \<Rightarrow> None)
      | _ \<Rightarrow> None)"

section \<open>What the tables guarantee\<close>

lemma http_status_range: "400 \<le> http_status b \<and> http_status b < 600"
  by (cases b) (auto simp: client_error_def split: option.splits)

text \<open>Every error answers with an error status, and no server-side status of an upstream reaches
  a caller.\<close>

lemma proxy_status_range:
  assumes "\<forall>s d. e = WebSocketUpgradeRequired s d \<longrightarrow> 400 \<le> s \<and> s < 600"
  shows "400 \<le> proxy_status e \<and> proxy_status e < 600"
proof (cases e)
  case (McpTokenExchange f)
  then show ?thesis by (cases f) (simp_all add: proxy_status_def)
next
  case (McpUserOAuth f s)
  then show ?thesis by (cases f) (simp_all add: proxy_status_def)
next
  case (Bridge b)
  then show ?thesis using http_status_range [of b] by (simp add: proxy_status_def)
qed (use assms in \<open>simp_all add: proxy_status_def\<close>)

lemma classify_upstream_param:
  "classify_upstream st view m = PInvalidRequest (Some p) \<Longrightarrow> field_shaped p"
  by (auto simp: classify_upstream_def split: option.splits if_splits bind_splits)

lemma classify_bridge_param:
  "classify_bridge b = PInvalidRequest (Some p) \<Longrightarrow> field_shaped p"
  by (cases b) (auto dest: classify_upstream_param)

text \<open>The class of an upstream failure never says anything about the platform's own credential: a
  401 or 403 of the upstream and a broken credential read as an unavailable model.\<close>

lemma upstream_auth_hidden:
  "\<not> view_names view CONTENT_FILTER_TOKENS \<Longrightarrow>
     classify_upstream (Some 401) view m = PUpstreamUnavailable \<and>
     classify_upstream (Some 403) view m = PUpstreamUnavailable"
  by (simp add: classify_upstream_def)

lemma classify_bridge_not_auth: "classify_bridge b \<noteq> PAuthentication"
  by (cases b) (auto simp: classify_upstream_def split: option.splits)

section \<open>Main results\<close>



text \<open>Every proxy error answers with an error status between 400 and 599, a status of an
  upstream passes only when it is a 4xx, and a \<^verbatim>\<open>Retry-After\<close> is sent only with a 429 or a 503.\<close>

theorem proxy_error_statuses:
  assumes "\<forall>s d. e = WebSocketUpgradeRequired s d \<longrightarrow> 400 \<le> s \<and> s < 600"
  shows "400 \<le> proxy_status e \<and> proxy_status e < 600 \<and>
         (\<forall>s m p w r d. e = Bridge (UpstreamStatus s m p w r d) \<longrightarrow>
            proxy_status e = (if 400 \<le> s \<and> s < 500 then s else 502)) \<and>
         (proxy_retry_after_secs e \<noteq> None \<longrightarrow> proxy_status e \<in> {429, 503})"
proof (intro conjI allI impI)
  show "400 \<le> proxy_status e" and "proxy_status e < 600"
    using proxy_status_range [OF assms] by simp_all
  show "proxy_status e = (if 400 \<le> s \<and> s < 500 then s else 502)"
    if "e = Bridge (UpstreamStatus s m p w r d)" for s m p w r d
    by (simp add: that proxy_status_def client_error_def valid_status_def)
  show "proxy_status e \<in> {429, 503}" if "proxy_retry_after_secs e \<noteq> None"
  proof (cases e)
    case (Bridge b)
    with that show ?thesis
      by (cases b) (auto simp: proxy_status_def proxy_retry_after_secs_def client_error_def
          valid_status_def split: option.splits if_splits)
  qed (use that in \<open>simp_all add: proxy_status_def proxy_retry_after_secs_def\<close>)
qed

theorem proxy_error_statuses_witness:
  "proxy_status (Bridge (UpstreamStatus 503 ''down'' None WireOpenAI (Some 9000) None)) = 502"
  using proxy_error_statuses [of "Bridge (UpstreamStatus 503 ''down'' None WireOpenAI (Some 9000) None)"]
  by simp

end
