(* ===== verification/Routing_Config.thy ===== *)
theory Routing_Config
  imports Prelude
begin

text \<open>
  The virtual-routing configuration of \<^verbatim>\<open>crates/aisix-core/src/models/routing.rs\<close>: strategies,
  targets, the routing block and its defaults, and the rewrite of stored rows that still carry
  the retired settings. \<^verbatim>\<open>u32\<close> weights and counts are natural numbers, \<^verbatim>\<open>i32\<close> priorities integers.
\<close>

section \<open>Strategies and targets\<close>

datatype routing_strategy =
  RoundRobin | ConsistentHash | Failover | LeastCost | LeastLatency | LeastBusy

fun is_metric_based :: "routing_strategy \<Rightarrow> bool" where
  "is_metric_based LeastCost = True"
| "is_metric_based LeastLatency = True"
| "is_metric_based LeastBusy = True"
| "is_metric_based _ = False"

datatype hash_on_type = HashHeader | HashCookie | HashApiKey | HashClientIp

record hash_on_source =
  source_type :: hash_on_type
  source_name :: "string option"

definition hash_on_header :: "string \<Rightarrow> hash_on_source" where
  "hash_on_header name = \<lparr>source_type = HashHeader, source_name = Some name\<rparr>"

definition hash_on_cookie :: "string \<Rightarrow> hash_on_source" where
  "hash_on_cookie name = \<lparr>source_type = HashCookie, source_name = Some name\<rparr>"

definition hash_on_api_key :: hash_on_source where
  "hash_on_api_key = \<lparr>source_type = HashApiKey, source_name = None\<rparr>"

definition hash_on_client_ip :: hash_on_source where
  "hash_on_client_ip = \<lparr>source_type = HashClientIp, source_name = None\<rparr>"

definition default_hash_on :: "hash_on_source list" where
  "default_hash_on = [hash_on_header ''x-aisix-routing-key'', hash_on_api_key]"

record routing_target =
  rt_model :: string
  rt_model_id :: "string option"
  rt_weight :: "nat option"
  rt_priority :: "int option"
  rt_tags :: "string list option"

definition DEFAULT_ROUTING_TAG :: string where
  "DEFAULT_ROUTING_TAG = ''default''"

definition target_new :: "string \<Rightarrow> routing_target" where
  "target_new m =
     \<lparr>rt_model = m, rt_model_id = None, rt_weight = None, rt_priority = None, rt_tags = None\<rparr>"

definition target_by_id :: "string \<Rightarrow> routing_target" where
  "target_by_id i =
     \<lparr>rt_model = [], rt_model_id = Some i, rt_weight = None, rt_priority = None, rt_tags = None\<rparr>"

definition with_weight :: "routing_target \<Rightarrow> nat \<Rightarrow> routing_target" where
  "with_weight t w = t\<lparr>rt_weight := Some w\<rparr>"

definition with_priority :: "routing_target \<Rightarrow> int \<Rightarrow> routing_target" where
  "with_priority t p = t\<lparr>rt_priority := Some p\<rparr>"

definition with_tags :: "routing_target \<Rightarrow> string list \<Rightarrow> routing_target" where
  "with_tags t ts = t\<lparr>rt_tags := Some ts\<rparr>"

definition weight_or_default :: "routing_target \<Rightarrow> nat" where
  "weight_or_default t = (case rt_weight t of Some w \<Rightarrow> w | None \<Rightarrow> 1)"

definition priority_or_default :: "routing_target \<Rightarrow> int" where
  "priority_or_default t = (case rt_priority t of Some p \<Rightarrow> p | None \<Rightarrow> 0)"

definition has_tags :: "routing_target \<Rightarrow> bool" where
  "has_tags t = (case rt_tags t of Some ts \<Rightarrow> ts \<noteq> [] | None \<Rightarrow> False)"

definition is_default_target :: "routing_target \<Rightarrow> bool" where
  "is_default_target t =
     (case rt_tags t of Some ts \<Rightarrow> list_ex (\<lambda>tag. tag = DEFAULT_ROUTING_TAG) ts | None \<Rightarrow> False)"

definition matches_request_tags :: "routing_target \<Rightarrow> string list \<Rightarrow> bool" where
  "matches_request_tags t request_tags =
     (case rt_tags t of
        Some ts \<Rightarrow> list_ex (\<lambda>tag. list_ex (\<lambda>r. r = tag) request_tags) ts
      | None \<Rightarrow> False)"

section \<open>The routing block\<close>

datatype when_all_unavailable_policy = PolicyFail | PolicyTryAnyway

record routing =
  strategy :: routing_strategy
  targets :: "routing_target list"
  group_retries :: "nat option"
  max_fallbacks :: "nat option"
  retry_on_429 :: "bool option"
  fallback_on_statuses :: "nat list option"
  when_all_unavailable :: "when_all_unavailable_policy option"
  hash_on :: "hash_on_source list option"

definition hash_on_or_default :: "routing \<Rightarrow> hash_on_source list" where
  "hash_on_or_default r =
     (case hash_on r of
        Some chain \<Rightarrow> if chain \<noteq> [] then chain else default_hash_on
      | None \<Rightarrow> default_hash_on)"

definition max_fallbacks_or_default :: "routing \<Rightarrow> nat" where
  "max_fallbacks_or_default r =
     (let later_targets = sat_sub (length (targets r)) 1
      in case max_fallbacks r of Some n \<Rightarrow> min n later_targets | None \<Rightarrow> later_targets)"

definition retry_on_429_or_default :: "routing \<Rightarrow> bool" where
  "retry_on_429_or_default r = (case retry_on_429 r of Some b \<Rightarrow> b | None \<Rightarrow> False)"

definition fallback_on_statuses_or_default :: "routing \<Rightarrow> nat list" where
  "fallback_on_statuses_or_default r = (case fallback_on_statuses r of Some l \<Rightarrow> l | None \<Rightarrow> [])"

definition when_all_unavailable_or_default :: "routing \<Rightarrow> when_all_unavailable_policy" where
  "when_all_unavailable_or_default r =
     (case when_all_unavailable r of Some p \<Rightarrow> p | None \<Rightarrow> PolicyFail)"

definition routing_is_empty :: "routing \<Rightarrow> bool" where
  "routing_is_empty r \<longleftrightarrow> targets r = []"

lemma max_fallbacks_bound: "max_fallbacks_or_default r + 1 \<le> max 1 (length (targets r))"
  by (auto simp: max_fallbacks_or_default_def Let_def sat_sub_def split: option.splits)

lemma hash_on_or_default_nonempty [simp]: "hash_on_or_default r \<noteq> []"
  by (simp add: hash_on_or_default_def default_hash_on_def split: option.splits)

section \<open>JSON documents\<close>

text \<open>
  The part of \<^verbatim>\<open>serde_json::Value\<close> the rewrite uses. An object is an association list with
  distinct keys; a number is an integer (of \<^verbatim>\<open>i64\<close> or \<^verbatim>\<open>u64\<close>, as the parser makes them) or a
  float kept as its text.
\<close>

datatype json =
    JNull
  | JBool bool
  | JInt int
  | JFloat string
  | JStr string
  | JArr "json list"
  | JObj "(string \<times> json) list"

fun as_bool :: "json \<Rightarrow> bool option" where
  "as_bool (JBool b) = Some b"
| "as_bool _ = None"

fun as_str :: "json \<Rightarrow> string option" where
  "as_str (JStr s) = Some s"
| "as_str _ = None"

fun as_u64 :: "json \<Rightarrow> nat option" where
  "as_u64 (JInt i) = (if 0 \<le> i then Some (nat i) else None)"
| "as_u64 _ = None"

fun as_object :: "json \<Rightarrow> (string \<times> json) list option" where
  "as_object (JObj kvs) = Some kvs"
| "as_object _ = None"

fun as_array :: "json \<Rightarrow> json list option" where
  "as_array (JArr xs) = Some xs"
| "as_array _ = None"

definition obj_remove :: "string \<Rightarrow> (string \<times> json) list \<Rightarrow> (string \<times> json) list" where
  "obj_remove k kvs = filter (\<lambda>kv. fst kv \<noteq> k) kvs"

fun obj_insert :: "string \<Rightarrow> json \<Rightarrow> (string \<times> json) list \<Rightarrow> (string \<times> json) list" where
  "obj_insert k v [] = [(k, v)]"
| "obj_insert k v (kv # kvs) = (if fst kv = k then (k, v) # kvs else kv # obj_insert k v kvs)"

definition json_get :: "string \<Rightarrow> json \<Rightarrow> json option" where
  "json_get k v = Option.bind (as_object v) (\<lambda>kvs. map_of kvs k)"

lemma map_of_obj_remove [simp]: "map_of (obj_remove k kvs) j = (if j = k then None else map_of kvs j)"
  by (induction kvs) (auto simp: obj_remove_def)

lemma map_of_obj_insert [simp]: "map_of (obj_insert k v kvs) j = (if j = k then Some v else map_of kvs j)"
  by (induction kvs) auto

section \<open>Bringing stored rows forward\<close>

definition LEGACY_WEIGHTED_AS_ROUND_ROBIN :: string where
  "LEGACY_WEIGHTED_AS_ROUND_ROBIN = ''legacy:routing.strategy_weighted_as_round_robin''"

definition LEGACY_STICKY_AS_CONSISTENT_HASH :: string where
  "LEGACY_STICKY_AS_CONSISTENT_HASH = ''legacy:routing.sticky_weighted_as_consistent_hash''"

definition LEGACY_STICKY_IGNORED :: string where
  "LEGACY_STICKY_IGNORED = ''legacy:routing.sticky_ignored''"

definition LEGACY_WEIGHT_ZERO_AS_BACKUP_TIER :: string where
  "LEGACY_WEIGHT_ZERO_AS_BACKUP_TIER = ''legacy:routing.weight_zero_as_backup_tier''"

definition BACKUP_TIER :: int where
  "BACKUP_TIER = -1"

definition target_weight :: "json \<Rightarrow> nat" where
  "target_weight t =
     (case Option.bind (json_get ''weight'' t) as_u64 of Some w \<Rightarrow> w | None \<Rightarrow> 1)"

text \<open>One turn of the loop over the weight-zero targets, with the flag that some target moved.\<close>

definition demote_target :: "json \<Rightarrow> json \<times> bool" where
  "demote_target t =
     (if target_weight t = 0
      then (case t of
              JObj kvs \<Rightarrow> (JObj (obj_insert ''priority'' (JInt BACKUP_TIER) (obj_remove ''weight'' kvs)), True)
            | _ \<Rightarrow> (t, False))
      else (t, False))"

definition demote_targets :: "json list \<Rightarrow> json list \<times> bool" where
  "demote_targets ts =
     (if list_ex (\<lambda>t. target_weight t > 0) ts
      then (map (fst \<circ> demote_target) ts, list_ex (snd \<circ> demote_target) ts)
      else (ts, False))"

text \<open>The rewrite of the routing object, once it is known to be an object.\<close>

definition upgrade_routing :: "(string \<times> json) list \<Rightarrow> (string \<times> json) list \<times> string list" where
  "upgrade_routing routing =
     (let sticky = map_of routing ''sticky'';
          r1 = obj_remove ''sticky'' routing
      in if Option.bind (map_of r1 ''strategy'') as_str \<noteq> Some ''weighted''
         then (r1, case sticky of Some _ \<Rightarrow> [LEGACY_STICKY_IGNORED] | None \<Rightarrow> [])
         else
           (let (strat, label) =
                  (if Option.bind sticky as_bool = Some True
                   then (''consistent_hash'', LEGACY_STICKY_AS_CONSISTENT_HASH)
                   else (''round_robin'', LEGACY_WEIGHTED_AS_ROUND_ROBIN));
                r2 = obj_insert ''strategy'' (JStr strat) r1
            in case Option.bind (map_of r2 ''targets'') as_array of
                 None \<Rightarrow> (r2, [label])
               | Some ts \<Rightarrow>
                   (let (ts', demoted) = demote_targets ts
                    in (obj_insert ''targets'' (JArr ts') r2,
                        if demoted then [label, LEGACY_WEIGHT_ZERO_AS_BACKUP_TIER] else [label]))))"

definition upgrade_stored_routing :: "json \<Rightarrow> json \<times> string list" where
  "upgrade_stored_routing model =
     (case model of
        JObj kvs \<Rightarrow>
          (case Option.bind (map_of kvs ''routing'') as_object of
             None \<Rightarrow> (model, [])
           | Some routing \<Rightarrow>
               (let (routing', labels) = upgrade_routing routing
                in (JObj (obj_insert ''routing'' (JObj routing') kvs), labels)))
      | _ \<Rightarrow> (model, []))"

subsection \<open>What the rewrite leaves behind\<close>

lemma upgrade_routing_no_sticky: "map_of (fst (upgrade_routing r)) ''sticky'' = None"
  by (simp add: upgrade_routing_def Let_def split: option.splits prod.splits)

lemma upgrade_routing_not_weighted:
  "Option.bind (map_of (fst (upgrade_routing r)) ''strategy'') as_str \<noteq> Some ''weighted''"
  by (simp add: upgrade_routing_def Let_def split: option.splits prod.splits)

lemma upgrade_routing_done:
  assumes "map_of r ''sticky'' = None"
    and "Option.bind (map_of r ''strategy'') as_str \<noteq> Some ''weighted''"
  shows "upgrade_routing r = (r, [])"
proof -
  have "obj_remove ''sticky'' r = r"
    using assms(1) by (force simp: obj_remove_def filter_id_conv map_of_eq_None_iff)
  with assms show ?thesis by (simp add: upgrade_routing_def)
qed

lemma obj_insert_same: "map_of kvs k = Some v \<Longrightarrow> obj_insert k v kvs = kvs"
  by (induction kvs) (auto split: if_splits)

lemma obj_insert_twice: "obj_insert k v (obj_insert k u kvs) = obj_insert k v kvs"
  by (induction kvs) auto

lemma upgrade_stored_routing_twice:
  "upgrade_stored_routing (fst (upgrade_stored_routing m)) = (fst (upgrade_stored_routing m), [])"
proof (cases "\<exists>kvs r. m = JObj kvs \<and> Option.bind (map_of kvs ''routing'') as_object = Some r")
  case True
  then obtain kvs r where m: "m = JObj kvs" "Option.bind (map_of kvs ''routing'') as_object = Some r"
    by blast
  obtain r' ls where u: "upgrade_routing r = (r', ls)" by fastforce
  have "upgrade_routing r' = (r', [])"
    using upgrade_routing_done [of r'] upgrade_routing_no_sticky [of r]
      upgrade_routing_not_weighted [of r] by (simp add: u)
  with m u show ?thesis by (simp add: upgrade_stored_routing_def obj_insert_twice)
next
  case False
  then show ?thesis by (auto simp: upgrade_stored_routing_def split: json.splits option.splits)
qed

text \<open>Demotion keeps the number and order of the targets; afterwards no object target carries an
  explicit weight of zero, and exactly the former weight-zero objects sit in the backup tier.\<close>

lemma demote_target_weight: "as_object t \<noteq> None \<Longrightarrow> target_weight (fst (demote_target t)) > 0"
  by (auto simp: demote_target_def target_weight_def json_get_def split: json.splits)

lemma demote_target_other: "target_weight t > 0 \<Longrightarrow> demote_target t = (t, False)"
  by (simp add: demote_target_def)

lemma demote_target_priority:
  "target_weight t = 0 \<Longrightarrow> json_get ''priority'' (fst (demote_target t)) = Some (JInt BACKUP_TIER)"
  by (cases t) (simp_all add: demote_target_def json_get_def, simp_all add: target_weight_def json_get_def)

lemma demote_targets_length: "length (fst (demote_targets ts)) = length ts"
  by (simp add: demote_targets_def)

lemma demote_targets_rotation:
  assumes "t \<in> set ts" and "target_weight t > 0"
  shows "\<forall>u \<in> set (fst (demote_targets ts)). target_weight u > 0"
proof
  fix u assume "u \<in> set (fst (demote_targets ts))"
  moreover have "list_ex (\<lambda>t. target_weight t > 0) ts" using assms by (auto simp: list_ex_iff)
  ultimately obtain v where v: "v \<in> set ts" "u = fst (demote_target v)"
    by (auto simp: demote_targets_def)
  show "target_weight u > 0"
  proof (cases "target_weight v = 0")
    case True
    then have "as_object v \<noteq> None"
      by (cases v) (auto simp: target_weight_def json_get_def)
    then show ?thesis using v(2) demote_target_weight by simp
  next
    case False
    then show ?thesis using v(2) demote_target_other [of v] by simp
  qed
qed

section \<open>What to write instead\<close>

definition retired_sentence :: "string \<Rightarrow> string option" where
  "retired_sentence label =
     (if label = LEGACY_WEIGHTED_AS_ROUND_ROBIN
      then Some (''`routing.strategy: weighted` is retired: write `round_robin`, which splits '' @
                 ''traffic by the same target weights'')
      else if label = LEGACY_STICKY_AS_CONSISTENT_HASH
      then Some (''`routing.strategy: weighted` with `sticky: true` is retired: write '' @
                 ''`strategy: consistent_hash` without `sticky`, which keeps a key on one target '' @
                 ''by the same weights, keyed on the `x-aisix-routing-key` header, else the '' @
                 ''caller's API key'')
      else if label = LEGACY_STICKY_IGNORED
      then Some (''`routing.sticky` is retired: remove it, as nothing but `strategy: weighted` '' @
                 ''ever read it'')
      else if label = LEGACY_WEIGHT_ZERO_AS_BACKUP_TIER
      then Some (''a `weight: 0` target, which `weighted` fell back to once the others failed, '' @
                 ''is written as `priority: -1` without a weight: `weight: 0` now keeps a target '' @
                 ''out of rotation altogether'')
      else None)"

definition retired_routing_rewrite :: "string list \<Rightarrow> string" where
  "retired_routing_rewrite labels = join ''; '' (List.map_filter retired_sentence labels)"

section \<open>The result\<close>

abbreviation weighted_strategy :: "(string \<times> json) list \<Rightarrow> bool" where
  "weighted_strategy r \<equiv> Option.bind (map_of r ''strategy'') as_str = Some ''weighted''"

definition demoted :: "(string \<times> json) list \<Rightarrow> json list \<Rightarrow> json \<Rightarrow> bool" where
  "demoted r ts t \<longleftrightarrow> weighted_strategy r \<and> list_ex (\<lambda>t. target_weight t > 0) ts \<and> target_weight t = 0"

lemma upgrade_routing_targets:
  assumes "map_of r ''targets'' = Some (JArr ts)"
  shows "\<exists>ts'. map_of (fst (upgrade_routing r)) ''targets'' = Some (JArr ts') \<and>
           ts' = map (\<lambda>t. if demoted r ts t then fst (demote_target t) else t) ts"
proof (cases "weighted_strategy r")
  case True
  have eq: "fst (demote_targets ts) = map (\<lambda>t. if demoted r ts t then fst (demote_target t) else t) ts"
    using True by (auto simp: demote_targets_def demoted_def demote_target_def)
  have "map_of (fst (upgrade_routing r)) ''targets'' = Some (JArr (fst (demote_targets ts)))"
    using True assms by (simp add: upgrade_routing_def Let_def split: prod.split)
  then show ?thesis unfolding eq by blast
next
  case False
  then show ?thesis using assms by (simp add: upgrade_routing_def Let_def demoted_def)
qed

text \<open>Bringing a stored model document forward: afterwards the routing block has no retired setting
  left (no \<^verbatim>\<open>sticky\<close>, no \<^verbatim>\<open>weighted\<close>) and a second pass changes and reports nothing; the targets keep
  their number and order, and the only ones touched are the weight-zero targets of a weighted group that
  has a positive one, which leave the main tier (priority -1) with a weight that takes part again.\<close>

theorem stored_routing_upgrade:
  assumes "json_get ''routing'' m = Some (JObj r)" and "map_of r ''targets'' = Some (JArr ts)"
  shows "\<exists>m' labels r' ts'.
           upgrade_stored_routing m = (m', labels) \<and> upgrade_stored_routing m' = (m', []) \<and>
           json_get ''routing'' m' = Some (JObj r') \<and>
           map_of r' ''sticky'' = None \<and> \<not> weighted_strategy r' \<and>
           map_of r' ''targets'' = Some (JArr ts') \<and> length ts' = length ts \<and>
           (\<forall>i < length ts.
              if demoted r ts (ts ! i)
              then json_get ''priority'' (ts' ! i) = Some (JInt BACKUP_TIER) \<and> target_weight (ts' ! i) > 0
              else ts' ! i = ts ! i)"
proof -
  obtain kvs where m: "m = JObj kvs" "map_of kvs ''routing'' = Some (JObj r)"
    using assms(1) by (cases m) (auto simp: json_get_def)
  obtain r' labels where u: "upgrade_routing r = (r', labels)" by fastforce
  define m' where "m' = JObj (obj_insert ''routing'' (JObj r') kvs)"
  have up: "upgrade_stored_routing m = (m', labels)"
    using m u by (simp add: upgrade_stored_routing_def m'_def)
  then have "upgrade_stored_routing m' = (m', [])"
    using upgrade_stored_routing_twice [of m] by simp
  moreover have "json_get ''routing'' m' = Some (JObj r')" by (simp add: m'_def json_get_def)
  moreover have "map_of r' ''sticky'' = None" "\<not> weighted_strategy r'"
    using upgrade_routing_no_sticky [of r] upgrade_routing_not_weighted [of r] u by simp_all
  moreover obtain ts' where ts': "map_of r' ''targets'' = Some (JArr ts')"
    "ts' = map (\<lambda>t. if demoted r ts t then fst (demote_target t) else t) ts"
    using upgrade_routing_targets [OF assms(2)] u by auto
  moreover have "if demoted r ts t
      then json_get ''priority'' (fst (demote_target t)) = Some (JInt BACKUP_TIER) \<and>
           target_weight (fst (demote_target t)) > 0
      else True" for t
    using demote_target_priority [of t] demote_target_weight [of t]
    by (cases t) (auto simp: demoted_def target_weight_def json_get_def)
  ultimately show ?thesis using up by (intro exI [of _ m']) auto
qed

definition demo_document :: json where
  "demo_document =
     JObj [(''routing'', JObj [(''strategy'', JStr ''weighted''), (''sticky'', JBool True),
        (''targets'', JArr [JObj [(''model'', JStr ''a''), (''weight'', JInt 3)],
                          JObj [(''model'', JStr ''b''), (''weight'', JInt 0)]])])]"

theorem stored_routing_upgrade_witness:
  "\<exists>m' labels r'. upgrade_stored_routing demo_document = (m', labels) \<and>
     upgrade_stored_routing m' = (m', []) \<and>
     json_get ''routing'' m' = Some (JObj r') \<and> map_of r' ''sticky'' = None \<and> \<not> weighted_strategy r'"
proof -
  define r where "r = [(''strategy'', JStr ''weighted''), (''sticky'', JBool True),
        (''targets'', JArr [JObj [(''model'', JStr ''a''), (''weight'', JInt 3)],
                          JObj [(''model'', JStr ''b''), (''weight'', JInt 0)]])]"
  have "json_get ''routing'' demo_document = Some (JObj r)" by (simp add: demo_document_def json_get_def r_def)
  moreover have "map_of r ''targets'' = Some (JArr [JObj [(''model'', JStr ''a''), (''weight'', JInt 3)],
                          JObj [(''model'', JStr ''b''), (''weight'', JInt 0)]])"
    by (simp add: r_def)
  ultimately obtain m' labels r' where
    "upgrade_stored_routing demo_document = (m', labels)" "upgrade_stored_routing m' = (m', [])"
    "json_get ''routing'' m' = Some (JObj r')" "map_of r' ''sticky'' = None" "\<not> weighted_strategy r'"
    using stored_routing_upgrade by meson
  then show ?thesis by blast
qed

end
