(* ===== verification/Model_Config.thy ===== *)
theory Model_Config
  imports Routing_Config Rate_Limit
begin

text \<open>
  The model document of \<^verbatim>\<open>crates/aisix-core/src/models/model.rs\<close>: its shape predicates, the
  removal of settings that do not apply to its kind, effort mapping, deadlines, the client-IP
  allowlist and the cooldown settings. Sub-documents the code only tests for presence are kept
  as JSON. Durations are milliseconds. IP addresses and networks are parsed by the standard
  library and \<^verbatim>\<open>ipnet\<close>, which are parameters (\<open>ip_lib\<close>).
\<close>

record background_model_check =
  bc_enabled :: bool
  bc_interval_seconds :: nat
  bc_timeout_seconds :: nat
  bc_prompt :: string
  bc_max_tokens :: nat
  bc_ignore_statuses :: "nat list"
  bc_stale_after_seconds :: nat

record cooldown_config =
  cd_enabled :: "bool option"
  cd_default_seconds :: "nat option"
  cd_max_seconds :: "nat option"
  cd_honor_retry_after :: "bool option"
  cd_trigger_statuses :: "nat list option"
  cd_trigger_on_timeout :: "bool option"
  cd_trigger_on_transport :: "bool option"

abbreviation unwrap_or :: "'a option \<Rightarrow> 'a \<Rightarrow> 'a" where
  "unwrap_or x d \<equiv> (case x of Some v \<Rightarrow> v | None \<Rightarrow> d)"

definition DEFAULT_COOLDOWN_TRIGGER_STATUSES :: "nat list" where
  "DEFAULT_COOLDOWN_TRIGGER_STATUSES = [401, 408, 429, 500, 502, 503, 504]"

definition DEFAULT_COOLDOWN_SECONDS :: nat where "DEFAULT_COOLDOWN_SECONDS = 30"
definition DEFAULT_COOLDOWN_MAX_SECONDS :: nat where "DEFAULT_COOLDOWN_MAX_SECONDS = 600"

definition cooldown_is_enabled :: "cooldown_config \<Rightarrow> bool" where
  "cooldown_is_enabled c \<longleftrightarrow> cd_enabled c = Some True"

definition is_silently_off :: "cooldown_config \<Rightarrow> bool" where
  "is_silently_off c \<longleftrightarrow> cd_enabled c = None"

definition default_seconds_or_default :: "cooldown_config \<Rightarrow> nat" where
  "default_seconds_or_default c = unwrap_or (cd_default_seconds c) DEFAULT_COOLDOWN_SECONDS"

definition max_seconds_or_default :: "cooldown_config \<Rightarrow> nat" where
  "max_seconds_or_default c = unwrap_or (cd_max_seconds c) DEFAULT_COOLDOWN_MAX_SECONDS"

definition honor_retry_after_or_default :: "cooldown_config \<Rightarrow> bool" where
  "honor_retry_after_or_default c = unwrap_or (cd_honor_retry_after c) True"

definition effective_trigger_statuses :: "cooldown_config \<Rightarrow> nat list" where
  "effective_trigger_statuses c =
     unwrap_or (cd_trigger_statuses c) DEFAULT_COOLDOWN_TRIGGER_STATUSES"

definition trigger_on_timeout_or_default :: "cooldown_config \<Rightarrow> bool" where
  "trigger_on_timeout_or_default c = unwrap_or (cd_trigger_on_timeout c) True"

definition trigger_on_transport_or_default :: "cooldown_config \<Rightarrow> bool" where
  "trigger_on_transport_or_default c = unwrap_or (cd_trigger_on_transport c) True"

section \<open>The model\<close>

record model_cost =
  mc_input_per_1k :: f64
  mc_output_per_1k :: f64
  mc_cached_input_per_1k :: "f64 option"
  mc_cache_write_per_1k :: "f64 option"

record input_tokens =
  it_uncached :: nat
  it_cache_read :: nat
  it_cache_write :: nat

definition uncached_only :: "nat \<Rightarrow> input_tokens" where
  "uncached_only prompt = \<lparr>it_uncached = prompt, it_cache_read = 0, it_cache_write = 0\<rparr>"

text \<open>The USD amounts, over the processor's arithmetic.\<close>

definition calculate_with_cache :: "f64_ops \<Rightarrow> model_cost \<Rightarrow> input_tokens \<Rightarrow> nat \<Rightarrow> f64" where
  "calculate_with_cache fp c input output_tokens =
     (let cached_rate = unwrap_or (mc_cached_input_per_1k c) (mc_input_per_1k c);
          write_rate = unwrap_or (mc_cache_write_per_1k c) (mc_input_per_1k c)
      in f_div fp
           (f_add fp
              (f_add fp
                 (f_add fp (f_mul fp (mc_input_per_1k c) (f_of_nat fp (it_uncached input)))
                    (f_mul fp cached_rate (f_of_nat fp (it_cache_read input))))
                 (f_mul fp write_rate (f_of_nat fp (it_cache_write input))))
              (f_mul fp (mc_output_per_1k c) (f_of_nat fp output_tokens)))
           (f_of_nat fp 1000))"

definition calculate :: "f64_ops \<Rightarrow> model_cost \<Rightarrow> nat \<Rightarrow> nat \<Rightarrow> f64" where
  "calculate fp c input output_tokens = calculate_with_cache fp c (uncached_only input) output_tokens"

record model =
  display_name :: string
  provider :: "string option"
  model_name :: "string option"
  provider_key_id :: "string option"
  timeout :: "nat option"
  stream_timeout :: "nat option"
  retries :: "nat option"
  model_rate_limit :: "rate_limit option"
  allowed_cidrs :: "string list option"
  routing_of :: "routing option"
  ensemble :: "json option"
  semantic :: "json option"
  embedding :: "json option"
  cost :: "model_cost option"
  pricing_key :: "string option"
  background_check :: "background_model_check option"
  cooldown :: "cooldown_config option"
  auto_prompt_caching :: "json option"
  effort_mapping :: "(string \<times> string option) list option"

definition is_routing :: "model \<Rightarrow> bool" where "is_routing m \<longleftrightarrow> routing_of m \<noteq> None"
definition is_ensemble :: "model \<Rightarrow> bool" where "is_ensemble m \<longleftrightarrow> ensemble m \<noteq> None"
definition is_semantic :: "model \<Rightarrow> bool" where "is_semantic m \<longleftrightarrow> semantic m \<noteq> None"
definition is_embedding :: "model \<Rightarrow> bool" where "is_embedding m \<longleftrightarrow> embedding m \<noteq> None"

definition upstream_model :: "model \<Rightarrow> string option" where "upstream_model m = model_name m"

lemmas kind_defs = is_routing_def is_ensemble_def is_semantic_def is_embedding_def

text \<open>\<open>strip\<close> is one \<^verbatim>\<open>take().is_some()\<close> step: it pushes the field's name when the field was set.\<close>

definition strip :: "bool \<Rightarrow> string \<Rightarrow> string list \<Rightarrow> string list" where
  "strip present name stripped = (if present then stripped @ [name] else stripped)"

definition strip_kind_inapplicable :: "model \<Rightarrow> model \<times> string list" where
  "strip_kind_inapplicable m0 =
     (let l0 = (if is_embedding m0 then strip (effort_mapping m0 \<noteq> None) ''effort_mapping'' [] else []);
          m1 = (if is_embedding m0 then m0\<lparr>effort_mapping := None\<rparr> else m0)
      in if \<not> (is_routing m1 \<or> is_ensemble m1 \<or> is_semantic m1) then (m1, l0)
         else
           (let l1 = strip (auto_prompt_caching m1 \<noteq> None) ''auto_prompt_caching'' l0;
                l2 = strip (cost m1 \<noteq> None) ''cost'' l1;
                l3 = strip (effort_mapping m1 \<noteq> None) ''effort_mapping'' l2;
                l4 = strip (pricing_key m1 \<noteq> None) ''pricing_key'' l3;
                m2 = m1\<lparr>auto_prompt_caching := None, cost := None, effort_mapping := None,
                         pricing_key := None\<rparr>;
                no_retries = is_routing m2 \<or> is_ensemble m2;
                l5 = (if no_retries then strip (retries m2 \<noteq> None) ''retries'' l4 else l4);
                m3 = (if no_retries then m2\<lparr>retries := None\<rparr> else m2)
            in if is_ensemble m3
               then (m3\<lparr>stream_timeout := None, timeout := None\<rparr>,
                     strip (timeout m3 \<noteq> None) ''timeout''
                       (strip (stream_timeout m3 \<noteq> None) ''stream_timeout'' l5))
               else (m3, l5)))"

datatype effort_action = EffortKeep | EffortSet string | EffortRemove

definition mapped_effort :: "model \<Rightarrow> string option \<Rightarrow> effort_action" where
  "mapped_effort m requested =
     (case effort_mapping m of
        None \<Rightarrow> EffortKeep
      | Some mapping \<Rightarrow>
          (let rule = (case requested of
                         None \<Rightarrow> map_of mapping ''''
                       | Some effort \<Rightarrow>
                           (case map_of mapping effort of
                              Some r \<Rightarrow> Some r
                            | None \<Rightarrow> map_of mapping ''*''))
           in case rule of
                None \<Rightarrow> EffortKeep
              | Some None \<Rightarrow> EffortRemove
              | Some (Some mapped) \<Rightarrow> EffortSet mapped))"

definition request_timeout_level :: "model \<Rightarrow> nat option option" where
  "request_timeout_level m = map_option (\<lambda>ms. if ms > 0 then Some ms else None) (timeout m)"

definition stream_read_timeout :: "model \<Rightarrow> nat option" where
  "stream_read_timeout m =
     (case stream_timeout m of Some ms \<Rightarrow> if ms > 0 then Some ms else None | None \<Rightarrow> None)"

record ('ip, 'net) ip_lib =
  parse_ip :: "string \<Rightarrow> 'ip option"
  to_canonical :: "'ip \<Rightarrow> 'ip"
  parse_net :: "string \<Rightarrow> 'net option"
  net_contains :: "'net \<Rightarrow> 'ip \<Rightarrow> bool"

definition cidr_allows :: "('ip, 'net) ip_lib \<Rightarrow> string list option \<Rightarrow> string \<Rightarrow> bool" where
  "cidr_allows lib ranges source_ip =
     (case ranges of
        None \<Rightarrow> True
      | Some [] \<Rightarrow> True
      | Some rs \<Rightarrow>
          (case parse_ip lib source_ip of
             None \<Rightarrow> False
           | Some ip \<Rightarrow>
               list_ex (\<lambda>net. net_contains lib net (to_canonical lib ip))
                 (List.map_filter (parse_net lib) rs)))"

definition ip_allowed :: "('ip, 'net) ip_lib \<Rightarrow> model \<Rightarrow> string \<Rightarrow> bool" where
  "ip_allowed lib m source_ip = cidr_allows lib (allowed_cidrs m) source_ip"

section \<open>Facts\<close>

lemma strip_kind_shape [simp]:
  "is_routing (fst (strip_kind_inapplicable m)) = is_routing m"
  "is_ensemble (fst (strip_kind_inapplicable m)) = is_ensemble m"
  "is_semantic (fst (strip_kind_inapplicable m)) = is_semantic m"
  "is_embedding (fst (strip_kind_inapplicable m)) = is_embedding m"
  by (simp_all add: strip_kind_inapplicable_def Let_def kind_defs)

text \<open>After the removal nothing is left to remove: the loader reports a row once.\<close>

lemma strip_kind_clean:
  "is_embedding m \<Longrightarrow> effort_mapping (fst (strip_kind_inapplicable m)) = None"
  "is_routing m \<or> is_ensemble m \<or> is_semantic m \<Longrightarrow>
     auto_prompt_caching (fst (strip_kind_inapplicable m)) = None \<and>
     cost (fst (strip_kind_inapplicable m)) = None \<and>
     effort_mapping (fst (strip_kind_inapplicable m)) = None \<and>
     pricing_key (fst (strip_kind_inapplicable m)) = None"
  "is_routing m \<or> is_ensemble m \<Longrightarrow> retries (fst (strip_kind_inapplicable m)) = None"
  "is_ensemble m \<Longrightarrow> timeout (fst (strip_kind_inapplicable m)) = None \<and>
     stream_timeout (fst (strip_kind_inapplicable m)) = None"
  by (auto simp: strip_kind_inapplicable_def Let_def kind_defs)

lemma strip_kind_done:
  assumes "is_embedding m \<longrightarrow> effort_mapping m = None"
    and "is_routing m \<or> is_ensemble m \<or> is_semantic m \<longrightarrow>
           auto_prompt_caching m = None \<and> cost m = None \<and> effort_mapping m = None \<and> pricing_key m = None"
    and "is_routing m \<or> is_ensemble m \<longrightarrow> retries m = None"
    and "is_ensemble m \<longrightarrow> timeout m = None \<and> stream_timeout m = None"
  shows "strip_kind_inapplicable m = (m, [])"
proof (cases "is_routing m \<or> is_ensemble m \<or> is_semantic m")
  case True
  then show ?thesis
    using assms by (cases m; cases "ensemble m"; cases "embedding m")
      (simp_all add: strip_kind_inapplicable_def strip_def Let_def kind_defs)
next
  case False
  then show ?thesis
    using assms by (cases m) (simp add: strip_kind_inapplicable_def strip_def Let_def kind_defs)
qed

lemma strip_kind_idempotent:
  "strip_kind_inapplicable (fst (strip_kind_inapplicable m)) = (fst (strip_kind_inapplicable m), [])"
  by (rule strip_kind_done) (simp_all add: strip_kind_clean)

lemma cidr_fail_closed:
  "parse_ip lib ip = None \<Longrightarrow> cidr_allows lib (Some (r # rs)) ip = False"
  by (simp add: cidr_allows_def)

lemma cidr_allows_iff:
  "cidr_allows lib (Some (r # rs)) ip \<longleftrightarrow>
     (\<exists>a. parse_ip lib ip = Some a \<and>
        (\<exists>x \<in> set (r # rs). \<exists>net. parse_net lib x = Some net \<and> net_contains lib net (to_canonical lib a)))"
  by (force simp: cidr_allows_def list_ex_iff map_filter_def split: option.splits)

section \<open>A plain model\<close>

text \<open>A direct model with three retries and nothing else set, for concrete examples.\<close>

definition plain_model :: "string \<Rightarrow> model" where
  "plain_model name =
     \<lparr>display_name = name, provider = None, model_name = None, provider_key_id = None, timeout = None,
      stream_timeout = None, retries = Some 3, model_rate_limit = None, allowed_cidrs = None,
      routing_of = None, ensemble = None, semantic = None, embedding = None, cost = None,
      pricing_key = None, background_check = None, cooldown = None, auto_prompt_caching = None,
      effort_mapping = None\<rparr>"

end
