(* ===== verification/Retry.thy ===== *)
theory Retry
  imports Model_Config Gateway_Errors
begin

text \<open>
  The retry and deadline rules of \<^verbatim>\<open>crates/aisix-proxy/src/routing.rs\<close> (lines 58 to 460) and the
  single-target retry loop. Durations are milliseconds; the random jitter of a backoff is an
  argument. The upstream call of a loop is a parameter that threads its own state.
\<close>

section \<open>Which failures may be tried again\<close>

definition status_retryable :: "nat \<Rightarrow> bool \<Rightarrow> nat list \<Rightarrow> bool" where
  "status_retryable s retry_429 fallback_statuses =
     (if s \<in> set fallback_statuses then True
      else if s = 429 then retry_429
      else \<not> client_error s)"

fun is_retryable :: "bridge_error \<Rightarrow> bool \<Rightarrow> nat list \<Rightarrow> bool" where
  "is_retryable (UpstreamStatus s _ _ _ _ _) r l = status_retryable s r l"
| "is_retryable (UpstreamInBand s _ _ _) r l =
     (case s of Some n \<Rightarrow> status_retryable n r l | None \<Rightarrow> True)"
| "is_retryable (InvalidUpstreamConfig _) r l = False"
| "is_retryable (BInvalidRequest _) r l = False"
| "is_retryable (BRequestTooLarge _ _ _) r l = False"
| "is_retryable (InvalidUpstreamCredentials _) r l = False"
| "is_retryable (UnsupportedCapability _) r l = False"
| "is_retryable (UpstreamDecode _) r l = False"
| "is_retryable (UpstreamBodyUnread _ _ _) r l = False"
| "is_retryable (Timeout _ _) r l = True"
| "is_retryable (TokenExchangeDecode _) r l = True"
| "is_retryable (Transport _) r l = True"
| "is_retryable (Config _) r l = True"
| "is_retryable StreamAborted r l = True"

definition bridge_target_unusable :: "bridge_error \<Rightarrow> bool" where
  "bridge_target_unusable e =
     (case e of InvalidUpstreamConfig _ \<Rightarrow> True | InvalidUpstreamCredentials _ \<Rightarrow> True | _ \<Rightarrow> False)"

definition target_unusable :: "proxy_error \<Rightarrow> bool" where
  "target_unusable e =
     (case e of
        UnusableTarget _ \<Rightarrow> True
      | ProviderUnavailable \<Rightarrow> True
      | Bridge b \<Rightarrow> bridge_target_unusable b
      | _ \<Rightarrow> False)"

definition refused_model_label :: "string \<Rightarrow> string" where
  "refused_model_label addressed = ''model `'' @ addressed @ ''`''"

definition group_refusal :: "proxy_error \<Rightarrow> string \<Rightarrow> proxy_error" where
  "group_refusal e addressed =
     (case e of
        UnusableTarget _ \<Rightarrow> UnusableTarget (refused_model_label addressed @ '' has no usable target'')
      | _ \<Rightarrow> e)"

section \<open>Backoff\<close>

definition RETRY_BACKOFF_BASE_MS :: nat where "RETRY_BACKOFF_BASE_MS = 250"
definition RETRY_BACKOFF_MAX_MS :: nat where "RETRY_BACKOFF_MAX_MS = 2000"
definition RETRY_BACKOFF_JITTER_MS :: nat where "RETRY_BACKOFF_JITTER_MS = 250"
definition RETRY_AFTER_HONOR_MAX_MS :: nat where "RETRY_AFTER_HONOR_MAX_MS = 5000"

lemmas backoff_consts = RETRY_BACKOFF_BASE_MS_def RETRY_BACKOFF_MAX_MS_def
  RETRY_BACKOFF_JITTER_MS_def RETRY_AFTER_HONOR_MAX_MS_def

definition exp_backoff :: "nat \<Rightarrow> nat" where
  "exp_backoff retry = min (sat_mul RETRY_BACKOFF_BASE_MS (2 ^ min (retry - 1) 20)) RETRY_BACKOFF_MAX_MS"

definition retry_backoff :: "nat \<Rightarrow> nat \<Rightarrow> nat option \<Rightarrow> nat" where
  "retry_backoff jitter retry retry_after =
     (if retry = 0 then 0
      else (case retry_after of
              Some hint \<Rightarrow>
                (let hint_ms = min hint u64_max
                 in if 0 < hint_ms \<and> hint_ms \<le> RETRY_AFTER_HONOR_MAX_MS then hint_ms + jitter
                    else exp_backoff retry + jitter)
            | None \<Rightarrow> exp_backoff retry + jitter))"

definition retry_after_hint :: "bridge_error \<Rightarrow> nat option" where
  "retry_after_hint e = (case e of UpstreamStatus _ _ _ _ r _ \<Rightarrow> r | _ \<Rightarrow> None)"

section \<open>Budgets\<close>

record retry_budget =
  budget_attempts :: nat
  configured :: bool

definition effective_retries :: "model \<Rightarrow> nat option \<Rightarrow> nat \<Rightarrow> bool \<Rightarrow> retry_budget" where
  "effective_retries target group_level deployment_default has_fallback_targets =
     (case (case retries target of Some r \<Rightarrow> Some r | None \<Rightarrow> group_level) of
        Some explicit \<Rightarrow> \<lparr>budget_attempts = explicit, configured = True\<rparr>
      | None \<Rightarrow> \<lparr>budget_attempts = (if has_fallback_targets then 0 else deployment_default),
                 configured = False\<rparr>)"

definition group_retries_of :: "model \<Rightarrow> nat option" where
  "group_retries_of parent =
     (case routing_of parent of Some r \<Rightarrow> group_retries r | None \<Rightarrow> retries parent)"

definition covers :: "retry_budget \<Rightarrow> bridge_error \<Rightarrow> bool" where
  "covers b e \<longleftrightarrow> configured b \<or> \<not> (case e of Timeout _ _ \<Rightarrow> True | _ \<Rightarrow> False)"

record timeout_budget =
  tb_request :: "nat option"
  tb_stream :: "nat option"
  stream_configured :: bool

record timeout_defaults =
  td_request :: "nat option"
  td_stream :: "nat option"

definition or_else :: "'a option \<Rightarrow> 'a option \<Rightarrow> 'a option" where
  "or_else x y = (case x of Some v \<Rightarrow> Some v | None \<Rightarrow> y)"

definition effective_timeouts :: "model \<Rightarrow> model option \<Rightarrow> timeout_defaults \<Rightarrow> timeout_budget" where
  "effective_timeouts target parent defaults =
     (let request_level = or_else (request_timeout_level target) (Option.bind parent request_timeout_level);
          request = unwrap_or request_level (td_request defaults);
          resource_stream = or_else (stream_read_timeout target) (Option.bind parent stream_read_timeout);
          (stream, conf) =
            (case resource_stream of
               Some d \<Rightarrow> (Some d, True)
             | None \<Rightarrow>
                 (case request_level of
                    Some r \<Rightarrow> (r, r \<noteq> None)
                  | None \<Rightarrow> (or_else (td_stream defaults) (td_request defaults), False)))
      in \<lparr>tb_request = request, tb_stream = stream, stream_configured = conf\<rparr>)"

section \<open>The single-target loop\<close>

text \<open>
  \<open>call st\<close> performs one attempt. The result is the final state, the errors met before the end in
  order, the hints the waits were computed from, and the outcome. \<open>left\<close> counts the retries that
  remain, so the loop runs \<open>left + 1\<close> times at most.
\<close>

fun retry_loop ::
    "('s \<Rightarrow> 's \<times> (bridge_error + 'v)) \<Rightarrow> (bridge_error \<Rightarrow> bool) \<Rightarrow> retry_budget \<Rightarrow> nat \<Rightarrow> 's \<Rightarrow>
     's \<times> bridge_error list \<times> (bridge_error + 'v)" where
  "retry_loop call permit budget left st =
     (case call st of
        (st', Inr v) \<Rightarrow> (st', [], Inr v)
      | (st', Inl e) \<Rightarrow>
          if \<not> is_retryable e False [] \<or> \<not> covers budget e \<or> \<not> permit e then (st', [e], Inl e)
          else (case left of
                  0 \<Rightarrow> (st', [e], Inl e)
                | Suc left' \<Rightarrow>
                    (let (st2, es, r) = retry_loop call permit budget left' st'
                     in (st2, e # es, r))))"

declare retry_loop.simps [simp del]

definition retrying_dispatch_gated ::
    "('s \<Rightarrow> 's \<times> (bridge_error + 'v)) \<Rightarrow> (bridge_error \<Rightarrow> bool) \<Rightarrow> model \<Rightarrow> nat \<Rightarrow> 's \<Rightarrow>
     's \<times> bridge_error list \<times> (bridge_error + 'v)" where
  "retrying_dispatch_gated call permit m default_retries st =
     (let budget = effective_retries m None default_retries False
      in retry_loop call permit budget (budget_attempts budget) st)"

definition retrying_dispatch ::
    "('s \<Rightarrow> 's \<times> (bridge_error + 'v)) \<Rightarrow> model \<Rightarrow> nat \<Rightarrow> 's \<Rightarrow> 's \<times> bridge_error list \<times> (bridge_error + 'v)" where
  "retrying_dispatch call m default_retries st =
     retrying_dispatch_gated call (\<lambda>_. True) m default_retries st"

text \<open>The waits of a run: before retry \<open>i\<close> (from 1) the loop sleeps the backoff of the error of the
  attempt before it.\<close>

definition waits :: "(nat \<Rightarrow> nat) \<Rightarrow> bridge_error list \<Rightarrow> nat list" where
  "waits jitter es =
     map (\<lambda>i. retry_backoff (jitter i) (i + 1) (retry_after_hint (es ! i))) [0..<length es - 1]"

section \<open>Facts\<close>

lemma retry_backoff_le:
  assumes "jitter \<le> RETRY_BACKOFF_JITTER_MS"
  shows "retry_backoff jitter retry hint \<le> RETRY_AFTER_HONOR_MAX_MS + RETRY_BACKOFF_JITTER_MS"
  using assms
  by (auto simp: retry_backoff_def exp_backoff_def backoff_consts Let_def split: option.splits)

lemma exp_backoff_bounds: "RETRY_BACKOFF_BASE_MS \<le> exp_backoff r \<and> exp_backoff r \<le> RETRY_BACKOFF_MAX_MS"
proof -
  have "1 \<le> (2 :: nat) ^ min (r - 1) 20" by simp
  then have "RETRY_BACKOFF_BASE_MS \<le> sat_mul RETRY_BACKOFF_BASE_MS (2 ^ min (r - 1) 20)"
    unfolding sat_mul_def backoff_consts u64_max_def by linarith
  then show ?thesis by (simp add: exp_backoff_def backoff_consts)
qed

lemma retry_loop_shape:
  assumes "retry_loop call permit budget left st = (st', es, r)"
  shows "length es \<le> left + 1 \<and>
         (\<forall>e \<in> set (butlast es). is_retryable e False [] \<and> covers budget e \<and> permit e) \<and>
         (case r of
            Inl e \<Rightarrow> es \<noteq> [] \<and> last es = e
          | Inr v \<Rightarrow> length es \<le> left \<and> (\<forall>e \<in> set es. is_retryable e False [] \<and> covers budget e \<and> permit e))"
  using assms
proof (induction left arbitrary: st st' es r)
  case 0
  then show ?case
    by (auto simp: retry_loop.simps [of call permit budget 0] split: prod.splits sum.splits if_splits)
next
  case (Suc left)
  obtain s1 x where c: "call st = (s1, x)" by fastforce
  show ?case
  proof (cases x)
    case (Inr v)
    with Suc.prems c show ?thesis by (auto simp: retry_loop.simps)
  next
    case (Inl e)
    show ?thesis
    proof (cases "\<not> is_retryable e False [] \<or> \<not> covers budget e \<or> \<not> permit e")
      case True
      with Suc.prems c Inl show ?thesis
        by (auto simp: retry_loop.simps [of call permit budget "Suc left"])
    next
      case False
      obtain s2 es' r' where l: "retry_loop call permit budget left s1 = (s2, es', r')" by (metis prod_cases3)
      from False Suc.prems c Inl l have "es = e # es'" "r = r'" 
        by (auto simp: retry_loop.simps [of call permit budget "Suc left"])
      with Suc.IH [OF l] False show ?thesis by (auto split: sum.splits)
    qed
  qed
qed

section \<open>Main results\<close>

text \<open>The single-target loop retries only what may be retried and always ends: it makes at most
  one attempt more than the budget, every error before the last is retryable, covered by the
  budget and permitted by the caller, and a failure is reported as the error of the last attempt.
  In particular an answer that was served but could not be read is never sent again.\<close>

theorem retrying_dispatch_is_safe:
  assumes "retrying_dispatch_gated call permit m default_retries st = (st', es, r)"
  shows "length es \<le> budget_attempts (effective_retries m None default_retries False) + 1 \<and>
         (\<forall>e \<in> set (butlast es). is_retryable e False [] \<and> permit e \<and>
            (\<forall>x. e \<noteq> UpstreamDecode x) \<and> (\<forall>s x y. e \<noteq> UpstreamBodyUnread s x y)) \<and>
         (\<forall>e. r = Inl e \<longrightarrow> es \<noteq> [] \<and> last es = e)"
proof -
  note l = retry_loop_shape [OF assms [unfolded retrying_dispatch_gated_def Let_def]]
  have "\<forall>e \<in> set (butlast es). is_retryable e False [] \<and> permit e \<and>
            (\<forall>x. e \<noteq> UpstreamDecode x) \<and> (\<forall>s x y. e \<noteq> UpstreamBodyUnread s x y)"
    using l by auto
  with l show ?thesis by auto
qed

text \<open>An upstream that answers 503 once and then serves, for a model with three retries.\<close>

definition flaky :: "nat \<Rightarrow> nat \<times> (bridge_error + string)" where
  "flaky n = (n + 1, if n = 0 then Inl (upstream_status 503 ''busy'') else Inr ''ok'')"

theorem retrying_dispatch_is_safe_witness:
  "retrying_dispatch_gated flaky (\<lambda>_. True) (plain_model ''m'') 0 0 =
     (2, [upstream_status 503 ''busy''], Inr ''ok'') \<and>
   length [upstream_status 503 ''busy''] \<le> 4"
proof -
  have b: "effective_retries (plain_model ''m'') None 0 False = \<lparr>budget_attempts = 3, configured = True\<rparr>"
    by (simp add: effective_retries_def plain_model_def)
  have r: "retrying_dispatch_gated flaky (\<lambda>_. True) (plain_model ''m'') 0 0 =
     (2, [upstream_status 503 ''busy''], Inr ''ok'')"
    by (simp add: retrying_dispatch_gated_def b retry_loop.simps flaky_def upstream_status_def
        status_retryable_def client_error_def covers_def numeral_eq_Suc)
  from retrying_dispatch_is_safe [OF r] r show ?thesis by (simp add: b)
qed

text \<open>A backoff is never long and never zero: before a retry the loop waits the upstream's hint
  when it is at most five seconds, else a term between 250 ms and 2 s that doubles with each
  retry, plus the jitter; the total is at most 5.25 s.\<close>

theorem retry_backoff_bounds:
  assumes "0 < retry" and "jitter \<le> RETRY_BACKOFF_JITTER_MS"
  shows "retry_backoff jitter retry hint \<le> 5250 \<and>
         (case hint of
            Some h \<Rightarrow> (if 0 < h \<and> h \<le> 5000 then retry_backoff jitter retry hint = h + jitter
                       else 250 \<le> retry_backoff jitter retry hint \<and> retry_backoff jitter retry hint \<le> 2250)
          | None \<Rightarrow> 250 \<le> retry_backoff jitter retry hint \<and> retry_backoff jitter retry hint \<le> 2250)"
  using retry_backoff_le [OF assms(2), of retry hint] exp_backoff_bounds [of retry] assms
  by (auto simp: retry_backoff_def backoff_consts u64_max_def Let_def split: option.splits)

theorem retry_backoff_bounds_witness: "retry_backoff 250 7 (Some 60000) \<le> 5250"
  using retry_backoff_bounds [of 7 250 "Some 60000"] by (simp add: backoff_consts)

text \<open>Deadlines resolve target first, then group, then deployment: an explicit \<open>0\<close> of the nearest
  level that says anything lifts the request deadline; a streaming deadline set on the target or
  its group always wins for streams and is the only deadline besides an explicit request timeout
  that may hold back response headers.\<close>

theorem effective_timeouts_levels:
  "let b = effective_timeouts target parent defaults in
     tb_request b =
       (case timeout target of
          Some ms \<Rightarrow> (if ms = 0 then None else Some ms)
        | None \<Rightarrow> (case Option.bind parent timeout of
                     Some ms \<Rightarrow> (if ms = 0 then None else Some ms)
                   | None \<Rightarrow> td_request defaults)) \<and>
     (\<forall>d. stream_read_timeout target = Some d \<longrightarrow> tb_stream b = Some d \<and> stream_configured b) \<and>
     (timeout target = None \<and> Option.bind parent timeout = None \<and> stream_read_timeout target = None \<and>
        Option.bind parent stream_read_timeout = None \<longrightarrow> \<not> stream_configured b) \<and>
     (stream_configured b \<longrightarrow> tb_stream b \<noteq> None)"
  by (cases parent) (auto simp: effective_timeouts_def or_else_def request_timeout_level_def Let_def
      split: option.splits)

theorem effective_timeouts_levels_witness:
  "tb_request (effective_timeouts ((plain_model ''m'')\<lparr>timeout := Some 0\<rparr>) None
     \<lparr>td_request = Some 600000, td_stream = None\<rparr>) = None"
  using effective_timeouts_levels [of "(plain_model ''m'')\<lparr>timeout := Some 0\<rparr>" None
      "\<lparr>td_request = Some 600000, td_stream = None\<rparr>"]
  by (simp add: Let_def)

end
