(* ===== verification/Health.thy ===== *)
theory Health
  imports Model_Config Gateway_Errors
begin

text \<open>
  Health and runtime status of upstream targets: \<^verbatim>\<open>crates/aisix-proxy/src/health.rs\<close> and
  \<^verbatim>\<open>cooldown.rs\<close>. Wall-clock times (\<^verbatim>\<open>SystemTime\<close>, the argument \<open>now\<close>) and monotonic times
  (\<^verbatim>\<open>Instant\<close>, the argument \<open>inst\<close>) are milliseconds. Published metrics are two fields of the
  tracker, the state gauge and the cooldown counter. A latency average is a value of type \<open>'f\<close>;
  the blend of two floats is a parameter. Operations hold their entry's lock for the whole body.
\<close>

section \<open>Cooldown decision\<close>

definition reason_for_status :: "nat \<Rightarrow> string" where
  "reason_for_status s =
     (if s = 401 then ''upstream_auth_failure''
      else if s = 408 then ''upstream_request_timeout''
      else if s = 429 then ''upstream_rate_limited''
      else if 500 \<le> s \<and> s \<le> 599 then ''upstream_server_error''
      else ''upstream_status_failure'')"

definition decide_enabled :: "cooldown_config \<Rightarrow> nat \<Rightarrow> bridge_error \<Rightarrow> (nat \<times> string) option" where
  "decide_enabled cfg default_ttl err =
     (let mx = max_seconds_or_default cfg * 1000
      in case err of
           UpstreamStatus s _ _ _ retry_after _ \<Rightarrow>
             if s \<notin> set (effective_trigger_statuses cfg) then None
             else Some (if honor_retry_after_or_default cfg
                        then (case retry_after of Some d \<Rightarrow> min d mx | None \<Rightarrow> default_ttl)
                        else default_ttl,
                        reason_for_status s)
         | UpstreamInBand (Some s) _ _ _ \<Rightarrow>
             if s \<notin> set (effective_trigger_statuses cfg) then None
             else Some (default_ttl, reason_for_status s)
         | UpstreamInBand None _ _ _ \<Rightarrow>
             if trigger_on_transport_or_default cfg
             then Some (default_ttl, ''upstream_in_band_error'') else None
         | Timeout _ _ \<Rightarrow>
             if trigger_on_timeout_or_default cfg then Some (default_ttl, ''request_timeout'') else None
         | Transport _ \<Rightarrow>
             if trigger_on_transport_or_default cfg then Some (default_ttl, ''transport_error'') else None
         | StreamAborted \<Rightarrow>
             if trigger_on_transport_or_default cfg then Some (default_ttl, ''transport_error'') else None
         | UpstreamDecode _ \<Rightarrow> None
         | UpstreamBodyUnread _ _ _ \<Rightarrow> None
         | TokenExchangeDecode _ \<Rightarrow>
             if trigger_on_transport_or_default cfg
             then Some (default_ttl, ''upstream_decode_error'') else None
         | _ \<Rightarrow> None)"

definition decide_cooldown :: "bridge_error \<Rightarrow> cooldown_config option \<Rightarrow> (nat \<times> string) option" where
  "decide_cooldown err cfg =
     (case cfg of
        None \<Rightarrow> None
      | Some c \<Rightarrow>
          if \<not> cooldown_is_enabled c then None
          else if default_seconds_or_default c = 0 then None
          else decide_enabled c (default_seconds_or_default c * 1000) err)"

section \<open>Consecutive failures\<close>

datatype health_level = LevelHealthy | LevelDegraded | LevelDown

fun level_u8 :: "health_level \<Rightarrow> nat" where
  "level_u8 LevelHealthy = 0"
| "level_u8 LevelDegraded = 1"
| "level_u8 LevelDown = 2"

definition DEGRADED_THRESHOLD :: nat where "DEGRADED_THRESHOLD = 4"
definition DOWN_THRESHOLD :: nat where "DOWN_THRESHOLD = 8"

definition entry_level :: "nat \<Rightarrow> health_level" where
  "entry_level n =
     (if n \<ge> DOWN_THRESHOLD then LevelDown
      else if n \<ge> DEGRADED_THRESHOLD then LevelDegraded else LevelHealthy)"

definition on_failure :: "nat \<Rightarrow> nat" where
  "on_failure prev = (if prev > DOWN_THRESHOLD then DOWN_THRESHOLD + 1 else prev + 1)"

type_synonym health_tracker = "string \<rightharpoonup> nat"

definition record_success :: "bool \<Rightarrow> health_tracker \<Rightarrow> string \<Rightarrow> health_tracker" where
  "record_success active t m =
     (if active then t(m \<mapsto> 0)
      else (case t m of Some n \<Rightarrow> if n \<noteq> 0 then t(m \<mapsto> 0) else t | None \<Rightarrow> t))"

definition record_failure :: "health_tracker \<Rightarrow> string \<Rightarrow> health_tracker" where
  "record_failure t m = t(m \<mapsto> on_failure (case t m of Some n \<Rightarrow> n | None \<Rightarrow> 0))"

definition health_level_of :: "health_tracker \<Rightarrow> string \<Rightarrow> health_level" where
  "health_level_of t m = (case t m of Some n \<Rightarrow> entry_level n | None \<Rightarrow> LevelHealthy)"

definition health_retain :: "(string \<Rightarrow> bool) \<Rightarrow> health_tracker \<Rightarrow> health_tracker" where
  "health_retain configured t = (\<lambda>m. if configured m then t m else None)"

lemmas thresholds = DEGRADED_THRESHOLD_def DOWN_THRESHOLD_def

text \<open>\<open>failures ops m\<close> counts the failures of \<open>m\<close> since its last success; the tracker reports the
  level of that number.\<close>

datatype health_event = HSuccess bool string | HFailure string

fun health_step :: "health_tracker \<Rightarrow> health_event \<Rightarrow> health_tracker" where
  "health_step t (HSuccess active m) = record_success active t m"
| "health_step t (HFailure m) = record_failure t m"

fun failures :: "health_event list \<Rightarrow> string \<Rightarrow> nat \<Rightarrow> nat" where
  "failures [] m n = n"
| "failures (HSuccess _ m' # es) m n = failures es m (if m' = m then 0 else n)"
| "failures (HFailure m' # es) m n = failures es m (if m' = m then n + 1 else n)"

definition capped_count :: "nat option \<Rightarrow> nat \<Rightarrow> bool" where
  "capped_count x n \<longleftrightarrow>
     (case x of None \<Rightarrow> n = 0 | Some c \<Rightarrow> c = min n (DOWN_THRESHOLD + 1))"

lemma capped_count_step:
  assumes "capped_count (t m) n"
  shows "capped_count (health_step t e m) (failures [e] m n)"
  using assms
  by (cases e) (auto simp: capped_count_def record_success_def record_failure_def on_failure_def
      thresholds split: option.splits)

lemma capped_count_run:
  "capped_count (t m) n \<Longrightarrow> capped_count (foldl health_step t es m) (failures es m n)"
proof (induction es arbitrary: t n)
  case (Cons e es)
  have "failures (e # es) m n = failures es m (failures [e] m n)" by (cases e) simp_all
  with Cons.IH [where t = "health_step t e" and n = "failures [e] m n"]
    capped_count_step [where t = t and m = m and n = n and e = e, OF Cons.prems]
  show ?case by simp
qed simp

lemma capped_count_level: "capped_count x n \<Longrightarrow> (case x of Some c \<Rightarrow> entry_level c | None \<Rightarrow> LevelHealthy) = entry_level n"
  by (auto simp: capped_count_def entry_level_def thresholds split: option.splits)

section \<open>Runtime status\<close>

datatype runtime_status = StatusHealthy | StatusUnhealthy | StatusCooldown | StatusNotApplicable

datatype deployment_state = StateHealthy | StatePartialFailure | StateDown

record runtime_status_snapshot =
  snap_status :: runtime_status
  snap_cooldown_until :: "nat option"
  snap_last_checked_at :: "nat option"
  snap_last_check_status :: "nat option"
  snap_status_reason :: "string option"

definition status_snapshot_default :: runtime_status_snapshot where
  "status_snapshot_default =
     \<lparr>snap_status = StatusHealthy, snap_cooldown_until = None, snap_last_checked_at = None,
      snap_last_check_status = None, snap_status_reason = None\<rparr>"

record runtime_entry =
  unhealthy :: bool
  cooldown_until :: "nat option"
  cooldown_marked_at :: "nat option"
  last_checked_at :: "nat option"
  last_check_status :: "nat option"
  status_reason :: "string option"
  emitted_state :: "deployment_state option"

definition runtime_entry_default :: runtime_entry where
  "runtime_entry_default =
     \<lparr>unhealthy = False, cooldown_until = None, cooldown_marked_at = None, last_checked_at = None,
      last_check_status = None, status_reason = None, emitted_state = None\<rparr>"

definition cooling_at :: "runtime_entry \<Rightarrow> nat \<Rightarrow> bool" where
  "cooling_at e now = (case cooldown_until e of Some u \<Rightarrow> u > now | None \<Rightarrow> False)"

definition deployment_state_of :: "runtime_entry \<Rightarrow> nat \<Rightarrow> deployment_state" where
  "deployment_state_of e now = (if unhealthy e \<or> cooling_at e now then StateDown else StateHealthy)"

definition cooldown_outlives :: "runtime_entry \<Rightarrow> nat \<Rightarrow> nat \<Rightarrow> bool" where
  "cooldown_outlives e attempt_started now \<longleftrightarrow>
     (case cooldown_marked_at e of Some marked \<Rightarrow> attempt_started < marked | None \<Rightarrow> False) \<and>
     cooling_at e now"

definition is_stale :: "runtime_entry \<Rightarrow> nat \<Rightarrow> nat option \<Rightarrow> bool" where
  "is_stale e now stale_after =
     (case stale_after of
        None \<Rightarrow> False
      | Some limit_ms \<Rightarrow>
          (case last_checked_at e of
             None \<Rightarrow> False
           | Some checked \<Rightarrow> if checked \<le> now then now - checked > limit_ms else False))"

definition entry_snapshot :: "runtime_entry \<Rightarrow> nat \<Rightarrow> nat option \<Rightarrow> runtime_status_snapshot" where
  "entry_snapshot e now stale_after =
     \<lparr>snap_status =
        (if cooling_at e now then StatusCooldown
         else if unhealthy e \<and> \<not> is_stale e now stale_after then StatusUnhealthy
         else StatusHealthy),
      snap_cooldown_until = (if cooling_at e now then cooldown_until e else None),
      snap_last_checked_at = last_checked_at e,
      snap_last_check_status = last_check_status e,
      snap_status_reason = status_reason e\<rparr>"

definition EXCLUSION_LOG_INTERVAL :: nat where "EXCLUSION_LOG_INTERVAL = 60000"
definition LATENCY_FAILURE_PENALTY :: nat where "LATENCY_FAILURE_PENALTY = 30000"
definition COOLDOWN_UNTIL_CEILING :: nat where
  "COOLDOWN_UNTIL_CEILING = 100 * 365 * 24 * 60 * 60 * 1000"

text \<open>The last instant \<^verbatim>\<open>SystemTime::checked_add\<close> can reach: \<^verbatim>\<open>i64::MAX\<close> seconds.\<close>

definition SYSTEM_TIME_MAX :: nat where
  "SYSTEM_TIME_MAX = 9223372036854775807 * 1000 + 999"

record 'f tracker =
  entries :: "string \<rightharpoonup> runtime_entry"
  state_gauge :: "string \<rightharpoonup> deployment_state"
  cooled_down_total :: "string \<Rightarrow> nat"
  exclusion_log :: "(string \<times> string \<times> string) \<rightharpoonup> nat"
  in_flight_count :: "string \<rightharpoonup> nat"
  ewma_ms :: "string \<rightharpoonup> 'f"
  penalty_until :: "string \<rightharpoonup> nat"

definition tracker_new :: "'f tracker" where
  "tracker_new =
     \<lparr>entries = Map.empty, state_gauge = Map.empty, cooled_down_total = (\<lambda>_. 0),
      exclusion_log = Map.empty, in_flight_count = Map.empty, ewma_ms = Map.empty,
      penalty_until = Map.empty\<rparr>"

text \<open>Write the entry back and publish its state when it differs from the one last published.\<close>

definition sync_deployment_state :: "'f tracker \<Rightarrow> string \<Rightarrow> runtime_entry \<Rightarrow> nat \<Rightarrow> 'f tracker" where
  "sync_deployment_state t m e now =
     (let state = deployment_state_of e now
      in if emitted_state e = Some state then t\<lparr>entries := (entries t)(m \<mapsto> e)\<rparr>
         else t\<lparr>entries := (entries t)(m \<mapsto> e\<lparr>emitted_state := Some state\<rparr>),
                state_gauge := (state_gauge t)(m \<mapsto> state)\<rparr>)"

definition record_cooldown :: "'f tracker \<Rightarrow> string \<Rightarrow> 'f tracker" where
  "record_cooldown t m =
     t\<lparr>cooled_down_total := (cooled_down_total t)(m := cooled_down_total t m + 1)\<rparr>"

definition mark_cooldown :: "'f tracker \<Rightarrow> nat \<Rightarrow> nat \<Rightarrow> string \<Rightarrow> nat \<Rightarrow> string \<Rightarrow> 'f tracker" where
  "mark_cooldown t now inst m ttl reason =
     (let until = (if now + ttl \<le> SYSTEM_TIME_MAX then now + ttl else now + COOLDOWN_UNTIL_CEILING);
          e = unwrap_or (entries t m) runtime_entry_default;
          entered = (case cooldown_until e of None \<Rightarrow> True | Some u \<Rightarrow> u \<le> now);
          e1 = e\<lparr>cooldown_until := Some until, cooldown_marked_at := Some inst,
                 status_reason := Some reason\<rparr>;
          t1 = (if entered then record_cooldown t m else t)
      in sync_deployment_state t1 m e1 now)"

definition note_failure ::
    "'f tracker \<Rightarrow> nat \<Rightarrow> nat \<Rightarrow> string \<Rightarrow> cooldown_config option \<Rightarrow> bridge_error \<Rightarrow> 'f tracker" where
  "note_failure t now inst m cfg err =
     (case decide_cooldown err cfg of
        Some (ttl, reason) \<Rightarrow> mark_cooldown t now inst m ttl reason
      | None \<Rightarrow> t)"

definition cleared :: "runtime_entry \<Rightarrow> runtime_entry" where
  "cleared e = e\<lparr>unhealthy := False, cooldown_until := None, cooldown_marked_at := None,
                status_reason := None\<rparr>"

definition mark_healthy :: "bool \<Rightarrow> 'f tracker \<Rightarrow> nat \<Rightarrow> string \<Rightarrow> nat \<Rightarrow> 'f tracker" where
  "mark_healthy active t now m attempt_started =
     (case entries t m of
        None \<Rightarrow> t
      | Some e \<Rightarrow>
          if \<not> active \<and>
             \<not> (unhealthy e \<or> cooldown_until e \<noteq> None \<or> status_reason e \<noteq> None \<or>
                emitted_state e \<noteq> Some StateHealthy)
          then t
          else if cooldown_outlives e attempt_started now then t
          else sync_deployment_state t m (cleared e) now)"

definition clear_unhealthy :: "'f tracker \<Rightarrow> nat \<Rightarrow> string \<Rightarrow> 'f tracker" where
  "clear_unhealthy t now m =
     (case entries t m of
        None \<Rightarrow> t
      | Some e \<Rightarrow>
          sync_deployment_state t m
            (e\<lparr>unhealthy := False, last_checked_at := Some now, last_check_status := Some 200,
               status_reason :=
                 (if status_reason e = Some ''background_check_failed'' then None else status_reason e)\<rparr>)
            now)"

definition mark_unhealthy :: "'f tracker \<Rightarrow> nat \<Rightarrow> string \<Rightarrow> nat option \<Rightarrow> string \<Rightarrow> 'f tracker" where
  "mark_unhealthy t now m st reason =
     (let e = unwrap_or (entries t m) runtime_entry_default
      in sync_deployment_state t m
           (e\<lparr>unhealthy := True, last_checked_at := Some now, last_check_status := st,
              status_reason := Some reason\<rparr>) now)"

definition record_ignored_check :: "'f tracker \<Rightarrow> nat \<Rightarrow> string \<Rightarrow> nat \<Rightarrow> string \<Rightarrow> 'f tracker" where
  "record_ignored_check t now m st reason =
     (let e = unwrap_or (entries t m) runtime_entry_default
      in t\<lparr>entries := (entries t)(m \<mapsto> e\<lparr>last_checked_at := Some now, last_check_status := Some st,
                                          status_reason := Some reason\<rparr>)\<rparr>)"

definition record_latency ::
    "('f \<Rightarrow> 'f \<Rightarrow> 'f) \<Rightarrow> bool \<Rightarrow> 'f tracker \<Rightarrow> string \<Rightarrow> 'f \<Rightarrow> 'f tracker" where
  "record_latency blend active t m sample =
     (if \<not> active then t
      else t\<lparr>ewma_ms := (ewma_ms t)(m \<mapsto>
               (case ewma_ms t m of Some prev \<Rightarrow> blend sample prev | None \<Rightarrow> sample))\<rparr>)"

definition penalize_latency :: "bool \<Rightarrow> 'f tracker \<Rightarrow> nat \<Rightarrow> string \<Rightarrow> 'f tracker" where
  "penalize_latency active t inst m =
     (if \<not> active then t
      else t\<lparr>penalty_until := (penalty_until t)(m \<mapsto> inst + LATENCY_FAILURE_PENALTY)\<rparr>)"

definition latency_penalized :: "'f tracker \<Rightarrow> nat \<Rightarrow> string \<Rightarrow> bool" where
  "latency_penalized t inst m = (case penalty_until t m of Some u \<Rightarrow> u > inst | None \<Rightarrow> False)"

definition latency_ewma_ms :: "'f tracker \<Rightarrow> string \<Rightarrow> 'f option" where
  "latency_ewma_ms t m = ewma_ms t m"

definition should_log_exclusion ::
    "'f tracker \<Rightarrow> nat \<Rightarrow> string \<Rightarrow> string \<Rightarrow> string \<Rightarrow> 'f tracker \<times> bool" where
  "should_log_exclusion t inst virtual_name m reason =
     (let key = (virtual_name, m, reason)
      in case exclusion_log t key of
           Some logged \<Rightarrow>
             if inst - logged < EXCLUSION_LOG_INTERVAL then (t, False)
             else (t\<lparr>exclusion_log := (exclusion_log t)(key \<mapsto> inst)\<rparr>, True)
         | None \<Rightarrow> (t\<lparr>exclusion_log := (exclusion_log t)(key \<mapsto> inst)\<rparr>, True))"

text \<open>A guard names the target whose counter it raised, \<open>None\<close> for the no-op guard. The counter of
  a live guard stays in the map, so a drop finds it there.\<close>

type_synonym in_flight_guard = "string option"

definition count_in_flight :: "bool \<Rightarrow> 'f tracker \<Rightarrow> string \<Rightarrow> 'f tracker \<times> in_flight_guard" where
  "count_in_flight active t m =
     (if \<not> active then (t, None)
      else (t\<lparr>in_flight_count := (in_flight_count t)(m \<mapsto> unwrap_or (in_flight_count t m) 0 + 1)\<rparr>,
            Some m))"

definition begin_in_flight :: "bool \<Rightarrow> 'f tracker \<Rightarrow> string \<Rightarrow> 'f tracker \<times> in_flight_guard" where
  "begin_in_flight active t m =
     count_in_flight active
       (if entries t m = None
        then t\<lparr>entries := (entries t)(m \<mapsto> runtime_entry_default)\<rparr> else t) m"

definition drop_guard :: "'f tracker \<Rightarrow> in_flight_guard \<Rightarrow> 'f tracker" where
  "drop_guard t g =
     (case g of
        None \<Rightarrow> t
      | Some m \<Rightarrow>
          (case in_flight_count t m of
             None \<Rightarrow> t
           | Some c \<Rightarrow> t\<lparr>in_flight_count := (in_flight_count t)(m \<mapsto> (if c = 0 then u64_max else c - 1))\<rparr>))"

definition in_flight_of :: "'f tracker \<Rightarrow> string \<Rightarrow> nat" where
  "in_flight_of t m = unwrap_or (in_flight_count t m) 0"

definition status_with_stale :: "'f tracker \<Rightarrow> nat \<Rightarrow> string \<Rightarrow> nat option \<Rightarrow> runtime_status_snapshot" where
  "status_with_stale t now m stale_after =
     (case entries t m of Some e \<Rightarrow> entry_snapshot e now stale_after | None \<Rightarrow> status_snapshot_default)"

definition should_skip_for_routing :: "'f tracker \<Rightarrow> nat \<Rightarrow> string \<Rightarrow> nat option \<Rightarrow> runtime_status" where
  "should_skip_for_routing t now m stale_after = snap_status (status_with_stale t now m stale_after)"

definition tracker_retain :: "(string \<Rightarrow> bool) \<Rightarrow> 'f tracker \<Rightarrow> 'f tracker" where
  "tracker_retain configured t =
     t\<lparr>entries := (\<lambda>m. if configured m then entries t m else None),
       in_flight_count := (\<lambda>m. case in_flight_count t m of
                                 Some c \<Rightarrow> if c > 0 \<or> configured m then Some c else None
                               | None \<Rightarrow> None),
       ewma_ms := (\<lambda>m. if configured m then ewma_ms t m else None),
       penalty_until := (\<lambda>m. if configured m then penalty_until t m else None)\<rparr>"

section \<open>Operations as steps\<close>

datatype 'f tracker_op =
    MarkCooldown string nat string
  | MarkHealthy bool string nat
  | ClearUnhealthy string
  | MarkUnhealthy string "nat option" string
  | IgnoredCheck string nat string
  | RecordLatency bool string 'f
  | PenalizeLatency bool string
  | LogExclusion string string string
  | RetainConfigured "string \<Rightarrow> bool"

fun tracker_step :: "('f \<Rightarrow> 'f \<Rightarrow> 'f) \<Rightarrow> 'f tracker \<Rightarrow> nat \<times> nat \<times> 'f tracker_op \<Rightarrow> 'f tracker" where
  "tracker_step blend t (now, inst, MarkCooldown m ttl r) = mark_cooldown t now inst m ttl r"
| "tracker_step blend t (now, inst, MarkHealthy active m started) = mark_healthy active t now m started"
| "tracker_step blend t (now, inst, ClearUnhealthy m) = clear_unhealthy t now m"
| "tracker_step blend t (now, inst, MarkUnhealthy m st r) = mark_unhealthy t now m st r"
| "tracker_step blend t (now, inst, IgnoredCheck m st r) = record_ignored_check t now m st r"
| "tracker_step blend t (now, inst, RecordLatency active m x) = record_latency blend active t m x"
| "tracker_step blend t (now, inst, PenalizeLatency active m) = penalize_latency active t inst m"
| "tracker_step blend t (now, inst, LogExclusion v m r) = fst (should_log_exclusion t inst v m r)"
| "tracker_step blend t (now, inst, RetainConfigured c) = tracker_retain c t"

lemma entries_sync:
  "entries (sync_deployment_state t m e now) =
     (entries t)(m \<mapsto> e\<lparr>emitted_state := Some (deployment_state_of e now)\<rparr>)"
  by (auto simp: sync_deployment_state_def Let_def)

lemma in_flight_sync [simp]:
  "in_flight_count (sync_deployment_state t m e now) = in_flight_count t"
  "in_flight_count (record_cooldown t m) = in_flight_count t"
  by (simp_all add: sync_deployment_state_def record_cooldown_def Let_def)

lemma entries_record_cooldown [simp]: "entries (record_cooldown t m) = entries t"
  by (simp add: record_cooldown_def)

lemma in_flight_step:
  "in_flight_count (tracker_step blend t x) =
     (case x of (_, _, RetainConfigured c) \<Rightarrow> in_flight_count (tracker_retain c t)
              | _ \<Rightarrow> in_flight_count t)"
proof -
  obtain now inst op where x: "x = (now, inst, op)" by (cases x)
  show ?thesis unfolding x
    by (cases op) (simp_all add: mark_cooldown_def mark_healthy_def clear_unhealthy_def
        mark_unhealthy_def record_ignored_check_def record_latency_def penalize_latency_def
        should_log_exclusion_def Let_def split: option.splits)
qed

subsection \<open>A cooldown holds until it lapses\<close>

text \<open>An operation that may not end the cooldown of \<open>m\<close> set at \<open>marked\<close>: successes of attempts that
  began before it, background checks, other targets' traffic and upkeep that keeps \<open>m\<close>.\<close>

fun keeps_cooldown :: "string \<Rightarrow> nat \<Rightarrow> 'f tracker_op \<Rightarrow> bool" where
  "keeps_cooldown m marked (MarkCooldown m' _ _) = (m' \<noteq> m)"
| "keeps_cooldown m marked (MarkHealthy _ m' started) = (m' = m \<longrightarrow> started < marked)"
| "keeps_cooldown m marked (RetainConfigured c) = c m"
| "keeps_cooldown m marked _ = True"

definition cooled :: "'f tracker \<Rightarrow> string \<Rightarrow> nat \<Rightarrow> nat \<Rightarrow> bool" where
  "cooled t m until marked \<longleftrightarrow>
     (\<exists>e. entries t m = Some e \<and> cooldown_until e = Some until \<and> cooldown_marked_at e = Some marked)"

lemma cooled_step:
  assumes "cooled t m until marked" and "now < until" and "keeps_cooldown m marked op"
  shows "cooled (tracker_step blend t (now, inst, op)) m until marked"
proof (cases op)
  case (MarkHealthy active m' started)
  with assms show ?thesis
    by (auto simp: cooled_def mark_healthy_def entries_sync cooldown_outlives_def cooling_at_def
        split: option.splits)
qed (use assms in \<open>auto simp: cooled_def mark_cooldown_def entries_sync clear_unhealthy_def
    mark_unhealthy_def record_ignored_check_def record_latency_def penalize_latency_def
    should_log_exclusion_def tracker_retain_def Let_def split: option.splits\<close>)

lemma cooled_run:
  assumes "cooled t m until marked"
    and "\<forall>(now, inst, op) \<in> set xs. now < until \<and> keeps_cooldown m marked op"
  shows "cooled (foldl (tracker_step blend) t xs) m until marked"
  using assms
proof (induction xs arbitrary: t)
  case (Cons x xs)
  obtain now inst op where x: "x = (now, inst, op)" by (cases x)
  have "cooled (tracker_step blend t x) m until marked"
    using Cons.prems by (simp add: x cooled_step)
  with Cons show ?case by simp
qed simp

lemma mark_cooldown_cooled:
  assumes "now + ttl \<le> SYSTEM_TIME_MAX"
  shows "cooled (mark_cooldown t now inst m ttl reason) m (now + ttl) inst"
  using assms by (simp add: cooled_def mark_cooldown_def entries_sync Let_def)

lemma cooled_status:
  "cooled t m until marked \<Longrightarrow> now < until \<Longrightarrow> should_skip_for_routing t now m stale = StatusCooldown"
  by (auto simp: cooled_def should_skip_for_routing_def status_with_stale_def entry_snapshot_def
      cooling_at_def)

subsection \<open>In-flight counters count the live guards\<close>

inductive guard_run :: "('f \<Rightarrow> 'f \<Rightarrow> 'f) \<Rightarrow> 'f tracker \<Rightarrow> in_flight_guard multiset \<Rightarrow> bool" for blend where
  start: "guard_run blend tracker_new {#}"
| count: "guard_run blend t G \<Longrightarrow> count_in_flight active t m = (t', g) \<Longrightarrow> guard_run blend t' (add_mset g G)"
| enter: "guard_run blend t G \<Longrightarrow> begin_in_flight active t m = (t', g) \<Longrightarrow> guard_run blend t' (add_mset g G)"
| drop: "guard_run blend t G \<Longrightarrow> g \<in># G \<Longrightarrow> guard_run blend (drop_guard t g) (G - {#g#})"
| other: "guard_run blend t G \<Longrightarrow> guard_run blend (tracker_step blend t x) G"

lemma in_flight_of_count:
  "count_in_flight active t m = (t', g) \<Longrightarrow>
     in_flight_of t' k = in_flight_of t k + (if g = Some k then 1 else 0)"
  by (auto simp: count_in_flight_def in_flight_of_def split: if_splits)

lemma in_flight_of_retain: "in_flight_of (tracker_retain c t) k = in_flight_of t k"
  by (auto simp: in_flight_of_def tracker_retain_def split: option.splits)

lemma guard_run_counts: "guard_run blend t G \<Longrightarrow> in_flight_of t k = Multiset.count G (Some k)"
proof (induction arbitrary: k rule: guard_run.induct)
  case start
  then show ?case by (simp add: in_flight_of_def tracker_new_def)
next
  case (count t G active m t' g)
  then show ?case using in_flight_of_count [OF count.hyps(2)] by auto
next
  case (enter t G active m t' g)
  define t1 where "t1 = (if entries t m = None
        then t\<lparr>entries := (entries t)(m \<mapsto> runtime_entry_default)\<rparr> else t)"
  have "in_flight_of t1 k = in_flight_of t k" by (simp add: t1_def in_flight_of_def)
  moreover have "count_in_flight active t1 m = (t', g)"
    using enter.hyps(2) by (simp add: begin_in_flight_def t1_def)
  ultimately show ?case 
    using in_flight_of_count [of active t1 m t' g k] enter.IH [of k] by simp
next
  case (drop t G g)
  show ?case
  proof (cases g)
    case (Some m)
    with drop.hyps(2) have "Multiset.count G (Some m) > 0" by simp
    with drop.IH [of m] drop.IH [of k] Some show ?thesis
      by (auto simp: drop_guard_def in_flight_of_def count_eq_zero_iff split: option.splits)
  qed (use drop.IH in \<open>simp add: drop_guard_def\<close>)
next
  case (other t G x)
  have "in_flight_of (tracker_step blend t x) k = in_flight_of t k"
    using in_flight_of_retain [of _ t k]
    by (auto simp: in_flight_of_def in_flight_step split: prod.splits tracker_op.splits)
  with other.IH show ?case by simp
qed

subsection \<open>The published state\<close>

text \<open>Every operation that changes whether a target serves publishes the state it leaves.\<close>

definition gauge_ok :: "'f tracker \<Rightarrow> string \<Rightarrow> nat \<Rightarrow> bool" where
  "gauge_ok t m now \<longleftrightarrow>
     (\<forall>e. entries t m = Some e \<longrightarrow> emitted_state e = Some (deployment_state_of e now))"

lemma gauge_sync: "gauge_ok (sync_deployment_state t m e now) m now"
  by (simp add: gauge_ok_def entries_sync deployment_state_of_def cooling_at_def)

lemma mark_cooldown_counts_entry:
  "cooled_down_total (mark_cooldown t now inst m ttl r) m =
     cooled_down_total t m +
       (if \<exists>e. entries t m = Some e \<and> cooling_at e now then 0 else 1)"
  by (auto simp: mark_cooldown_def sync_deployment_state_def record_cooldown_def Let_def cooling_at_def
      runtime_entry_default_def not_le split: option.splits)

subsection \<open>The exclusion log\<close>

lemma should_log_result:
  "snd (should_log_exclusion t inst v m r) \<longleftrightarrow>
     (\<forall>logged. exclusion_log t (v, m, r) = Some logged \<longrightarrow> EXCLUSION_LOG_INTERVAL \<le> inst - logged)"
  by (auto simp: should_log_exclusion_def Let_def not_less split: option.splits)

lemma exclusion_log_step:
  "exclusion_log (tracker_step blend t x) k =
     (case x of (_, inst, LogExclusion v m r) \<Rightarrow>
        if k = (v, m, r) \<and> snd (should_log_exclusion t inst v m r) then Some inst else exclusion_log t k
      | _ \<Rightarrow> exclusion_log t k)"
proof -
  obtain now inst op where x: "x = (now, inst, op)" by (cases x)
  show ?thesis unfolding x
    by (cases op) (auto simp: mark_cooldown_def mark_healthy_def clear_unhealthy_def
        sync_deployment_state_def record_cooldown_def tracker_retain_def
        mark_unhealthy_def record_ignored_check_def record_latency_def penalize_latency_def
        should_log_exclusion_def Let_def split: option.splits)
qed

section \<open>Bookkeeping flags\<close>

text \<open>
  \<^verbatim>\<open>BookkeepingFlags\<close> caches three predicates over the model table in two packed words, keyed on
  the snapshot version and on the table's generation. A view is one atomic snapshot publication.
\<close>

definition FLAG_LEAST_BUSY :: nat where "FLAG_LEAST_BUSY = 1"
definition FLAG_LEAST_LATENCY :: nat where "FLAG_LEAST_LATENCY = 2"
definition FLAG_HEALTH_CHECKS :: nat where "FLAG_HEALTH_CHECKS = 4"

definition u64_modulus_flags :: nat where "u64_modulus_flags = 18446744073709551616"

record config_view =
  view_version :: nat
  view_generation :: nat
  view_models :: "model list"

record bookkeeping =
  packed :: nat
  packed_by_generation :: nat
  scans :: nat

definition bookkeeping_new :: bookkeeping where
  "bookkeeping_new = \<lparr>packed = u64_max, packed_by_generation = u64_max, scans = 0\<rparr>"

text \<open>The bits of one model; the loop ors them together.\<close>

definition model_bits :: "model \<Rightarrow> bool \<times> bool \<times> bool" where
  "model_bits m =
     (case routing_of m of Some r \<Rightarrow> strategy r = LeastBusy | None \<Rightarrow> False,
      case routing_of m of Some r \<Rightarrow> strategy r = LeastLatency | None \<Rightarrow> False,
      case background_check m of Some c \<Rightarrow> bc_enabled c | None \<Rightarrow> False)"

definition scan_bits :: "model list \<Rightarrow> nat" where
  "scan_bits ms =
     (if list_ex (\<lambda>m. fst (model_bits m)) ms then FLAG_LEAST_BUSY else 0) +
     (if list_ex (\<lambda>m. fst (snd (model_bits m))) ms then FLAG_LEAST_LATENCY else 0) +
     (if list_ex (\<lambda>m. snd (snd (model_bits m))) ms then FLAG_HEALTH_CHECKS else 0)"

definition pack :: "nat \<Rightarrow> nat \<Rightarrow> nat" where
  "pack key bits = key * 8 mod u64_modulus_flags + bits"

definition flag_bits :: "bookkeeping \<Rightarrow> config_view \<Rightarrow> bookkeeping \<times> nat" where
  "flag_bits b v =
     (if packed b \<noteq> u64_max \<and> packed b div 8 = view_version v then (b, packed b mod 8)
      else if packed_by_generation b \<noteq> u64_max \<and> packed_by_generation b div 8 = view_generation v
      then (let bits = packed_by_generation b mod 8
            in (b\<lparr>packed := pack (view_version v) bits\<rparr>, bits))
      else (let bits = scan_bits (view_models v)
            in (b\<lparr>scans := scans b + 1, packed_by_generation := pack (view_generation v) bits,
                  packed := pack (view_version v) bits\<rparr>, bits)))"

definition any_active :: "bookkeeping \<Rightarrow> config_view \<Rightarrow> bookkeeping \<times> bool" where
  "any_active b v = (let (b', bits) = flag_bits b v in (b', bits \<noteq> 0))"

lemma scan_bits_less: "scan_bits ms < 8"
  by (simp add: scan_bits_def FLAG_LEAST_BUSY_def FLAG_LEAST_LATENCY_def FLAG_HEALTH_CHECKS_def)

lemma pack_parts:
  assumes "key < 2 ^ 61" and "bits < 8"
  shows "pack key bits div 8 = key" and "pack key bits mod 8 = bits"
proof -
  have "pack key bits = key * 8 + bits" using assms(1) by (simp add: pack_def u64_modulus_flags_def)
  with assms(2) show "pack key bits div 8 = key" and "pack key bits mod 8 = bits" by simp_all
qed

text \<open>What a snapshot publication promises: a version and a generation each name one model table.\<close>

definition coherent :: "config_view set \<Rightarrow> bool" where
  "coherent V \<longleftrightarrow>
     (\<forall>v \<in> V. view_version v < 2 ^ 61 \<and> view_generation v < 2 ^ 61) \<and>
     (\<forall>v \<in> V. \<forall>w \<in> V. view_version v = view_version w \<or> view_generation v = view_generation w \<longrightarrow>
        view_models v = view_models w)"

definition caches :: "config_view set \<Rightarrow> bookkeeping \<Rightarrow> bool" where
  "caches V b \<longleftrightarrow>
     (packed b = u64_max \<or> (\<exists>v \<in> V. packed b = pack (view_version v) (scan_bits (view_models v)))) \<and>
     (packed_by_generation b = u64_max \<or>
        (\<exists>v \<in> V. packed_by_generation b = pack (view_generation v) (scan_bits (view_models v))))"

lemma flag_bits_fresh:
  assumes "coherent V" and "caches V b" and "v \<in> V"
  shows "snd (flag_bits b v) = scan_bits (view_models v)" and "caches V (fst (flag_bits b v))"
proof -
  have hit_version: "packed b mod 8 = scan_bits (view_models v)"
    if "packed b \<noteq> u64_max" "packed b div 8 = view_version v"
  proof -
    from that(1) assms(2) obtain w where "w \<in> V" "packed b = pack (view_version w) (scan_bits (view_models w))"
      by (auto simp: caches_def)
    with assms(1,3) that(2) show ?thesis
      using pack_parts [OF _ scan_bits_less] unfolding coherent_def by metis
  qed
  have hit_generation: "packed_by_generation b mod 8 = scan_bits (view_models v)"
    if "packed_by_generation b \<noteq> u64_max" "packed_by_generation b div 8 = view_generation v"
  proof -
    from that(1) assms(2) obtain w where
      "w \<in> V" "packed_by_generation b = pack (view_generation w) (scan_bits (view_models w))"
      by (auto simp: caches_def)
    with assms(1,3) that(2) show ?thesis
      using pack_parts [OF _ scan_bits_less] unfolding coherent_def by metis
  qed
  show "snd (flag_bits b v) = scan_bits (view_models v)"
    by (simp add: flag_bits_def Let_def hit_version hit_generation)
  show "caches V (fst (flag_bits b v))"
    using assms(2,3) by (auto simp: flag_bits_def Let_def caches_def hit_generation)
qed

lemma caches_run:
  assumes "coherent V" and "set vs \<subseteq> V" and "caches V b"
  shows "caches V (foldl (\<lambda>b v. fst (flag_bits b v)) b vs)"
  using assms(2,3) by (induction vs arbitrary: b) (simp_all add: flag_bits_fresh(2) [OF assms(1)])

section \<open>Liveness and readiness\<close>

record livez_state =
  shutting_down :: bool
  lz_in_flight :: nat
  lz_connections :: nat

definition livez_new :: livez_state where
  "livez_new = \<lparr>shutting_down = False, lz_in_flight = 0, lz_connections = 0\<rparr>"

definition mark_shutting_down :: "livez_state \<Rightarrow> livez_state" where
  "mark_shutting_down z = z\<lparr>shutting_down := True\<rparr>"

definition livez_enter :: "livez_state \<Rightarrow> livez_state" where
  "livez_enter z = z\<lparr>lz_in_flight := lz_in_flight z + 1\<rparr>"

definition livez_leave :: "livez_state \<Rightarrow> livez_state" where
  "livez_leave z = z\<lparr>lz_in_flight := sat_sub (lz_in_flight z) 1\<rparr>"

definition connection_opened :: "livez_state \<Rightarrow> livez_state" where
  "connection_opened z = z\<lparr>lz_connections := lz_connections z + 1\<rparr>"

definition connection_closed :: "livez_state \<Rightarrow> livez_state" where
  "connection_closed z = z\<lparr>lz_connections := sat_sub (lz_connections z) 1\<rparr>"

definition config_readiness_block :: "nat option \<Rightarrow> string option" where
  "config_readiness_block last_apply_age =
     (case last_apply_age of None \<Rightarrow> Some ''config not yet applied'' | Some _ \<Rightarrow> None)"

abbreviation newline :: string where "newline \<equiv> [CHR 0x0A]"

definition livez_response :: "bool \<Rightarrow> nat \<times> string" where
  "livez_response verbose =
     (200, if verbose then ''[+]ping ok'' @ newline @ ''livez check passed'' @ newline else ''ok'')"

definition readyz_response :: "livez_state \<Rightarrow> string option \<Rightarrow> bool \<Rightarrow> nat \<times> string" where
  "readyz_response z config_block verbose =
     (let body = (if shutting_down z then ''[-]shutdown failed: draining'' else ''[+]shutdown ok'') @ newline @
                 (case config_block of
                    None \<Rightarrow> ''[+]config ok'' @ newline
                  | Some _ \<Rightarrow> ''[-]config failed: not ready'' @ newline);
          failed = (shutting_down z \<or> config_block \<noteq> None)
      in if failed then (503, body @ ''readyz check failed'')
         else if \<not> verbose then (200, ''ok'')
         else (200, body @ ''readyz check passed'' @ newline))"

text \<open>Readiness fails exactly while draining or before the first configuration was applied; the age
  of the last configuration event plays no part.\<close>

lemma readyz_status:
  "fst (readyz_response z (config_readiness_block age) verbose) =
     (if shutting_down z \<or> age = None then 503 else 200)"
  by (simp add: readyz_response_def config_readiness_block_def Let_def split: option.splits)

section \<open>Main results\<close>



text \<open>The in-flight count of a target, which \<^verbatim>\<open>least_busy\<close> ranks by, is the number of live
  guards on it: through every sequence of guards taken and dropped, status changes and upkeep,
  with counting switched on and off in between, it never drifts and never underflows.\<close>

theorem in_flight_counts_guards:
  assumes "guard_run blend t G"
  shows "in_flight_of t m = Multiset.count G (Some m)"
  by (rule guard_run_counts [OF assms])

theorem in_flight_counts_guards_witness:
  "in_flight_of (fst (count_in_flight True (fst (count_in_flight True (tracker_new :: nat tracker) ''m'')) ''m'')) ''m'' = 2"
proof -
  let ?t1 = "fst (count_in_flight True (tracker_new :: nat tracker) ''m'')"
  have g: "snd (count_in_flight True t ''m'') = Some ''m''" for t :: "nat tracker"
    by (simp add: count_in_flight_def)
  have "guard_run (\<lambda>x y. x) ?t1 (add_mset (snd (count_in_flight True (tracker_new :: nat tracker) ''m'')) {#})"
    by (rule guard_run.count [OF guard_run.start surjective_pairing])
  then have "guard_run (\<lambda>x y. x) (fst (count_in_flight True ?t1 ''m''))
      (add_mset (snd (count_in_flight True ?t1 ''m''))
        (add_mset (snd (count_in_flight True (tracker_new :: nat tracker) ''m'')) {#}))"
    by (rule guard_run.count [OF _ surjective_pairing])
  from in_flight_counts_guards [OF this, of "''m''"] show ?thesis by (simp add: g)
qed

text \<open>The health level is that of the number of failures since the last success: up to three
  is healthy, four to seven degraded, eight or more down, and the cap on the stored counter never
  changes the level, however long an outage lasts.\<close>

theorem level_counts_failures:
  "health_level_of (foldl health_step Map.empty es) m = entry_level (failures es m 0)"
proof -
  have "capped_count (foldl health_step Map.empty es m) (failures es m 0)"
    by (rule capped_count_run) (simp add: capped_count_def)
  then show ?thesis unfolding health_level_of_def by (rule capped_count_level)
qed

text \<open>Cooldown is opt-in and bounded: a failure cools a target only when its model enabled
  cooldown with a nonzero default, the deadline is the configured default or the upstream's hint
  cut at the configured maximum, and an answer that could not be read never cools it.\<close>

theorem cooldown_is_opt_in:
  assumes "decide_cooldown err cfg = Some (ttl, reason)"
  shows "\<exists>c. cfg = Some c \<and> cd_enabled c = Some True \<and> default_seconds_or_default c > 0 \<and>
           (ttl = default_seconds_or_default c * 1000 \<or>
            (\<exists>s m p w d x. err = UpstreamStatus s m p w (Some d) x \<and> honor_retry_after_or_default c \<and>
               ttl = min d (max_seconds_or_default c * 1000))) \<and>
           (\<forall>x. err \<noteq> UpstreamDecode x) \<and> (\<forall>s x y. err \<noteq> UpstreamBodyUnread s x y) \<and>
           (\<forall>s m p w r x. err = UpstreamStatus s m p w r x \<longrightarrow> s \<in> set (effective_trigger_statuses c))"
proof -
  from assms obtain c where c: "cfg = Some c" "cd_enabled c = Some True" "default_seconds_or_default c > 0"
    and d: "decide_enabled c (default_seconds_or_default c * 1000) err = Some (ttl, reason)"
    by (auto simp: decide_cooldown_def cooldown_is_enabled_def split: option.splits if_splits)
  from d show ?thesis
    by (intro exI [of _ c], cases err)
      (auto simp: c decide_enabled_def Let_def split: option.splits if_splits)
qed

theorem cooldown_is_opt_in_witness:
  "decide_cooldown (UpstreamStatus 429 ''slow down'' None WireOpenAI (Some 900000) None)
     (Some \<lparr>cd_enabled = Some True, cd_default_seconds = None, cd_max_seconds = None,
            cd_honor_retry_after = None, cd_trigger_statuses = None, cd_trigger_on_timeout = None,
            cd_trigger_on_transport = None\<rparr>) = Some (600000, ''upstream_rate_limited'') \<and>
   (600000 :: nat) = min 900000 600000"
proof -
  have d: "decide_cooldown (UpstreamStatus 429 ''slow down'' None WireOpenAI (Some 900000) None)
     (Some \<lparr>cd_enabled = Some True, cd_default_seconds = None, cd_max_seconds = None,
            cd_honor_retry_after = None, cd_trigger_statuses = None, cd_trigger_on_timeout = None,
            cd_trigger_on_transport = None\<rparr>) = Some (600000, ''upstream_rate_limited'')"
    by (simp add: decide_cooldown_def decide_enabled_def cooldown_is_enabled_def
        default_seconds_or_default_def max_seconds_or_default_def effective_trigger_statuses_def
        honor_retry_after_or_default_def DEFAULT_COOLDOWN_SECONDS_def DEFAULT_COOLDOWN_MAX_SECONDS_def
        DEFAULT_COOLDOWN_TRIGGER_STATUSES_def reason_for_status_def Let_def)
  from cooldown_is_opt_in [OF d] d show ?thesis by simp
qed

lemma exclusion_log_after:
  assumes "\<exists>l. exclusion_log t k = Some l \<and> i1 \<le> l" and "\<forall>(n, i, op) \<in> set xs. i1 \<le> i"
  shows "\<exists>l. exclusion_log (foldl (tracker_step blend) t xs) k = Some l \<and> i1 \<le> l"
  using assms
proof (induction xs arbitrary: t)
  case (Cons x xs)
  obtain n i op where x: "x = (n, i, op)" by (cases x)
  have "\<exists>l. exclusion_log (tracker_step blend t x) k = Some l \<and> i1 \<le> l"
    using Cons.prems by (auto simp: exclusion_log_step x split: tracker_op.splits)
  with Cons show ?case by simp
qed simp

text \<open>The exclusion line is written at most once a minute for a group, target and reason,
  whatever other lines and state changes happen in between.\<close>

theorem exclusion_line_throttled:
  assumes "snd (should_log_exclusion t i1 v m r)"
    and "\<forall>(n, i, op) \<in> set xs. i1 \<le> i"
    and "snd (should_log_exclusion
           (foldl (tracker_step blend) (fst (should_log_exclusion t i1 v m r)) xs) i2 v m r)"
  shows "i1 + EXCLUSION_LOG_INTERVAL \<le> i2"
proof -
  have "exclusion_log (fst (should_log_exclusion t i1 v m r)) (v, m, r) = Some i1"
    using assms(1) exclusion_log_step [of "\<lambda>x y. x" t "(0, i1, LogExclusion v m r)" "(v, m, r)"] by simp
  then obtain l where "exclusion_log (foldl (tracker_step blend) (fst (should_log_exclusion t i1 v m r)) xs)
      (v, m, r) = Some l" "i1 \<le> l"
    using exclusion_log_after [OF _ assms(2)] by blast
  with assms(3) show ?thesis by (auto simp: should_log_result EXCLUSION_LOG_INTERVAL_def)
qed

theorem exclusion_line_throttled_witness:
  "(0 :: nat) + EXCLUSION_LOG_INTERVAL \<le> 60000"
proof (rule exclusion_line_throttled [where t = "tracker_new :: nat tracker" and v = "''g''" and m = "''m''"
      and r = "''cooling''" and xs = "[(9, 10, ClearUnhealthy ''m'')]" and blend = "\<lambda>x y. x"])
  show "snd (should_log_exclusion (tracker_new :: nat tracker) 0 ''g'' ''m'' ''cooling'')"
    by (simp add: should_log_exclusion_def tracker_new_def)
  show "snd (should_log_exclusion
      (foldl (tracker_step (\<lambda>x y. x)) (fst (should_log_exclusion (tracker_new :: nat tracker) 0 ''g'' ''m'' ''cooling''))
         [(9, 10, ClearUnhealthy ''m'')]) 60000 ''g'' ''m'' ''cooling'')"
    by (simp add: should_log_exclusion_def tracker_new_def clear_unhealthy_def EXCLUSION_LOG_INTERVAL_def)
qed simp

text \<open>The cached bookkeeping predicates are never stale: whatever sequence of configuration
  views was asked about before, the answer for a view is the one a full scan of its models gives,
  provided versions and generations identify model tables.\<close>

theorem bookkeeping_cache_is_exact:
  assumes "coherent (insert v (set vs))"
  shows "snd (any_active (foldl (\<lambda>b v. fst (flag_bits b v)) bookkeeping_new vs) v) \<longleftrightarrow>
           (\<exists>x \<in> set (view_models v). model_bits x \<noteq> (False, False, False))"
proof -
  have "caches (insert v (set vs)) (foldl (\<lambda>b v. fst (flag_bits b v)) bookkeeping_new vs)"
    by (rule caches_run [OF assms]) (auto simp: caches_def bookkeeping_new_def)
  then have "snd (flag_bits (foldl (\<lambda>b v. fst (flag_bits b v)) bookkeeping_new vs) v) = scan_bits (view_models v)"
    by (rule flag_bits_fresh(1) [OF assms]) simp
  then show ?thesis
    by (auto simp: any_active_def scan_bits_def list_ex_iff FLAG_LEAST_BUSY_def
        FLAG_LEAST_LATENCY_def FLAG_HEALTH_CHECKS_def prod_eq_iff split: prod.splits)
qed

theorem bookkeeping_cache_is_exact_witness:
  "\<not> snd (any_active (foldl (\<lambda>b v. fst (flag_bits b v)) bookkeeping_new
       [\<lparr>view_version = 1, view_generation = 1, view_models = []\<rparr>])
      \<lparr>view_version = 2, view_generation = 1, view_models = []\<rparr>)"
  using bookkeeping_cache_is_exact [of "\<lparr>view_version = 2, view_generation = 1, view_models = []\<rparr>"
      "[\<lparr>view_version = 1, view_generation = 1, view_models = []\<rparr>]"]
  by (simp add: coherent_def)

text \<open>The published state gauge lags a lapsed cooldown: each state-changing operation leaves
  the gauge equal to the target's state at that time, but a cooldown ends on its own, and until
  the next operation the gauge still says \<^verbatim>\<open>Down\<close> while the target is back in rotation.\<close>

theorem gauge_lags_lapsed_cooldown:
  assumes "now + ttl \<le> SYSTEM_TIME_MAX" and "0 < ttl"
    and "entries t m = None \<or> (\<exists>e. entries t m = Some e \<and> \<not> unhealthy e)"
  shows "gauge_ok (mark_cooldown t now inst m ttl reason) m now \<and>
         \<not> gauge_ok (mark_cooldown t now inst m ttl reason) m (now + ttl) \<and>
         should_skip_for_routing (mark_cooldown t now inst m ttl reason) (now + ttl) m None = StatusHealthy"
  using assms
  by (auto simp: gauge_ok_def mark_cooldown_def entries_sync Let_def deployment_state_of_def
      cooling_at_def should_skip_for_routing_def status_with_stale_def entry_snapshot_def
      runtime_entry_default_def is_stale_def split: option.splits)

theorem gauge_lags_lapsed_cooldown_witness:
  "\<not> gauge_ok (mark_cooldown (tracker_new :: nat tracker) 1000 5 ''m'' 30000 ''x'') ''m'' 31000"
  using gauge_lags_lapsed_cooldown [of 1000 30000 "tracker_new :: nat tracker" "''m''" 5 "''x''"]
  by (simp add: SYSTEM_TIME_MAX_def tracker_new_def)

end
