(* ===== verification/Dispatch.thy ===== *)
theory Dispatch
  imports Retry Health
begin

text \<open>
  The fail-over walk of \<^verbatim>\<open>crates/aisix-proxy/src/routing.rs\<close> (\<^verbatim>\<open>walk_targets\<close>) with the per-attempt
  telemetry of \<^verbatim>\<open>attempt.rs\<close>. What the walk calls outside these files (the target's rate-limit
  reservation, the upstream call, sleeping, clocks, the rendering of an error's text) is a record
  of functions over a state of their own; what it changes inside (health levels, runtime status,
  telemetry) is explicit. The list of errors met is kept beside the state.
\<close>

section \<open>Attempt telemetry\<close>

datatype attempt_kind = KindInitial | KindRetry | KindFallback

record attempt_record =
  ar_index :: nat
  ar_kind :: attempt_kind
  ar_target_model :: string
  ar_target_model_id :: string
  ar_provider_key_id :: string
  ar_status :: nat
  ar_success :: bool
  ar_error_class :: string
  ar_error_message :: string
  ar_latency_ms :: nat
  ar_dispatched :: bool

record telemetry =
  attempts :: "attempt_record list"
  last_target :: "string option"
  requested_model :: string
  deployment_samples :: "(string \<times> nat) list"
  fallback_samples :: "(bool \<times> string \<times> string) list"

definition for_request :: "string \<Rightarrow> telemetry" where
  "for_request name =
     \<lparr>attempts = [], last_target = None, requested_model = name, deployment_samples = [],
      fallback_samples = []\<rparr>"

definition begin_attempt :: "telemetry \<Rightarrow> string \<Rightarrow> telemetry \<times> nat \<times> attempt_kind" where
  "begin_attempt tel name =
     (let index = as_u32 (length (attempts tel));
          kind = (if attempts tel = [] then KindInitial
                  else if last_target tel \<noteq> Some name then KindFallback
                  else KindRetry)
      in (tel\<lparr>last_target := Some name\<rparr>, index, kind))"

definition emit_metrics :: "telemetry \<Rightarrow> attempt_record \<Rightarrow> telemetry" where
  "emit_metrics tel rec =
     (let tel1 = (if ar_dispatched rec
                  then tel\<lparr>deployment_samples := deployment_samples tel @ [(ar_target_model_id rec, ar_status rec)]\<rparr>
                  else tel)
      in if ar_kind rec = KindFallback
         then tel1\<lparr>fallback_samples := fallback_samples tel1 @
                    [(ar_success rec, requested_model tel1, ar_target_model rec)]\<rparr>
         else tel1)"

definition stage_attempt :: "telemetry \<Rightarrow> attempt_record \<Rightarrow> telemetry" where
  "stage_attempt tel rec = tel\<lparr>attempts := attempts tel @ [rec]\<rparr>"

definition record_attempt :: "telemetry \<Rightarrow> attempt_record \<Rightarrow> telemetry" where
  "record_attempt tel rec = stage_attempt (emit_metrics tel rec) rec"

definition finish_staged :: "telemetry \<Rightarrow> nat \<Rightarrow> nat \<Rightarrow> bool \<Rightarrow> telemetry" where
  "finish_staged tel index status success =
     (if index < length (attempts tel)
      then emit_metrics tel ((attempts tel ! index)\<lparr>ar_status := status, ar_success := success\<rparr>)
      else tel)"

definition fallback_count :: "telemetry \<Rightarrow> nat" where
  "fallback_count tel = as_u32 (length (filter (\<lambda>a. ar_kind a = KindFallback) (attempts tel)))"

definition winner :: "telemetry \<Rightarrow> attempt_record option" where
  "winner tel = find ar_success (rev (attempts tel))"

fun routing_error_class :: "bridge_error \<Rightarrow> string" where
  "routing_error_class (Timeout _ _) = ''timeout''"
| "routing_error_class (UpstreamStatus _ _ _ _ _ _) = ''upstream_status''"
| "routing_error_class (UpstreamDecode _) = ''upstream_decode''"
| "routing_error_class (UpstreamBodyUnread _ _ _) = ''upstream_decode''"
| "routing_error_class (TokenExchangeDecode _) = ''upstream_decode''"
| "routing_error_class (UpstreamInBand _ _ _ _) = ''upstream_in_band''"
| "routing_error_class (Config _) = ''config''"
| "routing_error_class (UnsupportedCapability _) = ''config''"
| "routing_error_class (InvalidUpstreamConfig _) = ''invalid_config''"
| "routing_error_class (BInvalidRequest _) = ''invalid_request_error''"
| "routing_error_class (BRequestTooLarge _ _ _) = ''invalid_request_error''"
| "routing_error_class (InvalidUpstreamCredentials _) = ''invalid_credentials''"
| "routing_error_class (Transport _) = ''transport''"
| "routing_error_class StreamAborted = ''stream_aborted''"

definition error_class :: "proxy_error \<Rightarrow> string" where
  "error_class e =
     (case e of
        Bridge b \<Rightarrow> routing_error_class b
      | SemanticDecisionFailed _ _ \<Rightarrow> ''semantic_decision_failed''
      | _ \<Rightarrow> proxy_kind e)"

definition attempt_reached_upstream :: "proxy_error \<Rightarrow> bool" where
  "attempt_reached_upstream e =
     (case e of Bridge b \<Rightarrow> reached_upstream b | ContentFiltered _ _ \<Rightarrow> True | _ \<Rightarrow> False)"

datatype error_source = SourceNone | SourceUpstream | SourceAisix

definition CLIENT_DISCONNECTED_KIND :: string where
  "CLIENT_DISCONNECTED_KIND = ''client_disconnected''"

definition UPSTREAM_ERROR_CLASSES :: "string list" where
  "UPSTREAM_ERROR_CLASSES =
     [''timeout'', ''upstream_status'', ''upstream_decode'', ''upstream_in_band'', ''transport'',
      ''stream_aborted'']"

definition error_source_of_class :: "string \<Rightarrow> error_source" where
  "error_source_of_class c =
     (if c = [] \<or> c = CLIENT_DISCONNECTED_KIND then SourceNone
      else if c \<in> set UPSTREAM_ERROR_CLASSES then SourceUpstream
      else SourceAisix)"

definition error_source_of :: "proxy_error \<Rightarrow> error_source" where
  "error_source_of e = error_source_of_class (error_class e)"

section \<open>The walk\<close>

record attempt_model =
  am_id :: string
  am_model :: model
  am_priority :: int
  am_weight :: nat

record ('s, 'r, 'v, 'f) walk_env =
  we_reserve :: "'s \<Rightarrow> attempt_model \<Rightarrow> 's \<times> (proxy_error + 'r)"
  we_drop_reservation :: "'s \<Rightarrow> 'r \<Rightarrow> 's"
  we_call :: "'s \<Rightarrow> attempt_model \<Rightarrow> timeout_budget \<Rightarrow> 's \<times> (proxy_error + 'v)"
  we_permit :: "bridge_error \<Rightarrow> bool"
  we_unsupported :: "'v \<Rightarrow> string option"
  we_pk_id :: "attempt_model \<Rightarrow> string"
  we_message :: "proxy_error \<Rightarrow> string"
  we_sleep :: "'s \<Rightarrow> nat \<Rightarrow> nat option \<Rightarrow> 's"
  we_elapsed_ms :: "'s \<Rightarrow> 's \<Rightarrow> nat"
  we_inst :: "'s \<Rightarrow> nat"
  we_f64 :: "nat \<Rightarrow> 'f"
  we_blend :: "'f \<Rightarrow> 'f \<Rightarrow> 'f"
  we_active :: bool
  we_default_retries :: nat
  we_default_timeouts :: timeout_defaults
  we_defer_outcome :: bool

record ('s, 'f) walk_state =
  ws_env :: 's
  ws_health :: health_tracker
  ws_runtime :: "'f tracker"
  ws_tel :: telemetry
  ws_errors :: "proxy_error list"

record ('r, 'v) dispatched =
  d_value :: 'v
  d_target :: attempt_model
  d_reservation :: 'r
  d_in_flight :: in_flight_guard
  d_deferred :: "nat option"

datatype ('r, 'v) target_outcome =
    Served "('r, 'v) dispatched"
  | Refused proxy_error
  | MoveOn proxy_error

text \<open>The three parts of one attempt: a value was returned, an error was returned, and the decision
  what to do after an error.\<close>

definition served_record ::
    "('s, 'r, 'v, 'f) walk_env \<Rightarrow> bool \<Rightarrow> attempt_model \<Rightarrow> nat \<Rightarrow> attempt_kind \<Rightarrow> 'v \<Rightarrow> nat \<Rightarrow> attempt_record" where
  "served_record env is_group t index kind v latency =
     (let refusal = we_unsupported env v
      in \<lparr>ar_index = index, ar_kind = kind,
          ar_target_model = (if is_group then display_name (am_model t) else []),
          ar_target_model_id = am_id t, ar_provider_key_id = we_pk_id env t,
          ar_status = (if refusal \<noteq> None then 501 else 200),
          ar_success = (refusal = None),
          ar_error_class = (if refusal \<noteq> None then ''config'' else []),
          ar_error_message = unwrap_or refusal [],
          ar_latency_ms = latency,
          ar_dispatched = (refusal = None)\<rparr>)"

definition on_served ::
    "('s, 'r, 'v, 'f) walk_env \<Rightarrow> bool \<Rightarrow> attempt_model \<Rightarrow> 'r \<Rightarrow> ('s, 'f) walk_state \<Rightarrow> in_flight_guard \<Rightarrow>
     nat \<Rightarrow> attempt_kind \<Rightarrow> 'v \<Rightarrow> nat \<Rightarrow> ('s, 'f) walk_state \<times> ('r, 'v) target_outcome" where
  "on_served env is_group t res ws guard index kind v latency =
     (let was_dispatched = (we_unsupported env v = None);
          rt = (if was_dispatched
                then record_latency (we_blend env) (we_active env) (ws_runtime ws) (am_id t) (we_f64 env latency)
                else ws_runtime ws);
          rec = served_record env is_group t index kind v latency;
          defer_it = (we_defer_outcome env \<and> was_dispatched);
          tel = (if defer_it then stage_attempt (ws_tel ws) rec else record_attempt (ws_tel ws) rec)
      in (ws\<lparr>ws_runtime := rt, ws_tel := tel\<rparr>,
          Served \<lparr>d_value = v, d_target = t, d_reservation = res, d_in_flight = guard,
                  d_deferred = (if defer_it then Some index else None)\<rparr>))"

definition failed_record ::
    "('s, 'r, 'v, 'f) walk_env \<Rightarrow> bool \<Rightarrow> attempt_model \<Rightarrow> nat \<Rightarrow> attempt_kind \<Rightarrow> proxy_error \<Rightarrow> nat \<Rightarrow> attempt_record" where
  "failed_record env is_group t index kind e latency =
     \<lparr>ar_index = index, ar_kind = kind,
      ar_target_model = (if is_group then display_name (am_model t) else []),
      ar_target_model_id = am_id t, ar_provider_key_id = we_pk_id env t,
      ar_status = proxy_status e, ar_success = False,
      ar_error_class = error_class e, ar_error_message = we_message env e,
      ar_latency_ms = latency, ar_dispatched = attempt_reached_upstream e\<rparr>"

definition transient :: "bool \<Rightarrow> nat list \<Rightarrow> proxy_error \<Rightarrow> bool" where
  "transient retry_429 statuses e =
     (case e of Bridge b \<Rightarrow> is_retryable b retry_429 statuses | _ \<Rightarrow> False)"

definition retryable_error :: "('s, 'r, 'v, 'f) walk_env \<Rightarrow> bool \<Rightarrow> nat list \<Rightarrow> proxy_error \<Rightarrow> bool" where
  "retryable_error env retry_429 statuses e =
     (case e of Bridge b \<Rightarrow> is_retryable b retry_429 statuses \<and> we_permit env b | _ \<Rightarrow> False)"

definition budget_covers :: "retry_budget \<Rightarrow> proxy_error \<Rightarrow> bool" where
  "budget_covers b e = (case e of Bridge be \<Rightarrow> covers b be | _ \<Rightarrow> True)"

definition on_failed ::
    "('s, 'r, 'v, 'f) walk_env \<Rightarrow> bool \<Rightarrow> bool \<Rightarrow> nat list \<Rightarrow> attempt_model \<Rightarrow> ('s, 'f) walk_state \<Rightarrow>
     in_flight_guard \<Rightarrow> nat \<Rightarrow> attempt_kind \<Rightarrow> proxy_error \<Rightarrow> nat \<Rightarrow> ('s, 'f) walk_state" where
  "on_failed env is_group retry_429 statuses t ws guard index kind e latency =
     (let tr = transient retry_429 statuses e;
          h = (if tr then record_failure (ws_health ws) (display_name (am_model t)) else ws_health ws);
          rt = (if tr then penalize_latency (we_active env) (ws_runtime ws) (we_inst env (ws_env ws)) (am_id t)
                else ws_runtime ws)
      in ws\<lparr>ws_health := h, ws_runtime := drop_guard rt guard,
            ws_tel := record_attempt (ws_tel ws) (failed_record env is_group t index kind e latency),
            ws_errors := ws_errors ws @ [e]\<rparr>)"

text \<open>The attempts on one target. \<open>left\<close> counts the retries that remain; \<open>prev\<close> is the last error of
  the walk, whose hint the wait before a retry honours.\<close>

fun attempt_target ::
    "('s, 'r, 'v, 'f) walk_env \<Rightarrow> bool \<Rightarrow> bool \<Rightarrow> nat list \<Rightarrow> attempt_model \<Rightarrow> 'r \<Rightarrow> retry_budget \<Rightarrow>
     timeout_budget \<Rightarrow> nat \<Rightarrow> nat \<Rightarrow> proxy_error option \<Rightarrow> ('s, 'f) walk_state \<Rightarrow>
     ('s, 'f) walk_state \<times> ('r, 'v) target_outcome" where
  "attempt_target env is_group retry_429 statuses t res budget timeouts idx left prev ws =
     (let hint = (case prev of Some (Bridge b) \<Rightarrow> retry_after_hint b | _ \<Rightarrow> None);
          ws1 = (if idx > 0 then ws\<lparr>ws_env := we_sleep env (ws_env ws) idx hint\<rparr> else ws);
          (tel, index, kind) = begin_attempt (ws_tel ws1) (display_name (am_model t));
          (rt, guard) = count_in_flight (we_active env) (ws_runtime ws1) (am_id t);
          (s', r) = we_call env (ws_env ws1) t timeouts;
          latency = we_elapsed_ms env (ws_env ws1) s';
          ws2 = ws1\<lparr>ws_env := s', ws_runtime := rt, ws_tel := tel\<rparr>
      in case r of
           Inr v \<Rightarrow> on_served env is_group t res ws2 guard index kind v latency
         | Inl e \<Rightarrow>
             (let ws3 = on_failed env is_group retry_429 statuses t ws2 guard index kind e latency
              in if \<not> retryable_error env retry_429 statuses e
                 then (ws3, if target_unusable e then MoveOn e else Refused e)
                 else if \<not> budget_covers budget e then (ws3, MoveOn e)
                 else (case left of
                         0 \<Rightarrow> (ws3, MoveOn e)
                       | Suc left' \<Rightarrow>
                           attempt_target env is_group retry_429 statuses t res budget timeouts
                             (idx + 1) left' (Some e) ws3)))"

declare attempt_target.simps [simp del]

definition over_limit_record ::
    "('s, 'r, 'v, 'f) walk_env \<Rightarrow> bool \<Rightarrow> attempt_model \<Rightarrow> nat \<Rightarrow> attempt_kind \<Rightarrow> proxy_error \<Rightarrow> attempt_record" where
  "over_limit_record env is_group t index kind e =
     \<lparr>ar_index = index, ar_kind = kind,
      ar_target_model = (if is_group then display_name (am_model t) else []),
      ar_target_model_id = am_id t, ar_provider_key_id = we_pk_id env t,
      ar_status = 429, ar_success = False, ar_error_class = ''rate_limit_exceeded'',
      ar_error_message = we_message env e, ar_latency_ms = 0, ar_dispatched = False\<rparr>"

fun walk ::
    "('s, 'r, 'v, 'f) walk_env \<Rightarrow> model \<Rightarrow> string \<Rightarrow> attempt_model list \<Rightarrow> proxy_error option \<Rightarrow>
     ('s, 'f) walk_state \<Rightarrow> ('s, 'f) walk_state \<times> (proxy_error + ('r, 'v) dispatched)" where
  "walk env entry requested [] prev ws =
     (let err = unwrap_or prev ProviderUnavailable
      in (ws, Inl (if is_routing entry then group_refusal err requested else err)))"
| "walk env entry requested (t # ts) prev ws =
     (let is_group = is_routing entry;
          retry_429 = (case routing_of entry of Some r \<Rightarrow> retry_on_429_or_default r | None \<Rightarrow> False);
          statuses = (case routing_of entry of Some r \<Rightarrow> fallback_on_statuses_or_default r | None \<Rightarrow> []);
          (s1, reserved) = we_reserve env (ws_env ws) t
      in case reserved of
           Inl e \<Rightarrow>
             (let (tel, index, kind) = begin_attempt (ws_tel ws) (display_name (am_model t))
              in walk env entry requested ts (Some e)
                   (ws\<lparr>ws_env := s1,
                       ws_tel := record_attempt tel (over_limit_record env is_group t index kind e)\<rparr>))
         | Inr res \<Rightarrow>
             (let budget = effective_retries (am_model t) (group_retries_of entry)
                             (we_default_retries env) (ts \<noteq> []);
                  timeouts = effective_timeouts (am_model t) (Some entry) (we_default_timeouts env)
              in case attempt_target env is_group retry_429 statuses t res budget timeouts 0
                        (budget_attempts budget) prev (ws\<lparr>ws_env := s1\<rparr>) of
                   (ws', Served d) \<Rightarrow> (ws', Inr d)
                 | (ws', Refused e) \<Rightarrow>
                     (ws'\<lparr>ws_env := we_drop_reservation env (ws_env ws') res\<rparr>, Inl e)
                 | (ws', MoveOn e) \<Rightarrow>
                     walk env entry requested ts (Some e)
                       (ws'\<lparr>ws_env := we_drop_reservation env (ws_env ws') res\<rparr>)))"

definition walk_targets ::
    "('s, 'r, 'v, 'f) walk_env \<Rightarrow> model \<Rightarrow> string \<Rightarrow> proxy_error + attempt_model list \<Rightarrow>
     ('s, 'f) walk_state \<Rightarrow> ('s, 'f) walk_state \<times> (proxy_error + ('r, 'v) dispatched)" where
  "walk_targets env entry requested resolved ws =
     (case resolved of
        Inl e \<Rightarrow> (ws, Inl e)
      | Inr ts \<Rightarrow> walk env entry requested ts None ws)"

section \<open>One attempt\<close>

lemma attempts_record [simp]: "attempts (record_attempt tel rec) = attempts tel @ [rec]"
  by (simp add: record_attempt_def stage_attempt_def emit_metrics_def Let_def)

lemma attempts_stage [simp]: "attempts (stage_attempt tel rec) = attempts tel @ [rec]"
  by (simp add: stage_attempt_def)

lemma begin_attempt_simps [simp]:
  "attempts (fst (begin_attempt tel name)) = attempts tel"
  "fst (snd (begin_attempt tel name)) = as_u32 (length (attempts tel))"
  by (simp_all add: begin_attempt_def Let_def)

definition indexed :: "attempt_record list \<Rightarrow> bool" where
  "indexed recs \<longleftrightarrow> (\<forall>i < length recs. ar_index (recs ! i) = as_u32 i)"

lemma indexed_snoc: "indexed recs \<Longrightarrow> ar_index rec = as_u32 (length recs) \<Longrightarrow> indexed (recs @ [rec])"
  by (auto simp: indexed_def nth_append less_Suc_eq)

lemma in_flight_of_record_latency [simp]:
  "in_flight_of (record_latency blend a t m x) = in_flight_of t"
  by (simp add: fun_eq_iff in_flight_of_def record_latency_def)

lemma in_flight_of_penalize [simp]: "in_flight_count (penalize_latency a t i m) = in_flight_count t"
  by (simp add: penalize_latency_def)

lemma drop_after_count:
  assumes "count_in_flight a t m = (rt, g)" and "in_flight_count rt' = in_flight_count rt"
  shows "in_flight_of (drop_guard rt' g) k = in_flight_of t k"
  using assms by (auto simp: count_in_flight_def drop_guard_def in_flight_of_def split: if_splits)

definition continues :: "('s, 'r, 'v, 'f) walk_env \<Rightarrow> bool \<Rightarrow> nat list \<Rightarrow> proxy_error \<Rightarrow> bool" where
  "continues env retry_429 statuses e \<longleftrightarrow>
     retryable_error env retry_429 statuses e \<or> target_unusable e"

text \<open>What a stretch of the walk adds: errors, attempt records and in-flight guards.\<close>

definition grows ::
    "('s, 'f) walk_state \<Rightarrow> ('s, 'f) walk_state \<Rightarrow> proxy_error list \<Rightarrow> attempt_record list \<Rightarrow> in_flight_guard \<Rightarrow> bool" where
  "grows ws ws' es recs g \<longleftrightarrow>
     ws_errors ws' = ws_errors ws @ es \<and>
     attempts (ws_tel ws') = attempts (ws_tel ws) @ recs \<and>
     (indexed (attempts (ws_tel ws)) \<longrightarrow> indexed (attempts (ws_tel ws'))) \<and>
     (\<forall>k. in_flight_of (ws_runtime ws') k = in_flight_of (ws_runtime ws) k + (if g = Some k then 1 else 0))"

lemma grows_trans:
  "grows ws ws1 es recs None \<Longrightarrow> grows ws1 ws2 es' recs' g \<Longrightarrow> grows ws ws2 (es @ es') (recs @ recs') g"
  by (auto simp: grows_def)

lemma grows_refl: "grows ws ws [] [] None"
  by (simp add: grows_def)

lemma grows_env [simp]:
  "grows (ws\<lparr>ws_env := s\<rparr>) ws' es recs g = grows ws ws' es recs g"
  "grows ws (ws'\<lparr>ws_env := s\<rparr>) es recs g = grows ws ws' es recs g"
  by (simp_all add: grows_def)

text \<open>One turn of the loop over a target, from the state before its wait: either the call serves, or
  its error is recorded and the in-flight count is back where it was.\<close>

lemma attempt_target_turn:
  obtains (served) ws' d rec where
    "attempt_target env ig r4 sts t res budget tos idx left prev ws = (ws', Served d)"
    "grows ws ws' [] [rec] (d_in_flight d)" "d_target d = t" "d_reservation d = res"
    "ar_success rec \<longleftrightarrow> we_unsupported env (d_value d) = None" "ar_target_model_id rec = am_id t"
  | (failed) ws3 e rec where
    "attempt_target env ig r4 sts t res budget tos idx left prev ws =
       (if \<not> retryable_error env r4 sts e then (ws3, if target_unusable e then MoveOn e else Refused e)
        else if \<not> budget_covers budget e then (ws3, MoveOn e)
        else (case left of 0 \<Rightarrow> (ws3, MoveOn e)
              | Suc left' \<Rightarrow> attempt_target env ig r4 sts t res budget tos (idx + 1) left' (Some e) ws3))"
    "grows ws ws3 [e] [rec] None" "\<not> ar_success rec" "ar_target_model_id rec = am_id t"
proof -
  define hint where "hint = (case prev of Some (Bridge b) \<Rightarrow> retry_after_hint b | _ \<Rightarrow> None)"
  define ws1 where "ws1 = (if idx > 0 then ws\<lparr>ws_env := we_sleep env (ws_env ws) idx hint\<rparr> else ws)"
  obtain tel index kind where b: "begin_attempt (ws_tel ws1) (display_name (am_model t)) = (tel, index, kind)"
    by (metis prod_cases3)
  obtain rt g where c: "count_in_flight (we_active env) (ws_runtime ws1) (am_id t) = (rt, g)" by fastforce
  obtain s' r where k: "we_call env (ws_env ws1) t tos = (s', r)" by fastforce
  define lat where "lat = we_elapsed_ms env (ws_env ws1) s'"
  define ws2 where "ws2 = ws1\<lparr>ws_env := s', ws_runtime := rt, ws_tel := tel\<rparr>"
  have w1: "ws_errors ws1 = ws_errors ws" "ws_tel ws1 = ws_tel ws" "ws_runtime ws1 = ws_runtime ws"
    by (simp_all add: ws1_def)
  have tel: "attempts tel = attempts (ws_tel ws)" "index = as_u32 (length (attempts (ws_tel ws)))"
    using b by (auto simp: begin_attempt_def Let_def w1)
  show ?thesis
  proof (cases r)
    case (Inr v)
    define d where "d = \<lparr>d_value = v, d_target = t, d_reservation = res, d_in_flight = g,
        d_deferred = (if we_defer_outcome env \<and> we_unsupported env v = None then Some index else None)\<rparr>"
    define ws' where "ws' = fst (on_served env ig t res ws2 g index kind v lat)"
    have os: "on_served env ig t res ws2 g index kind v lat = (ws', Served d)"
      by (simp add: ws'_def d_def on_served_def Let_def)
    have eq: "attempt_target env ig r4 sts t res budget tos idx left prev ws = (ws', Served d)"
      using os by (simp add: attempt_target.simps hint_def [symmetric] ws1_def [symmetric] b c k Inr
          lat_def [symmetric] ws2_def [symmetric] Let_def)
    have "in_flight_of (ws_runtime ws') i = in_flight_of (ws_runtime ws) i + (if g = Some i then 1 else 0)" for i
      using in_flight_of_count [OF c, of i] by (simp add: ws'_def on_served_def ws2_def w1 Let_def)
    then have gr: "grows ws ws' [] [served_record env ig t index kind v lat] (d_in_flight d)"
      by (auto simp: grows_def ws'_def on_served_def ws2_def w1 tel d_def served_record_def Let_def
          intro!: indexed_snoc)
    show ?thesis
      by (rule served [OF eq gr]) (simp_all add: d_def served_record_def Let_def)
  next
    case (Inl e)
    define ws3 where "ws3 = on_failed env ig r4 sts t ws2 g index kind e lat"
    have "in_flight_of (ws_runtime ws3) i = in_flight_of (ws_runtime ws) i" for i
      using drop_after_count [OF c [unfolded w1], of rt i]
        drop_after_count [OF c [unfolded w1], of "penalize_latency (we_active env) rt (we_inst env s') (am_id t)" i]
      by (simp add: ws3_def on_failed_def ws2_def w1 Let_def)
    then have gr: "grows ws ws3 [e] [failed_record env ig t index kind e lat] None"
      by (auto simp: grows_def ws3_def on_failed_def ws2_def w1 tel failed_record_def Let_def
          intro!: indexed_snoc)
    have eq: "attempt_target env ig r4 sts t res budget tos idx left prev ws =
       (if \<not> retryable_error env r4 sts e then (ws3, if target_unusable e then MoveOn e else Refused e)
        else if \<not> budget_covers budget e then (ws3, MoveOn e)
        else (case left of 0 \<Rightarrow> (ws3, MoveOn e)
              | Suc left' \<Rightarrow> attempt_target env ig r4 sts t res budget tos (idx + 1) left' (Some e) ws3))"
      unfolding attempt_target.simps [of env ig r4 sts t res budget tos idx left prev ws] Let_def
        hint_def [symmetric] ws1_def [symmetric] b c k prod.case Inl sum.case lat_def [symmetric]
        ws2_def [symmetric] ws3_def [symmetric] by (rule refl)
    show ?thesis by (rule failed [OF eq gr]) (simp_all add: failed_record_def)
  qed
qed

section \<open>One target and the whole walk\<close>

lemma attempt_target_effect:
  assumes "attempt_target env ig r4 sts t res budget tos idx left prev ws = (ws', out)"
  obtains es recs where
    "grows ws ws' es recs (case out of Served d \<Rightarrow> d_in_flight d | _ \<Rightarrow> None)"
    "length recs \<le> left + 1"
    "\<forall>e \<in> set (butlast es). retryable_error env r4 sts e"
    "\<forall>rec \<in> set recs. ar_target_model_id rec = am_id t"
    "case out of
       Served d \<Rightarrow> d_target d = t \<and> d_reservation d = res \<and> (\<forall>e \<in> set es. retryable_error env r4 sts e) \<and>
         (\<exists>fs w. recs = fs @ [w] \<and> (\<forall>f \<in> set fs. \<not> ar_success f) \<and>
            (ar_success w \<longleftrightarrow> we_unsupported env (d_value d) = None))
     | Refused e \<Rightarrow> es \<noteq> [] \<and> last es = e \<and> \<not> continues env r4 sts e \<and> (\<forall>f \<in> set recs. \<not> ar_success f)
     | MoveOn e \<Rightarrow> es \<noteq> [] \<and> last es = e \<and> continues env r4 sts e \<and> (\<forall>f \<in> set recs. \<not> ar_success f)"
  using assms
proof (induction left arbitrary: idx prev ws ws' out thesis)
  case 0
  show ?case
  proof (cases rule: attempt_target_turn [of env ig r4 sts t res budget tos idx 0 prev ws])
    case (served ws1 d rec)
    with 0(2) show ?thesis by (intro 0(1) [of "[]" "[rec]"]) auto
  next
    case (failed ws3 e rec)
    with 0(2) show ?thesis
      by (intro 0(1) [of "[e]" "[rec]"]) (auto simp: continues_def split: if_splits)
  qed
next
  case (Suc left)
  show ?case
  proof (cases rule: attempt_target_turn [of env ig r4 sts t res budget tos idx "Suc left" prev ws])
    case (served ws1 d rec)
    with Suc.prems(2) show ?thesis by (intro Suc.prems(1) [of "[]" "[rec]"]) auto
  next
    case (failed ws3 e rec)
    show ?thesis
    proof (cases "retryable_error env r4 sts e \<and> budget_covers budget e")
      case False
      with failed Suc.prems(2) show ?thesis
        by (intro Suc.prems(1) [of "[e]" "[rec]"]) (auto simp: continues_def split: if_splits)
    next
      case True
      with failed(1) Suc.prems(2)
      have rest: "attempt_target env ig r4 sts t res budget tos (idx + 1) left (Some e) ws3 = (ws', out)"
        by simp
      obtain es recs where IH:
        "grows ws3 ws' es recs (case out of Served d \<Rightarrow> d_in_flight d | _ \<Rightarrow> None)"
        "length recs \<le> left + 1" "\<forall>e \<in> set (butlast es). retryable_error env r4 sts e"
        "\<forall>rec \<in> set recs. ar_target_model_id rec = am_id t"
        "case out of
           Served d \<Rightarrow> d_target d = t \<and> d_reservation d = res \<and> (\<forall>e \<in> set es. retryable_error env r4 sts e) \<and>
             (\<exists>fs w. recs = fs @ [w] \<and> (\<forall>f \<in> set fs. \<not> ar_success f) \<and>
                (ar_success w \<longleftrightarrow> we_unsupported env (d_value d) = None))
         | Refused e \<Rightarrow> es \<noteq> [] \<and> last es = e \<and> \<not> continues env r4 sts e \<and> (\<forall>f \<in> set recs. \<not> ar_success f)
         | MoveOn e \<Rightarrow> es \<noteq> [] \<and> last es = e \<and> continues env r4 sts e \<and> (\<forall>f \<in> set recs. \<not> ar_success f)"
        by (rule Suc.IH [OF _ rest])
      show ?thesis
      proof (rule Suc.prems(1))
        show "grows ws ws' (e # es) (rec # recs) (case out of Served d \<Rightarrow> d_in_flight d | _ \<Rightarrow> None)"
          using grows_trans [OF failed(2) IH(1)] by simp
        show "case out of
           Served d \<Rightarrow> d_target d = t \<and> d_reservation d = res \<and>
             (\<forall>e \<in> set (e # es). retryable_error env r4 sts e) \<and>
             (\<exists>fs w. rec # recs = fs @ [w] \<and> (\<forall>f \<in> set fs. \<not> ar_success f) \<and>
                (ar_success w \<longleftrightarrow> we_unsupported env (d_value d) = None))
         | Refused e' \<Rightarrow> e # es \<noteq> [] \<and> last (e # es) = e' \<and> \<not> continues env r4 sts e' \<and>
             (\<forall>f \<in> set (rec # recs). \<not> ar_success f)
         | MoveOn e' \<Rightarrow> e # es \<noteq> [] \<and> last (e # es) = e' \<and> continues env r4 sts e' \<and>
             (\<forall>f \<in> set (rec # recs). \<not> ar_success f)"
        proof (cases out)
          case (Served d)
          with IH(5) obtain fs w where "recs = fs @ [w]" "\<forall>f \<in> set fs. \<not> ar_success f"
            "ar_success w \<longleftrightarrow> we_unsupported env (d_value d) = None" by auto
          then have "rec # recs = (rec # fs) @ [w] \<and> (\<forall>f \<in> set (rec # fs). \<not> ar_success f) \<and>
              (ar_success w \<longleftrightarrow> we_unsupported env (d_value d) = None)"
            using failed(3) by simp
          then show ?thesis using IH(5) True Served by (auto simp del: append_Cons)
        qed (use IH(5) failed(3) in auto)
      qed (use IH True failed(4) in auto)
    qed
  qed
qed

lemma butlast_or_last: "x \<in> set xs \<Longrightarrow> x \<in> set (butlast xs) \<or> x = last xs"
  by (induction xs) (auto split: if_splits)

text \<open>The most attempts one target may get, and that the records of a walk visit the targets in
  order within those caps.\<close>

definition attempt_cap :: "('s, 'r, 'v, 'f) walk_env \<Rightarrow> model \<Rightarrow> attempt_model \<Rightarrow> bool \<Rightarrow> nat" where
  "attempt_cap env entry t more_targets =
     budget_attempts (effective_retries (am_model t) (group_retries_of entry) (we_default_retries env) more_targets) + 1"

fun visits :: "('s, 'r, 'v, 'f) walk_env \<Rightarrow> model \<Rightarrow> attempt_model list \<Rightarrow> attempt_record list \<Rightarrow> bool" where
  "visits env entry [] recs = (recs = [])"
| "visits env entry (t # ts) recs =
     (\<exists>as bs. recs = as @ bs \<and> length as \<le> attempt_cap env entry t (ts \<noteq> []) \<and>
        (\<forall>a \<in> set as. ar_target_model_id a = am_id t) \<and> visits env entry ts bs)"

lemma visits_none: "visits env entry ts []"
  by (induction ts) auto

lemma visits_Cons:
  assumes "length as \<le> attempt_cap env entry t (ts \<noteq> [])" and "\<forall>a \<in> set as. ar_target_model_id a = am_id t"
    and "visits env entry ts bs"
  shows "visits env entry (t # ts) (as @ bs)"
  using assms by auto

abbreviation walk_429 :: "model \<Rightarrow> bool" where
  "walk_429 entry \<equiv> (case routing_of entry of Some r \<Rightarrow> retry_on_429_or_default r | None \<Rightarrow> False)"

abbreviation walk_statuses :: "model \<Rightarrow> nat list" where
  "walk_statuses entry \<equiv> (case routing_of entry of Some r \<Rightarrow> fallback_on_statuses_or_default r | None \<Rightarrow> [])"

definition walk_result_ok ::
    "('s, 'r, 'v, 'f) walk_env \<Rightarrow> model \<Rightarrow> attempt_model list \<Rightarrow> proxy_error list \<Rightarrow> attempt_record list \<Rightarrow>
     proxy_error + ('r, 'v) dispatched \<Rightarrow> bool" where
  "walk_result_ok env entry ts es recs r \<longleftrightarrow>
     (\<forall>e \<in> set (butlast es). continues env (walk_429 entry) (walk_statuses entry) e) \<and>
     visits env entry ts recs \<and>
     (case r of
        Inr d \<Rightarrow> d_target d \<in> set ts \<and>
          (\<forall>e \<in> set es. continues env (walk_429 entry) (walk_statuses entry) e) \<and>
          (\<exists>fs w. recs = fs @ [w] \<and> (\<forall>f \<in> set fs. \<not> ar_success f) \<and>
             (ar_success w \<longleftrightarrow> we_unsupported env (d_value d) = None))
      | Inl e \<Rightarrow> (\<forall>f \<in> set recs. \<not> ar_success f) \<and>
          (es \<noteq> [] \<and> \<not> continues env (walk_429 entry) (walk_statuses entry) (last es) \<longrightarrow> e = last es))"

lemma walk_result_ok_prepend:
  assumes ok: "walk_result_ok env entry ts es recs r"
    and c: "\<forall>e \<in> set es0. continues env (walk_429 entry) (walk_statuses entry) e"
    and n: "length recs0 \<le> attempt_cap env entry t (ts \<noteq> [])"
      "\<forall>a \<in> set recs0. ar_target_model_id a = am_id t" "\<forall>f \<in> set recs0. \<not> ar_success f"
  shows "walk_result_ok env entry (t # ts) (es0 @ es) (recs0 @ recs) r"
proof -
  have v: "visits env entry (t # ts) (recs0 @ recs)"
    by (rule visits_Cons [OF n(1,2)]) (use ok in \<open>simp add: walk_result_ok_def\<close>)
  have b: "\<forall>e \<in> set (butlast (es0 @ es)). continues env (walk_429 entry) (walk_statuses entry) e"
    using ok c by (auto simp: walk_result_ok_def butlast_append dest: in_set_butlastD)
  show ?thesis
  proof (cases r)
    case (Inl e)
    have "e = last (es0 @ es)"
      if "es0 @ es \<noteq> []" "\<not> continues env (walk_429 entry) (walk_statuses entry) (last (es0 @ es))"
      using that ok c Inl by (cases "es = []") (auto simp: walk_result_ok_def last_append)
    with ok v b n(3) Inl show ?thesis by (auto simp: walk_result_ok_def)
  next
    case (Inr d)
    with ok obtain fs w where f: "recs = fs @ [w]" "\<forall>f \<in> set fs. \<not> ar_success f"
      "ar_success w \<longleftrightarrow> we_unsupported env (d_value d) = None" by (auto simp: walk_result_ok_def)
    then have "recs0 @ recs = (recs0 @ fs) @ [w] \<and> (\<forall>f \<in> set (recs0 @ fs). \<not> ar_success f) \<and>
        (ar_success w \<longleftrightarrow> we_unsupported env (d_value d) = None)" using n(3) by auto
    then have "\<exists>fs w. recs0 @ recs = fs @ [w] \<and> (\<forall>f \<in> set fs. \<not> ar_success f) \<and>
        (ar_success w \<longleftrightarrow> we_unsupported env (d_value d) = None)"
      by (intro exI [of _ "recs0 @ fs"] exI [of _ w])
    with ok v b c Inr show ?thesis by (auto simp: walk_result_ok_def simp del: visits.simps)
  qed
qed

lemma walk_effect:
  assumes "walk env entry requested ts prev ws = (ws', r)"
  obtains es recs where
    "grows ws ws' es recs (case r of Inr d \<Rightarrow> d_in_flight d | Inl _ \<Rightarrow> None)"
    "walk_result_ok env entry ts es recs r"
  using assms
proof (induction ts arbitrary: prev ws thesis)
  case Nil
  then have "ws' = ws" "\<exists>e. r = Inl e" by (auto simp: Let_def)
  then show ?case
    by (intro Nil.prems(1) [of "[]" "[]"]) (auto simp: grows_refl walk_result_ok_def)
next
  case (Cons t ts)
  obtain s1 reserved where r1: "we_reserve env (ws_env ws) t = (s1, reserved)" by fastforce
  show ?case
  proof (cases reserved)
    case (Inl e)
    obtain tel index kind where b: "begin_attempt (ws_tel ws) (display_name (am_model t)) = (tel, index, kind)"
      by (metis prod_cases3)
    define rec where "rec = over_limit_record env (is_routing entry) t index kind e"
    define ws1 where "ws1 = ws\<lparr>ws_env := s1, ws_tel := record_attempt tel rec\<rparr>"
    from Cons.prems(2) have rest: "walk env entry requested ts (Some e) ws1 = (ws', r)"
      by (simp add: r1 Inl b Let_def ws1_def rec_def)
    from b have "attempts tel = attempts (ws_tel ws)" "index = as_u32 (length (attempts (ws_tel ws)))"
      by (auto simp: begin_attempt_def Let_def)
    then have g: "grows ws ws1 [] [rec] None"
      by (auto simp: grows_def ws1_def rec_def over_limit_record_def intro!: indexed_snoc)
    obtain es recs where IH: "grows ws1 ws' es recs (case r of Inr d \<Rightarrow> d_in_flight d | Inl _ \<Rightarrow> None)"
      "walk_result_ok env entry ts es recs r"
      by (rule Cons.IH [OF _ rest])
    have "walk_result_ok env entry (t # ts) ([] @ es) ([rec] @ recs) r"
      by (rule walk_result_ok_prepend [OF IH(2)]) (simp_all add: attempt_cap_def rec_def over_limit_record_def)
    then show ?thesis by (rule Cons.prems(1) [OF grows_trans [OF g IH(1)]])
  next
    case (Inr res)
    define budget where "budget = effective_retries (am_model t) (group_retries_of entry)
        (we_default_retries env) (ts \<noteq> [])"
    obtain ws1 out where a: "attempt_target env (is_routing entry) (walk_429 entry) (walk_statuses entry) t res
        budget (effective_timeouts (am_model t) (Some entry) (we_default_timeouts env)) 0
        (budget_attempts budget) prev (ws\<lparr>ws_env := s1\<rparr>) = (ws1, out)" by fastforce
    obtain es0 recs0 where e: "grows ws ws1 es0 recs0 (case out of Served d \<Rightarrow> d_in_flight d | _ \<Rightarrow> None)"
      "length recs0 \<le> attempt_cap env entry t (ts \<noteq> [])"
      "\<forall>e \<in> set (butlast es0). retryable_error env (walk_429 entry) (walk_statuses entry) e"
      "\<forall>rec \<in> set recs0. ar_target_model_id rec = am_id t"
      "case out of
         Served d \<Rightarrow> d_target d = t \<and> d_reservation d = res \<and>
           (\<forall>e \<in> set es0. retryable_error env (walk_429 entry) (walk_statuses entry) e) \<and>
           (\<exists>fs w. recs0 = fs @ [w] \<and> (\<forall>f \<in> set fs. \<not> ar_success f) \<and>
              (ar_success w \<longleftrightarrow> we_unsupported env (d_value d) = None))
       | Refused e \<Rightarrow> es0 \<noteq> [] \<and> last es0 = e \<and> \<not> continues env (walk_429 entry) (walk_statuses entry) e \<and>
           (\<forall>f \<in> set recs0. \<not> ar_success f)
       | MoveOn e \<Rightarrow> es0 \<noteq> [] \<and> last es0 = e \<and> continues env (walk_429 entry) (walk_statuses entry) e \<and>
           (\<forall>f \<in> set recs0. \<not> ar_success f)"
      by (rule attempt_target_effect [OF a]) (simp add: attempt_cap_def budget_def)
    have v: "visits env entry (t # ts) recs0"
      using visits_Cons [OF e(2,4) visits_none] by simp
    show ?thesis
    proof (cases out)
      case (Served d)
      then have "ws' = ws1" "r = Inr d"
        using Cons.prems(2) a by (auto simp: r1 Inr Let_def budget_def)
      then show ?thesis using e(1,3,5) Served v
        by (intro Cons.prems(1) [of es0 recs0]) (auto simp: walk_result_ok_def continues_def simp del: visits.simps)
    next
      case (Refused err)
      then have "ws' = ws1\<lparr>ws_env := we_drop_reservation env (ws_env ws1) res\<rparr>" "r = Inl err"
        using Cons.prems(2) a by (auto simp: r1 Inr Let_def budget_def)
      then show ?thesis using e(1,3,5) Refused v
        by (intro Cons.prems(1) [of es0 recs0]) (auto simp: walk_result_ok_def continues_def simp del: visits.simps)
    next
      case (MoveOn err)
      define ws2 where "ws2 = ws1\<lparr>ws_env := we_drop_reservation env (ws_env ws1) res\<rparr>"
      from MoveOn have rest: "walk env entry requested ts (Some err) ws2 = (ws', r)"
        using Cons.prems(2) a by (auto simp: r1 Inr Let_def budget_def ws2_def)
      obtain es recs where IH: "grows ws2 ws' es recs (case r of Inr d \<Rightarrow> d_in_flight d | Inl _ \<Rightarrow> None)"
        "walk_result_ok env entry ts es recs r"
        by (rule Cons.IH [OF _ rest])
      have c: "\<forall>e \<in> set es0. continues env (walk_429 entry) (walk_statuses entry) e"
      proof
        fix x assume "x \<in> set es0"
        then have "x \<in> set (butlast es0) \<or> x = last es0" by (rule butlast_or_last)
        then show "continues env (walk_429 entry) (walk_statuses entry) x"
          using e(3,5) MoveOn by (auto simp: continues_def)
      qed
      have "walk_result_ok env entry (t # ts) (es0 @ es) (recs0 @ recs) r"
        by (rule walk_result_ok_prepend [OF IH(2) c e(2,4)]) (use e(5) MoveOn in simp)
      moreover have "grows ws ws2 es0 recs0 None" using e(1) MoveOn by (simp add: ws2_def)
      ultimately show ?thesis by (intro Cons.prems(1) [OF grows_trans [OF _ IH(1)]]) simp_all
    qed
  qed
qed

section \<open>Main results\<close>

text \<open>C33. Fail-over never replays what must not be replayed: of all errors the walk met, every one
  but the last either may be retried under the group's rules and the caller's veto, or is the
  target's own configuration; an answer that was served but could not be read ends the walk. An
  error that ends the walk early is exactly what the caller gets.\<close>

theorem failover_never_replays:
  assumes "walk_targets env entry requested (Inr ts) ws = (ws', r)"
  shows "\<exists>es. ws_errors ws' = ws_errors ws @ es \<and>
           (\<forall>e \<in> set (butlast es).
              (retryable_error env (walk_429 entry) (walk_statuses entry) e \<or> target_unusable e) \<and>
              (\<forall>x. e \<noteq> Bridge (UpstreamDecode x)) \<and> (\<forall>s x y. e \<noteq> Bridge (UpstreamBodyUnread s x y)) \<and>
              (\<forall>b. e = Bridge b \<and> \<not> we_permit env b \<longrightarrow> bridge_target_unusable b)) \<and>
           (es \<noteq> [] \<and> \<not> continues env (walk_429 entry) (walk_statuses entry) (last es) \<longrightarrow>
              r = Inl (last es))"
proof -
  from assms obtain es recs where
    g: "grows ws ws' es recs (case r of Inr d \<Rightarrow> d_in_flight d | Inl _ \<Rightarrow> None)"
    and ok: "walk_result_ok env entry ts es recs r"
    unfolding walk_targets_def by (auto elim: walk_effect)
  have "\<forall>e \<in> set (butlast es). continues env (walk_429 entry) (walk_statuses entry) e"
    using ok by (simp add: walk_result_ok_def)
  moreover have "r = Inl (last es)"
    if "es \<noteq> []" "\<not> continues env (walk_429 entry) (walk_statuses entry) (last es)"
    using ok that by (cases r) (auto simp: walk_result_ok_def)
  ultimately show ?thesis
    using g by (intro exI [of _ es])
      (auto simp: grows_def continues_def retryable_error_def target_unusable_def bridge_target_unusable_def)
qed

text \<open>C34. The attempt records tell the walk: targets are visited in the resolved order, none more
  often than its retry budget allows, indices count up, and at most the last attempt is a
  success, which it is exactly when the walk serves a value the route supports.\<close>

theorem failover_attempts_in_order:
  assumes "walk_targets env entry requested (Inr ts) ws = (ws', r)" and "indexed (attempts (ws_tel ws))"
  shows "\<exists>recs. attempts (ws_tel ws') = attempts (ws_tel ws) @ recs \<and> indexed (attempts (ws_tel ws')) \<and>
           visits env entry ts recs \<and>
           (case r of
              Inl _ \<Rightarrow> \<forall>f \<in> set recs. \<not> ar_success f
            | Inr d \<Rightarrow> d_target d \<in> set ts \<and>
                (\<exists>fs w. recs = fs @ [w] \<and> (\<forall>f \<in> set fs. \<not> ar_success f) \<and>
                   (ar_success w \<longleftrightarrow> we_unsupported env (d_value d) = None)))"
proof -
  from assms obtain es recs where
    "grows ws ws' es recs (case r of Inr d \<Rightarrow> d_in_flight d | Inl _ \<Rightarrow> None)"
    "walk_result_ok env entry ts es recs r"
    unfolding walk_targets_def by (auto elim: walk_effect)
  with assms(2) show ?thesis
    by (intro exI [of _ recs]) (auto simp: grows_def walk_result_ok_def split: sum.splits)
qed

text \<open>Fail-over leaves the in-flight counts balanced: a failed walk leaves every target's count
  as it found it, a successful one raises it only through the guard it hands back.\<close>

theorem failover_balances_in_flight:
  assumes "walk_targets env entry requested (Inr ts) ws = (ws', r)"
  shows "in_flight_of (ws_runtime ws') k = in_flight_of (ws_runtime ws) k +
           (case r of Inr d \<Rightarrow> (if d_in_flight d = Some k then 1 else 0) | Inl _ \<Rightarrow> 0)"
proof -
  from assms obtain es recs where
    "grows ws ws' es recs (case r of Inr d \<Rightarrow> d_in_flight d | Inl _ \<Rightarrow> None)"
    unfolding walk_targets_def by (auto elim: walk_effect)
  then show ?thesis by (auto simp: grows_def split: sum.splits)
qed

subsection \<open>A concrete walk\<close>

text \<open>Two targets; the first answers 503, the second serves.\<close>

definition demo_env :: "(nat, unit, string, nat) walk_env" where
  "demo_env =
     \<lparr>we_reserve = (\<lambda>s t. (s, Inr ())), we_drop_reservation = (\<lambda>s _. s),
      we_call = (\<lambda>s t _. (s + 1, if am_id t = ''a'' then Inl (Bridge (upstream_status 503 ''busy'')) else Inr ''ok'')),
      we_permit = (\<lambda>_. True), we_unsupported = (\<lambda>_. None), we_pk_id = (\<lambda>_. ''pk''),
      we_message = (\<lambda>_. ''failed''), we_sleep = (\<lambda>s _ _. s), we_elapsed_ms = (\<lambda>_ _. 7),
      we_inst = (\<lambda>s. s), we_f64 = (\<lambda>n. n), we_blend = (\<lambda>x y. x), we_active = True,
      we_default_retries = 2, we_default_timeouts = \<lparr>td_request = None, td_stream = None\<rparr>,
      we_defer_outcome = False\<rparr>"

definition demo_target :: "string \<Rightarrow> attempt_model" where
  "demo_target i =
     \<lparr>am_id = i, am_model = (plain_model i)\<lparr>retries := None\<rparr>, am_priority = 0, am_weight = 1\<rparr>"

definition demo_start :: "(nat, nat) walk_state" where
  "demo_start = \<lparr>ws_env = 0, ws_health = Map.empty, ws_runtime = tracker_new, ws_tel = for_request ''g'',
     ws_errors = []\<rparr>"

abbreviation demo_walk where
  "demo_walk \<equiv> walk_targets demo_env ((plain_model ''g'')\<lparr>retries := None\<rparr>) ''g''
     (Inr [demo_target ''a'', demo_target ''b'']) demo_start"

lemmas demo_eval =
  walk_targets_def demo_env_def demo_target_def demo_start_def plain_model_def for_request_def
  attempt_target.simps effective_retries_def group_retries_of_def begin_attempt_def
  count_in_flight_def on_served_def on_failed_def record_attempt_def stage_attempt_def
  emit_metrics_def retryable_error_def transient_def target_unusable_def budget_covers_def
  covers_def upstream_status_def status_retryable_def client_error_def bridge_target_unusable_def
  is_routing_def Let_def

lemma demo_walk_serves:
  "\<exists>ws' d. demo_walk = (ws', Inr d) \<and> ws_errors ws' = [Bridge (upstream_status 503 ''busy'')] \<and>
     d_in_flight d = Some ''b''"
  by (simp add: demo_eval)

theorem failover_never_replays_witness:
  "\<exists>ws' d es. demo_walk = (ws', Inr d) \<and> ws_errors ws' = es \<and> length es = 1"
proof -
  obtain ws' d where w: "demo_walk = (ws', Inr d)"
    and e: "ws_errors ws' = [Bridge (upstream_status 503 ''busy'')]"
    using demo_walk_serves by blast
  from failover_never_replays [OF w] w e show ?thesis by simp
qed

theorem failover_attempts_in_order_witness:
  "\<exists>ws' d recs. demo_walk = (ws', Inr d) \<and> attempts (ws_tel ws') = recs \<and> indexed recs \<and>
     visits demo_env ((plain_model ''g'')\<lparr>retries := None\<rparr>) [demo_target ''a'', demo_target ''b''] recs"
proof -
  obtain ws' d where w: "demo_walk = (ws', Inr d)" using demo_walk_serves by blast
  have s: "attempts (ws_tel demo_start) = []" by (simp add: demo_start_def for_request_def)
  then have "indexed (attempts (ws_tel demo_start))" by (simp add: indexed_def)
  from failover_attempts_in_order [OF w this] w s show ?thesis by (auto simp del: visits.simps)
qed

theorem failover_balances_in_flight_witness:
  "in_flight_of (ws_runtime (fst demo_walk)) ''a'' = 0 \<and> in_flight_of (ws_runtime (fst demo_walk)) ''b'' = 1"
proof -
  obtain ws' d where w: "demo_walk = (ws', Inr d)" and g: "d_in_flight d = Some ''b''"
    using demo_walk_serves by blast
  have s: "in_flight_of (ws_runtime demo_start) k = 0" for k
    by (simp add: demo_start_def tracker_new_def in_flight_of_def)
  show ?thesis
    using failover_balances_in_flight [OF w, of "''a''"] failover_balances_in_flight [OF w, of "''b''"]
    by (simp add: w s g)
qed

end
