(* ===== verification/Balancer.thy ===== *)
theory Balancer
  imports Routing_Config "HOL-Library.Product_Lexorder"
begin

text \<open>
  Target selection of \<^verbatim>\<open>crates/aisix-proxy/src/routing.rs\<close> (lines 943 to 1380): priority tiers,
  routing tags, smooth weighted round-robin and the consistent-hash ring. Hashes are 64-bit words;
  the counters of a rotation are integers and are shown to stay in \<^verbatim>\<open>i64\<close>. An index out of range,
  which panics in the code, is \<open>None\<close>.
\<close>

unbundle bit_operations_syntax

section \<open>Hashes\<close>

definition FNV_OFFSET_BASIS :: "64 word" where "FNV_OFFSET_BASIS = 0xcbf29ce484222325"
definition FNV_PRIME :: "64 word" where "FNV_PRIME = 0x00000100000001b3"

fun fnv1a_extend :: "64 word \<Rightarrow> string \<Rightarrow> 64 word" where
  "fnv1a_extend h [] = h"
| "fnv1a_extend h (b # bs) = fnv1a_extend ((h XOR word_of_nat (of_char b)) * FNV_PRIME) bs"

definition mix64 :: "64 word \<Rightarrow> 64 word" where
  "mix64 x0 =
     (let x1 = x0 XOR drop_bit 30 x0;
          x2 = x1 * 0xbf58476d1ce4e5b9;
          x3 = x2 XOR drop_bit 27 x2;
          x4 = x3 * 0x94d049bb133111eb
      in x4 XOR drop_bit 31 x4)"

definition stable_hash :: "string \<Rightarrow> 64 word" where
  "stable_hash s = mix64 (fnv1a_extend FNV_OFFSET_BASIS s)"

text \<open>The little-endian bytes of an \<open>n\<close>-byte integer.\<close>

fun to_le_bytes :: "nat \<Rightarrow> nat \<Rightarrow> string" where
  "to_le_bytes 0 v = []"
| "to_le_bytes (Suc n) v = char_of (v mod 256) # to_le_bytes n (v div 256)"

abbreviation nul :: string where "nul \<equiv> [CHR 0x00]"
abbreviation soh :: string where "soh \<equiv> [CHR 0x01]"

fun fingerprint_from :: "64 word \<Rightarrow> routing_target list \<Rightarrow> 64 word" where
  "fingerprint_from h [] = h"
| "fingerprint_from h (t # ts) =
     (let h1 = fnv1a_extend h (rt_model t);
          h2 = fnv1a_extend h1 nul;
          h3 = fnv1a_extend h2 (case rt_model_id t of Some i \<Rightarrow> i | None \<Rightarrow> []);
          h4 = fnv1a_extend h3 nul;
          h5 = fnv1a_extend h4 (to_le_bytes 4 (weight_or_default t))
      in fingerprint_from (fnv1a_extend h5 soh) ts)"

definition tier_fingerprint :: "routing_target list \<Rightarrow> 64 word" where
  "tier_fingerprint tier = fingerprint_from FNV_OFFSET_BASIS tier"

section \<open>Tiers, tags, walking order\<close>

definition partition_by_priority :: "routing_target list \<Rightarrow> routing_target list list" where
  "partition_by_priority ts =
     (let priorities = remdups_adj (rev (sort (map priority_or_default ts)))
      in map (\<lambda>p. filter (\<lambda>t. priority_or_default t = p) ts) priorities)"

definition default_targets :: "routing_target list \<Rightarrow> routing_target list" where
  "default_targets ts = filter is_default_target ts"

definition eligible_targets :: "routing_target list \<Rightarrow> string list \<Rightarrow> routing_target list" where
  "eligible_targets ts request_tags =
     (if \<not> list_ex has_tags ts then ts
      else if request_tags = []
      then (if default_targets ts = [] then ts else default_targets ts)
      else
        (let matched = filter (\<lambda>t. matches_request_tags t request_tags) ts
         in if matched = [] then default_targets ts else matched))"

text \<open>With \<open>limit > 0\<close> and no target the remainder by zero panics.\<close>

definition attempt_order :: "routing_target list \<Rightarrow> nat \<Rightarrow> nat \<Rightarrow> string list option" where
  "attempt_order ts start_idx limit =
     (if ts = [] \<and> limit > 0 then None
      else Some (map (\<lambda>i. rt_model (ts ! ((start_idx + i) mod length ts))) [0..<limit]))"

section \<open>Smooth weighted round-robin\<close>

record wrr_state =
  wrr_fingerprint :: "64 word"
  rotations :: "64 word \<rightharpoonup> int list"

definition tier_weights :: "routing_target list \<Rightarrow> int list" where
  "tier_weights tier = map (\<lambda>t. int (max (weight_or_default t) 1)) tier"

text \<open>The loop over the weights: raise each counter, remember the first largest.\<close>

fun wrr_loop :: "int list \<Rightarrow> nat \<Rightarrow> int list \<Rightarrow> nat \<Rightarrow> int list \<times> nat" where
  "wrr_loop [] i current best = (current, best)"
| "wrr_loop (w # ws) i current best =
     (let current' = current[i := current ! i + w];
          best' = (if current' ! i > current' ! best then i else best)
      in wrr_loop ws (i + 1) current' best')"

definition wrr_advance :: "int list \<Rightarrow> int list \<Rightarrow> int list \<times> nat" where
  "wrr_advance weights current =
     (let (current', best) = wrr_loop weights 0 current 0
      in (current'[best := current' ! best - sum_list weights], best))"

type_synonym tier_key = "string \<times> int"

definition wrr_entry :: "(tier_key \<rightharpoonup> wrr_state) \<Rightarrow> tier_key \<Rightarrow> 64 word \<Rightarrow> wrr_state" where
  "wrr_entry wrr key config_fingerprint =
     (let fresh = \<lparr>wrr_fingerprint = config_fingerprint, rotations = Map.empty\<rparr>
      in case wrr key of
           None \<Rightarrow> fresh
         | Some st \<Rightarrow> if wrr_fingerprint st \<noteq> config_fingerprint then fresh else st)"

definition wrr_pick ::
    "(tier_key \<rightharpoonup> wrr_state) \<Rightarrow> string \<Rightarrow> int \<Rightarrow> 64 word \<Rightarrow> routing_target list \<Rightarrow>
     (tier_key \<rightharpoonup> wrr_state) \<times> nat" where
  "wrr_pick wrr virtual_name priority config_fingerprint tier =
     (let weights = tier_weights tier;
          st = wrr_entry wrr (virtual_name, priority) config_fingerprint;
          fp = tier_fingerprint tier;
          current = (case rotations st fp of Some c \<Rightarrow> c | None \<Rightarrow> replicate (length weights) 0);
          (current', best) = wrr_advance weights current
      in (wrr((virtual_name, priority) \<mapsto> st\<lparr>rotations := (rotations st)(fp \<mapsto> current')\<rparr>), best))"

section \<open>The consistent-hash ring\<close>

definition RING_POINTS_PER_UNIT :: nat where "RING_POINTS_PER_UNIT = 160"
definition RING_MAX_UNITS :: nat where "RING_MAX_UNITS = 64"

record ring_scale =
  scale_gcd :: nat
  scale_sum :: nat

fun gcd_loop :: "nat \<Rightarrow> nat \<Rightarrow> nat" where
  "gcd_loop a b = (if b \<noteq> 0 then gcd_loop b (a mod b) else a)"

declare gcd_loop.simps [simp del]

definition ring_scale_of :: "routing_target list \<Rightarrow> ring_scale" where
  "ring_scale_of configured_tier =
     (let weights = map (\<lambda>t. max (weight_or_default t) 1) configured_tier;
          g = max (foldl gcd_loop 0 weights) 1
      in \<lparr>scale_gcd = g, scale_sum = sum_list (map (\<lambda>w. w div g) weights)\<rparr>)"

definition ring_units :: "ring_scale \<Rightarrow> nat \<Rightarrow> nat" where
  "ring_units scale weight =
     (let units = max (max weight 1 div scale_gcd scale) 1
      in if scale_sum scale > RING_MAX_UNITS
         then max ((units * RING_MAX_UNITS) div scale_sum scale) 1
         else units)"

record hash_ring =
  ring_fingerprint :: "64 word"
  points :: "(64 word \<times> nat) list"

definition ring_point :: "string \<Rightarrow> nat \<Rightarrow> 64 word" where
  "ring_point name i =
     mix64 (fnv1a_extend (fnv1a_extend (fnv1a_extend FNV_OFFSET_BASIS name) nul) (to_le_bytes 4 i))"

definition target_points :: "ring_scale \<Rightarrow> nat \<Rightarrow> routing_target \<Rightarrow> (64 word \<times> nat) list" where
  "target_points scale idx t =
     map (\<lambda>i. (ring_point (rt_model t) i, idx))
       [0..<ring_units scale (weight_or_default t) * RING_POINTS_PER_UNIT]"

definition ring_build :: "64 word \<Rightarrow> routing_target list \<Rightarrow> ring_scale \<Rightarrow> hash_ring" where
  "ring_build fp ts scale =
     \<lparr>ring_fingerprint = fp,
      points = sort (concat (map (\<lambda>idx. target_points scale idx (ts ! idx)) [0..<length ts]))\<rparr>"

text \<open>The walk along the ring from the key's point: collect each target once, stop when all are there.\<close>

fun ring_walk :: "nat \<Rightarrow> (64 word \<times> nat) list \<Rightarrow> nat list \<Rightarrow> nat list option" where
  "ring_walk n [] order = Some order"
| "ring_walk n ((p, idx) # ps) order =
     (if idx \<ge> n then None
      else if idx \<in> set order then ring_walk n ps order
      else (let order' = order @ [idx]
            in if length order' = n then Some order' else ring_walk n ps order'))"

definition preference_order :: "hash_ring \<Rightarrow> 64 word \<Rightarrow> nat \<Rightarrow> nat list option" where
  "preference_order ring key_hash n_targets =
     (let start = length (takeWhile (\<lambda>(p, _). p < key_hash) (points ring))
      in map_option (\<lambda>order. order @ filter (\<lambda>i. i \<notin> set order) [0..<n_targets])
           (ring_walk n_targets (rotate start (points ring)) []))"

section \<open>The registry\<close>

record routing_registry =
  wrr :: "tier_key \<rightharpoonup> wrr_state"
  rings :: "tier_key \<rightharpoonup> hash_ring"

definition registry_new :: routing_registry where
  "registry_new = \<lparr>wrr = Map.empty, rings = Map.empty\<rparr>"

definition PARTIAL_ROUTE_ROTATION :: string where
  "PARTIAL_ROUTE_ROTATION = nul @ ''partial''"

definition strip_suffix :: "string \<Rightarrow> string \<Rightarrow> string option" where
  "strip_suffix suffix s =
     (if length suffix \<le> length s \<and> drop (length s - length suffix) s = suffix
      then Some (take (length s - length suffix) s) else None)"

definition registry_retain :: "(string \<Rightarrow> bool) \<Rightarrow> routing_registry \<Rightarrow> routing_registry" where
  "registry_retain is_configured reg =
     (let keep = (\<lambda>name. is_configured
                    (case strip_suffix PARTIAL_ROUTE_ROTATION name of Some n \<Rightarrow> n | None \<Rightarrow> name))
      in \<lparr>wrr = (\<lambda>k. if keep (fst k) then wrr reg k else None),
          rings = (\<lambda>k. if keep (fst k) then rings reg k else None)\<rparr>)"

definition ring_fp :: "routing_target list \<Rightarrow> ring_scale \<Rightarrow> 64 word" where
  "ring_fp tier scale =
     fnv1a_extend (fnv1a_extend (tier_fingerprint tier) (to_le_bytes 8 (scale_gcd scale)))
       (to_le_bytes 8 (scale_sum scale))"

definition ring_for ::
    "routing_registry \<Rightarrow> string \<Rightarrow> int \<Rightarrow> routing_target list \<Rightarrow> ring_scale \<Rightarrow> routing_registry \<times> hash_ring" where
  "ring_for reg virtual_name priority tier scale =
     (let fp = ring_fp tier scale;
          key = (virtual_name, priority);
          built = ring_build fp tier scale
      in case rings reg key of
           Some ring \<Rightarrow>
             if ring_fingerprint ring = fp then (reg, ring)
             else (reg\<lparr>rings := (rings reg)(key \<mapsto> built)\<rparr>, built)
         | None \<Rightarrow> (reg\<lparr>rings := (rings reg)(key \<mapsto> built)\<rparr>, built))"

text \<open>The order of one tier, and of the tiers one after the other.\<close>

definition tier_order ::
    "routing_registry \<Rightarrow> string \<Rightarrow> routing \<Rightarrow> string \<Rightarrow> routing_target list \<Rightarrow>
     (routing_registry \<times> string list) option" where
  "tier_order reg virtual_name r hash_key tier =
     (let priority = priority_or_default (hd tier)
      in case strategy r of
           RoundRobin \<Rightarrow>
             (let (w, start) = wrr_pick (wrr reg) virtual_name priority (tier_fingerprint (targets r)) tier
              in map_option (\<lambda>names. (reg\<lparr>wrr := w\<rparr>, names)) (attempt_order tier start (length tier)))
         | ConsistentHash \<Rightarrow>
             (let scale = ring_scale_of (filter (\<lambda>t. priority_or_default t = priority) (targets r));
                  (reg', ring) = ring_for reg virtual_name priority tier scale
              in map_option (\<lambda>order. (reg', map (\<lambda>idx. rt_model (tier ! idx)) order))
                   (preference_order ring (stable_hash hash_key) (length tier)))
         | _ \<Rightarrow> Some (reg, map rt_model tier))"

fun tiers_order ::
    "routing_registry \<Rightarrow> string \<Rightarrow> routing \<Rightarrow> string \<Rightarrow> routing_target list list \<Rightarrow>
     (routing_registry \<times> string list) option" where
  "tiers_order reg virtual_name r hash_key [] = Some (reg, [])"
| "tiers_order reg virtual_name r hash_key (tier # tiers) =
     (case tier_order reg virtual_name r hash_key tier of
        None \<Rightarrow> None
      | Some (reg', names) \<Rightarrow>
          map_option (\<lambda>(reg'', rest). (reg'', names @ rest)) (tiers_order reg' virtual_name r hash_key tiers))"

definition pick_targets ::
    "routing_registry \<Rightarrow> string \<Rightarrow> routing \<Rightarrow> routing_target list \<Rightarrow> string \<Rightarrow>
     (routing_registry \<times> string list) option" where
  "pick_targets reg virtual_name r ts hash_key =
     (if ts = [] then Some (reg, [])
      else if is_metric_based (strategy r) then Some (reg, map rt_model ts)
      else map_option (\<lambda>(reg', order). (reg', take (max_fallbacks_or_default r + 1) order))
             (tiers_order reg virtual_name r hash_key (partition_by_priority ts)))"

end
