(* ===== verification/Rotation.thy ===== *)
theory Rotation
  imports Balancer
begin

text \<open>
  Smooth weighted round-robin is fair: in any interleaving of picks over any number of routing models
  and tiers, the picks made for one tier follow the weights of its targets, exactly so after every
  full cycle. The counters of a rotation after \<open>k\<close> picks are \<open>k * w - total * n\<close> for a target of
  weight \<open>w\<close> picked \<open>n\<close> times, sum to zero and stay above \<open>- total\<close>.
\<close>

section \<open>One pick\<close>

lemma wrr_loop_spec:
  assumes "length current = i + length ws" and "best < length current"
    and "best < i \<or> best = i" and "\<forall>j<i. current ! j \<le> current ! best"
    and "i = 0 \<or> best < i"
  shows "case wrr_loop ws i current best of (c, b) \<Rightarrow>
           length c = length current \<and> b < length current \<and>
           (\<forall>j < length current. c ! j = current ! j + (if j < i then 0 else ws ! (j - i))) \<and>
           (\<forall>j < length current. c ! j \<le> c ! b)"
  using assms
proof (induction ws arbitrary: i current best)
  case Nil
  then show ?case by auto
next
  case (Cons w ws)
  define cur where "cur = current[i := current ! i + w]"
  define b where "b = (if cur ! i > cur ! best then i else best)"
  have i: "i < length current" using Cons.prems by simp
  have below: "\<forall>j<i. cur ! j \<le> cur ! best"
    using Cons.prems i by (auto simp: cur_def nth_list_update)
  have step: "wrr_loop (w # ws) i current best = wrr_loop ws (i + 1) cur b"
    by (simp add: cur_def b_def Let_def)
  have "case wrr_loop ws (i + 1) cur b of (c, b') \<Rightarrow>
          length c = length cur \<and> b' < length cur \<and>
          (\<forall>j < length cur. c ! j = cur ! j + (if j < i + 1 then 0 else ws ! (j - (i + 1)))) \<and>
          (\<forall>j < length cur. c ! j \<le> c ! b')"
  proof (rule Cons.IH)
    show "length cur = i + 1 + length ws" using Cons.prems by (simp add: cur_def)
    show "b < length cur" using Cons.prems i by (simp add: b_def cur_def)
    show "b < i + 1 \<or> b = i + 1" using Cons.prems by (auto simp: b_def)
    show "\<forall>j<i + 1. cur ! j \<le> cur ! b" using below by (auto simp: b_def less_Suc_eq)
    show "i + 1 = 0 \<or> b < i + 1" using Cons.prems by (auto simp: b_def)
  qed
  moreover have "cur ! j + (if j < i + 1 then 0 else ws ! (j - (i + 1)))
      = current ! j + (if j < i then 0 else (w # ws) ! (j - i))" if "j < length current" for j
    using that i by (auto simp: cur_def nth_list_update nth_Cons')
  ultimately show ?case unfolding step by (auto simp: cur_def split: prod.splits)
qed

lemma wrr_advance_spec:
  assumes len: "length current = length ws" and ne: "ws \<noteq> []"
    and adv: "wrr_advance ws current = (c, b)"
  shows "length c = length ws" and "b < length ws"
    and "\<And>j. j < length ws \<Longrightarrow>
           c ! j = current ! j + ws ! j - (if j = b then sum_list ws else 0)"
    and "\<And>j. j < length ws \<Longrightarrow> current ! j + ws ! j \<le> current ! b + ws ! b"
proof -
  obtain c' b' where l: "wrr_loop ws 0 current 0 = (c', b')" by fastforce
  have "case wrr_loop ws 0 current 0 of (c, b) \<Rightarrow>
           length c = length current \<and> b < length current \<and>
           (\<forall>j < length current. c ! j = current ! j + (if j < 0 then 0 else ws ! (j - 0))) \<and>
           (\<forall>j < length current. c ! j \<le> c ! b)"
    by (rule wrr_loop_spec) (use len ne in auto)
  then have s: "length c' = length ws" "b' < length ws"
    "\<forall>j < length ws. c' ! j = current ! j + ws ! j" "\<forall>j < length ws. c' ! j \<le> c' ! b'"
    using len by (auto simp: l)
  have e: "c = c'[b' := c' ! b' - sum_list ws]" "b = b'"
    using adv by (auto simp: wrr_advance_def l)
  show "length c = length ws" and "b < length ws" using s e by simp_all
  show "c ! j = current ! j + ws ! j - (if j = b then sum_list ws else 0)" if "j < length ws" for j
    using that s e by (auto simp: nth_list_update)
  show "current ! j + ws ! j \<le> current ! b + ws ! b" if "j < length ws" for j
    using that s e by auto
qed

section \<open>A rotation over its picks\<close>

text \<open>\<open>fair ws k n c\<close>: after \<open>k\<close> picks, target \<open>i\<close> of which \<open>n i\<close> times, the counters are \<open>c\<close>.\<close>

definition fair :: "int list \<Rightarrow> nat \<Rightarrow> (nat \<Rightarrow> nat) \<Rightarrow> int list \<Rightarrow> bool" where
  "fair ws k n c \<longleftrightarrow>
     length c = length ws \<and> (\<Sum>i<length ws. n i) = k \<and>
     (\<forall>i < length ws. c ! i = int k * ws ! i - sum_list ws * int (n i) \<and> - sum_list ws < c ! i)"

lemma fair_low: "fair ws k n c \<Longrightarrow> i < length ws \<Longrightarrow> - sum_list ws \<le> c ! i"
  unfolding fair_def by force

lemma sum_list_nth_lessThan: "sum_list (ws :: int list) = (\<Sum>i<length ws. ws ! i)"
  by (simp add: sum_list_sum_nth lessThan_atLeast0)

lemma fair_sum_zero:
  assumes "fair ws k n c"
  shows "(\<Sum>i<length ws. c ! i) = 0"
proof -
  have "(\<Sum>i<length ws. c ! i) = (\<Sum>i<length ws. int k * ws ! i - sum_list ws * int (n i))"
    using assms by (intro sum.cong) (auto simp: fair_def)
  also have "\<dots> = int k * sum_list ws - sum_list ws * (\<Sum>i<length ws. int (n i))"
    by (simp add: sum_subtractf sum_distrib_left sum_list_nth_lessThan)
  also have "(\<Sum>i<length ws. int (n i)) = int k"
    using assms by (simp add: fair_def flip: of_nat_sum)
  finally show ?thesis by simp
qed

lemma fair_start:
  assumes "\<forall>w \<in> set ws. w \<ge> 1" and "ws \<noteq> []"
  shows "fair ws 0 (\<lambda>_. 0) (replicate (length ws) 0)"
proof -
  have "sum_list ws \<ge> 1"
    using assms by (cases ws) (auto intro!: add_increasing2 sum_list_nonneg)
  then show ?thesis by (simp add: fair_def)
qed

lemma fair_advance:
  assumes f: "fair ws k n c" and pos: "\<forall>w \<in> set ws. w \<ge> 1" and ne: "ws \<noteq> []"
    and adv: "wrr_advance ws c = (c', b)"
  shows "fair ws (Suc k) (n(b := Suc (n b))) c'"
proof -
  have len: "length c = length ws" using f by (simp add: fair_def)
  note s = wrr_advance_spec [OF len ne adv]
  have "(\<Sum>j<length ws. c ! j + ws ! j) = sum_list ws"
    using fair_sum_zero [OF f] by (simp add: sum.distrib sum_list_nth_lessThan)
  moreover have "(\<Sum>j<length ws. c ! j + ws ! j) \<le> (\<Sum>j<length ws. c ! b + ws ! b)"
    by (rule sum_mono) (simp add: s(4))
  ultimately have "sum_list ws \<le> int (length ws) * (c ! b + ws ! b)" by simp
  moreover have "sum_list ws \<ge> 1"
    using pos ne by (cases ws) (auto intro!: add_increasing2 sum_list_nonneg)
  ultimately have "0 < int (length ws) * (c ! b + ws ! b)" by linarith
  then have max: "0 < c ! b + ws ! b" by (simp add: zero_less_mult_iff)
  have "(\<Sum>i<length ws. (n(b := Suc (n b))) i) = Suc k"
  proof -
    have "(\<Sum>i<length ws. (n(b := Suc (n b))) i) = (\<Sum>i<length ws. n i + (if i = b then 1 else 0))"
      by (rule sum.cong) auto
    also have "\<dots> = k + 1" using f s(2) by (simp add: sum.distrib fair_def)
    finally show ?thesis by simp
  qed
  moreover have "c' ! i = int (Suc k) * ws ! i - sum_list ws * int ((n(b := Suc (n b))) i) \<and>
                 - sum_list ws < c' ! i" if i: "i < length ws" for i
  proof -
    have "ws ! i \<ge> 1" using pos i by simp
    with f i max s(3) [OF i] show ?thesis
      by (auto simp: fair_def algebra_simps)
  qed
  ultimately show ?thesis using s(1) unfolding fair_def by blast
qed

text \<open>Never more than its share rounded up, and exactly its share after whole cycles.\<close>

lemma fair_share:
  assumes f: "fair ws k n c" and i: "i < length ws"
  shows "sum_list ws * int (n i) < int k * ws ! i + sum_list ws"
  using f i by (auto simp: fair_def)

lemma fair_cycle:
  assumes f: "fair ws k n c" and pos: "\<forall>w \<in> set ws. w \<ge> 1" and k: "int k = m * sum_list ws"
    and i: "i < length ws"
  shows "int (n i) = m * ws ! i"
proof -
  have s1: "sum_list ws \<ge> 1"
    using pos i by (cases ws) (auto intro!: add_increasing2 sum_list_nonneg)
  have le: "int (n j) \<le> m * ws ! j" if "j < length ws" for j
  proof -
    have "sum_list ws * int (n j) < sum_list ws * (m * ws ! j + 1)"
      using fair_share [OF f that] k by (simp add: algebra_simps)
    then have "int (n j) < m * ws ! j + 1" using s1 by simp
    then show ?thesis by simp
  qed
  have "(\<Sum>j<length ws. m * ws ! j - int (n j)) = 0"
    using f k by (simp add: sum_subtractf fair_def sum_list_nth_lessThan sum_distrib_left flip: of_nat_sum)
  then have "\<forall>j \<in> {..<length ws}. m * ws ! j - int (n j) = 0"
    using le by (subst (asm) sum_nonneg_eq_0_iff) auto
  then show ?thesis using i by simp
qed

lemma fair_counter_bounds:
  assumes f: "fair ws k n c" and i: "i < length ws"
  shows "- sum_list ws < c ! i" and "c ! i \<le> int (length ws) * sum_list ws"
proof -
  show "- sum_list ws < c ! i" using f i unfolding fair_def by blast
  have "c ! i = - (\<Sum>j \<in> {..<length ws} - {i}. c ! j)"
    using fair_sum_zero [OF f] i by (simp add: sum.remove [of _ i])
  also have "\<dots> = (\<Sum>j \<in> {..<length ws} - {i}. - (c ! j))" by (simp add: sum_negf)
  also have "\<dots> \<le> (\<Sum>j \<in> {..<length ws} - {i}. sum_list ws)"
    using fair_low [OF f] by (intro sum_mono) force
  also have "\<dots> = int (length ws - 1) * sum_list ws" using i by simp
  also have "\<dots> \<le> int (length ws) * sum_list ws"
  proof (rule mult_right_mono)
    show "int (length ws - 1) \<le> int (length ws)" by simp
    have "(\<Sum>j<length ws. - sum_list ws) \<le> (\<Sum>j<length ws. c ! j)"
      using fair_low [OF f] by (intro sum_mono) simp
    then have "- (int (length ws) * sum_list ws) \<le> 0" using fair_sum_zero [OF f] by simp
    then show "0 \<le> sum_list ws" using i by (auto simp: zero_le_mult_iff)
  qed
  finally show "c ! i \<le> int (length ws) * sum_list ws" .
qed

text \<open>The counters fit the \<^verbatim>\<open>i64\<close> they are stored in for every tier whose weights, times its
  size, do.\<close>

lemma fair_in_i64:
  assumes "fair ws k n c" and "i < length ws" and "int (length ws) * sum_list ws \<le> i64_max"
  shows "in_i64 (c ! i)"
proof -
  note b = fair_counter_bounds [OF assms(1,2)]
  have "- sum_list ws < int (length ws) * sum_list ws" using b by linarith
  moreover have "1 \<le> int (length ws)" using assms(2) by simp
  ultimately have "0 \<le> sum_list ws" by (smt (verit) mult_less_0_iff mult_le_cancel_right1)
  then have "sum_list ws \<le> int (length ws) * sum_list ws"
    using \<open>1 \<le> int (length ws)\<close> by (simp add: mult_le_cancel_right1)
  with b assms(3) show ?thesis by (simp add: in_i64_def i64_min_def i64_max_def)
qed

section \<open>Interleaved picks\<close>

text \<open>A pick names the routing model, the tier's priority, the configuration's fingerprint and the
  eligible tier; a run makes picks of any models and tiers one after the other.\<close>

type_synonym pick = "string \<times> int \<times> 64 word \<times> routing_target list"

fun wrr_run :: "(tier_key \<rightharpoonup> wrr_state) \<Rightarrow> pick list \<Rightarrow> nat list" where
  "wrr_run w [] = []"
| "wrr_run w ((v, p, cfg, tier) # picks) =
     (let (w', best) = wrr_pick w v p cfg tier in best # wrr_run w' picks)"

definition times_picked :: "(tier_key \<rightharpoonup> wrr_state) \<Rightarrow> pick list \<Rightarrow> pick \<Rightarrow> nat \<Rightarrow> nat" where
  "times_picked w picks q i = length (filter (\<lambda>(r, b). r = q \<and> b = i) (zip picks (wrr_run w picks)))"

definition rotation_of :: "(tier_key \<rightharpoonup> wrr_state) \<Rightarrow> pick \<Rightarrow> int list option" where
  "rotation_of w q =
     (case q of (v, p, cfg, tier) \<Rightarrow> rotations (wrr_entry w (v, p) cfg) (tier_fingerprint tier))"

text \<open>Picks of one routing model's tier share a configuration and tell their target lists apart by
  fingerprint.\<close>

definition compatible :: "pick \<Rightarrow> pick \<Rightarrow> bool" where
  "compatible q r \<longleftrightarrow>
     (case (q, r) of ((v, p, cfg, tier), (v', p', cfg', tier')) \<Rightarrow>
        v = v' \<and> p = p' \<longrightarrow>
        cfg = cfg' \<and> (tier_fingerprint tier = tier_fingerprint tier' \<longrightarrow> tier = tier'))"

lemma tier_weights_simps [simp]:
  "length (tier_weights tier) = length tier" "tier_weights tier = [] \<longleftrightarrow> tier = []"
  "\<forall>w \<in> set (tier_weights tier). w \<ge> 1"
  by (auto simp: tier_weights_def)

lemma wrr_entry_fingerprint [simp]: "wrr_fingerprint (wrr_entry w key cfg) = cfg"
  by (auto simp: wrr_entry_def Let_def split: option.split)

lemma wrr_entry_upd [simp]:
  "wrr_entry (w(key \<mapsto> st)) key' (wrr_fingerprint st)
   = (if key' = key then st else wrr_entry w key' (wrr_fingerprint st))"
  by (auto simp: wrr_entry_def Let_def)

lemma wrr_entry_other: "key' \<noteq> key \<Longrightarrow> wrr_entry (w(key \<mapsto> st)) key' cfg = wrr_entry w key' cfg"
  by (auto simp: wrr_entry_def Let_def)

lemma wrr_pick_form:
  assumes "wrr_pick w v p cfg tier = (w', b)"
  obtains c where
    "wrr_advance (tier_weights tier)
       (case rotation_of w (v, p, cfg, tier) of Some c \<Rightarrow> c | None \<Rightarrow> replicate (length tier) 0) = (c, b)"
    "w' = w((v, p) \<mapsto> (wrr_entry w (v, p) cfg)\<lparr>rotations :=
            (rotations (wrr_entry w (v, p) cfg))(tier_fingerprint tier \<mapsto> c)\<rparr>)"
  using assms unfolding wrr_pick_def Let_def rotation_of_def tier_weights_simps(1)
  by (auto split: prod.splits)

lemma rotation_upd:
  "rotation_of (w((v, p) \<mapsto> (wrr_entry w (v, p) cfg)\<lparr>rotations :=
      (rotations (wrr_entry w (v, p) cfg))(fp \<mapsto> c)\<rparr>)) (v', p', cfg, tier)
   = (if (v', p') = (v, p) \<and> tier_fingerprint tier = fp then Some c
      else rotation_of w (v', p', cfg, tier))"
proof -
  define st where "st = (wrr_entry w (v, p) cfg)\<lparr>rotations :=
      (rotations (wrr_entry w (v, p) cfg))(fp \<mapsto> c)\<rparr>"
  have fp: "wrr_fingerprint st = cfg" by (simp add: st_def)
  have "rotation_of (w((v, p) \<mapsto> st)) (v', p', cfg, tier)
      = rotations (if (v', p') = (v, p) then st else wrr_entry w (v', p') cfg) (tier_fingerprint tier)"
    using wrr_entry_upd [of w "(v, p)" st "(v', p')"] fp by (simp add: rotation_of_def)
  then show ?thesis unfolding st_def [symmetric] by (auto simp: rotation_of_def st_def)
qed

lemma rotation_other:
  assumes "wrr_pick w v p cfg tier = (w', b)" and comp: "compatible q (v, p, cfg, tier)"
    and "q \<noteq> (v, p, cfg, tier)"
  shows "rotation_of w' q = rotation_of w q"
proof -
  obtain v' p' cfg' tier' where q: "q = (v', p', cfg', tier')" by (cases q)
  from assms(1) obtain c where w': "w' = w((v, p) \<mapsto> (wrr_entry w (v, p) cfg)\<lparr>rotations :=
            (rotations (wrr_entry w (v, p) cfg))(tier_fingerprint tier \<mapsto> c)\<rparr>)"
    by (rule wrr_pick_form)
  show ?thesis
  proof (cases "(v', p') = (v, p)")
    case True
    with comp q have "cfg' = cfg" and "tier_fingerprint tier' = tier_fingerprint tier \<longrightarrow> tier' = tier"
      by (simp_all add: compatible_def)
    with True q assms(3) show ?thesis by (auto simp: w' rotation_upd)
  next
    case False
    show ?thesis unfolding w' rotation_of_def q prod.case wrr_entry_other [OF False] ..
  qed
qed

lemma rotation_same:
  assumes "wrr_pick w v p cfg tier = (w', b)"
  shows "\<exists>c. rotation_of w' (v, p, cfg, tier) = Some c \<and>
             wrr_advance (tier_weights tier)
               (case rotation_of w (v, p, cfg, tier) of Some c \<Rightarrow> c | None \<Rightarrow> replicate (length tier) 0) = (c, b)"
  using assms by (rule wrr_pick_form) (auto simp: rotation_upd)

text \<open>A rotation is on track when its counters are those of \<open>k\<close> picks shared out as \<open>n\<close>.\<close>

definition on_track :: "(tier_key \<rightharpoonup> wrr_state) \<Rightarrow> pick \<Rightarrow> nat \<Rightarrow> (nat \<Rightarrow> nat) \<Rightarrow> bool" where
  "on_track w q k n \<longleftrightarrow>
     (case q of (v, p, cfg, tier) \<Rightarrow>
        fair (tier_weights tier) k n
          (case rotation_of w q of Some c \<Rightarrow> c | None \<Rightarrow> replicate (length tier) 0))"

lemma on_track_start:
  assumes "rotation_of w (v, p, cfg, tier) = None" and "tier \<noteq> []"
  shows "on_track w (v, p, cfg, tier) 0 (\<lambda>_. 0)"
  using fair_start [of "tier_weights tier"] assms by (simp add: on_track_def)

lemma on_track_run:
  assumes "on_track w (v, p, cfg, tier) k n" and "tier \<noteq> []"
    and "\<forall>r \<in> set picks. compatible (v, p, cfg, tier) r"
  shows "\<exists>c. fair (tier_weights tier) (k + count_list picks (v, p, cfg, tier))
               (\<lambda>i. n i + times_picked w picks (v, p, cfg, tier) i) c"
  using assms
proof (induction picks arbitrary: w k n)
  case Nil
  then show ?case by (auto simp: on_track_def times_picked_def)
next
  case (Cons r picks)
  let ?q = "(v, p, cfg, tier)"
  obtain rv rp rcfg rtier where r: "r = (rv, rp, rcfg, rtier)" by (cases r)
  obtain w' b where pick: "wrr_pick w rv rp rcfg rtier = (w', b)" by fastforce
  have rest: "\<forall>r \<in> set picks. compatible ?q r" using Cons.prems by simp
  have run: "times_picked w (r # picks) ?q i =
      (if r = ?q \<and> b = i then 1 else 0) + times_picked w' picks ?q i" for i
    by (simp add: times_picked_def r pick)
  show ?case
  proof (cases "r = ?q")
    case True
    with r pick obtain c where c: "rotation_of w' ?q = Some c"
      "wrr_advance (tier_weights tier)
         (case rotation_of w ?q of Some c \<Rightarrow> c | None \<Rightarrow> replicate (length tier) 0) = (c, b)"
      using rotation_same [of w v p cfg tier w' b] by auto
    have "fair (tier_weights tier) (Suc k) (n(b := Suc (n b))) c"
      by (rule fair_advance [OF _ _ _ c(2)]) (use Cons.prems in \<open>simp_all add: on_track_def\<close>)
    then have "on_track w' ?q (Suc k) (n(b := Suc (n b)))" using c(1) by (simp add: on_track_def)
    then obtain c' where
      "fair (tier_weights tier) (Suc k + count_list picks ?q)
         (\<lambda>i. (n(b := Suc (n b))) i + times_picked w' picks ?q i) c'"
      using Cons.IH Cons.prems(2) rest by blast
    moreover have "(\<lambda>i. (n(b := Suc (n b))) i + times_picked w' picks ?q i)
        = (\<lambda>i. n i + times_picked w (r # picks) ?q i)"
      using True by (intro ext) (auto simp: run [unfolded True])
    ultimately show ?thesis using True by auto
  next
    case False
    have "compatible ?q (rv, rp, rcfg, rtier)" using Cons.prems r by simp
    then have "rotation_of w' ?q = rotation_of w ?q"
      using rotation_other [OF pick] False r by metis
    then have "on_track w' ?q k n" using Cons.prems(1) by (simp add: on_track_def)
    then obtain c' where
      "fair (tier_weights tier) (k + count_list picks ?q) (\<lambda>i. n i + times_picked w' picks ?q i) c'"
      using Cons.IH Cons.prems(2) rest by blast
    then show ?thesis using False by (auto simp: run)
  qed
qed

section \<open>The result\<close>

text \<open>C36. Smooth weighted round-robin keeps the configured shares in every interleaving: among \<open>k\<close> picks
  of a tier that starts without a rotation, mixed with any picks of other models, other tiers or other
  eligible subsets, a target of weight \<open>w\<close> (at least one) is picked fewer than \<open>k * w / total + 1\<close> times,
  and exactly \<open>m * w\<close> times when \<open>k\<close> is \<open>m\<close> full cycles. The picks of a tier tell their target lists
  apart by fingerprint (no collision of the 64-bit hash) and share one configuration.\<close>

theorem wrr_shares_exact:
  assumes "rotation_of w (v, p, cfg, tier) = None" and "i < length tier"
    and "\<forall>r \<in> set picks. compatible (v, p, cfg, tier) r"
  shows "(let q = (v, p, cfg, tier); total = sum_list (tier_weights tier);
              weight = tier_weights tier ! i; k = count_list picks q; n = times_picked w picks q i
          in total * int n < int k * weight + total \<and>
             (\<forall>m. int k = m * total \<longrightarrow> int n = m * weight))"
proof -
  have "tier \<noteq> []" using assms(2) by auto
  with on_track_run [OF on_track_start [OF assms(1)] _ assms(3)] obtain c where
    f: "fair (tier_weights tier) (count_list picks (v, p, cfg, tier))
          (times_picked w picks (v, p, cfg, tier)) c"
    by auto
  show ?thesis
    using fair_share [OF f] fair_cycle [OF f] assms(2) by (simp add: Let_def)
qed

definition demo_tier :: "routing_target list" where
  "demo_tier = [with_weight (target_new ''a'') 3, target_new ''b'']"

theorem wrr_shares_exact_witness:
  "(let q = (''m'', 0, 7, demo_tier); other = (''n'', 0, 7, demo_tier);
        picks = [q, other, q, q, other, q]
    in times_picked Map.empty picks q 0 = 3)"
proof -
  have "rotation_of Map.empty (''m'', 0, 7, demo_tier) = None"
    by (simp add: rotation_of_def wrr_entry_def)
  from wrr_shares_exact [OF this, of 0
      "[(''m'', 0, 7, demo_tier), (''n'', 0, 7, demo_tier), (''m'', 0, 7, demo_tier),
        (''m'', 0, 7, demo_tier), (''n'', 0, 7, demo_tier), (''m'', 0, 7, demo_tier)]"]
  show ?thesis
    by (simp add: compatible_def Let_def demo_tier_def tier_weights_def with_weight_def target_new_def
                  weight_or_default_def)
qed

end
