(* ===== verification/Ring.thy ===== *)
theory Ring
  imports Balancer
begin

text \<open>
  The consistent-hash ring: a key's preference order visits every target of the tier once, and
  taking targets out of the tier (an unhealthy member, a tag filter) keeps the relative order of the
  others, so that only the keys of the removed targets move. The scale of the ring is computed from
  the configured tier for exactly this reason.
\<close>

section \<open>First occurrences\<close>

fun nub :: "'a list \<Rightarrow> 'a list" where
  "nub [] = []"
| "nub (x # xs) = x # filter (\<lambda>y. y \<noteq> x) (nub xs)"

lemma set_nub [simp]: "set (nub xs) = set xs"
  by (induction xs) auto

lemma distinct_nub [simp]: "distinct (nub xs)"
  by (induction xs) auto

lemma nub_filter: "nub (filter P xs) = filter P (nub xs)"
  by (induction xs) (auto simp: filter_filter conj_commute intro!: filter_cong)

lemma nub_map: "inj_on f (set xs) \<Longrightarrow> nub (map f xs) = map f (nub xs)"
proof (induction xs)
  case (Cons x xs)
  have "filter (\<lambda>y. y \<noteq> f x) (map f (nub xs)) = map f (filter (\<lambda>y. y \<noteq> x) (nub xs))"
    using Cons.prems by (auto simp: filter_map inj_on_def intro!: arg_cong [of _ _ "map f"] filter_cong)
  with Cons show ?case by simp
qed simp

section \<open>Sorting and rotating\<close>

lemma sort_map_mono:
  assumes "\<And>x y. x \<in> set xs \<Longrightarrow> y \<in> set xs \<Longrightarrow> x \<le> y \<Longrightarrow> g x \<le> g y"
  shows "sort (map g xs) = map g (sort xs)"
proof (rule properties_for_sort)
  have "sorted_wrt (\<lambda>x y. g x \<le> g y) (sort xs)"
    by (rule sorted_wrt_mono_rel [OF _ sorted_sort]) (use assms in auto)
  then show "sorted (map g (sort xs))" by (simp add: sorted_map)
qed simp

lemma takeWhile_sorted:
  assumes "sorted (xs :: (64 word \<times> nat) list)"
  shows "takeWhile (\<lambda>(p, _). p < h) xs = filter (\<lambda>(p, _). p < h) xs \<and>
         dropWhile (\<lambda>(p, _). p < h) xs = filter (\<lambda>(p, _). \<not> p < h) xs"
  using assms
proof (induction xs)
  case (Cons x xs)
  have above: "fst x \<le> fst y" if "y \<in> set xs" for y
    using that Cons.prems by (auto simp: less_eq_prod_def less_imp_le)
  then have "filter (\<lambda>(p, _). p < h) xs = []" if "\<not> fst x < h"
    using that by (force simp: filter_empty_conv)
  moreover have "filter (\<lambda>(p, _). \<not> p < h) xs = xs" if "\<not> fst x < h"
    using that above by (force simp: filter_id_conv)
  moreover have "sorted xs" using Cons.prems by simp
  ultimately show ?case using Cons.IH by (simp add: case_prod_unfold)
qed simp

lemma rotate_takeWhile: "rotate (length (takeWhile P xs)) xs = dropWhile P xs @ takeWhile P xs"
  by (metis rotate_append takeWhile_dropWhile_id)

text \<open>The points in the order a key walks them.\<close>

definition walked :: "64 word \<Rightarrow> (64 word \<times> nat) list \<Rightarrow> (64 word \<times> nat) list" where
  "walked h ps = filter (\<lambda>(p, _). \<not> p < h) ps @ filter (\<lambda>(p, _). p < h) ps"

lemma set_walked [simp]: "set (walked h ps) = set ps"
  by (auto simp: walked_def)

lemma walked_filter: "walked h (filter P ps) = filter P (walked h ps)"
  by (auto simp: walked_def filter_filter conj_commute)

lemma walked_map: "walked h (map (\<lambda>(p, i). (p, f i)) ps) = map (\<lambda>(p, i). (p, f i)) (walked h ps)"
  by (auto simp: walked_def filter_map o_def case_prod_unfold)

lemma preference_order_walked:
  assumes "sorted (points ring)"
  shows "preference_order ring h n =
           map_option (\<lambda>order. order @ filter (\<lambda>i. i \<notin> set order) [0..<n])
             (ring_walk n (walked h (points ring)) [])"
  unfolding preference_order_def Let_def rotate_takeWhile
  by (simp add: takeWhile_sorted [OF assms] walked_def)

section \<open>The walk collects first occurrences\<close>

lemma full_when_n:
  assumes "distinct order" and "set order \<subseteq> {..<n}" and "length order = n"
  shows "set order = {..<n}"
  using assms by (simp add: card_subset_eq distinct_card)

lemma ring_walk_nub:
  assumes "distinct order" and "set order \<subseteq> {..<n}" and "\<forall>(p, i) \<in> set ps. i < n"
  shows "ring_walk n ps order = Some (order @ filter (\<lambda>i. i \<notin> set order) (nub (map snd ps)))"
  using assms
proof (induction n ps order rule: ring_walk.induct)
  case (2 n p idx ps order)
  have idx: "idx < n" using "2.prems" by simp
  have nubbed: "filter (\<lambda>i. i \<noteq> idx \<and> i \<notin> set order) (nub (map snd ps))
      = filter (\<lambda>i. i \<notin> set (order @ [idx])) (nub (map snd ps))"
    by (rule filter_cong) auto
  show ?case
  proof (cases "idx \<in> set order")
    case True
    then have "filter (\<lambda>i. i \<noteq> idx \<and> i \<notin> set order) (nub (map snd ps))
        = filter (\<lambda>i. i \<notin> set order) (nub (map snd ps))"
      by (intro filter_cong) auto
    with True idx 2 show ?thesis by (auto simp: filter_filter conj_commute)
  next
    case False
    have new: "distinct (order @ [idx])" "set (order @ [idx]) \<subseteq> {..<n}"
      using False idx "2.prems" by auto
    have tail: "filter (\<lambda>i. i \<notin> set order) (nub (map snd ((p, idx) # ps)))
        = idx # filter (\<lambda>i. i \<notin> set (order @ [idx])) (nub (map snd ps))"
      using False nubbed by (simp add: filter_filter conj_commute)
    show ?thesis
    proof (cases "length (order @ [idx]) = n")
      case True
      have "filter (\<lambda>i. i \<notin> set (order @ [idx])) (nub (map snd ps)) = []"
        using full_when_n [OF new True] "2.prems"(3) by (auto simp: filter_empty_conv)
      then have "order @ filter (\<lambda>i. i \<notin> set order) (nub (map snd ((p, idx) # ps))) = order @ [idx]"
        unfolding tail by simp
      with True False idx show ?thesis by (simp add: Let_def)
    next
      case go: False
      have "ring_walk n ps (order @ [idx])
          = Some ((order @ [idx]) @ filter (\<lambda>i. i \<notin> set (order @ [idx])) (nub (map snd ps)))"
        by (rule "2.IH"(2)) (use idx False go new "2.prems" in auto)
      then show ?thesis unfolding tail using go False idx by (simp add: Let_def)
    qed
  qed
qed simp

section \<open>The points of a tier\<close>

lemma points_build_sorted [simp]: "sorted (points (ring_build fp ts s))"
  by (simp add: ring_build_def)

lemma ring_units_pos: "ring_units s w > 0"
  by (simp add: ring_units_def Let_def less_max_iff_disj)

lemma set_points_snd: "snd ` set (points (ring_build fp ts s)) = {..<length ts}"
proof -
  have "snd ` set (target_points s i t) = {i}" for i t
    using ring_units_pos [of s "weight_or_default t"]
    by (simp add: target_points_def image_image RING_POINTS_PER_UNIT_def image_constant_conv)
  then show ?thesis by (auto simp: ring_build_def image_UN)
qed

definition ring_preference :: "64 word \<Rightarrow> routing_target list \<Rightarrow> ring_scale \<Rightarrow> nat list" where
  "ring_preference h ts s = nub (map snd (walked h (points (ring_build 0 ts s))))"

lemma points_fp: "points (ring_build fp ts s) = points (ring_build 0 ts s)"
  by (simp add: ring_build_def)

lemma ring_preference_perm: "distinct (ring_preference h ts s)" "set (ring_preference h ts s) = {..<length ts}"
  by (simp_all add: ring_preference_def set_points_snd)

lemma preference_order_build:
  "preference_order (ring_build fp ts s) h (length ts) = Some (ring_preference h ts s)"
proof -
  have "\<forall>(p, i) \<in> set (walked h (points (ring_build fp ts s))). i < length ts"
    using set_points_snd [of fp ts s] by force
  then have "ring_walk (length ts) (walked h (points (ring_build fp ts s))) [] = Some (ring_preference h ts s)"
    by (simp add: ring_walk_nub ring_preference_def points_fp [of fp])
  moreover have "filter (\<lambda>i. i \<notin> set (ring_preference h ts s)) [0..<length ts] = []"
    by (simp add: ring_preference_perm filter_empty_conv)
  ultimately show ?thesis by (simp add: preference_order_walked)
qed

section \<open>Removing targets\<close>

lemma filter_as_nth: "filter Q ts = map ((!) ts) (filter (\<lambda>i. Q (ts ! i)) [0..<length ts])"
proof -
  have "filter Q ts = filter Q (map ((!) ts) [0..<length ts])" by (simp add: map_nth)
  then show ?thesis by (simp add: filter_map o_def)
qed

lemma filter_concat_tagged:
  assumes "\<And>i. i \<in> set is \<Longrightarrow> snd ` set (f i) \<subseteq> {i}"
  shows "filter (\<lambda>(p, i). Q i) (concat (map f is)) = concat (map f (filter Q is))"
  using assms
proof (induction "is")
  case (Cons i "is")
  have "filter (\<lambda>(p, i). Q i) (f i) = (if Q i then f i else [])"
    using Cons.prems [of i] by (auto simp: filter_id_conv filter_empty_conv)
  with Cons show ?case by simp
qed simp

lemma points_filter:
  fixes Q ts s
  defines "ix \<equiv> filter (\<lambda>i. Q (ts ! i)) [0..<length ts]"
  shows "map (\<lambda>(p, j). (p, ix ! j)) (points (ring_build 0 (filter Q ts) s))
       = filter (\<lambda>(p, i). Q (ts ! i)) (points (ring_build 0 ts s))"
proof -
  let ?g = "\<lambda>(p :: 64 word, j). (p, ix ! j)"
  have len: "length (filter Q ts) = length ix" by (simp add: filter_as_nth [of Q ts] ix_def)
  have at: "filter Q ts ! j = ts ! (ix ! j)" if "j < length ix" for j
    using that by (simp add: filter_as_nth [of Q ts] ix_def)
  have sorted_ix: "sorted_wrt (<) ix" by (simp add: ix_def sorted_wrt_filter)
  let ?raw = "concat (map (\<lambda>j. target_points s j (filter Q ts ! j)) [0..<length ix])"
  have mono: "ix ! i \<le> ix ! j" if "i \<le> j" "j < length ix" for i j
    using that sorted_wrt_nth_less [OF sorted_ix, of i j] by (cases "i = j") auto
  have small: "snd x < length ix" if "x \<in> set ?raw" for x
    using that by (auto simp: target_points_def)
  have "map ?g (sort ?raw) = sort (map ?g ?raw)"
  proof (rule sort_map_mono [symmetric])
    fix x y assume "x \<in> set ?raw" "y \<in> set ?raw" "x \<le> y"
    with small [of x] small [of y] show "?g x \<le> ?g y"
      by (auto simp: less_eq_prod_def mono split: prod.splits)
  qed
  also have "map ?g ?raw = concat (map (\<lambda>j. target_points s (ix ! j) (ts ! (ix ! j))) [0..<length ix])"
    unfolding map_concat map_map
    by (intro arg_cong [of _ _ concat] map_cong) (auto simp: target_points_def at)
  also have "\<dots> = concat (map (\<lambda>i. target_points s i (ts ! i)) (map ((!) ix) [0..<length ix]))"
    by (simp add: o_def)
  also have "map ((!) ix) [0..<length ix] = ix" by (rule map_nth)
  also have "concat (map (\<lambda>i. target_points s i (ts ! i)) ix)
      = filter (\<lambda>(p, i). Q (ts ! i)) (concat (map (\<lambda>i. target_points s i (ts ! i)) [0..<length ts]))"
    unfolding ix_def by (rule filter_concat_tagged [symmetric]) (auto simp: target_points_def)
  finally show ?thesis by (simp add: ring_build_def len filter_sort)
qed

lemma ring_preference_filter:
  "map ((!) (filter Q ts)) (ring_preference h (filter Q ts) s) = filter Q (map ((!) ts) (ring_preference h ts s))"
proof -
  define ix where "ix = filter (\<lambda>i. Q (ts ! i)) [0..<length ts]"
  let ?o = "ring_preference h (filter Q ts) s"
  have len: "length (filter Q ts) = length ix" by (simp add: filter_as_nth [of Q ts] ix_def)
  have small: "set ?o = {..<length ix}" by (simp add: ring_preference_perm len)
  have "inj_on ((!) ix) {..<length ix}"
    by (auto simp: inj_on_def ix_def nth_eq_iff_index_eq)
  moreover have "snd ` set (points (ring_build 0 (filter Q ts) s)) = {..<length ix}"
    by (simp add: set_points_snd len)
  ultimately have "map ((!) ix) ?o
      = nub (map ((!) ix) (map snd (walked h (points (ring_build 0 (filter Q ts) s)))))"
    unfolding ring_preference_def by (subst nub_map) simp_all
  also have "map ((!) ix) (map snd (walked h (points (ring_build 0 (filter Q ts) s))))
      = map snd (walked h (map (\<lambda>(p, j). (p, ix ! j)) (points (ring_build 0 (filter Q ts) s))))"
    unfolding walked_map by (simp add: o_def case_prod_unfold)
  also have "\<dots> = map snd (filter (\<lambda>(p, i). Q (ts ! i)) (walked h (points (ring_build 0 ts s))))"
    unfolding ix_def points_filter walked_filter ..
  also have "\<dots> = filter (\<lambda>i. Q (ts ! i)) (map snd (walked h (points (ring_build 0 ts s))))"
    by (simp add: filter_map o_def case_prod_unfold)
  finally have key: "map ((!) ix) ?o = filter (\<lambda>i. Q (ts ! i)) (ring_preference h ts s)"
    by (simp add: nub_filter ring_preference_def)
  have "map ((!) (filter Q ts)) ?o = map ((!) ts) (map ((!) ix) ?o)"
    using small by (auto simp: filter_as_nth [of Q ts] ix_def)
  then show ?thesis unfolding key by (simp add: filter_map o_def)
qed

section \<open>The result\<close>

text \<open>Consistent hashing moves only the keys it must: for every tier, scale and key, the ring's
  preference order lists every target exactly once (no panic, nobody forgotten), and the order for the
  tier with some targets taken out is the order for the whole tier with those targets taken out.\<close>

theorem ring_order_is_stable:
  "\<exists>order order'.
     preference_order (ring_build fp ts s) h (length ts) = Some order \<and>
     distinct order \<and> set order = {0..<length ts} \<and>
     preference_order (ring_build fp' (filter Q ts) s) h (length (filter Q ts)) = Some order' \<and>
     map (\<lambda>i. filter Q ts ! i) order' = filter Q (map (\<lambda>i. ts ! i) order)"
  using ring_preference_perm [of h ts s] ring_preference_filter [of Q ts h s]
  by (auto simp: preference_order_build lessThan_atLeast0)

end
