(* ===== verification/Target_Order.thy ===== *)
theory Target_Order
  imports Rotation Ring
begin

text \<open>
  The order in which the targets of a request are tried: \<^verbatim>\<open>pick_targets\<close> partitions the eligible
  targets into priority tiers, orders each tier by the strategy and cuts the list at the fallback
  limit. The registry of rotations and rings that it reads and updates is sound for a set of tiers
  when no 64-bit fingerprint of two different tiers coincides; every pick keeps it sound.
\<close>

section \<open>Tiers\<close>

lemma remdups_adj_strict:
  "sorted_wrt (\<ge>) (xs :: int list) \<Longrightarrow> sorted_wrt (>) (remdups_adj xs)"
  by (induction xs rule: remdups_adj.induct) fastforce+

lemma sorted_rev_sort: "sorted_wrt (\<ge>) (rev (sort (xs :: int list)))"
  using sorted_sort [of xs] by (simp add: sorted_wrt_rev)

lemma mset_filters:
  "distinct ps \<Longrightarrow>
   mset (concat (map (\<lambda>p. filter (\<lambda>t. f t = p) ts) ps)) = filter_mset (\<lambda>t. f t \<in> set ps) (mset ts)"
proof (induction ps)
  case (Cons p ps)
  have "filter_mset (\<lambda>t. f t = p) M + filter_mset (\<lambda>t. f t \<in> set ps) M
      = filter_mset (\<lambda>t. f t \<in> set (p # ps)) M" for M
    using Cons.prems by (induction M) auto
  with Cons show ?case by simp
qed simp

definition tier_ok :: "routing_target list \<Rightarrow> bool" where
  "tier_ok tier \<longleftrightarrow> tier \<noteq> [] \<and> (\<forall>t \<in> set tier. priority_or_default t = priority_or_default (hd tier))"

lemma tier_ok_same: "tier_ok tier \<Longrightarrow> t \<in> set tier \<Longrightarrow> priority_or_default t = priority_or_default (hd tier)"
  unfolding tier_ok_def by blast

lemma tiers_of:
  fixes ts
  defines "tiers \<equiv> partition_by_priority ts"
  shows "mset (concat tiers) = mset ts"
    and "\<forall>tier \<in> set tiers. tier_ok tier"
    and "sorted_wrt (\<lambda>a b. priority_or_default (hd a) > priority_or_default (hd b)) tiers"
proof -
  define ps where "ps = remdups_adj (rev (sort (map priority_or_default ts)))"
  have strict: "sorted_wrt (>) ps" unfolding ps_def by (rule remdups_adj_strict [OF sorted_rev_sort])
  have tiers: "tiers = map (\<lambda>p. filter (\<lambda>t. priority_or_default t = p) ts) ps"
    by (simp add: tiers_def partition_by_priority_def ps_def)
  have set_ps: "set ps = priority_or_default ` set ts" by (simp add: ps_def)
  have "distinct ps" using strict by (induction ps) auto
  then have "mset (concat tiers) = filter_mset (\<lambda>t. priority_or_default t \<in> set ps) (mset ts)"
    unfolding tiers by (rule mset_filters)
  also have "\<dots> = mset ts" by (auto simp: set_ps filter_mset_eq_conv)
  finally show "mset (concat tiers) = mset ts" .
  have hd: "filter (\<lambda>t. priority_or_default t = p) ts \<noteq> [] \<and>
      priority_or_default (hd (filter (\<lambda>t. priority_or_default t = p) ts)) = p" if "p \<in> set ps" for p
  proof -
    have "filter (\<lambda>t. priority_or_default t = p) ts \<noteq> []"
      using that by (auto simp: set_ps filter_empty_conv)
    moreover from hd_in_set [OF this]
    have "priority_or_default (hd (filter (\<lambda>t. priority_or_default t = p) ts)) = p" by simp
    ultimately show ?thesis ..
  qed
  then show "\<forall>tier \<in> set tiers. tier_ok tier" by (auto simp: tiers tier_ok_def)
  show "sorted_wrt (\<lambda>a b. priority_or_default (hd a) > priority_or_default (hd b)) tiers"
    unfolding tiers sorted_wrt_map
    by (rule sorted_wrt_mono_rel [OF _ strict]) (simp add: hd)
qed

section \<open>Sound registries\<close>

definition tier_scale :: "routing \<Rightarrow> routing_target list \<Rightarrow> ring_scale" where
  "tier_scale r tier =
     ring_scale_of (filter (\<lambda>t. priority_or_default t = priority_or_default (hd tier)) (targets r))"

definition rotation_key :: "string \<Rightarrow> routing \<Rightarrow> routing_target list \<Rightarrow> pick" where
  "rotation_key v r tier = (v, priority_or_default (hd tier), tier_fingerprint (targets r), tier)"

definition tier_sound :: "routing_registry \<Rightarrow> string \<Rightarrow> routing \<Rightarrow> routing_target list \<Rightarrow> bool" where
  "tier_sound reg v r tier \<longleftrightarrow>
     (\<forall>c. rotation_of (wrr reg) (rotation_key v r tier) = Some c \<longrightarrow> length c = length tier) \<and>
     (\<forall>ring. rings reg (v, priority_or_default (hd tier)) = Some ring \<longrightarrow>
        ring_fingerprint ring = ring_fp tier (tier_scale r tier) \<longrightarrow>
        points ring = points (ring_build 0 tier (tier_scale r tier)))"

definition registry_sound :: "routing_registry \<Rightarrow> string \<Rightarrow> routing \<Rightarrow> routing_target list set \<Rightarrow> bool" where
  "registry_sound reg v r T \<longleftrightarrow> (\<forall>tier \<in> T. tier_sound reg v r tier)"

definition collision_free :: "routing \<Rightarrow> routing_target list set \<Rightarrow> bool" where
  "collision_free r T \<longleftrightarrow>
     (\<forall>a \<in> T. \<forall>b \<in> T. priority_or_default (hd a) = priority_or_default (hd b) \<longrightarrow>
        tier_fingerprint a = tier_fingerprint b \<or> ring_fp a (tier_scale r a) = ring_fp b (tier_scale r b) \<longrightarrow>
        a = b)"

lemma registry_new_sound: "registry_sound registry_new v r T"
  by (simp add: registry_sound_def tier_sound_def registry_new_def rotation_of_def rotation_key_def wrr_entry_def)

lemma compatible_rotation_keys:
  "collision_free r T \<Longrightarrow> a \<in> T \<Longrightarrow> b \<in> T \<Longrightarrow> compatible (rotation_key v r a) (rotation_key v r b)"
  by (auto simp: collision_free_def compatible_def rotation_key_def)

section \<open>One tier\<close>

lemma mset_rotate_id [simp]: "mset (rotate n xs) = mset xs"
  by (metis append_take_drop_id mset_append rotate_drop_take union_commute)

lemma attempt_order_rotate:
  "ts \<noteq> [] \<Longrightarrow> attempt_order ts start (length ts) = Some (map rt_model (rotate start ts))"
  by (auto simp: attempt_order_def nth_rotate intro!: nth_equalityI)

lemma mset_index_perm:
  assumes "distinct order" and "set order = {..<length xs}"
  shows "mset (map ((!) xs) order) = mset xs"
proof -
  have "mset order = mset [0..<length xs]"
    using assms set_eq_iff_mset_eq_distinct [of order "[0..<length xs]"] by (simp add: lessThan_atLeast0)
  then have "mset (map ((!) xs) order) = mset (map ((!) xs) [0..<length xs])" by simp
  then show ?thesis by (simp add: map_nth)
qed

lemma wrr_pick_sound:
  assumes sound: "registry_sound reg v r T" and free: "collision_free r T" and tier: "tier \<in> T" "tier \<noteq> []"
    and pick: "wrr_pick (wrr reg) v (priority_or_default (hd tier)) (tier_fingerprint (targets r)) tier = (w, b)"
  shows "registry_sound (reg\<lparr>wrr := w\<rparr>) v r T"
proof -
  have "tier_sound (reg\<lparr>wrr := w\<rparr>) v r a" if "a \<in> T" for a
  proof (cases "a = tier")
    case True
    let ?cur = "case rotation_of (wrr reg) (rotation_key v r tier) of Some c \<Rightarrow> c
                | None \<Rightarrow> replicate (length tier) 0"
    have cur: "length ?cur = length (tier_weights tier)"
      using sound tier by (auto simp: registry_sound_def tier_sound_def split: option.split)
    obtain c where c: "rotation_of w (rotation_key v r tier) = Some c"
      "wrr_advance (tier_weights tier) ?cur = (c, b)"
      using rotation_same [OF pick] by (auto simp: rotation_key_def)
    have "length c = length tier" using wrr_advance_spec(1) [OF cur _ c(2)] tier by simp
    with c(1) True sound tier show ?thesis by (simp add: registry_sound_def tier_sound_def)
  next
    case False
    then have "rotation_key v r a \<noteq> rotation_key v r tier" by (simp add: rotation_key_def)
    with compatible_rotation_keys [OF free that tier(1), of v] rotation_other [OF pick]
    have "rotation_of w (rotation_key v r a) = rotation_of (wrr reg) (rotation_key v r a)"
      by (simp add: rotation_key_def)
    with sound that show ?thesis by (simp add: registry_sound_def tier_sound_def)
  qed
  then show ?thesis by (simp add: registry_sound_def)
qed

lemma ring_for_sound:
  assumes sound: "registry_sound reg v r T" and free: "collision_free r T" and tier: "tier \<in> T"
    and get: "ring_for reg v (priority_or_default (hd tier)) tier (tier_scale r tier) = (reg', ring)"
  shows "points ring = points (ring_build 0 tier (tier_scale r tier)) \<and> registry_sound reg' v r T"
proof (cases "reg' = reg \<and> rings reg (v, priority_or_default (hd tier)) = Some ring \<and>
              ring_fingerprint ring = ring_fp tier (tier_scale r tier)")
  case True
  with sound tier show ?thesis by (simp add: registry_sound_def tier_sound_def)
next
  case False
  let ?built = "ring_build (ring_fp tier (tier_scale r tier)) tier (tier_scale r tier)"
  have new: "ring = ?built" "reg' = reg\<lparr>rings := (rings reg)((v, priority_or_default (hd tier)) \<mapsto> ?built)\<rparr>"
    using get False by (auto simp: ring_for_def Let_def split: option.splits if_splits)
  have fp: "ring_fingerprint ?built = ring_fp tier (tier_scale r tier)" by (simp add: ring_build_def)
  have "tier_sound reg' v r a" if a: "a \<in> T" for a
  proof (cases "priority_or_default (hd a) = priority_or_default (hd tier)")
    case True
    then have "ring_fp tier (tier_scale r tier) = ring_fp a (tier_scale r a) \<longrightarrow> a = tier"
      using free a tier unfolding collision_free_def by metis
    with True sound a show ?thesis
      by (auto simp: registry_sound_def tier_sound_def new fp points_fp [of "ring_fp _ _"])
  next
    case False
    with sound a show ?thesis by (simp add: registry_sound_def tier_sound_def new)
  qed
  then show ?thesis by (simp add: registry_sound_def new points_fp [of "ring_fp _ _"])
qed

lemma preference_order_points:
  "points ring = points ring' \<Longrightarrow> preference_order ring h n = preference_order ring' h n"
  by (simp add: preference_order_def)

lemma tier_order_sound:
  assumes sound: "registry_sound reg v r T" and free: "collision_free r T" and tier: "tier \<in> T" "tier_ok tier"
  shows "\<exists>reg' order. tier_order reg v r hash_key tier = Some (reg', map rt_model order) \<and>
           mset order = mset tier \<and> registry_sound reg' v r T"
proof -
  have ne: "tier \<noteq> []" using tier by (simp add: tier_ok_def)
  consider "strategy r = RoundRobin" | "strategy r = ConsistentHash"
    | "strategy r \<noteq> RoundRobin" "strategy r \<noteq> ConsistentHash" by blast
  then show ?thesis
  proof cases
    case 1
    obtain w b where pick: "wrr_pick (wrr reg) v (priority_or_default (hd tier))
        (tier_fingerprint (targets r)) tier = (w, b)" by fastforce
    have "tier_order reg v r hash_key tier = Some (reg\<lparr>wrr := w\<rparr>, map rt_model (rotate b tier))"
      using 1 pick ne by (simp add: tier_order_def attempt_order_rotate)
    moreover have "mset (rotate b tier) = mset tier" by simp
    ultimately show ?thesis using wrr_pick_sound [OF sound free tier(1) ne pick] by blast
  next
    case 2
    obtain reg' ring where get: "ring_for reg v (priority_or_default (hd tier)) tier (tier_scale r tier) = (reg', ring)"
      by fastforce
    note s = ring_for_sound [OF sound free tier(1) get]
    define order where "order = ring_preference (stable_hash hash_key) tier (tier_scale r tier)"
    have "preference_order ring (stable_hash hash_key) (length tier) = Some order"
      unfolding order_def using s preference_order_points [of ring "ring_build 0 tier (tier_scale r tier)"]
      by (simp add: preference_order_build)
    then have "tier_order reg v r hash_key tier = Some (reg', map rt_model (map ((!) tier) order))"
      using 2 get by (simp add: tier_order_def tier_scale_def)
    moreover have "mset (map ((!) tier) order) = mset tier"
      unfolding order_def by (rule mset_index_perm) (simp_all add: ring_preference_perm)
    ultimately show ?thesis using s by blast
  next
    case 3
    then have "tier_order reg v r hash_key tier = Some (reg, map rt_model tier)"
      by (cases "strategy r") (simp_all add: tier_order_def)
    with sound show ?thesis by blast
  qed
qed

section \<open>All tiers\<close>

lemma tiers_order_sound:
  assumes "registry_sound reg v r T" and free: "collision_free r T" and "set tiers \<subseteq> T"
    and "\<forall>tier \<in> set tiers. tier_ok tier"
    and "sorted_wrt (\<lambda>a b. priority_or_default (hd a) > priority_or_default (hd b)) tiers"
  shows "\<exists>reg' order. tiers_order reg v r hash_key tiers = Some (reg', map rt_model order) \<and>
           mset order = mset (concat tiers) \<and>
           sorted_wrt (\<lambda>s t. priority_or_default s \<ge> priority_or_default t) order \<and>
           registry_sound reg' v r T"
  using assms
proof (induction tiers arbitrary: reg)
  case (Cons tier tiers)
  from Cons.prems tier_order_sound [of reg v r T tier hash_key] obtain reg1 first where
    1: "tier_order reg v r hash_key tier = Some (reg1, map rt_model first)" "mset first = mset tier"
       "registry_sound reg1 v r T" by auto
  from Cons.IH [OF 1(3)] Cons.prems obtain reg2 rest where
    2: "tiers_order reg1 v r hash_key tiers = Some (reg2, map rt_model rest)"
       "mset rest = mset (concat tiers)" "registry_sound reg2 v r T"
       "sorted_wrt (\<lambda>s t. priority_or_default s \<ge> priority_or_default t) rest" by auto
  have sets: "set first = set tier" "set rest = set (concat tiers)"
    using 1(2) 2(2) by (metis set_mset_mset)+
  have same: "priority_or_default t = priority_or_default (hd tier)" if "t \<in> set first" for t
    by (rule tier_ok_same) (use Cons.prems(4) that sets in auto)
  have "sorted_wrt (\<lambda>s t. priority_or_default s \<ge> priority_or_default t) first"
  proof -
    have "sorted_wrt (\<lambda>s t. priority_or_default s \<ge> priority_or_default t) xs"
      if "\<forall>t \<in> set xs. priority_or_default t = p" for xs p
      using that by (induction xs) auto
    then show ?thesis using same by blast
  qed
  moreover have "priority_or_default t \<le> priority_or_default s" if "s \<in> set first" "t \<in> set rest" for s t
  proof -
    obtain a where a: "a \<in> set tiers" "t \<in> set a" using \<open>t \<in> set rest\<close> sets by auto
    have "priority_or_default t = priority_or_default (hd a)"
      by (rule tier_ok_same) (use Cons.prems(4) a in auto)
    moreover have "priority_or_default (hd a) < priority_or_default (hd tier)"
      using Cons.prems(5) a(1) by simp
    ultimately have "priority_or_default t < priority_or_default (hd tier)" by simp
    then show ?thesis using same [OF that(1)] by simp
  qed
  ultimately have "sorted_wrt (\<lambda>s t. priority_or_default s \<ge> priority_or_default t) (first @ rest)"
    using 2(4) by (simp add: sorted_wrt_append)
  moreover have "tiers_order reg v r hash_key (tier # tiers) = Some (reg2, map rt_model (first @ rest))"
    using 1(1) 2(1) by simp
  moreover have "mset (first @ rest) = mset (concat (tier # tiers))" using 1(2) 2(2) by simp
  ultimately show ?case using 2(3) by blast
qed simp

lemma pick_targets_perm:
  assumes "registry_sound reg v r T" and "collision_free r T" and "set (partition_by_priority ts) \<subseteq> T"
  shows "\<exists>reg' order. pick_targets reg v r ts hash_key = Some (reg', map rt_model order) \<and>
           registry_sound reg' v r T \<and>
           (if is_metric_based (strategy r) then order = ts
            else (\<exists>rest. mset (order @ rest) = mset ts \<and>
                    sorted_wrt (\<lambda>s t. priority_or_default s \<ge> priority_or_default t) (order @ rest)) \<and>
                 length order = min (max_fallbacks_or_default r + 1) (length ts))"
proof (cases "ts = [] \<or> is_metric_based (strategy r)")
  case True
  with assms(1) show ?thesis by (auto simp: pick_targets_def)
next
  case False
  let ?n = "max_fallbacks_or_default r + 1"
  obtain reg' order where o: "tiers_order reg v r hash_key (partition_by_priority ts) = Some (reg', map rt_model order)"
    "mset order = mset ts" "registry_sound reg' v r T"
    "sorted_wrt (\<lambda>s t. priority_or_default s \<ge> priority_or_default t) order"
    using tiers_order_sound [OF assms tiers_of(2,3)] tiers_of(1) by metis
  have "pick_targets reg v r ts hash_key = Some (reg', map rt_model (take ?n order))"
    using False o(1) by (simp add: pick_targets_def take_map)
  moreover have "length (take ?n order) = min ?n (length ts)" using o(2) by (metis length_take min.commute size_mset)
  moreover have "take ?n order @ drop ?n order = order" by simp
  ultimately show ?thesis using False o by (metis (no_types, lifting))
qed

section \<open>The result\<close>

text \<open>C35. On a sound registry (the empty one is, and every pick leaves it so) \<^verbatim>\<open>pick_targets\<close> does not
  panic and orders the eligible targets: the tried names are those of a permutation of the eligible
  targets in which no target comes after one of a lower priority, cut at one more than the fallback
  limit; for a metric-based strategy it is every eligible target in configuration order. The tiers it
  may meet are assumed free of 64-bit fingerprint collisions.\<close>

theorem pick_targets_orders_eligible:
  assumes "registry_sound reg v r T" and "collision_free r T" and "set (partition_by_priority ts) \<subseteq> T"
  shows "\<exists>reg' order. pick_targets reg v r ts hash_key = Some (reg', map rt_model order) \<and>
           registry_sound reg' v r T \<and>
           (if is_metric_based (strategy r) then order = ts
            else (\<exists>rest. mset (order @ rest) = mset ts \<and>
                    sorted_wrt (\<lambda>s t. priority_or_default s \<ge> priority_or_default t) (order @ rest)) \<and>
                 length order = min (max_fallbacks_or_default r + 1) (length ts))"
  by (rule pick_targets_perm [OF assms])

definition demo_targets :: "routing_target list" where
  "demo_targets = [target_new ''a'', with_priority (target_new ''b'') 5]"

definition demo_routing :: routing where
  "demo_routing =
     \<lparr>strategy = RoundRobin, targets = demo_targets, group_retries = None, max_fallbacks = None,
      retry_on_429 = None, fallback_on_statuses = None, when_all_unavailable = None, hash_on = None\<rparr>"

lemma demo_tiers:
  "partition_by_priority demo_targets = [[with_priority (target_new ''b'') 5], [target_new ''a'']]"
  by (simp add: partition_by_priority_def demo_targets_def priority_or_default_def with_priority_def
                target_new_def)

theorem pick_targets_orders_eligible_witness:
  "\<exists>reg' order. pick_targets registry_new ''m'' demo_routing demo_targets ''k'' = Some (reg', map rt_model order) \<and>
     length order = 2 \<and> (\<exists>rest. mset (order @ rest) = mset demo_targets)"
proof -
  have "collision_free demo_routing (set (partition_by_priority demo_targets))"
    by (simp add: demo_tiers collision_free_def priority_or_default_def with_priority_def target_new_def)
  moreover have "\<not> is_metric_based (strategy demo_routing)"
    "min (max_fallbacks_or_default demo_routing + 1) (length demo_targets) = 2"
    by (simp_all add: demo_routing_def max_fallbacks_or_default_def demo_targets_def sat_sub_def)
  ultimately show ?thesis
    using pick_targets_orders_eligible [OF registry_new_sound _ subset_refl, of demo_routing demo_targets "''m''" "''k''"]
    by (metis (no_types, lifting))
qed

end
