(* ===== verification/Snapshot.thy ===== *)
theory Snapshot
  imports Prelude
begin

text \<open>
  The configuration snapshot of \<^verbatim>\<open>crates/aisix-core/src/snapshot.rs\<close> and \<^verbatim>\<open>resource.rs\<close>: a table per
  kind of resource with an index by id, an index by name and an index of wildcard rows, and the handle
  that publishes snapshots to readers and listeners. The name of a resource (\<^verbatim>\<open>Resource::name\<close>) is an
  argument \<open>nm\<close>. The process-wide source of generation stamps is threaded through; it wraps at \<open>2 ^ 64\<close>.
\<close>

section \<open>Tables\<close>

record 'a resource_entry =
  re_id :: string
  re_value :: 'a
  re_revision :: int

record 'a resource_table =
  by_id :: "string \<rightharpoonup> 'a resource_entry"
  by_name :: "string \<rightharpoonup> string"
  wildcards :: "string \<rightharpoonup> 'a resource_entry"
  tbl_count :: nat
  generation :: nat

definition table_new :: "'a resource_table" where
  "table_new = \<lparr>by_id = Map.empty, by_name = Map.empty, wildcards = Map.empty, tbl_count = 0, generation = 0\<rparr>"

definition FIRST_GENERATION :: nat where
  "FIRST_GENERATION = 1"

text \<open>\<^verbatim>\<open>fetch_add\<close> on the counter: the stamp taken and the counter left.\<close>

definition bump_generation :: "nat \<Rightarrow> nat \<times> nat" where
  "bump_generation ctr = (ctr, (ctr + 1) mod (u64_max + 1))"

definition remove_if :: "('k \<rightharpoonup> 'v) \<Rightarrow> 'k \<Rightarrow> 'v \<Rightarrow> ('k \<rightharpoonup> 'v)" where
  "remove_if m k v = (if m k = Some v then m(k := None) else m)"

definition insert_arc ::
    "('a \<Rightarrow> string) \<Rightarrow> nat \<Rightarrow> 'a resource_table \<Rightarrow> 'a resource_entry \<Rightarrow> nat \<times> 'a resource_table" where
  "insert_arc nm ctr t e =
     (let i = re_id e; name = nm (re_value e);
          names = (case by_id t i of
                     Some old \<Rightarrow>
                       (let old_name = nm (re_value old)
                        in if old_name \<noteq> name then remove_if (by_name t) old_name i else by_name t)
                   | None \<Rightarrow> by_name t);
          wild = (if CHR ''*'' \<in> set name then (wildcards t)(i \<mapsto> e) else (wildcards t)(i := None));
          count1 = tbl_count t + 1;
          count2 = (if by_id t i \<noteq> None then count1 - 1 else count1);
          (stamp, ctr') = bump_generation ctr
      in (ctr', \<lparr>by_id = (by_id t)(i \<mapsto> e), by_name = names(name \<mapsto> i), wildcards = wild,
                 tbl_count = count2, generation = stamp\<rparr>))"

definition table_remove ::
    "('a \<Rightarrow> string) \<Rightarrow> nat \<Rightarrow> 'a resource_table \<Rightarrow> string \<Rightarrow>
     nat \<times> 'a resource_table \<times> 'a resource_entry option" where
  "table_remove nm ctr t i =
     (case by_id t i of
        None \<Rightarrow> (ctr, t, None)
      | Some e \<Rightarrow>
          (let (stamp, ctr') = bump_generation ctr
           in (ctr', \<lparr>by_id = (by_id t)(i := None),
                      by_name = remove_if (by_name t) (nm (re_value e)) i,
                      wildcards = (wildcards t)(i := None), tbl_count = tbl_count t - 1,
                      generation = stamp\<rparr>, Some e)))"

definition get_by_id :: "'a resource_table \<Rightarrow> string \<Rightarrow> 'a resource_entry option" where
  "get_by_id t i = by_id t i"

definition get_by_name :: "'a resource_table \<Rightarrow> string \<Rightarrow> 'a resource_entry option" where
  "get_by_name t n = Option.bind (by_name t n) (get_by_id t)"

definition name_conflicts :: "'a resource_table \<Rightarrow> string \<Rightarrow> string option \<Rightarrow> bool" where
  "name_conflicts t n self_id =
     (case by_name t n of
        Some existing \<Rightarrow> (case self_id of Some me \<Rightarrow> existing \<noteq> me | None \<Rightarrow> True)
      | None \<Rightarrow> False)"

text \<open>Iterating a sharded map yields its rows in an order of its own: an operation that walks the
  table takes the list of rows in the order it met them, an enumeration of the table.\<close>

definition enumerates :: "'a resource_table \<Rightarrow> 'a resource_entry list \<Rightarrow> bool" where
  "enumerates t es \<longleftrightarrow> distinct es \<and> set es = ran (by_id t)"

definition entries_of :: "'a resource_table \<Rightarrow> 'a resource_entry list \<Rightarrow> 'a resource_entry list" where
  "entries_of t es = (if tbl_count t = 0 then [] else es)"

definition matching_entries ::
    "'a resource_table \<Rightarrow> 'a resource_entry list \<Rightarrow> ('a resource_entry \<Rightarrow> bool) \<Rightarrow> 'a resource_entry list" where
  "matching_entries t es pred = (if tbl_count t = 0 then [] else filter pred es)"

definition table_any :: "'a resource_table \<Rightarrow> 'a resource_entry list \<Rightarrow> ('a resource_entry \<Rightarrow> bool) \<Rightarrow> bool" where
  "table_any t es pred \<longleftrightarrow> tbl_count t \<noteq> 0 \<and> list_ex pred es"

fun find_unique_loop ::
    "('a resource_entry \<Rightarrow> bool) \<Rightarrow> 'a resource_entry option \<Rightarrow> 'a resource_entry list \<Rightarrow>
     'a resource_entry option \<times> bool" where
  "find_unique_loop pred found [] = (found, False)"
| "find_unique_loop pred found (e # es) =
     (if \<not> pred e then find_unique_loop pred found es
      else if found \<noteq> None then (None, True)
      else find_unique_loop pred (Some e) es)"

definition find_unique_by ::
    "'a resource_table \<Rightarrow> 'a resource_entry list \<Rightarrow> ('a resource_entry \<Rightarrow> bool) \<Rightarrow>
     'a resource_entry option \<times> bool" where
  "find_unique_by t es pred = (if tbl_count t = 0 then (None, False) else find_unique_loop pred None es)"

text \<open>A clone holds the same rows under the same stamp; its count is taken from the map.\<close>

definition table_clone :: "'a resource_table \<Rightarrow> 'a resource_table" where
  "table_clone t = t\<lparr>tbl_count := card (dom (by_id t))\<rparr>"

section \<open>The indices agree\<close>

definition wild_rows :: "('a \<Rightarrow> string) \<Rightarrow> (string \<rightharpoonup> 'a resource_entry) \<Rightarrow> (string \<rightharpoonup> 'a resource_entry)" where
  "wild_rows nm rows i =
     (case rows i of Some e \<Rightarrow> if CHR ''*'' \<in> set (nm (re_value e)) then Some e else None | None \<Rightarrow> None)"

definition table_ok :: "('a \<Rightarrow> string) \<Rightarrow> 'a resource_table \<Rightarrow> bool" where
  "table_ok nm t \<longleftrightarrow>
     finite (dom (by_id t)) \<and> tbl_count t = card (dom (by_id t)) \<and>
     (\<forall>i e. by_id t i = Some e \<longrightarrow> re_id e = i) \<and>
     wildcards t = wild_rows nm (by_id t) \<and>
     (\<forall>n i. by_name t n = Some i \<longrightarrow> (\<exists>e. by_id t i = Some e \<and> nm (re_value e) = n))"

lemma table_ok_name:
  "table_ok nm t \<Longrightarrow> by_name t n = Some i \<Longrightarrow> \<exists>e. by_id t i = Some e \<and> nm (re_value e) = n"
  unfolding table_ok_def by blast

lemma table_new_ok: "table_ok nm table_new"
  by (auto simp: table_ok_def table_new_def wild_rows_def fun_eq_iff)

lemma insert_fields:
  assumes "insert_arc nm ctr t e = (ctr', t')"
  shows "by_id t' = (by_id t)(re_id e \<mapsto> e)"
    and "wildcards t' = (if CHR ''*'' \<in> set (nm (re_value e)) then (wildcards t)(re_id e \<mapsto> e)
                        else (wildcards t)(re_id e := None))"
    and "tbl_count t' = (if by_id t (re_id e) = None then tbl_count t + 1 else tbl_count t)"
    and "by_name t' n = (if n = nm (re_value e) then Some (re_id e)
           else if by_name t n = Some (re_id e) \<and>
                   (\<exists>old. by_id t (re_id e) = Some old \<and> nm (re_value old) = n) then None
           else by_name t n)"
    and "generation t' = ctr" and "ctr' = (ctr + 1) mod (u64_max + 1)"
  using assms
  by (auto simp: insert_arc_def Let_def bump_generation_def remove_if_def split: option.splits if_splits)

lemma insert_ok:
  assumes ok: "table_ok nm t" and ins: "insert_arc nm ctr t e = (ctr', t')"
  shows "table_ok nm t'"
proof -
  note f = insert_fields [OF ins]
  have "finite (dom (by_id t'))" using ok by (simp add: f(1) table_ok_def)
  moreover have "tbl_count t' = card (dom (by_id t'))"
    using ok by (auto simp: f(1,3) table_ok_def card_insert_if domIff insert_absorb)
  moreover have "wildcards t' = wild_rows nm (by_id t')"
    using ok by (auto simp: f(1,2) table_ok_def wild_rows_def fun_eq_iff)
  moreover have "\<exists>r. by_id t' i = Some r \<and> nm (re_value r) = n" if "by_name t' n = Some i" for n i
  proof (cases "n = nm (re_value e)")
    case True
    with that show ?thesis by (simp add: f(1,4))
  next
    case False
    with that have b: "by_name t n = Some i" and keep: "\<not> (by_name t n = Some (re_id e) \<and>
        (\<exists>old. by_id t (re_id e) = Some old \<and> nm (re_value old) = n))"
      by (auto simp: f(4) split: if_splits)
    from table_ok_name [OF ok b] obtain r where r: "by_id t i = Some r" "nm (re_value r) = n" by blast
    with keep b have "i \<noteq> re_id e" by auto
    with r show ?thesis by (simp add: f(1))
  qed
  ultimately show ?thesis using ok by (simp add: table_ok_def f(1))
qed

lemma remove_ok:
  assumes ok: "table_ok nm t" and rem: "table_remove nm ctr t i = (ctr', t', r)"
  shows "table_ok nm t'"
proof (cases "by_id t i")
  case None
  with rem ok show ?thesis by (simp add: table_remove_def)
next
  case (Some e)
  have t': "by_id t' = (by_id t)(i := None)" "by_name t' = remove_if (by_name t) (nm (re_value e)) i"
    "wildcards t' = (wildcards t)(i := None)" "tbl_count t' = tbl_count t - 1"
    using rem Some by (auto simp: table_remove_def bump_generation_def)
  have "tbl_count t' = card (dom (by_id t'))"
    using ok Some by (auto simp: t' table_ok_def card_Diff_singleton domIff)
  moreover have "wildcards t' = wild_rows nm (by_id t')"
    using ok by (auto simp: t' table_ok_def wild_rows_def fun_eq_iff)
  moreover have "\<exists>r. by_id t' j = Some r \<and> nm (re_value r) = n" if "by_name t' n = Some j" for n j
  proof -
    from that have b: "by_name t n = Some j" by (auto simp: t' remove_if_def split: if_splits)
    from table_ok_name [OF ok this] obtain r where r: "by_id t j = Some r" "nm (re_value r) = n" by blast
    have "j \<noteq> i"
    proof
      assume "j = i"
      with r Some have "n = nm (re_value e)" by simp
      with that b \<open>j = i\<close> show False by (simp add: t' remove_if_def)
    qed
    with r show ?thesis by (simp add: t')
  qed
  ultimately show ?thesis using ok by (auto simp: t' table_ok_def)
qed

text \<open>A scan sees every row once.\<close>

lemma enumerates_scan:
  assumes "table_ok nm t" and "enumerates t es"
  shows "entries_of t es = es"
proof (cases "tbl_count t = 0")
  case True
  with assms have "finite (dom (by_id t))" "card (dom (by_id t)) = 0" by (auto simp: table_ok_def)
  then have "dom (by_id t) = {}" by auto
  then have "ran (by_id t) = {}" by (auto simp: ran_def dom_def)
  with assms(2) show ?thesis by (simp add: entries_of_def enumerates_def)
qed (simp add: entries_of_def)

lemma enumerates_ids:
  assumes "table_ok nm t" and "enumerates t es" and "a \<in> set es" and "b \<in> set es" and "re_id a = re_id b"
  shows "a = b"
proof -
  have row: "by_id t (re_id x) = Some x" if "x \<in> set es" for x
  proof -
    from that assms(2) obtain i where i: "by_id t i = Some x" by (auto simp: enumerates_def ran_def)
    with assms(1) have "re_id x = i" unfolding table_ok_def by blast
    with i show ?thesis by simp
  qed
  have "Some a = Some b"
    unfolding row [OF assms(3), symmetric] row [OF assms(4), symmetric] assms(5) ..
  then show ?thesis by simp
qed

section \<open>Runs of a table\<close>

datatype 'a table_op = Insert "'a resource_entry" | Remove string

fun table_step :: "('a \<Rightarrow> string) \<Rightarrow> nat \<times> 'a resource_table \<Rightarrow> 'a table_op \<Rightarrow> nat \<times> 'a resource_table" where
  "table_step nm (ctr, t) (Insert e) = insert_arc nm ctr t e"
| "table_step nm (ctr, t) (Remove i) = (case table_remove nm ctr t i of (ctr', t', _) \<Rightarrow> (ctr', t'))"

definition table_run :: "('a \<Rightarrow> string) \<Rightarrow> nat \<Rightarrow> 'a table_op list \<Rightarrow> nat \<times> 'a resource_table" where
  "table_run nm ctr ops = foldl (table_step nm) (ctr, table_new) ops"

lemma table_run_snoc: "table_run nm ctr (ops @ [op]) = table_step nm (table_run nm ctr ops) op"
  by (simp add: table_run_def)

lemma table_step_ok: "table_ok nm (snd s) \<Longrightarrow> table_ok nm (snd (table_step nm s op))"
  by (cases s; cases op) (auto split: prod.splits intro: insert_ok [OF _ surjective_pairing] remove_ok)

lemma table_run_ok: "table_ok nm (snd (table_run nm ctr ops))"
  by (induction ops rule: rev_induct)
    (simp_all add: table_run_snoc table_step_ok, simp add: table_run_def table_new_ok)

text \<open>What the operations promise about ids: the rows are those of the last write of each id.\<close>

fun rows_step :: "(string \<rightharpoonup> 'a resource_entry) \<Rightarrow> 'a table_op \<Rightarrow> (string \<rightharpoonup> 'a resource_entry)" where
  "rows_step rows (Insert e) = rows(re_id e \<mapsto> e)"
| "rows_step rows (Remove i) = rows(i := None)"

definition rows_of :: "'a table_op list \<Rightarrow> (string \<rightharpoonup> 'a resource_entry)" where
  "rows_of ops = foldl rows_step Map.empty ops"

lemma table_step_rows: "by_id (snd (table_step nm s op)) = rows_step (by_id (snd s)) op"
  by (cases s; cases op)
    (auto simp: table_remove_def insert_fields(1) [OF surjective_pairing] bump_generation_def fun_eq_iff
          split: prod.splits option.splits)

lemma table_run_rows: "by_id (snd (table_run nm ctr ops)) = rows_of ops"
proof (induction ops rule: rev_induct)
  case Nil
  then show ?case by (simp add: table_run_def table_new_def rows_of_def)
next
  case (snoc op ops)
  then show ?case by (simp add: table_run_snoc table_step_rows rows_of_def)
qed

text \<open>A write is conflict-free when no other row holds its name, the condition \<^verbatim>\<open>name_conflicts\<close> tests.\<close>

fun conflict_free :: "('a \<Rightarrow> string) \<Rightarrow> 'a resource_table \<Rightarrow> 'a table_op \<Rightarrow> bool" where
  "conflict_free nm t (Insert e) = (\<not> name_conflicts t (nm (re_value e)) (Some (re_id e)))"
| "conflict_free nm t (Remove i) = True"

definition names_complete :: "('a \<Rightarrow> string) \<Rightarrow> 'a resource_table \<Rightarrow> bool" where
  "names_complete nm t \<longleftrightarrow> (\<forall>i e. by_id t i = Some e \<longrightarrow> by_name t (nm (re_value e)) = Some i)"

lemma step_complete:
  assumes ok: "table_ok nm (snd s)" and c: "names_complete nm (snd s)" and free: "conflict_free nm (snd s) op"
  shows "names_complete nm (snd (table_step nm s op))"
proof (cases op)
  case (Insert e)
  obtain ctr t where s: "s = (ctr, t)" by (cases s)
  obtain ctr' t' where ins: "insert_arc nm ctr t e = (ctr', t')" by fastforce
  note f = insert_fields [OF ins]
  have "by_name t' (nm (re_value r)) = Some i" if "by_id t' i = Some r" for i r
  proof (cases "i = re_id e")
    case True
    with that show ?thesis by (simp add: f(1,4))
  next
    case False
    with that c s have b: "by_name t (nm (re_value r)) = Some i" by (simp add: f(1) names_complete_def)
    then have "nm (re_value r) \<noteq> nm (re_value e)"
      using free False Insert s by (auto simp: name_conflicts_def)
    with b False show ?thesis by (simp add: f(4))
  qed
  with Insert s ins show ?thesis by (simp add: names_complete_def)
next
  case (Remove i)
  obtain ctr t where s: "s = (ctr, t)" by (cases s)
  show ?thesis
  proof (cases "by_id t i")
    case None
    with Remove s c show ?thesis by (simp add: table_remove_def)
  next
    case (Some e)
    let ?t = "snd (table_step nm s op)"
    have t': "by_id ?t = (by_id t)(i := None)" "by_name ?t = remove_if (by_name t) (nm (re_value e)) i"
      using Some Remove s by (simp_all add: table_remove_def bump_generation_def)
    have "by_name ?t (nm (re_value r)) = Some j" if "by_id ?t j = Some r" for j r
    proof -
      from that have "j \<noteq> i" "by_id t j = Some r" by (auto simp: t' split: if_splits)
      moreover from this c s have "by_name t (nm (re_value r)) = Some j" by (simp add: names_complete_def)
      ultimately show ?thesis by (auto simp: t' remove_if_def)
    qed
    then show ?thesis by (simp add: names_complete_def)
  qed
qed

section \<open>Publication\<close>

text \<open>The handle. Writers hold the publication lock for the whole of an operation, so operations of
  writers are steps one after the other; what a reader or a listener may see between the parts of a
  publication is the trace of its events.\<close>

record 's snapshot_view =
  sv_version :: nat
  sv_snapshot :: 's

datatype 's publish_event =
    BeforeCallback nat "'s snapshot_view"
  | Swapped "'s snapshot_view"
  | WatchSent nat
  | AfterCallback nat "'s snapshot_view"

record 's snapshot_handle =
  published :: "'s snapshot_view"
  before_publish :: nat
  callbacks :: nat
  trace :: "'s publish_event list"

definition handle_new :: "'s \<Rightarrow> 's snapshot_handle" where
  "handle_new initial =
     (let v = \<lparr>sv_version = 0, sv_snapshot = initial\<rparr>
      in \<lparr>published = v, before_publish = 0, callbacks = 0, trace = [Swapped v]\<rparr>)"

definition load_versioned :: "'s snapshot_handle \<Rightarrow> 's snapshot_view" where
  "load_versioned h = published h"

definition subscribe_after_publish :: "'s snapshot_handle \<Rightarrow> 's snapshot_handle" where
  "subscribe_after_publish h =
     h\<lparr>callbacks := callbacks h + 1, trace := trace h @ [AfterCallback (callbacks h) (load_versioned h)]\<rparr>"

definition subscribe_before_publish :: "'s snapshot_handle \<Rightarrow> 's snapshot_handle" where
  "subscribe_before_publish h =
     h\<lparr>before_publish := before_publish h + 1,
       trace := trace h @ [BeforeCallback (before_publish h) (load_versioned h)]\<rparr>"

definition publish :: "'s snapshot_handle \<Rightarrow> 's \<Rightarrow> 's snapshot_handle" where
  "publish h s =
     (let v = \<lparr>sv_version = (sv_version (published h) + 1) mod (u64_max + 1), sv_snapshot = s\<rparr>
      in h\<lparr>published := v,
           trace := trace h @ map (\<lambda>i. BeforeCallback i v) [0..<before_publish h] @
                    [Swapped v, WatchSent (sv_version v)] @
                    map (\<lambda>i. AfterCallback i v) [0..<callbacks h]\<rparr>)"

definition store_snapshot :: "'s snapshot_handle \<Rightarrow> 's \<Rightarrow> 's snapshot_handle" where
  "store_snapshot h s = publish h s"

definition rcu :: "'s snapshot_handle \<Rightarrow> ('s \<Rightarrow> 's) \<Rightarrow> 's snapshot_handle" where
  "rcu h f = publish h (f (sv_snapshot (published h)))"

inductive handle_reach :: "'s snapshot_handle \<Rightarrow> bool" where
  start: "handle_reach (handle_new s)"
| after: "handle_reach h \<Longrightarrow> handle_reach (subscribe_after_publish h)"
| before: "handle_reach h \<Longrightarrow> handle_reach (subscribe_before_publish h)"
| store: "handle_reach h \<Longrightarrow> handle_reach (store_snapshot h s)"
| rcu: "handle_reach h \<Longrightarrow> handle_reach (rcu h f)"

text \<open>What a reader sees at a point of the trace, and whether a listener is registered there.\<close>

fun visible_after :: "'s publish_event list \<Rightarrow> 's snapshot_view option" where
  "visible_after [] = None"
| "visible_after (e # es) =
     (case visible_after es of Some v \<Rightarrow> Some v | None \<Rightarrow> (case e of Swapped v \<Rightarrow> Some v | _ \<Rightarrow> None))"

lemma visible_append:
  "visible_after (xs @ ys) = (case visible_after ys of Some v \<Rightarrow> Some v | None \<Rightarrow> visible_after xs)"
  by (induction xs) (auto split: option.splits)

lemma visible_map_callback [simp]:
  "visible_after (map (\<lambda>i. BeforeCallback i v) is) = None"
  "visible_after (map (\<lambda>i. AfterCallback i v) is) = None"
  by (induction "is") auto

text \<open>A before-listener that has been called at all has been called with the view a reader sees.\<close>

definition barrier_at :: "'s publish_event list \<Rightarrow> bool" where
  "barrier_at es \<longleftrightarrow>
     (\<forall>i v. visible_after es = Some v \<longrightarrow> (\<exists>u. BeforeCallback i u \<in> set es) \<longrightarrow> BeforeCallback i v \<in> set es)"

definition safe :: "'s publish_event list \<Rightarrow> bool" where
  "safe es \<longleftrightarrow> (\<forall>n. barrier_at (take n es))"

lemma safe_snoc: "safe es \<Longrightarrow> barrier_at (es @ [e]) \<Longrightarrow> safe (es @ [e])"
  unfolding safe_def by (metis append.right_neutral append_take_drop_id butlast_snoc linorder_le_less_linear
      length_append_singleton less_Suc_eq_le take_all take_butlast)

lemma safe_all: "safe es \<Longrightarrow> barrier_at es"
  unfolding safe_def by (metis take_all order_refl)

lemma safe_quiet:
  assumes "safe es"
    and "\<forall>e \<in> set ns. (\<exists>n. e = WatchSent n) \<or> (\<exists>i v. e = AfterCallback i v) \<or>
           (\<exists>i v u. e = BeforeCallback i v \<and> BeforeCallback i u \<in> set es)"
  shows "safe (es @ ns)"
  using assms
proof (induction ns rule: rev_induct)
  case (snoc e ns)
  have s: "safe (es @ ns)" using snoc by simp
  from snoc.prems have "(\<exists>n. e = WatchSent n) \<or> (\<exists>i v. e = AfterCallback i v) \<or>
           (\<exists>i v u. e = BeforeCallback i v \<and> BeforeCallback i u \<in> set es)" by simp
  then have "visible_after [e] = None"
    "\<forall>i. (\<exists>u. BeforeCallback i u \<in> set (es @ ns @ [e])) \<longrightarrow> (\<exists>u. BeforeCallback i u \<in> set (es @ ns))"
    by auto
  with safe_all [OF s] have "barrier_at ((es @ ns) @ [e])"
    unfolding barrier_at_def visible_append by auto
  from safe_snoc [OF s this] show ?case by simp
qed simp

definition handle_inv :: "'s snapshot_handle \<Rightarrow> bool" where
  "handle_inv h \<longleftrightarrow>
     visible_after (trace h) = Some (published h) \<and>
     (\<forall>i. (\<exists>u. BeforeCallback i u \<in> set (trace h)) \<longleftrightarrow> i < before_publish h) \<and> safe (trace h)"

lemma publish_inv:
  assumes "handle_inv h"
  shows "handle_inv (publish h s)"
proof -
  define v where "v = \<lparr>sv_version = (sv_version (published h) + 1) mod (u64_max + 1), sv_snapshot = s\<rparr>"
  let ?b = "map (\<lambda>i. BeforeCallback i v) [0..<before_publish h]"
  let ?tail = "[WatchSent (sv_version v)] @ map (\<lambda>i. AfterCallback i v) [0..<callbacks h]"
  have tr: "trace (publish h s) = ((trace h @ ?b) @ [Swapped v]) @ ?tail"
    by (simp add: publish_def Let_def v_def)
  have reg: "(\<exists>u. BeforeCallback i u \<in> set (trace h)) \<longleftrightarrow> i < before_publish h" for i
    using assms by (simp add: handle_inv_def)
  have s1: "safe (trace h @ ?b)"
    by (rule safe_quiet) (use assms reg in \<open>auto simp: handle_inv_def\<close>)
  have s2: "safe ((trace h @ ?b) @ [Swapped v])"
  proof (rule safe_snoc [OF s1])
    have vis: "visible_after ((trace h @ ?b) @ [Swapped v]) = Some v" by (simp add: visible_append)
    show "barrier_at ((trace h @ ?b) @ [Swapped v])"
      unfolding barrier_at_def vis
    proof (intro allI impI)
      fix i w
      assume "Some v = Some w" and "\<exists>u. BeforeCallback i u \<in> set ((trace h @ ?b) @ [Swapped v])"
      then have "w = v" and "i < before_publish h" using reg [of i] by auto
      then show "BeforeCallback i w \<in> set ((trace h @ ?b) @ [Swapped v])" by simp
    qed
  qed
  have "safe (trace (publish h s))"
    unfolding tr by (rule safe_quiet [OF s2]) auto
  moreover have "visible_after (trace (publish h s)) = Some (published (publish h s))"
    unfolding tr visible_append by (simp add: publish_def Let_def v_def)
  moreover have "(\<exists>u. BeforeCallback i u \<in> set (trace (publish h s))) \<longleftrightarrow> i < before_publish h" for i
    unfolding tr using reg [of i] by auto
  ultimately show ?thesis by (simp add: handle_inv_def publish_def Let_def)
qed

lemma handle_reach_inv: "handle_reach h \<Longrightarrow> handle_inv h"
proof (induction rule: handle_reach.induct)
  case (start s)
  have "barrier_at (take n [Swapped v])" for n and v :: "'a snapshot_view"
    by (cases n) (auto simp: barrier_at_def)
  then show ?case by (simp add: handle_inv_def handle_new_def Let_def safe_def)
next
  case (after h)
  then have "safe (trace h @ [AfterCallback (callbacks h) (published h)])"
    by (intro safe_quiet) (auto simp: handle_inv_def)
  with after show ?case
    by (auto simp: handle_inv_def subscribe_after_publish_def load_versioned_def visible_append)
next
  case (before h)
  have vis: "visible_after (trace h @ [BeforeCallback (before_publish h) (published h)]) = Some (published h)"
    using before by (simp add: handle_inv_def visible_append)
  have "barrier_at (trace h @ [BeforeCallback (before_publish h) (published h)])"
    using before safe_all [of "trace h"] vis
    unfolding barrier_at_def handle_inv_def by auto
  then have "safe (trace h @ [BeforeCallback (before_publish h) (published h)])"
    using before by (intro safe_snoc) (auto simp: handle_inv_def)
  with before vis show ?case
    by (auto simp: handle_inv_def subscribe_before_publish_def load_versioned_def less_Suc_eq)
next
  case (store h s)
  then show ?case by (simp add: store_snapshot_def publish_inv)
next
  case (rcu h f)
  then show ?case by (simp add: rcu_def publish_inv)
qed

section \<open>Main results\<close>

text \<open>C31. The three indices of a table never drift apart: after any sequence of writes and removals the
  rows are those of the last write of each id, the cached length is their number, the wildcard index
  holds exactly the rows whose name has a star, and a name resolves only to a live row of that name.\<close>

theorem table_indices_agree:
  "let t = snd (table_run nm ctr ops) in
     get_by_id t = rows_of ops \<and> tbl_count t = card (dom (rows_of ops)) \<and>
     wildcards t = wild_rows nm (rows_of ops) \<and>
     (\<forall>n e. get_by_name t n = Some e \<longrightarrow> rows_of ops (re_id e) = Some e \<and> nm (re_value e) = n)"
proof -
  define t where "t = snd (table_run nm ctr ops)"
  have ok: "table_ok nm t" unfolding t_def by (rule table_run_ok)
  have rows: "by_id t = rows_of ops" unfolding t_def by (rule table_run_rows)
  have "rows_of ops (re_id e) = Some e \<and> nm (re_value e) = n" if "get_by_name t n = Some e" for n e
  proof -
    from that obtain i where i: "by_name t n = Some i" "by_id t i = Some e"
      by (cases "by_name t n") (auto simp: get_by_name_def get_by_id_def)
    with table_ok_name [OF ok i(1)] ok show ?thesis by (auto simp: table_ok_def rows)
  qed
  with ok show ?thesis
    by (auto simp: Let_def t_def [symmetric] table_ok_def rows get_by_id_def fun_eq_iff)
qed

definition demo_entry :: "string \<Rightarrow> string \<Rightarrow> string resource_entry" where
  "demo_entry i n = \<lparr>re_id = i, re_value = n, re_revision = 1\<rparr>"

theorem table_indices_agree_witness:
  "tbl_count (snd (table_run id 1 [Insert (demo_entry ''a'' ''x''), Insert (demo_entry ''a'' ''y'')])) = 1 \<and>
   get_by_name (snd (table_run id 1 [Insert (demo_entry ''a'' ''x''), Insert (demo_entry ''a'' ''y'')])) ''x'' = None"
proof -
  let ?t = "snd (table_run id 1 [Insert (demo_entry ''a'' ''x''), Insert (demo_entry ''a'' ''y'')])"
  have rows: "rows_of [Insert (demo_entry ''a'' ''x''), Insert (demo_entry ''a'' ''y'')]
      = [''a'' \<mapsto> demo_entry ''a'' ''y'']"
    by (simp add: rows_of_def demo_entry_def)
  note t = table_indices_agree [of id 1 "[Insert (demo_entry ''a'' ''x''), Insert (demo_entry ''a'' ''y'')]",
      unfolded Let_def rows]
  have "get_by_name ?t ''x'' = None"
  proof (cases "get_by_name ?t ''x''")
    case (Some e)
    with t have "[''a'' \<mapsto> demo_entry ''a'' ''y''] (re_id e) = Some e" "id (re_value e) = ''x''" by blast+
    then show ?thesis by (auto simp: demo_entry_def split: if_splits)
  qed simp
  with t show ?thesis by simp
qed

text \<open>Where no write takes a name another row holds, lookup by name is complete: it finds every row
  of the table under its name, through renames and removals.\<close>

theorem names_resolve_without_conflicts:
  assumes "\<forall>k < length ops. conflict_free nm (snd (table_run nm ctr (take k ops))) (ops ! k)"
  shows "get_by_name (snd (table_run nm ctr ops)) n = Some e \<longleftrightarrow>
           rows_of ops (re_id e) = Some e \<and> nm (re_value e) = n"
proof -
  have c: "names_complete nm (snd (table_run nm ctr ops))"
    using assms
  proof (induction ops rule: rev_induct)
    case Nil
    then show ?case by (simp add: names_complete_def table_run_def table_new_def)
  next
    case (snoc op ops)
    have "\<forall>k < length ops. conflict_free nm (snd (table_run nm ctr (take k ops))) (ops ! k)"
    proof (intro allI impI)
      fix k assume k: "k < length ops"
      with snoc.prems [rule_format, of k]
      show "conflict_free nm (snd (table_run nm ctr (take k ops))) (ops ! k)"
        by (simp add: nth_append)
    qed
    moreover have "conflict_free nm (snd (table_run nm ctr ops)) op"
      using snoc.prems [rule_format, of "length ops"] by simp
    ultimately show ?case
      unfolding table_run_snoc using snoc.IH by (intro step_complete table_run_ok) auto
  qed
  have rows: "by_id (snd (table_run nm ctr ops)) = rows_of ops" by (rule table_run_rows)
  show ?thesis
  proof
    assume "get_by_name (snd (table_run nm ctr ops)) n = Some e"
    then obtain i where i: "by_name (snd (table_run nm ctr ops)) n = Some i" "rows_of ops i = Some e"
      by (cases "by_name (snd (table_run nm ctr ops)) n") (auto simp: get_by_name_def get_by_id_def rows)
    with table_ok_name [OF table_run_ok i(1)] table_run_ok [of nm ctr ops]
    show "rows_of ops (re_id e) = Some e \<and> nm (re_value e) = n"
      by (auto simp: table_ok_def rows)
  next
    assume "rows_of ops (re_id e) = Some e \<and> nm (re_value e) = n"
    with c show "get_by_name (snd (table_run nm ctr ops)) n = Some e"
      by (auto simp: names_complete_def get_by_name_def get_by_id_def rows)
  qed
qed

theorem names_resolve_without_conflicts_witness:
  "get_by_name (snd (table_run id 1 [Insert (demo_entry ''a'' ''x'')])) ''x'' = Some (demo_entry ''a'' ''x'')"
  using names_resolve_without_conflicts [of "[Insert (demo_entry ''a'' ''x'')]" id 1 "''x''" "demo_entry ''a'' ''x''"]
  by (simp add: table_run_def table_new_def name_conflicts_def rows_of_def demo_entry_def)

text \<open>Once two rows have shared a name, removing the later one leaves the earlier one unreachable by
  name although it is still in the table: the name index forgot it when it was overwritten.\<close>

theorem removed_duplicate_hides_row:
  assumes "re_id a \<noteq> re_id b" and "nm (re_value a) = nm (re_value b)"
  shows "let t = snd (table_run nm ctr [Insert a, Insert b, Remove (re_id b)]) in
           get_by_id t (re_id a) = Some a \<and> get_by_name t (nm (re_value a)) = None"
  using assms
  by (simp add: table_run_def table_new_def insert_arc_def table_remove_def bump_generation_def
                remove_if_def get_by_id_def get_by_name_def Let_def)

theorem removed_duplicate_hides_row_witness:
  "get_by_name (snd (table_run id 1 [Insert (demo_entry ''a'' ''x''), Insert (demo_entry ''b'' ''x''), Remove ''b'']))
     ''x'' = None"
  using removed_duplicate_hides_row [of "demo_entry ''a'' ''x''" "demo_entry ''b'' ''x''" id 1]
  by (simp add: Let_def demo_entry_def)

text \<open>C32. A publication barrier holds at every moment: whatever point of whatever history of stores,
  read-copy-updates and subscriptions a reader loads the snapshot at, every before-publish listener that
  was ever called has already been called with exactly the view the reader sees.\<close>

theorem publication_barrier:
  assumes "handle_reach h" and "visible_after (take n (trace h)) = Some v"
    and "BeforeCallback i u \<in> set (take n (trace h))"
  shows "BeforeCallback i v \<in> set (take n (trace h))"
  using handle_reach_inv [OF assms(1)] assms(2,3) unfolding handle_inv_def safe_def barrier_at_def by blast

theorem publication_barrier_witness:
  "BeforeCallback 0 \<lparr>sv_version = 1, sv_snapshot = ''b''\<rparr>
     \<in> set (take 4 (trace (store_snapshot (subscribe_before_publish (handle_new ''a'')) ''b'')))"
proof -
  let ?h = "store_snapshot (subscribe_before_publish (handle_new ''a'')) ''b''"
  have "handle_reach ?h" by (intro handle_reach.intros)
  moreover have "visible_after (take 4 (trace ?h)) = Some \<lparr>sv_version = 1, sv_snapshot = ''b''\<rparr>"
    "BeforeCallback 0 \<lparr>sv_version = 0, sv_snapshot = ''a''\<rparr> \<in> set (take 4 (trace ?h))"
    by (simp_all add: store_snapshot_def publish_def subscribe_before_publish_def handle_new_def
                      load_versioned_def Let_def u64_max_def)
  ultimately show ?thesis by (rule publication_barrier)
qed

end
