(* ===== verification/Policy_Conditions.thy ===== *)
theory Policy_Conditions
  imports Prelude
begin

text \<open>
  The condition vocabulary of rate-limit policies, \<^verbatim>\<open>crates/aisix-core/src/models/policy_conditions.rs\<close>,
  and the tag rules of \<^verbatim>\<open>models/tags.rs\<close> it reads: dimensions, operators, the condition tree with its
  validation, and its evaluation against a request. Regular expressions and the reading of a floating-point
  number belong to libraries: they are the record \<open>cond_lib\<close>. A message of the validation is a value of
  \<open>condition_error\<close> with the parts the text is made of.
\<close>

section \<open>Tags\<close>

definition MAX_TAG_KEY_LEN :: nat where "MAX_TAG_KEY_LEN = 63"

definition tag_key_char :: "char \<Rightarrow> bool" where
  "tag_key_char c \<longleftrightarrow> ascii_lower_letter c \<or> ascii_digit c \<or> c = CHR ''_''"

definition is_valid_tag_key :: "string \<Rightarrow> bool" where
  "is_valid_tag_key key \<longleftrightarrow>
     (case key of
        [] \<Rightarrow> False
      | c # cs \<Rightarrow> ascii_lower_letter c \<and> length key \<le> MAX_TAG_KEY_LEN \<and> list_all tag_key_char cs)"

type_synonym tags = "(string \<times> string) list"

text \<open>\<^verbatim>\<open>BTreeMap::insert\<close> and the layered fold; a set of tags is a list of its pairs with distinct keys.\<close>

definition insert_all :: "tags \<Rightarrow> (string \<rightharpoonup> string) \<Rightarrow> (string \<rightharpoonup> string)" where
  "insert_all layer out = foldl (\<lambda>m (k, v). m(k \<mapsto> v)) out layer"

definition effective_tags :: "tags \<Rightarrow> tags option \<Rightarrow> tags option \<Rightarrow> (string \<rightharpoonup> string)" where
  "effective_tags key team user =
     foldl (\<lambda>out layer. case layer of Some l \<Rightarrow> insert_all l out | None \<Rightarrow> out) Map.empty
       [user, team, Some key]"

lemma insert_all_lookup:
  assumes "distinct (map fst layer)"
  shows "insert_all layer out k = (case map_of layer k of Some v \<Rightarrow> Some v | None \<Rightarrow> out k)"
  using assms
proof (induction layer arbitrary: out)
  case (Cons p layer)
  obtain k' v where p: "p = (k', v)" by fastforce
  from Cons.prems have "k' \<notin> fst ` set layer" by (simp add: p)
  then have "map_of layer k' = None" by (simp add: map_of_eq_None_iff)
  with Cons show ?case by (auto simp: insert_all_def p split: option.splits)
qed (simp add: insert_all_def)

section \<open>Dimensions\<close>

datatype policy_dimension =
  DimTeam | DimMember | DimApiKey | DimModel | DimModelName | DimProvider | DimTag string

definition TAG_PREFIX :: string where "TAG_PREFIX = ''tag:''"

definition parse_tag_dimension :: "string \<Rightarrow> string option" where
  "parse_tag_dimension name =
     (if is_prefix TAG_PREFIX name
      then (let key = drop (length TAG_PREFIX) name
            in if is_valid_tag_key key then Some key else None)
      else None)"

fun dimension_name :: "policy_dimension \<Rightarrow> string" where
  "dimension_name DimTeam = ''team''"
| "dimension_name DimMember = ''member''"
| "dimension_name DimApiKey = ''api_key''"
| "dimension_name DimModel = ''model''"
| "dimension_name DimModelName = ''model_name''"
| "dimension_name DimProvider = ''provider''"
| "dimension_name (DimTag key) = TAG_PREFIX @ key"

definition is_identity :: "policy_dimension \<Rightarrow> bool" where
  "is_identity d \<longleftrightarrow> d \<in> {DimTeam, DimMember, DimApiKey, DimModel}"

definition is_model_property :: "policy_dimension \<Rightarrow> bool" where
  "is_model_property d \<longleftrightarrow> d \<in> {DimModel, DimModelName, DimProvider}"

definition dimension_of_name :: "string \<Rightarrow> policy_dimension option" where
  "dimension_of_name name =
     (if name = ''team'' then Some DimTeam
      else if name = ''member'' then Some DimMember
      else if name = ''api_key'' then Some DimApiKey
      else if name = ''model'' then Some DimModel
      else if name = ''model_name'' then Some DimModelName
      else if name = ''provider'' then Some DimProvider
      else map_option DimTag (parse_tag_dimension name))"

datatype group_by_dimension = ByTeam | ByMember | ByApiKey | ByModel | ByProvider | ByTag string

fun group_by_name :: "group_by_dimension \<Rightarrow> string" where
  "group_by_name ByTeam = ''team''"
| "group_by_name ByMember = ''member''"
| "group_by_name ByApiKey = ''api_key''"
| "group_by_name ByModel = ''model''"
| "group_by_name ByProvider = ''provider''"
| "group_by_name (ByTag key) = TAG_PREFIX @ key"

fun canonical_rank :: "group_by_dimension \<Rightarrow> nat \<times> string" where
  "canonical_rank ByTeam = (0, [])"
| "canonical_rank ByMember = (1, [])"
| "canonical_rank ByApiKey = (2, [])"
| "canonical_rank ByModel = (3, [])"
| "canonical_rank ByProvider = (4, [])"
| "canonical_rank (ByTag key) = (5, key)"

definition group_by_of_name :: "string \<Rightarrow> group_by_dimension option" where
  "group_by_of_name name =
     (if name = ''team'' then Some ByTeam
      else if name = ''member'' then Some ByMember
      else if name = ''api_key'' then Some ByApiKey
      else if name = ''model'' then Some ByModel
      else if name = ''provider'' then Some ByProvider
      else map_option ByTag (parse_tag_dimension name))"

section \<open>The condition tree\<close>

datatype condition_operator =
  OpEq | OpNe | OpRegex | OpRegexCi | OpIn | OpHas | OpGt | OpGe | OpLt | OpLe | OpIpMatch

definition takes_list :: "condition_operator \<Rightarrow> bool" where
  "takes_list op \<longleftrightarrow> op \<in> {OpIn, OpHas, OpIpMatch}"

definition admitted_by :: "condition_operator \<Rightarrow> policy_dimension \<Rightarrow> bool" where
  "admitted_by op d =
     (if op \<in> {OpEq, OpNe, OpIn} then True
      else if op \<in> {OpRegex, OpRegexCi} then \<not> is_identity d
      else False)"

datatype condition_logic = LogicAnd | LogicOr
datatype policy_action = ActionReject
datatype condition_value = One string | Many "string list"

record policy_condition =
  pc_dimension :: policy_dimension
  pc_operator :: condition_operator
  pc_negate :: bool
  pc_value :: condition_value

text \<open>A group is its logic, its negation and its children.\<close>

datatype condition_node =
    CLeaf policy_condition
  | CGroup condition_logic bool "condition_node list"

section \<open>The library\<close>

record 're cond_lib =
  cl_compile :: "string \<Rightarrow> bool \<Rightarrow> 're option"
  cl_is_match :: "'re \<Rightarrow> string \<Rightarrow> bool"
  cl_parse_f64 :: "string \<Rightarrow> f64 option"
  cl_f64_lt :: "f64 \<Rightarrow> f64 \<Rightarrow> bool"
  cl_f64_le :: "f64 \<Rightarrow> f64 \<Rightarrow> bool"

text \<open>The process-wide cache of one case variant; a failed compilation is remembered too.\<close>

definition REGEX_CACHE_MAX_ENTRIES :: nat where "REGEX_CACHE_MAX_ENTRIES = 1024"

type_synonym 're regex_cache = "string \<rightharpoonup> 're option"

definition compiled_regex ::
    "'re cond_lib \<Rightarrow> bool \<Rightarrow> 're regex_cache \<Rightarrow> string \<Rightarrow> 're regex_cache \<times> 're option" where
  "compiled_regex lib ci cache pattern =
     (case cache pattern of
        Some found \<Rightarrow> (cache, found)
      | None \<Rightarrow>
          (let compiled = cl_compile lib pattern ci;
               kept = (if REGEX_CACHE_MAX_ENTRIES \<le> card (dom cache) then Map.empty else cache)
           in (kept(pattern \<mapsto> compiled), compiled)))"

definition regex_cache_ok :: "'re cond_lib \<Rightarrow> bool \<Rightarrow> 're regex_cache \<Rightarrow> bool" where
  "regex_cache_ok lib ci cache \<longleftrightarrow>
     finite (dom cache) \<and> card (dom cache) \<le> REGEX_CACHE_MAX_ENTRIES \<and>
     (\<forall>p r. cache p = Some r \<longrightarrow> r = cl_compile lib p ci)"

text \<open>The cache is transparent and bounded, so validation and evaluation below call the compiler itself.\<close>

lemma regex_cache_empty: "regex_cache_ok lib ci Map.empty"
  by (simp add: regex_cache_ok_def)

lemma compiled_regex_exact:
  assumes "regex_cache_ok lib ci cache"
  shows "snd (compiled_regex lib ci cache p) = cl_compile lib p ci"
    and "regex_cache_ok lib ci (fst (compiled_regex lib ci cache p))"
proof -
  show "snd (compiled_regex lib ci cache p) = cl_compile lib p ci"
    using assms by (auto simp: compiled_regex_def regex_cache_ok_def Let_def split: option.split)
  show "regex_cache_ok lib ci (fst (compiled_regex lib ci cache p))"
  proof (cases "cache p")
    case None
    then have "p \<notin> dom cache" by auto
    with None assms show ?thesis
      by (auto simp: compiled_regex_def regex_cache_ok_def Let_def REGEX_CACHE_MAX_ENTRIES_def)
  qed (use assms in \<open>simp add: compiled_regex_def\<close>)
qed

section \<open>Validation\<close>

definition MAX_CONDITION_DEPTH :: nat where "MAX_CONDITION_DEPTH = 3"
definition MAX_CONDITION_LEAVES :: nat where "MAX_CONDITION_LEAVES = 16"
definition MAX_CONDITION_VALUES :: nat where "MAX_CONDITION_VALUES = 64"
definition MAX_CONDITION_REGEX_LEN :: nat where "MAX_CONDITION_REGEX_LEN = 256"

datatype condition_error =
    TooManyLeaves nat
  | NestsTooDeep
  | GroupWithoutChildren
  | OperatorNotSupported policy_dimension condition_operator
  | TakesListValue policy_dimension condition_operator
  | TakesSingleString policy_dimension condition_operator
  | BadListLength policy_dimension
  | EmptyListItem policy_dimension
  | EmptyValue policy_dimension
  | RegexTooLong policy_dimension
  | RegexDoesNotCompile policy_dimension string

definition validate_leaf :: "'re cond_lib \<Rightarrow> policy_condition \<Rightarrow> condition_error + unit" where
  "validate_leaf lib leaf =
     (let d = pc_dimension leaf; op = pc_operator leaf
      in if \<not> admitted_by op d then Inl (OperatorNotSupported d op)
         else (case pc_value leaf of
                 One v \<Rightarrow>
                   if takes_list op then Inl (TakesListValue d op)
                   else if v = [] then Inl (EmptyValue d)
                   else if op \<in> {OpRegex, OpRegexCi} then
                     (if length v > MAX_CONDITION_REGEX_LEN then Inl (RegexTooLong d)
                      else if cl_compile lib v (op = OpRegexCi) = None then Inl (RegexDoesNotCompile d v)
                      else Inr ())
                   else Inr ()
               | Many items \<Rightarrow>
                   if \<not> takes_list op then Inl (TakesSingleString d op)
                   else if items = [] \<or> length items > MAX_CONDITION_VALUES then Inl (BadListLength d)
                   else if [] \<in> set items then Inl (EmptyListItem d)
                   else Inr ()))"

text \<open>The leaf counter is threaded through; on an error its value is not used.\<close>

fun validate_node :: "'re cond_lib \<Rightarrow> condition_node \<Rightarrow> nat \<Rightarrow> nat \<Rightarrow> condition_error + nat"
  and validate_children :: "'re cond_lib \<Rightarrow> condition_node list \<Rightarrow> nat \<Rightarrow> nat \<Rightarrow> condition_error + nat"
where
  "validate_node lib (CLeaf leaf) depth leaves =
     (if depth > MAX_CONDITION_DEPTH then Inl NestsTooDeep
      else (case validate_leaf lib leaf of Inl e \<Rightarrow> Inl e | Inr _ \<Rightarrow> Inr (leaves + 1)))"
| "validate_node lib (CGroup logic negate children) depth leaves =
     (if depth > MAX_CONDITION_DEPTH then Inl NestsTooDeep
      else if children = [] then Inl GroupWithoutChildren
      else validate_children lib children (depth + 1) leaves)"
| "validate_children lib [] depth leaves = Inr leaves"
| "validate_children lib (node # nodes) depth leaves =
     (case validate_node lib node depth leaves of
        Inl e \<Rightarrow> Inl e
      | Inr leaves' \<Rightarrow> validate_children lib nodes depth leaves')"

definition validate_condition_nodes :: "'re cond_lib \<Rightarrow> condition_node list \<Rightarrow> condition_error + unit" where
  "validate_condition_nodes lib nodes =
     (case validate_children lib nodes 1 0 of
        Inl e \<Rightarrow> Inl e
      | Inr leaves \<Rightarrow>
          if leaves > MAX_CONDITION_LEAVES then Inl (TooManyLeaves leaves) else Inr ())"

section \<open>Evaluation\<close>

record condition_input =
  ci_team :: "string option"
  ci_member :: "string option"
  ci_api_key :: "string option"
  ci_model :: "string option"
  ci_model_name :: "string option"
  ci_provider :: "string option"
  ci_parent_model :: "string option"
  ci_parent_model_name :: "string option"
  ci_tags :: "tags option"

definition input_tag :: "condition_input \<Rightarrow> string \<Rightarrow> string option" where
  "input_tag inp key = Option.bind (ci_tags inp) (\<lambda>ts. map_of ts key)"

fun input_get :: "condition_input \<Rightarrow> policy_dimension \<Rightarrow> string option" where
  "input_get inp DimTeam = ci_team inp"
| "input_get inp DimMember = ci_member inp"
| "input_get inp DimApiKey = ci_api_key inp"
| "input_get inp DimModel = ci_model inp"
| "input_get inp DimModelName = ci_model_name inp"
| "input_get inp DimProvider = ci_provider inp"
| "input_get inp (DimTag key) = input_tag inp key"

definition routing_parent_of :: "condition_input \<Rightarrow> policy_dimension \<Rightarrow> string option" where
  "routing_parent_of inp d =
     (if d = DimModel then ci_parent_model inp
      else if d = DimModelName then ci_parent_model_name inp
      else None)"

fun get_group_by :: "condition_input \<Rightarrow> group_by_dimension \<Rightarrow> string option" where
  "get_group_by inp ByTeam = ci_team inp"
| "get_group_by inp ByMember = ci_member inp"
| "get_group_by inp ByApiKey = ci_api_key inp"
| "get_group_by inp ByModel = ci_model inp"
| "get_group_by inp ByProvider = ci_provider inp"
| "get_group_by inp (ByTag key) = input_tag inp key"

definition regex_matches :: "'re cond_lib \<Rightarrow> bool \<Rightarrow> string \<Rightarrow> string \<Rightarrow> bool" where
  "regex_matches lib ci pattern var =
     (case cl_compile lib pattern ci of Some re \<Rightarrow> cl_is_match lib re var | None \<Rightarrow> False)"

definition numeric_matches :: "'re cond_lib \<Rightarrow> condition_operator \<Rightarrow> string \<Rightarrow> string \<Rightarrow> bool" where
  "numeric_matches lib op v var =
     (case (cl_parse_f64 lib var, cl_parse_f64 lib v) of
        (Some l, Some r) \<Rightarrow>
          (if op = OpGt then cl_f64_lt lib r l
           else if op = OpGe then cl_f64_le lib r l
           else if op = OpLt then cl_f64_lt lib l r
           else cl_f64_le lib l r)
      | _ \<Rightarrow> False)"

definition eval_operator :: "'re cond_lib \<Rightarrow> policy_condition \<Rightarrow> string \<Rightarrow> bool" where
  "eval_operator lib leaf var =
     (case pc_value leaf of
        One v \<Rightarrow>
          (case pc_operator leaf of
             OpEq \<Rightarrow> var = v
           | OpNe \<Rightarrow> var \<noteq> v
           | OpRegex \<Rightarrow> regex_matches lib False v var
           | OpRegexCi \<Rightarrow> regex_matches lib True v var
           | OpGt \<Rightarrow> numeric_matches lib OpGt v var
           | OpGe \<Rightarrow> numeric_matches lib OpGe v var
           | OpLt \<Rightarrow> numeric_matches lib OpLt v var
           | OpLe \<Rightarrow> numeric_matches lib OpLe v var
           | _ \<Rightarrow> False)
      | Many items \<Rightarrow> (if pc_operator leaf = OpIn then var \<in> set items else False))"

definition eval_leaf :: "'re cond_lib \<Rightarrow> policy_condition \<Rightarrow> condition_input \<Rightarrow> bool" where
  "eval_leaf lib leaf inp =
     (case input_get inp (pc_dimension leaf) of
        None \<Rightarrow> False
      | Some var \<Rightarrow>
          (let parent = routing_parent_of inp (pc_dimension leaf);
               raw = (if pc_operator leaf = OpNe
                      then eval_operator lib leaf var \<and> (\<forall>p \<in> set_option parent. eval_operator lib leaf p)
                      else eval_operator lib leaf var \<or> (\<exists>p \<in> set_option parent. eval_operator lib leaf p))
           in raw \<noteq> pc_negate leaf))"

fun eval_node :: "'re cond_lib \<Rightarrow> condition_node \<Rightarrow> condition_input \<Rightarrow> bool" where
  "eval_node lib (CLeaf leaf) inp = eval_leaf lib leaf inp"
| "eval_node lib (CGroup logic negate children) inp =
     ((case logic of
         LogicAnd \<Rightarrow> list_all (\<lambda>c. eval_node lib c inp) children
       | LogicOr \<Rightarrow> list_ex (\<lambda>c. eval_node lib c inp) children) \<noteq> negate)"

definition eval_condition_nodes :: "'re cond_lib \<Rightarrow> condition_node list \<Rightarrow> condition_input \<Rightarrow> bool" where
  "eval_condition_nodes lib nodes inp = list_all (\<lambda>n. eval_node lib n inp) nodes"

section \<open>What validation accepts\<close>

fun height :: "condition_node \<Rightarrow> nat" where
  "height (CLeaf leaf) = 1"
| "height (CGroup logic negate children) = Suc (fold max (map height children) 0)"

fun leaves_of :: "condition_node \<Rightarrow> policy_condition list" where
  "leaves_of (CLeaf leaf) = [leaf]"
| "leaves_of (CGroup logic negate children) = concat (map leaves_of children)"

fun groups_filled :: "condition_node \<Rightarrow> bool" where
  "groups_filled (CLeaf leaf) = True"
| "groups_filled (CGroup logic negate children) = (children \<noteq> [] \<and> list_all groups_filled children)"

definition leaf_valid :: "'re cond_lib \<Rightarrow> policy_condition \<Rightarrow> bool" where
  "leaf_valid lib leaf \<longleftrightarrow> validate_leaf lib leaf = Inr ()"

definition tree_valid :: "'re cond_lib \<Rightarrow> condition_node list \<Rightarrow> bool" where
  "tree_valid lib nodes \<longleftrightarrow>
     list_all (\<lambda>n. height n \<le> MAX_CONDITION_DEPTH \<and> groups_filled n) nodes \<and>
     list_all (leaf_valid lib) (concat (map leaves_of nodes)) \<and>
     length (concat (map leaves_of nodes)) \<le> MAX_CONDITION_LEAVES"

lemma fold_max_le: "fold max ns k \<le> b \<longleftrightarrow> k \<le> b \<and> list_all (\<lambda>n. n \<le> b) ns" for k b :: nat
  by (induction ns arbitrary: k) auto

lemma validate_leaf_unit: "(validate_leaf lib leaf = Inr x) = leaf_valid lib leaf"
  by (simp add: leaf_valid_def)

lemma height_pos [simp]: "Suc 0 \<le> height n"
  by (cases n) simp_all

lemma validate_accepts:
  "validate_node lib n depth k = Inr k' \<longleftrightarrow>
     depth + height n \<le> Suc MAX_CONDITION_DEPTH \<and> groups_filled n \<and>
     list_all (leaf_valid lib) (leaves_of n) \<and> k' = k + length (leaves_of n)"
  "validate_children lib ns depth k = Inr k' \<longleftrightarrow>
     list_all (\<lambda>n. depth + height n \<le> Suc MAX_CONDITION_DEPTH \<and> groups_filled n) ns \<and>
     list_all (leaf_valid lib) (concat (map leaves_of ns)) \<and> k' = k + length (concat (map leaves_of ns))"
proof (induction lib n depth k and lib ns depth k arbitrary: k' and k'
       rule: validate_node_validate_children.induct)
  case (1 lib leaf depth leaves)
  show ?case by (auto simp: leaf_valid_def split: sum.split)
next
  case (2 lib logic negate children depth leaves)
  show ?case
  proof (cases "depth > MAX_CONDITION_DEPTH \<or> children = []")
    case True
    then show ?thesis by auto
  next
    case False
    have le: "depth + Suc (fold max (map height children) 0) \<le> Suc MAX_CONDITION_DEPTH \<longleftrightarrow>
        list_all (\<lambda>n. depth + 1 + height n \<le> Suc MAX_CONDITION_DEPTH) children"
      using False fold_max_le [of "map height children" 0 "MAX_CONDITION_DEPTH - depth"]
      by (auto simp: list_all_iff)
    from False "2.IH" [of k'] show ?thesis
      by (simp only: validate_node.simps if_False de_Morgan_disj height.simps le) (auto simp: list_all_iff)
  qed
next
  case (3 lib depth leaves)
  show ?case by auto
next
  case (4 lib node nodes depth leaves)
  show ?case
  proof (cases "validate_node lib node depth leaves")
    case (Inl e)
    then have "\<not> (depth + height node \<le> Suc MAX_CONDITION_DEPTH \<and> groups_filled node \<and>
        list_all (leaf_valid lib) (leaves_of node))"
      using "4.IH"(1) [of "leaves + length (leaves_of node)"] by auto
    with Inl show ?thesis by auto
  next
    case (Inr k1)
    with "4.IH"(1) [of k1] "4.IH"(2) [OF Inr, of k'] show ?thesis by auto
  qed
qed

text \<open>Validation accepts exactly the trees within the caps: a list of nodes passes when every tree is at
  most three levels high and has no empty group, every leaf is valid for itself and there are at most sixteen
  leaves in all.\<close>

theorem validation_is_exact:
  "validate_condition_nodes lib nodes = Inr () \<longleftrightarrow> tree_valid lib nodes"
proof (cases "validate_children lib nodes 1 0")
  case (Inl e)
  then show ?thesis
    using validate_accepts(2) [of lib nodes 1 0 "length (concat (map leaves_of nodes))"]
    by (auto simp: validate_condition_nodes_def tree_valid_def)
next
  case (Inr k)
  then show ?thesis
    using validate_accepts(2) [of lib nodes 1 0 k]
    by (auto simp: validate_condition_nodes_def tree_valid_def)
qed

section \<open>What a leaf means\<close>

text \<open>The identities a request has on a dimension: the value itself and, where the request was routed, that
  of the entry the caller addressed.\<close>

definition identities :: "condition_input \<Rightarrow> policy_dimension \<Rightarrow> string set" where
  "identities inp d =
     (case input_get inp d of None \<Rightarrow> {} | Some v \<Rightarrow> insert v (set_option (routing_parent_of inp d)))"

text \<open>The operators a valid leaf can have, as predicates of a set of identities.\<close>

fun set_meaning :: "'re cond_lib \<Rightarrow> condition_operator \<Rightarrow> condition_value \<Rightarrow> string set \<Rightarrow> bool" where
  "set_meaning lib OpEq (One v) ids = (v \<in> ids)"
| "set_meaning lib OpNe (One v) ids = (v \<notin> ids)"
| "set_meaning lib OpIn (Many vs) ids = (ids \<inter> set vs \<noteq> {})"
| "set_meaning lib OpRegex (One p) ids =
     (\<exists>i \<in> ids. cl_is_match lib (the (cl_compile lib p False)) i)"
| "set_meaning lib OpRegexCi (One p) ids =
     (\<exists>i \<in> ids. cl_is_match lib (the (cl_compile lib p True)) i)"
| "set_meaning lib _ _ ids = False"

definition leaf_holds :: "'re cond_lib \<Rightarrow> policy_condition \<Rightarrow> condition_input \<Rightarrow> bool" where
  "leaf_holds lib leaf inp \<longleftrightarrow>
     identities inp (pc_dimension leaf) \<noteq> {} \<and>
     set_meaning lib (pc_operator leaf) (pc_value leaf) (identities inp (pc_dimension leaf)) \<noteq> pc_negate leaf"

lemma valid_leaf_cases:
  assumes "leaf_valid lib leaf"
  obtains (eq) v where "pc_operator leaf = OpEq" "pc_value leaf = One v"
    | (ne) v where "pc_operator leaf = OpNe" "pc_value leaf = One v"
    | (mem) vs where "pc_operator leaf = OpIn" "pc_value leaf = Many vs"
    | (regex) p re where "pc_operator leaf = OpRegex" "pc_value leaf = One p" "cl_compile lib p False = Some re"
    | (regex_ci) p re where "pc_operator leaf = OpRegexCi" "pc_value leaf = One p" "cl_compile lib p True = Some re"
  using assms
  by (cases "pc_operator leaf"; cases "pc_value leaf")
    (auto simp: leaf_valid_def validate_leaf_def admitted_by_def takes_list_def Let_def split: if_splits)

lemma eval_leaf_meaning:
  assumes "leaf_valid lib leaf"
  shows "eval_leaf lib leaf inp = leaf_holds lib leaf inp"
proof (cases "input_get inp (pc_dimension leaf)")
  case None
  then show ?thesis by (simp add: eval_leaf_def leaf_holds_def identities_def)
next
  case (Some var)
  from assms show ?thesis
  proof (cases rule: valid_leaf_cases)
    case (regex p re)
    with Some show ?thesis
      by (auto simp: eval_leaf_def leaf_holds_def identities_def eval_operator_def regex_matches_def Let_def)
  next
    case (regex_ci p re)
    with Some show ?thesis
      by (auto simp: eval_leaf_def leaf_holds_def identities_def eval_operator_def regex_matches_def Let_def)
  qed (use Some in \<open>auto simp: eval_leaf_def leaf_holds_def identities_def eval_operator_def Let_def\<close>)
qed

text \<open>A tree read with the meaning of its leaves.\<close>

fun node_holds :: "'re cond_lib \<Rightarrow> condition_node \<Rightarrow> condition_input \<Rightarrow> bool" where
  "node_holds lib (CLeaf leaf) inp = leaf_holds lib leaf inp"
| "node_holds lib (CGroup LogicAnd negate children) inp =
     ((\<forall>c \<in> set children. node_holds lib c inp) \<noteq> negate)"
| "node_holds lib (CGroup LogicOr negate children) inp =
     ((\<exists>c \<in> set children. node_holds lib c inp) \<noteq> negate)"

lemma eval_node_meaning:
  "list_all (leaf_valid lib) (leaves_of n) \<Longrightarrow> eval_node lib n inp = node_holds lib n inp"
proof (induction n rule: leaves_of.induct)
  case (1 leaf)
  then show ?case by (simp add: eval_leaf_meaning)
next
  case (2 logic negate children)
  then have "eval_node lib c inp = node_holds lib c inp" if "c \<in> set children" for c
    using that by (auto simp: list_all_iff)
  then show ?case by (cases logic) (simp_all add: list_all_iff list_ex_iff)
qed

text \<open>C23. A validated tree is evaluated as its documentation says: a leaf speaks about the set of identities
  the request has on its dimension (the dispatched model and the entry the caller addressed, where they
  differ), \<^verbatim>\<open>==\<close>, \<^verbatim>\<open>in\<close> and the regular expressions hold when some identity satisfies them, \<^verbatim>\<open>~=\<close> when all
  differ, and a request without the dimension satisfies neither a leaf nor its negation; \<^verbatim>\<open>a ~= b\<close> is
  \<^verbatim>\<open>!(a == b)\<close>.\<close>

theorem conditions_mean_identity_sets:
  assumes "validate_condition_nodes lib nodes = Inr ()"
  shows "(eval_condition_nodes lib nodes inp \<longleftrightarrow> (\<forall>n \<in> set nodes. node_holds lib n inp)) \<and>
     leaf_holds lib \<lparr>pc_dimension = d, pc_operator = OpNe, pc_negate = neg, pc_value = One v\<rparr> inp =
     leaf_holds lib \<lparr>pc_dimension = d, pc_operator = OpEq, pc_negate = (\<not> neg), pc_value = One v\<rparr> inp"
proof -
  from assms have v: "list_all (leaf_valid lib) (concat (map leaves_of nodes))"
    by (auto simp: validate_condition_nodes_def validate_accepts(2) split: sum.splits if_splits)
  have "eval_node lib n inp = node_holds lib n inp" if "n \<in> set nodes" for n
    by (rule eval_node_meaning) (use v that in \<open>auto simp: list_all_iff\<close>)
  then show ?thesis by (auto simp: eval_condition_nodes_def list_all_iff leaf_holds_def)
qed

text \<open>A library whose regular expressions are plain substrings, for concrete examples.\<close>

definition demo_cond_lib :: "string cond_lib" where
  "demo_cond_lib =
     \<lparr>cl_compile = (\<lambda>p ci. if CHR ''('' \<in> set p then None else Some p), cl_is_match = contains,
      cl_parse_f64 = (\<lambda>_. None), cl_f64_lt = (<), cl_f64_le = (\<le>)\<rparr>"

definition demo_leaf :: "policy_dimension \<Rightarrow> condition_operator \<Rightarrow> string \<Rightarrow> condition_node" where
  "demo_leaf d op v = CLeaf \<lparr>pc_dimension = d, pc_operator = op, pc_negate = False, pc_value = One v\<rparr>"

definition demo_conditions :: "condition_node list" where
  "demo_conditions =
     [demo_leaf DimTeam OpEq ''t1'',
      CGroup LogicOr False [demo_leaf DimModelName OpRegex ''gpt'', demo_leaf (DimTag ''env'') OpNe ''dev'']]"

definition no_input :: condition_input where
  "no_input =
     \<lparr>ci_team = None, ci_member = None, ci_api_key = None, ci_model = None, ci_model_name = None,
      ci_provider = None, ci_parent_model = None, ci_parent_model_name = None, ci_tags = None\<rparr>"

lemmas eval_conditions =
  demo_cond_lib_def demo_leaf_def demo_conditions_def no_input_def validate_condition_nodes_def
  validate_leaf_def admitted_by_def takes_list_def is_identity_def identities_def leaf_holds_def
  routing_parent_of_def input_tag_def MAX_CONDITION_DEPTH_def MAX_CONDITION_LEAVES_def
  MAX_CONDITION_VALUES_def MAX_CONDITION_REGEX_LEN_def

theorem conditions_mean_identity_sets_witness:
  "eval_condition_nodes demo_cond_lib demo_conditions
     (no_input\<lparr>ci_team := Some ''t1'', ci_model_name := Some ''claude'', ci_parent_model_name := Some ''my-gpt''\<rparr>)"
  by (subst conditions_mean_identity_sets [THEN conjunct1]) (simp_all add: eval_conditions)

section \<open>Names of dimensions\<close>

text \<open>A dimension's wire name reads back as the dimension, a tag dimension when its key is valid.\<close>

lemma parse_tag_name: "is_valid_tag_key key \<Longrightarrow> parse_tag_dimension (TAG_PREFIX @ key) = Some key"
  by (simp add: parse_tag_dimension_def is_prefix_iff)

lemma parse_tag_sound: "parse_tag_dimension name = Some key \<Longrightarrow> is_valid_tag_key key \<and> name = TAG_PREFIX @ key"
  by (auto simp: parse_tag_dimension_def is_prefix_iff Let_def split: if_splits)

lemma dimension_name_roundtrip:
  "(\<And>key. d = DimTag key \<Longrightarrow> is_valid_tag_key key) \<Longrightarrow> dimension_of_name (dimension_name d) = Some d"
  by (cases d) (auto simp: dimension_of_name_def TAG_PREFIX_def parse_tag_name [unfolded TAG_PREFIX_def, simplified])

lemma group_by_name_roundtrip:
  "(\<And>key. d = ByTag key \<Longrightarrow> is_valid_tag_key key) \<Longrightarrow> group_by_of_name (group_by_name d) = Some d"
  by (cases d) (auto simp: group_by_of_name_def TAG_PREFIX_def parse_tag_name [unfolded TAG_PREFIX_def, simplified])

end
