(* ===== verification/Policies.thy ===== *)
theory Policies
  imports Policy_Conditions Rate_Limit
begin

text \<open>
  The rate-limit policy document, \<^verbatim>\<open>crates/aisix-core/src/models/rate_limit_policy.rs\<close>: its two forms, the
  schedules that suspend it and the checks a stored row passes. Time zones and the reading of calendar dates
  are the record \<open>calendar_lib\<close>: an instant is a number of seconds, a date its day number since 1970-01-01.
\<close>

section \<open>Scopes and windows\<close>

datatype policy_scope = ScopeApiKey | ScopeModel | ScopeTeam | ScopeMember | ScopeTeamMember

fun policy_scope_str :: "policy_scope \<Rightarrow> string" where
  "policy_scope_str ScopeApiKey = ''api_key''"
| "policy_scope_str ScopeModel = ''model''"
| "policy_scope_str ScopeTeam = ''team''"
| "policy_scope_str ScopeMember = ''member''"
| "policy_scope_str ScopeTeamMember = ''team_member''"

datatype policy_window = WindowSecond | WindowMinute | WindowHour | WindowDay

fun policy_window_str :: "policy_window \<Rightarrow> string" where
  "policy_window_str WindowSecond = ''second''"
| "policy_window_str WindowMinute = ''minute''"
| "policy_window_str WindowHour = ''hour''"
| "policy_window_str WindowDay = ''day''"

section \<open>Schedules\<close>

datatype schedule_weekday = Mon | Tue | Wed | Thu | Fri | Sat | Sun

text \<open>\<^verbatim>\<open>NaiveDate::weekday\<close> of a day number; 1970-01-01 was a Thursday.\<close>

definition weekday :: "int \<Rightarrow> schedule_weekday" where
  "weekday day = [Thu, Fri, Sat, Sun, Mon, Tue, Wed] ! nat (day mod 7)"

record 'tz calendar_lib =
  tz_parse :: "string \<Rightarrow> 'tz option"
  tz_local :: "'tz \<Rightarrow> int \<Rightarrow> int \<times> nat"
  date_pred :: "int \<Rightarrow> int option"
  date_parse :: "string \<Rightarrow> int option"

text \<open>\<open>tz_local\<close> gives the local date and the minute of its day.\<close>

record policy_schedule =
  ps_timezone :: string
  ps_days_of_week :: "schedule_weekday list"
  ps_dates :: "string list"
  ps_start_time :: string
  ps_end_time :: string

text \<open>\<^verbatim>\<open>str::parse::<u32>\<close> on a short text: one leading plus sign is allowed.\<close>

definition parse_u32 :: "string \<Rightarrow> nat option" where
  "parse_u32 s =
     (let digits = (case s of c # cs \<Rightarrow> if c = CHR ''+'' then cs else s | [] \<Rightarrow> s)
      in if digits = [] \<or> \<not> list_all ascii_digit digits then None
         else if read_nat digits < u32_modulus then Some (read_nat digits) else None)"

definition parse_hhmm :: "string \<Rightarrow> bool \<Rightarrow> nat option" where
  "parse_hhmm s allow_2400 =
     (if allow_2400 \<and> s = ''24:00'' then Some (24 * 60)
      else (case splitn2 (CHR '':'') s of
              (_, None) \<Rightarrow> None
            | (h, Some m) \<Rightarrow>
                if length h \<noteq> 2 \<or> length m \<noteq> 2 then None
                else (case (parse_u32 h, parse_u32 m) of
                        (Some hh, Some mm) \<Rightarrow> if hh > 23 \<or> mm > 59 then None else Some (hh * 60 + mm)
                      | _ \<Rightarrow> None)))"

definition selects_day :: "'tz calendar_lib \<Rightarrow> policy_schedule \<Rightarrow> int \<Rightarrow> bool" where
  "selects_day cal s day =
     (if ps_days_of_week s \<noteq> [] then list_ex (\<lambda>d. d = weekday day) (ps_days_of_week s)
      else list_ex (\<lambda>t. date_parse cal t = Some day) (ps_dates s))"

definition schedule_matches :: "'tz calendar_lib \<Rightarrow> policy_schedule \<Rightarrow> int \<Rightarrow> bool" where
  "schedule_matches cal s now =
     (case tz_parse cal (ps_timezone s) of
        None \<Rightarrow> False
      | Some tz \<Rightarrow>
          (case parse_hhmm (ps_start_time s) False of
             None \<Rightarrow> False
           | Some start \<Rightarrow>
               (case parse_hhmm (ps_end_time s) True of
                  None \<Rightarrow> False
                | Some stop \<Rightarrow>
                    (let (today, minute) = tz_local cal tz now
                     in if start < stop then selects_day cal s today \<and> minute \<ge> start \<and> minute < stop
                        else if start > stop then
                          (selects_day cal s today \<and> minute \<ge> start) \<or>
                          ((case date_pred cal today of
                              Some yesterday \<Rightarrow> selects_day cal s yesterday
                            | None \<Rightarrow> False) \<and> minute < stop)
                        else False))))"

section \<open>The document\<close>

record rate_limit_policy =
  rp_name :: string
  rp_scope :: "policy_scope option"
  rp_scope_ref :: "string option"
  rp_window :: "policy_window option"
  rp_max_requests :: "nat option"
  rp_max_tokens :: "nat option"
  rp_max_spend_micro_usd :: "nat option"
  rp_granted_micro_usd :: "nat option"
  rp_conditions :: "condition_node list option"
  rp_group_by :: "group_by_dimension list option"
  rp_limits :: "rate_limit option"
  rp_action :: "policy_action option"
  rp_schedules :: "policy_schedule list"

definition suspended_at :: "'tz calendar_lib \<Rightarrow> rate_limit_policy \<Rightarrow> int \<Rightarrow> bool" where
  "suspended_at cal p now = list_ex (\<lambda>s. schedule_matches cal s now) (rp_schedules p)"

definition is_conditional :: "rate_limit_policy \<Rightarrow> bool" where
  "is_conditional p \<longleftrightarrow> rp_limits p \<noteq> None"

fun node_refs :: "condition_node \<Rightarrow> bool" where
  "node_refs (CLeaf leaf) = is_model_property (pc_dimension leaf)"
| "node_refs (CGroup logic negate children) = list_ex node_refs children"

definition references_model_property :: "rate_limit_policy \<Rightarrow> bool" where
  "references_model_property p \<longleftrightarrow>
     (case rp_conditions p of Some nodes \<Rightarrow> list_ex node_refs nodes | None \<Rightarrow> False) \<or>
     (case rp_group_by p of
        Some dims \<Rightarrow> list_ex (\<lambda>d. d \<in> {ByModel, ByProvider}) dims
      | None \<Rightarrow> False)"

datatype policy_form_error =
    MixesForms
  | RequiresLimits
  | LimitsSetNothing
  | BadConditions condition_error
  | RepeatsDimension group_by_dimension
  | RequiresScope
  | RequiresWindow
  | RequiresCap

fun group_by_repeats :: "group_by_dimension list \<Rightarrow> group_by_dimension list \<Rightarrow> group_by_dimension option" where
  "group_by_repeats seen [] = None"
| "group_by_repeats seen (d # ds) = (if d \<in> set seen then Some d else group_by_repeats (seen @ [d]) ds)"

definition validate_semantics :: "'re cond_lib \<Rightarrow> rate_limit_policy \<Rightarrow> policy_form_error + unit" where
  "validate_semantics lib p =
     (let classic = (rp_scope p \<noteq> None \<or> rp_scope_ref p \<noteq> None \<or> rp_window p \<noteq> None \<or>
                     rp_max_requests p \<noteq> None \<or> rp_max_tokens p \<noteq> None \<or>
                     rp_max_spend_micro_usd p \<noteq> None);
          conditional = (rp_conditions p \<noteq> None \<or> rp_group_by p \<noteq> None \<or> rp_limits p \<noteq> None \<or>
                         rp_action p \<noteq> None)
      in if classic \<and> conditional then Inl MixesForms
         else if conditional then
           (case rp_limits p of
              None \<Rightarrow> Inl RequiresLimits
            | Some limits \<Rightarrow>
                if is_unrestricted limits then Inl LimitsSetNothing
                else (case (case rp_conditions p of
                              Some nodes \<Rightarrow> validate_condition_nodes lib nodes
                            | None \<Rightarrow> Inr ()) of
                        Inl e \<Rightarrow> Inl (BadConditions e)
                      | Inr _ \<Rightarrow>
                          (case (case rp_group_by p of
                                   Some dims \<Rightarrow> group_by_repeats [] dims
                                 | None \<Rightarrow> None) of
                             Some d \<Rightarrow> Inl (RepeatsDimension d)
                           | None \<Rightarrow> Inr ())))
         else if rp_scope p = None \<or> rp_scope_ref p = None then Inl RequiresScope
         else (let windowed = (rp_max_requests p \<noteq> None \<or> rp_max_tokens p \<noteq> None \<or>
                               rp_max_spend_micro_usd p \<noteq> None)
               in if windowed \<and> rp_window p = None then Inl RequiresWindow
                  else if \<not> windowed \<and> rp_granted_micro_usd p = None then Inl RequiresCap
                  else Inr ()))"

text \<open>\<^verbatim>\<open>Resource::name\<close> of a policy.\<close>

definition policy_nm :: "rate_limit_policy \<Rightarrow> string" where
  "policy_nm p = (case rp_scope_ref p of Some r \<Rightarrow> r | None \<Rightarrow> rp_name p)"

section \<open>Forms\<close>

lemma group_by_repeats_None: "group_by_repeats seen ds = None \<longleftrightarrow> distinct ds \<and> set seen \<inter> set ds = {}"
  by (induction ds arbitrary: seen) auto

text \<open>A row that passed the checks is exactly one of the two forms.\<close>

definition classic_form :: "rate_limit_policy \<Rightarrow> bool" where
  "classic_form p \<longleftrightarrow>
     rp_scope p \<noteq> None \<and> rp_scope_ref p \<noteq> None \<and> rp_conditions p = None \<and> rp_group_by p = None \<and>
     rp_limits p = None \<and> rp_action p = None"

definition conditional_form :: "'re cond_lib \<Rightarrow> rate_limit_policy \<Rightarrow> bool" where
  "conditional_form lib p \<longleftrightarrow>
     rp_scope p = None \<and> rp_scope_ref p = None \<and> rp_window p = None \<and> rp_max_requests p = None \<and>
     rp_max_tokens p = None \<and> rp_max_spend_micro_usd p = None \<and>
     (\<exists>l. rp_limits p = Some l \<and> \<not> is_unrestricted l) \<and>
     (\<forall>ns. rp_conditions p = Some ns \<longrightarrow> validate_condition_nodes lib ns = Inr ()) \<and>
     (\<forall>ds. rp_group_by p = Some ds \<longrightarrow> distinct ds)"

lemma valid_policy_form:
  assumes "validate_semantics lib p = Inr ()"
  shows "if is_conditional p then conditional_form lib p else classic_form p"
  using assms
  by (auto simp: validate_semantics_def is_conditional_def conditional_form_def classic_form_def Let_def
      group_by_repeats_None split: if_splits option.splits sum.splits)

section \<open>Windows of a schedule\<close>

lemma weekday_week: "weekday (day + 7) = weekday day"
  by (simp add: weekday_def)

lemma parse_hhmm_bound:
  "parse_hhmm s False = Some n \<Longrightarrow> n < 1440"
  "parse_hhmm s True = Some n \<Longrightarrow> n \<le> 1440"
  by (auto simp: parse_hhmm_def split: if_splits prod.splits option.splits)

text \<open>The minutes since 1970 on the wall clock of a zone, and the windows a schedule opens there: one on each
  selected day, from its start to its end, on the next day when the end is not after the start.\<close>

definition wall_minute :: "'tz calendar_lib \<Rightarrow> 'tz \<Rightarrow> int \<Rightarrow> int" where
  "wall_minute cal tz now = (let (day, minute) = tz_local cal tz now in day * 1440 + int minute)"

definition window_of_day :: "nat \<Rightarrow> nat \<Rightarrow> int \<Rightarrow> int set" where
  "window_of_day start stop day =
     (if start = stop then {}
      else {day * 1440 + int start ..< day * 1440 + (if start < stop then 0 else 1440) + int stop})"

definition calendar_sane :: "'tz calendar_lib \<Rightarrow> bool" where
  "calendar_sane cal \<longleftrightarrow>
     (\<forall>tz now. snd (tz_local cal tz now) < 1440 \<and>
        date_pred cal (fst (tz_local cal tz now)) = Some (fst (tz_local cal tz now) - 1))"

lemma same_minute:
  fixes d e :: int and m :: nat
  assumes "m < 1440" and "b \<le> 1440"
  shows "d * 1440 + int a \<le> e * 1440 + int m \<and> e * 1440 + int m < d * 1440 + int b \<longleftrightarrow>
     d = e \<and> a \<le> m \<and> m < b"
proof (rule linorder_cases [of d e])
  assume "d < e"
  then have "d * 1440 + 1440 \<le> e * 1440" by linarith
  with assms \<open>d < e\<close> show ?thesis by linarith
next
  assume "e < d"
  then have "e * 1440 + 1440 \<le> d * 1440" by linarith
  with assms \<open>e < d\<close> show ?thesis by linarith
qed auto

lemma night_minute:
  fixes d e :: int and m :: nat
  assumes "m < 1440" and "b < a" and "a < 1440"
  shows "d * 1440 + int a \<le> e * 1440 + int m \<and> e * 1440 + int m < d * 1440 + 1440 + int b \<longleftrightarrow>
     d = e \<and> a \<le> m \<or> d = e - 1 \<and> m < b"
proof -
  consider "d < e - 1" | "d = e - 1" | "d = e" | "e < d" by linarith
  then show ?thesis
  proof cases
    case 1
    then have "d * 1440 + 2880 \<le> e * 1440" by linarith
    with assms have "\<not> e * 1440 + int m < d * 1440 + 1440 + int b" by linarith
    with 1 show ?thesis by auto
  next
    case 4
    then have "e * 1440 + 1440 \<le> d * 1440" by linarith
    with assms have "\<not> d * 1440 + int a \<le> e * 1440 + int m" by linarith
    with 4 show ?thesis by auto
  qed (use assms in auto)
qed

text \<open>A schedule suspends its policy exactly inside its windows: on the wall clock of its zone, from the
  start minute of a selected day (inclusive) to the end minute (exclusive), the end lying on the next day
  when it is not after the start; a schedule whose zone or times cannot be read suspends nothing.\<close>

theorem schedule_covers_its_windows:
  assumes "calendar_sane cal"
  shows "schedule_matches cal s now \<longleftrightarrow>
     (\<exists>tz start stop day. tz_parse cal (ps_timezone s) = Some tz \<and>
        parse_hhmm (ps_start_time s) False = Some start \<and> parse_hhmm (ps_end_time s) True = Some stop \<and>
        selects_day cal s day \<and> wall_minute cal tz now \<in> window_of_day start stop day)"
proof (cases "tz_parse cal (ps_timezone s) = None \<or> parse_hhmm (ps_start_time s) False = None \<or>
    parse_hhmm (ps_end_time s) True = None")
  case True
  then show ?thesis by (auto simp: schedule_matches_def split: option.split)
next
  case False
  then obtain tz start stop where r: "tz_parse cal (ps_timezone s) = Some tz"
    "parse_hhmm (ps_start_time s) False = Some start" "parse_hhmm (ps_end_time s) True = Some stop"
    by auto
  obtain e m where l: "tz_local cal tz now = (e, m)" by fastforce
  from assms l have m: "m < 1440" and pred: "date_pred cal e = Some (e - 1)"
    unfolding calendar_sane_def by (metis fst_conv snd_conv)+
  have b: "start < 1440" "stop \<le> 1440" using parse_hhmm_bound r(2,3) by auto
  have "schedule_matches cal s now \<longleftrightarrow>
      (\<exists>day. selects_day cal s day \<and> wall_minute cal tz now \<in> window_of_day start stop day)"
  proof (rule linorder_cases [of start stop])
    assume c: "start < stop"
    then show ?thesis
      by (auto simp: same_minute [OF m b(2)] schedule_matches_def r l wall_minute_def window_of_day_def)
  next
    assume c: "stop < start"
    then have n: "\<not> start < stop" "start \<noteq> stop" by auto
    show ?thesis
      using n c
      by (auto simp: night_minute [OF m c b(1)] schedule_matches_def r l wall_minute_def window_of_day_def pred)
  qed (simp add: schedule_matches_def r l window_of_day_def)
  then show ?thesis by (simp add: r)
qed

text \<open>A calendar with one zone, at an offset of whole hours, for concrete examples.\<close>

definition demo_calendar :: "int calendar_lib" where
  "demo_calendar =
     \<lparr>tz_parse = (\<lambda>z. if z = ''UTC'' then Some 0 else if z = ''Asia/Shanghai'' then Some 8 else None),
      tz_local = (\<lambda>off now. ((now + off * 3600) div 86400, nat ((now + off * 3600) mod 86400 div 60))),
      date_pred = (\<lambda>d. Some (d - 1)),
      date_parse = (\<lambda>t. if t = ''1970-01-02'' then Some 1 else None)\<rparr>"

lemma demo_calendar_sane: "calendar_sane demo_calendar"
proof -
  have "nat (x mod 86400 div 60) < 1440" for x :: int
  proof -
    have "x mod 86400 < 86400" by simp
    then show ?thesis by linarith
  qed
  then show ?thesis by (simp add: calendar_sane_def demo_calendar_def)
qed

theorem schedule_covers_its_windows_witness:
  "schedule_matches demo_calendar
     \<lparr>ps_timezone = ''UTC'', ps_days_of_week = [Fri], ps_dates = [], ps_start_time = ''22:00'',
      ps_end_time = ''09:00''\<rparr> (2 * 86400 + 8 * 3600)"
proof -
  have "parse_hhmm ''22:00'' False = Some 1320" "parse_hhmm ''09:00'' True = Some 540"
    by (simp_all add: parse_hhmm_def splitn2_def parse_u32_def ascii_digit_def read_nat_def u32_modulus_def)
  then show ?thesis
    by (subst schedule_covers_its_windows [OF demo_calendar_sane])
      (auto intro!: exI [of _ 0] exI [of _ "1 :: int"]
        simp: demo_calendar_def wall_minute_def window_of_day_def selects_day_def weekday_def)
qed

end
