(* ===== verification/Config_Snapshot.thy ===== *)
theory Config_Snapshot
  imports Snapshot Model_Config Gateway_Errors Policies
begin

text \<open>
  The configuration documents the request path reads, as tables of one snapshot
  (\<^verbatim>\<open>crates/aisix-core/src/models/snapshot.rs\<close>): models, provider keys, prices, budgets and rate-limit policies, with the
  resolution of a reference to a model (\<^verbatim>\<open>model_ref.rs\<close>). Documents of other kinds (guardrails, caches,
  MCP, A2A, identity providers) are not read by the modelled code and have no table here; of a provider
  key only the fields that routing reads are kept.
\<close>

section \<open>Documents\<close>

record provider_key =
  pk_display_name :: string
  pk_provider :: string
  pk_groups :: "string list"

record pricing =
  pr_key :: string
  pr_input_per_1k :: f64
  pr_output_per_1k :: f64

record budget_tag =
  bt_key :: string
  bt_value :: string

datatype budget_period = PeriodDay | PeriodWeek | PeriodMonth

record budget_doc_reason =
  bd_kind :: "string option"
  bd_code :: "string option"
  bd_message :: "string option"
  bd_scope :: "string option"
  bd_scope_ref :: "string option"
  bd_limit_usd :: "string option"
  bd_spent_usd :: "string option"
  bd_remaining_usd :: "string option"
  bd_period :: "string option"

record budget_exhausted =
  be_period_start :: "string option"
  be_reason :: budget_doc_reason

record budget_member_exhausted =
  bm_period_start :: string
  bm_reason :: budget_doc_reason

record budget =
  bg_scope :: budget_scope
  bg_scope_ref :: "string option"
  bg_tag :: "budget_tag option"
  bg_period :: budget_period
  bg_exhausted :: "budget_exhausted option"
  bg_exhausted_members :: "string \<rightharpoonup> budget_member_exhausted"

datatype budget_fail_mode = FailSticky | FailClosed

record budget_policy =
  bp_fail_mode :: budget_fail_mode
  bp_closed_grace_seconds :: nat

section \<open>Names\<close>

text \<open>\<^verbatim>\<open>Resource::name\<close> of each kind.\<close>

definition model_nm :: "model \<Rightarrow> string" where "model_nm m = display_name m"
definition provider_key_nm :: "provider_key \<Rightarrow> string" where "provider_key_nm p = pk_display_name p"
definition pricing_nm :: "pricing \<Rightarrow> string" where "pricing_nm p = pr_key p"
definition budget_nm :: "budget \<Rightarrow> string" where "budget_nm b = ''budget''"
definition budget_policy_nm :: "budget_policy \<Rightarrow> string" where "budget_policy_nm b = ''budget_policy''"

section \<open>The snapshot\<close>

record aisix_snapshot =
  snap_models :: "model resource_table"
  snap_provider_keys :: "provider_key resource_table"
  snap_pricing :: "pricing resource_table"
  snap_global_pricing :: "pricing resource_table"
  snap_budgets :: "budget resource_table"
  snap_budget_policy :: "budget_policy resource_table"
  snap_rate_limit_policies :: "rate_limit_policy resource_table"

definition snapshot_ok :: "aisix_snapshot \<Rightarrow> bool" where
  "snapshot_ok s \<longleftrightarrow>
     table_ok model_nm (snap_models s) \<and> table_ok provider_key_nm (snap_provider_keys s) \<and>
     table_ok pricing_nm (snap_pricing s) \<and> table_ok pricing_nm (snap_global_pricing s) \<and>
     table_ok budget_nm (snap_budgets s) \<and> table_ok budget_policy_nm (snap_budget_policy s) \<and>
     table_ok policy_nm (snap_rate_limit_policies s)"

definition resolve_model_ref :: "aisix_snapshot \<Rightarrow> string \<Rightarrow> string option \<Rightarrow> string" where
  "resolve_model_ref snap name i =
     (case i of
        Some i \<Rightarrow> (case get_by_id (snap_models snap) i of
                    Some e \<Rightarrow> display_name (re_value e)
                  | None \<Rightarrow> i)
      | None \<Rightarrow> name)"

definition model_ref :: "routing_target \<Rightarrow> aisix_snapshot \<Rightarrow> string" where
  "model_ref t snap = resolve_model_ref snap (rt_model t) (rt_model_id t)"

text \<open>A row found by name has that name; a row found by id has that id.\<close>

lemma table_get_by_name:
  assumes "table_ok nm t" and "get_by_name t n = Some e"
  shows "nm (re_value e) = n" and "by_id t (re_id e) = Some e"
proof -
  obtain i where i: "by_name t n = Some i" "by_id t i = Some e"
    using assms(2) by (cases "by_name t n") (auto simp: get_by_name_def get_by_id_def)
  with table_ok_name [OF assms(1) i(1)] show "nm (re_value e) = n" by auto
  show "by_id t (re_id e) = Some e" using assms(1) i(2) by (auto simp: table_ok_def)
qed

lemma model_by_name:
  "snapshot_ok snap \<Longrightarrow> get_by_name (snap_models snap) n = Some e \<Longrightarrow> display_name (re_value e) = n"
  using table_get_by_name(1) [of model_nm "snap_models snap"] by (simp add: snapshot_ok_def model_nm_def)

end
