(* ===== verification/Pricing.thy ===== *)
theory Pricing
  imports Config_Snapshot "HOL-Library.Product_Lexorder" "HOL-Library.List_Lexorder" "HOL-Library.Char_ord"
begin

text \<open>
  Prices by lookup key (\<^verbatim>\<open>crates/aisix-core/src/models/pricing.rs\<close>): the two pricing tables flattened
  into one index, the price of a model, and the cached index shared by all readers. The order in which
  a table yields its rows is an argument (\<open>scan\<close>); the index is shown not to depend on it.
\<close>

definition cost_of :: "pricing \<Rightarrow> model_cost" where
  "cost_of p =
     \<lparr>mc_input_per_1k = pr_input_per_1k p, mc_output_per_1k = pr_output_per_1k p,
      mc_cached_input_per_1k = None, mc_cache_write_per_1k = None\<rparr>"

type_synonym priced = "int \<times> string \<times> model_cost"

fun flatten_loop :: "(string \<rightharpoonup> priced) \<Rightarrow> pricing resource_entry list \<Rightarrow> (string \<rightharpoonup> priced)" where
  "flatten_loop out [] = out"
| "flatten_loop out (e # es) =
     (let candidate = (re_revision e, re_id e, cost_of (re_value e))
      in case out (pr_key (re_value e)) of
           Some current \<Rightarrow>
             if (fst current, fst (snd current)) \<ge> (fst candidate, fst (snd candidate))
             then flatten_loop out es
             else flatten_loop (out(pr_key (re_value e) \<mapsto> candidate)) es
         | None \<Rightarrow> flatten_loop (out(pr_key (re_value e) \<mapsto> candidate)) es)"

definition flatten ::
    "(pricing resource_table \<Rightarrow> pricing resource_entry list) \<Rightarrow> pricing resource_table \<Rightarrow> (string \<rightharpoonup> priced)" where
  "flatten scan t = flatten_loop Map.empty (entries_of t (scan t))"

type_synonym pricing_index = "string \<rightharpoonup> model_cost"

definition index_build ::
    "(pricing resource_table \<Rightarrow> pricing resource_entry list) \<Rightarrow> aisix_snapshot \<Rightarrow> pricing_index" where
  "index_build scan snap =
     (map_option (snd \<circ> snd) \<circ> flatten scan (snap_global_pricing snap)) ++
     (map_option (snd \<circ> snd) \<circ> flatten scan (snap_pricing snap))"

definition pricing_get :: "pricing_index \<Rightarrow> string \<Rightarrow> model_cost option" where
  "pricing_get idx k = idx k"

definition pricing_resolve :: "pricing_index \<Rightarrow> model \<Rightarrow> model_cost option" where
  "pricing_resolve idx m =
     (case Option.bind (pricing_key m) (pricing_get idx) of Some c \<Rightarrow> Some c | None \<Rightarrow> cost m)"

definition index_key :: "aisix_snapshot \<Rightarrow> nat \<times> nat" where
  "index_key snap = (generation (snap_pricing snap), generation (snap_global_pricing snap))"

type_synonym live_pricing_index = "((nat \<times> nat) \<times> pricing_index) option"

definition for_snapshot ::
    "(pricing resource_table \<Rightarrow> pricing resource_entry list) \<Rightarrow> live_pricing_index \<Rightarrow> aisix_snapshot \<Rightarrow>
     live_pricing_index \<times> pricing_index" where
  "for_snapshot scan c snap =
     (let key = index_key snap;
          fresh = index_build scan snap
      in case c of
           Some (k, i) \<Rightarrow> if k = key then (c, i) else (Some (key, fresh), fresh)
         | None \<Rightarrow> (Some (key, fresh), fresh))"

section \<open>The latest write wins\<close>

text \<open>The row whose price stands for a key: the one with the largest revision, then id.\<close>

definition standing :: "pricing resource_entry set \<Rightarrow> string \<Rightarrow> pricing resource_entry \<Rightarrow> bool" where
  "standing R k e \<longleftrightarrow> e \<in> R \<and> pr_key (re_value e) = k \<and>
     (\<forall>r \<in> R. pr_key (re_value r) = k \<longrightarrow> (re_revision r, re_id r) \<le> (re_revision e, re_id e))"

definition priced_of :: "pricing resource_entry \<Rightarrow> priced" where
  "priced_of e = (re_revision e, re_id e, cost_of (re_value e))"

definition flat_inv :: "(string \<rightharpoonup> priced) \<Rightarrow> pricing resource_entry set \<Rightarrow> bool" where
  "flat_inv out R \<longleftrightarrow>
     (\<forall>k. case out k of
            None \<Rightarrow> \<forall>r \<in> R. pr_key (re_value r) \<noteq> k
          | Some p \<Rightarrow> \<exists>e. standing R k e \<and> p = priced_of e)"

lemma flat_inv_step:
  assumes inv: "flat_inv out R"
  shows "flat_inv (case out (pr_key (re_value e)) of
           Some current \<Rightarrow>
             if (fst current, fst (snd current)) \<ge> (re_revision e, re_id e) then out
             else out(pr_key (re_value e) \<mapsto> priced_of e)
         | None \<Rightarrow> out(pr_key (re_value e) \<mapsto> priced_of e)) (insert e R)"
    (is "flat_inv ?out _")
proof -
  let ?k = "pr_key (re_value e)"
  have other: "standing (insert e R) k r \<longleftrightarrow> standing R k r" if "k \<noteq> ?k" for k r
    using that by (auto simp: standing_def)
  have "case ?out k of None \<Rightarrow> \<forall>r \<in> insert e R. pr_key (re_value r) \<noteq> k
        | Some p \<Rightarrow> \<exists>r. standing (insert e R) k r \<and> p = priced_of r" for k
  proof (cases "k = ?k")
    case False
    then have "?out k = out k" by (simp split: option.split)
    then show ?thesis
      using inv [unfolded flat_inv_def, rule_format, of k] False by (auto simp: other split: option.splits)
  next
    case True
    show ?thesis
    proof (cases "out ?k")
      case None
      then have "standing (insert e R) ?k e"
        using inv [unfolded flat_inv_def, rule_format, of ?k] by (auto simp: standing_def)
      with None True show ?thesis by auto
    next
      case (Some p)
      then obtain r where r: "standing R ?k r" "p = priced_of r"
        using inv [unfolded flat_inv_def, rule_format, of ?k] by auto
      show ?thesis
      proof (cases "(re_revision e, re_id e) \<le> (re_revision r, re_id r)")
        case True
        with r have "standing (insert e R) ?k r" by (auto simp: standing_def)
        with Some r True \<open>k = ?k\<close> show ?thesis by (auto simp: priced_of_def)
      next
        case False
        then have less: "(re_revision r, re_id r) < (re_revision e, re_id e)" by (simp only: not_le)
        have "standing (insert e R) ?k e"
          unfolding standing_def
        proof (intro conjI ballI impI)
          fix x assume "x \<in> insert e R" "pr_key (re_value x) = ?k"
          then consider "x = e" | "(re_revision x, re_id x) \<le> (re_revision r, re_id r)"
            using r(1) unfolding standing_def by blast
          then show "(re_revision x, re_id x) \<le> (re_revision e, re_id e)"
          proof cases
            case 2
            from le_less_trans [OF this less] show ?thesis by (rule less_imp_le)
          qed simp
        qed simp_all
        with Some r False \<open>k = ?k\<close> show ?thesis by (auto simp: priced_of_def)
      qed
    qed
  qed
  then show ?thesis unfolding flat_inv_def by blast
qed

lemma flatten_loop_inv:
  assumes "flat_inv out R"
  shows "flat_inv (flatten_loop out es) (R \<union> set es)"
  using assms
proof (induction es arbitrary: out R)
  case (Cons e es)
  let ?out = "case out (pr_key (re_value e)) of
           Some current \<Rightarrow>
             if (fst current, fst (snd current)) \<ge> (re_revision e, re_id e) then out
             else out(pr_key (re_value e) \<mapsto> priced_of e)
         | None \<Rightarrow> out(pr_key (re_value e) \<mapsto> priced_of e)"
  have "flatten_loop out (e # es) = flatten_loop ?out es"
    by (simp add: Let_def priced_of_def split: option.split)
  then show ?case using Cons.IH [OF flat_inv_step [OF Cons.prems]] by simp
qed simp

lemma standing_unique:
  assumes "standing R k a" and "standing R k b" and "\<And>x y. x \<in> R \<Longrightarrow> y \<in> R \<Longrightarrow> re_id x = re_id y \<Longrightarrow> x = y"
  shows "a = b"
proof -
  have "(re_revision a, re_id a) = (re_revision b, re_id b)"
  proof (rule antisym)
    show "(re_revision a, re_id a) \<le> (re_revision b, re_id b)"
      using assms(1,2) unfolding standing_def by blast
    show "(re_revision b, re_id b) \<le> (re_revision a, re_id a)"
      using assms(1,2) unfolding standing_def by blast
  qed
  with assms show ?thesis by (auto simp: standing_def)
qed

lemma flatten_standing:
  assumes "table_ok pricing_nm t" and "enumerates t (scan t)"
  shows "flatten scan t k = Some p \<longleftrightarrow> (\<exists>e. standing (ran (by_id t)) k e \<and> p = priced_of e)"
proof -
  have inv: "flat_inv (flatten scan t) (ran (by_id t))"
  proof -
    have "flat_inv (flatten_loop Map.empty (scan t)) (set (scan t))"
      using flatten_loop_inv [of Map.empty "{}" "scan t"] by (simp add: flat_inv_def)
    then show ?thesis using assms unfolding flatten_def enumerates_scan [OF assms] by (simp add: enumerates_def)
  qed
  have uniq: "x = y" if "x \<in> ran (by_id t)" "y \<in> ran (by_id t)" "re_id x = re_id y" for x y
    using enumerates_ids [OF assms, of x y] that assms(2) by (simp add: enumerates_def)
  show ?thesis
  proof (cases "flatten scan t k")
    case None
    with inv [unfolded flat_inv_def, rule_format, of k] show ?thesis by (auto simp: standing_def)
  next
    case (Some q)
    with inv [unfolded flat_inv_def, rule_format, of k] obtain e where
      e: "standing (ran (by_id t)) k e" "q = priced_of e" by auto
    show ?thesis
    proof
      assume "flatten scan t k = Some p"
      with Some e show "\<exists>e. standing (ran (by_id t)) k e \<and> p = priced_of e" by auto
    next
      assume "\<exists>e. standing (ran (by_id t)) k e \<and> p = priced_of e"
      then obtain r where r: "standing (ran (by_id t)) k r" "p = priced_of r" by blast
      have "r = e" by (rule standing_unique [OF r(1) e(1)]) (rule uniq)
      with Some e r show "flatten scan t k = Some p" by simp
    qed
  qed
qed

section \<open>The cache\<close>

interpretation pricing_cache: generation_cache index_key "index_build scan" id "for_snapshot scan"
  by unfold_locales (auto simp: for_snapshot_def Let_def split: option.splits if_splits)

section \<open>Main results\<close>

text \<open>The price of a model is the latest write: whatever order the rows are met in, a pricing key
  names the row of the environment's table with the largest revision (then id), else such a row of the
  global table, else the model falls back to its inline cost.\<close>

theorem pricing_latest_write_wins:
  assumes "snapshot_ok snap" and "pricing_key m = Some k"
    and "enumerates (snap_pricing snap) (scan (snap_pricing snap))"
    and "enumerates (snap_global_pricing snap) (scan (snap_global_pricing snap))"
  shows "(\<forall>e. standing (ran (by_id (snap_pricing snap))) k e \<longrightarrow>
            pricing_resolve (index_build scan snap) m = Some (cost_of (re_value e))) \<and>
         (\<forall>e. (\<nexists>r. standing (ran (by_id (snap_pricing snap))) k r) \<and>
              standing (ran (by_id (snap_global_pricing snap))) k e \<longrightarrow>
            pricing_resolve (index_build scan snap) m = Some (cost_of (re_value e))) \<and>
         ((\<nexists>r. standing (ran (by_id (snap_pricing snap))) k r) \<and>
          (\<nexists>r. standing (ran (by_id (snap_global_pricing snap))) k r) \<longrightarrow>
            pricing_resolve (index_build scan snap) m = cost m)"
proof -
  have env: "flatten scan (snap_pricing snap) k = Some p \<longleftrightarrow>
      (\<exists>e. standing (ran (by_id (snap_pricing snap))) k e \<and> p = priced_of e)" for p
    using assms(1,3,4) by (intro flatten_standing) (simp_all add: snapshot_ok_def)
  have glob: "flatten scan (snap_global_pricing snap) k = Some p \<longleftrightarrow>
      (\<exists>e. standing (ran (by_id (snap_global_pricing snap))) k e \<and> p = priced_of e)" for p
    using assms(1,3,4) by (intro flatten_standing) (simp_all add: snapshot_ok_def)
  have res: "pricing_resolve (index_build scan snap) m =
      (case flatten scan (snap_pricing snap) k of
         Some p \<Rightarrow> Some (snd (snd p))
       | None \<Rightarrow> (case flatten scan (snap_global_pricing snap) k of
                   Some p \<Rightarrow> Some (snd (snd p)) | None \<Rightarrow> cost m))"
    using assms(2) by (auto simp: pricing_resolve_def pricing_get_def index_build_def map_add_def
        split: option.splits)
  have none: "flatten scan (snap_pricing snap) k = None" if "\<nexists>r. standing (ran (by_id (snap_pricing snap))) k r"
    using env that by (metis not_None_eq)
  have none': "flatten scan (snap_global_pricing snap) k = None"
    if "\<nexists>r. standing (ran (by_id (snap_global_pricing snap))) k r"
    using glob that by (metis not_None_eq)
  show ?thesis
  proof (intro conjI allI impI)
    fix e assume "standing (ran (by_id (snap_pricing snap))) k e"
    then have "flatten scan (snap_pricing snap) k = Some (priced_of e)" using env by blast
    then show "pricing_resolve (index_build scan snap) m = Some (cost_of (re_value e))"
      by (simp add: res priced_of_def)
  next
    fix e assume "(\<nexists>r. standing (ran (by_id (snap_pricing snap))) k r) \<and>
        standing (ran (by_id (snap_global_pricing snap))) k e"
    then have "flatten scan (snap_pricing snap) k = None"
      "flatten scan (snap_global_pricing snap) k = Some (priced_of e)"
      using none glob by blast+
    then show "pricing_resolve (index_build scan snap) m = Some (cost_of (re_value e))"
      by (simp add: res priced_of_def)
  next
    assume "(\<nexists>r. standing (ran (by_id (snap_pricing snap))) k r) \<and>
        (\<nexists>r. standing (ran (by_id (snap_global_pricing snap))) k r)"
    then show "pricing_resolve (index_build scan snap) m = cost m"
      using none none' by (simp add: res)
  qed
qed

definition demo_price :: "string \<Rightarrow> int \<Rightarrow> f64 \<Rightarrow> pricing resource_entry" where
  "demo_price i r c =
     \<lparr>re_id = i, re_value = \<lparr>pr_key = ''k'', pr_input_per_1k = c, pr_output_per_1k = 0\<rparr>, re_revision = r\<rparr>"

definition demo_priced_snapshot :: aisix_snapshot where
  "demo_priced_snapshot =
     \<lparr>snap_models = table_new, snap_provider_keys = table_new,
      snap_pricing = snd (table_run pricing_nm 1 [Insert (demo_price ''a'' 3 5), Insert (demo_price ''b'' 2 9)]),
      snap_global_pricing = table_new, snap_budgets = table_new, snap_budget_policy = table_new,
      snap_rate_limit_policies = table_new\<rparr>"

lemma demo_priced_rows:
  "by_id (snap_pricing demo_priced_snapshot) = [''a'' \<mapsto> demo_price ''a'' 3 5, ''b'' \<mapsto> demo_price ''b'' 2 9]"
  by (simp add: demo_priced_snapshot_def table_run_rows rows_of_def demo_price_def)

lemma demo_priced_ok: "snapshot_ok demo_priced_snapshot"
  by (simp add: snapshot_ok_def demo_priced_snapshot_def table_run_ok table_new_ok)

definition demo_scan :: "pricing resource_table \<Rightarrow> pricing resource_entry list" where
  "demo_scan t = (case by_id t ''a'' of Some e \<Rightarrow> [demo_price ''b'' 2 9, e] | None \<Rightarrow> [])"

lemma demo_scan_env:
  "enumerates (snap_pricing demo_priced_snapshot) (demo_scan (snap_pricing demo_priced_snapshot))"
proof -
  have "ran (by_id (snap_pricing demo_priced_snapshot)) = {demo_price ''b'' 2 9, demo_price ''a'' 3 5}"
    by (simp add: demo_priced_rows)
  moreover have "demo_scan (snap_pricing demo_priced_snapshot) = [demo_price ''b'' 2 9, demo_price ''a'' 3 5]"
    by (simp add: demo_scan_def demo_priced_rows)
  moreover have "demo_price ''b'' 2 9 \<noteq> demo_price ''a'' 3 5" by (simp add: demo_price_def)
  ultimately show ?thesis by (simp add: enumerates_def)
qed

lemma demo_scan_global:
  "enumerates (snap_global_pricing demo_priced_snapshot) (demo_scan (snap_global_pricing demo_priced_snapshot))"
  by (simp add: enumerates_def demo_scan_def demo_priced_snapshot_def table_new_def)

theorem pricing_latest_write_wins_witness:
  "pricing_resolve (index_build demo_scan demo_priced_snapshot) ((plain_model ''m'')\<lparr>pricing_key := Some ''k''\<rparr>)
   = Some (cost_of (re_value (demo_price ''a'' 3 5)))"
proof -
  have "enumerates (snap_pricing demo_priced_snapshot) (demo_scan (snap_pricing demo_priced_snapshot))"
    by (rule demo_scan_env)
  moreover have "enumerates (snap_global_pricing demo_priced_snapshot)
      (demo_scan (snap_global_pricing demo_priced_snapshot))"
    by (rule demo_scan_global)
  moreover have "standing (ran (by_id (snap_pricing demo_priced_snapshot))) ''k'' (demo_price ''a'' 3 5)"
    by (simp add: standing_def demo_priced_rows, simp add: demo_price_def less_eq_prod_def)
  ultimately show ?thesis
    using pricing_latest_write_wins [OF demo_priced_ok, of "(plain_model ''m'')\<lparr>pricing_key := Some ''k''\<rparr>" "''k''" demo_scan]
    by simp
qed

text \<open>The cached index is never stale: while equal generations mean equal rows, whatever snapshots'
  indices earlier requests left in the cache, a request gets the index of its own snapshot, and the
  cache is left holding an index built for the generations it is filed under.\<close>

theorem pricing_cache_is_exact:
  assumes "\<forall>k i. c = Some (k, i) \<longrightarrow> (\<exists>s \<in> S. k = index_key s \<and> i = index_build scan s)" and "snap \<in> S"
    and "\<forall>a \<in> S. \<forall>b \<in> S. index_key a = index_key b \<longrightarrow>
           by_id (snap_pricing a) = by_id (snap_pricing b) \<and>
           by_id (snap_global_pricing a) = by_id (snap_global_pricing b)"
    and "\<forall>a \<in> S. snapshot_ok a \<and> enumerates (snap_pricing a) (scan (snap_pricing a)) \<and>
           enumerates (snap_global_pricing a) (scan (snap_global_pricing a))"
  shows "snd (for_snapshot scan c snap) = index_build scan snap \<and>
         (\<forall>k i. fst (for_snapshot scan c snap) = Some (k, i) \<longrightarrow>
            (\<exists>s \<in> S. k = index_key s \<and> i = index_build scan s))"
proof -
  have flat: "flatten scan t = flatten scan u"
    if "by_id t = by_id u" "table_ok pricing_nm t" "table_ok pricing_nm u" "enumerates t (scan t)" "enumerates u (scan u)"
    for t u
  proof
    fix k
    have "flatten scan t k = Some p \<longleftrightarrow> flatten scan u k = Some p" for p
      using that by (simp add: flatten_standing)
    then show "flatten scan t k = flatten scan u k" by (metis not_Some_eq)
  qed
  have coherent: "index_build scan a = index_build scan b" if "a \<in> S" "b \<in> S" "index_key a = index_key b" for a b
  proof -
    have same: "by_id (snap_pricing a) = by_id (snap_pricing b)"
      "by_id (snap_global_pricing a) = by_id (snap_global_pricing b)"
      using assms(3) that by blast+
    have ok: "snapshot_ok x" "enumerates (snap_pricing x) (scan (snap_pricing x))"
      "enumerates (snap_global_pricing x) (scan (snap_global_pricing x))" if "x \<in> S" for x
      using assms(4) that by blast+
    have "flatten scan (snap_pricing a) = flatten scan (snap_pricing b)"
      using ok [OF that(1)] ok [OF that(2)] same(1) by (intro flat) (simp_all only: snapshot_ok_def)
    moreover have "flatten scan (snap_global_pricing a) = flatten scan (snap_global_pricing b)"
      using ok [OF that(1)] ok [OF that(2)] same(2) by (intro flat) (simp_all only: snapshot_ok_def)
    ultimately show ?thesis by (simp add: index_build_def)
  qed
  have "snd (for_snapshot scan c snap) = index_build scan snap \<and>
      pricing_cache.holds_built scan S (fst (for_snapshot scan c snap))"
  proof (rule pricing_cache.lookup_exact)
    show "pricing_cache.holds_built scan S c"
      unfolding pricing_cache.holds_built_def id_apply by (rule assms(1))
  qed (rule assms(2), rule coherent)
  then show ?thesis unfolding pricing_cache.holds_built_def id_apply .
qed

theorem pricing_cache_is_exact_witness:
  "snd (for_snapshot demo_scan None demo_priced_snapshot) = index_build demo_scan demo_priced_snapshot"
proof -
  have "enumerates (snap_pricing demo_priced_snapshot) (demo_scan (snap_pricing demo_priced_snapshot))"
    by (rule demo_scan_env)
  moreover have "enumerates (snap_global_pricing demo_priced_snapshot)
      (demo_scan (snap_global_pricing demo_priced_snapshot))"
    by (rule demo_scan_global)
  ultimately show ?thesis
    using pricing_cache_is_exact [of None "{demo_priced_snapshot}" demo_scan demo_priced_snapshot] demo_priced_ok
    by simp
qed

end
