(* ===== verification/Budget.thy ===== *)
theory Budget
  imports Config_Snapshot "HOL-Library.List_Lexorder" "HOL-Library.Char_ord"
begin

text \<open>
  Budget enforcement (\<^verbatim>\<open>crates/aisix-proxy/src/budget.rs\<close>): the index of the budget documents by what each
  caps, the verdict on a key and on a provider key, and the accounting periods. An instant is a number
  of nanoseconds since the epoch. The calendar, the reading and writing of timestamps (\<^verbatim>\<open>chrono\<close>) and the
  rounding of a decimal amount are parameters (\<open>chrono_lib\<close>), as is the order in which a table yields its
  rows (\<open>scan\<close>). Of the authenticated key only what budgets are matched against is kept.
\<close>

section \<open>Periods\<close>

record chrono_lib =
  weekday_from_monday :: "int \<Rightarrow> nat"
  month_first :: "int \<Rightarrow> int"
  add_month :: "int \<Rightarrow> int"
  parse_rfc3339 :: "string \<Rightarrow> int option"
  format_utc :: "int \<Rightarrow> string"
  two_decimals :: "string \<Rightarrow> string option"

definition NANOS_PER_DAY :: int where "NANOS_PER_DAY = 86400000000000"
definition NANOS_PER_SECOND :: int where "NANOS_PER_SECOND = 1000000000"

definition period_start :: "chrono_lib \<Rightarrow> int \<Rightarrow> budget_period \<Rightarrow> int" where
  "period_start lib now period =
     (let day = now div NANOS_PER_DAY;
          first = (case period of
                     PeriodDay \<Rightarrow> day
                   | PeriodWeek \<Rightarrow> day - int (weekday_from_monday lib day)
                   | PeriodMonth \<Rightarrow> month_first lib day)
      in first * NANOS_PER_DAY)"

definition next_period_start :: "chrono_lib \<Rightarrow> int \<Rightarrow> budget_period \<Rightarrow> int" where
  "next_period_start lib start period =
     (case period of
        PeriodDay \<Rightarrow> start + NANOS_PER_DAY
      | PeriodWeek \<Rightarrow> start + 7 * NANOS_PER_DAY
      | PeriodMonth \<Rightarrow> add_month lib (start div NANOS_PER_DAY) * NANOS_PER_DAY)"

fun scope_str :: "budget_scope \<Rightarrow> string" where
  "scope_str BudgetOrg = ''org''"
| "scope_str BudgetEnvironment = ''environment''"
| "scope_str BudgetApiKey = ''api_key''"
| "scope_str BudgetMember = ''member''"
| "scope_str BudgetTeam = ''team''"
| "scope_str BudgetTeamMember = ''team_member''"
| "scope_str BudgetTag = ''tag''"
| "scope_str BudgetProviderKey = ''provider_key''"

fun period_str :: "budget_period \<Rightarrow> string" where
  "period_str PeriodDay = ''day''"
| "period_str PeriodWeek = ''week''"
| "period_str PeriodMonth = ''month''"

fun scope_rank :: "budget_scope \<Rightarrow> nat" where
  "scope_rank BudgetApiKey = 7"
| "scope_rank BudgetMember = 6"
| "scope_rank BudgetTeamMember = 6"
| "scope_rank BudgetTeam = 5"
| "scope_rank BudgetTag = 4"
| "scope_rank BudgetProviderKey = 3"
| "scope_rank BudgetEnvironment = 2"
| "scope_rank BudgetOrg = 1"

section \<open>The index\<close>

type_synonym budget_entry = "budget resource_entry"

record authenticated_key =
  ak_id :: string
  ak_user_id :: "string option"
  ak_team_id :: "string option"
  ak_tags :: "(string \<times> string) list"

record budget_index =
  bi_generation :: nat
  bi_everyone :: "budget_entry list"
  bi_api_key :: "string \<rightharpoonup> budget_entry list"
  bi_member :: "string \<rightharpoonup> budget_entry list"
  bi_team :: "string \<rightharpoonup> budget_entry list"
  bi_team_member :: "string \<rightharpoonup> budget_entry list"
  bi_tag :: "string \<rightharpoonup> budget_entry list"
  bi_provider_key :: "string \<rightharpoonup> budget_entry list"

definition push_under :: "(string \<rightharpoonup> 'a list) \<Rightarrow> string option \<Rightarrow> 'a \<Rightarrow> (string \<rightharpoonup> 'a list)" where
  "push_under m k x = (case k of Some k \<Rightarrow> m(k \<mapsto> unwrap_or (m k) [] @ [x]) | None \<Rightarrow> m)"

definition index_add :: "budget_index \<Rightarrow> budget_entry \<Rightarrow> budget_index" where
  "index_add idx e =
     (let b = re_value e; r = bg_scope_ref b
      in case bg_scope b of
           BudgetOrg \<Rightarrow> idx\<lparr>bi_everyone := bi_everyone idx @ [e]\<rparr>
         | BudgetEnvironment \<Rightarrow> idx\<lparr>bi_everyone := bi_everyone idx @ [e]\<rparr>
         | BudgetTag \<Rightarrow> idx\<lparr>bi_tag := push_under (bi_tag idx) (map_option bt_key (bg_tag b)) e\<rparr>
         | BudgetApiKey \<Rightarrow> idx\<lparr>bi_api_key := push_under (bi_api_key idx) r e\<rparr>
         | BudgetMember \<Rightarrow> idx\<lparr>bi_member := push_under (bi_member idx) r e\<rparr>
         | BudgetTeam \<Rightarrow> idx\<lparr>bi_team := push_under (bi_team idx) r e\<rparr>
         | BudgetTeamMember \<Rightarrow> idx\<lparr>bi_team_member := push_under (bi_team_member idx) r e\<rparr>
         | BudgetProviderKey \<Rightarrow> idx\<lparr>bi_provider_key := push_under (bi_provider_key idx) r e\<rparr>)"

definition budget_index_build ::
    "(budget resource_table \<Rightarrow> budget_entry list) \<Rightarrow> budget resource_table \<Rightarrow> budget_index" where
  "budget_index_build scan t =
     foldl index_add
       \<lparr>bi_generation = generation t, bi_everyone = [], bi_api_key = Map.empty, bi_member = Map.empty,
        bi_team = Map.empty, bi_team_member = Map.empty, bi_tag = Map.empty, bi_provider_key = Map.empty\<rparr>
       (sort_key re_id (entries_of t (scan t)))"

definition listed :: "(string \<rightharpoonup> 'a list) \<Rightarrow> string option \<Rightarrow> 'a list" where
  "listed m k = unwrap_or (Option.bind k m) []"

definition applicable :: "budget_index \<Rightarrow> authenticated_key \<Rightarrow> budget_entry list" where
  "applicable idx auth =
     (let team_member = (if ak_team_id auth \<noteq> None \<and> ak_user_id auth \<noteq> None then ak_team_id auth else None);
          tags = concat (map (\<lambda>(k, v). filter (\<lambda>e. \<exists>t \<in> set_option (bg_tag (re_value e)). bt_value t = v)
                                         (listed (bi_tag idx) (Some k))) (ak_tags auth))
      in bi_everyone idx @ listed (bi_api_key idx) (Some (ak_id auth)) @
         listed (bi_member idx) (ak_user_id auth) @ listed (bi_team idx) (ak_team_id auth) @
         listed (bi_team_member idx) team_member @ tags)"

type_synonym live_budget_index = "budget_index option"

definition for_table ::
    "(budget resource_table \<Rightarrow> budget_entry list) \<Rightarrow> live_budget_index \<Rightarrow> budget resource_table \<Rightarrow>
     live_budget_index \<times> budget_index" where
  "for_table scan c t =
     (let fresh = budget_index_build scan t
      in case c of
           Some i \<Rightarrow> if bi_generation i = generation t then (c, i) else (Some fresh, fresh)
         | None \<Rightarrow> (Some fresh, fresh))"

section \<open>Verdicts\<close>

datatype verdict = Allow | Exceeded budget_reason | Unverified

fun into_result :: "verdict \<Rightarrow> proxy_error option" where
  "into_result Allow = None"
| "into_result (Exceeded r) = Some (BudgetExceeded r)"
| "into_result Unverified = Some BudgetUnverified"

record budget_gate =
  gate_index :: budget_index
  gate_now :: int
  gate_unverified :: bool

text \<open>The grace period is in seconds, the time usage delivery has been failing in milliseconds.\<close>

definition strict_grace :: "budget_policy resource_entry list \<Rightarrow> nat option" where
  "strict_grace es =
     (let graces = map (\<lambda>e. bp_closed_grace_seconds (re_value e))
                     (filter (\<lambda>e. bp_fail_mode (re_value e) = FailClosed) es)
      in if graces = [] then None else Some (Min (set graces)))"

definition gate ::
    "(budget resource_table \<Rightarrow> budget_entry list) \<Rightarrow>
     (budget_policy resource_table \<Rightarrow> budget_policy resource_entry list) \<Rightarrow> live_budget_index \<Rightarrow>
     aisix_snapshot \<Rightarrow> int \<Rightarrow> nat \<Rightarrow> live_budget_index \<times> budget_gate" where
  "gate scan scan_policy c snap now unhealthy_for =
     (let (c', idx) = for_table scan c (snap_budgets snap)
      in (c', \<lparr>gate_index = idx, gate_now = now,
               gate_unverified =
                 (case strict_grace (entries_of (snap_budget_policy snap) (scan_policy (snap_budget_policy snap))) of
                    Some grace \<Rightarrow> unhealthy_for \<ge> grace * 1000
                  | None \<Rightarrow> False)\<rparr>))"

definition mark_in_force :: "chrono_lib \<Rightarrow> budget_gate \<Rightarrow> budget \<Rightarrow> string option \<Rightarrow> bool" where
  "mark_in_force lib g b start =
     (case start of
        None \<Rightarrow> True
      | Some s \<Rightarrow> parse_rfc3339 lib s = Some (period_start lib (gate_now g) (bg_period b)))"

definition in_force_reason ::
    "chrono_lib \<Rightarrow> budget_gate \<Rightarrow> budget \<Rightarrow> string option \<Rightarrow> budget_doc_reason option" where
  "in_force_reason lib g b user_id =
     (let member =
        (if bg_scope b = BudgetTeamMember
         then (case Option.bind user_id (bg_exhausted_members b) of
                 None \<Rightarrow> None
               | Some m \<Rightarrow> if mark_in_force lib g b (Some (bm_period_start m)) then Some (bm_reason m) else None)
         else None)
      in case bg_exhausted b of
           Some x \<Rightarrow> if mark_in_force lib g b (be_period_start x) then Some (be_reason x) else member
         | None \<Rightarrow> member)"

definition replace_underscores :: "string \<Rightarrow> string" where
  "replace_underscores s = map (\<lambda>c. if c = CHR ''_'' then CHR '' '' else c) s"

definition budget_answer :: "chrono_lib \<Rightarrow> budget_gate \<Rightarrow> budget \<Rightarrow> budget_doc_reason \<Rightarrow> budget_reason" where
  "budget_answer lib g b doc =
     (let resets_at = next_period_start lib (period_start lib (gate_now g) (bg_period b)) (bg_period b);
          scope = unwrap_or (bd_scope doc) (scope_str (bg_scope b))
      in \<lparr>br_message = (case bd_message doc of
                          Some m \<Rightarrow> if m \<noteq> [] then m else replace_underscores scope @ '' budget exceeded''
                        | None \<Rightarrow> replace_underscores scope @ '' budget exceeded''),
          br_scope = Some scope,
          br_scope_kind = Some (bg_scope b),
          br_caller_message = None,
          br_scope_ref = (case bd_scope_ref doc of Some r \<Rightarrow> Some r | None \<Rightarrow> bg_scope_ref b),
          br_limit_usd = Option.bind (bd_limit_usd doc) (two_decimals lib),
          br_spent_usd = Option.bind (bd_spent_usd doc) (two_decimals lib),
          br_remaining_usd = Option.bind (bd_remaining_usd doc) (two_decimals lib),
          br_period = Some (period_str (bg_period b)),
          br_period_resets_at = Some (format_utc lib resets_at),
          br_retry_after_seconds = Some (nat (max 0 ((resets_at - gate_now g) div NANOS_PER_SECOND)))\<rparr>)"

text \<open>The loop over the applicable budgets: whether one applied, and the most specific denial so far.\<close>

type_synonym denial = "nat \<times> budget_scope \<times> budget_entry \<times> budget_doc_reason"

fun key_loop ::
    "chrono_lib \<Rightarrow> budget_gate \<Rightarrow> string option \<Rightarrow> bool \<times> denial option \<Rightarrow> budget_entry list \<Rightarrow>
     bool \<times> denial option" where
  "key_loop lib g user_id acc [] = acc"
| "key_loop lib g user_id (applies, denied) (e # es) =
     (let b = re_value e
      in case in_force_reason lib g b user_id of
           None \<Rightarrow> key_loop lib g user_id (True, denied) es
         | Some reason \<Rightarrow>
             (let rank = scope_rank (bg_scope b);
                  better = (case denied of
                              None \<Rightarrow> True
                            | Some (r, scope, _) \<Rightarrow>
                                rank > r \<or> (rank = r \<and> scope_str (bg_scope b) < scope_str scope))
              in key_loop lib g user_id
                   (True, if better then Some (rank, bg_scope b, e, reason) else denied) es))"

definition key_verdict :: "chrono_lib \<Rightarrow> budget_gate \<Rightarrow> authenticated_key \<Rightarrow> verdict" where
  "key_verdict lib g auth =
     (case key_loop lib g (ak_user_id auth) (False, None) (applicable (gate_index g) auth) of
        (_, Some (_, _, e, reason)) \<Rightarrow> Exceeded (budget_answer lib g (re_value e) reason)
      | (applies, None) \<Rightarrow> if applies \<and> gate_unverified g then Unverified else Allow)"

fun first_in_force :: "chrono_lib \<Rightarrow> budget_gate \<Rightarrow> budget_entry list \<Rightarrow> budget_reason option" where
  "first_in_force lib g [] = None"
| "first_in_force lib g (e # es) =
     (case in_force_reason lib g (re_value e) None of
        Some reason \<Rightarrow> Some (budget_answer lib g (re_value e) reason)
      | None \<Rightarrow> first_in_force lib g es)"

definition provider_key_verdict :: "chrono_lib \<Rightarrow> budget_gate \<Rightarrow> string \<Rightarrow> verdict" where
  "provider_key_verdict lib g pk =
     (case bi_provider_key (gate_index g) pk of
        None \<Rightarrow> Allow
      | Some es \<Rightarrow>
          (case first_in_force lib g es of
             Some r \<Rightarrow> Exceeded r
           | None \<Rightarrow> if gate_unverified g then Unverified else Allow))"

definition check_model :: "chrono_lib \<Rightarrow> budget_gate \<Rightarrow> model \<Rightarrow> proxy_error option" where
  "check_model lib g m =
     (case provider_key_id m of
        Some pk \<Rightarrow> into_result (provider_key_verdict lib g pk)
      | None \<Rightarrow> None)"

definition check_provider_key :: "chrono_lib \<Rightarrow> budget_gate \<Rightarrow> string \<Rightarrow> proxy_error option" where
  "check_provider_key lib g pk = into_result (provider_key_verdict lib g pk)"

datatype gauge_update = SetGauges budget_reason | ClearGauges

definition enforce_key :: "chrono_lib \<Rightarrow> budget_gate \<Rightarrow> authenticated_key \<Rightarrow> gauge_update \<times> proxy_error option" where
  "enforce_key lib g auth =
     (let v = key_verdict lib g auth
      in (case v of Exceeded r \<Rightarrow> SetGauges r | _ \<Rightarrow> ClearGauges, into_result v))"

section \<open>What a budget applies to\<close>

definition applies_to :: "authenticated_key \<Rightarrow> budget \<Rightarrow> bool" where
  "applies_to auth b \<longleftrightarrow>
     (case bg_scope b of
        BudgetOrg \<Rightarrow> True
      | BudgetEnvironment \<Rightarrow> True
      | BudgetApiKey \<Rightarrow> bg_scope_ref b = Some (ak_id auth)
      | BudgetMember \<Rightarrow> ak_user_id auth \<noteq> None \<and> bg_scope_ref b = ak_user_id auth
      | BudgetTeam \<Rightarrow> ak_team_id auth \<noteq> None \<and> bg_scope_ref b = ak_team_id auth
      | BudgetTeamMember \<Rightarrow> ak_team_id auth \<noteq> None \<and> ak_user_id auth \<noteq> None \<and> bg_scope_ref b = ak_team_id auth
      | BudgetTag \<Rightarrow> (\<exists>t. bg_tag b = Some t \<and> (bt_key t, bt_value t) \<in> set (ak_tags auth))
      | BudgetProviderKey \<Rightarrow> False)"

text \<open>The index holds, under each key, exactly the rows added so far that are filed there.\<close>

definition filed :: "(budget \<Rightarrow> string option) \<Rightarrow> budget_scope \<Rightarrow> budget_entry list \<Rightarrow> string \<Rightarrow> budget_entry list" where
  "filed ref sc es k = filter (\<lambda>e. bg_scope (re_value e) = sc \<and> ref (re_value e) = Some k) es"

definition index_inv :: "budget_entry list \<Rightarrow> budget_index \<Rightarrow> bool" where
  "index_inv es idx \<longleftrightarrow>
     bi_everyone idx = filter (\<lambda>e. bg_scope (re_value e) \<in> {BudgetOrg, BudgetEnvironment}) es \<and>
     (\<forall>k. listed (bi_api_key idx) (Some k) = filed bg_scope_ref BudgetApiKey es k) \<and>
     (\<forall>k. listed (bi_member idx) (Some k) = filed bg_scope_ref BudgetMember es k) \<and>
     (\<forall>k. listed (bi_team idx) (Some k) = filed bg_scope_ref BudgetTeam es k) \<and>
     (\<forall>k. listed (bi_team_member idx) (Some k) = filed bg_scope_ref BudgetTeamMember es k) \<and>
     (\<forall>k. listed (bi_tag idx) (Some k) = filed (\<lambda>b. map_option bt_key (bg_tag b)) BudgetTag es k) \<and>
     (\<forall>k. listed (bi_provider_key idx) (Some k) = filed bg_scope_ref BudgetProviderKey es k)"

lemma listed_push [simp]:
  "listed (push_under m k x) (Some j) = (if k = Some j then listed m (Some j) @ [x] else listed m (Some j))"
  by (auto simp: listed_def push_under_def split: option.splits)

lemma filed_snoc [simp]:
  "filed ref sc (es @ [e]) k =
     (if bg_scope (re_value e) = sc \<and> ref (re_value e) = Some k then filed ref sc es k @ [e] else filed ref sc es k)"
  by (simp add: filed_def)

lemma index_add_inv: "index_inv es idx \<Longrightarrow> index_inv (es @ [e]) (index_add idx e)"
  by (cases "bg_scope (re_value e)") (simp_all add: index_inv_def index_add_def Let_def)

lemma index_fold_inv: "index_inv es idx \<Longrightarrow> index_inv (es @ fs) (foldl index_add idx fs)"
proof (induction fs arbitrary: es idx)
  case (Cons f fs)
  from Cons.IH [OF index_add_inv [OF Cons.prems, of f]] show ?case by simp
qed simp

lemma build_inv: "index_inv (sort_key re_id (entries_of t (scan t))) (budget_index_build scan t)"
  unfolding budget_index_build_def
  using index_fold_inv [of "[]" _ "sort_key re_id (entries_of t (scan t))"]
  by (simp add: index_inv_def listed_def filed_def)

lemma applicable_filed:
  assumes "index_inv es idx"
  shows "set (applicable idx auth) = {e \<in> set es. applies_to auth (re_value e)}" (is "?L = ?R")
proof -
  have none: "listed m None = []" for m :: "string \<rightharpoonup> budget_entry list" by (simp add: listed_def)
  have tags: "e \<in> set (concat (map (\<lambda>(k, v). filter (\<lambda>e. \<exists>t \<in> set_option (bg_tag (re_value e)). bt_value t = v)
                 (listed (bi_tag idx) (Some k))) (ak_tags auth))) \<longleftrightarrow>
      e \<in> set es \<and> bg_scope (re_value e) = BudgetTag \<and>
      (\<exists>t. bg_tag (re_value e) = Some t \<and> (bt_key t, bt_value t) \<in> set (ak_tags auth))" for e
    using assms by (auto simp: index_inv_def filed_def elim!: bexI [rotated])
  have "e \<in> ?L \<longleftrightarrow> e \<in> ?R" for e
    using assms unfolding applicable_def Let_def set_append Un_iff tags
    by (cases "bg_scope (re_value e)"; cases "ak_user_id auth"; cases "ak_team_id auth")
      (auto simp: index_inv_def filed_def applies_to_def none)
  then show ?thesis by blast
qed

section \<open>The most specific denial\<close>

definition denies :: "chrono_lib \<Rightarrow> budget_gate \<Rightarrow> string option \<Rightarrow> budget_entry \<Rightarrow> bool" where
  "denies lib g u e \<longleftrightarrow> in_force_reason lib g (re_value e) u \<noteq> None"

definition at_least_as_specific :: "budget \<Rightarrow> budget \<Rightarrow> bool" where
  "at_least_as_specific a b \<longleftrightarrow>
     scope_rank (bg_scope a) > scope_rank (bg_scope b) \<or>
     (scope_rank (bg_scope a) = scope_rank (bg_scope b) \<and>
      scope_str (bg_scope a) \<le> scope_str (bg_scope b))"

lemma at_least_as_specific_trans:
  "at_least_as_specific a b \<Longrightarrow> at_least_as_specific b c \<Longrightarrow> at_least_as_specific a c"
  unfolding at_least_as_specific_def by (elim disjE conjE) auto

lemma at_least_as_specific_total: "at_least_as_specific a b \<or> at_least_as_specific b a"
  unfolding at_least_as_specific_def by (metis linorder_less_linear linear)

definition denial_of :: "chrono_lib \<Rightarrow> budget_gate \<Rightarrow> string option \<Rightarrow> budget_entry set \<Rightarrow> denial option \<Rightarrow> bool" where
  "denial_of lib g u E d \<longleftrightarrow>
     (case d of
        None \<Rightarrow> \<forall>e \<in> E. \<not> denies lib g u e
      | Some (r, sc, e, reason) \<Rightarrow>
          e \<in> E \<and> r = scope_rank (bg_scope (re_value e)) \<and> sc = bg_scope (re_value e) \<and>
          in_force_reason lib g (re_value e) u = Some reason \<and>
          (\<forall>f \<in> E. denies lib g u f \<longrightarrow> at_least_as_specific (re_value e) (re_value f)))"

definition denial_step :: "chrono_lib \<Rightarrow> budget_gate \<Rightarrow> string option \<Rightarrow> denial option \<Rightarrow> budget_entry \<Rightarrow> denial option" where
  "denial_step lib g u d e =
     (case in_force_reason lib g (re_value e) u of
        None \<Rightarrow> d
      | Some reason \<Rightarrow>
          if (case d of None \<Rightarrow> True
              | Some (r, sc, _) \<Rightarrow>
                  scope_rank (bg_scope (re_value e)) > r \<or>
                  (scope_rank (bg_scope (re_value e)) = r \<and> scope_str (bg_scope (re_value e)) < scope_str sc))
          then Some (scope_rank (bg_scope (re_value e)), bg_scope (re_value e), e, reason) else d)"

lemma key_loop_fold:
  "key_loop lib g u (a, d) es = (a \<or> es \<noteq> [], foldl (denial_step lib g u) d es)"
proof (induction es arbitrary: a d)
  case (Cons e es)
  have "key_loop lib g u (a, d) (e # es) = key_loop lib g u (True, denial_step lib g u d e) es"
    by (simp add: denial_step_def Let_def split: option.split)
  then show ?case by (simp add: Cons.IH)
qed simp

lemma denial_step_of:
  assumes "denial_of lib g u E d"
  shows "denial_of lib g u (insert e E) (denial_step lib g u d e)"
proof (cases "in_force_reason lib g (re_value e) u")
  case None
  then have "\<not> denies lib g u e" by (simp add: denies_def)
  with None assms show ?thesis
    by (cases d) (auto simp: denial_of_def denial_step_def)
next
  case (Some reason)
  show ?thesis
  proof (cases d)
    case None
    with assms have "\<forall>f \<in> E. \<not> denies lib g u f" by (simp add: denial_of_def)
    with None Some show ?thesis
      by (auto simp: denial_of_def denial_step_def at_least_as_specific_def)
  next
    case d: (Some q)
    obtain r sc f fr where q: "q = (r, sc, f, fr)" by (cases q)
    from assms d q have f: "f \<in> E" "r = scope_rank (bg_scope (re_value f))" "sc = bg_scope (re_value f)"
      "in_force_reason lib g (re_value f) u = Some fr"
      and best: "\<And>x. x \<in> E \<Longrightarrow> denies lib g u x \<Longrightarrow> at_least_as_specific (re_value f) (re_value x)"
      by (auto simp: denial_of_def)
    show ?thesis
    proof (cases "scope_rank (bg_scope (re_value e)) > r \<or>
        (scope_rank (bg_scope (re_value e)) = r \<and> scope_str (bg_scope (re_value e)) < scope_str sc)")
      case True
      then have ef: "at_least_as_specific (re_value e) (re_value f)"
        using f by (auto simp: at_least_as_specific_def)
      have "at_least_as_specific (re_value e) (re_value x)" if "x \<in> insert e E" "denies lib g u x" for x
        using that best at_least_as_specific_trans [OF ef] by (auto simp: at_least_as_specific_def)
      with True d q Some show ?thesis by (simp add: denial_of_def denial_step_def)
    next
      case False
      then have fe: "at_least_as_specific (re_value f) (re_value e)"
        using f by (auto simp: at_least_as_specific_def not_less)
      have step: "denial_step lib g u d e = d" using False d q Some by (auto simp: denial_step_def)
      have "at_least_as_specific (re_value f) (re_value x)" if "x \<in> insert e E" "denies lib g u x" for x
        using that best fe by auto
      with f d q show ?thesis unfolding step by (simp add: denial_of_def)
    qed
  qed
qed

lemma denial_fold: "denial_of lib g u E d \<Longrightarrow> denial_of lib g u (E \<union> set es) (foldl (denial_step lib g u) d es)"
proof (induction es arbitrary: E d)
  case (Cons e es)
  from Cons.IH [OF denial_step_of [OF Cons.prems, of e]] show ?case by simp
qed simp

section \<open>The calendar\<close>

text \<open>What the code relies on of \<^verbatim>\<open>chrono\<close>: weekdays count up from Monday, and a month is the days from its
  first to the day before the first of the next.\<close>

definition calendar_ok :: "chrono_lib \<Rightarrow> bool" where
  "calendar_ok lib \<longleftrightarrow>
     (\<forall>d. int (weekday_from_monday lib d) = (d + 3) mod 7) \<and>
     (\<forall>d. month_first lib d \<le> d \<and> d < add_month lib (month_first lib d)) \<and>
     (\<forall>d e. month_first lib d \<le> e \<and> e < add_month lib (month_first lib d) \<longrightarrow> month_first lib e = month_first lib d)"

lemma period_start_exact [simp]: "period_start lib now p div NANOS_PER_DAY * NANOS_PER_DAY = period_start lib now p"
  by (simp add: period_start_def Let_def NANOS_PER_DAY_def)

lemma same_period_iff:
  assumes "calendar_ok lib"
  shows "period_start lib now p = period_start lib n0 p \<longleftrightarrow>
           period_start lib n0 p \<le> now \<and> now < next_period_start lib (period_start lib n0 p) p"
proof (cases p)
  case PeriodDay
  have "x div NANOS_PER_DAY = y \<longleftrightarrow> y * NANOS_PER_DAY \<le> x \<and> x < y * NANOS_PER_DAY + NANOS_PER_DAY" for x y :: int
    unfolding NANOS_PER_DAY_def by linarith
  then show ?thesis using PeriodDay
    by (simp add: period_start_def next_period_start_def Let_def NANOS_PER_DAY_def)
next
  case PeriodWeek
  define d where "d = now div NANOS_PER_DAY"
  define e where "e = n0 div NANOS_PER_DAY"
  have wd: "int (weekday_from_monday lib x) = (x + 3) mod 7" for x using assms by (simp add: calendar_ok_def)
  have monday: "x - (x + 3) mod 7 = 7 * ((x + 3) div 7) - 3" for x :: int by presburger
  have "(x :: int) div 7 = k \<longleftrightarrow> 7 * k \<le> x \<and> x < 7 * k + 7" for x k by linarith
  then have "d - (d + 3) mod 7 = e - (e + 3) mod 7 \<longleftrightarrow> e - (e + 3) mod 7 \<le> d \<and> d < e - (e + 3) mod 7 + 7"
    unfolding monday by (smt (verit))
  moreover have "y \<le> d \<longleftrightarrow> y * NANOS_PER_DAY \<le> now" "d < y \<longleftrightarrow> now < y * NANOS_PER_DAY" for y
    unfolding d_def NANOS_PER_DAY_def by linarith+
  ultimately show ?thesis using PeriodWeek
    by (simp add: period_start_def next_period_start_def Let_def wd d_def [symmetric] e_def [symmetric])
      (simp add: NANOS_PER_DAY_def algebra_simps)
next
  case PeriodMonth
  define d where "d = now div NANOS_PER_DAY"
  define f where "f = month_first lib (n0 div NANOS_PER_DAY)"
  have "month_first lib d = f \<longleftrightarrow> f \<le> d \<and> d < add_month lib f"
    using assms unfolding calendar_ok_def f_def by metis
  moreover have "y \<le> d \<longleftrightarrow> y * NANOS_PER_DAY \<le> now" "d < y \<longleftrightarrow> now < y * NANOS_PER_DAY" for y
    unfolding d_def NANOS_PER_DAY_def by linarith+
  moreover have "f * NANOS_PER_DAY div NANOS_PER_DAY = f" by (simp add: NANOS_PER_DAY_def)
  ultimately show ?thesis using PeriodMonth
    by (simp add: period_start_def next_period_start_def Let_def d_def [symmetric] f_def [symmetric])
      (simp add: NANOS_PER_DAY_def)
qed

section \<open>The cache\<close>

lemma bi_generation_add [simp]: "bi_generation (index_add idx e) = bi_generation idx"
  by (simp add: index_add_def Let_def split: budget_scope.split)

lemma bi_generation_fold [simp]: "bi_generation (foldl index_add idx es) = bi_generation idx"
  by (induction es arbitrary: idx) simp_all

lemma bi_generation_build [simp]: "bi_generation (budget_index_build scan t) = generation t"
  by (simp add: budget_index_build_def)

interpretation budget_cache: generation_cache generation "budget_index_build scan"
  "map_option (\<lambda>i. (bi_generation i, i))" "for_table scan"
  by unfold_locales (auto simp: for_table_def Let_def split: option.splits if_splits)

section \<open>Main results\<close>

text \<open>C29. The key-level verdict, read off the documents themselves: the request is refused exactly when a
  budget that applies to the key has an exhausted mark in force, with the answer of a most specific such
  budget; with none, strict mode refuses exactly the keys some budget applies to. The index the decision
  runs on is only a faster way to the same rows.\<close>

theorem key_verdict_from_documents:
  assumes "table_ok budget_nm t" and "enumerates t (scan t)" and "gate_index g = budget_index_build scan t"
  shows "let A = {e \<in> ran (by_id t). applies_to auth (re_value e)};
             D = {e \<in> A. denies lib g (ak_user_id auth) e}
         in case key_verdict lib g auth of
              Exceeded r \<Rightarrow> (\<exists>e reason. e \<in> D \<and> in_force_reason lib g (re_value e) (ak_user_id auth) = Some reason \<and>
                 r = budget_answer lib g (re_value e) reason \<and>
                 (\<forall>f \<in> D. at_least_as_specific (re_value e) (re_value f)))
            | Unverified \<Rightarrow> D = {} \<and> A \<noteq> {} \<and> gate_unverified g
            | Allow \<Rightarrow> D = {} \<and> (A = {} \<or> \<not> gate_unverified g)"
proof -
  define A where "A = {e \<in> ran (by_id t). applies_to auth (re_value e)}"
  define es where "es = applicable (gate_index g) auth"
  define d where "d = foldl (denial_step lib g (ak_user_id auth)) None es"
  have A: "set es = A"
    using applicable_filed [OF build_inv [of t scan], of auth] assms
    by (simp add: es_def A_def enumerates_scan enumerates_def)
  have v: "key_verdict lib g auth =
      (case d of Some (_, _, e, reason) \<Rightarrow> Exceeded (budget_answer lib g (re_value e) reason)
       | None \<Rightarrow> if es \<noteq> [] \<and> gate_unverified g then Unverified else Allow)"
    by (simp add: key_verdict_def key_loop_fold es_def [symmetric] d_def [symmetric] split: option.split)
  have D: "denial_of lib g (ak_user_id auth) A d"
    using denial_fold [of lib g "ak_user_id auth" "{}" None es] A by (simp add: d_def denial_of_def)
  show ?thesis
  proof (cases d)
    case None
    with D have "{e \<in> A. denies lib g (ak_user_id auth) e} = {}" by (auto simp: denial_of_def)
    moreover have "es = [] \<longleftrightarrow> A = {}" using A by auto
    ultimately show ?thesis unfolding A_def [symmetric] v by (auto simp: None)
  next
    case (Some q)
    obtain r sc e reason where q: "q = (r, sc, e, reason)" by (cases q)
    with D Some have "e \<in> A" "in_force_reason lib g (re_value e) (ak_user_id auth) = Some reason"
      "\<forall>f \<in> A. denies lib g (ak_user_id auth) f \<longrightarrow> at_least_as_specific (re_value e) (re_value f)"
      by (auto simp: denial_of_def)
    then show ?thesis unfolding A_def [symmetric] v by (auto simp: Some q denies_def)
  qed
qed

text \<open>A provider key is refused exactly when one of its own budgets has a mark in force, or in strict
  mode when it has a budget at all.\<close>

theorem provider_key_verdict_from_documents:
  assumes "table_ok budget_nm t" and "enumerates t (scan t)" and "gate_index g = budget_index_build scan t"
  shows "let B = {e \<in> ran (by_id t). bg_scope (re_value e) = BudgetProviderKey \<and> bg_scope_ref (re_value e) = Some pk}
         in (check_provider_key lib g pk = None \<longleftrightarrow>
               (\<forall>e \<in> B. \<not> denies lib g None e) \<and> (B = {} \<or> \<not> gate_unverified g)) \<and>
            ((\<exists>r. check_provider_key lib g pk = Some (BudgetExceeded r)) \<longleftrightarrow> (\<exists>e \<in> B. denies lib g None e))"
proof -
  define B where "B = {e \<in> ran (by_id t). bg_scope (re_value e) = BudgetProviderKey \<and> bg_scope_ref (re_value e) = Some pk}"
  define es where "es = listed (bi_provider_key (gate_index g)) (Some pk)"
  have B: "set es = B"
    using build_inv [of t scan] assms
    by (auto simp: es_def B_def index_inv_def filed_def enumerates_scan enumerates_def)
  have first: "first_in_force lib g xs = None \<longleftrightarrow> (\<forall>e \<in> set xs. \<not> denies lib g None e)" for xs
    by (induction xs) (auto simp: denies_def split: option.splits)
  have v: "provider_key_verdict lib g pk =
      (case first_in_force lib g es of Some r \<Rightarrow> Exceeded r
       | None \<Rightarrow> if es \<noteq> [] \<and> gate_unverified g then Unverified else Allow)"
    if "bi_provider_key (gate_index g) pk \<noteq> Some []"
    using that by (auto simp: provider_key_verdict_def es_def listed_def split: option.splits)
  have ne: "bi_provider_key (foldl index_add idx xs) pk \<noteq> Some []"
    if "bi_provider_key idx pk \<noteq> Some []" for idx xs
    using that
  proof (induction xs arbitrary: idx)
    case (Cons x xs)
    then show ?case
      by (auto simp: index_add_def push_under_def Let_def split: budget_scope.split option.split)
  qed simp
  have "bi_provider_key (gate_index g) pk \<noteq> Some []"
    unfolding assms(3) budget_index_build_def by (rule ne) simp
  from v [OF this] first [of es] B show ?thesis
    unfolding B_def [symmetric] by (cases "first_in_force lib g es") (auto simp: check_provider_key_def Let_def)
qed


definition demo_chrono :: chrono_lib where
  "demo_chrono =
     \<lparr>weekday_from_monday = (\<lambda>d. nat ((d + 3) mod 7)), month_first = (\<lambda>d. d div 30 * 30),
      add_month = (\<lambda>f. f + 30), parse_rfc3339 = (\<lambda>s. if s = ''d1'' then Some 0 else None),
      format_utc = (\<lambda>_. []), two_decimals = Some\<rparr>"

lemma demo_calendar: "calendar_ok demo_chrono"
  unfolding calendar_ok_def
proof (intro conjI allI impI)
  fix d e :: int
  show "int (weekday_from_monday demo_chrono d) = (d + 3) mod 7" by (simp add: demo_chrono_def)
  have "d div 30 * 30 \<le> d" "d < d div 30 * 30 + 30" by linarith+
  then show "month_first demo_chrono d \<le> d" "d < add_month demo_chrono (month_first demo_chrono d)"
    by (simp_all add: demo_chrono_def)
  assume "month_first demo_chrono d \<le> e \<and> e < add_month demo_chrono (month_first demo_chrono d)"
  then have b: "d div 30 * 30 \<le> e" "e < d div 30 * 30 + 30" by (simp_all add: demo_chrono_def)
  have "(x :: int) div 30 = k" if "k * 30 \<le> x" "x < k * 30 + 30" for x k using that by linarith
  from this [OF b] show "month_first demo_chrono e = month_first demo_chrono d" by (simp add: demo_chrono_def)
qed

definition demo_budget :: budget where
  "demo_budget =
     \<lparr>bg_scope = BudgetOrg, bg_scope_ref = None, bg_tag = None, bg_period = PeriodDay,
      bg_exhausted = Some \<lparr>be_period_start = Some ''d1'',
        be_reason = \<lparr>bd_kind = None, bd_code = None, bd_message = None, bd_scope = None, bd_scope_ref = None,
          bd_limit_usd = None, bd_spent_usd = None, bd_remaining_usd = None, bd_period = None\<rparr>\<rparr>,
      bg_exhausted_members = Map.empty\<rparr>"

definition demo_budgets :: "budget resource_table" where
  "demo_budgets = snd (table_run budget_nm 1 [Insert \<lparr>re_id = ''b'', re_value = demo_budget, re_revision = 1\<rparr>])"

definition demo_budget_scan :: "budget resource_table \<Rightarrow> budget_entry list" where
  "demo_budget_scan t = [\<lparr>re_id = ''b'', re_value = demo_budget, re_revision = 1\<rparr>]"

definition demo_gate :: "int \<Rightarrow> budget_gate" where
  "demo_gate now = \<lparr>gate_index = budget_index_build demo_budget_scan demo_budgets, gate_now = now, gate_unverified = False\<rparr>"

definition demo_key :: authenticated_key where
  "demo_key = \<lparr>ak_id = ''k'', ak_user_id = None, ak_team_id = None, ak_tags = []\<rparr>"

lemma demo_budgets_rows: "by_id demo_budgets = [''b'' \<mapsto> \<lparr>re_id = ''b'', re_value = demo_budget, re_revision = 1\<rparr>]"
  by (simp add: demo_budgets_def table_run_rows rows_of_def)

lemma demo_budgets_enum: "enumerates demo_budgets (demo_budget_scan demo_budgets)"
  by (simp add: enumerates_def demo_budgets_rows demo_budget_scan_def)


theorem key_verdict_from_documents_witness:
  "\<exists>r. key_verdict demo_chrono (demo_gate 5) demo_key = Exceeded r"
proof -
  have ok: "table_ok budget_nm demo_budgets" by (simp add: demo_budgets_def table_run_ok)
  have "gate_index (demo_gate 5) = budget_index_build demo_budget_scan demo_budgets" by (simp add: demo_gate_def)
  note t = key_verdict_from_documents [OF ok demo_budgets_enum this, of demo_key demo_chrono]
  have "{e \<in> {e \<in> ran (by_id demo_budgets). applies_to demo_key (re_value e)}.
          denies demo_chrono (demo_gate 5) (ak_user_id demo_key) e} \<noteq> {}"
    by (simp add: demo_budgets_rows applies_to_def denies_def demo_budget_def in_force_reason_def mark_in_force_def
        demo_chrono_def demo_gate_def period_start_def NANOS_PER_DAY_def)
  with t show ?thesis
    by (cases "key_verdict demo_chrono (demo_gate 5) demo_key") (auto simp: Let_def)
qed

theorem provider_key_verdict_from_documents_witness:
  "check_provider_key demo_chrono (demo_gate 5) ''pk'' = None"
proof -
  have ok: "table_ok budget_nm demo_budgets" by (simp add: demo_budgets_def table_run_ok)
  have "gate_index (demo_gate 5) = budget_index_build demo_budget_scan demo_budgets" by (simp add: demo_gate_def)
  from provider_key_verdict_from_documents [OF ok demo_budgets_enum this, of "''pk''" demo_chrono] show ?thesis
    by (auto simp: Let_def demo_budgets_rows demo_budget_def demo_gate_def)
qed

end
