(* ===== verification/Resolve.thy ===== *)
theory Resolve
  imports Dispatch Target_Order Pricing Budget
begin

text \<open>
  From a request to the ordered list of models to attempt
  (\<^verbatim>\<open>crates/aisix-proxy/src/routing.rs\<close>, lines 1382 to 2289): the hash key, the ranking by a metric, the
  filters (provider groups, tags, client IP, budget, resolution, weight, health), the strategy's order,
  the pinning of a conversation to its origin, and the cut at the fallback limit.

  A header map is what the code asks of it: the text of a header by name, and the texts of the cookie
  headers. The clocks read in the course of a request are functions of the reading's index. A metric
  strategy samples each target's metric once per sort.
\<close>

section \<open>The request\<close>

record header_view =
  hv_get :: "string \<Rightarrow> string option"
  hv_cookies :: "string option list"

record routing_request =
  rq_tags :: "string list"
  rq_headers :: "header_view option"
  rq_api_key_id :: string
  rq_source_ip :: string
  rq_context_origin :: "string option"
  rq_budget :: "budget_gate option"
  rq_serves :: "(model \<Rightarrow> bool) option"
  rq_allowed_groups :: "string list"

definition nonempty :: "string \<Rightarrow> string option" where
  "nonempty s = (if s = [] then None else Some s)"

fun cookie_pairs :: "string \<Rightarrow> string list \<Rightarrow> string option" where
  "cookie_pairs name [] = None"
| "cookie_pairs name (pair # pairs) =
     (let (k, v) = splitn2 (CHR ''='') pair;
          v' = trim (unwrap_or v [])
      in if trim k = name \<and> v' \<noteq> [] then Some v' else cookie_pairs name pairs)"

fun cookie_headers :: "string \<Rightarrow> string option list \<Rightarrow> string option" where
  "cookie_headers name [] = None"
| "cookie_headers name (None # hs) = cookie_headers name hs"
| "cookie_headers name (Some raw # hs) =
     (case cookie_pairs name (split_at_char (CHR '';'') raw) of
        Some v \<Rightarrow> Some v
      | None \<Rightarrow> cookie_headers name hs)"

definition cookie_value :: "header_view \<Rightarrow> string \<Rightarrow> string option" where
  "cookie_value hv name = cookie_headers name (hv_cookies hv)"

definition hash_source_value :: "routing_request \<Rightarrow> hash_on_source \<Rightarrow> string option" where
  "hash_source_value req source =
     (case source_type source of
        HashHeader \<Rightarrow>
          Option.bind (source_name source) (\<lambda>name.
            Option.bind (rq_headers req) (\<lambda>h. Option.bind (hv_get h name) (\<lambda>v. nonempty (trim v))))
      | HashCookie \<Rightarrow>
          Option.bind (source_name source) (\<lambda>name. Option.bind (rq_headers req) (\<lambda>h. cookie_value h name))
      | HashApiKey \<Rightarrow> nonempty (trim (rq_api_key_id req))
      | HashClientIp \<Rightarrow> nonempty (trim (rq_source_ip req)))"

fun first_value :: "routing_request \<Rightarrow> hash_on_source list \<Rightarrow> string" where
  "first_value req [] = []"
| "first_value req (s # ss) =
     (case hash_source_value req s of Some v \<Rightarrow> v | None \<Rightarrow> first_value req ss)"

definition resolve_hash_key :: "routing \<Rightarrow> routing_request \<Rightarrow> string" where
  "resolve_hash_key r req = first_value req (hash_on_or_default r)"

section \<open>Ranking by a metric\<close>

definition cost_key :: "f64_ops \<Rightarrow> pricing_index \<Rightarrow> model \<Rightarrow> f64" where
  "cost_key fp idx m =
     (case pricing_resolve idx m of
        Some c \<Rightarrow> f_add fp (mc_input_per_1k c) (mc_output_per_1k c)
      | None \<Rightarrow> F64_INFINITY)"

definition latency_key :: "f64 tracker \<Rightarrow> nat \<Rightarrow> string \<Rightarrow> f64" where
  "latency_key rt inst i =
     (if latency_penalized rt inst i then F64_INFINITY
      else unwrap_or (latency_ewma_ms rt i) F64_NEG_INFINITY)"

definition busy_score :: "f64_ops \<Rightarrow> f64 tracker \<Rightarrow> attempt_model \<Rightarrow> f64" where
  "busy_score fp rt a =
     f_div fp (f_add fp (f_of_nat fp (in_flight_of rt (am_id a))) (f_of_nat fp 1))
       (f_of_nat fp (max (am_weight a) 1))"

definition metric_key ::
    "f64_ops \<Rightarrow> routing_strategy \<Rightarrow> pricing_index \<Rightarrow> f64 tracker \<Rightarrow> nat \<Rightarrow> attempt_model \<Rightarrow> int" where
  "metric_key fp strat idx rt inst a =
     total_key (case strat of
                  LeastCost \<Rightarrow> cost_key fp idx (am_model a)
                | LeastLatency \<Rightarrow> latency_key rt inst (am_id a)
                | _ \<Rightarrow> busy_score fp rt a)"

definition order_attempts_by_metric ::
    "f64_ops \<Rightarrow> routing_strategy \<Rightarrow> pricing_index \<Rightarrow> f64 tracker \<Rightarrow> nat \<Rightarrow> attempt_model list \<Rightarrow> attempt_model list" where
  "order_attempts_by_metric fp strat idx rt inst cands =
     (if is_metric_based strat then sort_key (metric_key fp strat idx rt inst) cands else cands)"

section \<open>Health\<close>

record excluded_candidate =
  ex_id :: string
  ex_model :: string
  ex_reason :: string

definition EXCLUDED_COOLING :: string where "EXCLUDED_COOLING = ''cooling''"
definition EXCLUDED_UNHEALTHY :: string where "EXCLUDED_UNHEALTHY = ''unhealthy''"
definition EXCLUDED_MISSING :: string where "EXCLUDED_MISSING = ''missing''"

datatype filter_outcome =
    Selected "attempt_model list" "excluded_candidate list"
  | AllUnhealthy "nat option" "excluded_candidate list"

definition excluded :: "attempt_model list \<Rightarrow> string \<Rightarrow> excluded_candidate list" where
  "excluded cands reason =
     map (\<lambda>a. \<lparr>ex_id = am_id a, ex_model = display_name (am_model a), ex_reason = reason\<rparr>) cands"

text \<open>Thirty seconds.\<close>

definition FALLBACK_ALL_UNHEALTHY_RETRY_AFTER :: nat where "FALLBACK_ALL_UNHEALTHY_RETRY_AFTER = 30"

definition attempt_status :: "'f tracker \<Rightarrow> nat \<Rightarrow> attempt_model \<Rightarrow> runtime_status" where
  "attempt_status rt now a =
     snap_status (status_with_stale rt now (am_id a)
       (map_option (\<lambda>cfg. bc_stale_after_seconds cfg * 1000) (background_check (am_model a))))"

text \<open>The loop that sorts the candidates by status, reading the clock once for each.\<close>

fun classify_attempts ::
    "'f tracker \<Rightarrow> (nat \<Rightarrow> nat) \<Rightarrow> nat \<Rightarrow> attempt_model list \<Rightarrow>
     attempt_model list \<times> attempt_model list \<times> attempt_model list" where
  "classify_attempts rt clock i [] = ([], [], [])"
| "classify_attempts rt clock i (a # as) =
     (let (healthy, cooling, down) = classify_attempts rt clock (i + 1) as
      in case attempt_status rt (clock i) a of
           StatusUnhealthy \<Rightarrow> (healthy, cooling, a # down)
         | StatusCooldown \<Rightarrow> (healthy, a # cooling, down)
         | _ \<Rightarrow> (a # healthy, cooling, down))"

definition filter_attempt_models ::
    "'f tracker \<Rightarrow> (nat \<Rightarrow> nat) \<Rightarrow> attempt_model list \<Rightarrow> when_all_unavailable_policy \<Rightarrow> filter_outcome" where
  "filter_attempt_models rt clock cands policy =
     (let (healthy, cooling, down) = classify_attempts rt clock 0 cands
      in if healthy \<noteq> []
         then Selected healthy (excluded cooling EXCLUDED_COOLING @ excluded down EXCLUDED_UNHEALTHY)
         else if cooling \<noteq> [] then Selected cooling (excluded down EXCLUDED_UNHEALTHY)
         else (case policy of
                 PolicyFail \<Rightarrow>
                   AllUnhealthy (Some FALLBACK_ALL_UNHEALTHY_RETRY_AFTER) (excluded down EXCLUDED_UNHEALTHY)
               | PolicyTryAnyway \<Rightarrow> Selected cands []))"

section \<open>Filters over targets\<close>

definition provider_key_in_groups :: "provider_key \<Rightarrow> string list \<Rightarrow> bool" where
  "provider_key_in_groups pk allowed \<longleftrightarrow> allowed = [] \<or> list_ex (\<lambda>g. g \<in> set allowed) (pk_groups pk)"

definition target_in_groups :: "aisix_snapshot \<Rightarrow> model \<Rightarrow> string list \<Rightarrow> bool" where
  "target_in_groups snap m allowed \<longleftrightarrow>
     allowed = [] \<or>
     (case Option.bind (provider_key_id m) (get_by_id (snap_provider_keys snap)) of
        Some pk \<Rightarrow> provider_key_in_groups (re_value pk) allowed
      | None \<Rightarrow> False)"

definition model_of_target :: "aisix_snapshot \<Rightarrow> routing_target \<Rightarrow> model resource_entry option" where
  "model_of_target snap t = get_by_name (snap_models snap) (rt_model t)"

definition targets_in_groups :: "aisix_snapshot \<Rightarrow> routing_target list \<Rightarrow> string list \<Rightarrow> routing_target list" where
  "targets_in_groups snap ts allowed =
     (if allowed = [] then ts
      else filter (\<lambda>t. case get_by_name (snap_models snap) (model_ref t snap) of
                          Some e \<Rightarrow> target_in_groups snap (re_value e) allowed
                        | None \<Rightarrow> False) ts)"

definition no_target_in_groups :: proxy_error where
  "no_target_in_groups = AllCandidatesUnavailable None"

definition targets_allowed_for_ip ::
    "('ip, 'net) ip_lib \<Rightarrow> aisix_snapshot \<Rightarrow> routing_target list \<Rightarrow> string \<Rightarrow> routing_target list" where
  "targets_allowed_for_ip lib snap ts source_ip =
     (let allowed = (\<lambda>t. case model_of_target snap t of
                           Some e \<Rightarrow> ip_allowed lib (re_value e) source_ip | None \<Rightarrow> True)
      in if list_all allowed ts then ts else filter allowed ts)"

definition target_verdict :: "chrono_lib \<Rightarrow> aisix_snapshot \<Rightarrow> budget_gate \<Rightarrow> routing_target \<Rightarrow> proxy_error option" where
  "target_verdict lib snap g t =
     (case model_of_target snap t of Some e \<Rightarrow> check_model lib g (re_value e) | None \<Rightarrow> None)"

fun budget_refusal :: "proxy_error option \<Rightarrow> proxy_error option list \<Rightarrow> proxy_error option" where
  "budget_refusal r [] = r"
| "budget_refusal r (None # vs) = budget_refusal r vs"
| "budget_refusal r (Some e # vs) =
     budget_refusal (case r of Some (BudgetExceeded _) \<Rightarrow> r | _ \<Rightarrow> Some e) vs"

definition targets_within_budget ::
    "chrono_lib \<Rightarrow> aisix_snapshot \<Rightarrow> budget_gate \<Rightarrow> routing_target list \<Rightarrow> proxy_error + routing_target list" where
  "targets_within_budget lib snap g ts =
     (let verdict = target_verdict lib snap g
      in if list_all (\<lambda>t. verdict t = None) ts then Inr ts
         else
           (let kept = filter (\<lambda>t. verdict t = None) ts
            in case budget_refusal None (map verdict ts) of
                 Some e \<Rightarrow> if kept = [] then Inl e else Inr kept
               | None \<Rightarrow> Inr kept))"

definition cache_vary_tags :: "model \<Rightarrow> string list \<Rightarrow> string option" where
  "cache_vary_tags m tags =
     (case routing_of m of
        None \<Rightarrow> None
      | Some r \<Rightarrow>
          if tags = [] \<or> \<not> list_ex has_tags (targets r) then None
          else Some (join '','' (remdups_adj (sort tags))))"

definition check_member_ip_access ::
    "('ip, 'net) ip_lib \<Rightarrow> aisix_snapshot \<Rightarrow> string \<Rightarrow> model \<Rightarrow> string list \<Rightarrow> string \<Rightarrow> proxy_error option" where
  "check_member_ip_access lib snap virtual_name m tags source_ip =
     (case routing_of m of
        None \<Rightarrow> None
      | Some r \<Rightarrow>
          (let live = List.map_filter (\<lambda>t. get_by_name (snap_models snap) (model_ref t snap))
                        (eligible_targets (targets r) tags)
           in if live = [] \<or> list_ex (\<lambda>e. ip_allowed lib (re_value e) source_ip) live then None
              else Some (ModelIpRestricted virtual_name)))"

section \<open>Resolution\<close>

definition refuse_ensemble_to_grouped_key :: "string \<Rightarrow> model \<Rightarrow> string list \<Rightarrow> proxy_error option" where
  "refuse_ensemble_to_grouped_key requested m allowed =
     (if is_ensemble m \<and> allowed \<noteq> [] then Some (ModelNotFound requested) else None)"

text \<open>One entry per resolved model, the first kept; \<open>seen\<close> are the names met.\<close>

fun dedupe_targets :: "aisix_snapshot \<Rightarrow> string list \<Rightarrow> routing_target list \<Rightarrow> routing_target list" where
  "dedupe_targets snap seen [] = []"
| "dedupe_targets snap seen (t # ts) =
     (let name = model_ref t snap
      in if name \<in> set seen then dedupe_targets snap seen ts
         else t\<lparr>rt_model := name, rt_model_id := None\<rparr> # dedupe_targets snap (name # seen) ts)"

definition already_normalized :: "routing_target list \<Rightarrow> bool" where
  "already_normalized ts \<longleftrightarrow> list_all (\<lambda>t. rt_model_id t = None) ts \<and> distinct (map rt_model ts)"

definition normalize_targets :: "aisix_snapshot \<Rightarrow> routing_target list \<Rightarrow> routing_target list" where
  "normalize_targets snap ts = (if already_normalized ts then ts else dedupe_targets snap [] ts)"

definition attempt_of :: "routing_target \<Rightarrow> model resource_entry \<Rightarrow> attempt_model" where
  "attempt_of t e =
     \<lparr>am_id = re_id e, am_model = re_value e, am_priority = priority_or_default t, am_weight = weight_or_default t\<rparr>"

definition resolve_candidates :: "aisix_snapshot \<Rightarrow> routing_target list \<Rightarrow> attempt_model list" where
  "resolve_candidates snap ts =
     List.map_filter (\<lambda>t. map_option (attempt_of t) (model_of_target snap t)) ts"

definition missing_targets :: "aisix_snapshot \<Rightarrow> routing_target list \<Rightarrow> excluded_candidate list" where
  "missing_targets snap ts =
     map (\<lambda>t. \<lparr>ex_id = rt_model t, ex_model = rt_model t, ex_reason = EXCLUDED_MISSING\<rparr>)
       (filter (\<lambda>t. model_of_target snap t = None) ts)"

definition drain_zero_weights :: "routing_strategy \<Rightarrow> attempt_model list \<Rightarrow> attempt_model list" where
  "drain_zero_weights strat cs =
     (if strat \<in> {RoundRobin, ConsistentHash, LeastBusy} \<and> list_ex (\<lambda>c. am_weight c > 0) cs
      then filter (\<lambda>c. am_weight c > 0) cs else cs)"

record boundary =
  bo_origin_id :: string
  bo_provider_key_id :: "string option"

definition boundary_of :: "aisix_snapshot \<Rightarrow> string \<Rightarrow> boundary" where
  "boundary_of snap origin =
     \<lparr>bo_origin_id = origin,
      bo_provider_key_id = Option.bind (get_by_id (snap_models snap) origin) (\<lambda>e. provider_key_id (re_value e))\<rparr>"

definition is_origin :: "boundary \<Rightarrow> string \<Rightarrow> bool" where
  "is_origin b i \<longleftrightarrow> bo_origin_id b = i"

definition boundary_contains :: "boundary \<Rightarrow> string \<Rightarrow> string option \<Rightarrow> bool" where
  "boundary_contains b i pk \<longleftrightarrow> is_origin b i \<or> (bo_provider_key_id b \<noteq> None \<and> bo_provider_key_id b = pk)"

fun bring_back :: "aisix_snapshot \<Rightarrow> attempt_model list \<Rightarrow> routing_target list \<Rightarrow> attempt_model list" where
  "bring_back snap cs [] = cs"
| "bring_back snap cs (t # ts) =
     (case model_of_target snap t of
        None \<Rightarrow> bring_back snap cs ts
      | Some e \<Rightarrow>
          if list_ex (\<lambda>a. am_id a = re_id e) cs then bring_back snap cs ts
          else bring_back snap (cs @ [attempt_of t e]) ts)"

text \<open>The clock of the second status reading is a function of the position among the inside targets.\<close>

definition pin_context_origin ::
    "aisix_snapshot \<Rightarrow> 'f tracker \<Rightarrow> (nat \<Rightarrow> nat) \<Rightarrow> routing_target list \<Rightarrow> attempt_model list \<Rightarrow> string \<Rightarrow>
     attempt_model list" where
  "pin_context_origin snap rt clock ts resolved origin =
     (let b = boundary_of snap origin;
          cs = bring_back snap resolved ts;
          is_in = (\<lambda>a. boundary_contains b (am_id a) (provider_key_id (am_model a)));
          inside = sort_key (\<lambda>a. if is_origin b (am_id a) then 0 else (1 :: nat)) (filter is_in cs);
          outside = filter (\<lambda>a. \<not> is_in a) cs;
          tagged = map (\<lambda>(i, a). (a, attempt_status rt (clock i) a \<in> {StatusUnhealthy, StatusCooldown}))
                     (enumerate 0 inside)
      in map fst (filter (\<lambda>(_, down). \<not> down) tagged) @ outside @ map fst (filter (\<lambda>(_, down). down) tagged))"

text \<open>The log lines written, with the tracker that remembers them.\<close>

fun log_candidate_exclusions ::
    "'f tracker \<Rightarrow> nat \<Rightarrow> string \<Rightarrow> excluded_candidate list \<Rightarrow> 'f tracker \<times> excluded_candidate list" where
  "log_candidate_exclusions rt inst virtual_name [] = (rt, [])"
| "log_candidate_exclusions rt inst virtual_name (x # xs) =
     (let (rt1, write) = should_log_exclusion rt inst virtual_name (ex_id x) (ex_reason x);
          (rt2, lines) = log_candidate_exclusions rt1 inst virtual_name xs
      in (rt2, if write then x # lines else lines))"

record ('ip, 'net) resolve_env =
  rv_fp :: f64_ops
  rv_ip :: "('ip, 'net) ip_lib"
  rv_chrono :: chrono_lib
  rv_scan :: "pricing resource_table \<Rightarrow> pricing resource_entry list"
  rv_clock :: "nat \<Rightarrow> nat"
  rv_pin_clock :: "nat \<Rightarrow> nat"
  rv_inst :: nat

record resolve_state =
  rs_registry :: routing_registry
  rs_runtime :: "f64 tracker"
  rs_pricing :: live_pricing_index
  rs_lines :: "excluded_candidate list"

definition log_dropped ::
    "('ip, 'net) resolve_env \<Rightarrow> resolve_state \<Rightarrow> string \<Rightarrow> excluded_candidate list \<Rightarrow> resolve_state" where
  "log_dropped env st virtual_name dropped =
     (let (rt, lines) = log_candidate_exclusions (rs_runtime st) (rv_inst env) virtual_name dropped
      in st\<lparr>rs_runtime := rt, rs_lines := rs_lines st @ lines\<rparr>)"

text \<open>The part of resolution that only narrows the targets: the targets left, or the answer. An empty
  list is the answer of a route none of the targets can serve.\<close>

definition narrow_targets ::
    "('ip, 'net) resolve_env \<Rightarrow> aisix_snapshot \<Rightarrow> string \<Rightarrow> routing \<Rightarrow> routing_request \<Rightarrow>
     (proxy_error + attempt_model list) + routing_target list" where
  "narrow_targets env snap virtual_name r req =
     (let grouped = targets_in_groups snap (targets r) (rq_allowed_groups req)
      in if grouped = [] then Inl (Inl no_target_in_groups)
      else
        (let eligible = eligible_targets grouped (rq_tags req)
         in if eligible = []
            then (if rq_allowed_groups req \<noteq> [] then Inl (Inl no_target_in_groups)
                  else Inl (Inl (InvalidRequest
                         (''no routing target matches request tags '' @ debug_strings (rq_tags req)))))
            else
              (let normal = normalize_targets snap eligible;
                   served = (case rq_serves req of
                               Some serves \<Rightarrow>
                                 filter (\<lambda>t. case model_of_target snap t of
                                               Some e \<Rightarrow> serves (re_value e) | None \<Rightarrow> False) normal
                             | None \<Rightarrow> normal)
               in if rq_serves req \<noteq> None \<and> served = [] then Inl (Inr [])
                  else
                    (let near = targets_allowed_for_ip (rv_ip env) snap served (rq_source_ip req)
                     in if near = [] then Inl (Inl (ModelIpRestricted virtual_name))
                        else (case rq_budget req of
                                None \<Rightarrow> Inr near
                              | Some g \<Rightarrow>
                                  (case targets_within_budget (rv_chrono env) snap g near of
                                     Inl e \<Rightarrow> Inl (Inl e)
                                   | Inr ts \<Rightarrow> Inr ts))))))"

text \<open>The strategy's order over the targets that are available.\<close>

definition order_available ::
    "('ip, 'net) resolve_env \<Rightarrow> resolve_state \<Rightarrow> aisix_snapshot \<Rightarrow> string \<Rightarrow> routing \<Rightarrow> routing_request \<Rightarrow>
     routing_target list \<Rightarrow> attempt_model list \<Rightarrow> excluded_candidate list \<Rightarrow>
     (resolve_state \<times> (proxy_error + attempt_model list)) option" where
  "order_available env st snap virtual_name r req available cands dropped =
     (let hash_key = (if strategy r = ConsistentHash then resolve_hash_key r req else []);
          rotation = (case rq_serves req of
                        Some _ \<Rightarrow> virtual_name @ PARTIAL_ROUTE_ROTATION
                      | None \<Rightarrow> virtual_name)
      in case pick_targets (rs_registry st) rotation r available hash_key of
           None \<Rightarrow> None
         | Some (reg, names) \<Rightarrow>
             (let st1 = st\<lparr>rs_registry := reg\<rparr>
              in if names = []
                 then Some (st1, Inl (InvalidRequest ''routing model has no targets''))
                 else
                   (let found = List.map_filter
                                  (\<lambda>n. find (\<lambda>a. display_name (am_model a) = n) cands) names;
                        (cache, idx) = (if strategy r = LeastCost
                                        then for_snapshot (rv_scan env) (rs_pricing st1) snap
                                        else (rs_pricing st1, Map.empty));
                        ranked = (if is_metric_based (strategy r)
                                  then sort_key (\<lambda>a. - am_priority a)
                                         (order_attempts_by_metric (rv_fp env) (strategy r) idx
                                            (rs_runtime st1) (rv_inst env) found)
                                  else found);
                        pinned = (case rq_context_origin req of
                                    Some origin \<Rightarrow>
                                      pin_context_origin snap (rs_runtime st1) (rv_pin_clock env) available ranked origin
                                  | None \<Rightarrow> ranked);
                        resolved = take (max_fallbacks_or_default r + 1) pinned
                    in Some (log_dropped env (st1\<lparr>rs_pricing := cache\<rparr>) virtual_name dropped, Inr resolved))))"

definition resolve_group ::
    "('ip, 'net) resolve_env \<Rightarrow> resolve_state \<Rightarrow> aisix_snapshot \<Rightarrow> string \<Rightarrow> routing \<Rightarrow> routing_request \<Rightarrow>
     routing_target list \<Rightarrow> (resolve_state \<times> (proxy_error + attempt_model list)) option" where
  "resolve_group env st snap virtual_name r req eligible =
     (let missing = missing_targets snap eligible;
          candidates = resolve_candidates snap eligible
      in if candidates = []
         then Some (log_dropped env st virtual_name missing,
                    Inl (InvalidRequest ''routing model has no target that resolves to a Model''))
         else
           (case filter_attempt_models (rs_runtime st) (rv_clock env)
                   (drain_zero_weights (strategy r) candidates) (when_all_unavailable_or_default r) of
              AllUnhealthy retry ex \<Rightarrow>
                Some (log_dropped env st virtual_name (missing @ ex), Inl (AllCandidatesUnavailable retry))
            | Selected cands ex \<Rightarrow>
                (let available = (if length cands = length eligible then eligible
                                  else filter (\<lambda>t. list_ex (\<lambda>a. display_name (am_model a) = rt_model t) cands) eligible)
                 in order_available env st snap virtual_name r req available cands (missing @ ex))))"

definition resolve_attempt_models ::
    "('ip, 'net) resolve_env \<Rightarrow> resolve_state \<Rightarrow> aisix_snapshot \<Rightarrow> string \<Rightarrow> string \<Rightarrow> model \<Rightarrow> routing_request \<Rightarrow>
     (resolve_state \<times> (proxy_error + attempt_model list)) option" where
  "resolve_attempt_models env st snap virtual_name virtual_id m req =
     (case refuse_ensemble_to_grouped_key virtual_name m (rq_allowed_groups req) of
        Some e \<Rightarrow> Some (st, Inl e)
      | None \<Rightarrow>
          (case routing_of m of
             None \<Rightarrow>
               (if \<not> is_semantic m \<and> \<not> target_in_groups snap m (rq_allowed_groups req)
                then Some (st, Inl no_target_in_groups)
                else (case Option.bind (rq_budget req) (\<lambda>g. check_model (rv_chrono env) g m) of
                        Some e \<Rightarrow> Some (st, Inl e)
                      | None \<Rightarrow>
                          Some (st, Inr [\<lparr>am_id = virtual_id, am_model = m, am_priority = 0, am_weight = 1\<rparr>])))
           | Some r \<Rightarrow>
               (case narrow_targets env snap virtual_name r req of
                  Inl answer \<Rightarrow> Some (st, answer)
                | Inr eligible \<Rightarrow> resolve_group env st snap virtual_name r req eligible)))"

end
