(* ===== verification/Resolve_Results.thy ===== *)
theory Resolve_Results
  imports Resolve
begin

text \<open>
  What the resolution of a routing group guarantees: the hard constraints (provider groups, client IP,
  budget) hold for every model it hands to the fail-over walk, on every path and under every policy;
  the list is bounded, without duplicates and ordered; and health is respected.
\<close>

section \<open>Filters only narrow\<close>

lemma targets_in_groups_sub: "set (targets_in_groups snap ts allowed) \<subseteq> set ts"
  by (auto simp: targets_in_groups_def)

lemma eligible_targets_sub: "set (eligible_targets ts tags) \<subseteq> set ts"
  by (auto simp: eligible_targets_def default_targets_def Let_def split: if_splits)

lemma targets_in_groups_ok:
  assumes "t \<in> set (targets_in_groups snap ts allowed)" and "allowed \<noteq> []"
  shows "\<exists>e. get_by_name (snap_models snap) (model_ref t snap) = Some e \<and> target_in_groups snap (re_value e) allowed"
  using assms by (auto simp: targets_in_groups_def split: option.splits)

lemma dedupe_targets_in:
  "u \<in> set (dedupe_targets snap seen ts) \<Longrightarrow>
     \<exists>t \<in> set ts. u = t\<lparr>rt_model := model_ref t snap, rt_model_id := None\<rparr> \<and> model_ref t snap \<notin> set seen"
  by (induction snap seen ts rule: dedupe_targets.induct) (auto simp: Let_def split: if_splits)

lemma dedupe_targets_distinct: "distinct (map rt_model (dedupe_targets snap seen ts))"
proof (induction snap seen ts rule: dedupe_targets.induct)
  case (2 snap seen t ts)
  have "model_ref t snap \<notin> rt_model ` set (dedupe_targets snap (model_ref t snap # seen) ts)"
    using dedupe_targets_in [of _ snap "model_ref t snap # seen" ts] by force
  with 2 show ?case by (auto simp: Let_def)
qed simp

lemma normalize_targets_in:
  assumes "u \<in> set (normalize_targets snap ts)"
  shows "\<exists>t \<in> set ts. rt_model u = model_ref t snap \<and> rt_priority u = rt_priority t \<and> rt_weight u = rt_weight t"
proof (cases "already_normalized ts")
  case True
  with assms have "u \<in> set ts" "rt_model_id u = None"
    by (auto simp: normalize_targets_def already_normalized_def list_all_iff)
  then show ?thesis by (intro bexI [of _ u]) (simp_all add: model_ref_def resolve_model_ref_def)
next
  case False
  with assms dedupe_targets_in [of u snap "[]" ts] show ?thesis by (auto simp: normalize_targets_def)
qed

lemma normalize_targets_distinct: "distinct (map rt_model (normalize_targets snap ts))"
  by (simp add: normalize_targets_def already_normalized_def dedupe_targets_distinct)

lemma budget_refusal_sub: "\<forall>v \<in> set vs. v = None \<Longrightarrow> budget_refusal r vs = r"
  by (induction r vs rule: budget_refusal.induct) auto

lemma targets_within_budget_kept:
  "targets_within_budget lib snap g ts = Inr ts' \<Longrightarrow> ts' = filter (\<lambda>t. target_verdict lib snap g t = None) ts"
  by (auto simp: targets_within_budget_def Let_def list_all_iff filter_id_conv split: if_splits option.splits)

lemma targets_allowed_for_ip_filter:
  "targets_allowed_for_ip lib snap ts ip =
     filter (\<lambda>t. case model_of_target snap t of Some e \<Rightarrow> ip_allowed lib (re_value e) ip | None \<Rightarrow> True) ts"
  by (auto simp: targets_allowed_for_ip_def Let_def list_all_iff filter_id_conv)

lemma targets_within_budget_nonempty:
  assumes "targets_within_budget lib snap g ts = Inr ts'" and "ts \<noteq> []"
  shows "ts' \<noteq> []"
proof -
  have refuse: "budget_refusal r vs \<noteq> None" if "r \<noteq> None \<or> (\<exists>v \<in> set vs. v \<noteq> None)" for r and vs :: "proxy_error option list"
    using that by (induction r vs rule: budget_refusal.induct) (auto split: option.splits proxy_error.splits)
  show ?thesis
    using assms refuse [of None "map (target_verdict lib snap g) ts"]
    by (auto simp: targets_within_budget_def Let_def list_all_iff split: if_splits option.splits)
qed

text \<open>What is known of every target left after the narrowing.\<close>

definition admitted :: "('ip, 'net) resolve_env \<Rightarrow> aisix_snapshot \<Rightarrow> routing_request \<Rightarrow> model \<Rightarrow> bool" where
  "admitted env snap req m \<longleftrightarrow>
     target_in_groups snap m (rq_allowed_groups req) \<and>
     ip_allowed (rv_ip env) m (rq_source_ip req) \<and>
     (\<forall>g. rq_budget req = Some g \<longrightarrow> check_model (rv_chrono env) g m = None) \<and>
     (\<forall>serves. rq_serves req = Some serves \<longrightarrow> serves m)"

lemma narrow_shape:
  assumes "narrow_targets env snap v r req = Inr ts"
  shows "ts \<noteq> []" and "distinct (map rt_model ts)"
    and "\<And>t. t \<in> set ts \<Longrightarrow>
           \<exists>u \<in> set (targets r). rt_model t = model_ref u snap \<and> rt_priority t = rt_priority u \<and> rt_weight t = rt_weight u"
    and "\<And>t e. t \<in> set ts \<Longrightarrow> model_of_target snap t = Some e \<Longrightarrow> admitted env snap req (re_value e)"
proof -
  define grouped where "grouped = targets_in_groups snap (targets r) (rq_allowed_groups req)"
  define eligible where "eligible = eligible_targets grouped (rq_tags req)"
  define normal where "normal = normalize_targets snap eligible"
  define served where "served = (case rq_serves req of
      Some serves \<Rightarrow> filter (\<lambda>t. case model_of_target snap t of Some e \<Rightarrow> serves (re_value e) | None \<Rightarrow> False) normal
    | None \<Rightarrow> normal)"
  define near where "near = targets_allowed_for_ip (rv_ip env) snap served (rq_source_ip req)"
  have last: "(case rq_budget req of
       None \<Rightarrow> Inr near
     | Some g \<Rightarrow> (case targets_within_budget (rv_chrono env) snap g near of Inl e \<Rightarrow> Inl (Inl e) | Inr ts \<Rightarrow> Inr ts))
       = (Inr ts :: (proxy_error + attempt_model list) + routing_target list)" and ne: "near \<noteq> []"
    using assms
    unfolding narrow_targets_def Let_def grouped_def [symmetric] eligible_def [symmetric]
      normal_def [symmetric] served_def [symmetric] near_def [symmetric]
    by (simp_all split: if_splits)
  have ts: "ts = (case rq_budget req of None \<Rightarrow> near
      | Some g \<Rightarrow> filter (\<lambda>t. target_verdict (rv_chrono env) snap g t = None) near)"
    using last by (auto split: option.splits sum.splits dest: targets_within_budget_kept)
  show "ts \<noteq> []"
    using last ne by (auto split: option.splits sum.splits dest: targets_within_budget_nonempty)
  have near: "set near \<subseteq> set served" "set served \<subseteq> set normal"
    by (auto simp: near_def targets_allowed_for_ip_filter served_def split: option.splits)
  have sub: "set ts \<subseteq> set near" by (auto simp: ts split: option.splits)
  have dn: "distinct (map rt_model normal)" by (simp add: normal_def normalize_targets_distinct)
  have "distinct (map rt_model served)" using dn by (simp add: served_def distinct_map_filter split: option.split)
  then have "distinct (map rt_model near)" by (simp add: near_def targets_allowed_for_ip_filter distinct_map_filter)
  then show "distinct (map rt_model ts)" by (simp add: ts distinct_map_filter split: option.split)
  have origin: "\<exists>u \<in> set grouped. rt_model t = model_ref u snap \<and> rt_priority t = rt_priority u \<and> rt_weight t = rt_weight u"
    if "t \<in> set ts" for t
    using normalize_targets_in [of t snap eligible] that sub near eligible_targets_sub [of grouped "rq_tags req"]
    unfolding normal_def eligible_def by blast
  then show "\<exists>u \<in> set (targets r). rt_model t = model_ref u snap \<and> rt_priority t = rt_priority u \<and> rt_weight t = rt_weight u"
    if "t \<in> set ts" for t
    using that targets_in_groups_sub [of snap "targets r" "rq_allowed_groups req"] unfolding grouped_def by blast
  fix t e assume t: "t \<in> set ts" and e: "model_of_target snap t = Some e"
  from origin [OF t] obtain u where u: "u \<in> set grouped" "rt_model t = model_ref u snap" by blast
  have "target_in_groups snap (re_value e) (rq_allowed_groups req)"
  proof (cases "rq_allowed_groups req = []")
    case False
    from targets_in_groups_ok [OF u(1) [unfolded grouped_def] False] u(2) e show ?thesis
      by (auto simp: model_of_target_def)
  qed (simp add: target_in_groups_def)
  moreover have "ip_allowed (rv_ip env) (re_value e) (rq_source_ip req)"
    using t sub e by (auto simp: near_def targets_allowed_for_ip_filter)
  moreover have "check_model (rv_chrono env) g (re_value e) = None" if "rq_budget req = Some g" for g
    using t e that by (simp add: ts target_verdict_def)
  moreover have "serves (re_value e)" if "rq_serves req = Some serves" for serves
  proof -
    have "t \<in> set served" using t sub near by blast
    with that e show ?thesis by (simp add: served_def)
  qed
  ultimately show "admitted env snap req (re_value e)" unfolding admitted_def by blast
qed

section \<open>Candidates\<close>

abbreviation nm_of :: "attempt_model \<Rightarrow> string" where
  "nm_of a \<equiv> display_name (am_model a)"

lemma set_map_filter: "set (List.map_filter f xs) = {y. \<exists>x \<in> set xs. f x = Some y}"
  by (force simp: List.map_filter_def image_iff)

lemma candidates_iff:
  "a \<in> set (resolve_candidates snap ts) \<longleftrightarrow> (\<exists>t \<in> set ts. \<exists>e. model_of_target snap t = Some e \<and> a = attempt_of t e)"
  by (auto simp: resolve_candidates_def set_map_filter)

lemma attempt_of_simps [simp]:
  "am_id (attempt_of t e) = re_id e" "am_model (attempt_of t e) = re_value e"
  "am_priority (attempt_of t e) = priority_or_default t" "am_weight (attempt_of t e) = weight_or_default t"
  by (simp_all add: attempt_of_def)

lemma candidate_name:
  "snapshot_ok snap \<Longrightarrow> model_of_target snap t = Some e \<Longrightarrow> nm_of (attempt_of t e) = rt_model t"
  by (simp add: model_of_target_def model_by_name)

lemma candidates_inj_name:
  assumes "snapshot_ok snap" and "distinct (map rt_model ts)"
  shows "inj_on nm_of (set (resolve_candidates snap ts))"
proof (rule inj_onI)
  fix a b assume "a \<in> set (resolve_candidates snap ts)" "b \<in> set (resolve_candidates snap ts)" "nm_of a = nm_of b"
  then obtain t e u f where x: "t \<in> set ts" "model_of_target snap t = Some e" "a = attempt_of t e"
    "u \<in> set ts" "model_of_target snap u = Some f" "b = attempt_of u f" "rt_model t = rt_model u"
    using candidate_name [OF assms(1)] unfolding candidates_iff by metis
  with assms(2) have "t = u" by (simp add: distinct_map inj_on_def)
  with x show "a = b" by simp
qed

lemma candidates_inj_id:
  assumes "snapshot_ok snap" and "distinct (map rt_model ts)"
  shows "inj_on am_id (set (resolve_candidates snap ts))"
proof (rule inj_onI)
  fix a b assume ab: "a \<in> set (resolve_candidates snap ts)" "b \<in> set (resolve_candidates snap ts)" "am_id a = am_id b"
  then obtain t e u f where x: "t \<in> set ts" "model_of_target snap t = Some e" "a = attempt_of t e"
    "u \<in> set ts" "model_of_target snap u = Some f" "b = attempt_of u f"
    unfolding candidates_iff by metis
  have "table_ok model_nm (snap_models snap)" using assms(1) by (simp add: snapshot_ok_def)
  from table_get_by_name(2) [OF this] x ab(3) have "e = f"
    unfolding model_of_target_def by (metis attempt_of_simps(1) option.inject)
  then have "nm_of a = nm_of b" using x by simp
  with candidates_inj_name [OF assms] ab show "a = b" by (auto dest: inj_onD)
qed

lemma candidates_distinct:
  assumes "snapshot_ok snap" and "distinct (map rt_model ts)"
  shows "distinct (resolve_candidates snap ts)"
  using assms(2)
proof (induction ts)
  case (Cons t ts)
  have "attempt_of t e \<notin> set (resolve_candidates snap ts)" if "model_of_target snap t = Some e" for e
  proof
    assume "attempt_of t e \<in> set (resolve_candidates snap ts)"
    then obtain u f where "u \<in> set ts" "model_of_target snap u = Some f" "attempt_of t e = attempt_of u f"
      unfolding candidates_iff by blast
    with candidate_name [OF assms(1)] that have "rt_model t = rt_model u" by metis
    with Cons.prems \<open>u \<in> set ts\<close> show False by force
  qed
  with Cons show ?case by (auto simp: resolve_candidates_def List.map_filter_simps split: option.split)
qed (simp add: resolve_candidates_def List.map_filter_simps)

lemma drain_sub: "set (drain_zero_weights strat cs) \<subseteq> set cs"
  by (auto simp: drain_zero_weights_def split: if_splits)

lemma drain_distinct: "distinct cs \<Longrightarrow> distinct (drain_zero_weights strat cs)"
  by (simp add: drain_zero_weights_def)

lemma drain_nonempty: "cs \<noteq> [] \<Longrightarrow> drain_zero_weights strat cs \<noteq> []"
  by (auto simp: drain_zero_weights_def list_ex_iff filter_empty_conv)

section \<open>Health\<close>

lemma classify_cons:
  assumes "classify_attempts rt clock i (a # xs) = (h, c, d)"
  obtains h' c' d' where "classify_attempts rt clock (i + 1) xs = (h', c', d')"
    and "attempt_status rt (clock i) a \<notin> {StatusUnhealthy, StatusCooldown} \<and> h = a # h' \<and> c = c' \<and> d = d' \<or>
         attempt_status rt (clock i) a = StatusCooldown \<and> h = h' \<and> c = a # c' \<and> d = d' \<or>
         attempt_status rt (clock i) a = StatusUnhealthy \<and> h = h' \<and> c = c' \<and> d = a # d'"
proof -
  obtain h' c' d' where r: "classify_attempts rt clock (i + 1) xs = (h', c', d')" by (metis prod_cases3)
  from assms r that [OF r] show thesis by (simp split: runtime_status.splits)
qed

lemma classify_set: "classify_attempts rt clock i xs = (h, c, d) \<Longrightarrow> set h \<union> set c \<union> set d = set xs"
proof (induction xs arbitrary: i h c d)
  case (Cons a xs)
  obtain h' c' d' where r: "classify_attempts rt clock (i + 1) xs = (h', c', d')"
    and alt: "attempt_status rt (clock i) a \<notin> {StatusUnhealthy, StatusCooldown} \<and> h = a # h' \<and> c = c' \<and> d = d' \<or>
         attempt_status rt (clock i) a = StatusCooldown \<and> h = h' \<and> c = a # c' \<and> d = d' \<or>
         attempt_status rt (clock i) a = StatusUnhealthy \<and> h = h' \<and> c = c' \<and> d = a # d'"
    by (rule classify_cons [OF Cons.prems])
  from alt Cons.IH [OF r] show ?case by (elim disjE conjE) (simp_all add: insert_commute Un_insert_left Un_insert_right)
qed simp

lemma classify_distinct:
  "classify_attempts rt clock i xs = (h, c, d) \<Longrightarrow> distinct xs \<Longrightarrow> distinct h \<and> distinct c \<and> distinct d"
proof (induction xs arbitrary: i h c d)
  case (Cons a xs)
  obtain h' c' d' where r: "classify_attempts rt clock (i + 1) xs = (h', c', d')"
    and alt: "attempt_status rt (clock i) a \<notin> {StatusUnhealthy, StatusCooldown} \<and> h = a # h' \<and> c = c' \<and> d = d' \<or>
         attempt_status rt (clock i) a = StatusCooldown \<and> h = h' \<and> c = a # c' \<and> d = d' \<or>
         attempt_status rt (clock i) a = StatusUnhealthy \<and> h = h' \<and> c = c' \<and> d = a # d'"
    by (rule classify_cons [OF Cons.prems(1)])
  from alt Cons.IH [OF r] classify_set [OF r] Cons.prems(2) show ?case by (elim disjE conjE) auto
qed simp

lemma classify_status:
  "classify_attempts rt clock i xs = (h, c, d) \<Longrightarrow>
     (\<forall>a \<in> set h. \<exists>k. attempt_status rt (clock k) a \<notin> {StatusUnhealthy, StatusCooldown}) \<and>
     (\<forall>a \<in> set c. \<exists>k. attempt_status rt (clock k) a = StatusCooldown) \<and>
     (\<forall>a \<in> set d. \<exists>k. attempt_status rt (clock k) a = StatusUnhealthy)"
proof (induction xs arbitrary: i h c d)
  case (Cons a xs)
  obtain h' c' d' where r: "classify_attempts rt clock (i + 1) xs = (h', c', d')"
    and alt: "attempt_status rt (clock i) a \<notin> {StatusUnhealthy, StatusCooldown} \<and> h = a # h' \<and> c = c' \<and> d = d' \<or>
         attempt_status rt (clock i) a = StatusCooldown \<and> h = h' \<and> c = a # c' \<and> d = d' \<or>
         attempt_status rt (clock i) a = StatusUnhealthy \<and> h = h' \<and> c = c' \<and> d = a # d'"
    by (rule classify_cons [OF Cons.prems])
  note ih = Cons.IH [OF r]
  from alt show ?case
  proof (elim disjE conjE)
    assume eqs: "h = a # h'" "c = c'" "d = d'" and st: "attempt_status rt (clock i) a \<notin> {StatusUnhealthy, StatusCooldown}"
    from st have "\<exists>k. attempt_status rt (clock k) a \<notin> {StatusUnhealthy, StatusCooldown}" by blast
    with ih show ?thesis unfolding eqs by simp
  next
    assume eqs: "h = h'" "c = a # c'" "d = d'" and st: "attempt_status rt (clock i) a = StatusCooldown"
    from st have "\<exists>k. attempt_status rt (clock k) a = StatusCooldown" by blast
    with ih show ?thesis unfolding eqs by simp
  next
    assume eqs: "h = h'" "c = c'" "d = a # d'" and st: "attempt_status rt (clock i) a = StatusUnhealthy"
    from st have "\<exists>k. attempt_status rt (clock k) a = StatusUnhealthy" by blast
    with ih show ?thesis unfolding eqs by simp
  qed
qed simp

lemma classify_parts:
  assumes "classify_attempts rt clock i xs = (h, c, d)"
  shows "set h \<union> set c \<union> set d = set xs"
    and "distinct xs \<Longrightarrow> distinct h \<and> distinct c \<and> distinct d"
    and "\<forall>a \<in> set h. \<exists>k. attempt_status rt (clock k) a \<notin> {StatusUnhealthy, StatusCooldown}"
    and "\<forall>a \<in> set c. \<exists>k. attempt_status rt (clock k) a = StatusCooldown"
    and "\<forall>a \<in> set d. \<exists>k. attempt_status rt (clock k) a = StatusUnhealthy"
  using classify_set [OF assms] classify_distinct [OF assms] classify_status [OF assms] by blast+

lemma filter_selected:
  assumes "filter_attempt_models rt clock xs policy = Selected sel ex"
  shows "set sel \<subseteq> set xs" and "distinct xs \<Longrightarrow> distinct sel" and "xs \<noteq> [] \<Longrightarrow> sel \<noteq> []"
    and "policy = PolicyFail \<Longrightarrow> \<forall>a \<in> set sel. \<exists>k. attempt_status rt (clock k) a \<noteq> StatusUnhealthy"
    and "\<exists>a \<in> set xs. \<forall>k. attempt_status rt (clock k) a \<notin> {StatusUnhealthy, StatusCooldown} \<Longrightarrow>
           \<forall>a \<in> set sel. \<exists>k. attempt_status rt (clock k) a \<notin> {StatusUnhealthy, StatusCooldown}"
proof -
  obtain h c d where r: "classify_attempts rt clock 0 xs = (h, c, d)" by (metis prod_cases3)
  note p = classify_parts [OF r]
  have sel: "sel = (if h \<noteq> [] then h else if c \<noteq> [] then c else xs)"
    and pol: "h = [] \<Longrightarrow> c = [] \<Longrightarrow> policy = PolicyTryAnyway"
    using assms by (auto simp: filter_attempt_models_def r split: if_splits when_all_unavailable_policy.splits)
  show "set sel \<subseteq> set xs" using p(1) by (auto simp: sel)
  show "distinct xs \<Longrightarrow> distinct sel" using p(2) by (simp add: sel)
  show "xs \<noteq> [] \<Longrightarrow> sel \<noteq> []" by (simp add: sel)
  show "\<forall>a \<in> set sel. \<exists>k. attempt_status rt (clock k) a \<noteq> StatusUnhealthy" if "policy = PolicyFail"
    using p(3,4) pol that unfolding sel by (metis insertCI runtime_status.distinct when_all_unavailable_policy.distinct(1))
  show "\<forall>a \<in> set sel. \<exists>k. attempt_status rt (clock k) a \<notin> {StatusUnhealthy, StatusCooldown}"
    if "\<exists>a \<in> set xs. \<forall>k. attempt_status rt (clock k) a \<notin> {StatusUnhealthy, StatusCooldown}"
  proof -
    from that p(1,4,5) have "h \<noteq> []" by fastforce
    then show ?thesis using p(3) by (simp add: sel)
  qed
qed

lemma filter_all_unhealthy:
  assumes "filter_attempt_models rt clock xs policy = AllUnhealthy retry ex"
  shows "policy = PolicyFail \<and> retry = Some FALLBACK_ALL_UNHEALTHY_RETRY_AFTER \<and>
         (\<forall>a \<in> set xs. \<exists>k. attempt_status rt (clock k) a = StatusUnhealthy)"
proof -
  obtain h c d where r: "classify_attempts rt clock 0 xs = (h, c, d)" by (metis prod_cases3)
  note p = classify_parts [OF r]
  have "h = []" "c = []" "policy = PolicyFail" "retry = Some FALLBACK_ALL_UNHEALTHY_RETRY_AFTER"
    using assms by (auto simp: filter_attempt_models_def r split: if_splits when_all_unavailable_policy.splits)
  with p show ?thesis by auto
qed

section \<open>Pinning a conversation\<close>

lemma bring_back_set:
  assumes "\<And>t e. t \<in> set ts \<Longrightarrow> model_of_target snap t = Some e \<Longrightarrow> attempt_of t e \<in> S" and "set cs \<subseteq> S"
  shows "set (bring_back snap cs ts) \<subseteq> S"
  using assms by (induction snap cs ts rule: bring_back.induct) (auto split: option.split)

lemma bring_back_keeps: "set cs \<subseteq> set (bring_back snap cs ts)"
  by (induction snap cs ts rule: bring_back.induct) (auto split: option.split)

lemma bring_back_distinct:
  "distinct (map am_id cs) \<Longrightarrow> distinct (map am_id (bring_back snap cs ts))"
proof (induction snap cs ts rule: bring_back.induct)
  case (2 snap cs t ts)
  show ?case
  proof (cases "model_of_target snap t")
    case (Some e)
    show ?thesis
    proof (cases "list_ex (\<lambda>a. am_id a = re_id e) cs")
      case False
      then have "am_id (attempt_of t e) \<notin> am_id ` set cs" by (auto simp: list_ex_iff)
      with 2(3) [OF Some False] 2(4) have "distinct (map am_id (bring_back snap (cs @ [attempt_of t e]) ts))" by simp
      with False Some show ?thesis by simp
    qed (use 2(2) [OF Some] 2(4) Some in simp)
  qed (use 2(1,4) in simp)
qed simp

lemma mset_split: "mset (filter P xs) + mset (filter (\<lambda>x. \<not> P x) xs) = mset xs"
  by (induction xs) auto

lemma mset_pinned:
  "mset (pin_context_origin snap rt clock ts resolved origin) = mset (bring_back snap resolved ts)"
proof -
  define b where "b = boundary_of snap origin"
  define cs where "cs = bring_back snap resolved ts"
  define is_in where "is_in a = boundary_contains b (am_id a) (provider_key_id (am_model a))" for a :: attempt_model
  define inside where "inside = sort_key (\<lambda>a. if is_origin b (am_id a) then 0 else (1 :: nat)) (filter is_in cs)"
  define tagged where "tagged = map (\<lambda>(i, a). (a, attempt_status rt (clock i) a \<in> {StatusUnhealthy, StatusCooldown}))
    (enumerate 0 inside)"
  have fst: "map fst tagged = inside" by (simp add: tagged_def enumerate_eq_zip zip_map_fst_snd case_prod_unfold comp_def)
  have "image_mset fst (mset (filter (\<lambda>(_, d). \<not> d) tagged)) + image_mset fst (mset (filter (\<lambda>(_, d). d) tagged))
      = image_mset fst (mset tagged)"
    using mset_split [of "\<lambda>(_, d). d" tagged] by (simp add: case_prod_unfold add.commute flip: image_mset_union)
  also have "\<dots> = mset (filter is_in cs)" using fst by (metis inside_def mset_map mset_sort)
  finally have parts: "image_mset fst (mset (filter (\<lambda>(_, d). \<not> d) tagged)) +
      image_mset fst (mset (filter (\<lambda>(_, d). d) tagged)) = mset (filter is_in cs)" .
  have pin: "pin_context_origin snap rt clock ts resolved origin =
      map fst (filter (\<lambda>(_, d). \<not> d) tagged) @ filter (\<lambda>a. \<not> is_in a) cs @ map fst (filter (\<lambda>(_, d). d) tagged)"
    unfolding pin_context_origin_def Let_def b_def cs_def is_in_def inside_def tagged_def by (rule refl)
  show ?thesis
    unfolding pin mset_append mset_map cs_def [symmetric]
    using parts mset_split [of is_in cs] by (metis (no_types, lifting) union_assoc union_commute)
qed

section \<open>The list returned\<close>

text \<open>What \<^verbatim>\<open>resolve_group\<close> computes on the way to a list of models.\<close>

definition available_targets :: "attempt_model list \<Rightarrow> routing_target list \<Rightarrow> routing_target list" where
  "available_targets sel eligible =
     (if length sel = length eligible then eligible
      else filter (\<lambda>t. list_ex (\<lambda>a. nm_of a = rt_model t) sel) eligible)"

lemma resolve_candidates_length:
  "length (resolve_candidates snap ts) = length (filter (\<lambda>t. model_of_target snap t \<noteq> None) ts)"
  by (simp add: resolve_candidates_def List.map_filter_def)

lemma available_selected:
  assumes ok: "snapshot_ok snap" and dist: "distinct (map rt_model eligible)" and sub: "set sel \<subseteq> set (resolve_candidates snap eligible)"
    and ds: "distinct sel" and t: "t \<in> set (available_targets sel eligible)"
  shows "\<exists>e. model_of_target snap t = Some e \<and> attempt_of t e \<in> set sel"
proof (cases "length sel = length eligible")
  case True
  have card: "card (set sel) \<le> card (set (resolve_candidates snap eligible))" using sub by (simp add: card_mono)
  have le: "length (resolve_candidates snap eligible) \<le> length eligible" by (simp add: resolve_candidates_length)
  have sel: "card (set sel) = length eligible" using True ds distinct_card by metis
  from card le sel card_length [of "resolve_candidates snap eligible"]
  have len: "length (resolve_candidates snap eligible) = length eligible"
    and eq: "card (set sel) = card (set (resolve_candidates snap eligible))" by linarith+
  from eq sub have all: "set sel = set (resolve_candidates snap eligible)" by (intro card_subset_eq) auto
  have "t \<in> set eligible" using t True by (simp add: available_targets_def)
  with len have "model_of_target snap t \<noteq> None"
    using length_filter_less [of t eligible "\<lambda>t. model_of_target snap t \<noteq> None"]
    by (metis less_irrefl_nat resolve_candidates_length)
  with \<open>t \<in> set eligible\<close> show ?thesis using all candidates_iff by (metis not_None_eq)
next
  case False
  with t obtain a where a: "a \<in> set sel" "nm_of a = rt_model t" "t \<in> set eligible"
    by (auto simp: available_targets_def list_ex_iff)
  then obtain u e where u: "u \<in> set eligible" "model_of_target snap u = Some e" "a = attempt_of u e"
    using sub candidates_iff by (metis subsetD)
  then have "rt_model u = rt_model t" using candidate_name [OF ok] a by metis
  with u a dist have "u = t" by (simp add: distinct_map inj_on_def)
  with u a show ?thesis by auto
qed

definition found_attempts :: "attempt_model list \<Rightarrow> string list \<Rightarrow> attempt_model list" where
  "found_attempts cands names = List.map_filter (\<lambda>n. find (\<lambda>a. nm_of a = n) cands) names"

definition ranked_attempts ::
    "('ip, 'net) resolve_env \<Rightarrow> routing \<Rightarrow> pricing_index \<Rightarrow> f64 tracker \<Rightarrow> attempt_model list \<Rightarrow> attempt_model list" where
  "ranked_attempts env r idx rt found =
     (if is_metric_based (strategy r)
      then sort_key (\<lambda>a. - am_priority a) (order_attempts_by_metric (rv_fp env) (strategy r) idx rt (rv_inst env) found)
      else found)"

definition pinned_attempts ::
    "('ip, 'net) resolve_env \<Rightarrow> aisix_snapshot \<Rightarrow> f64 tracker \<Rightarrow> routing_request \<Rightarrow> routing_target list \<Rightarrow>
     attempt_model list \<Rightarrow> attempt_model list" where
  "pinned_attempts env snap rt req available ranked =
     (case rq_context_origin req of
        Some origin \<Rightarrow> pin_context_origin snap rt (rv_pin_clock env) available ranked origin
      | None \<Rightarrow> ranked)"

lemma order_available_steps:
  "order_available env st snap v r req available cands dropped =
     (let hash_key = (if strategy r = ConsistentHash then resolve_hash_key r req else []);
          rotation = (case rq_serves req of Some _ \<Rightarrow> v @ PARTIAL_ROUTE_ROTATION | None \<Rightarrow> v)
      in case pick_targets (rs_registry st) rotation r available hash_key of
           None \<Rightarrow> None
         | Some (reg, names) \<Rightarrow>
             (if names = []
              then Some (st\<lparr>rs_registry := reg\<rparr>, Inl (InvalidRequest ''routing model has no targets''))
              else
                (let (cache, idx) = (if strategy r = LeastCost then for_snapshot (rv_scan env) (rs_pricing st) snap
                                     else (rs_pricing st, Map.empty));
                     ranked = ranked_attempts env r idx (rs_runtime st) (found_attempts cands names);
                     pinned = pinned_attempts env snap (rs_runtime st) req available ranked
                 in Some (log_dropped env (st\<lparr>rs_registry := reg, rs_pricing := cache\<rparr>) v dropped,
                          Inr (take (max_fallbacks_or_default r + 1) pinned)))))"
  by (auto simp: order_available_def ranked_attempts_def pinned_attempts_def found_attempts_def Let_def
      split: option.split prod.split)

lemma found_sub: "set (found_attempts cands names) \<subseteq> set cands"
  by (auto simp: found_attempts_def set_map_filter find_Some_iff)

lemma mset_ranked: "mset (ranked_attempts env r idx rt found) = mset found"
  by (simp add: ranked_attempts_def order_attempts_by_metric_def)

lemma set_ranked: "set (ranked_attempts env r idx rt found) = set found"
  by (metis mset_ranked set_mset_mset)

lemma set_pinned:
  assumes "\<And>t e. t \<in> set available \<Longrightarrow> model_of_target snap t = Some e \<Longrightarrow> attempt_of t e \<in> S" and "set ranked \<subseteq> S"
  shows "set (pinned_attempts env snap rt req available ranked) \<subseteq> S"
proof (cases "rq_context_origin req")
  case (Some origin)
  then have "set (pinned_attempts env snap rt req available ranked) = set (bring_back snap ranked available)"
    using mset_pinned by (metis pinned_attempts_def option.simps(5) set_mset_mset)
  with bring_back_set [OF assms] show ?thesis by simp
qed (use assms in \<open>simp add: pinned_attempts_def\<close>)

lemma order_available_sub:
  assumes "order_available env st snap v r req available cands dropped = Some (st', Inr as)"
    and "\<And>t e. t \<in> set available \<Longrightarrow> model_of_target snap t = Some e \<Longrightarrow> attempt_of t e \<in> set cands"
  shows "set as \<subseteq> set cands"
proof -
  obtain names idx where "as = take (max_fallbacks_or_default r + 1)
      (pinned_attempts env snap (rs_runtime st) req available
        (ranked_attempts env r idx (rs_runtime st) (found_attempts cands names)))"
    using assms(1) unfolding order_available_steps Let_def
    by (auto split: option.splits prod.splits if_splits)
  moreover have "set (ranked_attempts env r idx (rs_runtime st) (found_attempts cands names)) \<subseteq> set cands"
    by (simp add: set_ranked found_sub)
  ultimately show ?thesis using set_pinned [OF assms(2)] set_take_subset by (metis subset_trans)
qed

lemma resolve_group_selected:
  assumes ok: "snapshot_ok snap" and dist: "distinct (map rt_model eligible)"
    and res: "resolve_group env st snap v r req eligible = Some (st', Inr as)"
  obtains sel ex where
    "filter_attempt_models (rs_runtime st) (rv_clock env)
       (drain_zero_weights (strategy r) (resolve_candidates snap eligible)) (when_all_unavailable_or_default r) = Selected sel ex"
    and "set as \<subseteq> set sel" and "set sel \<subseteq> set (resolve_candidates snap eligible)"
proof -
  let ?cs = "drain_zero_weights (strategy r) (resolve_candidates snap eligible)"
  obtain sel ex where sel: "filter_attempt_models (rs_runtime st) (rv_clock env) ?cs (when_all_unavailable_or_default r) = Selected sel ex"
    and ord: "order_available env st snap v r req (available_targets sel eligible) sel (missing_targets snap eligible @ ex) = Some (st', Inr as)"
    using res by (auto simp: resolve_group_def available_targets_def Let_def split: if_splits filter_outcome.splits)
  have sub: "set sel \<subseteq> set (resolve_candidates snap eligible)" using filter_selected(1) [OF sel] drain_sub by blast
  have ds: "distinct sel" by (rule filter_selected(2) [OF sel drain_distinct [OF candidates_distinct [OF ok dist]]])
  have "set as \<subseteq> set sel"
    using available_selected [OF ok dist sub ds] by (intro order_available_sub [OF ord]) fastforce
  then show thesis by (rule that [OF sel _ sub])
qed

lemma selected_admitted:
  assumes "narrow_targets env snap v r req = Inr eligible" and "set sel \<subseteq> set (resolve_candidates snap eligible)" and "a \<in> set sel"
  shows "admitted env snap req (am_model a)"
  using assms narrow_shape(4) [OF assms(1)] by (metis attempt_of_simps(2) candidates_iff subsetD)

section \<open>What the strategy's order becomes\<close>

definition target_attempt :: "aisix_snapshot \<Rightarrow> routing_target \<Rightarrow> attempt_model" where
  "target_attempt snap t = attempt_of t (the (model_of_target snap t))"

lemma find_unique:
  assumes "a \<in> set sel" and "inj_on f (set sel)"
  shows "find (\<lambda>b. f b = f a) sel = Some a"
proof -
  have "find (\<lambda>b. f b = f a) sel \<noteq> None" using assms(1) by (auto simp: find_None_iff)
  then obtain b where b: "find (\<lambda>b. f b = f a) sel = Some b" by blast
  then have "b \<in> set sel" "f b = f a" by (auto simp: find_Some_iff)
  with assms b show ?thesis by (metis inj_onD)
qed

lemma found_order:
  assumes ok: "snapshot_ok snap" and inj: "inj_on nm_of (set sel)"
    and res: "\<forall>t \<in> set order. \<exists>e. model_of_target snap t = Some e \<and> attempt_of t e \<in> set sel"
  shows "found_attempts sel (map rt_model order) = map (target_attempt snap) order"
  using res
proof (induction order)
  case (Cons t order)
  then obtain e where e: "model_of_target snap t = Some e" "attempt_of t e \<in> set sel" by auto
  have "find (\<lambda>a. nm_of a = rt_model t) sel = Some (attempt_of t e)"
    using find_unique [OF e(2) inj] candidate_name [OF ok e(1)] by simp
  with Cons e show ?case by (simp add: found_attempts_def List.map_filter_simps target_attempt_def)
qed (simp add: found_attempts_def List.map_filter_simps)

lemma target_attempt_distinct:
  assumes ok: "snapshot_ok snap" and dist: "distinct (map rt_model order)"
    and res: "\<forall>t \<in> set order. model_of_target snap t \<noteq> None"
  shows "distinct (map am_id (map (target_attempt snap) order))"
proof -
  have eq: "resolve_candidates snap order = map (target_attempt snap) order"
    using res by (induction order) (auto simp: resolve_candidates_def List.map_filter_simps target_attempt_def)
  have "distinct (resolve_candidates snap order)" by (rule candidates_distinct [OF ok dist])
  with candidates_inj_id [OF ok dist] show ?thesis unfolding eq [symmetric] by (simp add: distinct_map)
qed

lemma available_distinct: "distinct (map rt_model eligible) \<Longrightarrow> distinct (map rt_model (available_targets sel eligible))"
  by (simp add: available_targets_def distinct_map_filter)

lemma available_covers:
  assumes ok: "snapshot_ok snap" and dist: "distinct (map rt_model eligible)"
    and sub: "set sel \<subseteq> set (resolve_candidates snap eligible)" and ds: "distinct sel"
  shows "mset (map (target_attempt snap) (available_targets sel eligible)) = mset sel"
proof -
  let ?av = "available_targets sel eligible"
  have av: "\<forall>t \<in> set ?av. \<exists>e. model_of_target snap t = Some e \<and> attempt_of t e \<in> set sel"
    using available_selected [OF ok dist sub ds] by blast
  have "target_attempt snap ` set ?av \<subseteq> set sel" using av by (auto simp: target_attempt_def)
  moreover have "a \<in> target_attempt snap ` set ?av" if a: "a \<in> set sel" for a
  proof -
    from a sub obtain t e where t: "t \<in> set eligible" "model_of_target snap t = Some e" "a = attempt_of t e"
      unfolding candidates_iff [symmetric] by (metis candidates_iff subsetD)
    have "nm_of a = rt_model t" using candidate_name [OF ok t(2)] t(3) by simp
    then have "t \<in> set ?av" using t(1) a by (auto simp: available_targets_def list_ex_iff)
    with t show ?thesis by (auto simp: target_attempt_def image_iff intro!: bexI [of _ t])
  qed
  ultimately have "set (map (target_attempt snap) ?av) = set sel" by auto
  moreover have "distinct (map am_id (map (target_attempt snap) ?av))"
    using av by (intro target_attempt_distinct [OF ok available_distinct [OF dist]]) auto
  then have "distinct (map (target_attempt snap) ?av)" by (simp only: distinct_map)
  ultimately show ?thesis using ds set_eq_iff_mset_eq_distinct by blast
qed

lemma pinned_nonempty: "ranked \<noteq> [] \<Longrightarrow> pinned_attempts env snap rt req available ranked \<noteq> []"
proof (cases "rq_context_origin req")
  case (Some origin)
  assume "ranked \<noteq> []"
  then have "bring_back snap ranked available \<noteq> []" using bring_back_keeps [of ranked snap available] by auto
  with Some mset_pinned [of snap rt "rv_pin_clock env" available ranked origin] show ?thesis
    by (auto simp: pinned_attempts_def)
qed (simp add: pinned_attempts_def)

lemma pinned_distinct:
  assumes "distinct (map am_id ranked)"
  shows "distinct (map am_id (pinned_attempts env snap rt req available ranked))"
proof (cases "rq_context_origin req")
  case (Some origin)
  have "mset (map am_id (pin_context_origin snap rt (rv_pin_clock env) available ranked origin)) =
      mset (map am_id (bring_back snap ranked available))" by (simp add: mset_pinned)
  with bring_back_distinct [OF assms, of snap available] Some show ?thesis
    by (metis mset_eq_imp_distinct_iff option.simps(5) pinned_attempts_def)
qed (use assms in \<open>simp add: pinned_attempts_def\<close>)

end
