(* ===== verification/Resolve_Properties.thy ===== *)
theory Resolve_Properties
  imports Resolve_Results
begin

text \<open>
  The guarantees of \<^verbatim>\<open>resolve_attempt_models\<close>: constraints, health, order, bounds and absence of
  panics, on the facts of \<^verbatim>\<open>Resolve_Results\<close>.
\<close>

section \<open>Order\<close>

lemma insort_lex:
  assumes "\<forall>y \<in> set ys. g x \<le> g y" and "sorted_wrt (\<lambda>a b. f a < f b \<or> f a = f b \<and> g a \<le> g b) ys"
  shows "sorted_wrt (\<lambda>a b. f a < f b \<or> f a = f b \<and> g a \<le> g b) (insort_key f x ys)"
  using assms
proof (induction ys)
  case (Cons y ys)
  then show ?case by (auto simp: set_insort_key)
qed simp

lemma sort_key_lex:
  fixes f :: "'a \<Rightarrow> 'b::linorder" and g :: "'a \<Rightarrow> 'c::linorder"
  assumes "sorted (map g xs)"
  shows "sorted_wrt (\<lambda>a b. f a < f b \<or> f a = f b \<and> g a \<le> g b) (sort_key f xs)"
  using assms by (induction xs) (auto intro: insort_lex)

lemma sorted_wrt_take: "sorted_wrt P xs \<Longrightarrow> sorted_wrt P (take n xs)"
  by (metis append_take_drop_id sorted_wrt_append)

text \<open>The order a metric-based strategy promises: priority first, the metric within a priority.\<close>

definition ranks_before :: "(attempt_model \<Rightarrow> int) \<Rightarrow> attempt_model \<Rightarrow> attempt_model \<Rightarrow> bool" where
  "ranks_before key a b \<longleftrightarrow> am_priority b < am_priority a \<or> am_priority a = am_priority b \<and> key a \<le> key b"

lemma ranked_order:
  assumes "is_metric_based (strategy r)"
  shows "sorted_wrt (ranks_before (metric_key (rv_fp env) (strategy r) idx rt (rv_inst env)))
           (ranked_attempts env r idx rt found)"
proof -
  let ?g = "metric_key (rv_fp env) (strategy r) idx rt (rv_inst env)"
  have "ranked_attempts env r idx rt found = sort_key (\<lambda>a. - am_priority a) (sort_key ?g found)"
    using assms by (simp add: ranked_attempts_def order_attempts_by_metric_def)
  moreover have "ranks_before ?g = (\<lambda>a b. - am_priority a < - am_priority b \<or>
      - am_priority a = - am_priority b \<and> ?g a \<le> ?g b)"
    by (auto simp: ranks_before_def fun_eq_iff)
  ultimately show ?thesis using sort_key_lex [of ?g "sort_key ?g found" "\<lambda>a. - am_priority a"] by simp
qed

section \<open>Selection and order together\<close>

text \<open>The rotation key of a request, and the tiers its targets can form.\<close>

definition rotation_name :: "string \<Rightarrow> routing_request \<Rightarrow> string" where
  "rotation_name v req = (case rq_serves req of Some _ \<Rightarrow> v @ PARTIAL_ROUTE_ROTATION | None \<Rightarrow> v)"

definition pick_ready ::
    "routing_registry \<Rightarrow> string \<Rightarrow> routing \<Rightarrow> routing_request \<Rightarrow> routing_target list \<Rightarrow> routing_target list set \<Rightarrow> bool" where
  "pick_ready reg v r req eligible T \<longleftrightarrow>
     registry_sound reg (rotation_name v req) r T \<and> collision_free r T \<and>
     (\<forall>P. set (partition_by_priority (filter P eligible)) \<subseteq> T)"

lemma group_selected:
  assumes ok: "snapshot_ok snap" and narrow: "narrow_targets env snap v r req = Inr eligible"
    and cands: "resolve_candidates snap eligible \<noteq> []"
    and sel: "filter_attempt_models (rs_runtime st) (rv_clock env)
       (drain_zero_weights (strategy r) (resolve_candidates snap eligible)) (when_all_unavailable_or_default r) = Selected sel ex"
  shows "resolve_group env st snap v r req eligible =
           order_available env st snap v r req (available_targets sel eligible) sel (missing_targets snap eligible @ ex)"
    and "mset (map (target_attempt snap) (available_targets sel eligible)) = mset sel"
    and "sel \<noteq> []" and "distinct (map am_id sel)"
    and "\<And>order. set order \<subseteq> set (available_targets sel eligible) \<Longrightarrow>
           found_attempts sel (map rt_model order) = map (target_attempt snap) order"
proof -
  note dist = narrow_shape(2) [OF narrow]
  show "resolve_group env st snap v r req eligible =
           order_available env st snap v r req (available_targets sel eligible) sel (missing_targets snap eligible @ ex)"
    using cands sel by (simp add: resolve_group_def available_targets_def Let_def)
  have sub: "set sel \<subseteq> set (resolve_candidates snap eligible)" using filter_selected(1) [OF sel] drain_sub by blast
  have ds: "distinct sel" by (rule filter_selected(2) [OF sel drain_distinct [OF candidates_distinct [OF ok dist]]])
  show "mset (map (target_attempt snap) (available_targets sel eligible)) = mset sel"
    by (rule available_covers [OF ok dist sub ds])
  show "sel \<noteq> []" by (rule filter_selected(3) [OF sel drain_nonempty [OF cands]])
  show "distinct (map am_id sel)"
    using ds inj_on_subset [OF candidates_inj_id [OF ok dist] sub] by (simp add: distinct_map)
  have inj: "inj_on nm_of (set sel)" by (rule inj_on_subset [OF candidates_inj_name [OF ok dist] sub])
  fix order assume "set order \<subseteq> set (available_targets sel eligible)"
  then show "found_attempts sel (map rt_model order) = map (target_attempt snap) order"
    using available_selected [OF ok dist sub ds] by (intro found_order [OF ok inj]) blast
qed

lemma available_filter: "\<exists>P. available_targets sel eligible = filter P eligible"
proof (cases "length sel = length eligible")
  case True
  then have "available_targets sel eligible = filter (\<lambda>_. True) eligible" by (simp add: available_targets_def)
  then show ?thesis by blast
qed (auto simp: available_targets_def)

text \<open>The names picked, as targets.\<close>

lemma picked_targets:
  assumes "pick_ready reg v r req eligible T"
  obtains reg' order rest where
    "pick_targets reg (rotation_name v req) r (available_targets sel eligible) hk = Some (reg', map rt_model order)"
    and "mset (order @ rest) = mset (available_targets sel eligible)"
    and "\<not> is_metric_based (strategy r) \<longrightarrow> sorted_wrt (\<lambda>s t. priority_or_default s \<ge> priority_or_default t) order"
    and "is_metric_based (strategy r) \<longrightarrow> order = available_targets sel eligible \<and> rest = []"
    and "available_targets sel eligible \<noteq> [] \<longrightarrow> order \<noteq> []"
proof -
  let ?av = "available_targets sel eligible"
  obtain P where P: "?av = filter P eligible" using available_filter by blast
  from assms have "registry_sound reg (rotation_name v req) r T" "collision_free r T" "set (partition_by_priority ?av) \<subseteq> T"
    unfolding pick_ready_def P by blast+
  from pick_targets_perm [OF this, of hk] obtain reg' order where
    o: "pick_targets reg (rotation_name v req) r ?av hk = Some (reg', map rt_model order)"
    and s: "if is_metric_based (strategy r) then order = ?av
            else (\<exists>rest. mset (order @ rest) = mset ?av \<and>
                    sorted_wrt (\<lambda>s t. priority_or_default s \<ge> priority_or_default t) (order @ rest)) \<and>
                 length order = min (max_fallbacks_or_default r + 1) (length ?av)" by blast
  show thesis
  proof (cases "is_metric_based (strategy r)")
    case True
    with s show thesis by (intro that [OF o, of "[]"]) auto
  next
    case False
    with s obtain rest where "mset (order @ rest) = mset ?av"
      "sorted_wrt (\<lambda>s t. priority_or_default s \<ge> priority_or_default t) (order @ rest)"
      "length order = min (max_fallbacks_or_default r + 1) (length ?av)" by auto
    with False show thesis by (intro that [OF o, of rest]) (auto simp: sorted_wrt_append min_def split: if_splits)
  qed
qed

section \<open>Properties\<close>


text \<open>C28. Under the policy that fails when all candidates are down, no model is handed out whose status
  read Unhealthy when it was chosen; and as soon as one candidate is healthy throughout, no model is
  handed out that read Unhealthy or Cooldown, under either policy.\<close>

theorem resolve_skips_unhealthy:
  assumes "snapshot_ok snap" and "narrow_targets env snap v r req = Inr eligible"
    and "resolve_group env st snap v r req eligible = Some (st', Inr as)" and "a \<in> set as"
  shows "(when_all_unavailable_or_default r = PolicyFail \<longrightarrow>
            (\<exists>k. attempt_status (rs_runtime st) (rv_clock env k) a \<noteq> StatusUnhealthy)) \<and>
         (\<forall>c \<in> set (drain_zero_weights (strategy r) (resolve_candidates snap eligible)).
            (\<forall>k. attempt_status (rs_runtime st) (rv_clock env k) c \<notin> {StatusUnhealthy, StatusCooldown}) \<longrightarrow>
            (\<exists>k. attempt_status (rs_runtime st) (rv_clock env k) a \<notin> {StatusUnhealthy, StatusCooldown}))"
proof -
  obtain sel ex where sel: "filter_attempt_models (rs_runtime st) (rv_clock env)
       (drain_zero_weights (strategy r) (resolve_candidates snap eligible)) (when_all_unavailable_or_default r) = Selected sel ex"
    and as: "set as \<subseteq> set sel"
    by (rule resolve_group_selected [OF assms(1) narrow_shape(2) [OF assms(2)] assms(3)])
  have a: "a \<in> set sel" using as assms(4) by blast
  from a filter_selected(4) [OF sel] have "when_all_unavailable_or_default r = PolicyFail \<longrightarrow>
            (\<exists>k. attempt_status (rs_runtime st) (rv_clock env k) a \<noteq> StatusUnhealthy)" by simp
  moreover have "\<exists>k. attempt_status (rs_runtime st) (rv_clock env k) a \<notin> {StatusUnhealthy, StatusCooldown}"
    if "c \<in> set (drain_zero_weights (strategy r) (resolve_candidates snap eligible))"
      "\<forall>k. attempt_status (rs_runtime st) (rv_clock env k) c \<notin> {StatusUnhealthy, StatusCooldown}" for c
    using filter_selected(5) [OF sel] that a by blast
  ultimately show ?thesis by blast
qed

lemma am_priority_order:
  "sorted_wrt (\<lambda>s t. priority_or_default s \<ge> priority_or_default t) order \<Longrightarrow>
     sorted_wrt (\<lambda>a b. am_priority b \<le> am_priority a) (map (target_attempt snap) order)"
  by (simp add: sorted_wrt_map target_attempt_def)

text \<open>What the group answers once health has selected its candidates.\<close>

lemma group_answer:
  assumes ok: "snapshot_ok snap" and narrow: "narrow_targets env snap v r req = Inr eligible"
    and cands: "resolve_candidates snap eligible \<noteq> []"
    and sel: "filter_attempt_models (rs_runtime st) (rv_clock env)
       (drain_zero_weights (strategy r) (resolve_candidates snap eligible)) (when_all_unavailable_or_default r) = Selected sel ex"
    and ready: "pick_ready (rs_registry st) v r req eligible T"
  obtains st' found rest idx where
    "resolve_group env st snap v r req eligible = Some (st', Inr (take (max_fallbacks_or_default r + 1)
       (pinned_attempts env snap (rs_runtime st) req (available_targets sel eligible)
          (ranked_attempts env r idx (rs_runtime st) found))))"
    and "found \<noteq> []" and "distinct (map am_id found)" and "mset (found @ rest) = mset sel"
    and "\<not> is_metric_based (strategy r) \<longrightarrow> sorted_wrt (\<lambda>a b. am_priority b \<le> am_priority a) found"
    and "is_metric_based (strategy r) \<longrightarrow> rest = []"
    and "strategy r = LeastCost \<longrightarrow> idx = snd (for_snapshot (rv_scan env) (rs_pricing st) snap)"
proof -
  let ?av = "available_targets sel eligible"
  let ?hk = "if strategy r = ConsistentHash then resolve_hash_key r req else []"
  note g = group_selected [OF ok narrow cands sel]
  obtain reg' order rest where pick: "pick_targets (rs_registry st) (rotation_name v req) r ?av ?hk = Some (reg', map rt_model order)"
    and perm: "mset (order @ rest) = mset ?av"
    and prio: "\<not> is_metric_based (strategy r) \<longrightarrow> sorted_wrt (\<lambda>s t. priority_or_default s \<ge> priority_or_default t) order"
    and met: "is_metric_based (strategy r) \<longrightarrow> order = ?av \<and> rest = []"
    and ne: "?av \<noteq> [] \<longrightarrow> order \<noteq> []"
    by (rule picked_targets [OF ready, where sel = sel and hk = ?hk]) blast
  have "?av \<noteq> []" using g(2,3) by auto
  with ne have order: "order \<noteq> []" by simp
  have "set order \<subseteq> set ?av" using perm by (metis Un_upper1 set_append set_mset_mset)
  then have found: "found_attempts sel (map rt_model order) = map (target_attempt snap) order" by (rule g(5))
  have m: "mset (map (target_attempt snap) order @ map (target_attempt snap) rest) = mset sel"
    using perm g(2) by (metis map_append mset_map)
  have dist: "distinct (map am_id (map (target_attempt snap) order))"
  proof -
    have "mset (map am_id (map (target_attempt snap) order @ map (target_attempt snap) rest)) = mset (map am_id sel)"
      using m by (metis mset_map)
    then have "distinct (map am_id (map (target_attempt snap) order @ map (target_attempt snap) rest))"
      using g(4) mset_eq_imp_distinct_iff by blast
    then show ?thesis by simp
  qed
  define idx where "idx = (if strategy r = LeastCost then snd (for_snapshot (rv_scan env) (rs_pricing st) snap) else Map.empty)"
  have "\<exists>st'. order_available env st snap v r req ?av sel (missing_targets snap eligible @ ex) =
      Some (st', Inr (take (max_fallbacks_or_default r + 1) (pinned_attempts env snap (rs_runtime st) req ?av
          (ranked_attempts env r idx (rs_runtime st) (map (target_attempt snap) order)))))"
    using pick order by (auto simp: order_available_steps rotation_name_def Let_def found idx_def split: prod.split)
  then obtain st' where st': "resolve_group env st snap v r req eligible = Some (st', Inr (take (max_fallbacks_or_default r + 1)
      (pinned_attempts env snap (rs_runtime st) req ?av
          (ranked_attempts env r idx (rs_runtime st) (map (target_attempt snap) order)))))"
    unfolding g(1) by blast
  show thesis
  proof (rule that [OF st' _ dist m])
    show "map (target_attempt snap) order \<noteq> []" using order by simp
    show "\<not> is_metric_based (strategy r) \<longrightarrow>
        sorted_wrt (\<lambda>a b. am_priority b \<le> am_priority a) (map (target_attempt snap) order)"
      using prio am_priority_order by blast
    show "is_metric_based (strategy r) \<longrightarrow> map (target_attempt snap) rest = []" using met by simp
    show "strategy r = LeastCost \<longrightarrow> idx = snd (for_snapshot (rv_scan env) (rs_pricing st) snap)"
      by (simp add: idx_def)
  qed
qed


text \<open>A metric-based group (least cost, least latency, least busy) hands out the best of the
  candidates health selected: by descending priority, and within a priority by the metric, the cost of
  the effective rate at this configuration for least cost; the ones left out by the fallback limit come
  no earlier in that order.\<close>

theorem metric_group_is_ranked:
  assumes "snapshot_ok snap" and "narrow_targets env snap v r req = Inr eligible"
    and "is_metric_based (strategy r)" and "rq_context_origin req = None"
    and "resolve_candidates snap eligible \<noteq> []"
    and "filter_attempt_models (rs_runtime st) (rv_clock env)
       (drain_zero_weights (strategy r) (resolve_candidates snap eligible)) (when_all_unavailable_or_default r) = Selected sel ex"
    and "pick_ready (rs_registry st) v r req eligible T"
  shows "\<exists>st' as rest idx. resolve_group env st snap v r req eligible = Some (st', Inr as) \<and>
           length as = min (max_fallbacks_or_default r + 1) (length sel) \<and> mset (as @ rest) = mset sel \<and>
           (strategy r = LeastCost \<longrightarrow> idx = snd (for_snapshot (rv_scan env) (rs_pricing st) snap)) \<and>
           sorted_wrt (ranks_before (metric_key (rv_fp env) (strategy r) idx (rs_runtime st) (rv_inst env))) (as @ rest)"
proof -
  obtain st' found rest idx where g: "resolve_group env st snap v r req eligible = Some (st', Inr (take (max_fallbacks_or_default r + 1)
       (pinned_attempts env snap (rs_runtime st) req (available_targets sel eligible)
          (ranked_attempts env r idx (rs_runtime st) found))))"
    and f: "mset (found @ rest) = mset sel" "is_metric_based (strategy r) \<longrightarrow> rest = []"
      "strategy r = LeastCost \<longrightarrow> idx = snd (for_snapshot (rv_scan env) (rs_pricing st) snap)"
    by (rule group_answer [OF assms(1,2,5-7)]) blast
  define ranked where "ranked = ranked_attempts env r idx (rs_runtime st) found"
  let ?n = "max_fallbacks_or_default r + 1"
  have m: "mset ranked = mset sel" using f(1,2) assms(3) by (simp add: ranked_def mset_ranked)
  have "resolve_group env st snap v r req eligible = Some (st', Inr (take ?n ranked))"
    unfolding g ranked_def [symmetric] by (simp add: pinned_attempts_def assms(4))
  moreover have "length (take ?n ranked) = min ?n (length sel)" using m by (metis length_take min.commute size_mset)
  moreover have "mset (take ?n ranked @ drop ?n ranked) = mset sel" using m by simp
  moreover have "sorted_wrt (ranks_before (metric_key (rv_fp env) (strategy r) idx (rs_runtime st) (rv_inst env)))
      (take ?n ranked @ drop ?n ranked)"
    using ranked_order [OF assms(3)] by (simp add: ranked_def)
  ultimately show ?thesis using f(3) by blast
qed

section \<open>A configuration\<close>

text \<open>Two models, \<open>a\<close> at the default priority and \<open>b\<close> at priority 5; the second is cooling until second 30
  when the runtime state says so.\<close>

definition row_a :: "model resource_entry" where
  "row_a = \<lparr>re_id = ''1'', re_value = plain_model ''a'', re_revision = 1\<rparr>"

definition row_b :: "model resource_entry" where
  "row_b = \<lparr>re_id = ''2'', re_value = plain_model ''b'', re_revision = 1\<rparr>"

definition demo_snapshot :: aisix_snapshot where
  "demo_snapshot =
     \<lparr>snap_models = snd (table_run model_nm 1 [Insert row_a, Insert row_b]), snap_provider_keys = table_new,
      snap_pricing = table_new, snap_global_pricing = table_new, snap_budgets = table_new,
      snap_budget_policy = table_new,
      snap_rate_limit_policies = table_new\<rparr>"

definition demo_group :: "routing_strategy \<Rightarrow> routing" where
  "demo_group s = demo_routing\<lparr>strategy := s, when_all_unavailable := Some PolicyFail\<rparr>"

definition demo_virtual :: "routing_strategy \<Rightarrow> model" where
  "demo_virtual s = (plain_model ''g'')\<lparr>routing_of := Some (demo_group s)\<rparr>"

definition demo_request :: routing_request where
  "demo_request =
     \<lparr>rq_tags = [], rq_headers = None, rq_api_key_id = ''k'', rq_source_ip = ''10.0.0.1'',
      rq_context_origin = None, rq_budget = Some (demo_gate 5), rq_serves = None, rq_allowed_groups = []\<rparr>"

definition demo_resolve_env :: "(nat, nat) resolve_env" where
  "demo_resolve_env =
     \<lparr>rv_fp = \<lparr>f_add = (+), f_mul = (*), f_div = (\<lambda>x y. x), f_of_nat = of_nat\<rparr>,
      rv_ip = \<lparr>parse_ip = (\<lambda>_. None), to_canonical = id, parse_net = (\<lambda>_. None), net_contains = (\<lambda>_ _. False)\<rparr>,
      rv_chrono = demo_chrono, rv_scan = (\<lambda>_. []), rv_clock = (\<lambda>_. 1000), rv_pin_clock = (\<lambda>_. 1000), rv_inst = 0\<rparr>"

definition demo_resolve_state :: "bool \<Rightarrow> resolve_state" where
  "demo_resolve_state cooling =
     \<lparr>rs_registry = registry_new,
      rs_runtime = (if cooling then mark_cooldown tracker_new 0 0 ''2'' 30000 ''upstream_rate_limited'' else tracker_new),
      rs_pricing = None, rs_lines = []\<rparr>"

lemma demo_snapshot_ok: "snapshot_ok demo_snapshot"
  by (simp add: snapshot_ok_def demo_snapshot_def table_run_ok table_new_ok)

lemma demo_lookup [simp]:
  "model_of_target demo_snapshot (target_new ''a'') = Some row_a"
  "model_of_target demo_snapshot (with_priority (target_new ''b'') 5) = Some row_b"
  by (simp_all add: model_of_target_def demo_snapshot_def table_run_def table_new_def insert_arc_def bump_generation_def
      get_by_name_def get_by_id_def row_a_def row_b_def model_nm_def plain_model_def target_new_def with_priority_def Let_def)

lemma demo_within: "target_verdict demo_chrono demo_snapshot (demo_gate 5) t = None" if "t \<in> set demo_targets"
proof -
  have ok: "table_ok budget_nm demo_budgets" by (simp add: demo_budgets_def table_run_ok)
  from that have "\<exists>e. model_of_target demo_snapshot t = Some e \<and> provider_key_id (re_value e) = None"
    by (auto simp: demo_targets_def row_a_def row_b_def plain_model_def)
  then show ?thesis by (auto simp: target_verdict_def check_model_def)
qed

lemma demo_narrow: "narrow_targets demo_resolve_env demo_snapshot ''g'' (demo_group s) demo_request = Inr demo_targets"
proof -
  have "targets (demo_group s) = demo_targets" by (simp add: demo_group_def demo_routing_def)
  moreover have "already_normalized demo_targets"
    by (simp add: already_normalized_def demo_targets_def target_new_def with_priority_def)
  moreover have "eligible_targets demo_targets [] = demo_targets"
    by (simp add: eligible_targets_def default_targets_def demo_targets_def has_tags_def target_new_def with_priority_def Let_def)
  moreover have "targets_allowed_for_ip lib demo_snapshot demo_targets ip = demo_targets" for lib :: "(nat, nat) ip_lib" and ip
    by (simp add: targets_allowed_for_ip_filter demo_targets_def ip_allowed_def cidr_allows_def row_a_def row_b_def plain_model_def)
  moreover have "targets_within_budget demo_chrono demo_snapshot (demo_gate 5) demo_targets = Inr demo_targets"
    using demo_within by (simp add: targets_within_budget_def list_all_iff)
  ultimately show ?thesis
    by (simp add: narrow_targets_def demo_request_def targets_in_groups_def normalize_targets_def demo_resolve_env_def Let_def)
      (simp add: demo_targets_def)
qed

definition attempt_a :: attempt_model where
  "attempt_a = \<lparr>am_id = ''1'', am_model = plain_model ''a'', am_priority = 0, am_weight = 1\<rparr>"

definition attempt_b :: attempt_model where
  "attempt_b = \<lparr>am_id = ''2'', am_model = plain_model ''b'', am_priority = 5, am_weight = 1\<rparr>"

lemma demo_candidates: "resolve_candidates demo_snapshot demo_targets = [attempt_a, attempt_b]"
  by (simp add: resolve_candidates_def demo_targets_def List.map_filter_simps)
    (simp add: attempt_of_def attempt_a_def attempt_b_def row_a_def row_b_def priority_or_default_def weight_or_default_def target_new_def with_priority_def)

lemma demo_drain: "drain_zero_weights strat [attempt_a, attempt_b] = [attempt_a, attempt_b]"
  by (simp add: drain_zero_weights_def attempt_a_def attempt_b_def)

lemma demo_status:
  "attempt_status (rs_runtime (demo_resolve_state c)) 1000 attempt_a = StatusHealthy"
  "attempt_status (rs_runtime (demo_resolve_state c)) 1000 attempt_b = (if c then StatusCooldown else StatusHealthy)"
  by (simp_all add: attempt_status_def demo_resolve_state_def attempt_a_def attempt_b_def mark_cooldown_def
      sync_deployment_state_def record_cooldown_def status_with_stale_def status_snapshot_default_def tracker_new_def
      runtime_entry_default_def entry_snapshot_def cooling_at_def plain_model_def SYSTEM_TIME_MAX_def Let_def)

lemma demo_filter:
  "filter_attempt_models (rs_runtime (demo_resolve_state c)) (rv_clock demo_resolve_env)
     (drain_zero_weights strat (resolve_candidates demo_snapshot demo_targets)) policy =
   Selected (if c then [attempt_a] else [attempt_a, attempt_b]) (if c then excluded [attempt_b] EXCLUDED_COOLING else [])"
  by (simp add: demo_candidates demo_drain filter_attempt_models_def demo_status demo_resolve_env_def excluded_def)

lemma demo_ready: "pick_ready (rs_registry (demo_resolve_state c)) ''g'' r demo_request demo_targets
     {[target_new ''a''], [with_priority (target_new ''b'') 5]}"
proof -
  let ?T = "{[target_new ''a''], [with_priority (target_new ''b'') 5]}"
  have "collision_free r ?T"
    by (simp add: collision_free_def priority_or_default_def with_priority_def target_new_def)
  moreover have "set (partition_by_priority (filter P demo_targets)) \<subseteq> ?T" for P
    by (cases "P (target_new ''a'')"; cases "P (with_priority (target_new ''b'') 5)")
      (simp_all add: partition_by_priority_def demo_targets_def priority_or_default_def with_priority_def target_new_def)
  ultimately show ?thesis by (simp add: pick_ready_def demo_resolve_state_def registry_new_sound)
qed

section \<open>Witnesses\<close>


text \<open>The group whose first choice is cooling answers with the other target.\<close>

lemma demo_cooling_group:
  obtains st' as where
    "resolve_group demo_resolve_env (demo_resolve_state True) demo_snapshot ''g'' (demo_group RoundRobin) demo_request demo_targets
       = Some (st', Inr as)"
    and "as = [attempt_a]"
proof -
  have cands: "resolve_candidates demo_snapshot demo_targets \<noteq> []" by (simp add: demo_candidates)
  obtain st' found rest idx where g: "resolve_group demo_resolve_env (demo_resolve_state True) demo_snapshot ''g''
      (demo_group RoundRobin) demo_request demo_targets = Some (st', Inr (take (max_fallbacks_or_default (demo_group RoundRobin) + 1)
       (pinned_attempts demo_resolve_env demo_snapshot (rs_runtime (demo_resolve_state True)) demo_request
          (available_targets [attempt_a] demo_targets)
          (ranked_attempts demo_resolve_env (demo_group RoundRobin) idx (rs_runtime (demo_resolve_state True)) found))))"
    and f: "found \<noteq> []" "mset (found @ rest) = mset [attempt_a]"
    by (rule group_answer [OF demo_snapshot_ok demo_narrow cands demo_filter [of True, simplified] demo_ready]) blast
  have "found = [attempt_a]" using f by (cases found) (auto simp: single_eq_add_mset union_is_single)
  with g show thesis
    by (intro that) (auto simp: pinned_attempts_def ranked_attempts_def demo_request_def demo_group_def
        take_Cons split: nat.split)
qed


theorem resolve_skips_unhealthy_witness:
  "attempt_status (rs_runtime (demo_resolve_state True)) (rv_clock demo_resolve_env 0) attempt_a \<noteq> StatusUnhealthy"
proof -
  obtain st' as where g: "resolve_group demo_resolve_env (demo_resolve_state True) demo_snapshot ''g'' (demo_group RoundRobin)
      demo_request demo_targets = Some (st', Inr as)" and as: "as = [attempt_a]"
    by (rule demo_cooling_group)
  have "when_all_unavailable_or_default (demo_group RoundRobin) = PolicyFail"
    by (simp add: demo_group_def when_all_unavailable_or_default_def)
  with resolve_skips_unhealthy [OF demo_snapshot_ok demo_narrow g, of attempt_a] as show ?thesis
    by (simp add: demo_resolve_env_def)
qed

theorem metric_group_is_ranked_witness:
  "\<exists>st' as. resolve_group demo_resolve_env (demo_resolve_state False) demo_snapshot ''g'' (demo_group LeastBusy) demo_request demo_targets
      = Some (st', Inr as) \<and> as = [attempt_b, attempt_a]"
proof -
  have cands: "resolve_candidates demo_snapshot demo_targets \<noteq> []" by (simp add: demo_candidates)
  have met: "is_metric_based (strategy (demo_group LeastBusy))" "rq_context_origin demo_request = None"
    by (simp_all add: demo_group_def demo_request_def)
  have bound: "max_fallbacks_or_default (demo_group LeastBusy) + 1 = 2"
    by (simp add: demo_group_def demo_routing_def max_fallbacks_or_default_def demo_targets_def sat_sub_def)
  obtain st' as rest key where g: "resolve_group demo_resolve_env (demo_resolve_state False) demo_snapshot ''g''
      (demo_group LeastBusy) demo_request demo_targets = Some (st', Inr as)"
    and a: "length as = 2" "mset (as @ rest) = mset [attempt_a, attempt_b]" "sorted_wrt (ranks_before key) (as @ rest)"
    using metric_group_is_ranked [OF demo_snapshot_ok demo_narrow met cands demo_filter [of False, simplified] demo_ready]
    unfolding bound by auto
  from a(1,2) have "size (mset (as @ rest)) = 2" by simp
  with a(1) have rest: "rest = []" by simp
  from a(1) obtain x y where as: "as = [x, y]" by (auto simp: numeral_2_eq_2 length_Suc_conv)
  have xy: "{#x, y#} = {#attempt_a, attempt_b#}" using a(2) by (simp add: as rest)
  have "\<not> ranks_before key attempt_a attempt_b" by (simp add: ranks_before_def attempt_a_def attempt_b_def)
  moreover have "ranks_before key x y" using a(3) by (simp add: as)
  moreover have "attempt_a \<noteq> attempt_b" by (simp add: attempt_a_def attempt_b_def)
  ultimately have "as = [attempt_b, attempt_a]" using xy by (auto simp: as add_eq_conv_ex)
  with g show ?thesis by blast
qed

end
