(* ===== verification/Policy_Match.thy ===== *)
theory Policy_Match
  imports Policies "HOL-Library.List_Lexorder" "HOL-Library.Char_ord" "HOL-Library.Product_Lexorder"
begin

text \<open>
  When a policy applies to a request and on which counters, from \<^verbatim>\<open>crates/aisix-proxy/src/quota.rs\<close>: the
  phases, the layer of a classic and of a conditional policy, the keys of their buckets and the limits they
  project. Warnings about inert settings go to the log and are left out.
\<close>

section \<open>Phases and layers\<close>

datatype policy_phase = PhaseRequest bool | PhaseModelTarget

record spend_layer =
  sl_bucket_key :: string
  sl_limits :: rate_limit

record policy_layer =
  pl_bucket_key :: string
  pl_limits :: rate_limit
  pl_spend :: "spend_layer option"

definition classic_rate_limit :: "rate_limit_policy \<Rightarrow> rate_limit option" where
  "classic_rate_limit p =
     map_option
       (\<lambda>w. case w of
          WindowSecond \<Rightarrow> rate_limit_default\<lparr>rps := rp_max_requests p\<rparr>
        | WindowMinute \<Rightarrow> rate_limit_default\<lparr>rpm := rp_max_requests p, tpm := rp_max_tokens p\<rparr>
        | WindowHour \<Rightarrow> rate_limit_default\<lparr>rph := rp_max_requests p, tph := rp_max_tokens p\<rparr>
        | WindowDay \<Rightarrow> rate_limit_default\<lparr>rpd := rp_max_requests p, tpd := rp_max_tokens p\<rparr>)
       (rp_window p)"

definition spend_bucket_key :: "string \<Rightarrow> string \<Rightarrow> string \<Rightarrow> string" where
  "spend_bucket_key scope scope_ref i = ''spend:'' @ scope @ '':'' @ scope_ref @ '':'' @ i"

definition spend_limits_for :: "policy_window \<Rightarrow> nat \<Rightarrow> rate_limit" where
  "spend_limits_for w max_spend =
     (case w of
        WindowSecond \<Rightarrow> rate_limit_default
      | WindowMinute \<Rightarrow> rate_limit_default\<lparr>tpm := Some max_spend\<rparr>
      | WindowHour \<Rightarrow> rate_limit_default\<lparr>tph := Some max_spend\<rparr>
      | WindowDay \<Rightarrow> rate_limit_default\<lparr>tpd := Some max_spend\<rparr>)"

definition apply_granted :: "rate_limit \<Rightarrow> nat option \<Rightarrow> rate_limit" where
  "apply_granted rl g = (case g of Some n \<Rightarrow> rl\<lparr>granted_micro_usd := Some n\<rparr> | None \<Rightarrow> rl)"

section \<open>Segments of a bucket key\<close>

definition replace_char :: "char \<Rightarrow> string \<Rightarrow> string \<Rightarrow> string" where
  "replace_char c new s = concat (map (\<lambda>x. if x = c then new else [x]) s)"

definition escape_bucket_segment :: "string \<Rightarrow> string" where
  "escape_bucket_segment v =
     (if list_ex (\<lambda>c. c \<in> {CHR '':'', CHR ''='', CHR ''%''}) v
      then replace_char (CHR ''='') ''%3D'' (replace_char (CHR '':'') ''%3A'' (replace_char (CHR ''%'') ''%25'' v))
      else v)"

fun bucket_segments :: "condition_input \<Rightarrow> group_by_dimension list \<Rightarrow> string \<Rightarrow> string option" where
  "bucket_segments inp [] key = Some key"
| "bucket_segments inp (d # ds) key =
     (case get_group_by inp d of
        None \<Rightarrow> None
      | Some v \<Rightarrow>
          bucket_segments inp ds (key @ '':'' @ group_by_name d @ ''='' @ escape_bucket_segment v))"

section \<open>Matching\<close>

definition match_conditional_layer ::
    "'re cond_lib \<Rightarrow> rate_limit_policy \<Rightarrow> string \<Rightarrow> condition_input \<Rightarrow> policy_phase \<Rightarrow> policy_layer option" where
  "match_conditional_layer lib p i inp phase =
     (let follows_model = references_model_property p;
          due_here = (case phase of
                        PhaseRequest defer_model_properties \<Rightarrow> \<not> (follows_model \<and> defer_model_properties)
                      | PhaseModelTarget \<Rightarrow> follows_model)
      in if \<not> due_here then None
         else if \<not> eval_condition_nodes lib (case rp_conditions p of Some ns \<Rightarrow> ns | None \<Rightarrow> []) inp then None
         else (case bucket_segments inp
                      (sort_key canonical_rank (case rp_group_by p of Some ds \<Rightarrow> ds | None \<Rightarrow> []))
                      (''policy:v2:'' @ i) of
                 None \<Rightarrow> None
               | Some key \<Rightarrow>
                   (case rp_limits p of
                      None \<Rightarrow> None
                    | Some l \<Rightarrow>
                        if is_unrestricted l then None
                        else Some \<lparr>pl_bucket_key = key, pl_limits = l, pl_spend = None\<rparr>)))"

definition classic_applies :: "policy_scope \<Rightarrow> string \<Rightarrow> condition_input \<Rightarrow> bool" where
  "classic_applies scope scope_ref inp =
     (case scope of
        ScopeApiKey \<Rightarrow> ci_api_key inp = Some scope_ref
      | ScopeModel \<Rightarrow> ci_model inp = Some scope_ref
      | ScopeTeam \<Rightarrow> ci_team inp = Some scope_ref
      | ScopeMember \<Rightarrow> ci_member inp = Some scope_ref
      | ScopeTeamMember \<Rightarrow> ci_team inp = Some scope_ref \<and> ci_member inp \<noteq> None)"

definition match_policy_layer ::
    "'re cond_lib \<Rightarrow> rate_limit_policy \<Rightarrow> string \<Rightarrow> condition_input \<Rightarrow> policy_phase \<Rightarrow> policy_layer option" where
  "match_policy_layer lib p i inp phase =
     (if is_conditional p then match_conditional_layer lib p i inp phase
      else (case (rp_scope p, rp_scope_ref p) of
              (Some scope, Some scope_ref) \<Rightarrow>
                if phase = PhaseModelTarget \<and> scope \<noteq> ScopeModel then None
                else if \<not> classic_applies scope scope_ref inp then None
                else
                  (let limits = (case classic_rate_limit p of Some l \<Rightarrow> l | None \<Rightarrow> rate_limit_default);
                       member_suffix = (case ci_member inp of
                                          Some m \<Rightarrow> if scope = ScopeTeamMember then '':'' @ m else []
                                        | None \<Rightarrow> []);
                       key = ''policy:'' @ policy_scope_str scope @ '':'' @ scope_ref @ '':'' @ i @ member_suffix;
                       ceilings = apply_granted
                         (case (rp_max_spend_micro_usd p, rp_window p) of
                            (Some max_spend, Some w) \<Rightarrow> spend_limits_for w max_spend
                          | _ \<Rightarrow> rate_limit_default)
                         (rp_granted_micro_usd p);
                       spend = (if is_unrestricted ceilings then None
                                else Some \<lparr>sl_bucket_key =
                                             spend_bucket_key (policy_scope_str scope) scope_ref i @ member_suffix,
                                           sl_limits = ceilings\<rparr>)
                   in if is_unrestricted limits \<and> spend = None then None
                      else Some \<lparr>pl_bucket_key = key, pl_limits = limits, pl_spend = spend\<rparr>)
            | _ \<Rightarrow> None))"

text \<open>Whether the policy matched only because of the entry the caller addressed.\<close>

definition matched_only_through_parent ::
    "'re cond_lib \<Rightarrow> rate_limit_policy \<Rightarrow> string \<Rightarrow> condition_input \<Rightarrow> policy_phase \<Rightarrow> bool" where
  "matched_only_through_parent lib p i inp phase =
     (if ci_parent_model inp = None \<and> ci_parent_model_name inp = None then False
      else match_policy_layer lib p i (inp\<lparr>ci_parent_model := None, ci_parent_model_name := None\<rparr>) phase = None)"

definition without_request_counts :: "rate_limit \<Rightarrow> rate_limit" where
  "without_request_counts l = l\<lparr>rps := None, rpm := None, rph := None, rpd := None\<rparr>"

definition policy_bucket_is_callers :: "rate_limit_policy \<Rightarrow> bool" where
  "policy_bucket_is_callers p =
     (if is_conditional p then
        (case rp_group_by p of
           Some dims \<Rightarrow> list_ex (\<lambda>d. d \<in> {ByApiKey, ByMember, ByTeam}) dims
         | None \<Rightarrow> False)
      else (case rp_scope p of Some s \<Rightarrow> s \<noteq> ScopeModel | None \<Rightarrow> False))"

section \<open>Keys\<close>

fun unescape :: "string \<Rightarrow> string" where
  "unescape [] = []"
| "unescape (c # cs) =
     (if c = CHR ''%'' then
        (if take 2 cs = ''25'' then CHR ''%'' else if take 2 cs = ''3A'' then CHR '':'' else CHR ''='') #
        unescape (drop 2 cs)
      else c # unescape cs)"

definition escape_char :: "char \<Rightarrow> string" where
  "escape_char c =
     (if c = CHR ''%'' then ''%25'' else if c = CHR '':'' then ''%3A'' else if c = CHR ''='' then ''%3D'' else [c])"

lemma escape_by_char: "escape_bucket_segment v = concat (map escape_char v)"
proof (cases "list_ex (\<lambda>c. c \<in> {CHR '':'', CHR ''='', CHR ''%''}) v")
  case True
  have "replace_char (CHR ''='') ''%3D'' (replace_char (CHR '':'') ''%3A'' (replace_char (CHR ''%'') ''%25'' v)) =
      concat (map escape_char v)"
    by (induction v) (auto simp: replace_char_def escape_char_def)
  with True show ?thesis by (simp add: escape_bucket_segment_def)
next
  case False
  then have "concat (map escape_char v) = v" by (induction v) (auto simp: escape_char_def)
  with False show ?thesis by (simp add: escape_bucket_segment_def)
qed

lemma unescape_escape [simp]: "unescape (escape_bucket_segment v) = v"
  unfolding escape_by_char by (induction v) (auto simp: escape_char_def)

lemma escape_inject [simp]: "escape_bucket_segment v = escape_bucket_segment w \<longleftrightarrow> v = w"
  by (metis unescape_escape)

lemma escape_plain: "c \<in> set (escape_bucket_segment v) \<Longrightarrow> c \<noteq> CHR '':'' \<and> c \<noteq> CHR ''=''"
  unfolding escape_by_char by (induction v) (auto simp: escape_char_def split: if_splits)

definition segment :: "condition_input \<Rightarrow> group_by_dimension \<Rightarrow> string" where
  "segment inp d = '':'' @ group_by_name d @ ''='' @ escape_bucket_segment (the (get_group_by inp d))"

lemma bucket_segments_eq:
  "bucket_segments inp ds key =
     (if \<forall>d \<in> set ds. get_group_by inp d \<noteq> None then Some (key @ concat (map (segment inp) ds)) else None)"
  by (induction ds arbitrary: key) (auto simp: segment_def split: option.split)

text \<open>A list of segments determines the values: a value ends at the next colon.\<close>

lemma up_to_colon:
  assumes "x @ u = y @ v" and "CHR '':'' \<notin> set x" and "CHR '':'' \<notin> set y"
    and "u = [] \<or> hd u = CHR '':''" and "v = [] \<or> hd v = CHR '':''"
  shows "x = y \<and> u = v"
proof -
  have tw: "takeWhile (\<lambda>c. c \<noteq> CHR '':'') (z @ w) = z"
    if "CHR '':'' \<notin> set z" "w = [] \<or> hd w = CHR '':''" for z w :: string
    using that by (induction z) (auto simp: takeWhile_eq_Nil_iff)
  from tw [OF assms(2,4)] tw [OF assms(3,5)] assms(1) show ?thesis by simp
qed

lemma segments_head: "concat (map (segment inp) ds) = [] \<or> hd (concat (map (segment inp) ds)) = CHR '':''"
  by (cases ds) (simp_all add: segment_def)

lemma segments_inject:
  "concat (map (segment a) ds) = concat (map (segment b) ds) \<longleftrightarrow>
     (\<forall>d \<in> set ds. the (get_group_by a d) = the (get_group_by b d))"
proof (induction ds)
  case (Cons d ds)
  let ?x = "escape_bucket_segment (the (get_group_by a d))"
    and ?y = "escape_bucket_segment (the (get_group_by b d))"
    and ?u = "concat (map (segment a) ds)" and ?v = "concat (map (segment b) ds)"
  have "concat (map (segment a) (d # ds)) = concat (map (segment b) (d # ds)) \<longleftrightarrow> ?x @ ?u = ?y @ ?v"
    by (simp add: segment_def)
  also have "\<dots> \<longleftrightarrow> ?x = ?y \<and> ?u = ?v"
    using up_to_colon [OF _ _ _ segments_head segments_head, of ?x a ds ?y b ds] escape_plain by fastforce
  finally show ?case using Cons.IH by simp
qed simp

lemma canonical_rank_inject: "canonical_rank d = canonical_rank e \<Longrightarrow> d = e"
  by (cases d; cases e) simp_all

lemma filter_same: "filter (\<lambda>x. k = x) xs = replicate (count (mset xs) k) k"
  by (induction xs) auto

lemma sort_key_permuted:
  assumes "\<And>x y. f x = f y \<Longrightarrow> x = y" and "mset xs = mset ys"
  shows "sort_key f xs = sort_key f ys"
proof (rule properties_for_sort_key)
  show "mset (sort_key f ys) = mset xs" using assms(2) by simp
  fix k
  have "(\<lambda>x. f k = f x) = (\<lambda>x. k = x)" using assms(1) by auto
  then show "filter (\<lambda>x. f k = f x) (sort_key f ys) = filter (\<lambda>x. f k = f x) xs"
    using assms(2) by (simp add: filter_same)
qed simp

text \<open>What a matching conditional policy is charged to.\<close>

definition group_dims :: "rate_limit_policy \<Rightarrow> group_by_dimension list" where
  "group_dims p = (case rp_group_by p of Some ds \<Rightarrow> ds | None \<Rightarrow> [])"

lemma conditional_match:
  assumes "match_conditional_layer lib p i inp phase = Some l"
  shows "\<forall>d \<in> set (group_dims p). get_group_by inp d \<noteq> None"
    and "pl_bucket_key l =
      ''policy:v2:'' @ i @ concat (map (segment inp) (sort_key canonical_rank (group_dims p)))"
    and "rp_limits p = Some (pl_limits l)" and "pl_spend l = None"
  using assms
  by (auto simp: match_conditional_layer_def bucket_segments_eq group_dims_def Let_def
      split: if_splits option.splits policy_phase.splits)

section \<open>Results\<close>

text \<open>C22. Two requests that match conditional policies share a counter exactly when they matched the same
  policy and have the same value on each of its dimensions: the order in which the dimensions are declared
  does not matter, values with colons, equals or percent signs included, and no two policies share a counter
  (identifiers are UUIDs, they have no colon).\<close>

theorem bucket_identity:
  assumes "is_conditional p" and "match_policy_layer lib p i a phase = Some l"
    and "is_conditional q" and "match_policy_layer lib q j b phase' = Some l'"
    and "CHR '':'' \<notin> set i" and "CHR '':'' \<notin> set j"
    and "i = j \<Longrightarrow> mset (group_dims p) = mset (group_dims q)"
  shows "pl_bucket_key l = pl_bucket_key l' \<longleftrightarrow>
     i = j \<and> (\<forall>d \<in> set (group_dims p). get_group_by a d = get_group_by b d)"
proof -
  from assms have ml: "match_conditional_layer lib p i a phase = Some l"
    and ml': "match_conditional_layer lib q j b phase' = Some l'"
    by (simp_all add: match_policy_layer_def)
  let ?ds = "sort_key canonical_rank (group_dims p)" and ?es = "sort_key canonical_rank (group_dims q)"
  have same: "?ds = ?es \<and> set (group_dims p) = set (group_dims q)" if "i = j"
    using sort_key_permuted [OF canonical_rank_inject assms(7) [OF that]] mset_eq_setD [OF assms(7) [OF that]]
    by blast
  have "pl_bucket_key l = pl_bucket_key l' \<longleftrightarrow>
      i @ concat (map (segment a) ?ds) = j @ concat (map (segment b) ?es)"
    by (simp add: conditional_match(2) [OF ml] conditional_match(2) [OF ml'])
  also have "\<dots> \<longleftrightarrow> i = j \<and> concat (map (segment a) ?ds) = concat (map (segment b) ?es)"
    using up_to_colon [OF _ assms(5,6) segments_head segments_head] by metis
  also have "\<dots> \<longleftrightarrow> i = j \<and> (\<forall>d \<in> set (group_dims p). the (get_group_by a d) = the (get_group_by b d))"
    using same segments_inject [of a ?ds b] by auto
  also have "\<dots> \<longleftrightarrow> i = j \<and> (\<forall>d \<in> set (group_dims p). get_group_by a d = get_group_by b d)"
    using conditional_match(1) [OF ml] conditional_match(1) [OF ml'] same by (metis option.expand)
  finally show ?thesis .
qed

definition demo_limits :: rate_limit where
  "demo_limits = rate_limit_default\<lparr>rpm := Some 1, concurrency := Some 1\<rparr>"

definition demo_policy :: "condition_node list \<Rightarrow> group_by_dimension list \<Rightarrow> rate_limit_policy" where
  "demo_policy ns ds =
     \<lparr>rp_name = ''p'', rp_scope = None, rp_scope_ref = None, rp_window = None, rp_max_requests = None,
      rp_max_tokens = None, rp_max_spend_micro_usd = None, rp_granted_micro_usd = None,
      rp_conditions = Some ns, rp_group_by = Some ds, rp_limits = Some demo_limits, rp_action = None,
      rp_schedules = []\<rparr>"

lemmas eval_policy =
  demo_policy_def demo_limits_def rate_limit_default_def match_policy_layer_def is_conditional_def
  match_conditional_layer_def references_model_property_def is_model_property_def
  eval_condition_nodes_def eval_leaf_def eval_operator_def is_unrestricted_def

theorem bucket_identity_witness:
  "\<exists>l l'. match_policy_layer demo_cond_lib (demo_policy [] [ByMember, ByTeam]) ''i''
       (no_input\<lparr>ci_team := Some ''t'', ci_member := Some ''m:x''\<rparr>) (PhaseRequest False) = Some l \<and>
     match_policy_layer demo_cond_lib (demo_policy [] [ByTeam, ByMember]) ''i''
       (no_input\<lparr>ci_team := Some ''t:m'', ci_member := Some ''x''\<rparr>) (PhaseRequest False) = Some l' \<and>
     pl_bucket_key l \<noteq> pl_bucket_key l'"
proof -
  let ?a = "no_input\<lparr>ci_team := Some ''t'', ci_member := Some ''m:x''\<rparr>"
    and ?b = "no_input\<lparr>ci_team := Some ''t:m'', ci_member := Some ''x''\<rparr>"
    and ?p = "demo_policy [] [ByMember, ByTeam]" and ?q = "demo_policy [] [ByTeam, ByMember]"
  obtain l l' where l: "match_policy_layer demo_cond_lib ?p ''i'' ?a (PhaseRequest False) = Some l"
    "match_policy_layer demo_cond_lib ?q ''i'' ?b (PhaseRequest False) = Some l'"
    by (simp add: eval_policy no_input_def)
  have "(pl_bucket_key l = pl_bucket_key l') =
      (''i'' = ''i'' \<and> (\<forall>d \<in> set (group_dims ?p). get_group_by ?a d = get_group_by ?b d))"
    by (rule bucket_identity [OF _ l(1) _ l(2)])
      (simp_all add: demo_policy_def is_conditional_def group_dims_def add_mset_commute)
  also have "\<dots> = False" by (simp add: demo_policy_def group_dims_def no_input_def)
  finally show ?thesis using l by blast
qed

text \<open>Whether a policy follows the dispatched model.\<close>

definition follows_model :: "rate_limit_policy \<Rightarrow> bool" where
  "follows_model p \<longleftrightarrow>
     (if is_conditional p then references_model_property p else rp_scope p = Some ScopeModel)"

text \<open>Every policy reserves at one phase of an attempt: what a direct dispatch reserves at the request gate,
  a routed one reserves at the gate of its target when the policy follows the model and at the request gate
  when it does not, never at both; only a classic model policy is looked at on both gates, and it takes both
  only when the caller addressed the very entry that was dispatched.\<close>

theorem reserved_at_one_phase:
  "match_policy_layer lib p i inp (PhaseRequest False) =
     (if follows_model p then match_policy_layer lib p i inp PhaseModelTarget
      else match_policy_layer lib p i inp (PhaseRequest True)) \<and>
   \<not> (match_policy_layer lib p i request (PhaseRequest True) \<noteq> None \<and>
      match_policy_layer lib p i target PhaseModelTarget \<noteq> None \<and> ci_model request \<noteq> ci_model target)"
proof (cases "is_conditional p")
  case True
  then show ?thesis
    by (auto simp: match_policy_layer_def match_conditional_layer_def follows_model_def Let_def)
next
  case False
  then show ?thesis
    by (auto simp: match_policy_layer_def follows_model_def classic_applies_def
        split: option.splits policy_scope.splits if_splits)
qed

end
