(* ===== verification/Policy_Index.thy ===== *)
theory Policy_Index
  imports Policy_Match Config_Snapshot
begin

text \<open>
  The index over the policy table, \<^verbatim>\<open>crates/aisix-proxy/src/policy_index.rs\<close>: a value every match of a policy
  must have, the rows filed under such values, the candidates of a request and the cache of the index. The
  order in which the hash map of dimensions is walked is an argument.
\<close>

section \<open>The index\<close>

type_synonym policy_entry = "rate_limit_policy resource_entry"

record policy_index =
  pi_generation :: nat
  pi_entries :: "policy_entry list"
  pi_by_value :: "policy_dimension \<rightharpoonup> (string \<rightharpoonup> nat list)"
  pi_fallback :: "nat list"

definition leaf_requires :: "policy_condition \<Rightarrow> (policy_dimension \<times> string list) option" where
  "leaf_requires leaf =
     (if pc_negate leaf then None
      else (case (pc_operator leaf, pc_value leaf) of
              (OpEq, One v) \<Rightarrow> Some (pc_dimension leaf, [v])
            | (OpIn, Many vs) \<Rightarrow> Some (pc_dimension leaf, vs)
            | _ \<Rightarrow> None))"

fun required_match :: "condition_node list \<Rightarrow> (policy_dimension \<times> string list) option" where
  "required_match [] = None"
| "required_match (CLeaf leaf # nodes) =
     (case leaf_requires leaf of Some r \<Rightarrow> Some r | None \<Rightarrow> required_match nodes)"
| "required_match (CGroup logic negate children # nodes) =
     (case (if logic = LogicAnd \<and> \<not> negate then required_match children else None) of
        Some r \<Rightarrow> Some r
      | None \<Rightarrow> required_match nodes)"

definition selector :: "rate_limit_policy \<Rightarrow> (policy_dimension \<times> string list) option" where
  "selector p =
     (case rp_conditions p of
        Some nodes \<Rightarrow> required_match nodes
      | None \<Rightarrow>
          (case rp_scope p of
             None \<Rightarrow> None
           | Some scope \<Rightarrow>
               map_option
                 (\<lambda>r. (case scope of
                          ScopeApiKey \<Rightarrow> DimApiKey
                        | ScopeModel \<Rightarrow> DimModel
                        | ScopeTeam \<Rightarrow> DimTeam
                        | ScopeTeamMember \<Rightarrow> DimTeam
                        | ScopeMember \<Rightarrow> DimMember, [r]))
                 (rp_scope_ref p)))"

definition push_position :: "nat \<Rightarrow> (string \<rightharpoonup> nat list) \<Rightarrow> string \<Rightarrow> (string \<rightharpoonup> nat list)" where
  "push_position pos m v = m(v \<mapsto> (case m v of Some ps \<Rightarrow> ps @ [pos] | None \<Rightarrow> [pos]))"

definition index_policy :: "policy_index \<Rightarrow> nat \<times> policy_entry \<Rightarrow> policy_index" where
  "index_policy idx row =
     (let (pos, entry) = row
      in case selector (re_value entry) of
           Some (d, vs) \<Rightarrow>
             (let old = (case pi_by_value idx d of Some m \<Rightarrow> m | None \<Rightarrow> Map.empty)
              in idx\<lparr>pi_by_value := (pi_by_value idx)(d \<mapsto> foldl (push_position pos) old vs)\<rparr>)
         | None \<Rightarrow> idx\<lparr>pi_fallback := pi_fallback idx @ [pos]\<rparr>)"

definition policy_index_build ::
    "(rate_limit_policy resource_table \<Rightarrow> policy_entry list) \<Rightarrow> rate_limit_policy resource_table \<Rightarrow> policy_index" where
  "policy_index_build scan t =
     (let es = entries_of t (scan t)
      in foldl index_policy
           \<lparr>pi_generation = generation t, pi_entries = es, pi_by_value = Map.empty, pi_fallback = []\<rparr>
           (enumerate 0 es))"

definition positions_under :: "policy_index \<Rightarrow> condition_input \<Rightarrow> policy_dimension \<Rightarrow> nat list" where
  "positions_under idx inp d =
     (case pi_by_value idx d of
        None \<Rightarrow> []
      | Some m \<Rightarrow>
          concat (map (\<lambda>v. case v of
                             None \<Rightarrow> []
                           | Some v \<Rightarrow> (case m v of Some ps \<Rightarrow> ps | None \<Rightarrow> []))
                    [input_get inp d, routing_parent_of inp d]))"

definition candidates ::
    "policy_index \<Rightarrow> policy_dimension list \<Rightarrow> condition_input \<Rightarrow> policy_entry list" where
  "candidates idx dims inp =
     map (\<lambda>pos. pi_entries idx ! pos)
       (remdups_adj (sort (pi_fallback idx @ concat (map (positions_under idx inp) dims))))"

type_synonym live_policy_index = "policy_index option"

definition policy_for_table ::
    "(rate_limit_policy resource_table \<Rightarrow> policy_entry list) \<Rightarrow> live_policy_index \<Rightarrow>
     rate_limit_policy resource_table \<Rightarrow> live_policy_index \<times> policy_index" where
  "policy_for_table scan c t =
     (let fresh = policy_index_build scan t
      in case c of
           Some i \<Rightarrow> if pi_generation i = generation t then (c, i) else (Some fresh, fresh)
         | None \<Rightarrow> (Some fresh, fresh))"

section \<open>What the index files\<close>

definition filed_under :: "policy_index \<Rightarrow> policy_dimension \<Rightarrow> string \<Rightarrow> nat set" where
  "filed_under idx d v =
     (case pi_by_value idx d of
        None \<Rightarrow> {}
      | Some m \<Rightarrow> (case m v of Some ps \<Rightarrow> set ps | None \<Rightarrow> {}))"

definition files :: "policy_entry list \<Rightarrow> nat \<Rightarrow> policy_index \<Rightarrow> bool" where
  "files es n idx \<longleftrightarrow>
     set (pi_fallback idx) = {i. i < n \<and> selector (re_value (es ! i)) = None} \<and>
     (\<forall>d v. filed_under idx d v =
        {i. i < n \<and> (\<exists>vs. selector (re_value (es ! i)) = Some (d, vs) \<and> v \<in> set vs)})"

lemma push_positions:
  "(case foldl (push_position pos) m vs v of Some ps \<Rightarrow> set ps | None \<Rightarrow> {}) =
     (case m v of Some ps \<Rightarrow> set ps | None \<Rightarrow> {}) \<union> (if v \<in> set vs then {pos} else {})"
  by (induction vs arbitrary: m) (auto simp: push_position_def split: option.splits)

lemma index_policy_keeps [simp]:
  "pi_generation (index_policy idx row) = pi_generation idx"
  "pi_entries (index_policy idx row) = pi_entries idx"
  by (simp_all add: index_policy_def Let_def split: prod.split option.split)

lemma index_fold_keeps [simp]:
  "pi_generation (foldl index_policy idx rows) = pi_generation idx"
  "pi_entries (foldl index_policy idx rows) = pi_entries idx"
  by (induction rows arbitrary: idx) simp_all

lemma files_step:
  assumes "files es n idx"
  shows "files es (Suc n) (index_policy idx (n, es ! n))"
proof (cases "selector (re_value (es ! n))")
  case None
  with assms show ?thesis
    by (auto simp: files_def index_policy_def filed_under_def less_Suc_eq)
next
  case (Some r)
  obtain d vs where r: "r = (d, vs)" by fastforce
  have under: "filed_under (index_policy idx (n, es ! n)) d' v =
      filed_under idx d' v \<union> (if d' = d \<and> v \<in> set vs then {n} else {})" for d' v
    using Some push_positions [of n _ vs v]
    by (auto simp: index_policy_def r filed_under_def Let_def split: option.splits)
  from Some have "pi_fallback (index_policy idx (n, es ! n)) = pi_fallback idx"
    by (simp add: index_policy_def r Let_def)
  with assms Some show ?thesis by (auto simp: files_def under less_Suc_eq r)
qed

lemma files_fold:
  assumes "n \<le> length es"
  shows "files es n (foldl index_policy
     \<lparr>pi_generation = g, pi_entries = es, pi_by_value = Map.empty, pi_fallback = []\<rparr> (enumerate 0 (take n es)))"
  using assms
proof (induction n)
  case 0
  then show ?case by (simp add: files_def filed_under_def)
next
  case (Suc n)
  then show ?case
    using files_step [of es n] by (simp add: take_Suc_conv_app_nth enumerate_append_eq)
qed

lemma build_files: "files (entries_of t (scan t)) (length (entries_of t (scan t))) (policy_index_build scan t)"
  using files_fold [of "length (entries_of t (scan t))" "entries_of t (scan t)" "generation t"]
  by (simp add: policy_index_build_def Let_def)

lemma build_entries [simp]:
  "pi_entries (policy_index_build scan t) = entries_of t (scan t)"
  "pi_generation (policy_index_build scan t) = generation t"
  by (simp_all add: policy_index_build_def Let_def)

section \<open>A required value is required\<close>

lemma leaf_requires_sound:
  assumes "leaf_requires leaf = Some (d, vs)" and "eval_leaf lib leaf inp"
  shows "\<exists>v \<in> set vs. input_get inp d = Some v \<or> routing_parent_of inp d = Some v"
  using assms
  by (auto simp: leaf_requires_def eval_leaf_def eval_operator_def Let_def
      split: if_splits condition_operator.splits condition_value.splits option.splits)

lemma required_match_sound:
  "required_match nodes = Some (d, vs) \<Longrightarrow> eval_condition_nodes lib nodes inp \<Longrightarrow>
     \<exists>v \<in> set vs. input_get inp d = Some v \<or> routing_parent_of inp d = Some v"
proof (induction nodes rule: required_match.induct)
  case (2 leaf nodes)
  then show ?case
    by (cases "leaf_requires leaf") (auto simp: eval_condition_nodes_def leaf_requires_sound)
next
  case (3 logic negate children nodes)
  show ?case
  proof (cases "if logic = LogicAnd \<and> \<not> negate then required_match children else None")
    case None
    with 3 show ?thesis by (simp add: eval_condition_nodes_def)
  next
    case (Some r)
    with 3 show ?thesis by (auto simp: eval_condition_nodes_def split: if_splits)
  qed
qed simp

lemma match_has_required:
  assumes "validate_semantics lib p = Inr ()" and "match_policy_layer lib p i inp phase \<noteq> None"
    and "selector p = Some (d, vs)"
  shows "\<exists>v \<in> set vs. input_get inp d = Some v \<or> routing_parent_of inp d = Some v"
proof (cases "is_conditional p")
  case True
  with valid_policy_form [OF assms(1)] have "rp_scope p = None" by (simp add: conditional_form_def)
  with assms(3) obtain ns where ns: "rp_conditions p = Some ns" "required_match ns = Some (d, vs)"
    by (auto simp: selector_def split: option.splits)
  from assms(2) True ns(1) have "eval_condition_nodes lib ns inp"
    by (auto simp: match_policy_layer_def match_conditional_layer_def Let_def split: if_splits)
  with required_match_sound [OF ns(2)] show ?thesis by blast
next
  case False
  with valid_policy_form [OF assms(1)] have c: "rp_conditions p = None" by (simp add: classic_form_def)
  obtain scope r where sr: "rp_scope p = Some scope" "rp_scope_ref p = Some r"
    using c assms(3) by (auto simp: selector_def split: option.splits)
  from assms(2) False sr have "classic_applies scope r inp"
    by (auto simp: match_policy_layer_def split: if_splits)
  with assms(3) c sr show ?thesis
    by (auto simp: selector_def classic_applies_def split: policy_scope.splits)
qed

section \<open>Candidates\<close>

lemma positions_under_eq:
  "set (positions_under idx inp d) =
     (\<Union>v \<in> set_option (input_get inp d) \<union> set_option (routing_parent_of inp d). filed_under idx d v)"
  by (cases "pi_by_value idx d"; cases "input_get inp d"; cases "routing_parent_of inp d")
    (auto simp: positions_under_def filed_under_def split: option.split)

lemma distinct_remdups_adj: "sorted xs \<Longrightarrow> distinct (remdups_adj xs)"
proof (induction xs rule: remdups_adj.induct)
  case (3 x y xs)
  then show ?case by (cases "x = y") auto
qed simp_all

lemma sorted_positions:
  fixes ps :: "nat list"
  assumes "set ps \<subseteq> {..<n}"
  shows "remdups_adj (sort ps) = filter (\<lambda>i. i \<in> set ps) [0..<n]"
proof (rule sorted_distinct_set_unique)
  show "sorted (remdups_adj (sort ps))" by (simp add: sorted_remdups_adj)
  show "distinct (remdups_adj (sort ps))" by (simp add: distinct_remdups_adj)
  show "set (remdups_adj (sort ps)) = set (filter (\<lambda>i. i \<in> set ps) [0..<n])" using assms by auto
qed (simp_all add: sorted_wrt_filter)

text \<open>The policies that require no value, or one the request has.\<close>

definition selected_by :: "condition_input \<Rightarrow> rate_limit_policy \<Rightarrow> bool" where
  "selected_by inp p \<longleftrightarrow>
     (case selector p of
        None \<Rightarrow> True
      | Some (d, vs) \<Rightarrow> \<exists>v \<in> set vs. input_get inp d = Some v \<or> routing_parent_of inp d = Some v)"

lemma candidate_positions:
  assumes "files es n idx" and "set dims = dom (pi_by_value idx)"
  shows "set (pi_fallback idx @ concat (map (positions_under idx inp) dims)) =
     {i. i < n \<and> selected_by inp (re_value (es ! i))}" (is "set ?ps = ?S")
proof (rule set_eqI)
  fix i
  have "i \<in> set (positions_under idx inp d) \<longleftrightarrow>
      (\<exists>v. (input_get inp d = Some v \<or> routing_parent_of inp d = Some v) \<and> i \<in> filed_under idx d v)" for d
    by (auto simp: positions_under_eq)
  moreover have "d \<in> set dims" if "i \<in> filed_under idx d v" for d v
    using that assms(2) by (auto simp: filed_under_def split: option.splits)
  ultimately have "i \<in> set ?ps \<longleftrightarrow> i \<in> set (pi_fallback idx) \<or>
      (\<exists>d v. (input_get inp d = Some v \<or> routing_parent_of inp d = Some v) \<and> i \<in> filed_under idx d v)"
    by auto
  also have "\<dots> \<longleftrightarrow> i \<in> ?S"
    using assms(1) unfolding files_def selected_by_def
    by (cases "selector (re_value (es ! i))") auto
  finally show "i \<in> set ?ps \<longleftrightarrow> i \<in> ?S" .
qed

lemma candidates_eq:
  assumes "files es (length es) idx" and "pi_entries idx = es" and "set dims = dom (pi_by_value idx)"
  shows "candidates idx dims inp =
     map ((!) es) (filter (\<lambda>i. selected_by inp (re_value (es ! i))) [0..<length es])"
proof -
  let ?ps = "pi_fallback idx @ concat (map (positions_under idx inp) dims)"
  note ps = candidate_positions [OF assms(1,3), of inp]
  then have "set ?ps \<subseteq> {..<length es}" by auto
  from sorted_positions [OF this]
  have "remdups_adj (sort ?ps) = filter (\<lambda>i. selected_by inp (re_value (es ! i))) [0..<length es]"
    unfolding ps by (rule trans) (rule filter_cong, simp_all)
  then show ?thesis by (simp only: candidates_def assms(2))
qed

text \<open>The index loses nothing: on a table of valid policies, the candidates it yields for a request contain,
  in the order of the table and each once, all the policies that match, so that filtering the candidates is
  the same as scanning the whole table, whatever the request, the phase and the order of the hash maps.\<close>

theorem policy_index_exact:
  assumes "table_ok policy_nm t" and "enumerates t (scan t)"
    and "list_all (\<lambda>e. validate_semantics lib (re_value e) = Inr ()) (scan t)"
    and "idx = policy_index_build scan t" and "set dims = dom (pi_by_value idx)"
  shows "filter (\<lambda>e. match_policy_layer lib (re_value e) (re_id e) inp phase \<noteq> None) (candidates idx dims inp) =
     filter (\<lambda>e. match_policy_layer lib (re_value e) (re_id e) inp phase \<noteq> None) (scan t)"
proof -
  let ?es = "scan t"
  let ?m = "\<lambda>e. match_policy_layer lib (re_value e) (re_id e) inp phase \<noteq> None"
  let ?s = "\<lambda>i. selected_by inp (re_value (?es ! i))"
  have es: "entries_of t (scan t) = ?es" by (rule enumerates_scan [OF assms(1,2)])
  have c: "candidates idx dims inp = map ((!) ?es) (filter ?s [0..<length ?es])"
    by (rule candidates_eq) (use build_files [of t scan] assms(4,5) es in simp_all)
  have sel: "?s i" if "i < length ?es" and "?m (?es ! i)" for i
    using match_has_required [OF _ that(2)] assms(3) that(1)
    by (auto simp: list_all_length selected_by_def split: option.split)
  have "filter ?m (map ((!) ?es) (filter ?s [0..<length ?es])) =
      map ((!) ?es) (filter (\<lambda>i. ?m (?es ! i)) (filter ?s [0..<length ?es]))"
    by (simp only: filter_map comp_def)
  also have "filter (\<lambda>i. ?m (?es ! i)) (filter ?s [0..<length ?es]) = filter (\<lambda>i. ?m (?es ! i)) [0..<length ?es]"
    unfolding filter_filter by (rule filter_cong) (use sel in auto)
  also have "map ((!) ?es) \<dots> = filter ?m (map ((!) ?es) [0..<length ?es])"
    by (simp only: filter_map comp_def)
  finally show ?thesis by (simp only: c map_nth)
qed

definition demo_row :: "string \<Rightarrow> rate_limit_policy \<Rightarrow> policy_entry" where
  "demo_row i p = \<lparr>re_id = i, re_value = p, re_revision = 1\<rparr>"

lemma demo_row_simps [simp]:
  "re_id (demo_row i p) = i" "re_value (demo_row i p) = p" "demo_row i p = demo_row j q \<longleftrightarrow> i = j \<and> p = q"
  by (auto simp: demo_row_def)

definition demo_rows :: "policy_entry list" where
  "demo_rows =
     [demo_row ''a'' (demo_policy [demo_leaf DimTeam OpEq ''t1''] []),
      demo_row ''b'' (demo_policy [demo_leaf DimTeam OpEq ''t2''] [])]"

definition demo_policies :: "rate_limit_policy resource_table" where
  "demo_policies = snd (table_run policy_nm 1 (map Insert demo_rows))"

lemma demo_policies_ok: "table_ok policy_nm demo_policies"
  by (simp add: demo_policies_def table_run_ok)

lemma demo_policies_enum: "enumerates demo_policies demo_rows"
  by (auto simp: enumerates_def demo_policies_def table_run_rows rows_of_def demo_rows_def)

lemma demo_rows_valid: "list_all (\<lambda>e. validate_semantics demo_cond_lib (re_value e) = Inr ()) demo_rows"
  by (simp add: demo_rows_def validate_semantics_def eval_policy eval_conditions)

theorem policy_index_exact_witness:
  "filter (\<lambda>e. match_policy_layer demo_cond_lib (re_value e) (re_id e) (no_input\<lparr>ci_team := Some ''t2''\<rparr>)
                 (PhaseRequest False) \<noteq> None)
     (candidates (policy_index_build (\<lambda>_. demo_rows) demo_policies) [DimTeam] (no_input\<lparr>ci_team := Some ''t2''\<rparr>)) =
   [demo_row ''b'' (demo_policy [demo_leaf DimTeam OpEq ''t2''] [])]"
proof -
  have d: "set [DimTeam] = dom (pi_by_value (policy_index_build (\<lambda>_. demo_rows) demo_policies))"
    by (simp add: policy_index_build_def enumerates_scan [OF demo_policies_ok demo_policies_enum])
      (simp add: index_policy_def demo_rows_def demo_policy_def demo_leaf_def selector_def leaf_requires_def)
  note policy_index_exact [of demo_policies "\<lambda>_. demo_rows", OF demo_policies_ok demo_policies_enum demo_rows_valid refl d,
      of "no_input\<lparr>ci_team := Some ''t2''\<rparr>" "PhaseRequest False"]
  then show ?thesis
    by (simp add: demo_rows_def eval_policy eval_conditions)
qed

section \<open>The cache\<close>

interpretation policy_cache: generation_cache generation "policy_index_build scan"
  "map_option (\<lambda>i. (pi_generation i, i))" "policy_for_table scan"
  by unfold_locales (auto simp: policy_for_table_def Let_def split: option.splits if_splits)

end
