(* ===== verification/Quota.thy ===== *)
theory Quota
  imports Policy_Index Budget Limiter
begin

text \<open>
  The quota gate, \<^verbatim>\<open>crates/aisix-proxy/src/quota.rs\<close>: the layers a request reserves (its key, its model, its
  MCP server, the policies), how a refusal is reported, and the gates of the endpoints and of each target of
  a routed dispatch. Metrics, log lines and the counting of requests without a price are left out.

  A reservation awaits the store, so other requests act in between: \<open>qe_others i\<close> is what they did to the
  limiter before the \<open>i\<close>-th acquire of the request and \<open>qe_clock i\<close> the time of that acquire.
\<close>

section \<open>The request\<close>

record quota_key = authenticated_key +
  qk_rate_limit :: "rate_limit option"
  qk_mcp_rate_limits :: "(string \<rightharpoonup> mcp_rate_limit) option"
  qk_mcp_rate_limits_by_id :: "(string \<rightharpoonup> mcp_rate_limit) option"

text \<open>The limit of a key on an MCP server with the identity its bucket is named by; \<open>id_of\<close> is the index
  of registered servers.\<close>

definition mcp_limit_of :: "quota_key \<Rightarrow> (string \<Rightarrow> string option) \<Rightarrow> string \<Rightarrow> (string \<times> mcp_rate_limit) option" where
  "mcp_limit_of k id_of server =
     (case qk_mcp_rate_limits_by_id k of
        Some m \<Rightarrow>
          (case id_of server of
             None \<Rightarrow> None
           | Some i \<Rightarrow> map_option (Pair i) (m i))
      | None \<Rightarrow>
          (case qk_mcp_rate_limits k of
             None \<Rightarrow> None
           | Some m \<Rightarrow> map_option (Pair server) (m server)))"

record model_quota =
  mq_name :: string
  mq_bucket_name :: string
  mq_entry_id :: string
  mq_limits :: "rate_limit option"
  mq_provider :: "string option"
  mq_routing_parent :: bool

definition from_model :: "string \<Rightarrow> string \<Rightarrow> model \<Rightarrow> model_quota" where
  "from_model name entry_id m =
     \<lparr>mq_name = name, mq_bucket_name = display_name m, mq_entry_id = entry_id,
      mq_limits = (case model_rate_limit m of
                     Some l \<Rightarrow> if is_unrestricted l then None else Some l
                   | None \<Rightarrow> None),
      mq_provider = provider m,
      mq_routing_parent = (is_routing m \<or> is_ensemble m \<or> is_semantic m)\<rparr>"

record routing_parent =
  rpar_name :: string
  rpar_entry_id :: string

definition condition_input_of ::
    "quota_key \<Rightarrow> model_quota option \<Rightarrow> routing_parent option \<Rightarrow> condition_input" where
  "condition_input_of auth m parent =
     \<lparr>ci_team = ak_team_id auth, ci_member = ak_user_id auth, ci_api_key = Some (ak_id auth),
      ci_model = map_option mq_entry_id m, ci_model_name = map_option mq_name m,
      ci_provider = Option.bind m mq_provider,
      ci_parent_model = map_option rpar_entry_id parent,
      ci_parent_model_name = map_option rpar_name parent,
      ci_tags = Some (ak_tags auth)\<rparr>"

datatype parent_counted = CountedOff | CountedRecord | CountedSkip "string list"

section \<open>Refusals\<close>

datatype refused_layer = LayerApiKey | LayerModel | LayerMcp

definition reject_layer :: "refused_layer \<Rightarrow> rate_limit_error \<Rightarrow> proxy_error" where
  "reject_layer layer e = (if layer = LayerModel then ModelRateLimit e else RateLimit e)"

definition reject_policy :: "policy_entry \<Rightarrow> rate_limit_error \<Rightarrow> proxy_error" where
  "reject_policy row e =
     PolicyRateLimit e (re_id row) (rp_name (re_value row)) (policy_bucket_is_callers (re_value row))"

definition reject_spend ::
    "(nat \<Rightarrow> string) \<Rightarrow> rate_limit_policy \<Rightarrow> string option \<Rightarrow> rate_limit_error \<Rightarrow> proxy_error" where
  "reject_spend usd p member e =
     BudgetExceeded
       \<lparr>br_message =
          (if e = AllowanceExhausted
           then ''spend allowance exhausted for policy '' @ rp_name p @
                [CHR '' '', CHR 0xE2, CHR 0x80, CHR 0x94] @ '' top up to continue''
           else ''spend ceiling reached for policy '' @ rp_name p),
        br_scope = map_option policy_scope_str (rp_scope p),
        br_scope_kind = Option.bind (rp_scope p)
          (\<lambda>s. case s of
             ScopeApiKey \<Rightarrow> Some BudgetApiKey
           | ScopeTeam \<Rightarrow> Some BudgetTeam
           | ScopeMember \<Rightarrow> Some BudgetMember
           | ScopeTeamMember \<Rightarrow> Some BudgetTeamMember
           | ScopeModel \<Rightarrow> None),
        br_caller_message =
          Some (if e = AllowanceExhausted then ''Spend allowance exhausted. Top up to continue.''
                else ''Spend ceiling reached.''),
        br_scope_ref =
          (case member of
             Some m \<Rightarrow>
               if rp_scope p = Some ScopeTeamMember
               then map_option (\<lambda>team. team @ '':'' @ m) (rp_scope_ref p) else rp_scope_ref p
           | None \<Rightarrow> rp_scope_ref p),
        br_limit_usd =
          Some (usd (unwrap_or (if e = AllowanceExhausted then rp_granted_micro_usd p
                                else rp_max_spend_micro_usd p) 0)),
        br_spent_usd = None, br_remaining_usd = None,
        br_period = map_option policy_window_str (rp_window p),
        br_period_resets_at = None,
        br_retry_after_seconds = error_retry_after_secs e\<rparr>"

section \<open>Layers\<close>

record ('s, 're, 'tz) quota_env =
  qe_ops :: "'s rate_store"
  qe_clock :: "nat \<Rightarrow> nat"
  qe_others :: "nat \<Rightarrow> 's limiter \<Rightarrow> 's limiter"
  qe_lib :: "'re cond_lib"
  qe_calendar :: "'tz calendar_lib"
  qe_utc_now :: int
  qe_scan :: "rate_limit_policy resource_table \<Rightarrow> policy_entry list"
  qe_dims :: "policy_index \<Rightarrow> policy_dimension list"
  qe_usd :: "nat \<Rightarrow> string"
  qe_server_id :: "string \<Rightarrow> string option"

record 's gate_state =
  gs_limiter :: "'s limiter"
  gs_reservations :: "reservation list"
  gs_counted :: "string list"

text \<open>One \<^verbatim>\<open>pre_commit\<close> whose reservation joins those already taken.\<close>

definition take_layer ::
    "('s, 're, 'tz) quota_env \<Rightarrow> string \<Rightarrow> rate_limit \<Rightarrow> counter_unit \<Rightarrow> (rate_limit_error \<Rightarrow> proxy_error) \<Rightarrow>
     's gate_state \<Rightarrow> 's gate_state \<times> proxy_error option" where
  "take_layer env key l u wrap g =
     (let n = length (gs_reservations g);
          (lim, r) = pre_commit_with_unit (qe_ops env) (qe_others env n (gs_limiter g)) (qe_clock env n) key l u
      in case r of
           Inl e \<Rightarrow> (g\<lparr>gs_limiter := lim\<rparr>, Some (wrap e))
         | Inr res \<Rightarrow> (g\<lparr>gs_limiter := lim, gs_reservations := gs_reservations g @ [res]\<rparr>, None))"

text \<open>The question mark: the first error ends the gate.\<close>

definition and_then ::
    "'g \<times> proxy_error option \<Rightarrow> ('g \<Rightarrow> 'g \<times> proxy_error option) \<Rightarrow> 'g \<times> proxy_error option" where
  "and_then r f = (case r of (g, Some e) \<Rightarrow> (g, Some e) | (g, None) \<Rightarrow> f g)"

definition reserve_row ::
    "('s, 're, 'tz) quota_env \<Rightarrow> condition_input \<Rightarrow> policy_phase \<Rightarrow> parent_counted \<Rightarrow> policy_entry \<Rightarrow>
     's gate_state \<Rightarrow> 's gate_state \<times> proxy_error option" where
  "reserve_row env inp phase counted row g =
     (let p = re_value row
      in if suspended_at (qe_calendar env) p (qe_utc_now env) then (g, None)
         else (case match_policy_layer (qe_lib env) p (re_id row) inp phase of
                 None \<Rightarrow> (g, None)
               | Some layer \<Rightarrow>
                   (let key = pl_bucket_key layer;
                        limits = (case counted of
                                    CountedSkip keys \<Rightarrow>
                                      if key \<in> set keys then without_request_counts (pl_limits layer)
                                      else pl_limits layer
                                  | _ \<Rightarrow> pl_limits layer)
                    in and_then
                         (if is_unrestricted limits then (g, None)
                          else and_then (take_layer env key limits UnitTokens (reject_policy row) g)
                                 (\<lambda>g. (if counted = CountedRecord \<and>
                                           matched_only_through_parent (qe_lib env) p (re_id row) inp phase
                                       then g\<lparr>gs_counted := gs_counted g @ [key]\<rparr> else g, None)))
                         (\<lambda>g. case pl_spend layer of
                                None \<Rightarrow> (g, None)
                              | Some s \<Rightarrow>
                                  take_layer env (sl_bucket_key s) (sl_limits s) UnitMicroUsd
                                    (reject_spend (qe_usd env) p (ci_member inp)) g))))"

fun reserve_rows ::
    "('s, 're, 'tz) quota_env \<Rightarrow> condition_input \<Rightarrow> policy_phase \<Rightarrow> parent_counted \<Rightarrow> policy_entry list \<Rightarrow>
     's gate_state \<Rightarrow> 's gate_state \<times> proxy_error option" where
  "reserve_rows env inp phase counted [] g = (g, None)"
| "reserve_rows env inp phase counted (row # rows) g =
     and_then (reserve_row env inp phase counted row g) (reserve_rows env inp phase counted rows)"

definition reserve_policy_layers ::
    "('s, 're, 'tz) quota_env \<Rightarrow> live_policy_index \<Rightarrow> aisix_snapshot \<Rightarrow> condition_input \<Rightarrow> policy_phase \<Rightarrow>
     parent_counted \<Rightarrow> 's gate_state \<Rightarrow> live_policy_index \<times> 's gate_state \<times> proxy_error option" where
  "reserve_policy_layers env cache snap inp phase counted g =
     (if tbl_count (snap_rate_limit_policies snap) = 0 then (cache, g, None)
      else (let (cache', idx) = policy_for_table (qe_scan env) cache (snap_rate_limit_policies snap)
            in (cache', reserve_rows env inp phase counted (candidates idx (qe_dims env idx) inp) g)))"

text \<open>The inline limit of a model, and of the key on an MCP server.\<close>

definition take_model_layer ::
    "('s, 're, 'tz) quota_env \<Rightarrow> model_quota \<Rightarrow> 's gate_state \<Rightarrow> 's gate_state \<times> proxy_error option" where
  "take_model_layer env m g =
     (case mq_limits m of
        Some l \<Rightarrow> take_layer env (''model:'' @ mq_bucket_name m) l UnitTokens (reject_layer LayerModel) g
      | None \<Rightarrow> (g, None))"

definition take_key_layer ::
    "('s, 're, 'tz) quota_env \<Rightarrow> quota_key \<Rightarrow> 's gate_state \<Rightarrow> 's gate_state \<times> proxy_error option" where
  "take_key_layer env auth g =
     (let l = unwrap_or (qk_rate_limit auth) rate_limit_default
      in if is_unrestricted l then (g, None)
         else take_layer env (ak_id auth) l UnitTokens (reject_layer LayerApiKey) g)"

definition take_mcp_layer ::
    "('s, 're, 'tz) quota_env \<Rightarrow> quota_key \<Rightarrow> string \<Rightarrow> 's gate_state \<Rightarrow> 's gate_state \<times> proxy_error option" where
  "take_mcp_layer env auth server g =
     (case mcp_limit_of auth (qe_server_id env) server of
        None \<Rightarrow> (g, None)
      | Some (bucket, l) \<Rightarrow>
          (if is_unrestricted (rate_limit_from_mcp l) then (g, None)
           else take_layer env (''mcp:'' @ ak_id auth @ '':'' @ bucket) (rate_limit_from_mcp l) UnitTokens
                  (reject_layer LayerMcp) g))"

definition gate_start :: "'s limiter \<Rightarrow> 's gate_state" where
  "gate_start lim = \<lparr>gs_limiter = lim, gs_reservations = [], gs_counted = []\<rparr>"

text \<open>The result of a gate: on an error the vector of reservations is dropped.\<close>

definition gate_result ::
    "('s, 're, 'tz) quota_env \<Rightarrow> 's gate_state \<times> proxy_error option \<Rightarrow>
     's limiter \<times> (proxy_error + multi_reservation)" where
  "gate_result env r =
     (case r of
        (g, None) \<Rightarrow> (gs_limiter g, Inr (gs_reservations g))
      | (g, Some e) \<Rightarrow>
          ((gs_limiter g)\<lparr>lim_store :=
              multi_drop (qe_ops env) (lim_store (gs_limiter g)) (qe_clock env (length (gs_reservations g) + 1))
                (gs_reservations g)\<rparr>,
           Inl e))"

definition request_layers ::
    "('s, 're, 'tz) quota_env \<Rightarrow> live_policy_index \<Rightarrow> aisix_snapshot \<Rightarrow> quota_key \<Rightarrow> model_quota option \<Rightarrow>
     string option \<Rightarrow> 's limiter \<Rightarrow> live_policy_index \<times> 's gate_state \<times> proxy_error option" where
  "request_layers env cache snap auth m server lim =
     (case and_then (take_key_layer env auth (gate_start lim))
             (\<lambda>g. and_then (case m of Some m \<Rightarrow> take_model_layer env m g | None \<Rightarrow> (g, None))
                    (\<lambda>g. case server of Some s \<Rightarrow> take_mcp_layer env auth s g | None \<Rightarrow> (g, None))) of
        (g, Some e) \<Rightarrow> (cache, g, Some e)
      | (g, None) \<Rightarrow>
          reserve_policy_layers env cache snap (condition_input_of auth m None)
            (PhaseRequest (case m of Some m \<Rightarrow> mq_routing_parent m | None \<Rightarrow> False)) CountedOff g)"

definition reserve_layers ::
    "('s, 're, 'tz) quota_env \<Rightarrow> live_policy_index \<Rightarrow> aisix_snapshot \<Rightarrow> quota_key \<Rightarrow> model_quota option \<Rightarrow>
     string option \<Rightarrow> 's limiter \<Rightarrow> live_policy_index \<times> 's limiter \<times> (proxy_error + multi_reservation)" where
  "reserve_layers env cache snap auth m server lim =
     apsnd (gate_result env) (request_layers env cache snap auth m server lim)"

section \<open>The gate of a target\<close>

definition target_layers ::
    "('s, 're, 'tz) quota_env \<Rightarrow> live_policy_index \<Rightarrow> aisix_snapshot \<Rightarrow> quota_key \<Rightarrow> string \<Rightarrow> string \<Rightarrow> model \<Rightarrow>
     routing_parent option \<Rightarrow> parent_counted \<Rightarrow> 's limiter \<Rightarrow>
     live_policy_index \<times> 's gate_state \<times> proxy_error option" where
  "target_layers env cache snap auth name entry_id m parent counted lim =
     (let mq = from_model name entry_id m
      in case take_model_layer env mq (gate_start lim) of
           (g, Some e) \<Rightarrow> (cache, g, Some e)
         | (g, None) \<Rightarrow>
             reserve_policy_layers env cache snap (condition_input_of auth (Some mq) parent) PhaseModelTarget
               counted g)"

definition reserve_model_layers ::
    "('s, 're, 'tz) quota_env \<Rightarrow> live_policy_index \<Rightarrow> aisix_snapshot \<Rightarrow> quota_key \<Rightarrow> string \<Rightarrow> string \<Rightarrow> model \<Rightarrow>
     routing_parent option \<Rightarrow> parent_counted \<Rightarrow> 's limiter \<Rightarrow>
     live_policy_index \<times> 's limiter \<times> (proxy_error + multi_reservation)" where
  "reserve_model_layers env cache snap auth name entry_id m parent counted lim =
     apsnd (gate_result env) (target_layers env cache snap auth name entry_id m parent counted lim)"

definition reserve_model_only ::
    "('s, 're, 'tz) quota_env \<Rightarrow> live_policy_index \<Rightarrow> aisix_snapshot \<Rightarrow> quota_key \<Rightarrow> string \<Rightarrow> string \<Rightarrow> model \<Rightarrow>
     routing_parent option \<Rightarrow> 's limiter \<Rightarrow>
     live_policy_index \<times> 's limiter \<times> (proxy_error + multi_reservation)" where
  "reserve_model_only env cache snap auth name entry_id m parent lim =
     reserve_model_layers env cache snap auth name entry_id m parent CountedOff lim"

text \<open>The classifying call of a semantic router also returns the buckets to skip at the target; they are kept
  when the gate refuses.\<close>

definition reserve_semantic_classifier ::
    "('s, 're, 'tz) quota_env \<Rightarrow> live_policy_index \<Rightarrow> aisix_snapshot \<Rightarrow> quota_key \<Rightarrow> string \<Rightarrow> string \<Rightarrow> model \<Rightarrow>
     routing_parent \<Rightarrow> string list \<Rightarrow> 's limiter \<Rightarrow>
     live_policy_index \<times> string list \<times> 's limiter \<times> (proxy_error + multi_reservation)" where
  "reserve_semantic_classifier env cache snap auth name entry_id m router keys lim =
     (let (cache', r) = target_layers env cache snap auth name entry_id m (Some router) CountedRecord lim
      in (cache', keys @ gs_counted (fst r), gate_result env r))"

definition reserve_routing_target_counted ::
    "('s, 're, 'tz) quota_env \<Rightarrow> live_policy_index \<Rightarrow> aisix_snapshot \<Rightarrow> quota_key \<Rightarrow> routing_parent option \<Rightarrow>
     string \<Rightarrow> string \<Rightarrow> model \<Rightarrow> string list \<Rightarrow> 's limiter \<Rightarrow>
     live_policy_index \<times> 's limiter \<times> (proxy_error + multi_reservation option)" where
  "reserve_routing_target_counted env cache snap auth parent name entry_id m keys lim =
     (case parent of
        None \<Rightarrow> (cache, lim, Inr None)
      | Some par \<Rightarrow>
          apsnd (apsnd (map_sum id Some))
            (reserve_model_layers env cache snap auth name entry_id m (Some par) (CountedSkip keys) lim))"

definition reserve_routing_target ::
    "('s, 're, 'tz) quota_env \<Rightarrow> live_policy_index \<Rightarrow> aisix_snapshot \<Rightarrow> quota_key \<Rightarrow> routing_parent option \<Rightarrow>
     string \<Rightarrow> string \<Rightarrow> model \<Rightarrow> 's limiter \<Rightarrow>
     live_policy_index \<times> 's limiter \<times> (proxy_error + multi_reservation option)" where
  "reserve_routing_target env cache snap auth parent name entry_id m lim =
     reserve_routing_target_counted env cache snap auth parent name entry_id m [] lim"

section \<open>The endpoints' gates\<close>

definition enforce ::
    "('s, 're, 'tz) quota_env \<Rightarrow> chrono_lib \<Rightarrow> budget_gate \<Rightarrow> live_policy_index \<Rightarrow> aisix_snapshot \<Rightarrow> quota_key \<Rightarrow>
     model_quota option \<Rightarrow> string option \<Rightarrow> 's limiter \<Rightarrow>
     live_policy_index \<times> 's limiter \<times> (proxy_error + multi_reservation)" where
  "enforce env chrono bgate cache snap auth m server lim =
     (case snd (enforce_key chrono bgate (authenticated_key.truncate auth)) of
        Some e \<Rightarrow> (cache, lim, Inl e)
      | None \<Rightarrow> reserve_layers env cache snap auth m server lim)"

definition enforce_mcp ::
    "('s, 're, 'tz) quota_env \<Rightarrow> chrono_lib \<Rightarrow> budget_gate \<Rightarrow> live_policy_index \<Rightarrow> aisix_snapshot \<Rightarrow> quota_key \<Rightarrow>
     string \<Rightarrow> 's limiter \<Rightarrow> live_policy_index \<times> 's limiter \<times> (proxy_error + multi_reservation)" where
  "enforce_mcp env chrono bgate cache snap auth server lim =
     enforce env chrono bgate cache snap auth None (Some server) lim"

definition spend_bucket_keys ::
    "('s, 're, 'tz) quota_env \<Rightarrow> live_policy_index \<Rightarrow> aisix_snapshot \<Rightarrow> quota_key \<Rightarrow> model_quota \<Rightarrow>
     live_policy_index \<times> string list" where
  "spend_bucket_keys env cache snap auth m =
     (if tbl_count (snap_rate_limit_policies snap) = 0 then (cache, [])
      else (let inp = condition_input_of auth (Some m) None;
                (cache', idx) = policy_for_table (qe_scan env) cache (snap_rate_limit_policies snap)
            in (cache',
                map sl_bucket_key
                  (List.map_filter pl_spend
                    (List.map_filter
                      (\<lambda>row. match_policy_layer (qe_lib env) (re_value row) (re_id row) inp (PhaseRequest False))
                      (filter (\<lambda>row. \<not> suspended_at (qe_calendar env) (re_value row) (qe_utc_now env))
                        (candidates idx (qe_dims env idx) inp)))))))"

end
