(* ===== verification/Quota_Results.thy ===== *)
theory Quota_Results
  imports Quota Limiter_Results
begin

text \<open>
  What the quota gate guarantees: it charges exactly the layers the documents name, in their order; an admitted
  request holds one reservation for each; a refused one holds nothing and is answered with the refusal of
  the first layer that refused. The argument goes through a list of charges read off the documents alone.
\<close>

section \<open>The charges the documents name\<close>

record layer_charge =
  ch_key :: string
  ch_limits :: rate_limit
  ch_unit :: counter_unit
  ch_wrap :: "rate_limit_error \<Rightarrow> proxy_error"

definition take_charge ::
    "('s, 're, 'tz) quota_env \<Rightarrow> layer_charge \<Rightarrow> 's gate_state \<Rightarrow> 's gate_state \<times> proxy_error option" where
  "take_charge env c g = take_layer env (ch_key c) (ch_limits c) (ch_unit c) (ch_wrap c) g"

fun take_all ::
    "('s, 're, 'tz) quota_env \<Rightarrow> layer_charge list \<Rightarrow> 's gate_state \<Rightarrow> 's gate_state \<times> proxy_error option" where
  "take_all env [] g = (g, None)"
| "take_all env (c # cs) g = and_then (take_charge env c g) (take_all env cs)"

definition charge_if :: "rate_limit \<Rightarrow> string \<Rightarrow> (rate_limit_error \<Rightarrow> proxy_error) \<Rightarrow> layer_charge list" where
  "charge_if l key wrap =
     (if is_unrestricted l then []
      else [\<lparr>ch_key = key, ch_limits = l, ch_unit = UnitTokens, ch_wrap = wrap\<rparr>])"

text \<open>What a target skips: the request counts of the buckets the classifier has counted.\<close>

definition counted_limits :: "string list \<Rightarrow> policy_layer \<Rightarrow> rate_limit" where
  "counted_limits skip layer =
     (if pl_bucket_key layer \<in> set skip then without_request_counts (pl_limits layer) else pl_limits layer)"

definition policy_charges ::
    "('s, 're, 'tz) quota_env \<Rightarrow> condition_input \<Rightarrow> policy_phase \<Rightarrow> string list \<Rightarrow> policy_entry \<Rightarrow> layer_charge list" where
  "policy_charges env inp phase skip row =
     (let p = re_value row
      in if suspended_at (qe_calendar env) p (qe_utc_now env) then []
         else (case match_policy_layer (qe_lib env) p (re_id row) inp phase of
                 None \<Rightarrow> []
               | Some layer \<Rightarrow>
                   charge_if (counted_limits skip layer) (pl_bucket_key layer) (reject_policy row) @
                   (case pl_spend layer of
                      None \<Rightarrow> []
                    | Some s \<Rightarrow>
                        [\<lparr>ch_key = sl_bucket_key s, ch_limits = sl_limits s, ch_unit = UnitMicroUsd,
                          ch_wrap = reject_spend (qe_usd env) p (ci_member inp)\<rparr>])))"

definition model_charges :: "model_quota \<Rightarrow> layer_charge list" where
  "model_charges m =
     (case mq_limits m of
        Some l \<Rightarrow> [\<lparr>ch_key = ''model:'' @ mq_bucket_name m, ch_limits = l, ch_unit = UnitTokens,
                    ch_wrap = reject_layer LayerModel\<rparr>]
      | None \<Rightarrow> [])"

definition key_charges :: "quota_key \<Rightarrow> layer_charge list" where
  "key_charges auth =
     charge_if (unwrap_or (qk_rate_limit auth) rate_limit_default) (ak_id auth) (reject_layer LayerApiKey)"

definition mcp_charges :: "(string \<Rightarrow> string option) \<Rightarrow> quota_key \<Rightarrow> string \<Rightarrow> layer_charge list" where
  "mcp_charges id_of auth server =
     (case mcp_limit_of auth id_of server of
        None \<Rightarrow> []
      | Some (bucket, l) \<Rightarrow>
          charge_if (rate_limit_from_mcp l) (''mcp:'' @ ak_id auth @ '':'' @ bucket) (reject_layer LayerMcp))"

definition request_charges ::
    "('s, 're, 'tz) quota_env \<Rightarrow> aisix_snapshot \<Rightarrow> quota_key \<Rightarrow> model_quota option \<Rightarrow> string option \<Rightarrow> layer_charge list" where
  "request_charges env snap auth m server =
     key_charges auth @ (case m of Some m \<Rightarrow> model_charges m | None \<Rightarrow> []) @
     (case server of Some s \<Rightarrow> mcp_charges (qe_server_id env) auth s | None \<Rightarrow> []) @
     concat (map (policy_charges env (condition_input_of auth m None)
                    (PhaseRequest (case m of Some m \<Rightarrow> mq_routing_parent m | None \<Rightarrow> False)) [])
               (qe_scan env (snap_rate_limit_policies snap)))"

definition target_charges ::
    "('s, 're, 'tz) quota_env \<Rightarrow> aisix_snapshot \<Rightarrow> quota_key \<Rightarrow> string \<Rightarrow> string \<Rightarrow> model \<Rightarrow> routing_parent option \<Rightarrow>
     string list \<Rightarrow> layer_charge list" where
  "target_charges env snap auth name entry_id m parent skip =
     model_charges (from_model name entry_id m) @
     concat (map (policy_charges env (condition_input_of auth (Some (from_model name entry_id m)) parent)
                    PhaseModelTarget skip)
               (qe_scan env (snap_rate_limit_policies snap)))"

section \<open>The gate takes the charges\<close>

lemma and_then_assoc: "and_then (and_then r f) h = and_then r (\<lambda>g. and_then (f g) h)"
  by (auto simp: and_then_def split: prod.split option.split)

lemma and_then_done [simp]: "and_then (g, None) f = f g" "and_then r (\<lambda>g. (g, None)) = r"
  by (auto simp: and_then_def split: prod.split option.split)

lemma take_all_Nil [simp]: "take_all env [] = (\<lambda>g. (g, None))"
  by (rule ext) simp

lemma take_all_single [simp]: "take_all env [c] = take_charge env c"
  by (rule ext) simp

lemma take_charge_eq [simp]:
  "take_charge env \<lparr>ch_key = key, ch_limits = l, ch_unit = u, ch_wrap = wrap\<rparr> = take_layer env key l u wrap"
  by (rule ext) (simp add: take_charge_def)

lemma take_all_append: "take_all env (cs @ ds) g = and_then (take_all env cs g) (take_all env ds)"
proof (induction cs arbitrary: g)
  case (Cons c cs)
  then have "take_all env (cs @ ds) = (\<lambda>g. and_then (take_all env cs g) (take_all env ds))"
    by (intro ext)
  then show ?case by (simp add: and_then_assoc)
qed simp

lemma take_all_charge_if:
  "take_all env (charge_if l key wrap) g =
     (if is_unrestricted l then (g, None) else take_layer env key l UnitTokens wrap g)"
  by (simp add: charge_if_def take_charge_def)

fun skipped :: "parent_counted \<Rightarrow> string list" where
  "skipped (CountedSkip keys) = keys"
| "skipped _ = []"

lemma row_takes_charges:
  assumes "counted \<noteq> CountedRecord"
  shows "reserve_row env inp phase counted row g = take_all env (policy_charges env inp phase (skipped counted) row) g"
proof (cases "match_policy_layer (qe_lib env) (re_value row) (re_id row) inp phase")
  case (Some layer)
  have "(case counted of CountedSkip keys \<Rightarrow>
          if pl_bucket_key layer \<in> set keys then without_request_counts (pl_limits layer) else pl_limits layer
        | _ \<Rightarrow> pl_limits layer) = counted_limits (skipped counted) layer"
    by (cases counted) (simp_all add: counted_limits_def)
  with Some assms show ?thesis
    by (cases "pl_spend layer")
      (simp_all add: reserve_row_def policy_charges_def Let_def take_all_append take_all_charge_if take_charge_def)
qed (simp add: reserve_row_def policy_charges_def Let_def)

lemma rows_take_charges:
  assumes "counted \<noteq> CountedRecord"
  shows "reserve_rows env inp phase counted rows g =
     take_all env (concat (map (policy_charges env inp phase (skipped counted)) rows)) g"
proof (induction rows arbitrary: g)
  case (Cons row rows)
  then have "reserve_rows env inp phase counted rows =
      take_all env (concat (map (policy_charges env inp phase (skipped counted)) rows))" by (intro ext)
  then show ?case by (simp add: row_takes_charges [OF assms] take_all_append)
qed simp

text \<open>Rows that do not match charge nothing, so the candidates of the index charge what the table does.\<close>

lemma charges_of_matching:
  "concat (map (policy_charges env inp phase skip) rows) =
     concat (map (policy_charges env inp phase skip)
       (filter (\<lambda>e. match_policy_layer (qe_lib env) (re_value e) (re_id e) inp phase \<noteq> None) rows))"
  by (induction rows) (auto simp: policy_charges_def Let_def)

text \<open>The policy table and the cached index a gate may rely on: valid rows, and stamps that are not reused.\<close>

definition policies_ready ::
    "('s, 're, 'tz) quota_env \<Rightarrow> live_policy_index \<Rightarrow> rate_limit_policy resource_table \<Rightarrow> bool" where
  "policies_ready env cache t \<longleftrightarrow>
     table_ok policy_nm t \<and> enumerates t (qe_scan env t) \<and>
     list_all (\<lambda>e. validate_semantics (qe_lib env) (re_value e) = Inr ()) (qe_scan env t) \<and>
     (let idx = policy_index_build (qe_scan env) t in set (qe_dims env idx) = dom (pi_by_value idx)) \<and>
     (\<forall>idx. cache = Some idx \<longrightarrow> pi_generation idx = generation t \<longrightarrow> idx = policy_index_build (qe_scan env) t)"

lemma cached_index:
  assumes "policies_ready env cache t"
  shows "snd (policy_for_table (qe_scan env) cache t) = policy_index_build (qe_scan env) t"
  using assms by (auto simp: policies_ready_def policy_for_table_def Let_def split: option.split)

lemma policy_layers_take_charges:
  assumes "policies_ready env cache (snap_rate_limit_policies snap)" and "counted \<noteq> CountedRecord"
  shows "snd (reserve_policy_layers env cache snap inp phase counted g) =
     take_all env (concat (map (policy_charges env inp phase (skipped counted))
       (qe_scan env (snap_rate_limit_policies snap)))) g"
proof -
  let ?t = "snap_rate_limit_policies snap"
  from assms(1) have ready: "table_ok policy_nm ?t" "enumerates ?t (qe_scan env ?t)"
    "list_all (\<lambda>e. validate_semantics (qe_lib env) (re_value e) = Inr ()) (qe_scan env ?t)"
    "set (qe_dims env (policy_index_build (qe_scan env) ?t)) = dom (pi_by_value (policy_index_build (qe_scan env) ?t))"
    by (simp_all add: policies_ready_def Let_def)
  show ?thesis
  proof (cases "tbl_count ?t = 0")
    case True
    then have "qe_scan env ?t = []"
      using enumerates_scan [OF ready(1,2)] by (simp add: entries_of_def)
    with True show ?thesis by (simp add: reserve_policy_layers_def)
  next
    case False
    then have "snd (reserve_policy_layers env cache snap inp phase counted g) =
        reserve_rows env inp phase counted
          (candidates (policy_index_build (qe_scan env) ?t) (qe_dims env (policy_index_build (qe_scan env) ?t)) inp) g"
      using cached_index [OF assms(1)]
      by (auto simp: reserve_policy_layers_def split: prod.split)
    moreover have "concat (map (policy_charges env inp phase (skipped counted))
          (candidates (policy_index_build (qe_scan env) ?t)
            (qe_dims env (policy_index_build (qe_scan env) ?t)) inp)) =
        concat (map (policy_charges env inp phase (skipped counted)) (qe_scan env ?t))"
      by (simp only: charges_of_matching [of env inp phase "skipped counted" "candidates _ _ _"]
          charges_of_matching [of env inp phase "skipped counted" "qe_scan env ?t"]
          policy_index_exact [OF ready(1-3) refl ready(4)])
    ultimately show ?thesis by (simp only: rows_take_charges [OF assms(2)])
  qed
qed

lemma request_layers_take_charges:
  assumes "policies_ready env cache (snap_rate_limit_policies snap)"
  shows "snd (request_layers env cache snap auth m server lim) =
     take_all env (request_charges env snap auth m server) (gate_start lim)"
proof -
  let ?own = "key_charges auth @ (case m of Some m \<Rightarrow> model_charges m | None \<Rightarrow> []) @
     (case server of Some s \<Rightarrow> mcp_charges (qe_server_id env) auth s | None \<Rightarrow> [])"
  have k: "take_key_layer env auth = take_all env (key_charges auth)"
    by (rule ext) (simp add: take_key_layer_def key_charges_def take_all_charge_if Let_def)
  have mo: "(\<lambda>g. case m of Some m \<Rightarrow> take_model_layer env m g | None \<Rightarrow> (g, None)) =
      take_all env (case m of Some m \<Rightarrow> model_charges m | None \<Rightarrow> [])"
    by (rule ext) (simp add: take_model_layer_def model_charges_def take_charge_def split: option.split)
  have s: "(\<lambda>g. case server of Some s \<Rightarrow> take_mcp_layer env auth s g | None \<Rightarrow> (g, None)) =
      take_all env (case server of Some s \<Rightarrow> mcp_charges (qe_server_id env) auth s | None \<Rightarrow> [])"
    by (rule ext) (auto simp: take_mcp_layer_def mcp_charges_def take_all_charge_if split: option.split)
  have own: "and_then (take_key_layer env auth (gate_start lim))
      (\<lambda>g. and_then (case m of Some m \<Rightarrow> take_model_layer env m g | None \<Rightarrow> (g, None))
             (\<lambda>g. case server of Some s \<Rightarrow> take_mcp_layer env auth s g | None \<Rightarrow> (g, None))) =
      take_all env ?own (gate_start lim)"
    unfolding k s fun_cong [OF mo] take_all_append
    by (rule arg_cong [of _ _ "and_then _"], rule ext) (simp only: take_all_append)
  show ?thesis
  proof (cases "take_all env ?own (gate_start lim)")
    case (Pair g e)
    then show ?thesis
      using policy_layers_take_charges [OF assms, of CountedOff]
      unfolding request_layers_def own request_charges_def
      by (cases e) (simp_all only: append_assoc [symmetric] take_all_append Pair, simp_all add: and_then_def)
  qed
qed

lemma target_layers_take_charges:
  assumes "policies_ready env cache (snap_rate_limit_policies snap)" and "counted \<noteq> CountedRecord"
  shows "snd (target_layers env cache snap auth name entry_id m parent counted lim) =
     take_all env (target_charges env snap auth name entry_id m parent (skipped counted)) (gate_start lim)"
proof -
  have mo: "take_model_layer env mq = take_all env (model_charges mq)" for mq
    by (rule ext) (simp add: take_model_layer_def model_charges_def split: option.split)
  show ?thesis
    using policy_layers_take_charges [OF assms]
    by (auto simp: target_layers_def target_charges_def mo take_all_append Let_def and_then_def
        split: prod.split option.split)
qed

section \<open>Taking charges\<close>

definition paid :: "reservation \<Rightarrow> string \<times> counter_unit" where
  "paid r = (res_key r, res_unit r)"

definition due :: "layer_charge \<Rightarrow> string \<times> counter_unit" where
  "due c = (ch_key c, ch_unit c)"

text \<open>One charge: the acquire at this point of the gate, and what it leaves.\<close>

lemma take_charge_cases:
  assumes "take_charge env c g = (g', e)"
  obtains (refused) err lim where
      "pre_commit_with_unit (qe_ops env) (qe_others env (length (gs_reservations g)) (gs_limiter g))
         (qe_clock env (length (gs_reservations g))) (ch_key c) (ch_limits c) (ch_unit c) = (lim, Inl err)"
      "e = Some (ch_wrap c err)" "g' = g\<lparr>gs_limiter := lim\<rparr>"
    | (admitted) res lim where
      "pre_commit_with_unit (qe_ops env) (qe_others env (length (gs_reservations g)) (gs_limiter g))
         (qe_clock env (length (gs_reservations g))) (ch_key c) (ch_limits c) (ch_unit c) = (lim, Inr res)"
      "e = None" "g' = g\<lparr>gs_limiter := lim, gs_reservations := gs_reservations g @ [res]\<rparr>"
  using assms by (auto simp: take_charge_def take_layer_def Let_def split: prod.splits sum.splits)

lemma pre_commit_admits:
  assumes "pre_commit_with_unit ops lim now key l u = (lim', Inr r)"
  shows "paid r = (key, u)" and "\<not> committed r"
    and "res_member r = member_prefix lim @ nat_str (seq lim)"
  using assms
  by (auto simp: pre_commit_with_unit_def next_member_def paid_def Let_def split: prod.splits sum.splits)

lemma take_all_result:
  assumes "take_all env cs g = (g', e)"
  shows "case e of
      None \<Rightarrow> map paid (gs_reservations g') = map paid (gs_reservations g) @ map due cs
    | Some x \<Rightarrow> \<exists>before c after err. cs = before @ c # after \<and> x = ch_wrap c err \<and>
        map paid (gs_reservations g') = map paid (gs_reservations g) @ map due before"
  using assms
proof (induction cs arbitrary: g)
  case (Cons c cs)
  obtain g1 e1 where c: "take_charge env c g = (g1, e1)" by fastforce
  from c show ?case
  proof (cases rule: take_charge_cases)
    case (refused err lim)
    with Cons.prems c have "e = Some (ch_wrap c err)" "gs_reservations g' = gs_reservations g"
      by (auto simp: and_then_def)
    then show ?thesis by (auto intro!: exI [of _ "[]"])
  next
    case (admitted res lim)
    with Cons.prems c have "take_all env cs g1 = (g', e)" by (simp add: and_then_def)
    note IH = Cons.IH [OF this]
    have p: "map paid (gs_reservations g1) = map paid (gs_reservations g) @ [due c]"
      using pre_commit_admits(1) [OF admitted(1)] by (simp add: admitted(3) due_def)
    show ?thesis
    proof (cases e)
      case None
      with IH p show ?thesis by simp
    next
      case (Some x)
      with IH obtain before c' after err where "cs = before @ c' # after" "x = ch_wrap c' err"
        "map paid (gs_reservations g') = map paid (gs_reservations g1) @ map due before" by auto
      with p have "c # cs = (c # before) @ c' # after \<and> x = ch_wrap c' err \<and>
          map paid (gs_reservations g') = map paid (gs_reservations g) @ map due (c # before)" by simp
      then show ?thesis unfolding Some option.case by blast
    qed
  qed
qed simp

lemma members_from_cong:
  "member_prefix a = member_prefix b \<Longrightarrow> seq a = seq b \<Longrightarrow> members_from a n = members_from b n"
proof (induction n arbitrary: a b)
  case (Suc n)
  then have "members_from (fst (next_member a)) n = members_from (fst (next_member b)) n"
    by (intro Suc.IH) (simp_all add: next_member_def)
  with Suc.prems show ?case by (simp add: next_member_def)
qed simp

lemma pre_commit_names:
  assumes "pre_commit_with_unit ops lim now key l u = (lim', r)"
  shows "members_from lim (Suc n) = (member_prefix lim @ nat_str (seq lim)) # members_from lim' n"
proof -
  have "member_prefix lim' = member_prefix lim" "seq lim' = (seq lim + 1) mod u64_modulus"
    using assms
    by (auto simp: pre_commit_with_unit_def next_member_def Let_def split: prod.splits sum.splits)
  then have "members_from lim' n = members_from (fst (next_member lim)) n"
    by (intro members_from_cong) (simp_all add: next_member_def)
  then show ?thesis by (simp add: next_member_def)
qed

definition quiet :: "('s, 're, 'tz) quota_env \<Rightarrow> bool" where
  "quiet env \<longleftrightarrow> (\<forall>i lim. qe_others env i lim = lim)"

context rate_store_contract begin

lemma charged_multi_drop: "charged (multi_drop ops st now rs) = charged st"
  by (induction rs arbitrary: st)
    (simp_all add: drop_reservation_def stop_refresh_def Let_def charged_release)

lemma pre_commit_held:
  assumes "pre_commit_with_unit ops lim now key l u = (lim', Inr r)"
  shows "held (lim_store lim') = (held (lim_store lim))(key := insert (res_member r) (held (lim_store lim) key))"
    and "charged (lim_store lim') = charged (lim_store lim)"
proof -
  let ?m = "member_prefix lim @ nat_str (seq lim)"
  have r: "res_member r = ?m"
    and st: "lim_store lim' = fst (rs_acquire ops (lim_store lim) now key l ?m)"
      "snd (rs_acquire ops (lim_store lim) now key l ?m) = Inr ()"
    using assms
    by (auto simp: pre_commit_with_unit_def next_member_def Let_def split: prod.splits sum.splits)
  show "held (lim_store lim') = (held (lim_store lim))(key := insert (res_member r) (held (lim_store lim) key))"
    unfolding st(1) held_acquire by (simp add: st(2) r)
  show "charged (lim_store lim') = charged (lim_store lim)" by (simp add: st(1) charged_acquire)
qed

text \<open>What a gate in a quiet store holds over what the store held: its own slots, all of fresh names.\<close>

definition holds_over :: "'s \<Rightarrow> 's gate_state \<Rightarrow> bool" where
  "holds_over st g \<longleftrightarrow>
     (\<forall>r \<in> set (gs_reservations g). \<not> committed r) \<and>
     (\<forall>key. held (lim_store (gs_limiter g)) key =
        held st key \<union> res_member ` {r \<in> set (gs_reservations g). res_key r = key}) \<and>
     (\<forall>r \<in> set (gs_reservations g). res_member r \<notin> held st (res_key r)) \<and>
     charged (lim_store (gs_limiter g)) = charged st"

lemma take_all_holds_over:
  assumes "qe_ops env = ops" and "quiet env" and "holds_over st g" and "take_all env cs g = (g', e)"
    and "\<forall>m \<in> set (members_from (gs_limiter g) (length cs)). \<forall>key. m \<notin> held st key"
  shows "holds_over st g'"
  using assms(3-)
proof (induction cs arbitrary: g)
  case (Cons c cs)
  obtain g1 e1 where c: "take_charge env c g = (g1, e1)" by fastforce
  from c show ?case
  proof (cases rule: take_charge_cases)
    case (refused err lim)
    with Cons.prems c have g': "g' = g\<lparr>gs_limiter := lim\<rparr>" by (auto simp: and_then_def)
    from refused(1) assms(1,2)
    have "pre_commit_with_unit ops (gs_limiter g) (qe_clock env (length (gs_reservations g))) (ch_key c)
        (ch_limits c) (ch_unit c) = (lim, Inl err)" by (simp add: quiet_def)
    from refusal_takes_nothing [OF this] Cons.prems(1) show ?thesis
      by (simp add: g' holds_over_def)
  next
    case (admitted res lim)
    from admitted(1) assms(1,2)
    have pc: "pre_commit_with_unit ops (gs_limiter g) (qe_clock env (length (gs_reservations g))) (ch_key c)
        (ch_limits c) (ch_unit c) = (lim, Inr res)" by (simp add: quiet_def)
    note m = pre_commit_admits [OF pc] and h = pre_commit_held [OF pc]
      and names = pre_commit_names [OF pc, of "length cs"]
    have fresh: "\<forall>key. res_member res \<notin> held st key"
      "\<forall>m \<in> set (members_from lim (length cs)). \<forall>key. m \<notin> held st key"
      using Cons.prems(3) unfolding length_Cons names m(3) by simp_all
    have "holds_over st g1"
      using Cons.prems(1) m(1,2) h fresh(1) by (auto simp: holds_over_def admitted(3) paid_def)
    moreover have "take_all env cs g1 = (g', e)" using Cons.prems(2) c admitted by (simp add: and_then_def)
    ultimately show ?thesis using Cons.IH [of g1] fresh(2) by (simp add: admitted(3))
  qed
qed simp

lemma reservations_uncommitted:
  assumes "take_all env cs g = (g', e)" and "\<forall>r \<in> set (gs_reservations g). \<not> committed r"
  shows "\<forall>r \<in> set (gs_reservations g'). \<not> committed r"
  using assms
proof (induction cs arbitrary: g)
  case (Cons c cs)
  obtain g1 e1 where c: "take_charge env c g = (g1, e1)" by fastforce
  from c show ?case
  proof (cases rule: take_charge_cases)
    case (refused err lim)
    with Cons.prems c show ?thesis by (auto simp: and_then_def)
  next
    case (admitted res lim)
    with Cons.prems c pre_commit_admits(2) [OF admitted(1)] show ?thesis
      by (intro Cons.IH [of g1]) (auto simp: and_then_def)
  qed
qed simp

lemma refused_gate_holds_nothing:
  assumes "qe_ops env = ops" and "take_all env cs (gate_start lim) = (g, Some e)"
    and "gate_result env (g, Some e) = (lim', res)"
  shows "\<forall>r \<in> set (gs_reservations g). res_member r \<notin> held (lim_store lim') (res_key r)"
    and "quiet env \<Longrightarrow> \<forall>m \<in> set (members_from lim (length cs)). \<forall>key. m \<notin> held (lim_store lim) key \<Longrightarrow>
      held (lim_store lim') = held (lim_store lim) \<and> charged (lim_store lim') = charged (lim_store lim)"
proof -
  let ?now = "qe_clock env (Suc (length (gs_reservations g)))"
  have st: "lim_store lim' = multi_drop ops (lim_store (gs_limiter g)) ?now (gs_reservations g)"
    using assms(1,3) by (auto simp: gate_result_def)
  have opened: "\<forall>r \<in> set (gs_reservations g). \<not> committed r"
    using reservations_uncommitted [OF assms(2)] by (simp add: gate_start_def)
  note drop = held_multi_drop [OF opened, of "lim_store (gs_limiter g)" ?now]
  show "\<forall>r \<in> set (gs_reservations g). res_member r \<notin> held (lim_store lim') (res_key r)"
    by (auto simp: st drop)
  assume "quiet env" and "\<forall>m \<in> set (members_from lim (length cs)). \<forall>key. m \<notin> held (lim_store lim) key"
  then have "holds_over (lim_store lim) g"
    using take_all_holds_over [OF assms(1) _ _ assms(2), of "lim_store lim"]
    by (simp add: holds_over_def gate_start_def)
  then show "held (lim_store lim') = held (lim_store lim) \<and> charged (lim_store lim') = charged (lim_store lim)"
    unfolding st charged_multi_drop by (auto simp: holds_over_def drop fun_eq_iff)
qed

end

section \<open>Results\<close>

text \<open>C19. The quota gate charges what the documents say: on a table of valid policies the request gate, and the
  gate of a routed target, make exactly the acquires of the list read off the key, the model, the MCP
  server and all the rows of the policy table in their order, stopping at the first refusal. The index over
  the policies, its cache and the phases leave no trace.\<close>

theorem gate_follows_documents:
  assumes "policies_ready env cache (snap_rate_limit_policies snap)"
  shows "snd (reserve_layers env cache snap auth m server lim) =
       gate_result env (take_all env (request_charges env snap auth m server) (gate_start lim)) \<and>
     snd (reserve_routing_target_counted env cache snap auth (Some par) name entry_id mo keys lim) =
       apsnd (map_sum id Some)
         (gate_result env (take_all env (target_charges env snap auth name entry_id mo (Some par) keys) (gate_start lim)))"
  using request_layers_take_charges [OF assms] target_layers_take_charges [OF assms, of "CountedSkip keys"]
  by (simp add: reserve_layers_def reserve_routing_target_counted_def reserve_model_layers_def)

definition answers_429 :: "(rate_limit_error \<Rightarrow> proxy_error) \<Rightarrow> bool" where
  "answers_429 wrap \<longleftrightarrow>
     (\<forall>e. proxy_status (wrap e) = 429 \<and> proxy_retry_after_secs (wrap e) = error_retry_after_secs e)"

lemma rejections_answer:
  "answers_429 (reject_layer layer)" "answers_429 (reject_policy row)" "answers_429 (reject_spend usd p member)"
  by (simp_all add: answers_429_def reject_layer_def reject_policy_def reject_spend_def proxy_status_def
      proxy_retry_after_secs_def)

lemma charge_if_wrap: "c \<in> set (charge_if l key wrap) \<Longrightarrow> ch_wrap c = wrap"
  by (simp add: charge_if_def split: if_splits)

lemma policy_charge_answers: "c \<in> set (policy_charges env inp phase skip row) \<Longrightarrow> answers_429 (ch_wrap c)"
  by (auto simp: policy_charges_def Let_def rejections_answer dest: charge_if_wrap
      split: if_splits option.splits)

lemma own_charge_answers:
  "c \<in> set (key_charges auth) \<Longrightarrow> answers_429 (ch_wrap c)"
  "c \<in> set (model_charges m) \<Longrightarrow> answers_429 (ch_wrap c)"
  "c \<in> set (mcp_charges id_of auth s) \<Longrightarrow> answers_429 (ch_wrap c)"
  by (auto simp: key_charges_def model_charges_def mcp_charges_def rejections_answer
      dest!: charge_if_wrap split: option.splits)

lemma charge_answers:
  assumes "c \<in> set (request_charges env snap auth m server)"
  shows "answers_429 (ch_wrap c)"
  using assms unfolding request_charges_def
  by (auto simp: policy_charge_answers own_charge_answers split: option.splits)



section \<open>A request that is refused\<close>

text \<open>A caller with a limit of its own, in a team whose policy lets nothing through.\<close>

definition closed_policy :: rate_limit_policy where
  "closed_policy =
     (demo_policy [demo_leaf DimTeam OpEq ''t1''] [])\<lparr>rp_limits := Some (rate_limit_default\<lparr>concurrency := Some 0\<rparr>)\<rparr>"

definition quota_rows :: "policy_entry list" where
  "quota_rows = [demo_row ''a'' closed_policy]"

definition quota_snapshot :: aisix_snapshot where
  "quota_snapshot =
     \<lparr>snap_models = table_new, snap_provider_keys = table_new, snap_pricing = table_new,
      snap_global_pricing = table_new, snap_budgets = table_new, snap_budget_policy = table_new,
      snap_rate_limit_policies = snd (table_run policy_nm 1 (map Insert quota_rows))\<rparr>"

definition quota_demo_env :: "(local_store, string, int) quota_env" where
  "quota_demo_env =
     \<lparr>qe_ops = local_ops, qe_clock = (\<lambda>_. 61), qe_others = (\<lambda>_ lim. lim), qe_lib = demo_cond_lib,
      qe_calendar = demo_calendar, qe_utc_now = 0, qe_scan = (\<lambda>_. quota_rows), qe_dims = (\<lambda>_. [DimTeam]),
      qe_usd = (\<lambda>_. []), qe_server_id = (\<lambda>_. None)\<rparr>"

definition quota_demo_key :: quota_key where
  "quota_demo_key =
     \<lparr>ak_id = ''k'', ak_user_id = None, ak_team_id = Some ''t1'', ak_tags = [],
      qk_rate_limit = Some one_at_a_time, qk_mcp_rate_limits = None, qk_mcp_rate_limits_by_id = None\<rparr>"

definition quota_limiter :: "local_store limiter" where
  "quota_limiter = \<lparr>lim_store = local_store_new, member_prefix = ''p:'', seq = 0\<rparr>"

lemma quota_ready: "policies_ready quota_demo_env None (snap_rate_limit_policies quota_snapshot)"
proof -
  let ?t = "snd (table_run policy_nm 1 (map Insert quota_rows))"
  have ok: "table_ok policy_nm ?t" by (simp add: table_run_ok)
  have en: "enumerates ?t quota_rows"
    by (auto simp: enumerates_def table_run_rows rows_of_def quota_rows_def)
  have "dom (pi_by_value (policy_index_build (\<lambda>_. quota_rows) ?t)) = {DimTeam}"
    by (simp only: policy_index_build_def enumerates_scan [OF ok en])
      (simp add: index_policy_def quota_rows_def closed_policy_def demo_policy_def demo_leaf_def selector_def
        leaf_requires_def)
  then show ?thesis
    using ok en
    by (simp del: One_nat_def add: policies_ready_def quota_demo_env_def quota_snapshot_def Let_def)
      (simp add: quota_rows_def closed_policy_def validate_semantics_def eval_policy eval_conditions)
qed

lemmas eval_quota =
  quota_demo_key_def quota_demo_env_def request_charges_def key_charges_def charge_if_def one_at_a_time_def
  quota_snapshot_def quota_rows_def closed_policy_def policy_charges_def suspended_at_def counted_limits_def
  condition_input_of_def bucket_segments.simps rate_limit_default_def is_unrestricted_def

lemma quota_charges:
  "request_charges quota_demo_env quota_snapshot quota_demo_key None None =
     [\<lparr>ch_key = ''k'', ch_limits = one_at_a_time, ch_unit = UnitTokens, ch_wrap = reject_layer LayerApiKey\<rparr>,
      \<lparr>ch_key = ''policy:v2:a'', ch_limits = rate_limit_default\<lparr>concurrency := Some 0\<rparr>, ch_unit = UnitTokens,
       ch_wrap = reject_policy (demo_row ''a'' closed_policy)\<rparr>]"
  by (simp add: eval_quota eval_policy eval_conditions)

lemma quota_refusal:
  "\<exists>g e. snd (request_layers quota_demo_env None quota_snapshot quota_demo_key None None quota_limiter) = (g, Some e)"
proof -
  have "snd (request_layers quota_demo_env None quota_snapshot quota_demo_key None None quota_limiter) =
      take_all quota_demo_env (request_charges quota_demo_env quota_snapshot quota_demo_key None None)
        (gate_start quota_limiter)"
    by (rule request_layers_take_charges [OF quota_ready])
  also have "\<exists>g e. \<dots> = (g, Some e)"
    by (simp only: quota_charges)
      (simp add: gate_start_def take_layer_def and_then_def quota_demo_env_def quota_limiter_def
        pre_commit_with_unit_def next_member_def local_ops_def eval_store)
  finally show ?thesis .
qed

lemma quota_run:
  obtains c g e lim' where
    "request_layers quota_demo_env None quota_snapshot quota_demo_key None None quota_limiter = (c, g, Some e)"
    "reserve_layers quota_demo_env None quota_snapshot quota_demo_key None None quota_limiter = (c, lim', Inl e)"
proof -
  obtain c g e where r: "request_layers quota_demo_env None quota_snapshot quota_demo_key None None quota_limiter = (c, g, Some e)"
    using quota_refusal by (metis prod.collapse)
  then show ?thesis using that by (simp add: reserve_layers_def gate_result_def)
qed


theorem gate_follows_documents_witness:
  "snd (reserve_layers quota_demo_env None quota_snapshot quota_demo_key None None quota_limiter) =
     gate_result quota_demo_env (take_all quota_demo_env
       [\<lparr>ch_key = ''k'', ch_limits = one_at_a_time, ch_unit = UnitTokens, ch_wrap = reject_layer LayerApiKey\<rparr>,
        \<lparr>ch_key = ''policy:v2:a'', ch_limits = rate_limit_default\<lparr>concurrency := Some 0\<rparr>, ch_unit = UnitTokens,
         ch_wrap = reject_policy (demo_row ''a'' closed_policy)\<rparr>] (gate_start quota_limiter))"
  using gate_follows_documents [OF quota_ready, of quota_demo_key None None quota_limiter] quota_charges by simp


end
