(* ===== verification/Config_Key.thy ===== *)
theory Config_Key
  imports Prelude
begin

text \<open>
  Keys of the configuration store, \<^verbatim>\<open>crates/aisix-etcd/src/key.rs\<close>: a key is a watched prefix, a kind
  and an id; the set of watched prefixes attributes a key to the most specific prefix that contains it.
\<close>

section \<open>Keys under one prefix\<close>

record resource_key =
  rk_kind :: string
  rk_id :: string

datatype key_error = PrefixMismatch string string | MissingSuffix string | EmptySegment string

definition debug_str :: "string \<Rightarrow> string" where
  "debug_str s = [CHR 0x22] @ concat (map debug_char s) @ [CHR 0x22]"

fun key_error_text :: "key_error \<Rightarrow> string" where
  "key_error_text (PrefixMismatch key prefix) =
     ''etcd key '' @ debug_str key @ '' does not start with configured prefix '' @ debug_str prefix"
| "key_error_text (MissingSuffix key) =
     ''etcd key '' @ debug_str key @ '' is missing the `{kind}/{id}` suffix''"
| "key_error_text (EmptySegment key) =
     ''etcd key '' @ debug_str key @ '' has an empty kind or id segment''"

definition trim_end_slash :: "string \<Rightarrow> string" where
  "trim_end_slash s = rev (dropWhile (\<lambda>c. c = CHR ''/'') (rev s))"

fun strip_prefix :: "string \<Rightarrow> string \<Rightarrow> string option" where
  "strip_prefix [] s = Some s"
| "strip_prefix (p # ps) [] = None"
| "strip_prefix (p # ps) (c # cs) = (if p = c then strip_prefix ps cs else None)"

definition parse_key :: "string \<Rightarrow> string \<Rightarrow> key_error + resource_key" where
  "parse_key prefix key =
     (case strip_prefix (trim_end_slash prefix) key of
        None \<Rightarrow> Inl (PrefixMismatch key prefix)
      | Some rest \<Rightarrow>
          if rest \<noteq> [] \<and> \<not> is_prefix ''/'' rest then Inl (PrefixMismatch key prefix)
          else (let rest = (case strip_prefix ''/'' rest of Some r \<Rightarrow> r | None \<Rightarrow> rest)
                in case splitn2 (CHR ''/'') rest of
                     (kind, None) \<Rightarrow> Inl (MissingSuffix key)
                   | (kind, Some i) \<Rightarrow>
                       if kind = [] \<or> i = [] then Inl (EmptySegment key)
                       else Inr \<lparr>rk_kind = kind, rk_id = i\<rparr>))"

lemma strip_prefix_Some: "strip_prefix p s = Some r \<longleftrightarrow> s = p @ r"
  by (induction p s rule: strip_prefix.induct) auto

lemma strip_prefix_None: "strip_prefix p s = None \<longleftrightarrow> \<not> is_prefix p s"
  by (induction p s rule: strip_prefix.induct) auto

lemma splitn2_Some:
  "splitn2 c s = (a, Some b) \<longleftrightarrow> s = a @ c # b \<and> c \<notin> set a"
proof
  assume "splitn2 c s = (a, Some b)"
  then have a: "a = takeWhile (\<lambda>x. x \<noteq> c) s" and c: "c \<in> set s"
    and b: "b = tl (dropWhile (\<lambda>x. x \<noteq> c) s)"
    by (auto simp: splitn2_def split: if_splits)
  from c have ne: "dropWhile (\<lambda>x. x \<noteq> c) s \<noteq> []" by (simp add: dropWhile_eq_Nil_conv)
  then have "dropWhile (\<lambda>x. x \<noteq> c) s = c # b"
    using hd_dropWhile [of "\<lambda>x. x \<noteq> c" s] b by (metis list.collapse)
  then show "s = a @ c # b \<and> c \<notin> set a"
    using a takeWhile_dropWhile_id [of "\<lambda>x. x \<noteq> c" s] by (auto dest: set_takeWhileD)
next
  assume "s = a @ c # b \<and> c \<notin> set a"
  then show "splitn2 c s = (a, Some b)"
    by (auto simp: splitn2_def takeWhile_append2 dropWhile_append)
qed

lemma splitn2_None: "splitn2 c s = (a, None) \<longleftrightarrow> c \<notin> set s \<and> a = s"
  by (auto simp: splitn2_def takeWhile_eq_all_conv split: if_splits)

text \<open>A key that parses is the prefix, a slash, the kind, a slash and the id, and every such key parses.\<close>

definition key_string :: "string \<Rightarrow> string \<Rightarrow> string \<Rightarrow> string" where
  "key_string prefix kind i = trim_end_slash prefix @ ''/'' @ kind @ ''/'' @ i"

lemma parse_key_Inr:
  "parse_key prefix key = Inr r \<longleftrightarrow>
     key = key_string prefix (rk_kind r) (rk_id r) \<and> CHR ''/'' \<notin> set (rk_kind r) \<and>
     rk_kind r \<noteq> [] \<and> rk_id r \<noteq> []" (is "?L \<longleftrightarrow> ?R")
proof
  assume ?L
  then obtain rest where rest: "key = trim_end_slash prefix @ rest" "rest = [] \<or> is_prefix ''/'' rest"
    by (auto simp: parse_key_def strip_prefix_Some Let_def split: option.splits if_splits)
  with \<open>?L\<close> obtain tail where tail: "rest = CHR ''/'' # tail"
    by (cases rest) (auto simp: parse_key_def splitn2_def strip_prefix_Some split: option.splits if_splits)
  have s: "strip_prefix (trim_end_slash prefix) key = Some rest" by (simp add: strip_prefix_Some rest)
  from \<open>?L\<close> obtain i where "splitn2 (CHR ''/'') tail = (rk_kind r, Some i)" "i = rk_id r"
    "rk_kind r \<noteq> []" "i \<noteq> []"
    by (auto simp: parse_key_def s tail split: prod.splits option.splits if_splits)
  with rest tail show ?R by (auto simp: key_string_def splitn2_Some)
next
  assume R: ?R
  then have s: "strip_prefix (trim_end_slash prefix) key =
      Some (CHR ''/'' # rk_kind r @ CHR ''/'' # rk_id r)"
    by (simp add: strip_prefix_Some key_string_def)
  from R have t: "splitn2 (CHR ''/'') (rk_kind r @ CHR ''/'' # rk_id r) = (rk_kind r, Some (rk_id r))"
    by (simp add: splitn2_Some)
  show ?L unfolding parse_key_def s using R by (simp add: t)
qed

text \<open>Any other outcome but a mismatch means that the key lies under the prefix.\<close>

definition under_prefix :: "string \<Rightarrow> string \<Rightarrow> bool" where
  "under_prefix prefix key \<longleftrightarrow>
     key = trim_end_slash prefix \<or> is_prefix (trim_end_slash prefix @ ''/'') key"

lemma parse_key_mismatch:
  "\<not> under_prefix prefix key \<Longrightarrow> parse_key prefix key = Inl (PrefixMismatch key prefix)"
  "under_prefix prefix key \<Longrightarrow> parse_key prefix key \<noteq> Inl (PrefixMismatch k p)"
proof -
  assume "\<not> under_prefix prefix key"
  then show "parse_key prefix key = Inl (PrefixMismatch key prefix)"
    by (auto simp: parse_key_def under_prefix_def strip_prefix_Some is_prefix_iff split: option.splits)
next
  assume "under_prefix prefix key"
  then show "parse_key prefix key \<noteq> Inl (PrefixMismatch k p)"
    by (auto simp: parse_key_def under_prefix_def strip_prefix_None is_prefix_iff Let_def
             split: option.splits prod.splits if_splits)
      (metis append_Nil2 append_eq_append_conv strip_prefix_Some is_prefix_iff)+
qed

section \<open>Watched prefixes\<close>

datatype prefix_scope = Environment | Global

record watched_prefix =
  wp_prefix :: string
  wp_scope :: prefix_scope

definition watched_environment :: "string \<Rightarrow> watched_prefix" where
  "watched_environment p = \<lparr>wp_prefix = p, wp_scope = Environment\<rparr>"

definition watched_global :: "string \<Rightarrow> watched_prefix" where
  "watched_global p = \<lparr>wp_prefix = p, wp_scope = Global\<rparr>"

record scoped_key =
  sk_scope :: prefix_scope
  sk_kind :: string
  sk_id :: string

definition prefix_set_new :: "watched_prefix list \<Rightarrow> watched_prefix list" where
  "prefix_set_new ws = sort_key (\<lambda>w. - int (length (trim_end_slash (wp_prefix w)))) ws"

definition prefix_set_single :: "string \<Rightarrow> watched_prefix list" where
  "prefix_set_single p = prefix_set_new [watched_environment p]"

fun resolve_loop :: "watched_prefix list \<Rightarrow> key_error option \<Rightarrow> string \<Rightarrow> key_error + scoped_key" where
  "resolve_loop [] first_err key =
     Inl (case first_err of Some e \<Rightarrow> e | None \<Rightarrow> PrefixMismatch key [])"
| "resolve_loop (w # ws) first_err key =
     (case parse_key (wp_prefix w) key of
        Inr r \<Rightarrow> Inr \<lparr>sk_scope = wp_scope w, sk_kind = rk_kind r, sk_id = rk_id r\<rparr>
      | Inl (MissingSuffix k) \<Rightarrow> Inl (MissingSuffix k)
      | Inl (EmptySegment k) \<Rightarrow> Inl (EmptySegment k)
      | Inl (PrefixMismatch k p) \<Rightarrow>
          resolve_loop ws (Some (case first_err of Some e \<Rightarrow> e | None \<Rightarrow> PrefixMismatch k p)) key)"

definition resolve_key :: "watched_prefix list \<Rightarrow> string \<Rightarrow> key_error + scoped_key" where
  "resolve_key ws key = resolve_loop ws None key"

definition selector_kind :: "scoped_key \<Rightarrow> string" where
  "selector_kind k =
     (if sk_scope k = Global \<and> sk_kind k = ''pricing'' then ''global_pricing'' else sk_kind k)"

text \<open>A key belongs to the first prefix of the set that contains it.\<close>

lemma resolve_loop_find:
  "resolve_loop ws fe key =
     (case find (\<lambda>w. under_prefix (wp_prefix w) key) ws of
        Some w \<Rightarrow> (case parse_key (wp_prefix w) key of
                     Inr r \<Rightarrow> Inr \<lparr>sk_scope = wp_scope w, sk_kind = rk_kind r, sk_id = rk_id r\<rparr>
                   | Inl e \<Rightarrow> Inl e)
      | None \<Rightarrow> Inl (case fe of Some e \<Rightarrow> e
                      | None \<Rightarrow> PrefixMismatch key (case ws of [] \<Rightarrow> [] | w # _ \<Rightarrow> wp_prefix w)))"
proof (induction ws arbitrary: fe)
  case (Cons w ws)
  show ?case
  proof (cases "under_prefix (wp_prefix w) key")
    case True
    then show ?thesis
      using parse_key_mismatch(2) [OF True] by (auto split: sum.splits key_error.splits)
  next
    case False
    then show ?thesis by (simp add: parse_key_mismatch(1) Cons.IH split: option.splits)
  qed
qed (simp split: option.splits)

lemma resolve_Inr:
  assumes "resolve_key ws key = Inr k"
  obtains w where "w \<in> set ws" "wp_scope w = sk_scope k"
    "find (\<lambda>w. under_prefix (wp_prefix w) key) ws = Some w"
    "key = key_string (wp_prefix w) (sk_kind k) (sk_id k)"
    "CHR ''/'' \<notin> set (sk_kind k)" "sk_kind k \<noteq> []" "sk_id k \<noteq> []"
proof -
  from assms obtain w r where w: "find (\<lambda>w. under_prefix (wp_prefix w) key) ws = Some w"
    and r: "parse_key (wp_prefix w) key = Inr r"
    and k: "k = \<lparr>sk_scope = wp_scope w, sk_kind = rk_kind r, sk_id = rk_id r\<rparr>"
    by (auto simp: resolve_key_def resolve_loop_find split: option.splits sum.splits)
  from w have "w \<in> set ws" by (auto simp: find_Some_iff)
  with that [of w] w r k show thesis by (simp add: parse_key_Inr)
qed

lemma resolve_inject:
  assumes "distinct (map wp_scope ws)" and "resolve_key ws a = Inr k" and "resolve_key ws b = Inr k"
  shows "a = b"
proof -
  obtain v where v: "v \<in> set ws" "wp_scope v = sk_scope k"
    "a = key_string (wp_prefix v) (sk_kind k) (sk_id k)"
    using resolve_Inr [OF assms(2)] by metis
  obtain w where w: "w \<in> set ws" "wp_scope w = sk_scope k"
    "b = key_string (wp_prefix w) (sk_kind k) (sk_id k)"
    using resolve_Inr [OF assms(3)] by metis
  from assms(1) v w have "v = w" by (metis distinct_map inj_onD)
  with v w show ?thesis by simp
qed

lemma find_sort_key_least:
  "find P (sort_key f xs) = Some x \<Longrightarrow> y \<in> set xs \<Longrightarrow> P y \<Longrightarrow> f x \<le> (f y :: int)"
proof -
  have "find P zs = Some x \<Longrightarrow> sorted (map f zs) \<Longrightarrow> y \<in> set zs \<Longrightarrow> P y \<Longrightarrow> f x \<le> f y" for zs
    by (induction zs) (auto split: if_splits)
  then show "find P (sort_key f xs) = Some x \<Longrightarrow> y \<in> set xs \<Longrightarrow> P y \<Longrightarrow> f x \<le> f y" by simp
qed

section \<open>Attribution\<close>

definition deepest :: "watched_prefix list \<Rightarrow> string \<Rightarrow> watched_prefix \<Rightarrow> bool" where
  "deepest ws key w \<longleftrightarrow> w \<in> set ws \<and> under_prefix (wp_prefix w) key \<and>
     (\<forall>v \<in> set ws. under_prefix (wp_prefix v) key \<longrightarrow>
        length (trim_end_slash (wp_prefix v)) \<le> length (trim_end_slash (wp_prefix w)))"

lemma under_take: "under_prefix p key \<Longrightarrow> trim_end_slash p = take (length (trim_end_slash p)) key"
  by (auto simp: under_prefix_def is_prefix_iff)

lemma deepest_unique:
  assumes "distinct (map (\<lambda>w. trim_end_slash (wp_prefix w)) ws)"
    and "deepest ws key v" and "deepest ws key w"
  shows "v = w"
proof -
  from assms(2,3) have "length (trim_end_slash (wp_prefix v)) = length (trim_end_slash (wp_prefix w))"
    by (auto simp: deepest_def intro: le_antisym)
  with assms(2,3) have "trim_end_slash (wp_prefix v) = trim_end_slash (wp_prefix w)"
    using under_take unfolding deepest_def by metis
  with assms show ?thesis by (auto simp: deepest_def distinct_map dest: inj_onD)
qed

lemma find_deepest:
  assumes "distinct (map (\<lambda>w. trim_end_slash (wp_prefix w)) ws)"
  shows "find (\<lambda>w. under_prefix (wp_prefix w) key) (prefix_set_new ws) = Some w \<longleftrightarrow> deepest ws key w"
    (is "?f = _ \<longleftrightarrow> _")
proof -
  have d: "deepest ws key v" if f: "?f = Some v" for v
  proof -
    from f have "v \<in> set (prefix_set_new ws)" "under_prefix (wp_prefix v) key"
      unfolding find_Some_iff by (auto intro: nth_mem)
    moreover have "length (trim_end_slash (wp_prefix u)) \<le> length (trim_end_slash (wp_prefix v))"
      if "u \<in> set ws" "under_prefix (wp_prefix u) key" for u
      using find_sort_key_least [OF f [unfolded prefix_set_new_def] that] by simp
    ultimately show ?thesis by (simp add: deepest_def prefix_set_new_def)
  qed
  show ?thesis
  proof
    assume "deepest ws key w"
    then have "?f \<noteq> None" by (auto simp: find_None_iff deepest_def prefix_set_new_def)
    then obtain v where v: "?f = Some v" by blast
    with deepest_unique [OF assms d [OF v] \<open>deepest ws key w\<close>] show "?f = Some w" by simp
  qed (rule d)
qed

text \<open>C6. A key resolves to a scope, kind and id exactly when it is the key of that kind and id under the
  deepest watched prefix that contains it, with a slash-free kind and non-empty segments: a prefix nested
  in another one (the shared catalog inside a bare base) takes its keys, and keys are read back exactly.\<close>

theorem key_resolution_exact:
  assumes "distinct (map (\<lambda>w. trim_end_slash (wp_prefix w)) ws)"
  shows "resolve_key (prefix_set_new ws) key = Inr k \<longleftrightarrow>
    (\<exists>w. deepest ws key w \<and> sk_scope k = wp_scope w \<and>
         key = key_string (wp_prefix w) (sk_kind k) (sk_id k) \<and>
         CHR ''/'' \<notin> set (sk_kind k) \<and> sk_kind k \<noteq> [] \<and> sk_id k \<noteq> [])" (is "?L \<longleftrightarrow> ?R")
proof
  assume ?L
  then show ?R by (elim resolve_Inr) (auto simp: find_deepest [OF assms])
next
  assume ?R
  then obtain w where w: "deepest ws key w" "sk_scope k = wp_scope w"
    and r: "parse_key (wp_prefix w) key = Inr \<lparr>rk_kind = sk_kind k, rk_id = sk_id k\<rparr>"
    by (auto simp: parse_key_Inr)
  from w(1) have f: "find (\<lambda>w. under_prefix (wp_prefix w) key) (prefix_set_new ws) = Some w"
    by (simp add: find_deepest [OF assms])
  show ?L by (simp add: resolve_key_def resolve_loop_find f r w(2) [symmetric])
qed

text \<open>The shared catalog nested in a bare base: the inner prefix takes the catalog's keys.\<close>

lemma key_resolution_exact_witness:
  "resolve_key (prefix_set_new [watched_environment ''/a'', watched_global ''/a/g/''])
     ''/a/g/pricing/p'' = Inr \<lparr>sk_scope = Global, sk_kind = ''pricing'', sk_id = ''p''\<rparr>"
proof (rule key_resolution_exact [THEN iffD2])
  show "distinct (map (\<lambda>w. trim_end_slash (wp_prefix w)) [watched_environment ''/a'', watched_global ''/a/g/''])"
    by (simp add: watched_environment_def watched_global_def trim_end_slash_def)
  show "\<exists>w. deepest [watched_environment ''/a'', watched_global ''/a/g/''] ''/a/g/pricing/p'' w \<and>
      sk_scope \<lparr>sk_scope = Global, sk_kind = ''pricing'', sk_id = ''p''\<rparr> = wp_scope w \<and>
      ''/a/g/pricing/p'' = key_string (wp_prefix w) (sk_kind \<lparr>sk_scope = Global, sk_kind = ''pricing'', sk_id = ''p''\<rparr>)
        (sk_id \<lparr>sk_scope = Global, sk_kind = ''pricing'', sk_id = ''p''\<rparr>) \<and>
      CHR ''/'' \<notin> set (sk_kind \<lparr>sk_scope = Global, sk_kind = ''pricing'', sk_id = ''p''\<rparr>) \<and>
      sk_kind \<lparr>sk_scope = Global, sk_kind = ''pricing'', sk_id = ''p''\<rparr> \<noteq> [] \<and>
      sk_id \<lparr>sk_scope = Global, sk_kind = ''pricing'', sk_id = ''p''\<rparr> \<noteq> []"
    by (rule exI [of _ "watched_global ''/a/g/''"])
      (simp add: watched_environment_def watched_global_def trim_end_slash_def deepest_def under_prefix_def
                 key_string_def)
qed

end
