(* ===== verification/Config_Status.thy ===== *)
theory Config_Status
  imports Bytes "HOL-Library.List_Lexorder" "HOL-Library.Char_ord" "HOL-Library.Product_Lexorder"
begin

text \<open>
  The load status of the configuration source, \<^verbatim>\<open>crates/aisix-core/src/config_status.rs\<close>: what was
  observed, what is applied, which rows were rejected and since when, and the state, views and counters
  derived from it. Ordered maps are maps listed by ascending key, instants are milliseconds since the
  epoch. SHA-256, the hasher of the standard library and the rendering of instants are the argument
  \<open>lib\<close>. Counters are natural numbers; the wire format of the views is left out.
\<close>

section \<open>Ordered maps\<close>

definition keys_asc :: "(string \<rightharpoonup> 'v) \<Rightarrow> string list" where
  "keys_asc m = sorted_list_of_set (dom m)"

definition values_asc :: "(string \<rightharpoonup> 'v) \<Rightarrow> 'v list" where
  "values_asc m = map (\<lambda>k. the (m k)) (keys_asc m)"

definition entries_asc :: "(string \<rightharpoonup> 'v) \<Rightarrow> (string \<times> 'v) list" where
  "entries_asc m = map (\<lambda>k. (k, the (m k))) (keys_asc m)"

text \<open>\<^verbatim>\<open>*counts.entry(kind).or_insert(0) += n\<close>\<close>

definition add_count :: "string \<Rightarrow> nat \<Rightarrow> (string \<rightharpoonup> nat) \<Rightarrow> (string \<rightharpoonup> nat)" where
  "add_count kind n m = m(kind \<mapsto> (case m kind of Some k \<Rightarrow> k | None \<Rightarrow> 0) + n)"

definition counts_by :: "('v \<Rightarrow> string) \<Rightarrow> 'v list \<Rightarrow> (string \<rightharpoonup> nat)" where
  "counts_by f xs = foldl (\<lambda>m x. add_count (f x) 1 m) Map.empty xs"

section \<open>Data\<close>

definition MAX_CONFIG_REJECTIONS :: nat where "MAX_CONFIG_REJECTIONS = 256"
definition MAX_CONFIG_UNKNOWN_KINDS :: nat where "MAX_CONFIG_UNKNOWN_KINDS = 256"
definition UNKNOWN_KIND_ERROR_KIND :: string where "UNKNOWN_KIND_ERROR_KIND = ''unknown_kind''"
definition MAX_REJECTION_ERROR_CHARS :: nat where "MAX_REJECTION_ERROR_CHARS = 256"
definition MAX_WARNING_RESOURCE_IDS :: nat where "MAX_WARNING_RESOURCE_IDS = 64"

datatype source_kind = Etcd | File

fun is_etcd :: "source_kind \<Rightarrow> bool" where
  "is_etcd Etcd = True" | "is_etcd File = False"

datatype config_state = Synced | Degraded | OutOfSync | Empty | NeverLoaded

datatype reload_reason = Fetch | Parse | Validate

fun reload_reason_str :: "reload_reason \<Rightarrow> string" where
  "reload_reason_str Fetch = ''fetch''"
| "reload_reason_str Parse = ''parse''"
| "reload_reason_str Validate = ''validate''"

definition from_error_kind :: "string \<Rightarrow> reload_reason" where
  "from_error_kind kind = (if kind = ''non_json'' then Parse else Validate)"

record incoming_rejection =
  ir_identity :: string
  ir_resource_kind :: string
  ir_resource_id :: string
  ir_error_kind :: string
  ir_error :: string
  ir_seen_at :: int
  ir_stale_since :: "int option"

record retained_rejection =
  rr_resource_kind :: string
  rr_resource_id :: string
  rr_error_kind :: string
  rr_error :: string
  rr_first_seen_at :: int
  rr_last_seen_at :: int
  rr_stale_since :: "int option"

record config_rejection_snapshot =
  rs_key :: string
  rs_kind :: string
  rs_error :: string
  rs_timestamp :: nat
  rs_stale_since :: "nat option"

record partial_compat_resource =
  pr_resource_kind :: string
  pr_field :: string
  pr_count :: nat

record config_warning =
  cw_code :: string
  cw_resource_kind :: string
  cw_count :: nat
  cw_resource_ids :: "string list"
  cw_message :: string

definition config_warning_new :: "string \<Rightarrow> string \<Rightarrow> string list \<Rightarrow> string \<Rightarrow> config_warning option" where
  "config_warning_new code kind ids message =
     (if ids = [] then None
      else Some \<lparr>cw_code = code, cw_resource_kind = kind, cw_count = length ids,
                 cw_resource_ids = take MAX_WARNING_RESOURCE_IDS (sort ids), cw_message = message\<rparr>)"

record status_lib =
  sl_sha256_hex :: "bytes \<Rightarrow> string"
  sl_hash_str :: "string \<Rightarrow> nat"
  sl_hash_pair :: "nat \<Rightarrow> string \<Rightarrow> nat"
  sl_rfc3339 :: "int \<Rightarrow> string"

text \<open>Digests of records and of raw bytes; \<open>hash_entries\<close> sorts the records of its entries by key.\<close>

definition hash_records :: "status_lib \<Rightarrow> bytes list \<Rightarrow> string" where
  "hash_records lib rs = sl_sha256_hex lib (concat rs)"

definition hash_bytes :: "status_lib \<Rightarrow> bytes \<Rightarrow> string" where
  "hash_bytes lib bs = sl_sha256_hex lib bs"

text \<open>A digest computed when first read: its identity, and what \<^verbatim>\<open>get\<close> returns.\<close>

record lazy_hash =
  lh_version :: nat
  lh_value :: string

definition deferred :: "nat \<Rightarrow> string \<Rightarrow> lazy_hash" where
  "deferred version value = \<lparr>lh_version = version, lh_value = value\<rparr>"

definition rekeyed :: "lazy_hash \<Rightarrow> nat \<Rightarrow> lazy_hash" where
  "rekeyed h version = h\<lparr>lh_version := version\<rparr>"

definition ready_hash :: "status_lib \<Rightarrow> string \<Rightarrow> lazy_hash" where
  "ready_hash lib value = \<lparr>lh_version = sl_hash_str lib value, lh_value = value\<rparr>"

record applied_snapshot =
  ap_config_hash :: lazy_hash
  ap_revision :: "int option"
  ap_resource_counts :: "string \<rightharpoonup> nat"

record load_observation =
  lo_source_hash :: lazy_hash
  lo_observed_revision :: "int option"
  lo_applied :: "applied_snapshot option"
  lo_rejected :: "incoming_rejection list"
  lo_partially_compatible :: "partial_compat_resource list"
  lo_partial_rows_by_kind :: "string \<rightharpoonup> nat"
  lo_stale_rows_by_kind :: "string \<rightharpoonup> nat"
  lo_is_reload :: bool
  lo_wholly_rejected :: bool

record sticky_failure =
  sf_at :: int
  sf_error_kind :: string
  sf_error :: string

section \<open>State\<close>

record config_status =
  cf_source_kind :: source_kind
  cf_connected :: bool
  cf_observed_revision :: "int option"
  cf_source_hash :: "lazy_hash option"
  cf_observed_at :: "int option"
  cf_ever_applied :: bool
  cf_ever_applied_tx :: bool
  cf_config_hash :: "lazy_hash option"
  cf_applied_revision :: "int option"
  cf_applied_at :: "int option"
  cf_apply_seq :: nat
  cf_resource_counts :: "string \<rightharpoonup> nat"
  cf_latest_wholly_rejected :: bool
  cf_last_reload_successful :: bool
  cf_last_reload_at :: "int option"
  cf_last_reload_success_at :: "int option"
  cf_last_failure :: "sticky_failure option"
  cf_rejected :: "string \<rightharpoonup> retained_rejection"
  cf_rejected_counts :: "string \<rightharpoonup> nat"
  cf_unknown_kind :: "string \<rightharpoonup> retained_rejection"
  cf_unknown_kind_counts :: "string \<rightharpoonup> nat"
  cf_build_rejected :: "string \<rightharpoonup> retained_rejection"
  cf_build_rejected_counts :: "string \<rightharpoonup> nat"
  cf_build_identity_hash :: "string option"
  cf_partially_compatible :: "partial_compat_resource list"
  cf_partial_rows_by_kind :: "string \<rightharpoonup> nat"
  cf_stale_rows_by_kind :: "string \<rightharpoonup> nat"
  cf_warnings :: "config_warning list"
  cf_reloads_total :: nat
  cf_reload_failures :: "string \<rightharpoonup> nat"

definition config_status_new :: "source_kind \<Rightarrow> config_status" where
  "config_status_new kind =
     \<lparr>cf_source_kind = kind, cf_connected = False, cf_observed_revision = None, cf_source_hash = None,
      cf_observed_at = None, cf_ever_applied = False, cf_ever_applied_tx = False, cf_config_hash = None,
      cf_applied_revision = None, cf_applied_at = None, cf_apply_seq = 0, cf_resource_counts = Map.empty,
      cf_latest_wholly_rejected = False, cf_last_reload_successful = False, cf_last_reload_at = None,
      cf_last_reload_success_at = None, cf_last_failure = None, cf_rejected = Map.empty,
      cf_rejected_counts = Map.empty, cf_unknown_kind = Map.empty, cf_unknown_kind_counts = Map.empty,
      cf_build_rejected = Map.empty, cf_build_rejected_counts = Map.empty, cf_build_identity_hash = None,
      cf_partially_compatible = [], cf_partial_rows_by_kind = Map.empty, cf_stale_rows_by_kind = Map.empty,
      cf_warnings = [], cf_reloads_total = 0, cf_reload_failures = Map.empty\<rparr>"

definition has_rejections :: "config_status \<Rightarrow> bool" where
  "has_rejections c \<longleftrightarrow> cf_rejected_counts c \<noteq> Map.empty \<or> cf_build_rejected_counts c \<noteq> Map.empty"

definition effective_config_version :: "status_lib \<Rightarrow> config_status \<Rightarrow> nat option" where
  "effective_config_version lib c =
     (case cf_config_hash c of
        None \<Rightarrow> None
      | Some h \<Rightarrow>
          (case cf_build_identity_hash c of
             None \<Rightarrow> Some (lh_version h)
           | Some i \<Rightarrow> Some (sl_hash_pair lib (lh_version h) i)))"

record effective_hash =
  eh_base :: lazy_hash
  eh_runtime_rejections :: "string option"

definition effective_hash_get :: "status_lib \<Rightarrow> effective_hash \<Rightarrow> string" where
  "effective_hash_get lib e =
     (case eh_runtime_rejections e of
        None \<Rightarrow> lh_value (eh_base e)
      | Some i \<Rightarrow> sl_sha256_hex lib
          (bytes_of ''aisix-runtime-filtered-v1'' @ [0] @ bytes_of (lh_value (eh_base e)) @ [0] @ bytes_of i))"

definition effective_hash_of :: "config_status \<Rightarrow> effective_hash option" where
  "effective_hash_of c =
     (case cf_config_hash c of
        None \<Rightarrow> None
      | Some h \<Rightarrow> Some \<lparr>eh_base = h, eh_runtime_rejections = cf_build_identity_hash c\<rparr>)"

definition effective_resource_counts :: "config_status \<Rightarrow> (string \<rightharpoonup> nat)" where
  "effective_resource_counts c =
     foldl (\<lambda>m (kind, n). m(kind \<mapsto> (case m kind of Some k \<Rightarrow> k | None \<Rightarrow> 0) - n))
       (cf_resource_counts c) (entries_asc (cf_build_rejected_counts c))"

definition applied_total :: "config_status \<Rightarrow> nat" where
  "applied_total c = sum_list (values_asc (effective_resource_counts c))"

definition derive_state :: "config_status \<Rightarrow> config_state" where
  "derive_state c =
     (if \<not> cf_ever_applied c then NeverLoaded
      else if cf_latest_wholly_rejected c then OutOfSync
      else (let total = applied_total c
            in if has_rejections c then (if total = 0 then OutOfSync else Degraded)
               else if total = 0 then Empty else Synced))"

section \<open>Recording\<close>

text \<open>Characters of a UTF-8 string are counted by their first bytes.\<close>

definition continuation_byte :: "char \<Rightarrow> bool" where
  "continuation_byte c \<longleftrightarrow> 0x80 \<le> (of_char c :: nat) \<and> (of_char c :: nat) < 0xC0"

definition char_count :: "string \<Rightarrow> nat" where
  "char_count s = length (filter (\<lambda>c. \<not> continuation_byte c) s)"

fun take_chars :: "nat \<Rightarrow> string \<Rightarrow> string" where
  "take_chars n [] = []"
| "take_chars n (c # cs) =
     (if continuation_byte c then c # take_chars n cs
      else case n of 0 \<Rightarrow> [] | Suc m \<Rightarrow> c # take_chars m cs)"

definition bounded_rejection_error :: "string \<Rightarrow> string" where
  "bounded_rejection_error err =
     (if char_count err \<le> MAX_REJECTION_ERROR_CHARS then err
      else take_chars (MAX_REJECTION_ERROR_CHARS - 1) err @ [CHR 0xE2, CHR 0x80, CHR 0xA6])"

text \<open>The detail kept of a rejection; \<open>prev\<close> is what was kept of the same identity.\<close>

definition retain_detail :: "retained_rejection option \<Rightarrow> incoming_rejection \<Rightarrow> retained_rejection" where
  "retain_detail prev r =
     \<lparr>rr_resource_kind = ir_resource_kind r, rr_resource_id = ir_resource_id r,
      rr_error_kind = ir_error_kind r, rr_error = bounded_rejection_error (ir_error r),
      rr_first_seen_at = (case prev of Some p \<Rightarrow> rr_first_seen_at p | None \<Rightarrow> ir_seen_at r),
      rr_last_seen_at = ir_seen_at r, rr_stale_since = ir_stale_since r\<rparr>"

definition retain_details ::
    "nat \<Rightarrow> (string \<rightharpoonup> retained_rejection) \<Rightarrow> (string \<rightharpoonup> incoming_rejection) \<Rightarrow> (string \<rightharpoonup> retained_rejection)" where
  "retain_details limit prev all =
     map_of (map (\<lambda>(i, r). (i, retain_detail (prev i) r)) (take limit (entries_asc all)))"

definition by_identity :: "incoming_rejection list \<Rightarrow> (string \<rightharpoonup> incoming_rejection)" where
  "by_identity rs = foldl (\<lambda>m r. m(ir_identity r \<mapsto> r)) Map.empty rs"

definition unknown_row :: "incoming_rejection \<Rightarrow> bool" where
  "unknown_row r \<longleftrightarrow> ir_error_kind r = UNKNOWN_KIND_ERROR_KIND"

text \<open>The first detail in ascending order, else the first of the other map.\<close>

definition first_detail ::
    "(string \<rightharpoonup> retained_rejection) \<Rightarrow> (string \<rightharpoonup> retained_rejection) \<Rightarrow> retained_rejection option" where
  "first_detail m m' = (case values_asc m @ values_asc m' of [] \<Rightarrow> None | r # _ \<Rightarrow> Some r)"

definition failure_of :: "int \<Rightarrow> retained_rejection \<Rightarrow> sticky_failure" where
  "failure_of now r = \<lparr>sf_at = now, sf_error_kind = rr_error_kind r, sf_error = rr_error r\<rparr>"

text \<open>The applied part of an observation.\<close>

definition record_applied :: "applied_snapshot option \<Rightarrow> config_status \<Rightarrow> config_status" where
  "record_applied applied c =
     (case applied of
        None \<Rightarrow> c
      | Some a \<Rightarrow> c\<lparr>cf_ever_applied_tx := (if \<not> cf_ever_applied c then True else cf_ever_applied_tx c),
                    cf_ever_applied := True, cf_config_hash := Some (ap_config_hash a),
                    cf_applied_revision := ap_revision a, cf_resource_counts := ap_resource_counts a\<rparr>)"

text \<open>\<^verbatim>\<open>apply_seq\<close> and \<^verbatim>\<open>applied_at\<close> move together.\<close>

definition count_apply :: "int \<Rightarrow> bool \<Rightarrow> config_status \<Rightarrow> config_status" where
  "count_apply now moved c =
     (if cf_ever_applied c \<and> moved then c\<lparr>cf_apply_seq := cf_apply_seq c + 1, cf_applied_at := Some now\<rparr> else c)"

text \<open>The rows of an observation, split by class.\<close>

definition record_rows :: "load_observation \<Rightarrow> config_status \<Rightarrow> config_status" where
  "record_rows obs c =
     (let all_rejected = by_identity (filter (\<lambda>r. \<not> unknown_row r) (lo_rejected obs));
          all_unknown = by_identity (filter unknown_row (lo_rejected obs));
          limit = MAX_CONFIG_REJECTIONS - card (dom (cf_build_rejected c))
      in c\<lparr>cf_rejected := retain_details limit (cf_rejected c) all_rejected,
           cf_rejected_counts := counts_by ir_resource_kind (values_asc all_rejected),
           cf_unknown_kind := retain_details MAX_CONFIG_UNKNOWN_KINDS (cf_unknown_kind c) all_unknown,
           cf_unknown_kind_counts := counts_by ir_resource_kind (values_asc all_unknown),
           cf_partially_compatible := lo_partially_compatible obs,
           cf_partial_rows_by_kind := lo_partial_rows_by_kind obs,
           cf_stale_rows_by_kind := lo_stale_rows_by_kind obs\<rparr>)"

definition sticky_failure_set :: "int \<Rightarrow> retained_rejection option \<Rightarrow> config_status \<Rightarrow> config_status" where
  "sticky_failure_set now first c =
     c\<lparr>cf_last_failure := (case first of Some r \<Rightarrow> Some (failure_of now r) | None \<Rightarrow> cf_last_failure c)\<rparr>"

definition record_outcome :: "int \<Rightarrow> config_status \<Rightarrow> config_status" where
  "record_outcome now c =
     (let clean = (\<not> has_rejections c);
          c = c\<lparr>cf_last_reload_successful := clean, cf_last_reload_at := Some now\<rparr>
      in if clean then c\<lparr>cf_last_reload_success_at := Some now\<rparr>
         else sticky_failure_set now (first_detail (cf_rejected c) (cf_build_rejected c)) c)"

definition reload_reasons :: "load_observation \<Rightarrow> string list" where
  "reload_reasons obs =
     remdups (map (\<lambda>r. reload_reason_str (from_error_kind (ir_error_kind r)))
                  (values_asc (by_identity (filter (\<lambda>r. \<not> unknown_row r) (lo_rejected obs)))))"

definition count_reload :: "load_observation \<Rightarrow> config_status \<Rightarrow> config_status" where
  "count_reload obs c =
     (if lo_is_reload obs
      then c\<lparr>cf_reloads_total := cf_reloads_total c + 1,
             cf_reload_failures := foldl (\<lambda>m reason. add_count reason 1 m) (cf_reload_failures c) (reload_reasons obs)\<rparr>
      else c)"

definition record_observed :: "int \<Rightarrow> load_observation \<Rightarrow> config_status \<Rightarrow> config_status" where
  "record_observed now obs c =
     c\<lparr>cf_connected := True, cf_observed_at := Some now, cf_source_hash := Some (lo_source_hash obs),
       cf_observed_revision := lo_observed_revision obs,
       cf_latest_wholly_rejected := lo_wholly_rejected obs\<rparr>"

definition record_load :: "status_lib \<Rightarrow> int \<Rightarrow> load_observation \<Rightarrow> config_status \<Rightarrow> config_status" where
  "record_load lib now obs c =
     (let previous = effective_config_version lib c; was_applied = cf_ever_applied c;
          c = record_rows obs (record_applied (lo_applied obs) (record_observed now obs c));
          c = count_apply now (\<not> was_applied \<or> previous \<noteq> effective_config_version lib c) c
      in count_reload obs (record_outcome now c))"

definition build_identity_hash :: "status_lib \<Rightarrow> (string \<rightharpoonup> incoming_rejection) \<Rightarrow> string option" where
  "build_identity_hash lib all =
     (if all = Map.empty then None
      else Some (sl_sha256_hex lib (bytes_of ''aisix-runtime-rejections-v1'' @ [0] @
                   concat (map (\<lambda>i. bytes_of i @ [10]) (keys_asc all)))))"

definition record_build_rows :: "status_lib \<Rightarrow> incoming_rejection list \<Rightarrow> config_status \<Rightarrow> config_status" where
  "record_build_rows lib rejected c =
     (let all_rejected = by_identity rejected;
          limit = MAX_CONFIG_REJECTIONS - card (dom (cf_rejected c))
      in c\<lparr>cf_build_rejected := retain_details limit (cf_build_rejected c) all_rejected,
           cf_build_rejected_counts := counts_by ir_resource_kind (values_asc all_rejected),
           cf_build_identity_hash := build_identity_hash lib all_rejected\<rparr>)"

definition record_build_outcome :: "int \<Rightarrow> config_status \<Rightarrow> config_status" where
  "record_build_outcome now c =
     (let clean = (cf_connected c \<and> \<not> has_rejections c);
          c = c\<lparr>cf_last_reload_successful := clean,
                cf_last_reload_at := (if cf_connected c then Some now else cf_last_reload_at c),
                cf_last_reload_success_at := (if clean then Some now else cf_last_reload_success_at c)\<rparr>
      in sticky_failure_set now (first_detail (cf_build_rejected c) (cf_rejected c)) c)"

definition record_build_rejections ::
    "status_lib \<Rightarrow> int \<Rightarrow> incoming_rejection list \<Rightarrow> config_status \<Rightarrow> config_status" where
  "record_build_rejections lib now rejected c =
     (let previous = effective_config_version lib c;
          c = record_build_rows lib rejected c;
          c = count_apply now (previous \<noteq> effective_config_version lib c) c
      in record_build_outcome now c)"

definition record_warnings :: "config_warning list \<Rightarrow> config_status \<Rightarrow> config_status" where
  "record_warnings ws c = c\<lparr>cf_warnings := ws\<rparr>"

definition record_fetch_failure :: "int \<Rightarrow> config_status \<Rightarrow> config_status" where
  "record_fetch_failure now c =
     c\<lparr>cf_connected := False, cf_last_reload_successful := False, cf_last_reload_at := Some now,
       cf_reloads_total := cf_reloads_total c + 1,
       cf_reload_failures := add_count (reload_reason_str Fetch) 1 (cf_reload_failures c),
       cf_last_failure := Some \<lparr>sf_at = now, sf_error_kind = ''fetch'',
                                sf_error = ''configuration source unreachable''\<rparr>\<rparr>"

section \<open>Reading\<close>

definition status_is_ready :: "config_status \<Rightarrow> bool" where
  "status_is_ready c = cf_ever_applied c"

text \<open>\<^verbatim>\<open>wait_until_applied\<close> returns at once when the channel already carries true.\<close>

definition wait_returns :: "config_status \<Rightarrow> bool" where
  "wait_returns c = cf_ever_applied_tx c"

definition applied_config_hash :: "status_lib \<Rightarrow> config_status \<Rightarrow> string option" where
  "applied_config_hash lib c = map_option (effective_hash_get lib) (effective_hash_of c)"

definition timestamp_secs :: "int \<Rightarrow> nat" where
  "timestamp_secs t = nat (max 0 (t div 1000))"

definition rejection_snapshots :: "config_status \<Rightarrow> config_rejection_snapshot list" where
  "rejection_snapshots c =
     sort_key rs_key
       (map (\<lambda>(key, r). \<lparr>rs_key = key, rs_kind = rr_error_kind r, rs_error = rr_error r,
                         rs_timestamp = timestamp_secs (rr_last_seen_at r),
                         rs_stale_since = map_option timestamp_secs (rr_stale_since r)\<rparr>)
            (entries_asc (cf_rejected c) @ entries_asc (cf_unknown_kind c) @ entries_asc (cf_build_rejected c)))"

record rejected_resource =
  rv_resource_kind :: string
  rv_resource_id :: string
  rv_error_kind :: string
  rv_error :: string
  rv_first_seen_at :: string
  rv_last_seen_at :: string
  rv_stale_since :: "string option"
  rv_stale_age_seconds :: "nat option"

record unknown_kind_resource =
  uv_resource_kind :: string
  uv_resource_id :: string
  uv_error :: string
  uv_first_seen_at :: string
  uv_last_seen_at :: string

record source_view =
  sw_source_type :: source_kind
  sw_connected :: "bool option"
  sw_observed_revision :: "int option"
  sw_source_hash :: "string option"
  sw_observed_at :: "string option"

record applied_view =
  av_applied_revision :: "int option"
  av_config_hash :: string
  av_apply_seq :: nat
  av_applied_at :: string
  av_resource_counts :: "string \<rightharpoonup> nat"

record last_reload_view =
  lr_successful :: bool
  lr_at :: string

record failure_view =
  fv_at :: string
  fv_error_kind :: string
  fv_error :: string

record config_status_view =
  vw_state :: config_state
  vw_source :: source_view
  vw_applied :: "applied_view option"
  vw_last_reload :: "last_reload_view option"
  vw_last_failure :: "failure_view option"
  vw_rejected :: "rejected_resource list"
  vw_unknown_kinds :: "unknown_kind_resource list"
  vw_partially_compatible :: "partial_compat_resource list"
  vw_warnings :: "config_warning list"

definition rejected_resource_of :: "status_lib \<Rightarrow> int \<Rightarrow> retained_rejection \<Rightarrow> rejected_resource" where
  "rejected_resource_of lib now r =
     \<lparr>rv_resource_kind = rr_resource_kind r, rv_resource_id = rr_resource_id r,
      rv_error_kind = rr_error_kind r, rv_error = rr_error r,
      rv_first_seen_at = sl_rfc3339 lib (rr_first_seen_at r),
      rv_last_seen_at = sl_rfc3339 lib (rr_last_seen_at r),
      rv_stale_since = map_option (sl_rfc3339 lib) (rr_stale_since r),
      rv_stale_age_seconds = map_option (\<lambda>s. nat (max 0 ((now - s) div 1000))) (rr_stale_since r)\<rparr>"

definition unknown_kind_resource_of :: "status_lib \<Rightarrow> retained_rejection \<Rightarrow> unknown_kind_resource" where
  "unknown_kind_resource_of lib r =
     \<lparr>uv_resource_kind = rr_resource_kind r, uv_resource_id = rr_resource_id r, uv_error = rr_error r,
      uv_first_seen_at = sl_rfc3339 lib (rr_first_seen_at r),
      uv_last_seen_at = sl_rfc3339 lib (rr_last_seen_at r)\<rparr>"

text \<open>The view of \<^verbatim>\<open>ConfigStatus::view\<close>, with its two digests resolved.\<close>

definition status_view :: "status_lib \<Rightarrow> int \<Rightarrow> config_status \<Rightarrow> config_status_view" where
  "status_view lib now c =
     (let etcd = is_etcd (cf_source_kind c) in
      \<lparr>vw_state = derive_state c,
       vw_source = \<lparr>sw_source_type = cf_source_kind c,
         sw_connected = (if etcd then Some (cf_connected c) else None),
         sw_observed_revision = (if etcd then cf_observed_revision c else None),
         sw_source_hash = map_option lh_value (cf_source_hash c),
         sw_observed_at = map_option (sl_rfc3339 lib) (cf_observed_at c)\<rparr>,
       vw_applied = (if cf_ever_applied c then
         Some \<lparr>av_applied_revision = (if etcd then cf_applied_revision c else None),
               av_config_hash = (case applied_config_hash lib c of Some h \<Rightarrow> h | None \<Rightarrow> []),
               av_apply_seq = cf_apply_seq c,
               av_applied_at = (case cf_applied_at c of Some t \<Rightarrow> sl_rfc3339 lib t | None \<Rightarrow> []),
               av_resource_counts = effective_resource_counts c\<rparr> else None),
       vw_last_reload = map_option (\<lambda>t. \<lparr>lr_successful = cf_last_reload_successful c, lr_at = sl_rfc3339 lib t\<rparr>)
                          (cf_last_reload_at c),
       vw_last_failure = map_option (\<lambda>f. \<lparr>fv_at = sl_rfc3339 lib (sf_at f), fv_error_kind = sf_error_kind f,
                                           fv_error = sf_error f\<rparr>) (cf_last_failure c),
       vw_rejected = sort_key (\<lambda>v. (rv_resource_kind v, rv_resource_id v))
         (map (rejected_resource_of lib now) (values_asc (cf_rejected c) @ values_asc (cf_build_rejected c))),
       vw_unknown_kinds = sort_key (\<lambda>v. (uv_resource_kind v, uv_resource_id v))
         (map (unknown_kind_resource_of lib) (values_asc (cf_unknown_kind c))),
       vw_partially_compatible = sort_key (\<lambda>p. (pr_resource_kind p, pr_field p)) (cf_partially_compatible c),
       vw_warnings = cf_warnings c\<rparr>)"

record config_metrics_view =
  mv_source_kind :: source_kind
  mv_last_reload_successful :: bool
  mv_last_reload_success_ts :: "int option"
  mv_reloads_total :: nat
  mv_reload_failures :: "string \<rightharpoonup> nat"
  mv_rejected_by_kind :: "string \<rightharpoonup> nat"
  mv_unknown_kind_by_kind :: "string \<rightharpoonup> nat"
  mv_partially_compatible_by_kind :: "string \<rightharpoonup> nat"
  mv_stale_served_by_kind :: "string \<rightharpoonup> nat"
  mv_observed_revision :: "int option"
  mv_applied_revision :: "int option"
  mv_config_hash :: "string option"
  mv_connected :: "bool option"

definition status_metrics :: "status_lib \<Rightarrow> config_status \<Rightarrow> config_metrics_view" where
  "status_metrics lib c =
     (let etcd = is_etcd (cf_source_kind c) in
      \<lparr>mv_source_kind = cf_source_kind c, mv_last_reload_successful = cf_last_reload_successful c,
       mv_last_reload_success_ts = map_option (\<lambda>t. t div 1000) (cf_last_reload_success_at c),
       mv_reloads_total = cf_reloads_total c, mv_reload_failures = cf_reload_failures c,
       mv_rejected_by_kind = foldl (\<lambda>m (kind, n). add_count kind n m) (cf_rejected_counts c)
                               (entries_asc (cf_build_rejected_counts c)),
       mv_unknown_kind_by_kind = cf_unknown_kind_counts c,
       mv_partially_compatible_by_kind = cf_partial_rows_by_kind c,
       mv_stale_served_by_kind = cf_stale_rows_by_kind c,
       mv_observed_revision = (if etcd then cf_observed_revision c else None),
       mv_applied_revision = (if etcd then cf_applied_revision c else None),
       mv_config_hash = applied_config_hash lib c,
       mv_connected = (if etcd then Some (cf_connected c) else None)\<rparr>)"

end
