(* ===== verification/Config_Loader.thy ===== *)
theory Config_Loader
  imports Config_Key Snapshot Config_Status
begin

text \<open>
  The loader of \<^verbatim>\<open>crates/aisix-etcd/src/loader.rs\<close>: raw entries of the store become rows of the
  snapshot, or rejections. The supervisor treats the twenty-one kinds of documents alike, so the snapshot
  is here a table per kind over one type of documents. Reading JSON, the schemas, the typed
  deserialisation of a kind with the checks and rewrites of \<^verbatim>\<open>aisix-core\<close> on it, and the name of a
  document are the argument \<open>lib\<close>, with the parameters of the load status; logging is left out.
\<close>

section \<open>Tables of the snapshot\<close>

datatype table_kind =
    Models | Apikeys | ProviderKeys | Guardrails | GuardrailAttachments | CachePolicies
  | ObservabilityExporters | RateLimitPolicies | McpServers | McpPolicies | A2aAgents | OidcProviders
  | ClaimMappings | PassthroughRoutes | McpAuthSettings | PricingTable | GlobalPricing | Teams | Users
  | Budgets | BudgetPolicyTable

type_synonym 'd snap = "table_kind \<Rightarrow> 'd resource_table"

definition snapshot_new :: "'d snap" where
  "snapshot_new = (\<lambda>_. table_new)"

text \<open>The kinds an environment may carry, and the table of each; \<^verbatim>\<open>pricing\<close> is listed with the table it
  has there.\<close>

definition KIND_TABLES :: "(string \<times> table_kind) list" where
  "KIND_TABLES =
     [(''models'', Models), (''api_keys'', Apikeys), (''provider_keys'', ProviderKeys),
      (''guardrails'', Guardrails), (''guardrail_attachments'', GuardrailAttachments),
      (''cache_policies'', CachePolicies), (''observability_exporters'', ObservabilityExporters),
      (''rate_limit_policies'', RateLimitPolicies), (''mcp_servers'', McpServers),
      (''mcp_policies'', McpPolicies), (''passthrough_routes'', PassthroughRoutes),
      (''a2a_agents'', A2aAgents), (''oidc_providers'', OidcProviders),
      (''claim_mappings'', ClaimMappings), (''mcp_auth_settings'', McpAuthSettings), (''teams'', Teams),
      (''users'', Users), (''budgets'', Budgets), (''budget_policy'', BudgetPolicyTable),
      (''pricing'', PricingTable)]"

definition loader_table :: "prefix_scope \<Rightarrow> string \<Rightarrow> table_kind option" where
  "loader_table scope kind =
     (if kind = ''pricing''
      then (case scope of Environment \<Rightarrow> Some PricingTable | Global \<Rightarrow> Some GlobalPricing)
      else map_of KIND_TABLES kind)"

text \<open>The table selector of the supervisor's removals and presence probes.\<close>

definition selected_table :: "string \<Rightarrow> table_kind option" where
  "selected_table kind = (if kind = ''global_pricing'' then Some GlobalPricing else map_of KIND_TABLES kind)"

section \<open>Outcomes\<close>

record raw_entry =
  rw_key :: string
  rw_value :: bytes
  rw_revision :: int

datatype rejection_kind = BadKey | NonJson | SchemaFailed | ParseFailed | UnknownKind

fun rejection_kind_str :: "rejection_kind \<Rightarrow> string" where
  "rejection_kind_str BadKey = ''bad_key''"
| "rejection_kind_str NonJson = ''non_json''"
| "rejection_kind_str SchemaFailed = ''schema_failed''"
| "rejection_kind_str ParseFailed = ''parse_failed''"
| "rejection_kind_str UnknownKind = ''unknown_kind''"

record rejected_entry =
  rj_key :: string
  rj_kind :: rejection_kind
  rj_error :: string
  rj_timestamp :: nat
  rj_stale_since :: "nat option"

definition rejected_new :: "nat \<Rightarrow> string \<Rightarrow> rejection_kind \<Rightarrow> string \<Rightarrow> rejected_entry" where
  "rejected_new now key kind err =
     \<lparr>rj_key = key, rj_kind = kind, rj_error = err, rj_timestamp = now, rj_stale_since = None\<rparr>"

record partial_compat_entry =
  pe_kind :: string
  pe_field :: string
  pe_count :: nat

record partial_compat_row =
  pw_key :: string
  pw_kind :: string
  pw_fields :: "string list"

definition aggregate_partial_compat :: "partial_compat_row list \<Rightarrow> partial_compat_entry list" where
  "aggregate_partial_compat rows =
     (let seen = concat (map (\<lambda>r. map (\<lambda>f. (pw_kind r, f)) (pw_fields r)) rows)
      in map (\<lambda>(k, f). \<lparr>pe_kind = k, pe_field = f, pe_count = count_list seen (k, f)\<rparr>)
             (sort (remdups seen)))"

record build_stats =
  bs_accepted :: nat
  bs_schema_rejected :: nat
  bs_parse_rejected :: nat
  bs_unknown_kind :: nat
  bs_key_rejected :: nat
  bs_rejections :: "rejected_entry list"
  bs_partially_compatible :: "partial_compat_entry list"
  bs_partial_rows :: "partial_compat_row list"

definition stats_default :: build_stats where
  "stats_default = \<lparr>bs_accepted = 0, bs_schema_rejected = 0, bs_parse_rejected = 0, bs_unknown_kind = 0,
     bs_key_rejected = 0, bs_rejections = [], bs_partially_compatible = [], bs_partial_rows = []\<rparr>"

section \<open>What the loader is given\<close>

record ('j, 'd) loader_lib =
  ll_from_slice :: "bytes \<Rightarrow> string + 'j"
  ll_upgrade_routing :: "'j \<Rightarrow> 'j \<times> string list"
  ll_upgrade_mcp_access :: "'j \<Rightarrow> 'j \<times> string list"
  ll_validate :: "string \<Rightarrow> 'j \<Rightarrow> string option"
  ll_deserialize :: "string \<Rightarrow> 'j \<Rightarrow> string + 'd \<times> string list"
  ll_semantics :: "string \<Rightarrow> 'd \<Rightarrow> string option"
  ll_unknown_paths :: "string \<Rightarrow> 'j \<Rightarrow> string list"
  ll_strip_inapplicable :: "'d \<Rightarrow> 'd \<times> string list"
  ll_a2a_url_ok :: "'j \<Rightarrow> bool"
  ll_name :: "table_kind \<Rightarrow> 'd \<Rightarrow> string"
  ll_canonical :: "'j \<Rightarrow> bytes"
  ll_status :: status_lib

section \<open>Ignored fields\<close>

definition schema_reported_resource :: "string \<Rightarrow> string option" where
  "schema_reported_resource kind =
     map_of [(''guardrails'', ''guardrail''), (''observability_exporters'', ''observability_exporter''),
             (''models'', ''model''), (''rate_limit_policies'', ''rate_limit_policy'')] kind"

definition MAX_REPORTED_FIELDS_PER_ROW :: nat where "MAX_REPORTED_FIELDS_PER_ROW = 64"

text \<open>\<^verbatim>\<open>parse::<usize>\<close>: an optional plus sign, then digits of a number that fits.\<close>

definition usize_parses :: "string \<Rightarrow> bool" where
  "usize_parses s =
     (let ds = (if is_prefix ''+'' s then tl s else s)
      in ds \<noteq> [] \<and> list_all ascii_digit ds \<and> read_nat ds \<le> u64_max)"

definition normalize_ignored_path :: "string \<Rightarrow> string" where
  "normalize_ignored_path path =
     join ''.'' (map (\<lambda>seg. if usize_parses seg then ''[]'' else seg)
                  (filter (\<lambda>seg. seg \<noteq> ''?'') (split_at_char (CHR ''.'') path)))"

definition sort_dedup :: "string list \<Rightarrow> string list" where
  "sort_dedup fs = remdups_adj (sort fs)"

definition push_rejection_stat ::
    "nat \<Rightarrow> string \<Rightarrow> rejection_kind \<Rightarrow> string \<Rightarrow> build_stats \<Rightarrow> build_stats" where
  "push_rejection_stat now key kind err st =
     st\<lparr>bs_rejections := bs_rejections st @ [rejected_new now key kind err]\<rparr>"

fun merge_last_row ::
    "string \<Rightarrow> string list \<Rightarrow> partial_compat_row list \<Rightarrow> partial_compat_row list option" where
  "merge_last_row key fs [] = None"
| "merge_last_row key fs (r # rs) =
     (case merge_last_row key fs rs of
        Some rs' \<Rightarrow> Some (r # rs')
      | None \<Rightarrow> if pw_key r = key then Some (r\<lparr>pw_fields := sort_dedup (pw_fields r @ fs)\<rparr> # rs) else None)"

definition merge_partial_compat_fields ::
    "build_stats \<Rightarrow> string \<Rightarrow> string \<Rightarrow> string list \<Rightarrow> build_stats" where
  "merge_partial_compat_fields st key kind fs =
     st\<lparr>bs_partial_rows :=
          (case merge_last_row key fs (bs_partial_rows st) of
             Some rows \<Rightarrow> rows
           | None \<Rightarrow> bs_partial_rows st @ [\<lparr>pw_key = key, pw_kind = kind, pw_fields = fs\<rparr>])\<rparr>"

section \<open>One row\<close>

definition capped_fields :: "string list \<Rightarrow> string list" where
  "capped_fields fs =
     (let fs = sort_dedup fs
      in if length fs > MAX_REPORTED_FIELDS_PER_ROW
         then take MAX_REPORTED_FIELDS_PER_ROW fs @ [''...truncated''] else fs)"

definition validate_and_parse_with_semantics ::
    "('j, 'd) loader_lib \<Rightarrow> nat \<Rightarrow> string \<Rightarrow> int \<Rightarrow> scoped_key \<Rightarrow> 'j \<Rightarrow> ('d \<Rightarrow> string option) \<Rightarrow>
     build_stats \<Rightarrow> build_stats \<times> 'd resource_entry option" where
  "validate_and_parse_with_semantics lib now key revision parsed v semantic st =
     (case ll_validate lib (sk_kind parsed) v of
        Some err \<Rightarrow>
          (push_rejection_stat now key SchemaFailed err
             (st\<lparr>bs_schema_rejected := bs_schema_rejected st + 1\<rparr>), None)
      | None \<Rightarrow>
          (case ll_deserialize lib (sk_kind parsed) v of
             Inr (d, paths) \<Rightarrow>
               (case semantic d of
                  Some err \<Rightarrow>
                    (push_rejection_stat now key SchemaFailed err
                       (st\<lparr>bs_schema_rejected := bs_schema_rejected st + 1\<rparr>), None)
                | None \<Rightarrow>
                    (let st = st\<lparr>bs_accepted := bs_accepted st + 1\<rparr>;
                         ignored = map normalize_ignored_path paths;
                         ignored = (case schema_reported_resource (sk_kind parsed) of
                                      Some res \<Rightarrow> ignored @ map normalize_ignored_path (ll_unknown_paths lib res v)
                                    | None \<Rightarrow> ignored);
                         st = (if ignored = [] then st
                               else st\<lparr>bs_partial_rows := bs_partial_rows st @
                                         [\<lparr>pw_key = key, pw_kind = sk_kind parsed, pw_fields = capped_fields ignored\<rparr>]\<rparr>)
                     in (st, Some \<lparr>re_id = sk_id parsed, re_value = d, re_revision = revision\<rparr>)))
           | Inl err \<Rightarrow>
               (push_rejection_stat now key ParseFailed err
                  (st\<lparr>bs_parse_rejected := bs_parse_rejected st + 1\<rparr>), None)))"

text \<open>The arms of the loader's match: what is done before the schema, the semantic hook, and what is done
  to a row that loaded.\<close>

definition upgrade_stored :: "('j, 'd) loader_lib \<Rightarrow> string \<Rightarrow> 'j \<Rightarrow> 'j \<times> string list" where
  "upgrade_stored lib kind v =
     (if kind = ''models'' then ll_upgrade_routing lib v
      else if kind = ''api_keys'' then ll_upgrade_mcp_access lib v
      else (v, []))"

definition semantic_hook :: "('j, 'd) loader_lib \<Rightarrow> string \<Rightarrow> 'd \<Rightarrow> string option" where
  "semantic_hook lib kind d =
     (if kind \<in> {''rate_limit_policies'', ''mcp_servers'', ''oidc_providers''} then ll_semantics lib kind d
      else None)"

definition note_fields :: "string \<Rightarrow> string \<Rightarrow> string list \<Rightarrow> build_stats \<Rightarrow> build_stats" where
  "note_fields key kind fs st = (if fs = [] then st else merge_partial_compat_fields st key kind fs)"

definition after_load ::
    "('j, 'd) loader_lib \<Rightarrow> string \<Rightarrow> string \<Rightarrow> 'j \<Rightarrow> string list \<Rightarrow> build_stats \<Rightarrow> 'd resource_entry \<Rightarrow>
     build_stats \<times> 'd resource_entry" where
  "after_load lib key kind v retired st e =
     (if kind = ''models'' then
        (let (d, stripped) = ll_strip_inapplicable lib (re_value e);
             st = note_fields key kind (map (\<lambda>f. ''inapplicable:'' @ f) stripped) st
         in (note_fields key kind retired st, e\<lparr>re_value := d\<rparr>))
      else if kind = ''api_keys'' then (note_fields key kind retired st, e)
      else if kind = ''a2a_agents'' then
        (if \<not> ll_a2a_url_ok lib v then merge_partial_compat_fields st key kind [''legacy:url_policy''] else st, e)
      else (st, e))"

text \<open>The typed part of the match, for a row whose kind has a table.\<close>

definition load_document ::
    "('j, 'd) loader_lib \<Rightarrow> nat \<Rightarrow> raw_entry \<Rightarrow> scoped_key \<Rightarrow> 'j \<Rightarrow> build_stats \<Rightarrow>
     build_stats \<times> 'd resource_entry option" where
  "load_document lib now raw parsed v st =
     (let (v, retired) = upgrade_stored lib (sk_kind parsed) v
      in case validate_and_parse_with_semantics lib now (rw_key raw) (rw_revision raw) parsed v
                (semantic_hook lib (sk_kind parsed)) st of
           (st, None) \<Rightarrow> (st, None)
         | (st, Some e) \<Rightarrow>
             (case after_load lib (rw_key raw) (sk_kind parsed) v retired st e of (st, e) \<Rightarrow> (st, Some e)))"

definition insert_row ::
    "('j, 'd) loader_lib \<Rightarrow> table_kind \<Rightarrow> 'd resource_entry \<Rightarrow> nat \<times> 'd snap \<Rightarrow> nat \<times> 'd snap" where
  "insert_row lib t e cs =
     (case cs of (ctr, snap) \<Rightarrow>
        (case insert_arc (ll_name lib t) ctr (snap t) e of (ctr', tbl) \<Rightarrow> (ctr', snap(t := tbl))))"

text \<open>Each rejection reads the clock once; \<open>now n\<close> is the reading for the \<open>n\<close>-th of a build.\<close>

definition load_row ::
    "('j, 'd) loader_lib \<Rightarrow> watched_prefix list \<Rightarrow> (nat \<Rightarrow> nat) \<Rightarrow> (nat \<times> 'd snap) \<times> build_stats \<Rightarrow>
     raw_entry \<Rightarrow> (nat \<times> 'd snap) \<times> build_stats" where
  "load_row lib ws now acc raw =
     (case acc of (cs, st) \<Rightarrow>
        (let clock = now (length (bs_rejections st)) in
         case resolve_key ws (rw_key raw) of
           Inl err \<Rightarrow>
             (cs, push_rejection_stat clock (rw_key raw) BadKey (key_error_text err)
                    (st\<lparr>bs_key_rejected := bs_key_rejected st + 1\<rparr>))
         | Inr parsed \<Rightarrow>
             (case ll_from_slice lib (rw_value raw) of
                Inl err \<Rightarrow>
                  (cs, push_rejection_stat clock (rw_key raw) NonJson err
                         (st\<lparr>bs_parse_rejected := bs_parse_rejected st + 1\<rparr>))
              | Inr v \<Rightarrow>
                  if sk_scope parsed = Global \<and> sk_kind parsed \<noteq> ''pricing''
                  then (cs, push_rejection_stat clock (rw_key raw) UnknownKind
                              (''kind '' @ debug_str (sk_kind parsed) @
                               '' is not accepted under the global prefix, which carries `pricing` documents only'')
                              (st\<lparr>bs_unknown_kind := bs_unknown_kind st + 1\<rparr>))
                  else (case loader_table (sk_scope parsed) (sk_kind parsed) of
                          None \<Rightarrow>
                            (cs, push_rejection_stat clock (rw_key raw) UnknownKind
                                   (''unknown kind '' @ debug_str (sk_kind parsed))
                                   (st\<lparr>bs_unknown_kind := bs_unknown_kind st + 1\<rparr>))
                        | Some t \<Rightarrow>
                            (case load_document lib clock raw parsed v st of
                               (st, None) \<Rightarrow> (cs, st)
                             | (st, Some e) \<Rightarrow> (insert_row lib t e cs, st))))))"

definition build_snapshot ::
    "('j, 'd) loader_lib \<Rightarrow> watched_prefix list \<Rightarrow> (nat \<Rightarrow> nat) \<Rightarrow> nat \<Rightarrow> raw_entry list \<Rightarrow>
     (nat \<times> 'd snap) \<times> build_stats" where
  "build_snapshot lib ws now ctr entries =
     (case foldl (load_row lib ws now) ((ctr, snapshot_new), stats_default) entries of
        (cs, st) \<Rightarrow> (cs, st\<lparr>bs_partially_compatible := aggregate_partial_compat (bs_partial_rows st)\<rparr>))"

section \<open>The row an entry loads as\<close>

text \<open>Whether an entry loads, and as which row of which table, depends on the entry alone.\<close>

definition row_of ::
    "('j, 'd) loader_lib \<Rightarrow> watched_prefix list \<Rightarrow> raw_entry \<Rightarrow> (table_kind \<times> 'd resource_entry) option" where
  "row_of lib ws raw =
     (case resolve_key ws (rw_key raw) of
        Inl _ \<Rightarrow> None
      | Inr k \<Rightarrow>
          (case ll_from_slice lib (rw_value raw) of
             Inl _ \<Rightarrow> None
           | Inr v \<Rightarrow>
               if sk_scope k = Global \<and> sk_kind k \<noteq> ''pricing'' then None
               else (case loader_table (sk_scope k) (sk_kind k) of
                       None \<Rightarrow> None
                     | Some t \<Rightarrow>
                         (let v = fst (upgrade_stored lib (sk_kind k) v) in
                          if ll_validate lib (sk_kind k) v \<noteq> None then None
                          else (case ll_deserialize lib (sk_kind k) v of
                                  Inl _ \<Rightarrow> None
                                | Inr (d, _) \<Rightarrow>
                                    if semantic_hook lib (sk_kind k) d \<noteq> None then None
                                    else Some (t, \<lparr>re_id = sk_id k,
                                           re_value = (if sk_kind k = ''models''
                                                       then fst (ll_strip_inapplicable lib d) else d),
                                           re_revision = rw_revision raw\<rparr>))))))"

definition loads :: "('j, 'd) loader_lib \<Rightarrow> watched_prefix list \<Rightarrow> raw_entry \<Rightarrow> bool" where
  "loads lib ws raw \<longleftrightarrow> row_of lib ws raw \<noteq> None"

lemma push_rejection_stat_fields [simp]:
  "bs_rejections (push_rejection_stat now key kind err st) = bs_rejections st @ [rejected_new now key kind err]"
  "bs_accepted (push_rejection_stat now key kind err st) = bs_accepted st"
  "bs_partial_rows (push_rejection_stat now key kind err st) = bs_partial_rows st"
  by (simp_all add: push_rejection_stat_def)

lemma rejected_new_fields [simp]:
  "rj_key (rejected_new now key kind err) = key" "rj_kind (rejected_new now key kind err) = kind"
  by (simp_all add: rejected_new_def)

lemma rejected_new_inject [simp]:
  "rejected_new n k a e = rejected_new n' k' a' e' \<longleftrightarrow> n = n' \<and> k = k' \<and> a = a' \<and> e = e'"
  by (auto simp: rejected_new_def)

lemma note_fields_frame [simp]:
  "bs_rejections (note_fields key kind fs st) = bs_rejections st"
  "bs_accepted (note_fields key kind fs st) = bs_accepted st"
  "bs_rejections (merge_partial_compat_fields st key kind fs) = bs_rejections st"
  "bs_accepted (merge_partial_compat_fields st key kind fs) = bs_accepted st"
  by (simp_all add: note_fields_def merge_partial_compat_fields_def)

lemma document_rejects:
  assumes "ll_validate lib (sk_kind k) v \<noteq> None \<or> (\<exists>err. ll_deserialize lib (sk_kind k) v = Inl err) \<or>
     (\<exists>d ps. ll_deserialize lib (sk_kind k) v = Inr (d, ps) \<and> sem d \<noteq> None)"
  shows "\<exists>st' kind err. validate_and_parse_with_semantics lib now key rn k v sem st = (st', None) \<and>
     bs_rejections st' = bs_rejections st @ [rejected_new now key kind err] \<and>
     kind \<noteq> UnknownKind \<and> bs_accepted st' = bs_accepted st"
  using assms
  by (cases "ll_validate lib (sk_kind k) v"; cases "ll_deserialize lib (sk_kind k) v")
    (auto simp: validate_and_parse_with_semantics_def split: option.splits)

lemma document_accepts:
  assumes "ll_validate lib (sk_kind k) v = None" and "ll_deserialize lib (sk_kind k) v = Inr (d, ps)"
    and "sem d = None"
  shows "\<exists>st'. validate_and_parse_with_semantics lib now key rn k v sem st =
       (st', Some \<lparr>re_id = sk_id k, re_value = d, re_revision = rn\<rparr>) \<and>
     bs_rejections st' = bs_rejections st \<and> bs_accepted st' = bs_accepted st + 1"
  using assms by (simp add: validate_and_parse_with_semantics_def Let_def split: option.splits)

lemma after_load_row:
  "\<exists>st'. after_load lib key kind v retired st e =
     (st', e\<lparr>re_value := (if kind = ''models'' then fst (ll_strip_inapplicable lib (re_value e)) else re_value e)\<rparr>) \<and>
     bs_rejections st' = bs_rejections st \<and> bs_accepted st' = bs_accepted st"
  by (simp add: after_load_def Let_def split: prod.splits)

lemma load_document_rejects:
  assumes "let v' = fst (upgrade_stored lib (sk_kind k) v) in
      ll_validate lib (sk_kind k) v' \<noteq> None \<or> (\<exists>err. ll_deserialize lib (sk_kind k) v' = Inl err) \<or>
      (\<exists>d ps. ll_deserialize lib (sk_kind k) v' = Inr (d, ps) \<and> semantic_hook lib (sk_kind k) d \<noteq> None)"
  shows "\<exists>st' kind err. load_document lib now raw k v st = (st', None) \<and>
     bs_rejections st' = bs_rejections st @ [rejected_new now (rw_key raw) kind err] \<and>
     kind \<noteq> UnknownKind \<and> bs_accepted st' = bs_accepted st"
proof -
  obtain v' ret where u: "upgrade_stored lib (sk_kind k) v = (v', ret)" by fastforce
  from document_rejects [OF assms [unfolded u Let_def fst_conv], of now "rw_key raw" "rw_revision raw" st]
  show ?thesis by (auto simp: load_document_def u)
qed

lemma load_document_accepts:
  assumes "upgrade_stored lib (sk_kind k) v = (v', ret)"
    and "ll_validate lib (sk_kind k) v' = None" and "ll_deserialize lib (sk_kind k) v' = Inr (d, ps)"
    and "semantic_hook lib (sk_kind k) d = None"
  shows "\<exists>st'. load_document lib now raw k v st =
       (st', Some \<lparr>re_id = sk_id k,
          re_value = (if sk_kind k = ''models'' then fst (ll_strip_inapplicable lib d) else d),
          re_revision = rw_revision raw\<rparr>) \<and>
     bs_rejections st' = bs_rejections st \<and> bs_accepted st' = bs_accepted st + 1"
proof -
  obtain st1 where v: "validate_and_parse_with_semantics lib now (rw_key raw) (rw_revision raw) k v'
      (semantic_hook lib (sk_kind k)) st =
      (st1, Some \<lparr>re_id = sk_id k, re_value = d, re_revision = rw_revision raw\<rparr>)"
    and st1: "bs_rejections st1 = bs_rejections st" "bs_accepted st1 = bs_accepted st + 1"
    using document_accepts [where sem = "semantic_hook lib (sk_kind k)", OF assms(2-4),
        of now "rw_key raw" "rw_revision raw" st] by blast
  from after_load_row [of lib "rw_key raw" "sk_kind k" v' ret st1
      "\<lparr>re_id = sk_id k, re_value = d, re_revision = rw_revision raw\<rparr>"] st1
  show ?thesis by (auto simp: load_document_def assms(1) v)
qed

text \<open>A row that does not load leaves the tables alone and adds one rejection under its key; a row that
  loads is inserted and counted.\<close>

lemma load_row_rejects:
  assumes "row_of lib ws raw = None"
  shows "\<exists>st' kind err. load_row lib ws now (cs, st) raw = (cs, st') \<and>
     bs_rejections st' = bs_rejections st @ [rejected_new (now (length (bs_rejections st))) (rw_key raw) kind err] \<and>
     bs_accepted st' = bs_accepted st"
proof (cases "resolve_key ws (rw_key raw)")
  case (Inl err)
  then show ?thesis by (auto simp: load_row_def)
next
  case k: (Inr k)
  show ?thesis
  proof (cases "ll_from_slice lib (rw_value raw)")
    case (Inl err)
    with k show ?thesis by (auto simp: load_row_def)
  next
    case v: (Inr v)
    show ?thesis
    proof (cases "sk_scope k = Global \<and> sk_kind k \<noteq> ''pricing'' \<or> loader_table (sk_scope k) (sk_kind k) = None")
      case True
      with k v show ?thesis by (cases "sk_scope k = Global \<and> sk_kind k \<noteq> ''pricing''") (auto simp: load_row_def)
    next
      case False
      then obtain t where t: "\<not> (sk_scope k = Global \<and> sk_kind k \<noteq> ''pricing'')"
        "loader_table (sk_scope k) (sk_kind k) = Some t" by auto
      have "let v' = fst (upgrade_stored lib (sk_kind k) v) in
        ll_validate lib (sk_kind k) v' \<noteq> None \<or> (\<exists>err. ll_deserialize lib (sk_kind k) v' = Inl err) \<or>
        (\<exists>d ps. ll_deserialize lib (sk_kind k) v' = Inr (d, ps) \<and> semantic_hook lib (sk_kind k) d \<noteq> None)"
        using assms k v t by (auto simp: row_of_def Let_def split: if_splits sum.splits option.splits)
      from load_document_rejects [OF this, of "now (length (bs_rejections st))" raw st] k v t
      show ?thesis by (auto simp: load_row_def Let_def)
    qed
  qed
qed

lemma load_row_accepts:
  assumes "row_of lib ws raw = Some (t, e)"
  shows "\<exists>st'. load_row lib ws now (cs, st) raw = (insert_row lib t e cs, st') \<and>
     bs_rejections st' = bs_rejections st \<and> bs_accepted st' = bs_accepted st + 1"
proof -
  from assms obtain k v where k: "resolve_key ws (rw_key raw) = Inr k"
    and v: "ll_from_slice lib (rw_value raw) = Inr v"
    and g: "\<not> (sk_scope k = Global \<and> sk_kind k \<noteq> ''pricing'')"
    and t: "loader_table (sk_scope k) (sk_kind k) = Some t"
    by (auto simp: row_of_def Let_def split: sum.splits if_splits option.splits)
  obtain v' ret where u: "upgrade_stored lib (sk_kind k) v = (v', ret)" by fastforce
  from assms k v g t u obtain d ps where d: "ll_validate lib (sk_kind k) v' = None"
    "ll_deserialize lib (sk_kind k) v' = Inr (d, ps)" "semantic_hook lib (sk_kind k) d = None"
    and e: "e = \<lparr>re_id = sk_id k, re_value = (if sk_kind k = ''models'' then fst (ll_strip_inapplicable lib d) else d),
                re_revision = rw_revision raw\<rparr>"
    by (auto simp: row_of_def Let_def split: sum.splits if_splits option.splits)
  from load_document_accepts [OF u d, of "now (length (bs_rejections st))" raw st] k v g t e
  show ?thesis by (auto simp: load_row_def Let_def)
qed

section \<open>The rows of a snapshot\<close>

definition snap_rows :: "'d snap \<Rightarrow> table_kind \<times> string \<rightharpoonup> 'd resource_entry" where
  "snap_rows snap p = by_id (snap (fst p)) (snd p)"

definition snap_ok :: "('j, 'd) loader_lib \<Rightarrow> 'd snap \<Rightarrow> bool" where
  "snap_ok lib snap \<longleftrightarrow> (\<forall>t. table_ok (ll_name lib t) (snap t))"

lemma snapshot_new_ok [simp]: "snap_ok lib snapshot_new"
  by (simp add: snap_ok_def snapshot_new_def table_new_ok)

lemma snapshot_new_rows [simp]: "snap_rows snapshot_new = Map.empty"
  by (simp add: snap_rows_def snapshot_new_def table_new_def fun_eq_iff)

lemma insert_row_rows:
  "snap_rows (snd (insert_row lib t e cs)) = (snap_rows (snd cs))((t, re_id e) \<mapsto> e)"
  by (auto simp: insert_row_def snap_rows_def fun_eq_iff insert_fields(1) [OF surjective_pairing]
           split: prod.splits dest: insert_fields(1))

lemma insert_row_ok: "snap_ok lib (snd cs) \<Longrightarrow> snap_ok lib (snd (insert_row lib t e cs))"
  by (auto simp: insert_row_def snap_ok_def split: prod.splits intro: insert_ok)

lemma insert_row_other: "t' \<noteq> t \<Longrightarrow> snd (insert_row lib t e cs) t' = snd cs t'"
  by (auto simp: insert_row_def split: prod.splits)

text \<open>The rows a list of entries leaves, each entry replacing the row of its place.\<close>

definition place_row ::
    "('j, 'd) loader_lib \<Rightarrow> watched_prefix list \<Rightarrow> (table_kind \<times> string \<rightharpoonup> 'd resource_entry) \<Rightarrow> raw_entry \<Rightarrow>
     (table_kind \<times> string \<rightharpoonup> 'd resource_entry)" where
  "place_row lib ws rows raw =
     (case row_of lib ws raw of None \<Rightarrow> rows | Some (t, e) \<Rightarrow> rows((t, re_id e) \<mapsto> e))"

lemma load_row_rows: "snap_rows (snd (fst (load_row lib ws now acc raw))) =
    place_row lib ws (snap_rows (snd (fst acc))) raw"
proof (cases acc)
  case (Pair cs st)
  show ?thesis
  proof (cases "row_of lib ws raw")
    case None
    with load_row_rejects [OF None, of now cs st] Pair show ?thesis by (auto simp: place_row_def)
  next
    case (Some p)
    obtain t e where p: "p = (t, e)" by fastforce
    with load_row_accepts [of lib ws raw t e now cs st] Some Pair show ?thesis
      by (auto simp: place_row_def insert_row_rows)
  qed
qed

lemma load_row_ok:
  assumes "snap_ok lib (snd (fst acc))"
  shows "snap_ok lib (snd (fst (load_row lib ws now acc raw)))"
proof (cases acc)
  case (Pair cs st)
  show ?thesis
  proof (cases "row_of lib ws raw")
    case None
    with load_row_rejects [OF None, of now cs st] Pair assms show ?thesis by auto
  next
    case (Some p)
    obtain t e where p: "p = (t, e)" by fastforce
    with load_row_accepts [of lib ws raw t e now cs st] Some Pair assms show ?thesis
      by (auto intro: insert_row_ok)
  qed
qed

lemma load_row_counts:
  "map rj_key (bs_rejections (snd (load_row lib ws now acc raw))) =
     map rj_key (bs_rejections (snd acc)) @ (if loads lib ws raw then [] else [rw_key raw])"
  "bs_accepted (snd (load_row lib ws now acc raw)) = bs_accepted (snd acc) + (if loads lib ws raw then 1 else 0)"
proof -
  obtain cs st where acc: "acc = (cs, st)" by fastforce
  show "map rj_key (bs_rejections (snd (load_row lib ws now acc raw))) =
     map rj_key (bs_rejections (snd acc)) @ (if loads lib ws raw then [] else [rw_key raw])"
    "bs_accepted (snd (load_row lib ws now acc raw)) = bs_accepted (snd acc) + (if loads lib ws raw then 1 else 0)"
    using load_row_rejects [of lib ws raw now cs st] load_row_accepts [of lib ws raw _ _ now cs st]
    by (cases "row_of lib ws raw"; fastforce simp: loads_def acc)+
qed

text \<open>A build places the entries in order, rejects exactly those that do not load, in order, and counts
  the others.\<close>

lemma build_fold:
  "snap_rows (snd (fst (foldl (load_row lib ws now) acc entries))) =
     foldl (place_row lib ws) (snap_rows (snd (fst acc))) entries"
  "snap_ok lib (snd (fst acc)) \<Longrightarrow> snap_ok lib (snd (fst (foldl (load_row lib ws now) acc entries)))"
  "map rj_key (bs_rejections (snd (foldl (load_row lib ws now) acc entries))) =
     map rj_key (bs_rejections (snd acc)) @ map rw_key (filter (\<lambda>e. \<not> loads lib ws e) entries)"
  "bs_accepted (snd (foldl (load_row lib ws now) acc entries)) =
     bs_accepted (snd acc) + length (filter (loads lib ws) entries)"
  by (induction entries arbitrary: acc) (simp_all add: load_row_rows load_row_ok load_row_counts)

definition placed :: "('j, 'd) loader_lib \<Rightarrow> watched_prefix list \<Rightarrow> raw_entry list \<Rightarrow>
     (table_kind \<times> string \<rightharpoonup> 'd resource_entry)" where
  "placed lib ws entries = foldl (place_row lib ws) Map.empty entries"

lemma build_facts:
  assumes "build_snapshot lib ws now ctr entries = (cs, st)"
  shows "snap_rows (snd cs) = placed lib ws entries" and "snap_ok lib (snd cs)"
    and "map rj_key (bs_rejections st) = map rw_key (filter (\<lambda>e. \<not> loads lib ws e) entries)"
    and "bs_accepted st = length (filter (loads lib ws) entries)"
proof -
  obtain st' where f: "foldl (load_row lib ws now) ((ctr, snapshot_new), stats_default) entries = (cs, st')"
    and st: "st = st'\<lparr>bs_partially_compatible := aggregate_partial_compat (bs_partial_rows st')\<rparr>"
    using assms by (auto simp: build_snapshot_def split: prod.splits)
  note b = build_fold [where acc = "((ctr, snapshot_new), stats_default)" and lib = lib and ws = ws
      and now = now and entries = entries, unfolded f]
  show "snap_rows (snd cs) = placed lib ws entries" "snap_ok lib (snd cs)"
    "map rj_key (bs_rejections st) = map rw_key (filter (\<lambda>e. \<not> loads lib ws e) entries)"
    "bs_accepted st = length (filter (loads lib ws) entries)"
    using b by (simp_all add: placed_def st stats_default_def)
qed

text \<open>A place belongs to one key: the row of an entry determines the entry's key.\<close>

lemma map_of_inject:
  "distinct (map snd xs) \<Longrightarrow> map_of xs a = Some t \<Longrightarrow> map_of xs b = Some t \<Longrightarrow> a = b"
  by (drule map_of_SomeD)+ (metis distinct_map inj_onD prod.inject snd_conv)

lemma kind_tables_inject:
  "map_of KIND_TABLES a = Some t \<Longrightarrow> map_of KIND_TABLES b = Some t \<Longrightarrow> a = b"
  by (rule map_of_inject [of KIND_TABLES a t b]) (simp_all add: KIND_TABLES_def)

lemma kind_tables_range: "map_of KIND_TABLES a = Some t \<Longrightarrow> t \<noteq> GlobalPricing"
proof -
  assume "map_of KIND_TABLES a = Some t"
  then have "t \<in> snd ` set KIND_TABLES" by (force dest: map_of_SomeD)
  then show "t \<noteq> GlobalPricing" by (auto simp: KIND_TABLES_def)
qed

lemma kind_tables_pricing: "map_of KIND_TABLES ''pricing'' = Some PricingTable"
  "map_of KIND_TABLES ''global_pricing'' = None"
  by (simp_all add: KIND_TABLES_def)

lemma row_of_key:
  assumes "row_of lib ws raw = Some (t, e)"
  obtains k where "resolve_key ws (rw_key raw) = Inr k" "loader_table (sk_scope k) (sk_kind k) = Some t"
    "re_id e = sk_id k" "sk_scope k = Global \<longrightarrow> sk_kind k = ''pricing''"
  using assms by (auto simp: row_of_def Let_def split: sum.splits if_splits option.splits)

lemma loader_table_inject:
  assumes "loader_table s a = Some t" and "loader_table s' b = Some t"
    and "s = Global \<longrightarrow> a = ''pricing''" and "s' = Global \<longrightarrow> b = ''pricing''"
  shows "s = s' \<and> a = b"
proof -
  have env: "u = Environment \<and> map_of KIND_TABLES c = Some t"
    if "loader_table u c = Some t" "t \<noteq> GlobalPricing" "u = Global \<longrightarrow> c = ''pricing''" for u c
    using that by (cases u) (auto simp: loader_table_def kind_tables_pricing split: if_splits)
  have glob: "u = Global \<and> c = ''pricing''"
    if "loader_table u c = Some GlobalPricing" "u = Global \<longrightarrow> c = ''pricing''" for u c
    using that kind_tables_range [of c GlobalPricing]
    by (cases u) (auto simp: loader_table_def split: if_splits)
  show ?thesis
  proof (cases "t = GlobalPricing")
    case True
    with assms glob show ?thesis by blast
  next
    case False
    with env [OF assms(1) _ assms(3)] env [OF assms(2) _ assms(4)] show ?thesis
      using kind_tables_inject [of a t b] by simp
  qed
qed

lemma row_of_inject:
  assumes "distinct (map wp_scope ws)"
    and "row_of lib ws a = Some (t, d)" and "row_of lib ws b = Some (t, e)" and "re_id d = re_id e"
  shows "rw_key a = rw_key b"
proof -
  obtain j where j: "resolve_key ws (rw_key a) = Inr j" "loader_table (sk_scope j) (sk_kind j) = Some t"
    "re_id d = sk_id j" "sk_scope j = Global \<longrightarrow> sk_kind j = ''pricing''" by (rule row_of_key [OF assms(2)])
  obtain k where k: "resolve_key ws (rw_key b) = Inr k" "loader_table (sk_scope k) (sk_kind k) = Some t"
    "re_id e = sk_id k" "sk_scope k = Global \<longrightarrow> sk_kind k = ''pricing''" by (rule row_of_key [OF assms(3)])
  have "j = k" using loader_table_inject [OF j(2) k(2) j(4) k(4)] j(3) k(3) assms(4)
    by (cases j; cases k) simp
  with j(1) k(1) show ?thesis using resolve_inject [OF assms(1)] by simp
qed

lemma placed_snoc: "placed lib ws (es @ [e]) = place_row lib ws (placed lib ws es) e"
  by (simp add: placed_def)

lemma placed_rows:
  assumes "distinct (map wp_scope ws)" and "distinct (map rw_key entries)"
  shows "placed lib ws entries (t, i) = Some r \<longleftrightarrow>
    (\<exists>e \<in> set entries. row_of lib ws e = Some (t, r) \<and> re_id r = i)"
  using assms(2)
proof (induction entries arbitrary: r rule: rev_induct)
  case Nil
  then show ?case by (simp add: placed_def)
next
  case (snoc e es)
  have IH: "\<And>r. placed lib ws es (t, i) = Some r \<longleftrightarrow>
      (\<exists>e \<in> set es. row_of lib ws e = Some (t, r) \<and> re_id r = i)" using snoc by simp
  have new: "rw_key a \<noteq> rw_key e" if "a \<in> set es" for a
    using snoc.prems that by (simp add: image_iff) metis
  show ?case
  proof (cases "row_of lib ws e")
    case None
    then show ?thesis by (auto simp: placed_snoc place_row_def IH)
  next
    case (Some p)
    obtain t' d where p: "p = (t', d)" by fastforce
    show ?thesis
    proof (cases "t' = t \<and> re_id d = i")
      case True
      have other: "\<not> (row_of lib ws a = Some (t, r') \<and> re_id r' = i)" if "a \<in> set es" for a r'
        using row_of_inject [OF assms(1), of lib a t r' e d] new [OF that] True Some p by auto
      have "placed lib ws (es @ [e]) (t, i) = Some d"
        using True Some p by (simp add: placed_snoc place_row_def)
      with other Some p True show ?thesis by auto
    next
      case False
      with Some p show ?thesis by (auto simp: placed_snoc place_row_def IH)
    qed
  qed
qed

end
