(* ===== verification/Supervisor.thy ===== *)
theory Supervisor
  imports Config_Loader
begin

text \<open>
  The state of the watch supervisor and its operations, \<^verbatim>\<open>crates/aisix-etcd/src/supervisor.rs\<close>: what
  etcd was last seen to hold, the snapshot that is served, the values pinned for keys whose latest
  document is rejected, and what is reported about them. One apply holds the supervisor's transaction
  lock, so each operation is a function of the state. The readings of the clock and the order in which
  the concurrent maps are walked during an apply are its context \<open>ctx\<close>. The digest of a list of
  records is a parameter of the load status. Logs, metrics and the file format of the cache are left out.
\<close>

section \<open>State\<close>

record stale_serving =
  ss_entry :: raw_entry
  ss_since :: nat

record state_entry =
  se_entry :: raw_entry
  se_record :: bytes
  se_served :: "bytes option"

record observed_state =
  os_entries :: "string \<rightharpoonup> state_entry"
  os_version :: nat
  os_served_version :: nat
  os_pending :: "string \<rightharpoonup> bytes option"
  os_filtered :: "string set"

definition observed_default :: observed_state where
  "observed_default = \<lparr>os_entries = Map.empty, os_version = 0, os_served_version = 0,
     os_pending = Map.empty, os_filtered = {}\<rparr>"

record watch_status =
  ws_revision :: int
  ws_last_apply :: "nat option"

record cached_snapshot =
  cs_entries :: "raw_entry list"
  cs_revision :: int
  cs_stale :: "stale_serving list"

record 'd supervisor =
  sv_ctr :: nat
  sv_snapshot :: "'d snap"
  sv_state :: observed_state
  sv_revision :: int
  sv_status :: watch_status
  sv_rejections :: "rejected_entry list"
  sv_rejected_keys :: "string set"
  sv_partial :: "string \<rightharpoonup> partial_compat_row"
  sv_stale :: "string \<rightharpoonup> stale_serving"
  sv_cache_enabled :: bool
  sv_cache :: "cached_snapshot option"
  sv_config_status :: config_status

definition supervisor_new :: "nat \<Rightarrow> bool \<Rightarrow> 'd supervisor" where
  "supervisor_new ctr cache =
     \<lparr>sv_ctr = ctr, sv_snapshot = snapshot_new, sv_state = observed_default, sv_revision = 0,
      sv_status = \<lparr>ws_revision = 0, ws_last_apply = None\<rparr>, sv_rejections = [], sv_rejected_keys = {},
      sv_partial = Map.empty, sv_stale = Map.empty, sv_cache_enabled = cache, sv_cache = None,
      sv_config_status = config_status_new Etcd\<rparr>"

record 'd apply_ctx =
  ac_now :: "nat \<Rightarrow> nat \<Rightarrow> nat"
  ac_instant :: nat
  ac_utc :: int
  ac_walk :: "'d resource_table \<Rightarrow> 'd resource_entry list"
  ac_walk_stale :: "(string \<rightharpoonup> stale_serving) \<Rightarrow> stale_serving list"

section \<open>Observed entries\<close>

definition hash_record :: "('j, 'd) loader_lib \<Rightarrow> string \<Rightarrow> bytes \<Rightarrow> bytes" where
  "hash_record lib key value =
     bytes_of key @ [0] @
     (case ll_from_slice lib value of Inr v \<Rightarrow> ll_canonical lib v | Inl _ \<Rightarrow> value) @ [10]"

definition remember_served :: "string \<Rightarrow> bytes option \<Rightarrow> observed_state \<Rightarrow> observed_state" where
  "remember_served key served os =
     (if os_pending os key \<noteq> None then os else os\<lparr>os_pending := (os_pending os)(key \<mapsto> served)\<rparr>)"

definition bump_version :: "observed_state \<Rightarrow> observed_state" where
  "bump_version os = os\<lparr>os_version := (os_version os + 1) mod (u64_max + 1)\<rparr>"

definition observed_insert :: "('j, 'd) loader_lib \<Rightarrow> raw_entry \<Rightarrow> observed_state \<Rightarrow> observed_state" where
  "observed_insert lib e os =
     (let key = rw_key e;
          row = \<lparr>se_entry = e, se_record = hash_record lib key (rw_value e), se_served = None\<rparr>
      in case os_entries os key of
           Some old \<Rightarrow>
             if se_record old = se_record row
             then os\<lparr>os_entries := (os_entries os)(key \<mapsto> row\<lparr>se_served := se_served old\<rparr>)\<rparr>
             else (let os = bump_version (remember_served key (se_served old) os)
                   in os\<lparr>os_entries := (os_entries os)(key \<mapsto> row)\<rparr>)
         | None \<Rightarrow>
             (let os = bump_version (remember_served key None os)
              in os\<lparr>os_entries := (os_entries os)(key \<mapsto> row)\<rparr>))"

definition observed_remove :: "string \<Rightarrow> observed_state \<Rightarrow> observed_state \<times> state_entry option" where
  "observed_remove key os =
     (case os_entries os key of
        None \<Rightarrow> (os, None)
      | Some row \<Rightarrow>
          (let os = os\<lparr>os_entries := (os_entries os)(key := None)\<rparr>
           in (bump_version (remember_served key (se_served row) os), Some row)))"

definition observed_served_record ::
    "('j, 'd) loader_lib \<Rightarrow> string \<Rightarrow> (string \<rightharpoonup> state_entry) \<Rightarrow> string set \<Rightarrow> (string \<rightharpoonup> stale_serving) \<Rightarrow>
     bytes option" where
  "observed_served_record lib key entries rejected stale =
     (case stale key of
        Some p \<Rightarrow> Some (hash_record lib (rw_key (ss_entry p)) (rw_value (ss_entry p)))
      | None \<Rightarrow> if key \<in> rejected then None else map_option se_record (entries key))"

definition publish_served ::
    "('j, 'd) loader_lib \<Rightarrow> string set \<Rightarrow> (string \<rightharpoonup> stale_serving) \<Rightarrow> observed_state \<Rightarrow> observed_state" where
  "publish_served lib rejected stale os =
     (let filtered = rejected \<union> dom stale;
          candidates = dom (os_pending os) \<union> (os_filtered os - filtered) \<union> (filtered - os_filtered os);
          now = (\<lambda>key. observed_served_record lib key (os_entries os) rejected stale);
          before = (\<lambda>key. case os_pending os key of
                            Some b \<Rightarrow> b
                          | None \<Rightarrow> Option.bind (os_entries os key) se_served);
          moved = (\<exists>key \<in> candidates. now key \<noteq> before key)
      in os\<lparr>os_entries := (\<lambda>key. if key \<in> candidates
                                then map_option (\<lambda>row. row\<lparr>se_served := now key\<rparr>) (os_entries os key)
                                else os_entries os key),
            os_pending := Map.empty, os_filtered := filtered,
            os_served_version := (if moved then (os_served_version os + 1) mod (u64_max + 1)
                                  else os_served_version os)\<rparr>)"

definition records :: "observed_state \<Rightarrow> bytes list" where
  "records os = map se_record (values_asc (os_entries os))"

definition records_by_key :: "observed_state \<Rightarrow> (string \<times> bytes) list" where
  "records_by_key os = map (\<lambda>k. (k, se_record (the (os_entries os k)))) (keys_asc (os_entries os))"

text \<open>The walk of \<^verbatim>\<open>served_records\<close>: the pinned records are merged into the ascending entries.\<close>

fun served_walk :: "(string \<times> bytes) list \<Rightarrow> (string \<times> bytes) list \<Rightarrow> string set \<Rightarrow> bytes list" where
  "served_walk [] pinned rejected = map snd pinned"
| "served_walk ((key, r) # rest) [] rejected =
     (if key \<in> rejected then served_walk rest [] rejected else r # served_walk rest [] rejected)"
| "served_walk ((key, r) # rest) ((pk, pr) # pinned) rejected =
     (if pk < key then pr # served_walk ((key, r) # rest) pinned rejected
      else if pk = key then pr # served_walk rest pinned rejected
      else if key \<in> rejected then served_walk rest ((pk, pr) # pinned) rejected
      else r # served_walk rest ((pk, pr) # pinned) rejected)"

definition served_records ::
    "('j, 'd) loader_lib \<Rightarrow> (string \<times> bytes) list \<Rightarrow> string set \<Rightarrow> stale_serving list \<Rightarrow> bytes list" where
  "served_records lib state rejected stale =
     served_walk state
       (sort_key fst (map (\<lambda>p. (rw_key (ss_entry p),
                                hash_record lib (rw_key (ss_entry p)) (rw_value (ss_entry p)))) stale))
       rejected"

section \<open>Reporting\<close>

definition MAX_RETAINED_REJECTIONS :: nat where "MAX_RETAINED_REJECTIONS = 256"
definition MAX_RETAINED_UNKNOWN_KINDS :: nat where "MAX_RETAINED_UNKNOWN_KINDS = 256"
definition MAX_RETAINED_PARTIAL_ROWS :: nat where "MAX_RETAINED_PARTIAL_ROWS = 1024"

definition is_unknown_kind :: "rejected_entry \<Rightarrow> bool" where
  "is_unknown_kind r \<longleftrightarrow> rj_kind r = UnknownKind"

definition rejection_cap :: "bool \<Rightarrow> nat" where
  "rejection_cap forward_compat =
     (if forward_compat then MAX_RETAINED_UNKNOWN_KINDS else MAX_RETAINED_REJECTIONS)"

text \<open>Newest first: \<open>kept c\<close> rows of class \<open>c\<close> were kept so far.\<close>

fun trim_newest :: "(bool \<Rightarrow> nat) \<Rightarrow> rejected_entry list \<Rightarrow> rejected_entry list" where
  "trim_newest kept [] = []"
| "trim_newest kept (e # es) =
     (let c = is_unknown_kind e
      in if kept c < rejection_cap c then e # trim_newest (kept(c := kept c + 1)) es
         else trim_newest kept es)"

definition trim_rejections_per_class :: "rejected_entry list \<Rightarrow> rejected_entry list" where
  "trim_rejections_per_class es =
     (if length es \<le> min MAX_RETAINED_REJECTIONS MAX_RETAINED_UNKNOWN_KINDS then es
      else rev (trim_newest (\<lambda>_. 0) (rev es)))"

fun remove_first :: "('a \<Rightarrow> bool) \<Rightarrow> 'a list \<Rightarrow> 'a list" where
  "remove_first P [] = []"
| "remove_first P (x # xs) = (if P x then xs else x # remove_first P xs)"

definition set_rejections :: "rejected_entry list \<Rightarrow> 'd supervisor \<Rightarrow> 'd supervisor" where
  "set_rejections new s =
     s\<lparr>sv_rejected_keys := set (map rj_key new), sv_rejections := trim_rejections_per_class new\<rparr>"

definition push_rejection :: "rejected_entry \<Rightarrow> 'd supervisor \<Rightarrow> 'd supervisor" where
  "push_rejection r s =
     (let guard = filter (\<lambda>e. rj_key e \<noteq> rj_key r) (sv_rejections s);
          same = (\<lambda>e. is_unknown_kind e = is_unknown_kind r);
          guard = (if length (filter same guard) \<ge> rejection_cap (is_unknown_kind r)
                   then remove_first same guard else guard)
      in s\<lparr>sv_rejected_keys := insert (rj_key r) (sv_rejected_keys s), sv_rejections := guard @ [r]\<rparr>)"

definition remove_rejection_for_key :: "string \<Rightarrow> 'd supervisor \<Rightarrow> 'd supervisor \<times> bool" where
  "remove_rejection_for_key key s =
     (let guard = filter (\<lambda>e. rj_key e \<noteq> key) (sv_rejections s)
      in (s\<lparr>sv_rejected_keys := sv_rejected_keys s - {key}, sv_rejections := guard\<rparr>,
          key \<in> sv_rejected_keys s \<or> length guard \<noteq> length (sv_rejections s)))"

definition recent_rejections :: "'d supervisor \<Rightarrow> rejected_entry list" where
  "recent_rejections s =
     map (\<lambda>r. r\<lparr>rj_stale_since := map_option ss_since (sv_stale s (rj_key r))\<rparr>) (sv_rejections s)"

fun retain_partial ::
    "(string \<rightharpoonup> partial_compat_row) \<Rightarrow> partial_compat_row list \<Rightarrow> (string \<rightharpoonup> partial_compat_row)" where
  "retain_partial m [] = m"
| "retain_partial m (r # rs) =
     (if card (dom m) \<ge> MAX_RETAINED_PARTIAL_ROWS then m else retain_partial (m(pw_key r \<mapsto> r)) rs)"

definition set_partial_rows :: "partial_compat_row list \<Rightarrow> 'd supervisor \<Rightarrow> 'd supervisor" where
  "set_partial_rows rows s = s\<lparr>sv_partial := retain_partial Map.empty rows\<rparr>"

definition update_partial_row :: "string \<Rightarrow> partial_compat_row option \<Rightarrow> 'd supervisor \<Rightarrow> 'd supervisor" where
  "update_partial_row key row s =
     (case row of
        Some r \<Rightarrow>
          if sv_partial s key = None \<and> card (dom (sv_partial s)) \<ge> MAX_RETAINED_PARTIAL_ROWS then s
          else s\<lparr>sv_partial := (sv_partial s)(key \<mapsto> r)\<rparr>
      | None \<Rightarrow> s\<lparr>sv_partial := (sv_partial s)(key := None)\<rparr>)"

definition recent_partial_compat :: "'d supervisor \<Rightarrow> partial_compat_entry list" where
  "recent_partial_compat s = aggregate_partial_compat (values_asc (sv_partial s))"

definition map_rejection ::
    "watched_prefix list \<Rightarrow> (string \<rightharpoonup> stale_serving) \<Rightarrow> rejected_entry \<Rightarrow> incoming_rejection" where
  "map_rejection ws stale r =
     (let (kind, i) = (case resolve_key ws (rj_key r) of Inr k \<Rightarrow> (sk_kind k, sk_id k) | Inl _ \<Rightarrow> ([], []))
      in \<lparr>ir_identity = rj_key r, ir_resource_kind = kind, ir_resource_id = i,
          ir_error_kind = rejection_kind_str (rj_kind r), ir_error = rj_error r,
          ir_seen_at = int (rj_timestamp r) * 1000,
          ir_stale_since = map_option (\<lambda>p. int (ss_since p) * 1000) (stale (rj_key r))\<rparr>)"

text \<open>The non-empty tables under their names, in ascending order of the names.\<close>

definition COUNTED_TABLES :: "(string \<times> table_kind) list" where
  "COUNTED_TABLES = sort_key fst ((''global_pricing'', GlobalPricing) # KIND_TABLES)"

definition resource_counts :: "'d snap \<Rightarrow> (string \<times> nat) list" where
  "resource_counts snap =
     filter (\<lambda>(kind, n). n > 0) (map (\<lambda>(kind, t). (kind, tbl_count (snap t))) COUNTED_TABLES)"

definition partial_compat_observation ::
    "'d supervisor \<Rightarrow> partial_compat_resource list \<times> (string \<rightharpoonup> nat)" where
  "partial_compat_observation s =
     (let rows = values_asc (sv_partial s)
      in (map (\<lambda>e. \<lparr>pr_resource_kind = pe_kind e, pr_field = pe_field e, pr_count = pe_count e\<rparr>)
            (aggregate_partial_compat rows), counts_by pw_kind rows))"

definition stale_rows_by_kind :: "watched_prefix list \<Rightarrow> (string \<rightharpoonup> stale_serving) \<Rightarrow> (string \<rightharpoonup> nat)" where
  "stale_rows_by_kind ws stale =
     counts_by sk_kind (concat (map (\<lambda>k. case resolve_key ws k of Inr p \<Rightarrow> [p] | Inl _ \<Rightarrow> []) (keys_asc stale)))"

definition sync_config_status ::
    "('j, 'd) loader_lib \<Rightarrow> watched_prefix list \<Rightarrow> int \<Rightarrow> bool \<Rightarrow> 'd supervisor \<Rightarrow> 'd supervisor" where
  "sync_config_status lib ws utc is_reload s =
     (let stale = sv_stale s; rejected = sv_rejected_keys s;
          source = deferred (os_version (sv_state s)) (hash_records (ll_status lib) (records (sv_state s)));
          os = publish_served lib rejected stale (sv_state s);
          config = (if rejected = {} \<and> stale = Map.empty then rekeyed source (os_served_version os)
                    else deferred (os_served_version os)
                           (hash_records (ll_status lib)
                              (served_records lib (records_by_key os) rejected (values_asc stale))));
          (partial, partial_rows) = partial_compat_observation s
      in s\<lparr>sv_state := os,
           sv_config_status := record_load (ll_status lib) utc
             \<lparr>lo_source_hash = source, lo_observed_revision = Some (sv_revision s),
              lo_applied = Some \<lparr>ap_config_hash = config, ap_revision = Some (sv_revision s),
                                 ap_resource_counts = map_of (resource_counts (sv_snapshot s))\<rparr>,
              lo_rejected = map (map_rejection ws stale) (sv_rejections s),
              lo_partially_compatible = partial, lo_partial_rows_by_kind = partial_rows,
              lo_stale_rows_by_kind = stale_rows_by_kind ws stale, lo_is_reload = is_reload,
              lo_wholly_rejected = False\<rparr> (sv_config_status s)\<rparr>)"

definition record_apply :: "int \<Rightarrow> nat \<Rightarrow> watch_status \<Rightarrow> watch_status" where
  "record_apply revision now w = \<lparr>ws_revision = max (ws_revision w) revision, ws_last_apply = Some now\<rparr>"

definition record_read :: "int \<Rightarrow> nat \<Rightarrow> watch_status \<Rightarrow> watch_status" where
  "record_read revision now w = \<lparr>ws_revision = revision, ws_last_apply = Some now\<rparr>"

end
