(* ===== verification/Supervisor_Apply.thy ===== *)
theory Supervisor_Apply
  imports Supervisor
begin

text \<open>
  The applies of \<^verbatim>\<open>crates/aisix-etcd/src/supervisor.rs\<close>: a batch of watch events as one
  copy-on-write cycle, a resync with the whole entry set, and the restoration from the on-disk cache.
\<close>

section \<open>Whole snapshots\<close>

definition ALL_TABLES :: "table_kind list" where
  "ALL_TABLES =
     [Models, Apikeys, ProviderKeys, Guardrails, GuardrailAttachments, CachePolicies,
      ObservabilityExporters, RateLimitPolicies, McpServers, McpPolicies, A2aAgents, OidcProviders,
      ClaimMappings, PassthroughRoutes, McpAuthSettings, PricingTable, GlobalPricing, Teams, Users,
      Budgets, BudgetPolicyTable]"

definition clone_snapshot :: "'d snap \<Rightarrow> 'd snap" where
  "clone_snapshot snap = (\<lambda>t. table_clone (snap t))"

definition merge_snapshot ::
    "('j, 'd) loader_lib \<Rightarrow> ('d resource_table \<Rightarrow> 'd resource_entry list) \<Rightarrow> 'd snap \<Rightarrow> nat \<times> 'd snap \<Rightarrow>
     nat \<times> 'd snap" where
  "merge_snapshot lib walk src dst =
     foldl (\<lambda>cs t. foldl (\<lambda>cs e. insert_row lib t e cs) cs (entries_of (src t) (walk (src t)))) dst ALL_TABLES"

definition remove_from_snapshot ::
    "('j, 'd) loader_lib \<Rightarrow> string \<Rightarrow> string \<Rightarrow> nat \<times> 'd snap \<Rightarrow> nat \<times> 'd snap" where
  "remove_from_snapshot lib kind i cs =
     (case selected_table kind of
        None \<Rightarrow> cs
      | Some t \<Rightarrow>
          (case table_remove (ll_name lib t) (fst cs) (snd cs t) i of
             (ctr, tbl, _) \<Rightarrow> (ctr, (snd cs)(t := tbl))))"

definition snapshot_has :: "'d snap \<Rightarrow> string \<Rightarrow> string \<Rightarrow> bool" where
  "snapshot_has snap kind i =
     (case selected_table kind of None \<Rightarrow> False | Some t \<Rightarrow> get_by_id (snap t) i \<noteq> None)"

section \<open>What a batch has staged\<close>

datatype pending_event = Put raw_entry | Delete string "int option"

datatype 'd snapshot_mutation = Merge "'d snap" | RemoveRow string string

fun apply_to ::
    "('j, 'd) loader_lib \<Rightarrow> ('d resource_table \<Rightarrow> 'd resource_entry list) \<Rightarrow> nat \<times> 'd snap \<Rightarrow>
     'd snapshot_mutation \<Rightarrow> nat \<times> 'd snap" where
  "apply_to lib walk cs (Merge src) = merge_snapshot lib walk src cs"
| "apply_to lib walk cs (RemoveRow kind i) = remove_from_snapshot lib kind i cs"

record batch_view =
  bv_added :: "(string \<times> string) set"
  bv_removed :: "(string \<times> string) set"

definition record_put :: "watched_prefix list \<Rightarrow> string \<Rightarrow> batch_view \<Rightarrow> batch_view" where
  "record_put ws key v =
     (case resolve_key ws key of
        Inl _ \<Rightarrow> v
      | Inr k \<Rightarrow>
          (let p = (selector_kind k, sk_id k)
           in \<lparr>bv_added = insert p (bv_added v), bv_removed = bv_removed v - {p}\<rparr>))"

definition record_delete :: "string \<Rightarrow> string \<Rightarrow> batch_view \<Rightarrow> batch_view" where
  "record_delete kind i v =
     \<lparr>bv_added = bv_added v - {(kind, i)}, bv_removed = insert (kind, i) (bv_removed v)\<rparr>"

definition view_present :: "batch_view \<Rightarrow> 'd snap \<Rightarrow> string \<Rightarrow> string \<Rightarrow> bool" where
  "view_present v base kind i =
     (if (kind, i) \<in> bv_removed v then False
      else if (kind, i) \<in> bv_added v then True
      else snapshot_has base kind i)"

record 'd staging =
  sg_view :: batch_view
  sg_mutations :: "'d snapshot_mutation list"
  sg_stamp :: "int option"
  sg_dirty_status :: bool
  sg_dirty_cache :: bool

definition staging_default :: "'d staging" where
  "staging_default = \<lparr>sg_view = \<lparr>bv_added = {}, bv_removed = {}\<rparr>, sg_mutations = [], sg_stamp = None,
     sg_dirty_status = False, sg_dirty_cache = False\<rparr>"

definition stamp_max :: "int option \<Rightarrow> int \<Rightarrow> int option" where
  "stamp_max slot revision =
     Some (case slot of Some current \<Rightarrow> if current \<ge> revision then current else revision
                      | None \<Rightarrow> revision)"

definition stage_merge ::
    "('j, 'd) loader_lib \<Rightarrow> ('d resource_table \<Rightarrow> 'd resource_entry list) \<Rightarrow> nat \<Rightarrow> 'd snap \<Rightarrow>
     'd snapshot_mutation list \<Rightarrow> nat \<times> 'd snapshot_mutation list" where
  "stage_merge lib walk ctr tiny ms =
     (case rev ms of
        Merge acc # rest \<Rightarrow>
          (let (ctr', acc') = merge_snapshot lib walk tiny (ctr, acc) in (ctr', rev rest @ [Merge acc']))
      | _ \<Rightarrow> (ctr, ms @ [Merge tiny]))"

section \<open>Events\<close>

definition store_observed :: "('j, 'd) loader_lib \<Rightarrow> raw_entry \<Rightarrow> 'd supervisor \<Rightarrow> 'd supervisor" where
  "store_observed lib e s =
     s\<lparr>sv_state := observed_insert lib e (sv_state s),
       sv_revision := (if rw_revision e > sv_revision s then rw_revision e else sv_revision s)\<rparr>"

definition capture_last_good ::
    "watched_prefix list \<Rightarrow> nat \<Rightarrow> 'd snap \<Rightarrow> batch_view \<Rightarrow> string \<Rightarrow> 'd supervisor \<Rightarrow> 'd supervisor" where
  "capture_last_good ws now base v key s =
     (if sv_stale s key \<noteq> None then s
      else case resolve_key ws key of
             Inl _ \<Rightarrow> s
           | Inr k \<Rightarrow>
               if \<not> view_present v base (selector_kind k) (sk_id k) then s
               else (case os_entries (sv_state s) key of
                       None \<Rightarrow> s
                     | Some row \<Rightarrow>
                         s\<lparr>sv_stale := (sv_stale s)(key \<mapsto> \<lparr>ss_entry = se_entry row, ss_since = now\<rparr>)\<rparr>))"

definition raise_revision_floor ::
    "int option \<Rightarrow> 'd supervisor \<times> 'd staging \<Rightarrow> 'd supervisor \<times> 'd staging" where
  "raise_revision_floor revision acc =
     (case revision of
        None \<Rightarrow> acc
      | Some r \<Rightarrow>
          ((fst acc)\<lparr>sv_revision := (if r > sv_revision (fst acc) then r else sv_revision (fst acc))\<rparr>,
           (snd acc)\<lparr>sg_stamp := stamp_max (sg_stamp (snd acc)) r, sg_dirty_status := True\<rparr>))"

definition stage_put ::
    "('j, 'd) loader_lib \<Rightarrow> watched_prefix list \<Rightarrow> 'd apply_ctx \<Rightarrow> nat \<Rightarrow> 'd snap \<Rightarrow> raw_entry \<Rightarrow>
     'd supervisor \<times> 'd staging \<Rightarrow> ('d supervisor \<times> 'd staging) \<times> bool" where
  "stage_put lib ws ctx n base e acc =
     (let (s, sg) = acc;
          ((ctr, tiny), stats) = build_snapshot lib ws (ac_now ctx (2 * n)) (sv_ctr s) [e];
          s = s\<lparr>sv_ctr := ctr\<rparr>
      in if bs_accepted stats = 0
         then (let s = capture_last_good ws (ac_now ctx (2 * n + 1) 0) base (sg_view sg) (rw_key e) s;
                   s = store_observed lib e s;
                   s = foldl (\<lambda>s r. push_rejection r s) s (bs_rejections stats)
               in ((s, sg\<lparr>sg_stamp := stamp_max (sg_stamp sg) (rw_revision e),
                          sg_dirty_status := True, sg_dirty_cache := True\<rparr>), False))
         else (let (ctr, ms) = stage_merge lib (ac_walk ctx) (sv_ctr s) tiny (sg_mutations sg);
                   s = s\<lparr>sv_ctr := ctr\<rparr>;
                   s = fst (remove_rejection_for_key (rw_key e) s);
                   s = s\<lparr>sv_stale := (sv_stale s)(rw_key e := None)\<rparr>;
                   s = update_partial_row (rw_key e)
                         (find (\<lambda>r. pw_key r = rw_key e) (bs_partial_rows stats)) s;
                   s = store_observed lib e s
               in ((s, sg\<lparr>sg_view := record_put ws (rw_key e) (sg_view sg), sg_mutations := ms,
                          sg_stamp := stamp_max (sg_stamp sg) (rw_revision e),
                          sg_dirty_status := True, sg_dirty_cache := True\<rparr>), True)))"

definition stage_delete ::
    "watched_prefix list \<Rightarrow> string \<Rightarrow> int option \<Rightarrow> 'd snap \<Rightarrow>
     'd supervisor \<times> 'd staging \<Rightarrow> ('d supervisor \<times> 'd staging) \<times> bool" where
  "stage_delete ws key revision base acc =
     (let (s, sg) = acc
      in case resolve_key ws key of
           Inl _ \<Rightarrow> (raise_revision_floor revision (s, sg), False)
         | Inr k \<Rightarrow>
             (let present = view_present (sg_view sg) base (selector_kind k) (sk_id k);
                  (s, removed_rejection) = remove_rejection_for_key key s;
                  s = update_partial_row key None s;
                  s = s\<lparr>sv_stale := (sv_stale s)(key := None)\<rparr>;
                  (os, removed) = observed_remove key (sv_state s);
                  s = s\<lparr>sv_state := os\<rparr>
              in if \<not> present
                 then (let sg = (if removed_rejection \<or> removed \<noteq> None
                                 then sg\<lparr>sg_stamp := stamp_max (sg_stamp sg) (sv_revision s),
                                         sg_dirty_status := True, sg_dirty_cache := True\<rparr>
                                 else sg)
                       in (raise_revision_floor revision (s, sg), removed_rejection))
                 else (let sg = sg\<lparr>sg_view := record_delete (selector_kind k) (sk_id k) (sg_view sg),
                                   sg_mutations := sg_mutations sg @ [RemoveRow (selector_kind k) (sk_id k)],
                                   sg_stamp := stamp_max (sg_stamp sg) (sv_revision s),
                                   sg_dirty_status := True, sg_dirty_cache := True\<rparr>
                       in (raise_revision_floor revision (s, sg), True))))"

fun stage_event ::
    "('j, 'd) loader_lib \<Rightarrow> watched_prefix list \<Rightarrow> 'd apply_ctx \<Rightarrow> nat \<Rightarrow> 'd snap \<Rightarrow>
     'd supervisor \<times> 'd staging \<Rightarrow> pending_event \<Rightarrow> ('d supervisor \<times> 'd staging) \<times> bool" where
  "stage_event lib ws ctx n base acc (Put e) = stage_put lib ws ctx n base e acc"
| "stage_event lib ws ctx n base acc (Delete key revision) = stage_delete ws key revision base acc"

fun stage_events ::
    "('j, 'd) loader_lib \<Rightarrow> watched_prefix list \<Rightarrow> 'd apply_ctx \<Rightarrow> nat \<Rightarrow> 'd snap \<Rightarrow>
     'd supervisor \<times> 'd staging \<Rightarrow> pending_event list \<Rightarrow> ('d supervisor \<times> 'd staging) \<times> bool list" where
  "stage_events lib ws ctx n base acc [] = (acc, [])"
| "stage_events lib ws ctx n base acc (ev # evs) =
     (let (acc, outcome) = stage_event lib ws ctx n base acc ev;
          (acc, outcomes) = stage_events lib ws ctx (n + 1) base acc evs
      in (acc, outcome # outcomes))"

text \<open>What a write of the cache captures.\<close>

definition captured :: "'d apply_ctx \<Rightarrow> 'd supervisor \<Rightarrow> cached_snapshot" where
  "captured ctx s = \<lparr>cs_entries = map se_entry (values_asc (os_entries (sv_state s))),
     cs_revision = sv_revision s, cs_stale = ac_walk_stale ctx (sv_stale s)\<rparr>"

definition flush_cache :: "'d apply_ctx \<Rightarrow> 'd supervisor \<Rightarrow> 'd supervisor" where
  "flush_cache ctx s = (if \<not> sv_cache_enabled s then s else s\<lparr>sv_cache := Some (captured ctx s)\<rparr>)"

definition apply_events ::
    "('j, 'd) loader_lib \<Rightarrow> watched_prefix list \<Rightarrow> 'd apply_ctx \<Rightarrow> pending_event list \<Rightarrow> 'd supervisor \<Rightarrow>
     'd supervisor \<times> bool list" where
  "apply_events lib ws ctx events s =
     (let base = sv_snapshot s;
          ((s, sg), outcomes) = stage_events lib ws ctx 0 base (s, staging_default) events;
          s = (if sg_mutations sg = [] then s
               else (let (ctr, new) = foldl (apply_to lib (ac_walk ctx)) (sv_ctr s, clone_snapshot base)
                                        (sg_mutations sg)
                     in s\<lparr>sv_ctr := ctr, sv_snapshot := new\<rparr>));
          s = (case sg_stamp sg of
                 None \<Rightarrow> s
               | Some r \<Rightarrow> s\<lparr>sv_status := record_apply r (ac_instant ctx) (sv_status s)\<rparr>);
          s = (if sg_dirty_status sg then sync_config_status lib ws (ac_utc ctx) False s else s);
          s = (if sg_dirty_cache sg then flush_cache ctx s else s)
      in (s, outcomes))"

definition apply_put ::
    "('j, 'd) loader_lib \<Rightarrow> watched_prefix list \<Rightarrow> 'd apply_ctx \<Rightarrow> raw_entry \<Rightarrow> 'd supervisor \<Rightarrow>
     'd supervisor \<times> bool" where
  "apply_put lib ws ctx e s = (case apply_events lib ws ctx [Put e] s of (s, outcomes) \<Rightarrow> (s, hd outcomes))"

definition apply_delete ::
    "('j, 'd) loader_lib \<Rightarrow> watched_prefix list \<Rightarrow> 'd apply_ctx \<Rightarrow> string \<Rightarrow> 'd supervisor \<Rightarrow>
     'd supervisor \<times> bool" where
  "apply_delete lib ws ctx key s =
     (case apply_events lib ws ctx [Delete key None] s of (s, outcomes) \<Rightarrow> (s, hd outcomes))"

section \<open>Resync\<close>

text \<open>Pins for the rejections of a resync, in order; \<open>n\<close> counts the rejections seen.\<close>

fun pin_rejected ::
    "watched_prefix list \<Rightarrow> (nat \<Rightarrow> nat) \<Rightarrow> 'd snap \<Rightarrow> (string \<rightharpoonup> raw_entry) \<Rightarrow> nat \<Rightarrow> rejected_entry list \<Rightarrow>
     (string \<rightharpoonup> stale_serving) \<Rightarrow> (string \<rightharpoonup> stale_serving)" where
  "pin_rejected ws now prev prev_state n [] stale = stale"
| "pin_rejected ws now prev prev_state n (r # rs) stale =
     pin_rejected ws now prev prev_state (n + 1) rs
       (if stale (rj_key r) \<noteq> None then stale
        else case resolve_key ws (rj_key r) of
               Inl _ \<Rightarrow> stale
             | Inr k \<Rightarrow>
                 if \<not> snapshot_has prev (selector_kind k) (sk_id k) then stale
                 else (case prev_state (rj_key r) of
                         None \<Rightarrow> stale
                       | Some good \<Rightarrow> stale(rj_key r \<mapsto> \<lparr>ss_entry = good, ss_since = now n\<rparr>)))"

definition reconcile_state ::
    "('j, 'd) loader_lib \<Rightarrow> raw_entry list \<Rightarrow> observed_state \<Rightarrow> observed_state" where
  "reconcile_state lib entries os =
     (let departed = filter (\<lambda>k. k \<notin> rw_key ` set entries) (keys_asc (os_entries os));
          os = foldl (\<lambda>os k. fst (observed_remove k os)) os departed
      in foldl (\<lambda>os e. observed_insert lib e os) os entries)"

definition entries_max :: "raw_entry list \<Rightarrow> int option" where
  "entries_max entries = (if entries = [] then None else Some (Max (rw_revision ` set entries)))"

definition apply_resync_at ::
    "('j, 'd) loader_lib \<Rightarrow> watched_prefix list \<Rightarrow> 'd apply_ctx \<Rightarrow> raw_entry list \<Rightarrow> int option \<Rightarrow>
     'd supervisor \<Rightarrow> 'd supervisor \<times> build_stats" where
  "apply_resync_at lib ws ctx entries read_revision s =
     (let (cs, stats) = build_snapshot lib ws (ac_now ctx 0) (sv_ctr s) entries;
          rejected = set (map rj_key (bs_rejections stats));
          entry_keys = rw_key ` set entries;
          prev_state = (\<lambda>k. if k \<in> rejected then map_option se_entry (os_entries (sv_state s) k) else None);
          stale = (\<lambda>k. if k \<in> entry_keys \<and> k \<in> rejected then sv_stale s k else None);
          stale = pin_rejected ws (ac_now ctx 1) (sv_snapshot s) prev_state 0 (bs_rejections stats) stale;
          injected = map ss_entry (ac_walk_stale ctx stale);
          (cs, stats, stale) =
            (if injected = [] then (cs, stats, stale)
             else (let ((ctr, lkg), lkg_stats) = build_snapshot lib ws (ac_now ctx 2) (fst cs) injected;
                       stale = (\<lambda>k. if k \<in> set (map rj_key (bs_rejections lkg_stats)) then None else stale k);
                       cs = merge_snapshot lib (ac_walk ctx) lkg (ctr, snd cs);
                       rows = bs_partial_rows stats @ bs_partial_rows lkg_stats
                   in (cs, stats\<lparr>bs_partial_rows := rows,
                                 bs_partially_compatible := aggregate_partial_compat rows\<rparr>, stale)));
          s = s\<lparr>sv_ctr := fst cs, sv_snapshot := snd cs, sv_stale := stale,
                sv_state := reconcile_state lib entries (sv_state s)\<rparr>;
          s = s\<lparr>sv_revision :=
                 (case read_revision of
                    Some r \<Rightarrow> r
                  | None \<Rightarrow> (case entries_max entries of
                               Some m \<Rightarrow> if m > sv_revision s then m else sv_revision s
                             | None \<Rightarrow> sv_revision s))\<rparr>;
          s = s\<lparr>sv_status := record_apply (sv_revision s) (ac_instant ctx) (sv_status s)\<rparr>;
          s = set_partial_rows (bs_partial_rows stats) (set_rejections (bs_rejections stats) s);
          s = sync_config_status lib ws (ac_utc ctx) True s
      in (flush_cache ctx s, stats))"

definition record_read_revision ::
    "('j, 'd) loader_lib \<Rightarrow> watched_prefix list \<Rightarrow> nat \<Rightarrow> int \<Rightarrow> int \<Rightarrow> 'd supervisor \<Rightarrow> 'd supervisor" where
  "record_read_revision lib ws now utc revision s =
     sync_config_status lib ws utc False
       (s\<lparr>sv_revision := revision, sv_status := record_read revision now (sv_status s)\<rparr>)"

definition restore_from_cache ::
    "('j, 'd) loader_lib \<Rightarrow> watched_prefix list \<Rightarrow> 'd apply_ctx \<Rightarrow> cached_snapshot option \<Rightarrow>
     'd supervisor \<Rightarrow> 'd supervisor" where
  "restore_from_cache lib ws ctx cached s =
     (case cached of
        None \<Rightarrow> s
      | Some c \<Rightarrow>
          (let s = s\<lparr>sv_stale := foldl (\<lambda>m p. m(rw_key (ss_entry p) \<mapsto> p)) Map.empty (cs_stale c)\<rparr>;
               s = fst (apply_resync_at lib ws ctx (cs_entries c) None s);
               s = s\<lparr>sv_revision := cs_revision c\<rparr>
           in sync_config_status lib ws (ac_utc ctx) False s))"

section \<open>Runs\<close>

datatype config_op = Batch "pending_event list" | Resync "raw_entry list" "int option" | ReadRevision int

fun sup_step ::
    "('j, 'd) loader_lib \<Rightarrow> watched_prefix list \<Rightarrow> 'd supervisor \<Rightarrow> 'd apply_ctx \<times> config_op \<Rightarrow> 'd supervisor" where
  "sup_step lib ws s (ctx, Batch evs) = fst (apply_events lib ws ctx evs s)"
| "sup_step lib ws s (ctx, Resync entries rr) = fst (apply_resync_at lib ws ctx entries rr s)"
| "sup_step lib ws s (ctx, ReadRevision r) = record_read_revision lib ws (ac_instant ctx) (ac_utc ctx) r s"

definition sup_run ::
    "('j, 'd) loader_lib \<Rightarrow> watched_prefix list \<Rightarrow> 'd supervisor \<Rightarrow> ('d apply_ctx \<times> config_op) list \<Rightarrow>
     'd supervisor" where
  "sup_run lib ws s ops = foldl (sup_step lib ws) s ops"

end
