(* ===== verification/Supervisor_Serving.thy ===== *)
theory Supervisor_Serving
  imports Supervisor_Apply
begin

text \<open>
  What the supervisor serves, as a function of its state: per key, the pinned value or else the observed
  value if it loads. The lemmas relate the tables of the snapshot to that function for each operation.
\<close>

section \<open>Rows of whole snapshots\<close>

definition walks :: "('d resource_table \<Rightarrow> 'd resource_entry list) \<Rightarrow> bool" where
  "walks walk \<longleftrightarrow> (\<forall>nm t. table_ok nm t \<longrightarrow> enumerates t (walk t))"

definition ctx_ok :: "'d apply_ctx \<Rightarrow> bool" where
  "ctx_ok ctx \<longleftrightarrow> walks (ac_walk ctx) \<and>
     (\<forall>m. finite (dom m) \<longrightarrow> set (ac_walk_stale ctx m) = ran m \<and> length (ac_walk_stale ctx m) = card (dom m))"

lemma fold_insert_rows:
  "snap_rows (snd (foldl (\<lambda>cs e. insert_row lib t e cs) cs es)) =
     snap_rows (snd cs) ++ map_of (rev (map (\<lambda>e. ((t, re_id e), e)) es))"
  by (induction es rule: rev_induct) (simp_all add: insert_row_rows fun_eq_iff map_add_def)

lemma fold_insert_ok:
  "snap_ok lib (snd cs) \<Longrightarrow> snap_ok lib (snd (foldl (\<lambda>cs e. insert_row lib t e cs) cs es))"
  by (induction es rule: rev_induct) (simp_all add: insert_row_ok)

lemma option_ext: "(\<And>e. x = Some e \<longleftrightarrow> y = Some e) \<Longrightarrow> x = y"
  by (metis not_None_eq)

lemma table_walk_rows:
  assumes "table_ok nm tb" and "enumerates tb es"
  shows "map_of (rev (map (\<lambda>e. ((t, re_id e), e)) es)) (t', i) = (if t' = t then by_id tb i else None)"
proof -
  let ?xs = "rev (map (\<lambda>e. ((t, re_id e), e)) es)"
  have "inj_on (\<lambda>e. (t, re_id e)) (set es)"
    by (auto intro!: inj_onI enumerates_ids [OF assms])
  then have d: "distinct (map fst ?xs)"
    using assms(2) by (simp add: enumerates_def rev_map [symmetric] comp_def distinct_map)
  have row: "by_id tb i = Some e \<longleftrightarrow> e \<in> set es \<and> re_id e = i" for e
    using assms by (auto simp: enumerates_def table_ok_def ran_def)
  have "((t', i), e) \<in> set ?xs \<longleftrightarrow> t' = t \<and> e \<in> set es \<and> re_id e = i" for e by auto
  then have eq: "map_of ?xs (t', i) = Some e \<longleftrightarrow> t' = t \<and> by_id tb i = Some e" for e
    by (simp only: map_of_eq_Some_iff [OF d] row)
  show ?thesis by (rule option_ext) (simp add: eq)
qed

lemma all_tables: "distinct ALL_TABLES" "t \<in> set ALL_TABLES"
  by (simp add: ALL_TABLES_def, cases t) (simp_all add: ALL_TABLES_def)

lemma merge_tables_rows:
  assumes "snap_ok lib src" and "walks walk"
  shows "snap_rows (snd (foldl (\<lambda>cs t. foldl (\<lambda>cs e. insert_row lib t e cs) cs (entries_of (src t) (walk (src t)))) dst ts)) (t, i)
    = (case by_id (src t) i of Some e \<Rightarrow> if t \<in> set ts then Some e else snap_rows (snd dst) (t, i)
       | None \<Rightarrow> snap_rows (snd dst) (t, i))"
proof (induction ts rule: rev_induct)
  case Nil
  then show ?case by (simp split: option.split)
next
  case (snoc u ts)
  have ok: "table_ok (ll_name lib u) (src u)" using assms(1) by (simp add: snap_ok_def)
  have en: "enumerates (src u) (walk (src u))" using assms(2) ok unfolding walks_def by blast
  show ?case
  proof (cases "u = t")
    case True
    show ?thesis
      using enumerates_scan [OF ok en] table_walk_rows [OF ok en, of u t i] snoc.IH
      by (simp add: fold_insert_rows map_add_def True split: option.split)
  next
    case False
    then show ?thesis
      by (auto simp: fold_insert_rows map_add_def enumerates_scan [OF ok en] table_walk_rows [OF ok en] snoc.IH
               split: option.split)
  qed
qed

lemma merge_snapshot_rows:
  assumes "snap_ok lib src" and "walks walk"
  shows "snap_rows (snd (merge_snapshot lib walk src dst)) = snap_rows (snd dst) ++ snap_rows src"
proof (rule ext, clarify)
  fix t i
  show "snap_rows (snd (merge_snapshot lib walk src dst)) (t, i) = (snap_rows (snd dst) ++ snap_rows src) (t, i)"
    unfolding merge_snapshot_def merge_tables_rows [OF assms]
    by (simp add: all_tables(2) map_add_def snap_rows_def split: option.split)
qed

lemma merge_snapshot_ok:
  assumes "snap_ok lib (snd dst)"
  shows "snap_ok lib (snd (merge_snapshot lib walk src dst))"
proof -
  have "snap_ok lib (snd (foldl (\<lambda>cs t. foldl (\<lambda>cs e. insert_row lib t e cs) cs (entries_of (src t) (walk (src t)))) dst ts))" for ts
    by (induction ts rule: rev_induct) (simp_all add: assms fold_insert_ok)
  then show ?thesis by (simp add: merge_snapshot_def)
qed

definition unplace :: "string \<Rightarrow> string \<Rightarrow> (table_kind \<times> string \<rightharpoonup> 'r) \<Rightarrow> (table_kind \<times> string \<rightharpoonup> 'r)" where
  "unplace kind i rows = (case selected_table kind of None \<Rightarrow> rows | Some t \<Rightarrow> rows((t, i) := None))"

lemma remove_from_snapshot_rows:
  "snap_rows (snd (remove_from_snapshot lib kind i cs)) = unplace kind i (snap_rows (snd cs))"
  by (auto simp: remove_from_snapshot_def unplace_def snap_rows_def table_remove_def bump_generation_def
                 fun_eq_iff split: option.splits prod.splits)

lemma remove_from_snapshot_ok:
  "snap_ok lib (snd cs) \<Longrightarrow> snap_ok lib (snd (remove_from_snapshot lib kind i cs))"
  by (auto simp: remove_from_snapshot_def snap_ok_def split: option.splits prod.splits intro: remove_ok)

lemma clone_snapshot_id: "snap_ok lib snap \<Longrightarrow> clone_snapshot snap = snap"
  by (auto simp: clone_snapshot_def snap_ok_def table_ok_def table_clone_def)

lemma snapshot_has_rows:
  "snapshot_has snap kind i \<longleftrightarrow> (\<exists>t. selected_table kind = Some t \<and> snap_rows snap (t, i) \<noteq> None)"
  by (auto simp: snapshot_has_def snap_rows_def get_by_id_def split: option.splits)

section \<open>Staged rows\<close>

fun mutate_rows ::
    "(table_kind \<times> string \<rightharpoonup> 'd resource_entry) \<Rightarrow> 'd snapshot_mutation \<Rightarrow> (table_kind \<times> string \<rightharpoonup> 'd resource_entry)" where
  "mutate_rows rows (Merge src) = rows ++ snap_rows src"
| "mutate_rows rows (RemoveRow kind i) = unplace kind i rows"

definition staged_rows ::
    "'d snap \<Rightarrow> 'd snapshot_mutation list \<Rightarrow> (table_kind \<times> string \<rightharpoonup> 'd resource_entry)" where
  "staged_rows base ms = foldl mutate_rows (snap_rows base) ms"

definition merges_ok :: "('j, 'd) loader_lib \<Rightarrow> 'd snapshot_mutation list \<Rightarrow> bool" where
  "merges_ok lib ms \<longleftrightarrow> (\<forall>src. Merge src \<in> set ms \<longrightarrow> snap_ok lib src)"

lemma mutations_rows:
  assumes "walks walk" and "merges_ok lib ms" and "snap_ok lib (snd cs)"
  shows "snap_rows (snd (foldl (apply_to lib walk) cs ms)) = foldl mutate_rows (snap_rows (snd cs)) ms \<and>
    snap_ok lib (snd (foldl (apply_to lib walk) cs ms))"
  using assms(2)
proof (induction ms rule: rev_induct)
  case Nil
  then show ?case using assms(3) by simp
next
  case (snoc m ms)
  then have IH: "snap_rows (snd (foldl (apply_to lib walk) cs ms)) = foldl mutate_rows (snap_rows (snd cs)) ms"
    "snap_ok lib (snd (foldl (apply_to lib walk) cs ms))" by (auto simp: merges_ok_def)
  show ?case
  proof (cases m)
    case (Merge src)
    with snoc.prems have "snap_ok lib src" by (simp add: merges_ok_def)
    with Merge IH show ?thesis by (simp add: merge_snapshot_rows [OF _ assms(1)] merge_snapshot_ok)
  next
    case (RemoveRow kind i)
    with IH show ?thesis by (simp add: remove_from_snapshot_rows remove_from_snapshot_ok)
  qed
qed

lemma stage_merge_facts:
  assumes "stage_merge lib walk ctr tiny ms = (ctr', ms')" and "walks walk" and "merges_ok lib ms"
    and "snap_ok lib tiny"
  shows "staged_rows base ms' = staged_rows base ms ++ snap_rows tiny \<and> merges_ok lib ms'"
proof (cases "rev ms")
  case Nil
  then show ?thesis using assms by (auto simp: stage_merge_def staged_rows_def merges_ok_def)
next
  case (Cons m rest)
  then have ms: "ms = rev rest @ [m]" by (metis rev.simps(2) rev_rev_ident)
  show ?thesis
  proof (cases m)
    case (Merge acc)
    obtain c acc' where m: "merge_snapshot lib walk tiny (ctr, acc) = (c, acc')" by fastforce
    have "snap_ok lib acc" using assms(3) by (simp add: ms Merge merges_ok_def)
    then have "snap_rows acc' = snap_rows acc ++ snap_rows tiny" "snap_ok lib acc'"
      using merge_snapshot_rows [OF assms(4,2), of "(ctr, acc)"] merge_snapshot_ok [of lib "(ctr, acc)"] m
      by (metis snd_conv)+
    with assms(1,3) Cons Merge m show ?thesis
      by (auto simp: stage_merge_def ms staged_rows_def merges_ok_def map_add_assoc)
  next
    case (RemoveRow kind i)
    with assms Cons show ?thesis by (auto simp: stage_merge_def ms staged_rows_def merges_ok_def)
  qed
qed

section \<open>The last good value of each key\<close>

type_synonym serving_map = "string \<rightharpoonup> raw_entry"

definition ents :: "observed_state \<Rightarrow> serving_map" where
  "ents os k = map_option se_entry (os_entries os k)"

definition serving ::
    "('j, 'd) loader_lib \<Rightarrow> watched_prefix list \<Rightarrow> 'd supervisor \<Rightarrow> serving_map" where
  "serving lib ws s k =
     (case sv_stale s k of
        Some p \<Rightarrow> Some (ss_entry p)
      | None \<Rightarrow> (case ents (sv_state s) k of
                   Some e \<Rightarrow> if loads lib ws e then Some e else None
                 | None \<Rightarrow> None))"

text \<open>The specification: a write that loads replaces the value of its key, one that does not leaves it,
  a delete drops it; a full read drops the keys it lacks.\<close>

fun good_event ::
    "('j, 'd) loader_lib \<Rightarrow> watched_prefix list \<Rightarrow> serving_map \<Rightarrow> pending_event \<Rightarrow> serving_map" where
  "good_event lib ws f (Put e) = (if loads lib ws e then f(rw_key e \<mapsto> e) else f)"
| "good_event lib ws f (Delete key revision) = f(key := None)"

definition entry_map :: "raw_entry list \<Rightarrow> serving_map" where
  "entry_map entries = map_of (map (\<lambda>e. (rw_key e, e)) entries)"

definition good_resync ::
    "('j, 'd) loader_lib \<Rightarrow> watched_prefix list \<Rightarrow> serving_map \<Rightarrow> raw_entry list \<Rightarrow> serving_map" where
  "good_resync lib ws f entries k =
     (case entry_map entries k of
        None \<Rightarrow> None
      | Some e \<Rightarrow> if loads lib ws e then Some e else f k)"

fun good_op ::
    "('j, 'd) loader_lib \<Rightarrow> watched_prefix list \<Rightarrow> serving_map \<Rightarrow> config_op \<Rightarrow> serving_map" where
  "good_op lib ws f (Batch evs) = foldl (good_event lib ws) f evs"
| "good_op lib ws f (Resync entries rr) = good_resync lib ws f entries"
| "good_op lib ws f (ReadRevision r) = f"

text \<open>Keys whose kind has a table under their prefix or no table at all: under the shared catalog only
  prices, elsewhere not the selector of the catalog's table.\<close>

definition well_placed :: "watched_prefix list \<Rightarrow> string \<Rightarrow> bool" where
  "well_placed ws key \<longleftrightarrow>
     (case resolve_key ws key of
        Inl _ \<Rightarrow> True
      | Inr k \<Rightarrow> if sk_scope k = Global then sk_kind k = ''pricing'' else sk_kind k \<noteq> ''global_pricing'')"

lemma ents_insert [simp]: "ents (observed_insert lib e os) = (ents os)(rw_key e \<mapsto> e)"
  by (auto simp: ents_def observed_insert_def Let_def bump_version_def remember_served_def fun_eq_iff
           split: option.split)

lemma ents_remove [simp]: "ents (fst (observed_remove k os)) = (ents os)(k := None)"
  by (auto simp: ents_def observed_remove_def Let_def bump_version_def remember_served_def fun_eq_iff
           split: option.split)

lemma ents_publish [simp]: "ents (publish_served lib rejected stale os) = ents os"
  by (auto simp: ents_def publish_served_def Let_def fun_eq_iff option.map_comp comp_def)

lemma ents_None: "ents os k = None \<longleftrightarrow> os_entries os k = None"
  by (simp add: ents_def)

section \<open>Rows against values\<close>

definition keyed :: "('j, 'd) loader_lib \<Rightarrow> watched_prefix list \<Rightarrow> serving_map \<Rightarrow> bool" where
  "keyed lib ws f \<longleftrightarrow> (\<forall>k e. f k = Some e \<longrightarrow> rw_key e = k \<and> loads lib ws e)"

definition shows_rows ::
    "('j, 'd) loader_lib \<Rightarrow> watched_prefix list \<Rightarrow> (table_kind \<times> string \<rightharpoonup> 'd resource_entry) \<Rightarrow> serving_map \<Rightarrow>
     bool" where
  "shows_rows lib ws rows f \<longleftrightarrow>
     (\<forall>t i r. rows (t, i) = Some r \<longleftrightarrow> (\<exists>k e. f k = Some e \<and> row_of lib ws e = Some (t, r) \<and> re_id r = i))"

lemma shows_rowsD:
  "shows_rows lib ws rows f \<Longrightarrow> rows (t, i) = Some r \<Longrightarrow>
     \<exists>k e. f k = Some e \<and> row_of lib ws e = Some (t, r) \<and> re_id r = i"
  by (simp add: shows_rows_def)

lemma row_of_place:
  assumes "row_of lib ws a = Some (t, d)" and "row_of lib ws b = Some (t', e)" and "rw_key a = rw_key b"
  shows "t = t' \<and> re_id d = re_id e"
proof -
  obtain j where "resolve_key ws (rw_key a) = Inr j" "loader_table (sk_scope j) (sk_kind j) = Some t"
    "re_id d = sk_id j" by (rule row_of_key [OF assms(1)])
  moreover obtain k where "resolve_key ws (rw_key b) = Inr k" "loader_table (sk_scope k) (sk_kind k) = Some t'"
    "re_id e = sk_id k" by (rule row_of_key [OF assms(2)])
  ultimately show ?thesis using assms(3) by simp
qed

lemma shows_put:
  assumes d: "distinct (map wp_scope ws)" and f: "keyed lib ws f" and r: "shows_rows lib ws rows f"
    and e: "row_of lib ws e = Some (t, d)"
  shows "shows_rows lib ws (rows((t, re_id d) \<mapsto> d)) (f(rw_key e \<mapsto> e))"
  unfolding shows_rows_def
proof (intro allI)
  fix t' i r'
  show "(rows((t, re_id d) \<mapsto> d)) (t', i) = Some r' \<longleftrightarrow>
    (\<exists>k b. (f(rw_key e \<mapsto> e)) k = Some b \<and> row_of lib ws b = Some (t', r') \<and> re_id r' = i)"
  proof (cases "t' = t \<and> i = re_id d")
    case True
    have same: "b = e" if "(f(rw_key e \<mapsto> e)) k = Some b" "row_of lib ws b = Some (t, r')" "re_id r' = re_id d" for k b
    proof (rule ccontr)
      assume "b \<noteq> e"
      with that(1) f have "rw_key b = k" "k \<noteq> rw_key e" by (auto simp: keyed_def split: if_splits)
      with row_of_inject [OF d that(2) e that(3)] show False by simp
    qed
    have "(\<exists>k b. (f(rw_key e \<mapsto> e)) k = Some b \<and> row_of lib ws b = Some (t, r') \<and> re_id r' = re_id d) \<longleftrightarrow> r' = d"
    proof
      assume "\<exists>k b. (f(rw_key e \<mapsto> e)) k = Some b \<and> row_of lib ws b = Some (t, r') \<and> re_id r' = re_id d"
      then obtain k b where "(f(rw_key e \<mapsto> e)) k = Some b" and b: "row_of lib ws b = Some (t, r')"
        and "re_id r' = re_id d" by blast
      then have "b = e" by (rule same)
      with b e show "r' = d" by simp
    next
      assume "r' = d"
      with e show "\<exists>k b. (f(rw_key e \<mapsto> e)) k = Some b \<and> row_of lib ws b = Some (t, r') \<and> re_id r' = re_id d"
        by (intro exI [of _ "rw_key e"] exI [of _ e]) simp
    qed
    with True show ?thesis by auto
  next
    case False
    have "k \<noteq> rw_key e" if "f k = Some b" "row_of lib ws b = Some (t', r')" "re_id r' = i" for k b
    proof
      assume "k = rw_key e"
      with f that(1) have "rw_key b = rw_key e" by (simp add: keyed_def)
      with row_of_place [OF that(2) e] that(3) False show False by simp
    qed
    then have "(\<exists>k b. (f(rw_key e \<mapsto> e)) k = Some b \<and> row_of lib ws b = Some (t', r') \<and> re_id r' = i) \<longleftrightarrow>
        (\<exists>k b. f k = Some b \<and> row_of lib ws b = Some (t', r') \<and> re_id r' = i)"
      using e False by auto
    with r False show ?thesis by (auto simp: shows_rows_def)
  qed
qed

lemma selected_loader:
  assumes "sk_scope k = Global \<longrightarrow> sk_kind k = ''pricing''"
    and "loader_table (sk_scope k) (sk_kind k) = Some t"
  shows "selected_table (selector_kind k) = Some t"
  using assms
  by (cases "sk_scope k")
    (auto simp: loader_table_def selector_kind_def selected_table_def kind_tables_pricing split: if_splits)

lemma loader_selected:
  assumes "well_placed ws key" and "resolve_key ws key = Inr k" and "selected_table (selector_kind k) = Some t"
  shows "loader_table (sk_scope k) (sk_kind k) = Some t" "sk_scope k = Global \<longrightarrow> sk_kind k = ''pricing''"
  using assms
  by (cases "sk_scope k";
      auto simp: well_placed_def loader_table_def selector_kind_def selected_table_def kind_tables_pricing
           split: if_splits)+

text \<open>The place of a well-placed key is taken exactly when the key serves.\<close>

lemma place_taken:
  assumes d: "distinct (map wp_scope ws)" and f: "keyed lib ws f" and r: "shows_rows lib ws rows f"
    and w: "well_placed ws key" and k: "resolve_key ws key = Inr k"
  shows "(\<exists>t. selected_table (selector_kind k) = Some t \<and> rows (t, sk_id k) \<noteq> None) \<longleftrightarrow> f key \<noteq> None"
proof
  assume "\<exists>t. selected_table (selector_kind k) = Some t \<and> rows (t, sk_id k) \<noteq> None"
  then obtain t x where t: "selected_table (selector_kind k) = Some t" "rows (t, sk_id k) = Some x" by blast
  from shows_rowsD [OF r t(2)] obtain key' e where e: "f key' = Some e" "row_of lib ws e = Some (t, x)"
    "re_id x = sk_id k" by blast
  have key': "rw_key e = key'" using f e(1) by (simp add: keyed_def)
  obtain j where j: "resolve_key ws (rw_key e) = Inr j" "loader_table (sk_scope j) (sk_kind j) = Some t"
    "re_id x = sk_id j" "sk_scope j = Global \<longrightarrow> sk_kind j = ''pricing''" by (rule row_of_key [OF e(2)])
  have "sk_scope j = sk_scope k \<and> sk_kind j = sk_kind k"
    by (rule loader_table_inject [OF j(2) loader_selected(1) [OF w k t(1)] j(4) loader_selected(2) [OF w k t(1)]])
  with e(3) j(3) have "j = k" by (cases j; cases k) simp
  with j(1) k have "rw_key e = key" using resolve_inject [OF d] by simp
  with key' e(1) show "f key \<noteq> None" by simp
next
  assume "f key \<noteq> None"
  then obtain e where e: "f key = Some e" by blast
  with f have key: "rw_key e = key" and "loads lib ws e" by (auto simp: keyed_def)
  then obtain t x where x: "row_of lib ws e = Some (t, x)" by (auto simp: loads_def)
  obtain j where j: "resolve_key ws (rw_key e) = Inr j" "loader_table (sk_scope j) (sk_kind j) = Some t"
    "re_id x = sk_id j" "sk_scope j = Global \<longrightarrow> sk_kind j = ''pricing''" by (rule row_of_key [OF x])
  with key k have "j = k" by simp
  with j(2-4) selected_loader [of k t] have "selected_table (selector_kind k) = Some t" "re_id x = sk_id k" by auto
  moreover have "rows (t, sk_id k) = Some x"
    using r e x \<open>re_id x = sk_id k\<close> by (auto simp: shows_rows_def)
  ultimately show "\<exists>t. selected_table (selector_kind k) = Some t \<and> rows (t, sk_id k) \<noteq> None" by auto
qed

lemma shows_delete:
  assumes d: "distinct (map wp_scope ws)" and f: "keyed lib ws f" and r: "shows_rows lib ws rows f"
    and w: "well_placed ws key" and k: "resolve_key ws key = Inr k"
  shows "shows_rows lib ws (unplace (selector_kind k) (sk_id k) rows) (f(key := None))"
  unfolding shows_rows_def
proof (intro allI)
  fix t i x
  have here: "selected_table (selector_kind k) = Some t \<and> i = sk_id k"
    if a: "f key = Some e" "row_of lib ws e = Some (t, x)" "re_id x = i" for e
  proof -
    obtain j where j: "resolve_key ws (rw_key e) = Inr j" "loader_table (sk_scope j) (sk_kind j) = Some t"
      "re_id x = sk_id j" "sk_scope j = Global \<longrightarrow> sk_kind j = ''pricing''" by (rule row_of_key [OF a(2)])
    with f a(1) k have "j = k" by (auto simp: keyed_def)
    with j selected_loader [of k t] a(3) show ?thesis by auto
  qed
  have there: "key' = key"
    if a: "selected_table (selector_kind k) = Some t" "f key' = Some e" "row_of lib ws e = Some (t, x)"
      "re_id x = sk_id k" for key' e
  proof -
    obtain j where j: "resolve_key ws (rw_key e) = Inr j" "loader_table (sk_scope j) (sk_kind j) = Some t"
      "re_id x = sk_id j" "sk_scope j = Global \<longrightarrow> sk_kind j = ''pricing''" by (rule row_of_key [OF a(3)])
    have "sk_scope j = sk_scope k \<and> sk_kind j = sk_kind k"
      by (rule loader_table_inject [OF j(2) loader_selected(1) [OF w k a(1)] j(4) loader_selected(2) [OF w k a(1)]])
    with a(4) j(3) have "j = k" by (cases j; cases k) simp
    with j(1) k have "rw_key e = key" using resolve_inject [OF d] by simp
    with f a(2) show ?thesis by (simp add: keyed_def)
  qed
  have "(\<exists>a e. (f(key := None)) a = Some e \<and> row_of lib ws e = Some (t, x) \<and> re_id x = i) \<longleftrightarrow>
      (\<exists>a e. f a = Some e \<and> row_of lib ws e = Some (t, x) \<and> re_id x = i) \<and>
      \<not> (selected_table (selector_kind k) = Some t \<and> i = sk_id k)"
    using here there by (auto split: if_splits) (metis)+
  then show "unplace (selector_kind k) (sk_id k) rows (t, i) = Some x \<longleftrightarrow>
    (\<exists>a e. (f(key := None)) a = Some e \<and> row_of lib ws e = Some (t, x) \<and> re_id x = i)"
    using r by (auto simp: unplace_def shows_rows_def split: option.split)
qed

end
