(* ===== verification/Supervisor_Refines.thy ===== *)
theory Supervisor_Refines
  imports Supervisor_Serving
begin

text \<open>
  The supervisor refines the specification of last good values: each event of a batch, each batch, each
  resync and each run of them changes what is served as the specification says.
\<close>

section \<open>Frames\<close>

lemma push_rejection_frame [simp]:
  "sv_state (push_rejection r s) = sv_state s" "sv_stale (push_rejection r s) = sv_stale s"
  "sv_snapshot (push_rejection r s) = sv_snapshot s" "sv_revision (push_rejection r s) = sv_revision s"
  by (simp_all add: push_rejection_def Let_def)

lemma push_rejections_frame [simp]:
  "sv_state (foldl (\<lambda>s r. push_rejection r s) s rs) = sv_state s"
  "sv_stale (foldl (\<lambda>s r. push_rejection r s) s rs) = sv_stale s"
  "sv_snapshot (foldl (\<lambda>s r. push_rejection r s) s rs) = sv_snapshot s"
  "sv_revision (foldl (\<lambda>s r. push_rejection r s) s rs) = sv_revision s"
  by (induction rs arbitrary: s) simp_all

lemma remove_rejection_frame [simp]:
  "sv_state (fst (remove_rejection_for_key k s)) = sv_state s"
  "sv_stale (fst (remove_rejection_for_key k s)) = sv_stale s"
  "sv_snapshot (fst (remove_rejection_for_key k s)) = sv_snapshot s"
  "sv_revision (fst (remove_rejection_for_key k s)) = sv_revision s"
  by (simp_all add: remove_rejection_for_key_def Let_def)

lemma update_partial_frame [simp]:
  "sv_state (update_partial_row k r s) = sv_state s" "sv_stale (update_partial_row k r s) = sv_stale s"
  "sv_snapshot (update_partial_row k r s) = sv_snapshot s"
  "sv_revision (update_partial_row k r s) = sv_revision s"
  by (simp_all add: update_partial_row_def split: option.split)

lemma store_observed_frame [simp]:
  "ents (sv_state (store_observed lib e s)) = (ents (sv_state s))(rw_key e \<mapsto> e)"
  "sv_stale (store_observed lib e s) = sv_stale s" "sv_snapshot (store_observed lib e s) = sv_snapshot s"
  by (simp_all add: store_observed_def)

lemma capture_frame [simp]:
  "sv_state (capture_last_good ws now base v key s) = sv_state s"
  "sv_snapshot (capture_last_good ws now base v key s) = sv_snapshot s"
  by (simp_all add: capture_last_good_def split: sum.split option.split)

lemma raise_frame [simp]:
  "sv_state (fst (raise_revision_floor r acc)) = sv_state (fst acc)"
  "sv_stale (fst (raise_revision_floor r acc)) = sv_stale (fst acc)"
  "sv_snapshot (fst (raise_revision_floor r acc)) = sv_snapshot (fst acc)"
  "sg_mutations (snd (raise_revision_floor r acc)) = sg_mutations (snd acc)"
  "sg_view (snd (raise_revision_floor r acc)) = sg_view (snd acc)"
  by (simp_all add: raise_revision_floor_def split: option.split)

lemma sync_frame [simp]:
  "ents (sv_state (sync_config_status lib ws utc b s)) = ents (sv_state s)"
  "sv_stale (sync_config_status lib ws utc b s) = sv_stale s"
  "sv_snapshot (sync_config_status lib ws utc b s) = sv_snapshot s"
  "sv_revision (sync_config_status lib ws utc b s) = sv_revision s"
  "sv_rejections (sync_config_status lib ws utc b s) = sv_rejections s"
  "sv_rejected_keys (sync_config_status lib ws utc b s) = sv_rejected_keys s"
  by (simp_all add: sync_config_status_def Let_def case_prod_beta)

lemma flush_frame [simp]:
  "sv_state (flush_cache ctx s) = sv_state s" "sv_stale (flush_cache ctx s) = sv_stale s"
  "sv_snapshot (flush_cache ctx s) = sv_snapshot s" "sv_revision (flush_cache ctx s) = sv_revision s"
  "sv_rejections (flush_cache ctx s) = sv_rejections s"
  "sv_rejected_keys (flush_cache ctx s) = sv_rejected_keys s"
  by (simp_all add: flush_cache_def)

lemma serving_cong:
  "ents (sv_state s) = ents (sv_state s') \<Longrightarrow> sv_stale s = sv_stale s' \<Longrightarrow> serving lib ws s = serving lib ws s'"
  by (rule ext) (simp add: serving_def split: option.split)

section \<open>Invariant\<close>

definition book_ok :: "('j, 'd) loader_lib \<Rightarrow> watched_prefix list \<Rightarrow> 'd supervisor \<Rightarrow> bool" where
  "book_ok lib ws s \<longleftrightarrow> finite (dom (ents (sv_state s))) \<and>
     (\<forall>k e. ents (sv_state s) k = Some e \<longrightarrow> rw_key e = k \<and> well_placed ws k) \<and>
     (\<forall>k p. sv_stale s k = Some p \<longrightarrow> rw_key (ss_entry p) = k \<and> loads lib ws (ss_entry p) \<and>
        (\<exists>e. ents (sv_state s) k = Some e \<and> \<not> loads lib ws e))"

definition view_ok :: "'d snap \<Rightarrow> 'd staging \<Rightarrow> bool" where
  "view_ok base sg \<longleftrightarrow> (\<forall>kind i. view_present (sg_view sg) base kind i \<longleftrightarrow>
     (\<exists>t. selected_table kind = Some t \<and> staged_rows base (sg_mutations sg) (t, i) \<noteq> None))"

definition staged_ok ::
    "('j, 'd) loader_lib \<Rightarrow> watched_prefix list \<Rightarrow> 'd snap \<Rightarrow> 'd supervisor \<times> 'd staging \<Rightarrow> bool" where
  "staged_ok lib ws base acc \<longleftrightarrow> book_ok lib ws (fst acc) \<and> merges_ok lib (sg_mutations (snd acc)) \<and>
     shows_rows lib ws (staged_rows base (sg_mutations (snd acc))) (serving lib ws (fst acc)) \<and>
     view_ok base (snd acc)"

definition sup_ok :: "('j, 'd) loader_lib \<Rightarrow> watched_prefix list \<Rightarrow> 'd supervisor \<Rightarrow> bool" where
  "sup_ok lib ws s \<longleftrightarrow> book_ok lib ws s \<and> snap_ok lib (sv_snapshot s) \<and>
     shows_rows lib ws (snap_rows (sv_snapshot s)) (serving lib ws s)"

lemma book_keyed: "book_ok lib ws s \<Longrightarrow> keyed lib ws (serving lib ws s)"
  by (auto simp: book_ok_def keyed_def serving_def split: option.splits if_splits)

lemma selected_inject:
  "selected_table a = Some t \<Longrightarrow> selected_table b = Some t \<Longrightarrow> a = b"
  using kind_tables_inject [of a t b] kind_tables_range [of a t] kind_tables_range [of b t]
  by (auto simp: selected_table_def split: if_splits)

section \<open>One event\<close>

lemma stage_put_rejected:
  assumes d: "distinct (map wp_scope ws)" and ok: "staged_ok lib ws base (s, sg)"
    and w: "well_placed ws (rw_key e)" and no: "\<not> loads lib ws e"
    and st: "stage_put lib ws ctx n base e (s, sg) = ((s', sg'), out)"
  shows "staged_ok lib ws base (s', sg') \<and> serving lib ws s' = serving lib ws s \<and> \<not> out"
proof -
  obtain ctr tiny stats where b: "build_snapshot lib ws (ac_now ctx (2 * n)) (sv_ctr s) [e] = ((ctr, tiny), stats)"
    by (metis surj_pair)
  have acc: "bs_accepted stats = 0" using build_facts(4) [OF b] no by simp
  let ?key = "rw_key e"
  let ?s1 = "capture_last_good ws (ac_now ctx (2 * n + 1) 0) base (sg_view sg) ?key (s\<lparr>sv_ctr := ctr\<rparr>)"
  have out: "\<not> out" and f: "ents (sv_state s') = (ents (sv_state s))(?key \<mapsto> e)" "sv_stale s' = sv_stale ?s1"
    "sg_mutations sg' = sg_mutations sg" "sg_view sg' = sg_view sg"
    using st acc by (auto simp: stage_put_def b Let_def)
  from ok have book: "book_ok lib ws s" and rows: "shows_rows lib ws (staged_rows base (sg_mutations sg)) (serving lib ws s)"
    and view: "view_ok base sg" by (auto simp: staged_ok_def)
  have present: "view_present (sg_view sg) base (selector_kind k) (sk_id k) \<longleftrightarrow> serving lib ws s ?key \<noteq> None"
    if "resolve_key ws ?key = Inr k" for k
    using view place_taken [OF d book_keyed [OF book] rows w that] by (simp add: view_ok_def)
  have unresolved: "serving lib ws s ?key = None" if "resolve_key ws ?key = Inl err" for err
  proof (rule ccontr)
    assume "serving lib ws s ?key \<noteq> None"
    with book_keyed [OF book] obtain g where "rw_key g = ?key" "loads lib ws g" by (auto simp: keyed_def)
    with that show False by (auto simp: loads_def row_of_def)
  qed
  have stale: "sv_stale s' = (case sv_stale s ?key of Some p \<Rightarrow> sv_stale s
      | None \<Rightarrow> (case serving lib ws s ?key of None \<Rightarrow> sv_stale s
          | Some g \<Rightarrow> (sv_stale s)(?key \<mapsto> \<lparr>ss_entry = g, ss_since = ac_now ctx (2 * n + 1) 0\<rparr>)))"
  proof (cases "sv_stale s ?key")
    case (Some p)
    then show ?thesis by (simp add: f(2) capture_last_good_def)
  next
    case None
    show ?thesis
    proof (cases "resolve_key ws ?key")
      case (Inl err)
      with None unresolved [OF Inl] show ?thesis by (simp add: f(2) capture_last_good_def)
    next
      case (Inr k)
      show ?thesis
      proof (cases "serving lib ws s ?key")
        case None
        with \<open>sv_stale s ?key = None\<close> Inr present [OF Inr] show ?thesis by (simp add: f(2) capture_last_good_def)
      next
        case (Some g)
        with \<open>sv_stale s ?key = None\<close> have "ents (sv_state s) ?key = Some g"
          by (auto simp: serving_def split: option.splits if_splits)
        with Some \<open>sv_stale s ?key = None\<close> Inr present [OF Inr] show ?thesis
          by (auto simp: f(2) capture_last_good_def ents_def split: option.split)
      qed
    qed
  qed
  have serv: "serving lib ws s' = serving lib ws s"
  proof (rule ext)
    fix k
    show "serving lib ws s' k = serving lib ws s k"
    proof (cases "k = ?key")
      case True
      show ?thesis
      proof (cases "sv_stale s ?key")
        case None
        then show ?thesis using no True
          by (cases "serving lib ws s ?key") (simp_all add: serving_def [of lib ws s'] stale f(1))
      qed (simp add: serving_def stale True)
    next
      case False
      then show ?thesis by (simp add: serving_def stale f(1) split: option.split)
    qed
  qed
  have "loads lib ws g \<and> rw_key g = ?key" if "serving lib ws s ?key = Some g" for g
    using book_keyed [OF book] that by (auto simp: keyed_def)
  moreover have pins: "sv_stale s k = Some p \<or> k = ?key \<and> serving lib ws s ?key = Some (ss_entry p)"
    if "sv_stale s' k = Some p" for k p
    using that by (auto simp: stale split: option.splits if_splits)
  ultimately have pinned: "rw_key (ss_entry p) = k \<and> loads lib ws (ss_entry p) \<and>
      (\<exists>e. ents (sv_state s') k = Some e \<and> \<not> loads lib ws e)" if "sv_stale s' k = Some p" for k p
    using pins [OF that] book no unfolding book_ok_def f(1) by (cases "k = ?key") auto
  have "book_ok lib ws s'" using book pinned w by (auto simp: book_ok_def f(1))
  moreover have "view_ok base sg'" using view by (simp add: view_ok_def f)
  ultimately show ?thesis using ok serv out by (simp add: staged_ok_def f)
qed

lemma stage_put_accepted:
  assumes d: "distinct (map wp_scope ws)" and c: "walks (ac_walk ctx)" and ok: "staged_ok lib ws base (s, sg)"
    and w: "well_placed ws (rw_key e)" and yes: "loads lib ws e" and st: "stage_put lib ws ctx n base e (s, sg) = ((s', sg'), out)"
  shows "staged_ok lib ws base (s', sg') \<and> serving lib ws s' = (serving lib ws s)(rw_key e \<mapsto> e) \<and> out"
proof -
  obtain ctr tiny stats where b: "build_snapshot lib ws (ac_now ctx (2 * n)) (sv_ctr s) [e] = ((ctr, tiny), stats)"
    by (metis surj_pair)
  note bf = build_facts [OF b]
  have acc: "bs_accepted stats \<noteq> 0" using bf(4) yes by simp
  obtain t x where x: "row_of lib ws e = Some (t, x)" using yes by (auto simp: loads_def)
  have tiny: "snap_rows tiny = [(t, re_id x) \<mapsto> x]" using bf(1) x by (simp add: placed_def place_row_def)
  obtain ctr' ms where m: "stage_merge lib (ac_walk ctx) ctr tiny (sg_mutations sg) = (ctr', ms)" by fastforce
  have out: out and f: "ents (sv_state s') = (ents (sv_state s))(rw_key e \<mapsto> e)"
    "sv_stale s' = (sv_stale s)(rw_key e := None)" "sg_mutations sg' = ms"
    "sg_view sg' = record_put ws (rw_key e) (sg_view sg)"
    using st acc m by (auto simp: stage_put_def b Let_def)
  from ok have book: "book_ok lib ws s" and rows: "shows_rows lib ws (staged_rows base (sg_mutations sg)) (serving lib ws s)"
    and view: "view_ok base sg" and ms: "merges_ok lib (sg_mutations sg)" by (auto simp: staged_ok_def)
  have "snap_ok lib tiny" using bf(2) by simp
  from stage_merge_facts [OF m c ms this]
  have ms': "staged_rows base ms = (staged_rows base (sg_mutations sg))((t, re_id x) \<mapsto> x)" "merges_ok lib ms"
    by (auto simp: tiny fun_eq_iff map_add_def)
  have serv: "serving lib ws s' = (serving lib ws s)(rw_key e \<mapsto> e)"
    using yes by (auto simp: serving_def f(1,2) fun_eq_iff split: option.split)
  have "book_ok lib ws s'" using book w by (auto simp: book_ok_def f(1,2))
  moreover have "shows_rows lib ws (staged_rows base ms) (serving lib ws s')"
    unfolding ms' serv by (rule shows_put [OF d book_keyed [OF book] rows x])
  moreover have "view_ok base sg'"
  proof -
    obtain k where k: "resolve_key ws (rw_key e) = Inr k" "loader_table (sk_scope k) (sk_kind k) = Some t"
      "re_id x = sk_id k" "sk_scope k = Global \<longrightarrow> sk_kind k = ''pricing''" by (rule row_of_key [OF x])
    from selected_loader [OF k(4,2)] have sel: "selected_table (selector_kind k) = Some t" .
    have v: "view_present (record_put ws (rw_key e) v) base kind i \<longleftrightarrow>
        (kind, i) = (selector_kind k, sk_id k) \<or> view_present v base kind i" for kind i v
      by (auto simp: view_present_def record_put_def k(1) Let_def)
    show ?thesis
      unfolding view_ok_def f v ms'
    proof (intro allI)
      fix kind i
      show "((kind, i) = (selector_kind k, sk_id k) \<or> view_present (sg_view sg) base kind i) \<longleftrightarrow>
        (\<exists>u. selected_table kind = Some u \<and>
             ((staged_rows base (sg_mutations sg))((t, re_id x) \<mapsto> x)) (u, i) \<noteq> None)"
      proof (cases "(kind, i) = (selector_kind k, sk_id k)")
        case True
        with sel k(3) show ?thesis by simp
      next
        case False
        then have "(u, i) \<noteq> (t, re_id x)" if "selected_table kind = Some u" for u
          using selected_inject [OF _ sel] that k(3) by auto
        then have "(\<exists>u. selected_table kind = Some u \<and>
             ((staged_rows base (sg_mutations sg))((t, re_id x) \<mapsto> x)) (u, i) \<noteq> None) \<longleftrightarrow>
           (\<exists>u. selected_table kind = Some u \<and> staged_rows base (sg_mutations sg) (u, i) \<noteq> None)"
          by (metis fun_upd_other)
        with False view show ?thesis by (auto simp: view_ok_def)
      qed
    qed
  qed
  ultimately show ?thesis using ms'(2) serv out by (simp add: staged_ok_def f(3))
qed

lemma stage_delete_ok:
  assumes d: "distinct (map wp_scope ws)" and ok: "staged_ok lib ws base (s, sg)" and w: "well_placed ws key"
    and st: "stage_delete ws key revision base (s, sg) = ((s', sg'), out)"
  shows "staged_ok lib ws base (s', sg') \<and> serving lib ws s' = (serving lib ws s)(key := None)"
proof -
  from ok have book: "book_ok lib ws s" and rows: "shows_rows lib ws (staged_rows base (sg_mutations sg)) (serving lib ws s)"
    and view: "view_ok base sg" and ms: "merges_ok lib (sg_mutations sg)" by (auto simp: staged_ok_def)
  show ?thesis
  proof (cases "resolve_key ws key")
    case (Inl err)
    have none: "serving lib ws s key = None"
    proof (rule ccontr)
      assume "serving lib ws s key \<noteq> None"
      with book_keyed [OF book] obtain g where "rw_key g = key" "loads lib ws g" by (auto simp: keyed_def)
      with Inl show False by (auto simp: loads_def row_of_def)
    qed
    obtain s1 sg1 where r: "raise_revision_floor revision (s, sg) = (s1, sg1)" by fastforce
    have f: "sv_state s1 = sv_state s" "sv_stale s1 = sv_stale s" "sg_mutations sg1 = sg_mutations sg"
      "sg_view sg1 = sg_view sg"
      using raise_frame [of revision "(s, sg)"] by (simp_all add: r)
    have "s' = s1" "sg' = sg1" using st Inl r by (auto simp: stage_delete_def)
    moreover have "serving lib ws s1 = serving lib ws s" by (rule serving_cong) (simp_all add: f)
    moreover have "(serving lib ws s)(key := None) = serving lib ws s" using none by (rule fun_upd_idem)
    ultimately show ?thesis using ok by (simp add: staged_ok_def book_ok_def view_ok_def f)
  next
    case (Inr k)
    let ?p = "view_present (sg_view sg) base (selector_kind k) (sk_id k)"
    have present: "?p \<longleftrightarrow> serving lib ws s key \<noteq> None"
      using view place_taken [OF d book_keyed [OF book] rows w Inr] by (simp add: view_ok_def)
    have f: "ents (sv_state s') = (ents (sv_state s))(key := None)" "sv_stale s' = (sv_stale s)(key := None)"
      "sg_mutations sg' = (if ?p then sg_mutations sg @ [RemoveRow (selector_kind k) (sk_id k)] else sg_mutations sg)"
      "sg_view sg' = (if ?p then record_delete (selector_kind k) (sk_id k) (sg_view sg) else sg_view sg)"
    proof -
      have e: "s' = fst (fst (stage_delete ws key revision base (s, sg)))"
        "sg' = snd (fst (stage_delete ws key revision base (s, sg)))" using st by simp_all
      show "ents (sv_state s') = (ents (sv_state s))(key := None)" "sv_stale s' = (sv_stale s)(key := None)"
        "sg_mutations sg' = (if ?p then sg_mutations sg @ [RemoveRow (selector_kind k) (sk_id k)] else sg_mutations sg)"
        "sg_view sg' = (if ?p then record_delete (selector_kind k) (sk_id k) (sg_view sg) else sg_view sg)"
        unfolding e by (simp_all add: stage_delete_def Inr Let_def case_prod_beta)
    qed
    have serv: "serving lib ws s' = (serving lib ws s)(key := None)"
      by (auto simp: serving_def f(1,2) fun_eq_iff split: option.split)
    have book': "book_ok lib ws s'" using book by (auto simp: book_ok_def f(1,2))
    show ?thesis
    proof (cases ?p)
      case True
      have "staged_rows base (sg_mutations sg') = unplace (selector_kind k) (sk_id k) (staged_rows base (sg_mutations sg))"
        using True by (simp add: f(3) staged_rows_def)
      moreover have "shows_rows lib ws (unplace (selector_kind k) (sk_id k) (staged_rows base (sg_mutations sg)))
          ((serving lib ws s)(key := None))"
        by (rule shows_delete [OF d book_keyed [OF book] rows w Inr])
      moreover have "merges_ok lib (sg_mutations sg')" using ms by (auto simp: f(3) merges_ok_def)
      moreover have "view_ok base sg'"
        unfolding view_ok_def
      proof (intro allI)
        fix kind i
        from True view obtain t where t: "selected_table (selector_kind k) = Some t"
          by (auto simp: view_ok_def)
        have v: "view_present (sg_view sg') base kind i \<longleftrightarrow>
            (kind, i) \<noteq> (selector_kind k, sk_id k) \<and> view_present (sg_view sg) base kind i"
        proof -
          have "sg_view sg' = record_delete (selector_kind k) (sk_id k) (sg_view sg)" using True by (simp add: f(4))
          then show ?thesis by (simp add: view_present_def record_delete_def)
        qed
        have r: "staged_rows base (sg_mutations sg') =
            (staged_rows base (sg_mutations sg))((t, sk_id k) := None)"
          using True t by (simp add: f(3) staged_rows_def unplace_def)
        have other: "(u, i) \<noteq> (t, sk_id k)"
          if "selected_table kind = Some u" "(kind, i) \<noteq> (selector_kind k, sk_id k)" for u
          using that selected_inject [OF _ t] by auto
        show "view_present (sg_view sg') base kind i \<longleftrightarrow>
          (\<exists>u. selected_table kind = Some u \<and> staged_rows base (sg_mutations sg') (u, i) \<noteq> None)"
        proof (cases "(kind, i) = (selector_kind k, sk_id k)")
          case True
          with t v show ?thesis by (auto simp: r)
        next
          case False
          then have "(\<exists>u. selected_table kind = Some u \<and> staged_rows base (sg_mutations sg') (u, i) \<noteq> None) \<longleftrightarrow>
              (\<exists>u. selected_table kind = Some u \<and> staged_rows base (sg_mutations sg) (u, i) \<noteq> None)"
            unfolding r using other by (metis fun_upd_other)
          with False view v show ?thesis by (auto simp: view_ok_def)
        qed
      qed
      ultimately show ?thesis using book' serv by (simp add: staged_ok_def)
    next
      case False
      with present have "(serving lib ws s)(key := None) = serving lib ws s" by (simp add: fun_upd_idem)
      moreover from False have "sg_mutations sg' = sg_mutations sg" "sg_view sg' = sg_view sg"
        by (simp_all only: f if_False)
      ultimately show ?thesis using ms rows view book' serv by (simp add: staged_ok_def view_ok_def)
    qed
  qed
qed

section \<open>Batches\<close>

fun event_key :: "pending_event \<Rightarrow> string" where
  "event_key (Put e) = rw_key e"
| "event_key (Delete key revision) = key"

lemma stage_event_ok:
  assumes "distinct (map wp_scope ws)" and "walks (ac_walk ctx)" and "staged_ok lib ws base acc"
    and "well_placed ws (event_key ev)" and "stage_event lib ws ctx n base acc ev = (acc', out)"
  shows "staged_ok lib ws base acc' \<and> serving lib ws (fst acc') = good_event lib ws (serving lib ws (fst acc)) ev"
proof -
  obtain s sg s' sg' where a: "acc = (s, sg)" "acc' = (s', sg')" by fastforce
  show ?thesis
  proof (cases ev)
    case (Put e)
    then show ?thesis using assms
        stage_put_rejected [OF assms(1), of lib base s sg e ctx n s' sg' out]
        stage_put_accepted [OF assms(1,2), of lib base s sg e n s' sg' out]
      by (cases "loads lib ws e") (simp_all add: a)
  next
    case (Delete key revision)
    then show ?thesis using assms stage_delete_ok [OF assms(1), of lib base s sg key revision s' sg' out]
      by (simp add: a)
  qed
qed

lemma stage_events_ok:
  assumes "distinct (map wp_scope ws)" and "walks (ac_walk ctx)" and "staged_ok lib ws base acc"
    and "\<forall>ev \<in> set evs. well_placed ws (event_key ev)"
    and "stage_events lib ws ctx n base acc evs = (acc', outs)"
  shows "staged_ok lib ws base acc' \<and>
    serving lib ws (fst acc') = foldl (good_event lib ws) (serving lib ws (fst acc)) evs"
  using assms(3-)
proof (induction evs arbitrary: acc acc' outs n)
  case (Cons ev evs)
  obtain acc1 out where e: "stage_event lib ws ctx n base acc ev = (acc1, out)" by fastforce
  obtain acc2 outs2 where es: "stage_events lib ws ctx (n + 1) base acc1 evs = (acc2, outs2)" by fastforce
  have "acc' = acc2" using Cons.prems(3) e es by simp
  moreover from stage_event_ok [OF assms(1,2) Cons.prems(1) _ e] Cons.prems(2)
  have "staged_ok lib ws base acc1"
    "serving lib ws (fst acc1) = good_event lib ws (serving lib ws (fst acc)) ev" by simp_all
  ultimately show ?case using Cons.IH [OF _ _ es] Cons.prems(2) by simp
qed simp

lemma sup_ok_start: "sup_ok lib ws s \<Longrightarrow> staged_ok lib ws (sv_snapshot s) (s, staging_default)"
  by (auto simp: sup_ok_def staged_ok_def staging_default_def merges_ok_def staged_rows_def view_ok_def
                 view_present_def snapshot_has_rows)

lemma stage_event_snapshot:
  "stage_event lib ws ctx n base acc ev = (acc', out) \<Longrightarrow> sv_snapshot (fst acc') = sv_snapshot (fst acc)"
proof -
  assume e: "stage_event lib ws ctx n base acc ev = (acc', out)"
  obtain s sg where acc: "acc = (s, sg)" by fastforce
  have "acc' = fst (stage_event lib ws ctx n base (s, sg) ev)" using e acc by simp
  then show ?thesis
    by (cases ev)
      (simp_all add: acc stage_put_def stage_delete_def Let_def case_prod_beta split: sum.split)
qed

lemma stage_events_snapshot:
  "stage_events lib ws ctx n base acc evs = (acc', outs) \<Longrightarrow> sv_snapshot (fst acc') = sv_snapshot (fst acc)"
proof (induction evs arbitrary: acc acc' outs n)
  case (Cons ev evs)
  obtain acc1 out where e: "stage_event lib ws ctx n base acc ev = (acc1, out)" by fastforce
  obtain acc2 outs2 where es: "stage_events lib ws ctx (n + 1) base acc1 evs = (acc2, outs2)" by fastforce
  have "acc' = acc2" using Cons.prems e es by simp
  with Cons.IH [OF es] stage_event_snapshot [OF e] show ?case by simp
qed simp

lemma sup_ok_cong:
  assumes "sup_ok lib ws s" and "ents (sv_state s') = ents (sv_state s)" and "sv_stale s' = sv_stale s"
    and "sv_snapshot s' = sv_snapshot s"
  shows "sup_ok lib ws s'" "serving lib ws s' = serving lib ws s"
proof -
  show "serving lib ws s' = serving lib ws s" by (rule serving_cong) (simp_all add: assms)
  with assms show "sup_ok lib ws s'" by (simp add: sup_ok_def book_ok_def)
qed

lemma apply_events_ok:
  assumes d: "distinct (map wp_scope ws)" and c: "walks (ac_walk ctx)" and ok: "sup_ok lib ws s"
    and w: "\<forall>ev \<in> set evs. well_placed ws (event_key ev)"
  shows "sup_ok lib ws (fst (apply_events lib ws ctx evs s)) \<and>
    serving lib ws (fst (apply_events lib ws ctx evs s)) = foldl (good_event lib ws) (serving lib ws s) evs"
proof -
  obtain s1 sg outs where st: "stage_events lib ws ctx 0 (sv_snapshot s) (s, staging_default) evs = ((s1, sg), outs)"
    by (metis surj_pair)
  from stage_events_ok [OF d c sup_ok_start [OF ok] w st]
  have s1: "staged_ok lib ws (sv_snapshot s) (s1, sg)"
    "serving lib ws s1 = foldl (good_event lib ws) (serving lib ws s) evs" by simp_all
  have snap: "sv_snapshot s1 = sv_snapshot s" using stage_events_snapshot [OF st] by simp
  have sok: "snap_ok lib (sv_snapshot s)" using ok by (simp add: sup_ok_def)
  let ?out = "foldl (apply_to lib (ac_walk ctx)) (sv_ctr s1, clone_snapshot (sv_snapshot s)) (sg_mutations sg)"
  have m: "snap_rows (snd ?out) = staged_rows (sv_snapshot s) (sg_mutations sg)" "snap_ok lib (snd ?out)"
    using mutations_rows [OF c, of lib "sg_mutations sg" "(sv_ctr s1, clone_snapshot (sv_snapshot s))"] s1(1) sok
    by (simp_all add: staged_ok_def clone_snapshot_id staged_rows_def)
  let ?s2 = "if sg_mutations sg = [] then s1 else s1\<lparr>sv_ctr := fst ?out, sv_snapshot := snd ?out\<rparr>"
  have s2: "sup_ok lib ws ?s2 \<and> serving lib ws ?s2 = serving lib ws s1"
  proof (cases "sg_mutations sg = []")
    case True
    with s1(1) sok snap show ?thesis by (simp add: sup_ok_def staged_ok_def staged_rows_def)
  next
    case False
    have "serving lib ws ?s2 = serving lib ws s1" by (rule serving_cong) simp_all
    with False s1(1) m show ?thesis by (simp add: sup_ok_def staged_ok_def book_ok_def)
  qed
  let ?s = "fst (apply_events lib ws ctx evs s)"
  have "ents (sv_state ?s) = ents (sv_state ?s2)" "sv_stale ?s = sv_stale ?s2" "sv_snapshot ?s = sv_snapshot ?s2"
    by (simp_all add: apply_events_def st Let_def case_prod_beta split: option.split)
  from sup_ok_cong [OF conjunct1 [OF s2] this] s2 s1(2) show ?thesis by simp
qed

section \<open>Resync\<close>

lemma set_rejections_frame [simp]:
  "sv_state (set_rejections rs s) = sv_state s" "sv_stale (set_rejections rs s) = sv_stale s"
  "sv_snapshot (set_rejections rs s) = sv_snapshot s" "sv_revision (set_rejections rs s) = sv_revision s"
  by (simp_all add: set_rejections_def)

lemma set_partial_frame [simp]:
  "sv_state (set_partial_rows rs s) = sv_state s" "sv_stale (set_partial_rows rs s) = sv_stale s"
  "sv_snapshot (set_partial_rows rs s) = sv_snapshot s" "sv_revision (set_partial_rows rs s) = sv_revision s"
  "sv_rejections (set_partial_rows rs s) = sv_rejections s"
  "sv_rejected_keys (set_partial_rows rs s) = sv_rejected_keys s"
  by (simp_all add: set_partial_rows_def)

lemma ents_removes: "ents (foldl (\<lambda>os k. fst (observed_remove k os)) os ks) k = (if k \<in> set ks then None else ents os k)"
  by (induction ks rule: rev_induct) auto

lemma ents_inserts:
  "ents (foldl (\<lambda>os e. observed_insert lib e os) os es) = ents os ++ map_of (rev (map (\<lambda>e. (rw_key e, e)) es))"
  by (induction es rule: rev_induct) (simp_all add: fun_eq_iff map_add_def)

lemma map_of_rev: "distinct (map fst xs) \<Longrightarrow> map_of (rev xs) k = map_of xs k"
  by (rule option_ext) (simp add: map_of_eq_Some_iff rev_map [symmetric])

lemma entry_map_rev:
  "distinct (map rw_key entries) \<Longrightarrow> map_of (rev (map (\<lambda>e. (rw_key e, e)) entries)) = entry_map entries"
  by (rule ext) (simp add: entry_map_def map_of_rev comp_def)

lemma entry_map_Some:
  "distinct (map rw_key entries) \<Longrightarrow> entry_map entries k = Some e \<longleftrightarrow> e \<in> set entries \<and> rw_key e = k"
  by (auto simp: entry_map_def map_of_eq_Some_iff comp_def)

lemma entry_map_None: "entry_map entries k = None \<longleftrightarrow> k \<notin> rw_key ` set entries"
  by (simp add: entry_map_def map_of_eq_None_iff image_image)

lemma reconcile_ents:
  assumes "finite (dom (ents os))" and "distinct (map rw_key entries)"
  shows "ents (reconcile_state lib entries os) = entry_map entries"
proof -
  have "dom (os_entries os) = dom (ents os)" by (auto simp: ents_def)
  with assms(1) have "set (keys_asc (os_entries os)) = dom (ents os)" by (simp add: keys_asc_def)
  then show ?thesis
    by (auto simp: reconcile_state_def Let_def ents_inserts entry_map_rev [OF assms(2)] ents_removes fun_eq_iff
                   map_add_def domIff split: option.split)
      (auto simp: entry_map_None)
qed

lemma pin_rejected_entries:
  "map_option ss_entry (pin_rejected ws now prev prev_state n rs stale k) =
     (case stale k of
        Some p \<Rightarrow> Some (ss_entry p)
      | None \<Rightarrow> if k \<in> set (map rj_key rs) \<and>
                   (\<exists>j. resolve_key ws k = Inr j \<and> snapshot_has prev (selector_kind j) (sk_id j))
                then prev_state k else None)"
proof (induction rs arbitrary: n stale)
  case (Cons r rs)
  let ?P = "\<exists>j. resolve_key ws k = Inr j \<and> snapshot_has prev (selector_kind j) (sk_id j)"
  define m where "m = (if stale (rj_key r) \<noteq> None then stale
        else case resolve_key ws (rj_key r) of Inl _ \<Rightarrow> stale
             | Inr k \<Rightarrow> if \<not> snapshot_has prev (selector_kind k) (sk_id k) then stale
                 else (case prev_state (rj_key r) of None \<Rightarrow> stale
                       | Some good \<Rightarrow> stale(rj_key r \<mapsto> \<lparr>ss_entry = good, ss_since = now n\<rparr>)))"
  have step: "map_option ss_entry (m k) =
      (case stale k of Some p \<Rightarrow> Some (ss_entry p) | None \<Rightarrow> if k = rj_key r \<and> ?P then prev_state k else None)"
    unfolding m_def by (cases "k = rj_key r") (auto split: sum.split option.split)
  have "pin_rejected ws now prev prev_state n (r # rs) stale = pin_rejected ws now prev prev_state (n + 1) rs m"
    by (simp add: m_def)
  then have "map_option ss_entry (pin_rejected ws now prev prev_state n (r # rs) stale k) =
      (case m k of Some p \<Rightarrow> Some (ss_entry p)
       | None \<Rightarrow> if k \<in> set (map rj_key rs) \<and> ?P then prev_state k else None)"
    by (simp only: Cons.IH)
  with step show ?case by (cases "m k"; cases "stale k") (auto split: if_splits)
qed (simp split: option.split)

lemma pin_rejected_dom: "dom (pin_rejected ws now prev prev_state n rs stale) \<subseteq> dom stale \<union> set (map rj_key rs)"
proof
  fix k
  assume "k \<in> dom (pin_rejected ws now prev prev_state n rs stale)"
  then have "map_option ss_entry (pin_rejected ws now prev prev_state n rs stale k) \<noteq> None" by auto
  then show "k \<in> dom stale \<union> set (map rj_key rs)"
    unfolding pin_rejected_entries by (auto split: option.splits if_splits)
qed

lemma shows_union:
  assumes d: "distinct (map wp_scope ws)" and "keyed lib ws f" and "keyed lib ws g"
    and "shows_rows lib ws rows f" and "shows_rows lib ws rows' g" and "\<And>k. f k = None \<or> g k = None"
  shows "shows_rows lib ws (rows ++ rows') (f ++ g)"
  unfolding shows_rows_def
proof (intro allI)
  fix t i r
  have sep: "\<not> (rows (t, i) = Some a \<and> rows' (t, i) = Some b)" for a b
  proof
    assume "rows (t, i) = Some a \<and> rows' (t, i) = Some b"
    with assms(4,5) obtain k e k' e' where e: "f k = Some e" "row_of lib ws e = Some (t, a)" "re_id a = i"
      "g k' = Some e'" "row_of lib ws e' = Some (t, b)" "re_id b = i"
      by (meson shows_rowsD)
    then have "rw_key e = rw_key e'" using row_of_inject [OF d e(2,5)] by simp
    with e assms(2,3) have "k = k'" by (auto simp: keyed_def)
    with e assms(6) [of k] show False by simp
  qed
  have m: "(f ++ g) k = Some e \<longleftrightarrow> f k = Some e \<or> g k = Some e" for k e
    using assms(6) [of k] by (auto simp: map_add_def split: option.split)
  have "(rows ++ rows') (t, i) = Some r \<longleftrightarrow> rows (t, i) = Some r \<or> rows' (t, i) = Some r"
    using sep by (auto simp: map_add_def split: option.split)
  also have "\<dots> \<longleftrightarrow> (\<exists>k e. (f ++ g) k = Some e \<and> row_of lib ws e = Some (t, r) \<and> re_id r = i)"
    using assms(4,5) unfolding shows_rows_def m by blast
  finally show "(rows ++ rows') (t, i) = Some r \<longleftrightarrow>
      (\<exists>k e. (f ++ g) k = Some e \<and> row_of lib ws e = Some (t, r) \<and> re_id r = i)" .
qed

definition loading :: "('j, 'd) loader_lib \<Rightarrow> watched_prefix list \<Rightarrow> raw_entry list \<Rightarrow> serving_map" where
  "loading lib ws entries k =
     (case entry_map entries k of Some e \<Rightarrow> if loads lib ws e then Some e else None | None \<Rightarrow> None)"

lemma placed_shows:
  assumes "distinct (map wp_scope ws)" and "distinct (map rw_key entries)"
  shows "shows_rows lib ws (placed lib ws entries) (loading lib ws entries)"
    and "keyed lib ws (loading lib ws entries)"
proof -
  have l: "loading lib ws entries k = Some e \<longleftrightarrow> e \<in> set entries \<and> rw_key e = k \<and> loads lib ws e" for k e
  proof -
    have "loading lib ws entries k = Some e \<longleftrightarrow> entry_map entries k = Some e \<and> loads lib ws e"
      by (auto simp: loading_def split: option.splits)
    then show ?thesis by (simp add: entry_map_Some [OF assms(2)])
  qed
  show "keyed lib ws (loading lib ws entries)" by (simp add: keyed_def l)
  show "shows_rows lib ws (placed lib ws entries) (loading lib ws entries)"
    unfolding shows_rows_def placed_rows [OF assms] l by (auto simp: loads_def)
qed

text \<open>The pins a resync settles on: the last good value of every key whose entry does not load.\<close>

definition resync_pins ::
    "('j, 'd) loader_lib \<Rightarrow> watched_prefix list \<Rightarrow> 'd apply_ctx \<Rightarrow> raw_entry list \<Rightarrow> 'd supervisor \<Rightarrow>
     (string \<rightharpoonup> stale_serving)" where
  "resync_pins lib ws ctx entries s =
     (let rs = bs_rejections (snd (build_snapshot lib ws (ac_now ctx 0) (sv_ctr s) entries));
          rejected = set (map rj_key rs)
      in pin_rejected ws (ac_now ctx 1) (sv_snapshot s)
           (\<lambda>k. if k \<in> rejected then map_option se_entry (os_entries (sv_state s) k) else None) 0 rs
           (\<lambda>k. if k \<in> rw_key ` set entries \<and> k \<in> rejected then sv_stale s k else None))"

lemma rejected_keys_of_build:
  assumes "distinct (map rw_key entries)"
  shows "k \<in> set (map rj_key (bs_rejections (snd (build_snapshot lib ws now ctr entries)))) \<longleftrightarrow>
    (\<exists>e. entry_map entries k = Some e \<and> \<not> loads lib ws e)"
proof -
  obtain cs st where b: "build_snapshot lib ws now ctr entries = (cs, st)" by fastforce
  show ?thesis unfolding b snd_conv build_facts(3) [OF b] by (auto simp: entry_map_Some [OF assms])
qed

lemma resync_pins_entries:
  assumes d: "distinct (map wp_scope ws)" and ok: "sup_ok lib ws s" and e: "distinct (map rw_key entries)"
    and w: "\<forall>e \<in> set entries. well_placed ws (rw_key e)"
  shows "map_option ss_entry (resync_pins lib ws ctx entries s k) =
    (if \<exists>e. entry_map entries k = Some e \<and> \<not> loads lib ws e then serving lib ws s k else None)"
proof -
  let ?rs = "bs_rejections (snd (build_snapshot lib ws (ac_now ctx 0) (sv_ctr s) entries))"
  note rk = rejected_keys_of_build [OF e, of k lib ws "ac_now ctx 0" "sv_ctr s"]
  have book: "book_ok lib ws s" and rows: "shows_rows lib ws (snap_rows (sv_snapshot s)) (serving lib ws s)"
    using ok by (auto simp: sup_ok_def)
  show ?thesis
  proof (cases "\<exists>e. entry_map entries k = Some e \<and> \<not> loads lib ws e")
    case False
    with rk have n: "k \<notin> set (map rj_key ?rs)" by blast
    with False show ?thesis unfolding resync_pins_def Let_def pin_rejected_entries by (simp only: n if_False simp_thms) simp
  next
    case True
    then obtain x where x: "entry_map entries k = Some x" "\<not> loads lib ws x" by blast
    then have mem: "x \<in> set entries" "rw_key x = k" using entry_map_Some [OF e] by auto
    have r: "k \<in> set (map rj_key ?rs)" "k \<in> rw_key ` set entries" using rk True mem by auto
    have has: "(\<exists>j. resolve_key ws k = Inr j \<and> snapshot_has (sv_snapshot s) (selector_kind j) (sk_id j)) \<longleftrightarrow>
        serving lib ws s k \<noteq> None"
    proof (cases "resolve_key ws k")
      case (Inl err)
      have "serving lib ws s k = None"
      proof (rule ccontr)
        assume "serving lib ws s k \<noteq> None"
        with book_keyed [OF book] obtain g where "rw_key g = k" "loads lib ws g" by (auto simp: keyed_def)
        with Inl show False by (auto simp: loads_def row_of_def)
      qed
      with Inl show ?thesis by simp
    next
      case (Inr j)
      with place_taken [OF d book_keyed [OF book] rows _ Inr] w mem
      show ?thesis by (auto simp: snapshot_has_rows)
    qed
    have "resync_pins lib ws ctx entries s = pin_rejected ws (ac_now ctx 1) (sv_snapshot s)
           (\<lambda>k. if k \<in> set (map rj_key ?rs) then map_option se_entry (os_entries (sv_state s) k) else None) 0 ?rs
           (\<lambda>k. if k \<in> rw_key ` set entries \<and> k \<in> set (map rj_key ?rs) then sv_stale s k else None)"
      by (simp add: resync_pins_def Let_def)
    then have "map_option ss_entry (resync_pins lib ws ctx entries s k) =
        (case sv_stale s k of Some p \<Rightarrow> Some (ss_entry p)
         | None \<Rightarrow> if serving lib ws s k \<noteq> None then ents (sv_state s) k else None)"
      by (simp only: pin_rejected_entries r has simp_thms if_True ents_def)
    also have "\<dots> = serving lib ws s k"
      by (auto simp: serving_def split: option.split)
    finally show ?thesis using True by simp
  qed
qed

lemma apply_resync_core:
  fixes rr :: "int option"
  assumes d: "distinct (map wp_scope ws)" and c: "ctx_ok ctx" and fs: "finite (dom (ents (sv_state s)))"
    and e: "distinct (map rw_key entries)" and w: "\<forall>e \<in> set entries. well_placed ws (rw_key e)"
    and pin: "\<And>k p. resync_pins lib ws ctx entries s k = Some p \<Longrightarrow> rw_key (ss_entry p) = k \<and>
      loads lib ws (ss_entry p) \<and> (\<exists>e. entry_map entries k = Some e \<and> \<not> loads lib ws e)"
  defines "s' \<equiv> fst (apply_resync_at lib ws ctx entries rr s)"
  shows "sup_ok lib ws s' \<and> sv_stale s' = resync_pins lib ws ctx entries s \<and> ents (sv_state s') = entry_map entries"
proof -
  have walk: "walks (ac_walk ctx)" using c by (simp add: ctx_ok_def)
  obtain ctr snap st where b: "build_snapshot lib ws (ac_now ctx 0) (sv_ctr s) entries = ((ctr, snap), st)"
    by (metis surj_pair)
  let ?pins = "resync_pins lib ws ctx entries s"
  have pinK: "\<And>k p. ?pins k = Some p \<Longrightarrow> rw_key (ss_entry p) = k"
    and pinL: "\<And>k p. ?pins k = Some p \<Longrightarrow> loads lib ws (ss_entry p)"
    and pinE: "\<And>k p. ?pins k = Some p \<Longrightarrow> \<exists>e. entry_map entries k = Some e \<and> \<not> loads lib ws e"
    using pin by blast+
  have "dom ?pins \<subseteq> rw_key ` set entries"
  proof
    fix k
    assume "k \<in> dom ?pins"
    then obtain p where "?pins k = Some p" by (auto simp: dom_def)
    from pin [OF this] obtain x where "entry_map entries k = Some x" by (elim conjE exE)
    then have "x \<in> set entries" "rw_key x = k" by (simp_all add: entry_map_Some [OF e])
    then show "k \<in> rw_key ` set entries" by auto
  qed
  then have fin: "finite (dom ?pins)" by (rule finite_subset) simp
  let ?inj = "map ss_entry (ac_walk_stale ctx ?pins)"
  have ws: "set (ac_walk_stale ctx ?pins) = ran ?pins" "length (ac_walk_stale ctx ?pins) = card (dom ?pins)"
    using c fin by (auto simp: ctx_ok_def)
  have injk: "rw_key ` set ?inj = dom ?pins"
  proof -
    have "ran ?pins = {p. ?pins (rw_key (ss_entry p)) = Some p}" by (auto simp: ran_def dest: pinK)
    moreover have "(\<lambda>p. rw_key (ss_entry p)) ` {p. ?pins (rw_key (ss_entry p)) = Some p} = dom ?pins"
      by (auto simp: dom_def image_iff dest: pinK)
    ultimately show ?thesis by (simp add: ws(1) image_image)
  qed
  have injd: "distinct (map rw_key ?inj)"
    using injk ws(2) by (intro card_distinct) (simp add: image_image comp_def)
  have injl: "entry_map ?inj k = map_option ss_entry (?pins k)" for k
  proof (rule option_ext)
    fix x
    show "entry_map ?inj k = Some x \<longleftrightarrow> map_option ss_entry (?pins k) = Some x"
      unfolding entry_map_Some [OF injd] by (auto simp: ws(1) ran_def dest: pinK)
  qed
  have all: "loads lib ws x" if "x \<in> set ?inj" for x using that by (auto simp: ws(1) ran_def dest: pinL)
  obtain ctr2 lkg st2 where b2: "build_snapshot lib ws (ac_now ctx 2) ctr ?inj = ((ctr2, lkg), st2)"
    by (metis surj_pair)
  have none: "bs_rejections st2 = []" using build_facts(3) [OF b2] all by simp
  let ?new = "if ?inj = [] then snap else snd (merge_snapshot lib (ac_walk ctx) lkg (ctr2, snap))"
  have pins_eq: "pin_rejected ws (ac_now ctx (Suc 0)) (sv_snapshot s)
           (\<lambda>k. if k \<in> rj_key ` set (bs_rejections st) then map_option se_entry (os_entries (sv_state s) k) else None)
           0 (bs_rejections st)
           (\<lambda>k. if k \<in> rw_key ` set entries \<and> k \<in> rj_key ` set (bs_rejections st) then sv_stale s k else None) = ?pins"
    by (simp add: resync_pins_def Let_def b)
  have f: "ents (sv_state s') = ents (reconcile_state lib entries (sv_state s))" "sv_stale s' = ?pins"
    "sv_snapshot s' = ?new"
    by (simp_all add: s'_def apply_resync_at_def b Let_def pins_eq case_prod_beta b2 none)
  have E: "ents (sv_state s') = entry_map entries"
    using f(1) reconcile_ents [OF fs e, of lib] by simp
  have l2: "loading lib ws ?inj k = map_option ss_entry (?pins k)" for k
    by (cases "?pins k") (simp_all add: loading_def injl pinL del: map_eq_conv)
  have g: "serving lib ws s' = loading lib ws entries ++ loading lib ws ?inj"
  proof (rule ext)
    fix k
    show "serving lib ws s' k = (loading lib ws entries ++ loading lib ws ?inj) k"
      unfolding serving_def f(2) E map_add_def l2 by (cases "?pins k") (simp_all add: loading_def)
  qed
  have sep: "loading lib ws entries k = None \<or> loading lib ws ?inj k = None" for k
    unfolding l2 using pinE [of k] by (cases "?pins k") (auto simp: loading_def)
  have rows: "snap_rows ?new = placed lib ws entries ++ placed lib ws ?inj \<and> snap_ok lib ?new"
  proof (cases "?inj = []")
    case True
    then have "placed lib ws ?inj = Map.empty" by (simp only: placed_def foldl.simps)
    with True build_facts(1,2) [OF b] show ?thesis by simp
  next
    case False
    with build_facts(1,2) [OF b] build_facts(1,2) [OF b2]
      merge_snapshot_rows [OF _ walk, of lib lkg "(ctr2, snap)"] merge_snapshot_ok [of lib "(ctr2, snap)" "ac_walk ctx" lkg]
    show ?thesis by simp
  qed
  have "shows_rows lib ws (snap_rows ?new) (serving lib ws s')"
    unfolding conjunct1 [OF rows] g
    by (rule shows_union [OF d placed_shows(2) [OF d e] placed_shows(2) [OF d injd] placed_shows(1) [OF d e]
          placed_shows(1) [OF d injd] sep])
  moreover have "book_ok lib ws s'"
  proof -
    have "finite (dom (entry_map entries))" by (simp add: entry_map_def finite_dom_map_of)
    moreover have "rw_key x = k \<and> well_placed ws k" if "entry_map entries k = Some x" for k x
      using that w by (auto simp: entry_map_Some [OF e])
    ultimately show ?thesis unfolding book_ok_def E f(2) using pin by blast
  qed
  ultimately show ?thesis using rows f E by (simp add: sup_ok_def)
qed

lemma apply_resync_ok:
  fixes rr :: "int option"
  assumes d: "distinct (map wp_scope ws)" and c: "ctx_ok ctx" and ok: "sup_ok lib ws s"
    and e: "distinct (map rw_key entries)" and w: "\<forall>e \<in> set entries. well_placed ws (rw_key e)"
  defines "s' \<equiv> fst (apply_resync_at lib ws ctx entries rr s)"
  shows "sup_ok lib ws s' \<and> serving lib ws s' = good_resync lib ws (serving lib ws s) entries \<and>
    sv_stale s' = resync_pins lib ws ctx entries s \<and> ents (sv_state s') = entry_map entries"
proof -
  note pe = resync_pins_entries [OF d ok e w, of ctx]
  have book: "book_ok lib ws s" using ok by (simp add: sup_ok_def)
  have pin: "rw_key (ss_entry p) = k \<and> loads lib ws (ss_entry p) \<and>
      (\<exists>e. entry_map entries k = Some e \<and> \<not> loads lib ws e)"
    if "resync_pins lib ws ctx entries s k = Some p" for k p
    using pe [of k] that book_keyed [OF book] by (auto simp: keyed_def split: if_splits)
  have fin: "finite (dom (ents (sv_state s)))" using book by (simp add: book_ok_def)
  have core: "sup_ok lib ws s'" "sv_stale s' = resync_pins lib ws ctx entries s"
    "ents (sv_state s') = entry_map entries"
    using apply_resync_core [OF d c fin e w pin, of rr] by (simp_all add: s'_def)
  have "serving lib ws s' k = good_resync lib ws (serving lib ws s) entries k" for k
  proof (cases "resync_pins lib ws ctx entries s k")
    case None
    with pe [of k] show ?thesis
      by (cases "entry_map entries k") (auto simp: serving_def [of lib ws s'] core good_resync_def split: if_splits)
  next
    case (Some p)
    with pe [of k] show ?thesis
      by (cases "entry_map entries k") (auto simp: serving_def [of lib ws s'] core good_resync_def split: if_splits)
  qed
  with core show ?thesis by auto
qed

section \<open>Runs\<close>

fun op_ok :: "watched_prefix list \<Rightarrow> 'd apply_ctx \<times> config_op \<Rightarrow> bool" where
  "op_ok ws (ctx, Batch evs) \<longleftrightarrow> ctx_ok ctx \<and> list_all (\<lambda>ev. well_placed ws (event_key ev)) evs"
| "op_ok ws (ctx, Resync entries rr) \<longleftrightarrow> ctx_ok ctx \<and> distinct (map rw_key entries) \<and>
     list_all (\<lambda>e. well_placed ws (rw_key e)) entries"
| "op_ok ws (ctx, ReadRevision r) \<longleftrightarrow> True"

lemma sup_step_ok:
  assumes "distinct (map wp_scope ws)" and "sup_ok lib ws s" and "op_ok ws op"
  shows "sup_ok lib ws (sup_step lib ws s op) \<and>
    serving lib ws (sup_step lib ws s op) = good_op lib ws (serving lib ws s) (snd op)"
proof -
  obtain ctx o' where op: "op = (ctx, o')" by fastforce
  show ?thesis
  proof (cases o')
    case (Batch evs)
    with assms apply_events_ok [OF assms(1) _ assms(2), of ctx evs] show ?thesis
      by (simp add: op ctx_ok_def list_all_iff)
  next
    case (Resync entries rr)
    with assms apply_resync_ok [OF assms(1) _ assms(2), of ctx entries rr] show ?thesis
      by (simp add: op list_all_iff)
  next
    case (ReadRevision r)
    with sup_ok_cong [OF assms(2), of "sup_step lib ws s op"] show ?thesis
      by (simp add: op record_read_revision_def)
  qed
qed

lemma ents_default [simp]: "ents observed_default = Map.empty"
  by (rule ext) (simp add: ents_def observed_default_def)

lemma sup_new_ok: "sup_ok lib ws (supervisor_new ctr cache)" "serving lib ws (supervisor_new ctr cache) = Map.empty"
proof -
  show "serving lib ws (supervisor_new ctr cache) = Map.empty"
    by (rule ext) (simp add: serving_def supervisor_new_def)
  then show "sup_ok lib ws (supervisor_new ctr cache)"
    by (simp add: sup_ok_def book_ok_def shows_rows_def) (simp add: supervisor_new_def)
qed

lemma sup_run_ok:
  assumes "distinct (map wp_scope ws)" and "sup_ok lib ws s" and "list_all (op_ok ws) ops"
  shows "sup_ok lib ws (sup_run lib ws s ops) \<and>
    serving lib ws (sup_run lib ws s ops) = foldl (good_op lib ws) (serving lib ws s) (map snd ops)"
  using assms(2,3)
proof (induction ops arbitrary: s)
  case (Cons op ops)
  with sup_step_ok [OF assms(1) Cons.prems(1), of op] show ?case by (simp add: sup_run_def)
qed (simp add: sup_run_def)

end
