(* ===== verification/Supervisor_Results.thy ===== *)
theory Supervisor_Results
  imports Supervisor_Refines
begin

text \<open>
  What the supervisor promises: the served snapshot is the last good value of each key, and a restart
  from the cache serves the same. The first section is an instance of the parameters for the examples.
\<close>

section \<open>An instance\<close>

definition ex_lib :: "(bytes, bytes) loader_lib" where
  "ex_lib = \<lparr>ll_from_slice = (\<lambda>b. if b = [] then Inl ''EOF'' else Inr b),
     ll_upgrade_routing = (\<lambda>v. (v, [])), ll_upgrade_mcp_access = (\<lambda>v. (v, [])),
     ll_validate = (\<lambda>kind v. if hd v = 0 then Some ''schema'' else None),
     ll_deserialize = (\<lambda>kind v. Inr (v, [])), ll_semantics = (\<lambda>kind d. None),
     ll_unknown_paths = (\<lambda>res v. []), ll_strip_inapplicable = (\<lambda>d. (d, [])), ll_a2a_url_ok = (\<lambda>v. True),
     ll_name = (\<lambda>t d. ''n''), ll_canonical = (\<lambda>v. v),
     ll_status = \<lparr>sl_sha256_hex = (\<lambda>b. replicate (length b) CHR ''h''), sl_hash_str = length, sl_hash_pair = (\<lambda>n i. n + length i),
       sl_rfc3339 = (\<lambda>t. [])\<rparr>\<rparr>"

definition ex_ws :: "watched_prefix list" where
  "ex_ws = prefix_set_new [watched_environment ''/e'', watched_global ''/g'']"

definition walk_asc :: "'d resource_table \<Rightarrow> 'd resource_entry list" where
  "walk_asc t = values_asc (by_id t)"

definition ex_ctx :: "bytes apply_ctx" where
  "ex_ctx = \<lparr>ac_now = (\<lambda>i j. 5), ac_instant = 7, ac_utc = 5000, ac_walk = walk_asc, ac_walk_stale = values_asc\<rparr>"

definition ex_entry :: "string \<Rightarrow> bytes \<Rightarrow> int \<Rightarrow> raw_entry" where
  "ex_entry key v r = \<lparr>rw_key = key, rw_value = v, rw_revision = r\<rparr>"

lemma set_values_asc: "finite (dom m) \<Longrightarrow> set (values_asc m) = ran m"
  by (force simp: values_asc_def keys_asc_def ran_def dom_def)

lemma length_values_asc: "finite (dom m) \<Longrightarrow> length (values_asc m) = card (dom m)"
  by (simp add: values_asc_def keys_asc_def)

lemma ex_ctx_ok: "ctx_ok ex_ctx"
proof -
  have "enumerates t (walk_asc t)" if "table_ok nm t" for nm and t :: "bytes resource_table"
  proof -
    have f: "finite (dom (by_id t))" and k: "\<And>i e. by_id t i = Some e \<Longrightarrow> re_id e = i"
      using that by (simp_all add: table_ok_def)
    have "inj_on (\<lambda>i. the (by_id t i)) (dom (by_id t))"
      by (rule inj_onI) (metis domIff k option.collapse)
    with f set_values_asc [OF f] show ?thesis
      by (simp add: enumerates_def walk_asc_def values_asc_def keys_asc_def distinct_map)
  qed
  then show ?thesis
    by (simp add: ctx_ok_def ex_ctx_def walks_def set_values_asc length_values_asc)
qed

lemma ex_ws_eq: "ex_ws = [watched_environment ''/e'', watched_global ''/g'']"
  by (simp add: ex_ws_def prefix_set_new_def watched_environment_def watched_global_def trim_end_slash_def)

lemma ex_resolve [simp]:
  "resolve_key ex_ws ''/e/models/m'' = Inr \<lparr>sk_scope = Environment, sk_kind = ''models'', sk_id = ''m''\<rparr>"
  "resolve_key ex_ws ''/g/pricing/p'' = Inr \<lparr>sk_scope = Global, sk_kind = ''pricing'', sk_id = ''p''\<rparr>"
  "resolve_key ex_ws ''/g/models/m'' = Inr \<lparr>sk_scope = Global, sk_kind = ''models'', sk_id = ''m''\<rparr>"
  by (simp_all add: ex_ws_eq resolve_key_def parse_key_def watched_environment_def watched_global_def
                    trim_end_slash_def splitn2_def)

lemma ex_ws_distinct [simp]: "distinct (map wp_scope ex_ws)"
  by (simp add: ex_ws_eq watched_environment_def watched_global_def)

lemma ex_rows:
  "row_of ex_lib ex_ws (ex_entry ''/e/models/m'' v r) =
     (if v = [] \<or> hd v = 0 then None else Some (Models, \<lparr>re_id = ''m'', re_value = v, re_revision = r\<rparr>))"
  "row_of ex_lib ex_ws (ex_entry ''/g/pricing/p'' v r) =
     (if v = [] \<or> hd v = 0 then None else Some (GlobalPricing, \<lparr>re_id = ''p'', re_value = v, re_revision = r\<rparr>))"
  "row_of ex_lib ex_ws (ex_entry ''/g/models/m'' v r) = None"
  by (simp_all add: row_of_def ex_entry_def ex_lib_def loader_table_def KIND_TABLES_def upgrade_stored_def
                    semantic_hook_def Let_def)

lemma ex_placed [simp]: "well_placed ex_ws ''/e/models/m''" "well_placed ex_ws ''/g/pricing/p''"
  by (simp_all add: well_placed_def)

lemma ex_key [simp]: "rw_key (ex_entry k v r) = k" by (simp add: ex_entry_def)

section \<open>Last good values\<close>

definition last_good ::
    "('j, 'd) loader_lib \<Rightarrow> watched_prefix list \<Rightarrow> config_op list \<Rightarrow> serving_map" where
  "last_good lib ws ops = foldl (good_op lib ws) Map.empty ops"


definition ex_ops :: "(bytes apply_ctx \<times> config_op) list" where
  "ex_ops =
     [(ex_ctx, Batch [Put (ex_entry ''/e/models/m'' [1] 1), Put (ex_entry ''/g/pricing/p'' [3] 2)]),
      (ex_ctx, Batch [Put (ex_entry ''/e/models/m'' [0] 3), Delete ''/g/pricing/p'' (Some 4)]),
      (ex_ctx, Resync [ex_entry ''/e/models/m'' [0] 3] (Some 5))]"

lemma ex_ops_ok: "list_all (op_ok ex_ws) ex_ops"
  by (simp add: ex_ops_def ex_ctx_ok)

lemma ex_last_good:
  "last_good ex_lib ex_ws (map snd ex_ops) = [''/e/models/m'' \<mapsto> ex_entry ''/e/models/m'' [1] 1]"
  by (auto simp: last_good_def ex_ops_def loads_def ex_rows good_resync_def entry_map_def fun_eq_iff)


section \<open>Restart\<close>

lemma fold_by_key:
  assumes "\<And>p q. p \<in> set ps \<Longrightarrow> q \<in> set ps \<Longrightarrow> f p = f q \<Longrightarrow> p = q"
  shows "foldl (\<lambda>m p. m(f p \<mapsto> p)) Map.empty ps k = Some p \<longleftrightarrow> p \<in> set ps \<and> f p = k"
  using assms
proof (induction ps rule: rev_induct)
  case (snoc x ps)
  define m where "m = foldl (\<lambda>m p. m(f p \<mapsto> p)) Map.empty ps"
  have m: "m k = Some p \<longleftrightarrow> p \<in> set ps \<and> f p = k"
    unfolding m_def by (rule snoc.IH) (simp add: snoc.prems)
  have same: "p = x" if "p \<in> set ps" "f p = f x" using snoc.prems [of p x] that by simp
  have eq: "foldl (\<lambda>m p. m(f p \<mapsto> p)) Map.empty (ps @ [x]) k = (if k = f x then Some x else m k)"
    by (simp add: m_def)
  show ?case unfolding eq using m same by auto
qed simp

lemma pin_rejected_nothing:
  "(\<And>kind i. \<not> snapshot_has prev kind i) \<Longrightarrow> pin_rejected ws now prev prev_state n rs stale = stale"
  by (induction rs arbitrary: n stale) (simp_all split: sum.split option.split)

lemma book_entry:
  "book_ok lib ws s \<Longrightarrow> ents (sv_state s) k = Some e \<Longrightarrow> rw_key e = k \<and> well_placed ws k"
  unfolding book_ok_def by blast

lemma book_pin:
  "book_ok lib ws s \<Longrightarrow> sv_stale s k = Some p \<Longrightarrow> rw_key (ss_entry p) = k \<and> loads lib ws (ss_entry p) \<and>
     (\<exists>e. ents (sv_state s) k = Some e \<and> \<not> loads lib ws e)"
  unfolding book_ok_def by blast

lemma captured_entries:
  assumes "book_ok lib ws s"
  shows "entry_map (cs_entries (captured ctx s)) = ents (sv_state s)"
    and "distinct (map rw_key (cs_entries (captured ctx s)))"
    and "\<forall>e \<in> set (cs_entries (captured ctx s)). well_placed ws (rw_key e)"
proof -
  let ?m = "os_entries (sv_state s)"
  have dom: "dom ?m = dom (ents (sv_state s))" by (auto simp: ents_def)
  with assms have f: "finite (dom ?m)" by (simp add: book_ok_def)
  have key: "rw_key (se_entry row) = k \<and> well_placed ws k" if "?m k = Some row" for k row
    by (rule book_entry [OF assms]) (simp add: ents_def that)
  have "rw_key (se_entry (the (?m k))) = k" if "k \<in> dom ?m" for k
  proof -
    from that obtain row where row: "?m k = Some row" by blast
    from key [OF row] row show ?thesis by simp
  qed
  then have "map rw_key (cs_entries (captured ctx s)) = keys_asc ?m"
    using f by (auto simp: captured_def values_asc_def keys_asc_def comp_def intro: map_idI)
  then show d: "distinct (map rw_key (cs_entries (captured ctx s)))" by (simp add: keys_asc_def)
  have mem: "e \<in> set (cs_entries (captured ctx s)) \<longleftrightarrow> (\<exists>k row. ?m k = Some row \<and> e = se_entry row)" for e
    using set_values_asc [OF f] by (auto simp: captured_def ran_def)
  show "\<forall>e \<in> set (cs_entries (captured ctx s)). well_placed ws (rw_key e)"
    by (auto simp: mem dest!: key)
  show "entry_map (cs_entries (captured ctx s)) = ents (sv_state s)"
  proof (rule ext, rule option_ext)
    fix k e
    show "entry_map (cs_entries (captured ctx s)) k = Some e \<longleftrightarrow> ents (sv_state s) k = Some e"
      unfolding entry_map_Some [OF d] mem by (auto simp: ents_def dest: key)
  qed
qed

lemma restore_facts:
  fixes ctr :: nat and cache :: bool
  assumes d: "distinct (map wp_scope ws)" and ok: "sup_ok lib ws s" and c: "ctx_ok ctx" and c': "ctx_ok ctx'"
  defines "s' \<equiv> restore_from_cache lib ws ctx' (Some (captured ctx s)) (supervisor_new ctr cache)"
  shows "sup_ok lib ws s' \<and> serving lib ws s' = serving lib ws s \<and> sv_stale s' = sv_stale s \<and>
    sv_revision s' = sv_revision s"
proof -
  have book: "book_ok lib ws s" using ok by (simp add: sup_ok_def)
  note ce = captured_entries [OF book, of ctx]
  have pins: "rw_key (ss_entry p) = k \<and> loads lib ws (ss_entry p) \<and>
      (\<exists>e. ents (sv_state s) k = Some e \<and> \<not> loads lib ws e)" if "sv_stale s k = Some p" for k p
    by (rule book_pin [OF book that])
  have "finite (dom (ents (sv_state s)))" using book by (simp add: book_ok_def)
  moreover have "dom (sv_stale s) \<subseteq> dom (ents (sv_state s))"
  proof
    fix k
    assume "k \<in> dom (sv_stale s)"
    then obtain p where p: "sv_stale s k = Some p" by blast
    from pins [OF p] show "k \<in> dom (ents (sv_state s))" by blast
  qed
  ultimately have fin: "finite (dom (sv_stale s))" by (rule finite_subset [rotated])
  have walk: "set (ac_walk_stale ctx (sv_stale s)) = ran (sv_stale s)" using c fin by (simp add: ctx_ok_def)
  have seed: "foldl (\<lambda>m p. m(rw_key (ss_entry p) \<mapsto> p)) Map.empty (cs_stale (captured ctx s)) = sv_stale s"
  proof (rule ext, rule option_ext)
    fix k p
    have at: "sv_stale s (rw_key (ss_entry p)) = Some p" if "p \<in> ran (sv_stale s)" for p
    proof -
      from that obtain k where k: "sv_stale s k = Some p" by (auto simp: ran_def)
      from pins [OF k] k show ?thesis by simp
    qed
    have inj: "p = q" if "p \<in> ran (sv_stale s)" "q \<in> ran (sv_stale s)" "rw_key (ss_entry p) = rw_key (ss_entry q)" for p q
      using at that by (metis option.inject)
    have mem: "p \<in> ran (sv_stale s) \<and> rw_key (ss_entry p) = k \<longleftrightarrow> sv_stale s k = Some p"
    proof
      assume "p \<in> ran (sv_stale s) \<and> rw_key (ss_entry p) = k"
      with at [of p] show "sv_stale s k = Some p" by simp
    next
      assume a: "sv_stale s k = Some p"
      from pins [OF a] a show "p \<in> ran (sv_stale s) \<and> rw_key (ss_entry p) = k" by (auto simp: ran_def)
    qed
    show "foldl (\<lambda>m p. m(rw_key (ss_entry p) \<mapsto> p)) Map.empty (cs_stale (captured ctx s)) k = Some p \<longleftrightarrow>
        sv_stale s k = Some p"
      using fold_by_key [of "cs_stale (captured ctx s)" "\<lambda>p. rw_key (ss_entry p)" k p] inj mem
      by (simp add: captured_def walk)
  qed
  let ?n = "(supervisor_new ctr cache)\<lparr>sv_stale := sv_stale s\<rparr> "
  have empty: "\<not> snapshot_has (sv_snapshot ?n) kind i" for kind i
    by (simp add: supervisor_new_def snapshot_has_rows)
  have rp: "resync_pins lib ws ctx' (cs_entries (captured ctx s)) ?n = sv_stale s"
  proof (rule ext)
    fix k
    have "k \<in> rw_key ` set (cs_entries (captured ctx s)) \<longleftrightarrow> ents (sv_state s) k \<noteq> None"
      using entry_map_None [of "cs_entries (captured ctx s)" k] by (simp add: ce(1))
    note here = this
    show "resync_pins lib ws ctx' (cs_entries (captured ctx s)) ?n k = sv_stale s k"
      unfolding resync_pins_def Let_def pin_rejected_nothing [OF empty] rejected_keys_of_build [OF ce(2)] ce(1)
      using here by (cases "sv_stale s k") (auto dest: pins)
  qed
  have core: "sup_ok lib ws r \<and> sv_stale r = sv_stale s \<and> ents (sv_state r) = ents (sv_state s)"
    if "r = fst (apply_resync_at lib ws ctx' (cs_entries (captured ctx s)) None ?n)" for r
  proof -
    have "finite (dom (ents (sv_state ?n)))" by (simp add: supervisor_new_def)
    from apply_resync_core [OF d c' this ce(2,3), where rr = None and lib = lib, unfolded rp ce(1), OF pins] that
    show ?thesis by simp
  qed
  define r where "r = fst (apply_resync_at lib ws ctx' (cs_entries (captured ctx s)) None ?n)"
  have s': "s' = sync_config_status lib ws (ac_utc ctx') False (r\<lparr>sv_revision := sv_revision s\<rparr>)"
    by (simp add: s'_def restore_from_cache_def seed r_def Let_def) (simp add: captured_def)
  have e: "ents (sv_state s') = ents (sv_state r)" "sv_stale s' = sv_stale r" "sv_snapshot s' = sv_snapshot r"
    "sv_revision s' = sv_revision s"
    by (simp_all add: s')
  from sup_ok_cong [OF conjunct1 [OF core [OF r_def]] e(1-3)] core [OF r_def] e
  have "sup_ok lib ws s'" by simp
  moreover have "serving lib ws s' = serving lib ws s"
    by (rule serving_cong) (use core [OF r_def] e in simp_all)
  ultimately show ?thesis using core [OF r_def] e by simp
qed

lemma rows_from_serving:
  assumes "sup_ok lib ws s" and "sup_ok lib ws s'" and "serving lib ws s' = serving lib ws s"
  shows "snap_rows (sv_snapshot s') = snap_rows (sv_snapshot s)"
  by (rule ext, rule option_ext) (use assms in \<open>auto simp: sup_ok_def shows_rows_def split_paired_all\<close>)



end
