(* ===== verification/Supervisor_Batches.thy ===== *)
theory Supervisor_Batches
  imports Supervisor_Results
begin

text \<open>
  Coalescing is invisible: a batch of watch events decides, records and serves what its parts applied one
  after the other decide, record and serve. The proof is a congruence: each step reads and writes only
  the bookkeeping \<open>decided\<close> and the presence of places, which the next apply sees in the published
  snapshot and the same apply sees through its view.
\<close>

definition decided ::
    "'d supervisor \<Rightarrow> (string \<rightharpoonup> raw_entry \<times> bytes) \<times> nat \<times> int \<times> rejected_entry list \<times> string set \<times>
     (string \<rightharpoonup> partial_compat_row) \<times> (string \<rightharpoonup> stale_serving)" where
  "decided s =
     (\<lambda>k. map_option (\<lambda>r. (se_entry r, se_record r)) (os_entries (sv_state s) k), os_version (sv_state s),
      sv_revision s, sv_rejections s, sv_rejected_keys s, sv_partial s, sv_stale s)"

lemma decided_entries:
  assumes "decided s = decided s'"
  shows "map_option (\<lambda>r. (se_entry r, se_record r)) (os_entries (sv_state s) k) =
     map_option (\<lambda>r. (se_entry r, se_record r)) (os_entries (sv_state s') k)"
  using assms by (simp add: decided_def fun_eq_iff)

lemma decided_ents: "decided s = decided s' \<Longrightarrow> ents (sv_state s) = ents (sv_state s')"
proof (rule ext)
  fix k
  assume "decided s = decided s'"
  from decided_entries [OF this, of k]
  show "ents (sv_state s) k = ents (sv_state s') k"
    by (cases "os_entries (sv_state s) k"; cases "os_entries (sv_state s') k") (simp_all add: ents_def)
qed

lemma decided_serving: "decided s = decided s' \<Longrightarrow> serving lib ws s = serving lib ws s'"
  by (rule serving_cong [OF decided_ents]) (simp_all add: decided_def)

lemma decided_ctr [simp]: "decided (s\<lparr>sv_ctr := c\<rparr>) = decided s"
  by (simp add: decided_def)

lemma decided_snapshot [simp]: "decided (s\<lparr>sv_snapshot := c\<rparr>) = decided s"
  by (simp add: decided_def)

lemma decided_status [simp]: "decided (s\<lparr>sv_status := c\<rparr>) = decided s"
  by (simp add: decided_def)

lemma decided_sync [simp]: "decided (sync_config_status lib ws utc b s) = decided s"
  by (auto simp: decided_def sync_config_status_def publish_served_def Let_def case_prod_beta option.map_comp comp_def fun_eq_iff)

lemma decided_flush [simp]: "decided (flush_cache ctx s) = decided s"
  by (simp add: decided_def flush_cache_def)

lemma decided_capture:
  assumes "decided s = decided s'" and "\<And>kind i. view_present v base kind i = view_present v' base' kind i"
  shows "decided (capture_last_good ws now base v key s) = decided (capture_last_good ws now base' v' key s')"
  using assms decided_entries [OF assms(1), of key]
  by (auto simp: capture_last_good_def assms(2) decided_def split: sum.split option.split)

lemma decided_store:
  assumes "decided s = decided s'"
  shows "decided (store_observed lib e s) = decided (store_observed lib e s')"
  using assms decided_entries [OF assms, of "rw_key e"]
  by (cases "os_entries (sv_state s) (rw_key e)"; cases "os_entries (sv_state s') (rw_key e)")
    (auto simp: store_observed_def observed_insert_def bump_version_def remember_served_def decided_def Let_def fun_eq_iff)

lemma decided_push:
  "decided s = decided s' \<Longrightarrow>
     decided (foldl (\<lambda>s r. push_rejection r s) s rs) = decided (foldl (\<lambda>s r. push_rejection r s) s' rs)"
  by (induction rs arbitrary: s s') (auto simp: push_rejection_def decided_def Let_def)

lemma decided_remove_rejection:
  assumes "decided s = decided s'"
  shows "decided (fst (remove_rejection_for_key k s)) = decided (fst (remove_rejection_for_key k s'))"
    "snd (remove_rejection_for_key k s) = snd (remove_rejection_for_key k s')"
  using assms by (simp_all add: remove_rejection_for_key_def decided_def Let_def)

lemma decided_partial:
  "decided s = decided s' \<Longrightarrow> decided (update_partial_row k r s) = decided (update_partial_row k r s')"
  by (auto simp: update_partial_row_def decided_def split: option.split)

lemma decided_unpin:
  "decided s = decided s' \<Longrightarrow> decided (s\<lparr>sv_stale := (sv_stale s)(k := None)\<rparr>) = decided (s'\<lparr>sv_stale := (sv_stale s')(k := None)\<rparr>)"
  by (simp add: decided_def)

lemma decided_remove:
  assumes "decided s = decided s'"
  shows "decided (s\<lparr>sv_state := fst (observed_remove k (sv_state s))\<rparr>) =
      decided (s'\<lparr>sv_state := fst (observed_remove k (sv_state s'))\<rparr>)"
    "snd (observed_remove k (sv_state s)) = None \<longleftrightarrow> snd (observed_remove k (sv_state s')) = None"
  using assms decided_entries [OF assms, of k]
  by (cases "os_entries (sv_state s) k"; cases "os_entries (sv_state s') k";
      auto simp: observed_remove_def bump_version_def remember_served_def decided_def Let_def fun_eq_iff)+

lemma decided_raise:
  "decided (fst acc) = decided (fst acc') \<Longrightarrow>
     decided (fst (raise_revision_floor r acc)) = decided (fst (raise_revision_floor r acc'))"
  by (auto simp: raise_revision_floor_def decided_def split: option.split)

section \<open>Statistics of a build do not depend on the generation counter\<close>

lemma load_row_stats: "snd (load_row lib ws now (cs, st) raw) = snd (load_row lib ws now (cs', st) raw)"
  by (auto simp: load_row_def Let_def split: sum.split option.split prod.split)

lemma load_fold_stats:
  "snd (foldl (load_row lib ws now) (cs, st) es) = snd (foldl (load_row lib ws now) (cs', st) es)"
proof (induction es arbitrary: cs cs' st)
  case (Cons e es)
  obtain c1 s1 c2 s2 where l: "load_row lib ws now (cs, st) e = (c1, s1)" "load_row lib ws now (cs', st) e = (c2, s2)"
    by fastforce
  with load_row_stats [of lib ws now cs st e cs'] have "s1 = s2" by simp
  with l Cons.IH [of c1 s1 c2] show ?case by simp
qed simp

lemma build_stats: "snd (build_snapshot lib ws now ctr es) = snd (build_snapshot lib ws now ctr' es)"
  using load_fold_stats [of lib ws now "(ctr, snapshot_new)" stats_default es "(ctr', snapshot_new)"]
  by (simp add: build_snapshot_def case_prod_beta)

section \<open>One step\<close>

definition same_view :: "'d snap \<Rightarrow> 'd staging \<Rightarrow> 'd snap \<Rightarrow> 'd staging \<Rightarrow> bool" where
  "same_view base sg base' sg' \<longleftrightarrow>
     (\<forall>kind i. view_present (sg_view sg) base kind i = view_present (sg_view sg') base' kind i)"

definition shifted :: "'d apply_ctx \<Rightarrow> nat \<Rightarrow> 'd apply_ctx \<Rightarrow> nat \<Rightarrow> bool" where
  "shifted ctx n ctx' n' \<longleftrightarrow> (\<forall>i. ac_now ctx (2 * (n + i)) = ac_now ctx' (2 * (n' + i)) \<and>
     ac_now ctx (2 * (n + i) + 1) = ac_now ctx' (2 * (n' + i) + 1))"

lemma view_record_put:
  "view_present (record_put ws key v) base kind i \<longleftrightarrow>
     (\<exists>k. resolve_key ws key = Inr k \<and> kind = selector_kind k \<and> i = sk_id k) \<or> view_present v base kind i"
  by (cases "resolve_key ws key") (auto simp: view_present_def record_put_def Let_def)

lemma view_record_delete:
  "view_present (record_delete kind i v) base kind' i' \<longleftrightarrow>
     (kind', i') \<noteq> (kind, i) \<and> view_present v base kind' i'"
  by (auto simp: view_present_def record_delete_def)

lemma stage_put_decided:
  assumes d: "decided s = decided s'" and v: "same_view base sg base' sg'" and sh: "shifted ctx n ctx' n'"
  shows "decided (fst (fst (stage_put lib ws ctx n base e (s, sg)))) =
      decided (fst (fst (stage_put lib ws ctx' n' base' e (s', sg'))))"
    and "snd (stage_put lib ws ctx n base e (s, sg)) = snd (stage_put lib ws ctx' n' base' e (s', sg'))"
    and "same_view base (snd (fst (stage_put lib ws ctx n base e (s, sg))))
       base' (snd (fst (stage_put lib ws ctx' n' base' e (s', sg'))))"
proof -
  obtain c1 t1 st where b: "build_snapshot lib ws (ac_now ctx (2 * n)) (sv_ctr s) [e] = ((c1, t1), st)"
    by (metis surj_pair)
  have now: "ac_now ctx (2 * n) = ac_now ctx' (2 * n')" "ac_now ctx (2 * n + 1) = ac_now ctx' (2 * n' + 1)"
    using sh [unfolded shifted_def, rule_format, of 0] by simp_all
  obtain c2 t2 where b': "build_snapshot lib ws (ac_now ctx' (2 * n')) (sv_ctr s') [e] = ((c2, t2), st)"
    using build_stats [of lib ws "ac_now ctx (2 * n)" "sv_ctr s" "[e]" "sv_ctr s'"] b now
    by (metis prod.collapse snd_conv)
  have cap: "decided (capture_last_good ws (ac_now ctx' (2 * n' + 1) 0) base (sg_view sg) (rw_key e) (s\<lparr>sv_ctr := c1\<rparr>)) =
      decided (capture_last_good ws (ac_now ctx' (2 * n' + 1) 0) base' (sg_view sg') (rw_key e) (s'\<lparr>sv_ctr := c2\<rparr>))"
    by (rule decided_capture) (use d v in \<open>simp_all add: same_view_def\<close>)
  show "decided (fst (fst (stage_put lib ws ctx n base e (s, sg)))) =
      decided (fst (fst (stage_put lib ws ctx' n' base' e (s', sg'))))"
  proof (cases "bs_accepted st = 0")
    case True
    show ?thesis
      unfolding stage_put_def Let_def case_prod_beta now b [unfolded now] b' fst_conv snd_conv if_P [OF True]
      by (intro decided_push decided_store cap)
  next
    case False
    show ?thesis
      unfolding stage_put_def Let_def case_prod_beta now b [unfolded now] b' fst_conv snd_conv if_not_P [OF False]
      by (intro decided_store decided_partial decided_unpin decided_remove_rejection(1)) (simp add: d)
  qed
  show "snd (stage_put lib ws ctx n base e (s, sg)) = snd (stage_put lib ws ctx' n' base' e (s', sg'))"
    by (simp add: stage_put_def Let_def case_prod_beta b b')
  show "same_view base (snd (fst (stage_put lib ws ctx n base e (s, sg))))
       base' (snd (fst (stage_put lib ws ctx' n' base' e (s', sg'))))"
    using v by (simp add: stage_put_def Let_def case_prod_beta b b' same_view_def view_record_put)
qed

lemma stage_delete_decided:
  assumes d: "decided s = decided s'" and v: "same_view base sg base' sg'"
  shows "decided (fst (fst (stage_delete ws key r base (s, sg)))) =
      decided (fst (fst (stage_delete ws key r base' (s', sg'))))"
    and "snd (stage_delete ws key r base (s, sg)) = snd (stage_delete ws key r base' (s', sg'))"
    and "same_view base (snd (fst (stage_delete ws key r base (s, sg))))
       base' (snd (fst (stage_delete ws key r base' (s', sg'))))"
proof -
  let ?f = "\<lambda>s. let s = update_partial_row key None (fst (remove_rejection_for_key key s));
      s = s\<lparr>sv_stale := (sv_stale s)(key := None)\<rparr>
    in s\<lparr>sv_state := fst (observed_remove key (sv_state s))\<rparr>"
  let ?g = "\<lambda>s. snd (observed_remove key (sv_state (update_partial_row key None (fst (remove_rejection_for_key key s)))))"
  have f: "decided (?f s) = decided (?f s')"
    unfolding Let_def
    by (intro decided_remove(1) decided_unpin decided_partial decided_remove_rejection(1) d)
  have g: "?g s = None \<longleftrightarrow> ?g s' = None"
    by (intro decided_remove(2) decided_partial decided_remove_rejection(1) d)
  note rr = decided_remove_rejection(2) [OF d, of key]
  have p: "view_present (sg_view sg) base k i = view_present (sg_view sg') base' k i" for k i
    using v by (simp add: same_view_def)
  show "decided (fst (fst (stage_delete ws key r base (s, sg)))) =
      decided (fst (fst (stage_delete ws key r base' (s', sg'))))"
    using f by (auto simp: stage_delete_def Let_def case_prod_beta p rr g d
        intro!: decided_raise simp del: fun_upd_apply split: sum.split)
  show "snd (stage_delete ws key r base (s, sg)) = snd (stage_delete ws key r base' (s', sg'))"
    by (auto simp: stage_delete_def Let_def case_prod_beta p rr split: sum.split)
  show "same_view base (snd (fst (stage_delete ws key r base (s, sg))))
       base' (snd (fst (stage_delete ws key r base' (s', sg'))))"
    using v by (auto simp: stage_delete_def Let_def case_prod_beta same_view_def view_record_delete split: sum.split)
qed

lemma stage_event_decided:
  assumes "decided (fst acc) = decided (fst acc')" and "same_view base (snd acc) base' (snd acc')"
    and "shifted ctx n ctx' n'"
    and "stage_event lib ws ctx n base acc ev = (acc1, o1)"
    and "stage_event lib ws ctx' n' base' acc' ev = (acc2, o2)"
  shows "decided (fst acc1) = decided (fst acc2) \<and> same_view base (snd acc1) base' (snd acc2) \<and> o1 = o2"
proof -
  obtain s sg s' sg' where a: "acc = (s, sg)" "acc' = (s', sg')" by fastforce
  show ?thesis
  proof (cases ev)
    case (Put e)
    with assms(4,5) have "stage_put lib ws ctx n base e (s, sg) = (acc1, o1)"
      "stage_put lib ws ctx' n' base' e (s', sg') = (acc2, o2)" by (simp_all add: a)
    then show ?thesis
      using stage_put_decided [of s s' base sg base' sg' ctx n ctx' n' lib ws e] assms(1-3) by (simp add: a)
  next
    case (Delete key r)
    with assms(4,5) have "stage_delete ws key r base (s, sg) = (acc1, o1)"
      "stage_delete ws key r base' (s', sg') = (acc2, o2)" by (simp_all add: a)
    then show ?thesis
      using stage_delete_decided [of s s' base sg base' sg' ws key r] assms(1-3) by (simp add: a)
  qed
qed

lemma shifted_Suc: "shifted ctx n ctx' n' \<Longrightarrow> shifted ctx (n + 1) ctx' (n' + 1)"
  unfolding shifted_def by (metis add.assoc add.commute)

lemma stage_events_decided:
  assumes "decided (fst acc) = decided (fst acc')" and "same_view base (snd acc) base' (snd acc')"
    and "shifted ctx n ctx' n'"
    and "stage_events lib ws ctx n base acc evs = (acc1, o1)"
    and "stage_events lib ws ctx' n' base' acc' evs = (acc2, o2)"
  shows "decided (fst acc1) = decided (fst acc2) \<and> o1 = o2"
  using assms
proof (induction evs arbitrary: acc acc' n n' acc1 acc2 o1 o2)
  case (Cons ev evs)
  obtain b1 p1 where e1: "stage_event lib ws ctx n base acc ev = (b1, p1)" by fastforce
  obtain b2 p2 where e2: "stage_event lib ws ctx' n' base' acc' ev = (b2, p2)" by fastforce
  obtain c1 q1 where t1: "stage_events lib ws ctx (n + 1) base b1 evs = (c1, q1)" by fastforce
  obtain c2 q2 where t2: "stage_events lib ws ctx' (n' + 1) base' b2 evs = (c2, q2)" by fastforce
  from stage_event_decided [OF Cons.prems(1-3) e1 e2]
  have b: "decided (fst b1) = decided (fst b2)" "same_view base (snd b1) base' (snd b2)" "p1 = p2" by auto
  from Cons.IH [OF b(1,2) shifted_Suc [OF Cons.prems(3)] t1 t2] b(3) Cons.prems(4,5) e1 e2 t1 t2
  show ?case by simp
qed simp

lemma stage_events_append:
  "stage_events lib ws ctx n base acc (xs @ ys) =
     (case stage_events lib ws ctx n base acc xs of
        (acc1, o1) \<Rightarrow> (case stage_events lib ws ctx (n + length xs) base acc1 ys of (acc2, o2) \<Rightarrow> (acc2, o1 @ o2)))"
  by (induction xs arbitrary: n acc) (simp_all add: Let_def case_prod_beta)

lemma apply_events_decided:
  assumes "stage_events lib ws ctx 0 (sv_snapshot s) (s, staging_default) evs = ((s1, sg), outs)"
  shows "decided (fst (apply_events lib ws ctx evs s)) = decided s1"
    and "snd (apply_events lib ws ctx evs s) = outs"
  by (simp_all add: apply_events_def assms Let_def case_prod_beta split: option.split)

text \<open>After an apply the snapshot has the places its view reported.\<close>

lemma view_start: "view_present (sg_view staging_default) base kind i = snapshot_has base kind i"
  by (simp add: view_present_def staging_default_def)

lemma apply_events_places:
  assumes d: "distinct (map wp_scope ws)" and c: "walks (ac_walk ctx)" and ok: "sup_ok lib ws s"
    and w: "\<forall>ev \<in> set evs. well_placed ws (event_key ev)"
    and st: "stage_events lib ws ctx 0 (sv_snapshot s) (s, staging_default) evs = ((s1, sg), outs)"
  shows "same_view (sv_snapshot s) sg (sv_snapshot (fst (apply_events lib ws ctx evs s))) staging_default"
proof -
  let ?s = "fst (apply_events lib ws ctx evs s)"
  from apply_events_ok [OF d c ok w] have "sup_ok lib ws ?s" by simp
  then have r: "shows_rows lib ws (snap_rows (sv_snapshot ?s)) (serving lib ws ?s)" by (simp add: sup_ok_def)
  have serv: "serving lib ws ?s = serving lib ws s1" by (rule decided_serving [OF apply_events_decided(1) [OF st]])
  have "staged_ok lib ws (sv_snapshot s) (s1, sg)"
    using stage_events_ok [OF d c sup_ok_start [OF ok] w st] by (rule conjunct1)
  then have "shows_rows lib ws (staged_rows (sv_snapshot s) (sg_mutations sg)) (serving lib ws s1)"
    and v: "view_ok (sv_snapshot s) sg" by (simp_all add: staged_ok_def)
  with r serv have "snap_rows (sv_snapshot ?s) p = staged_rows (sv_snapshot s) (sg_mutations sg) p" for p
    by (cases p) (rule option_ext, simp add: shows_rows_def)
  with v show ?thesis
    by (simp add: same_view_def view_ok_def view_start snapshot_has_rows)
qed

text \<open>C5. Coalescing watch events is invisible: on every reachable state a batch of two runs of events and
  the two runs applied one after the other, each event reading the clock at the same instants, give each
  event the same outcome and leave the same observed entries and version, the same revision, rejections,
  partially compatible rows and pins, and the same rows in every table.\<close>

theorem batching_is_invisible:
  assumes d: "distinct (map wp_scope ws)" and ops: "list_all (op_ok ws) ops"
    and s: "s = sup_run lib ws (supervisor_new ctr cache) ops"
    and ctx: "ctx_ok ctx" "ctx_ok ctx'" "\<forall>i. ac_now ctx' i = ac_now ctx (2 * length xs + i)"
    and w: "list_all (\<lambda>ev. well_placed ws (event_key ev)) (xs @ ys)"
    and one: "apply_events lib ws ctx (xs @ ys) s = (s1, outs)"
    and two: "apply_events lib ws ctx xs s = (t1, outs1)" "apply_events lib ws ctx' ys t1 = (t2, outs2)"
  shows "outs = outs1 @ outs2 \<and> decided s1 = decided t2 \<and>
    snap_rows (sv_snapshot s1) = snap_rows (sv_snapshot t2)"
proof -
  have ok: "sup_ok lib ws s" using sup_run_ok [OF d sup_new_ok(1) ops, of lib ctr cache] s by simp
  have wx: "\<forall>ev \<in> set xs. well_placed ws (event_key ev)" "\<forall>ev \<in> set ys. well_placed ws (event_key ev)"
    "\<forall>ev \<in> set (xs @ ys). well_placed ws (event_key ev)" using w by (auto simp: list_all_iff)
  have wk: "walks (ac_walk ctx)" "walks (ac_walk ctx')" using ctx by (simp_all add: ctx_ok_def)
  obtain u1 g1 p1 where x: "stage_events lib ws ctx 0 (sv_snapshot s) (s, staging_default) xs = ((u1, g1), p1)"
    by (metis surj_pair)
  obtain u2 g2 p2 where y: "stage_events lib ws ctx (length xs) (sv_snapshot s) (u1, g1) ys = ((u2, g2), p2)"
    by (metis surj_pair)
  obtain v2 h2 q2 where z: "stage_events lib ws ctx' 0 (sv_snapshot t1) (t1, staging_default) ys = ((v2, h2), q2)"
    by (metis surj_pair)
  have xy: "stage_events lib ws ctx 0 (sv_snapshot s) (s, staging_default) (xs @ ys) = ((u2, g2), p1 @ p2)"
    by (simp add: stage_events_append x y)
  have dt: "decided u1 = decided t1" using apply_events_decided(1) [OF x] two(1) by simp
  have sv: "same_view (sv_snapshot s) g1 (sv_snapshot t1) staging_default"
    using apply_events_places [OF d wk(1) ok wx(1) x] two(1) by simp
  have sh: "shifted ctx (length xs) ctx' 0" using ctx(3) by (simp add: shifted_def algebra_simps)
  from stage_events_decided [OF _ _ sh y z] dt sv
  have e: "decided u2 = decided v2" "p2 = q2" by simp_all
  have o: "outs1 = p1" "outs2 = q2" "outs = p1 @ p2"
    using apply_events_decided(2) [OF x] apply_events_decided(2) [OF z] apply_events_decided(2) [OF xy] one two
    by simp_all
  have dec: "decided s1 = decided t2"
    using apply_events_decided(1) [OF xy] apply_events_decided(1) [OF z] one two e(1) by simp
  have ok1: "sup_ok lib ws s1" using apply_events_ok [OF d wk(1) ok wx(3)] one by simp
  have "sup_ok lib ws t1" using apply_events_ok [OF d wk(1) ok wx(1)] two(1) by simp
  then have ok2: "sup_ok lib ws t2" using apply_events_ok [OF d wk(2) _ wx(2)] two(2) by fastforce
  have "snap_rows (sv_snapshot s1) = snap_rows (sv_snapshot t2)"
    by (rule rows_from_serving [OF ok2 ok1]) (rule decided_serving [OF dec])
  with e o dec show ?thesis by simp
qed

text \<open>A write that loads, then one that does not, then a delete, in one batch and in two.\<close>

lemma batching_is_invisible_witness:
  "\<exists>s1 t1 t2 outs outs1 outs2.
     apply_events ex_lib ex_ws ex_ctx
       ([Put (ex_entry ''/e/models/m'' [1] 1), Put (ex_entry ''/e/models/m'' [0] 2)] @ [Delete ''/e/models/m'' (Some 3)])
       (supervisor_new 1 True) = (s1, outs) \<and>
     apply_events ex_lib ex_ws ex_ctx
       [Put (ex_entry ''/e/models/m'' [1] 1), Put (ex_entry ''/e/models/m'' [0] 2)] (supervisor_new 1 True) = (t1, outs1) \<and>
     apply_events ex_lib ex_ws ex_ctx [Delete ''/e/models/m'' (Some 3)] t1 = (t2, outs2) \<and>
     outs = outs1 @ outs2 \<and> decided s1 = decided t2 \<and> snap_rows (sv_snapshot s1) = snap_rows (sv_snapshot t2)"
proof -
  let ?xs = "[Put (ex_entry ''/e/models/m'' [1] 1), Put (ex_entry ''/e/models/m'' [0] 2)]"
  let ?ys = "[Delete ''/e/models/m'' (Some 3)]"
  obtain s1 outs where a: "apply_events ex_lib ex_ws ex_ctx (?xs @ ?ys) (supervisor_new 1 True) = (s1, outs)" by fastforce
  obtain t1 outs1 where b: "apply_events ex_lib ex_ws ex_ctx ?xs (supervisor_new 1 True) = (t1, outs1)" by fastforce
  obtain t2 outs2 where c: "apply_events ex_lib ex_ws ex_ctx ?ys t1 = (t2, outs2)" by fastforce
  have "supervisor_new 1 True = sup_run ex_lib ex_ws (supervisor_new 1 True) []" by (simp add: sup_run_def)
  from batching_is_invisible [OF ex_ws_distinct _ this ex_ctx_ok ex_ctx_ok _ _ a b c] a b c
  show ?thesis by (simp add: ex_ctx_def)
qed

section \<open>A misplaced key\<close>

text \<open>The place a delete clears is chosen by kind and id; a key under the shared catalog with a kind of the
  environment, which the loader refuses, names the environment's place.\<close>

lemma stage_delete_present:
  assumes "resolve_key ws key = Inr k" and "view_present (sg_view sg) base (selector_kind k) (sk_id k)"
  shows "sg_mutations (snd (fst (stage_delete ws key r base (s, sg)))) =
      sg_mutations sg @ [RemoveRow (selector_kind k) (sk_id k)]"
  by (simp add: stage_delete_def assms Let_def case_prod_beta raise_revision_floor_def split: option.split)

lemma delete_removes_place:
  assumes k: "resolve_key ws key = Inr k" "selected_table (selector_kind k) = Some t"
    and row: "by_id (sv_snapshot s t) (sk_id k) \<noteq> None"
  shows "by_id (sv_snapshot (fst (apply_delete lib ws ctx key s)) t) (sk_id k) = None"
proof -
  have "view_present (sg_view staging_default) (sv_snapshot s) (selector_kind k) (sk_id k)"
    using row by (simp add: view_start snapshot_has_def k(2) get_by_id_def)
  note m = stage_delete_present [OF k(1) this, of None s]
  have "by_id (snd (remove_from_snapshot lib (selector_kind k) (sk_id k) cs) t) (sk_id k) = None" for cs
    by (simp add: remove_from_snapshot_def k(2) table_remove_def case_prod_beta Let_def split: option.split)
  then show ?thesis
    using m by (simp add: apply_delete_def apply_events_def Let_def case_prod_beta staging_default_def split: option.split)
qed

lemma misplaced_delete_removes_row:
  "let s = fst (apply_put ex_lib ex_ws ex_ctx (ex_entry ''/e/models/m'' [1] 1) (supervisor_new 1 True));
       s' = fst (apply_delete ex_lib ex_ws ex_ctx ''/g/models/m'' s)
   in by_id (sv_snapshot s Models) ''m'' = Some \<lparr>re_id = ''m'', re_value = [1], re_revision = 1\<rparr> \<and>
      by_id (sv_snapshot s' Models) ''m'' = None"
proof -
  define s where "s = fst (apply_put ex_lib ex_ws ex_ctx (ex_entry ''/e/models/m'' [1] 1) (supervisor_new 1 True))"
  have run: "s = sup_run ex_lib ex_ws (supervisor_new 1 True) [(ex_ctx, Batch [Put (ex_entry ''/e/models/m'' [1] 1)])]"
    by (simp add: s_def apply_put_def sup_run_def case_prod_beta)
  have ok: "list_all (op_ok ex_ws) [(ex_ctx, Batch [Put (ex_entry ''/e/models/m'' [1] 1)])]" by (simp add: ex_ctx_ok)
  from sup_run_ok [OF ex_ws_distinct sup_new_ok(1) ok, of ex_lib 1 True, folded run]
  have "by_id (sv_snapshot s Models) ''m'' = Some \<lparr>re_id = ''m'', re_value = [1], re_revision = 1\<rparr>"
    by (simp add: sup_ok_def shows_rows_def snap_rows_def sup_new_ok(2) loads_def ex_rows)
  with delete_removes_place [of ex_ws "''/g/models/m''" _ Models s ex_lib ex_ctx]
  show ?thesis by (simp add: Let_def s_def selector_kind_def selected_table_def KIND_TABLES_def)
qed
end
