(* ===== verification/Config_Status_Results.thy ===== *)
theory Config_Status_Results
  imports Config_Status
begin

text \<open>
  What the load status promises over every sequence of recordings: details are bounded while a rejection
  is always shown, a reload is called successful only when nothing is rejected, rows of an unknown kind
  disturb nothing, and the apply counter counts the changes of what is applied.
\<close>

section \<open>Runs\<close>

datatype status_op =
    Load load_observation
  | BuildRejections "incoming_rejection list"
  | Warnings "config_warning list"
  | FetchFailure

fun status_step :: "status_lib \<Rightarrow> config_status \<Rightarrow> int \<times> status_op \<Rightarrow> config_status" where
  "status_step lib c (now, Load obs) = record_load lib now obs c"
| "status_step lib c (now, BuildRejections rs) = record_build_rejections lib now rs c"
| "status_step lib c (now, Warnings ws) = record_warnings ws c"
| "status_step lib c (now, FetchFailure) = record_fetch_failure now c"

definition status_run :: "status_lib \<Rightarrow> source_kind \<Rightarrow> (int \<times> status_op) list \<Rightarrow> config_status" where
  "status_run lib kind ops = foldl (status_step lib) (config_status_new kind) ops"

lemma status_run_snoc: "status_run lib kind (ops @ [op]) = status_step lib (status_run lib kind ops) op"
  by (simp add: status_run_def)

section \<open>Ordered maps\<close>

lemma set_keys_asc: "finite (dom m) \<Longrightarrow> set (keys_asc m) = dom m"
  by (simp add: keys_asc_def)

lemma entries_asc_Some: "finite (dom m) \<Longrightarrow> (k, v) \<in> set (entries_asc m) \<longleftrightarrow> m k = Some v"
  by (auto simp: entries_asc_def set_keys_asc image_iff dom_def)

lemma fst_entries_asc: "map fst (entries_asc m) = keys_asc m"
  by (simp add: entries_asc_def comp_def)

lemma length_entries_asc: "length (entries_asc m) = card (dom m)"
  by (simp add: entries_asc_def keys_asc_def)

lemma values_asc_entries: "values_asc m = map snd (entries_asc m)"
  by (simp add: values_asc_def entries_asc_def)

lemma values_asc_Nil: "finite (dom m) \<Longrightarrow> values_asc m = [] \<longleftrightarrow> m = Map.empty"
  by (simp add: values_asc_def keys_asc_def)

lemma asc_empty [simp]: "keys_asc Map.empty = []" "values_asc Map.empty = []" "entries_asc Map.empty = []"
  by (simp_all add: keys_asc_def values_asc_def entries_asc_def)

lemma asc_single [simp]: "keys_asc [k \<mapsto> v] = [k]" "values_asc [k \<mapsto> v] = [v]" "entries_asc [k \<mapsto> v] = [(k, v)]"
  by (simp_all add: keys_asc_def values_asc_def entries_asc_def)

lemma finite_by_identity: "finite (dom (by_identity rs))"
  by (induction rs rule: rev_induct) (simp_all add: by_identity_def del: fun_upd_apply)

lemma by_identity_row: "by_identity rs i = Some r \<Longrightarrow> r \<in> set rs"
  by (induction rs rule: rev_induct) (auto simp: by_identity_def split: if_splits)

lemma counts_by_empty: "counts_by f xs = Map.empty \<longleftrightarrow> xs = []"
  by (induction xs rule: rev_induct) (simp_all add: counts_by_def add_count_def del: fun_upd_apply)

lemma retain_dom: "dom (retain_details n prev all) = set (take n (keys_asc all))"
  by (simp add: retain_details_def dom_map_of_conv_image_fst image_image case_prod_beta
           flip: fst_entries_asc) (simp add: take_map image_image)

lemma retain_finite [simp]: "finite (dom (retain_details n prev all))"
  by (simp add: retain_dom)

lemma retain_card: "card (dom (retain_details n prev all)) \<le> n"
  unfolding retain_dom by (rule order_trans [OF card_length]) simp

lemma retain_empty:
  "finite (dom all) \<Longrightarrow> retain_details n prev all = Map.empty \<longleftrightarrow> n = 0 \<or> all = Map.empty"
  using retain_dom [of n prev all] by (auto simp: keys_asc_def)

lemma retain_row:
  assumes "finite (dom all)" and "retain_details n prev all i = Some r"
  obtains x where "all i = Some x" and "r = retain_detail (prev i) x"
proof -
  from map_of_SomeD [OF assms(2) [unfolded retain_details_def]]
  obtain x where "(i, x) \<in> set (take n (entries_asc all))" "r = retain_detail (prev i) x" by auto
  with that in_set_takeD entries_asc_Some [OF assms(1)] show ?thesis by metis
qed

section \<open>The invariant\<close>

definition status_ok :: "config_status \<Rightarrow> bool" where
  "status_ok c \<longleftrightarrow>
     finite (dom (cf_rejected c)) \<and> finite (dom (cf_build_rejected c)) \<and> finite (dom (cf_unknown_kind c)) \<and>
     card (dom (cf_rejected c)) + card (dom (cf_build_rejected c)) \<le> MAX_CONFIG_REJECTIONS \<and>
     card (dom (cf_unknown_kind c)) \<le> MAX_CONFIG_UNKNOWN_KINDS \<and>
     (cf_rejected c \<noteq> Map.empty \<longrightarrow> cf_rejected_counts c \<noteq> Map.empty) \<and>
     (cf_build_rejected c \<noteq> Map.empty \<longrightarrow> cf_build_rejected_counts c \<noteq> Map.empty) \<and>
     (has_rejections c \<longrightarrow> cf_last_failure c \<noteq> None \<and> \<not> cf_last_reload_successful c) \<and>
     (cf_last_reload_successful c \<longrightarrow> cf_connected c) \<and>
     (cf_ever_applied_tx c \<longleftrightarrow> cf_ever_applied c) \<and>
     (cf_config_hash c \<noteq> None \<longleftrightarrow> cf_ever_applied c) \<and>
     (cf_applied_at c \<noteq> None \<longleftrightarrow> cf_ever_applied c) \<and> (0 < cf_apply_seq c \<longleftrightarrow> cf_ever_applied c)"

lemma status_ok_new: "status_ok (config_status_new kind)"
  by (simp add: status_ok_def config_status_new_def has_rejections_def)

lemma first_detail_None:
  "finite (dom m) \<Longrightarrow> finite (dom m') \<Longrightarrow> first_detail m m' = None \<longleftrightarrow> m = Map.empty \<and> m' = Map.empty"
  by (simp add: first_detail_def values_asc_Nil split: list.split) (metis values_asc_Nil append_is_Nil_conv list.discI)

text \<open>What a recording leaves in each field the invariant reads.\<close>

abbreviation rejected_rows :: "load_observation \<Rightarrow> (string \<rightharpoonup> incoming_rejection)" where
  "rejected_rows obs \<equiv> by_identity (filter (\<lambda>r. \<not> unknown_row r) (lo_rejected obs))"

abbreviation unknown_rows :: "load_observation \<Rightarrow> (string \<rightharpoonup> incoming_rejection)" where
  "unknown_rows obs \<equiv> by_identity (filter unknown_row (lo_rejected obs))"

lemma record_observed_frame [simp]:
  "cf_rejected (record_observed now obs c) = cf_rejected c"
  "cf_rejected_counts (record_observed now obs c) = cf_rejected_counts c"
  "cf_unknown_kind (record_observed now obs c) = cf_unknown_kind c"
  "cf_build_rejected (record_observed now obs c) = cf_build_rejected c"
  "cf_build_rejected_counts (record_observed now obs c) = cf_build_rejected_counts c"
  "cf_build_identity_hash (record_observed now obs c) = cf_build_identity_hash c"
  "cf_ever_applied (record_observed now obs c) = cf_ever_applied c"
  "cf_ever_applied_tx (record_observed now obs c) = cf_ever_applied_tx c"
  "cf_config_hash (record_observed now obs c) = cf_config_hash c"
  "cf_apply_seq (record_observed now obs c) = cf_apply_seq c"
  "cf_applied_at (record_observed now obs c) = cf_applied_at c"
  "cf_last_failure (record_observed now obs c) = cf_last_failure c"
  "cf_connected (record_observed now obs c)"
  by (simp_all add: record_observed_def)

lemma record_applied_frame [simp]:
  "cf_rejected (record_applied a c) = cf_rejected c"
  "cf_rejected_counts (record_applied a c) = cf_rejected_counts c"
  "cf_unknown_kind (record_applied a c) = cf_unknown_kind c"
  "cf_build_rejected (record_applied a c) = cf_build_rejected c"
  "cf_build_rejected_counts (record_applied a c) = cf_build_rejected_counts c"
  "cf_build_identity_hash (record_applied a c) = cf_build_identity_hash c"
  "cf_apply_seq (record_applied a c) = cf_apply_seq c"
  "cf_applied_at (record_applied a c) = cf_applied_at c"
  "cf_last_failure (record_applied a c) = cf_last_failure c"
  "cf_connected (record_applied a c) = cf_connected c"
  "cf_ever_applied (record_applied a c) \<longleftrightarrow> cf_ever_applied c \<or> a \<noteq> None"
  "cf_ever_applied_tx (record_applied a c) \<longleftrightarrow> cf_ever_applied_tx c \<or> \<not> cf_ever_applied c \<and> a \<noteq> None"
  "cf_config_hash (record_applied a c) = (case a of Some x \<Rightarrow> Some (ap_config_hash x) | None \<Rightarrow> cf_config_hash c)"
  by (cases a; simp add: record_applied_def)+

lemma record_rows_frame [simp]:
  "cf_rejected (record_rows obs c) =
     retain_details (MAX_CONFIG_REJECTIONS - card (dom (cf_build_rejected c))) (cf_rejected c) (rejected_rows obs)"
  "cf_rejected_counts (record_rows obs c) = counts_by ir_resource_kind (values_asc (rejected_rows obs))"
  "cf_unknown_kind (record_rows obs c) =
     retain_details MAX_CONFIG_UNKNOWN_KINDS (cf_unknown_kind c) (unknown_rows obs)"
  "cf_build_rejected (record_rows obs c) = cf_build_rejected c"
  "cf_build_rejected_counts (record_rows obs c) = cf_build_rejected_counts c"
  "cf_build_identity_hash (record_rows obs c) = cf_build_identity_hash c"
  "cf_apply_seq (record_rows obs c) = cf_apply_seq c"
  "cf_applied_at (record_rows obs c) = cf_applied_at c"
  "cf_last_failure (record_rows obs c) = cf_last_failure c"
  "cf_connected (record_rows obs c) = cf_connected c"
  "cf_ever_applied (record_rows obs c) = cf_ever_applied c"
  "cf_ever_applied_tx (record_rows obs c) = cf_ever_applied_tx c"
  "cf_config_hash (record_rows obs c) = cf_config_hash c"
  by (simp_all add: record_rows_def Let_def)

lemma count_apply_frame [simp]:
  "cf_rejected (count_apply now b c) = cf_rejected c"
  "cf_rejected_counts (count_apply now b c) = cf_rejected_counts c"
  "cf_unknown_kind (count_apply now b c) = cf_unknown_kind c"
  "cf_build_rejected (count_apply now b c) = cf_build_rejected c"
  "cf_build_rejected_counts (count_apply now b c) = cf_build_rejected_counts c"
  "cf_build_identity_hash (count_apply now b c) = cf_build_identity_hash c"
  "cf_apply_seq (count_apply now b c) = cf_apply_seq c + of_bool (cf_ever_applied c \<and> b)"
  "cf_applied_at (count_apply now b c) = (if cf_ever_applied c \<and> b then Some now else cf_applied_at c)"
  "cf_last_failure (count_apply now b c) = cf_last_failure c"
  "cf_connected (count_apply now b c) = cf_connected c"
  "cf_ever_applied (count_apply now b c) = cf_ever_applied c"
  "cf_ever_applied_tx (count_apply now b c) = cf_ever_applied_tx c"
  "cf_config_hash (count_apply now b c) = cf_config_hash c"
  by (simp_all add: count_apply_def)

lemma sticky_failure_set_frame [simp]:
  "cf_rejected (sticky_failure_set now r c) = cf_rejected c"
  "cf_rejected_counts (sticky_failure_set now r c) = cf_rejected_counts c"
  "cf_unknown_kind (sticky_failure_set now r c) = cf_unknown_kind c"
  "cf_build_rejected (sticky_failure_set now r c) = cf_build_rejected c"
  "cf_build_rejected_counts (sticky_failure_set now r c) = cf_build_rejected_counts c"
  "cf_build_identity_hash (sticky_failure_set now r c) = cf_build_identity_hash c"
  "cf_apply_seq (sticky_failure_set now r c) = cf_apply_seq c"
  "cf_applied_at (sticky_failure_set now r c) = cf_applied_at c"
  "cf_last_failure (sticky_failure_set now r c) =
     (case r of Some x \<Rightarrow> Some (failure_of now x) | None \<Rightarrow> cf_last_failure c)"
  "cf_last_reload_successful (sticky_failure_set now r c) = cf_last_reload_successful c"
  "cf_connected (sticky_failure_set now r c) = cf_connected c"
  "cf_ever_applied (sticky_failure_set now r c) = cf_ever_applied c"
  "cf_ever_applied_tx (sticky_failure_set now r c) = cf_ever_applied_tx c"
  "cf_config_hash (sticky_failure_set now r c) = cf_config_hash c"
  by (simp_all add: sticky_failure_set_def)

lemma record_outcome_frame [simp]:
  "cf_rejected (record_outcome now c) = cf_rejected c"
  "cf_rejected_counts (record_outcome now c) = cf_rejected_counts c"
  "cf_unknown_kind (record_outcome now c) = cf_unknown_kind c"
  "cf_build_rejected (record_outcome now c) = cf_build_rejected c"
  "cf_build_rejected_counts (record_outcome now c) = cf_build_rejected_counts c"
  "cf_build_identity_hash (record_outcome now c) = cf_build_identity_hash c"
  "cf_apply_seq (record_outcome now c) = cf_apply_seq c"
  "cf_applied_at (record_outcome now c) = cf_applied_at c"
  "cf_last_failure (record_outcome now c) =
     (if has_rejections c
      then case first_detail (cf_rejected c) (cf_build_rejected c) of
             Some x \<Rightarrow> Some (failure_of now x) | None \<Rightarrow> cf_last_failure c
      else cf_last_failure c)"
  "cf_last_reload_successful (record_outcome now c) \<longleftrightarrow> \<not> has_rejections c"
  "cf_connected (record_outcome now c) = cf_connected c"
  "cf_ever_applied (record_outcome now c) = cf_ever_applied c"
  "cf_ever_applied_tx (record_outcome now c) = cf_ever_applied_tx c"
  "cf_config_hash (record_outcome now c) = cf_config_hash c"
  by (simp_all add: record_outcome_def Let_def has_rejections_def split: option.split)

lemma count_reload_frame [simp]:
  "cf_rejected (count_reload obs c) = cf_rejected c"
  "cf_rejected_counts (count_reload obs c) = cf_rejected_counts c"
  "cf_unknown_kind (count_reload obs c) = cf_unknown_kind c"
  "cf_build_rejected (count_reload obs c) = cf_build_rejected c"
  "cf_build_rejected_counts (count_reload obs c) = cf_build_rejected_counts c"
  "cf_build_identity_hash (count_reload obs c) = cf_build_identity_hash c"
  "cf_apply_seq (count_reload obs c) = cf_apply_seq c"
  "cf_applied_at (count_reload obs c) = cf_applied_at c"
  "cf_last_failure (count_reload obs c) = cf_last_failure c"
  "cf_last_reload_successful (count_reload obs c) = cf_last_reload_successful c"
  "cf_connected (count_reload obs c) = cf_connected c"
  "cf_ever_applied (count_reload obs c) = cf_ever_applied c"
  "cf_ever_applied_tx (count_reload obs c) = cf_ever_applied_tx c"
  "cf_config_hash (count_reload obs c) = cf_config_hash c"
  by (simp_all add: count_reload_def)

lemma has_rejections_frame [simp]:
  "has_rejections (count_reload obs c) = has_rejections c"
  "has_rejections (record_outcome now c) = has_rejections c"
  "has_rejections (sticky_failure_set now r c) = has_rejections c"
  "has_rejections (count_apply now b c) = has_rejections c"
  by (simp_all add: has_rejections_def)

lemma effective_version_cong:
  "cf_config_hash c = cf_config_hash c' \<Longrightarrow> cf_build_identity_hash c = cf_build_identity_hash c' \<Longrightarrow>
     effective_config_version lib c = effective_config_version lib c'"
  by (simp add: effective_config_version_def split: option.split)

lemma effective_version_None: "effective_config_version lib c = None \<longleftrightarrow> cf_config_hash c = None"
  by (simp add: effective_config_version_def split: option.split)

lemma details_bounded: "a \<le> m - b \<Longrightarrow> b \<le> m \<Longrightarrow> a + b \<le> (m::nat)" by simp

lemma by_identity_counts:
  "counts_by ir_resource_kind (values_asc (by_identity rs)) = Map.empty \<longleftrightarrow> by_identity rs = Map.empty"
  by (simp add: counts_by_empty values_asc_Nil finite_by_identity)

lemma record_load_ok:
  assumes ok: "status_ok c"
  shows "status_ok (record_load lib now obs c)"
proof -
  have fin: "finite (dom (cf_build_rejected c))" and le: "card (dom (cf_build_rejected c)) \<le> MAX_CONFIG_REJECTIONS"
    using ok by (simp_all add: status_ok_def)
  define c' where "c' = record_load lib now obs c"
  have bound: "card (dom (cf_rejected c')) + card (dom (cf_build_rejected c')) \<le> MAX_CONFIG_REJECTIONS"
    by (simp add: c'_def record_load_def Let_def details_bounded [OF retain_card le])
  have hr: "has_rejections c' \<longleftrightarrow> rejected_rows obs \<noteq> Map.empty \<or> cf_build_rejected_counts c \<noteq> Map.empty"
    by (simp add: c'_def record_load_def Let_def has_rejections_def [of "record_rows _ _"] by_identity_counts)
  have fail: "cf_last_failure c' \<noteq> None" if "has_rejections c'"
  proof (cases "first_detail (cf_rejected c') (cf_build_rejected c)")
    case None
    moreover have "finite (dom (cf_rejected c'))" by (simp add: c'_def record_load_def Let_def)
    ultimately have "cf_rejected c' = Map.empty" "cf_build_rejected c = Map.empty"
      using first_detail_None fin by blast+
    then have "retain_details MAX_CONFIG_REJECTIONS (cf_rejected c) (rejected_rows obs) = Map.empty"
      by (auto simp: c'_def record_load_def Let_def)
    then have "rejected_rows obs = Map.empty"
      by (simp add: retain_empty finite_by_identity MAX_CONFIG_REJECTIONS_def)
    with hr that have "has_rejections c" by (simp add: has_rejections_def)
    with ok None that show ?thesis
      by (simp add: status_ok_def c'_def record_load_def Let_def)
  next
    case (Some r)
    with that show ?thesis by (simp add: c'_def record_load_def Let_def)
  qed
  have rest: "cf_rejected c' \<noteq> Map.empty \<longrightarrow> cf_rejected_counts c' \<noteq> Map.empty"
    "cf_build_rejected c' \<noteq> Map.empty \<longrightarrow> cf_build_rejected_counts c' \<noteq> Map.empty"
    "finite (dom (cf_rejected c'))" "finite (dom (cf_build_rejected c'))" "finite (dom (cf_unknown_kind c'))"
    "card (dom (cf_unknown_kind c')) \<le> MAX_CONFIG_UNKNOWN_KINDS" "cf_connected c'"
    "cf_last_reload_successful c' \<longleftrightarrow> \<not> has_rejections c'"
    using ok by (auto simp: c'_def record_load_def Let_def retain_card retain_empty finite_by_identity
        by_identity_counts status_ok_def)
  have applied: "cf_ever_applied_tx c' \<longleftrightarrow> cf_ever_applied c'" "cf_config_hash c' \<noteq> None \<longleftrightarrow> cf_ever_applied c'"
    "cf_applied_at c' \<noteq> None \<longleftrightarrow> cf_ever_applied c'" "0 < cf_apply_seq c' \<longleftrightarrow> cf_ever_applied c'"
    using ok by (auto simp: c'_def record_load_def Let_def status_ok_def split: option.split)
  show ?thesis
    unfolding c'_def [symmetric] status_ok_def using bound fail rest applied by simp
qed

lemma record_build_rows_frame [simp]:
  "cf_rejected (record_build_rows lib rs c) = cf_rejected c"
  "cf_rejected_counts (record_build_rows lib rs c) = cf_rejected_counts c"
  "cf_build_rejected (record_build_rows lib rs c) =
     retain_details (MAX_CONFIG_REJECTIONS - card (dom (cf_rejected c))) (cf_build_rejected c) (by_identity rs)"
  "cf_build_rejected_counts (record_build_rows lib rs c) = counts_by ir_resource_kind (values_asc (by_identity rs))"
  "cf_build_identity_hash (record_build_rows lib rs c) = build_identity_hash lib (by_identity rs)"
  "cf_unknown_kind (record_build_rows lib rs c) = cf_unknown_kind c"
  "cf_apply_seq (record_build_rows lib rs c) = cf_apply_seq c"
  "cf_applied_at (record_build_rows lib rs c) = cf_applied_at c"
  "cf_last_failure (record_build_rows lib rs c) = cf_last_failure c"
  "cf_connected (record_build_rows lib rs c) = cf_connected c"
  "cf_ever_applied (record_build_rows lib rs c) = cf_ever_applied c"
  "cf_ever_applied_tx (record_build_rows lib rs c) = cf_ever_applied_tx c"
  "cf_config_hash (record_build_rows lib rs c) = cf_config_hash c"
  by (simp_all add: record_build_rows_def Let_def)

lemma record_build_outcome_frame [simp]:
  "cf_rejected (record_build_outcome now c) = cf_rejected c"
  "cf_rejected_counts (record_build_outcome now c) = cf_rejected_counts c"
  "cf_build_rejected (record_build_outcome now c) = cf_build_rejected c"
  "cf_build_rejected_counts (record_build_outcome now c) = cf_build_rejected_counts c"
  "cf_build_identity_hash (record_build_outcome now c) = cf_build_identity_hash c"
  "cf_unknown_kind (record_build_outcome now c) = cf_unknown_kind c"
  "cf_apply_seq (record_build_outcome now c) = cf_apply_seq c"
  "cf_applied_at (record_build_outcome now c) = cf_applied_at c"
  "cf_last_reload_successful (record_build_outcome now c) \<longleftrightarrow> cf_connected c \<and> \<not> has_rejections c"
  "cf_last_failure (record_build_outcome now c) =
     (case first_detail (cf_build_rejected c) (cf_rejected c) of
        Some r \<Rightarrow> Some (failure_of now r) | None \<Rightarrow> cf_last_failure c)"
  "cf_connected (record_build_outcome now c) = cf_connected c"
  "cf_ever_applied (record_build_outcome now c) = cf_ever_applied c"
  "cf_ever_applied_tx (record_build_outcome now c) = cf_ever_applied_tx c"
  "cf_config_hash (record_build_outcome now c) = cf_config_hash c"
  by (simp_all add: record_build_outcome_def Let_def split: option.split)

lemma record_build_frame:
  fixes lib now c rs
  defines "c' \<equiv> record_build_rejections lib now rs c"
  shows "cf_rejected c' = cf_rejected c" "cf_rejected_counts c' = cf_rejected_counts c"
    "cf_build_rejected c' =
       retain_details (MAX_CONFIG_REJECTIONS - card (dom (cf_rejected c))) (cf_build_rejected c) (by_identity rs)"
    "cf_build_rejected_counts c' = counts_by ir_resource_kind (values_asc (by_identity rs))"
    "cf_unknown_kind c' = cf_unknown_kind c" "cf_connected c' = cf_connected c"
    "cf_ever_applied c' = cf_ever_applied c" "cf_ever_applied_tx c' = cf_ever_applied_tx c"
    "cf_config_hash c' = cf_config_hash c"
    "cf_last_reload_successful c' \<longleftrightarrow> cf_connected c \<and> \<not> has_rejections c'"
    "cf_last_failure c' =
       (case first_detail (cf_build_rejected c') (cf_rejected c') of
          Some r \<Rightarrow> Some (failure_of now r) | None \<Rightarrow> cf_last_failure c)"
  unfolding c'_def by (simp_all add: record_build_rejections_def Let_def has_rejections_def split: option.split)

lemma record_build_sequence:
  fixes lib now c rs
  defines "c' \<equiv> record_build_rejections lib now rs c"
  shows "cf_apply_seq c' = cf_apply_seq c +
      of_bool (cf_ever_applied c \<and> effective_config_version lib c \<noteq> effective_config_version lib c')"
    and "cf_applied_at c' =
      (if cf_ever_applied c \<and> effective_config_version lib c \<noteq> effective_config_version lib c' then Some now
       else cf_applied_at c)"
proof -
  have "effective_config_version lib c' = effective_config_version lib (record_build_rows lib rs c)"
    by (rule effective_version_cong) (simp_all add: c'_def record_build_rejections_def Let_def)
  then show "cf_apply_seq c' = cf_apply_seq c +
      of_bool (cf_ever_applied c \<and> effective_config_version lib c \<noteq> effective_config_version lib c')"
    "cf_applied_at c' =
      (if cf_ever_applied c \<and> effective_config_version lib c \<noteq> effective_config_version lib c' then Some now
       else cf_applied_at c)"
    by (simp_all add: c'_def record_build_rejections_def Let_def)
qed

lemma record_build_ok:
  assumes ok: "status_ok c"
  shows "status_ok (record_build_rejections lib now rs c)"
proof -
  have fin: "finite (dom (cf_rejected c))" and le: "card (dom (cf_rejected c)) \<le> MAX_CONFIG_REJECTIONS"
    using ok by (simp_all add: status_ok_def)
  define c' where "c' = record_build_rejections lib now rs c"
  note f = record_build_frame [of lib now rs c, folded c'_def]
  note q = record_build_sequence [of lib now rs c, folded c'_def]
  have bound: "card (dom (cf_rejected c')) + card (dom (cf_build_rejected c')) \<le> MAX_CONFIG_REJECTIONS"
    unfolding f(1,3) by (subst add.commute) (rule details_bounded [OF retain_card le])
  have fail: "cf_last_failure c' \<noteq> None" if "has_rejections c'"
  proof (cases "first_detail (cf_build_rejected c') (cf_rejected c')")
    case None
    have "finite (dom (cf_build_rejected c'))" "finite (dom (cf_rejected c'))" by (simp_all add: f(1,3) fin)
    with None have "cf_build_rejected c' = Map.empty" and e: "cf_rejected c = Map.empty"
      using first_detail_None f(1) by metis+
    then have "retain_details MAX_CONFIG_REJECTIONS (cf_build_rejected c) (by_identity rs) = Map.empty"
      by (auto simp: f(3))
    then have "by_identity rs = Map.empty" by (simp add: retain_empty finite_by_identity MAX_CONFIG_REJECTIONS_def)
    then have "cf_build_rejected_counts c' = Map.empty" using by_identity_counts [of rs] f(4) by metis
    with that have "has_rejections c" by (simp add: has_rejections_def f(2))
    with ok None show ?thesis by (simp add: status_ok_def f(11))
  next
    case (Some r)
    then show ?thesis by (simp add: f(11))
  qed
  have rest: "cf_rejected c' \<noteq> Map.empty \<longrightarrow> cf_rejected_counts c' \<noteq> Map.empty"
    "cf_build_rejected c' \<noteq> Map.empty \<longrightarrow> cf_build_rejected_counts c' \<noteq> Map.empty"
    "finite (dom (cf_rejected c'))" "finite (dom (cf_build_rejected c'))" "finite (dom (cf_unknown_kind c'))"
    "card (dom (cf_unknown_kind c')) \<le> MAX_CONFIG_UNKNOWN_KINDS"
    using ok by (auto simp: f retain_empty finite_by_identity by_identity_counts status_ok_def)
  have applied: "cf_ever_applied_tx c' \<longleftrightarrow> cf_ever_applied c'" "cf_config_hash c' \<noteq> None \<longleftrightarrow> cf_ever_applied c'"
    "cf_applied_at c' \<noteq> None \<longleftrightarrow> cf_ever_applied c'" "0 < cf_apply_seq c' \<longleftrightarrow> cf_ever_applied c'"
    using ok by (auto simp: f q status_ok_def)
  show ?thesis
    unfolding c'_def [symmetric] status_ok_def using bound fail rest applied f(6,10) by simp
qed

lemma record_quiet_ok:
  assumes "status_ok c"
  shows "status_ok (record_warnings ws c)" and "status_ok (record_fetch_failure now c)"
  using assms by (simp_all add: record_warnings_def record_fetch_failure_def status_ok_def has_rejections_def)

lemma status_ok_step: "status_ok c \<Longrightarrow> status_ok (status_step lib c op)"
  by (cases op; cases "snd op") (auto intro: record_load_ok record_build_ok record_quiet_ok)

lemma status_ok_run: "status_ok (status_run lib kind ops)"
proof (induction ops rule: rev_induct)
  case Nil
  show ?case by (simp add: status_run_def status_ok_new)
next
  case (snoc op ops)
  then show ?case by (simp add: status_run_snoc status_ok_step)
qed

text \<open>An instance of the parameters and two inputs, for the examples.\<close>

definition ex_status_lib :: status_lib where
  "ex_status_lib = \<lparr>sl_sha256_hex = (\<lambda>b. replicate (length b) CHR ''h''), sl_hash_str = length,
     sl_hash_pair = (\<lambda>n i. n + length i), sl_rfc3339 = (\<lambda>t. [])\<rparr>"

definition ex_rejection :: "string \<Rightarrow> string \<Rightarrow> incoming_rejection" where
  "ex_rejection i kind = \<lparr>ir_identity = i, ir_resource_kind = ''models'', ir_resource_id = i,
     ir_error_kind = kind, ir_error = ''e'', ir_seen_at = 1000, ir_stale_since = None\<rparr>"

definition ex_observation :: "nat \<Rightarrow> incoming_rejection list \<Rightarrow> load_observation" where
  "ex_observation version rs = \<lparr>lo_source_hash = deferred version ''s'', lo_observed_revision = Some 1,
     lo_applied = Some \<lparr>ap_config_hash = deferred version ''c'', ap_revision = Some 1,
       ap_resource_counts = [''models'' \<mapsto> 2]\<rparr>, lo_rejected = rs, lo_partially_compatible = [],
     lo_partial_rows_by_kind = Map.empty, lo_stale_rows_by_kind = Map.empty, lo_is_reload = True,
     lo_wholly_rejected = False\<rparr>"

section \<open>Properties\<close>

text \<open>C8. What the status page shows is consistent in every state: at most 256 rejections and 256 rows of
  unknown kinds are listed, it lists a rejection or shows a state of trouble only along with a failure and
  never along with a successful reload, reload success is shown only while the source is connected, and
  something is shown as applied exactly when readiness is reported and the boot gate is open.\<close>

theorem status_page_consistent:
  fixes lib kind ops
  assumes "c = status_run lib kind ops" and "v = status_view lib now c"
  shows "length (vw_rejected v) \<le> MAX_CONFIG_REJECTIONS \<and>
    length (vw_unknown_kinds v) \<le> MAX_CONFIG_UNKNOWN_KINDS \<and>
    (vw_rejected v \<noteq> [] \<or> vw_state v = Degraded \<longrightarrow>
       vw_last_failure v \<noteq> None \<and> \<not> cf_last_reload_successful c) \<and>
    (vw_state v \<in> {Synced, Empty} \<longrightarrow> vw_rejected v = []) \<and>
    (cf_last_reload_successful c \<longrightarrow> cf_connected c \<and> vw_rejected v = []) \<and>
    (vw_applied v \<noteq> None \<longleftrightarrow> status_is_ready c) \<and> (vw_state v = NeverLoaded \<longleftrightarrow> \<not> status_is_ready c) \<and>
    (wait_returns c \<longleftrightarrow> status_is_ready c)"
proof -
  have ok: "status_ok c" by (simp add: assms status_ok_run)
  have len: "length (vw_rejected v) = card (dom (cf_rejected c)) + card (dom (cf_build_rejected c))"
    "length (vw_unknown_kinds v) = card (dom (cf_unknown_kind c))"
    by (simp_all add: assms(2) status_view_def Let_def values_asc_entries length_entries_asc)
  then have empty: "vw_rejected v = [] \<longleftrightarrow> cf_rejected c = Map.empty \<and> cf_build_rejected c = Map.empty"
    using ok unfolding status_ok_def by (metis add_is_0 card_eq_0_iff dom_eq_empty_conv length_0_conv)
  have fields: "vw_state v = derive_state c" "vw_last_failure v \<noteq> None \<longleftrightarrow> cf_last_failure c \<noteq> None"
    "vw_applied v \<noteq> None \<longleftrightarrow> cf_ever_applied c"
    by (simp_all add: assms(2) status_view_def Let_def)
  have "vw_state v = Degraded \<longrightarrow> has_rejections c" "vw_state v \<in> {Synced, Empty} \<longrightarrow> \<not> has_rejections c"
    by (auto simp: fields derive_state_def Let_def split: if_splits)
  moreover have "vw_state v = NeverLoaded \<longleftrightarrow> \<not> cf_ever_applied c"
    by (auto simp: fields derive_state_def Let_def)
  moreover have "vw_rejected v \<noteq> [] \<longrightarrow> has_rejections c"
    using ok by (auto simp: empty has_rejections_def status_ok_def)
  ultimately show ?thesis
    using ok unfolding status_ok_def fields len status_is_ready_def wait_returns_def by blast
qed

text \<open>A load with one broken row of two.\<close>

lemma derive_state_cong:
  "cf_ever_applied c = cf_ever_applied c' \<Longrightarrow> cf_latest_wholly_rejected c = cf_latest_wholly_rejected c' \<Longrightarrow>
   cf_rejected_counts c = cf_rejected_counts c' \<Longrightarrow> cf_build_rejected_counts c = cf_build_rejected_counts c' \<Longrightarrow>
   cf_resource_counts c = cf_resource_counts c' \<Longrightarrow> derive_state c = derive_state c'"
  by (simp add: derive_state_def has_rejections_def applied_total_def effective_resource_counts_def)

lemma derive_state_frame:
  "derive_state (count_reload obs c) = derive_state c"
  "derive_state (sticky_failure_set now r c) = derive_state c"
  "derive_state (record_outcome now c) = derive_state c"
  "derive_state (count_apply now b c) = derive_state c"
  by (rule derive_state_cong; simp add: count_reload_def sticky_failure_set_def record_outcome_def count_apply_def Let_def)+

lemma status_page_consistent_witness:
  "let v = status_view ex_status_lib 9000
         (status_run ex_status_lib Etcd [(5000, Load (ex_observation 2 [ex_rejection ''a'' ''schema_failed'']))])
   in vw_state v = Degraded \<and> vw_last_failure v \<noteq> None \<and> length (vw_rejected v) \<le> MAX_CONFIG_REJECTIONS"
proof -
  let ?c = "status_run ex_status_lib Etcd [(5000, Load (ex_observation 2 [ex_rejection ''a'' ''schema_failed'']))]"
  have rows: "rejected_rows (ex_observation 2 [ex_rejection ''a'' ''schema_failed'']) =
      [''a'' \<mapsto> ex_rejection ''a'' ''schema_failed'']"
    by (simp add: ex_observation_def ex_rejection_def by_identity_def unknown_row_def UNKNOWN_KIND_ERROR_KIND_def)
  define d where "d = record_applied (lo_applied (ex_observation 2 [ex_rejection ''a'' ''schema_failed'']))
      (record_observed 5000 (ex_observation 2 [ex_rejection ''a'' ''schema_failed'']) (config_status_new Etcd))"
  have d: "cf_ever_applied d" "\<not> cf_latest_wholly_rejected d" "cf_resource_counts d = [''models'' \<mapsto> 2]"
    "cf_build_rejected_counts d = Map.empty"
    by (simp_all add: d_def record_applied_def record_observed_def ex_observation_def config_status_new_def)
  have "derive_state ?c = derive_state (record_rows (ex_observation 2 [ex_rejection ''a'' ''schema_failed'']) d)"
    by (simp add: status_run_def record_load_def Let_def derive_state_frame d_def)
  also have "\<dots> = Degraded"
    using d by (simp add: derive_state_def record_rows_def Let_def rows has_rejections_def counts_by_empty
        applied_total_def effective_resource_counts_def)
  finally have "derive_state ?c = Degraded" .
  with status_page_consistent [OF refl refl, where lib = ex_status_lib and kind = Etcd and now = 9000
      and ops = "[(5000, Load (ex_observation 2 [ex_rejection ''a'' ''schema_failed'']))]"]
  show ?thesis by (simp add: status_view_def Let_def)
qed

text \<open>The positions of a run at which the identity of what is applied changes.\<close>

definition version_changes :: "status_lib \<Rightarrow> source_kind \<Rightarrow> (int \<times> status_op) list \<Rightarrow> nat list" where
  "version_changes lib kind ops =
     filter (\<lambda>i. effective_config_version lib (status_run lib kind (take (Suc i) ops)) \<noteq>
                 effective_config_version lib (status_run lib kind (take i ops))) [0..<length ops]"

lemma version_changes_snoc:
  "version_changes lib kind (ops @ [op]) = version_changes lib kind ops @
     (if effective_config_version lib (status_run lib kind (ops @ [op])) \<noteq>
         effective_config_version lib (status_run lib kind ops) then [length ops] else [])"
  unfolding version_changes_def by (auto intro!: filter_cong)

lemma apply_seq_step:
  assumes ok: "status_ok c" and c': "c' = status_step lib c (now, op)"
  defines "moved \<equiv> effective_config_version lib c' \<noteq> effective_config_version lib c"
  shows "cf_apply_seq c' = cf_apply_seq c + of_bool moved"
    and "cf_applied_at c' = (if moved then Some now else cf_applied_at c)"
proof -
  have applied: "cf_config_hash c \<noteq> None \<longleftrightarrow> cf_ever_applied c" using ok by (simp add: status_ok_def)
  have "cf_apply_seq c' = cf_apply_seq c + of_bool moved \<and> cf_applied_at c' = (if moved then Some now else cf_applied_at c)"
  proof (cases op)
    case (Load obs)
    define d where "d = record_rows obs (record_applied (lo_applied obs) (record_observed now obs c))"
    have v: "effective_config_version lib c' = effective_config_version lib d"
      by (rule effective_version_cong) (simp_all add: c' Load record_load_def Let_def d_def)
    have "cf_config_hash d \<noteq> None \<longleftrightarrow> cf_ever_applied d"
      using applied by (simp add: d_def split: option.split)
    then have "cf_ever_applied d \<and> (\<not> cf_ever_applied c \<or> effective_config_version lib c \<noteq> effective_config_version lib d) \<longleftrightarrow> moved"
      using applied effective_version_None [of lib c] effective_version_None [of lib d]
      by (auto simp: moved_def v) (simp add: d_def)
    then show ?thesis by (simp add: c' Load record_load_def Let_def d_def)
  next
    case (BuildRejections rs)
    have "cf_ever_applied c \<or> \<not> moved"
      using applied effective_version_None [of lib c] effective_version_None [of lib c']
      by (auto simp: moved_def c' BuildRejections record_build_frame)
    then show ?thesis
      using record_build_sequence [of lib now rs c] by (auto simp: c' BuildRejections moved_def)
  qed (simp_all add: c' moved_def record_warnings_def record_fetch_failure_def effective_config_version_def
         split: option.split)
  then show "cf_apply_seq c' = cf_apply_seq c + of_bool moved"
    "cf_applied_at c' = (if moved then Some now else cf_applied_at c)" by simp_all
qed

text \<open>C7. The apply counter counts exactly the recordings after which the identity of what is applied, the
  served configuration and the rows a runtime builder refused, is another than before, and the apply
  instant is that of the last of them: a recording that changes nothing a client can see moves neither.\<close>

theorem apply_seq_counts_changes:
  "cf_apply_seq (status_run lib kind ops) = length (version_changes lib kind ops) \<and>
   cf_applied_at (status_run lib kind ops) =
     (case rev (version_changes lib kind ops) of [] \<Rightarrow> None | i # _ \<Rightarrow> Some (fst (ops ! i)))"
proof (induction ops rule: rev_induct)
  case Nil
  show ?case by (simp add: version_changes_def status_run_def config_status_new_def)
next
  case (snoc op ops)
  obtain now e where op: "op = (now, e)" by fastforce
  have lt: "i < length ops" if "i \<in> set (version_changes lib kind ops)" for i
    using that by (auto simp: version_changes_def)
  have inst: "(case rev (version_changes lib kind ops) of [] \<Rightarrow> None | i # _ \<Rightarrow> Some (fst ((ops @ [op]) ! i))) =
      (case rev (version_changes lib kind ops) of [] \<Rightarrow> None | i # _ \<Rightarrow> Some (fst (ops ! i)))"
    using lt by (auto simp: nth_append split: list.split)
  note step = apply_seq_step [where c = "status_run lib kind ops" and lib = lib and now = now and op = e,
      OF status_ok_run refl, folded status_run_snoc op]
  show ?case
    using snoc step inst
    by (simp add: version_changes_snoc op [symmetric]) (simp add: op)
qed

section \<open>Rows of an unknown kind\<close>

text \<open>Two statuses that differ in nothing but what is reported of unknown kinds.\<close>

definition same_but_unknown :: "config_status \<Rightarrow> config_status \<Rightarrow> bool" where
  "same_but_unknown c c' \<longleftrightarrow>
     c\<lparr>cf_unknown_kind := Map.empty, cf_unknown_kind_counts := Map.empty\<rparr> =
     c'\<lparr>cf_unknown_kind := Map.empty, cf_unknown_kind_counts := Map.empty\<rparr>"

definition without_unknown :: "load_observation \<Rightarrow> load_observation" where
  "without_unknown obs = obs\<lparr>lo_rejected := filter (\<lambda>r. \<not> unknown_row r) (lo_rejected obs)\<rparr>"

fun without_unknown_op :: "int \<times> status_op \<Rightarrow> int \<times> status_op" where
  "without_unknown_op (now, Load obs) = (now, Load (without_unknown obs))"
| "without_unknown_op op = op"

lemma same_but_unknown_iff:
  "same_but_unknown c c' \<longleftrightarrow> (\<exists>u n. c' = c\<lparr>cf_unknown_kind := u, cf_unknown_kind_counts := n\<rparr>)"
proof
  assume "same_but_unknown c c'"
  then have "c' = c\<lparr>cf_unknown_kind := cf_unknown_kind c', cf_unknown_kind_counts := cf_unknown_kind_counts c'\<rparr>"
    by (cases c; cases c') (simp add: same_but_unknown_def)
  then show "\<exists>u n. c' = c\<lparr>cf_unknown_kind := u, cf_unknown_kind_counts := n\<rparr>" by blast
qed (auto simp: same_but_unknown_def)

text \<open>The parts of a load commute with that difference.\<close>

lemma same_but_unknownI:
  "same_but_unknown c (c\<lparr>cf_unknown_kind := u, cf_unknown_kind_counts := n\<rparr>)"
  by (auto simp: same_but_unknown_iff)

lemma without_unknown_simps:
  "lo_applied (without_unknown obs) = lo_applied obs" "lo_is_reload (without_unknown obs) = lo_is_reload obs"
  "rejected_rows (without_unknown obs) = rejected_rows obs"
  "reload_reasons (without_unknown obs) = reload_reasons obs"
  "record_observed now (without_unknown obs) = record_observed now obs"
  "count_reload (without_unknown obs) = count_reload obs"
  by (simp_all add: without_unknown_def reload_reasons_def record_observed_def count_reload_def fun_eq_iff)

lemma same_rows:
  assumes "same_but_unknown c c'"
  shows "same_but_unknown (record_rows obs c) (record_rows (without_unknown obs) c')"
proof -
  from assms obtain u n where "c' = c\<lparr>cf_unknown_kind := u, cf_unknown_kind_counts := n\<rparr>"
    by (auto simp: same_but_unknown_iff)
  then show ?thesis
    by (simp add: same_but_unknown_def record_rows_def Let_def without_unknown_def)
qed

lemma same_frame:
  assumes "same_but_unknown c c'"
  shows "same_but_unknown (record_observed now obs c) (record_observed now obs c')"
    "same_but_unknown (record_applied a c) (record_applied a c')"
    "same_but_unknown (count_apply now b c) (count_apply now b c')"
    "same_but_unknown (record_outcome now c) (record_outcome now c')"
    "same_but_unknown (count_reload obs c) (count_reload obs c')"
    "same_but_unknown (record_build_rows lib rs c) (record_build_rows lib rs c')"
    "same_but_unknown (record_build_outcome now c) (record_build_outcome now c')"
    "same_but_unknown (record_warnings ws c) (record_warnings ws c')"
    "same_but_unknown (record_fetch_failure now c) (record_fetch_failure now c')"
    "effective_config_version lib c' = effective_config_version lib c" "cf_ever_applied c' = cf_ever_applied c"
proof -
  from assms obtain u n where c': "c' = c\<lparr>cf_unknown_kind := u, cf_unknown_kind_counts := n\<rparr>"
    by (auto simp: same_but_unknown_iff)
  show "same_but_unknown (record_observed now obs c) (record_observed now obs c')"
    "same_but_unknown (record_applied a c) (record_applied a c')"
    "same_but_unknown (count_apply now b c) (count_apply now b c')"
    "same_but_unknown (record_outcome now c) (record_outcome now c')"
    "same_but_unknown (count_reload obs c) (count_reload obs c')"
    "same_but_unknown (record_build_rows lib rs c) (record_build_rows lib rs c')"
    "same_but_unknown (record_build_outcome now c) (record_build_outcome now c')"
    "same_but_unknown (record_warnings ws c) (record_warnings ws c')"
    "same_but_unknown (record_fetch_failure now c) (record_fetch_failure now c')"
    by (simp_all add: c' same_but_unknown_def record_observed_def record_applied_def count_apply_def record_outcome_def
        sticky_failure_set_def count_reload_def record_build_rows_def record_build_outcome_def record_warnings_def
        record_fetch_failure_def has_rejections_def Let_def split: option.split)
  show "effective_config_version lib c' = effective_config_version lib c" "cf_ever_applied c' = cf_ever_applied c"
    by (simp_all add: c' effective_config_version_def split: option.split)
qed

lemma same_step:
  assumes "same_but_unknown c c'"
  shows "same_but_unknown (status_step lib c op) (status_step lib c' (without_unknown_op op))"
proof -
  obtain now e where op: "op = (now, e)" by fastforce
  show ?thesis
  proof (cases e)
    case (Load obs)
    define d d' where "d = record_rows obs (record_applied (lo_applied obs) (record_observed now obs c))"
      and "d' = record_rows (without_unknown obs) (record_applied (lo_applied obs) (record_observed now obs c'))"
    have d: "same_but_unknown d d'" unfolding d_def d'_def by (intro same_rows same_frame assms)
    show ?thesis
      by (simp add: op Load record_load_def Let_def without_unknown_simps d_def [symmetric] d'_def [symmetric]
               same_frame(10,11) [OF assms] same_frame(10) [OF d]) (intro same_frame d)
  next
    case (BuildRejections rs)
    show ?thesis
      by (simp add: op BuildRejections record_build_rejections_def Let_def same_frame(10) [OF assms]
               same_frame(10) [OF same_frame(6) [OF assms]]) (intro same_frame assms)
  qed (simp_all add: op same_frame assms)
qed

text \<open>C9. Rows of a kind this build does not know disturb nothing: over any sequence of recordings, a status
  that never received them is the same in everything but the list and the counts of unknown kinds, so
  state, reload outcome, failures, counters, applied configuration and rejections are the same.\<close>

theorem unknown_kinds_disturb_nothing:
  "same_but_unknown (status_run lib kind ops) (status_run lib kind (map without_unknown_op ops))"
proof (induction ops rule: rev_induct)
  case Nil
  show ?case by (simp add: same_but_unknown_def)
next
  case (snoc op ops)
  then show ?case by (simp add: status_run_snoc same_step)
qed

section \<open>Details that stay hidden\<close>

text \<open>The details of a load are cut to what the runtime rejections leave of the budget, and are not restored
  when these go: as long as no new load comes, rejections are counted, and the state is not clean, while
  none is listed.\<close>

lemma hidden_after_repair:
  fixes lib :: status_lib and t1 t2 t3 now :: int and rs :: "incoming_rejection list" and obs :: load_observation
  assumes "card (dom (by_identity rs)) \<ge> MAX_CONFIG_REJECTIONS" and "rejected_rows obs \<noteq> Map.empty"
  defines "c \<equiv> record_build_rejections lib t3 [] (record_load lib t2 obs
                (record_build_rejections lib t1 rs (config_status_new Etcd)))"
  shows "has_rejections c" and "vw_rejected (status_view lib now c) = []"
proof -
  define b where "b = record_build_rejections lib t1 rs (config_status_new Etcd)"
  have "cf_build_rejected b = retain_details MAX_CONFIG_REJECTIONS Map.empty (by_identity rs)"
    by (simp add: b_def record_build_frame config_status_new_def)
  then have full: "card (dom (cf_build_rejected b)) = MAX_CONFIG_REJECTIONS"
    using assms(1) by (simp add: retain_dom distinct_card keys_asc_def)
  have none: "retain_details n m Map.empty = Map.empty" "retain_details 0 m x = Map.empty" for n m x
    by (simp_all add: retain_empty retain_details_def entries_asc_def keys_asc_def)
  have "cf_rejected c = Map.empty" "cf_build_rejected c = Map.empty"
    by (simp_all add: c_def b_def [symmetric] record_build_frame record_load_def Let_def full none by_identity_def)
  then show "vw_rejected (status_view lib now c) = []"
    by (simp add: status_view_def Let_def values_asc_Nil)
  show "has_rejections c"
    using assms(2) by (simp add: c_def b_def [symmetric] has_rejections_def record_build_frame record_load_def Let_def
        by_identity_counts)
qed

end
