(* ===== verification/Spec2Isabelle.thy ===== *)
theory Spec2Isabelle
  imports Limiter_Results Redis_Twin Redis_Failover Redis_Breaker Sse_Stream Gateway_Errors Dispatch Target_Order Snapshot Pricing Budget Resolve_Properties Quota_Results Supervisor_Batches Config_Status_Results
begin

text \<open>
  A model of the request path of the aisix gateway: how a request is admitted against rate limits and
  budgets, how a routing group becomes an ordered list of upstream models, how the list is walked with
  retries and fail-over, and how the outcome is answered and remembered; and of how the configuration the
  path reads gets there: from the documents of the etcd store to the snapshot that is served.

  \<^bold>\<open>Parts and theories.\<close>

  \<^item> \<^theory_text>\<open>Prelude\<close>: strings as byte lists, saturating counters, 64-bit floats as bit patterns with
    their total order, the locale of a cache keyed by generation stamps.
  \<^item> \<^theory_text>\<open>Window\<close>, \<^theory_text>\<open>Rate_Limit\<close>, \<^theory_text>\<open>Local_Store\<close>, \<^theory_text>\<open>Local_Runs\<close>, \<^theory_text>\<open>Limiter\<close>,
    \<^theory_text>\<open>Limiter_Results\<close>: crate \<^verbatim>\<open>aisix-ratelimit\<close> (\<^verbatim>\<open>window.rs\<close>, \<^verbatim>\<open>error.rs\<close>, \<^verbatim>\<open>store/mod.rs\<close>,
    \<^verbatim>\<open>store/local.rs\<close>, \<^verbatim>\<open>limiter.rs\<close>) and the limits of \<^verbatim>\<open>aisix-core\<close>. The state of a key is the record
    \<^theory_text>\<open>key_state\<close>; each store operation is one step, as the code runs it under the key's lock. The
    contract the limiter needs of a store is the locale \<^theory_text>\<open>rate_store_contract\<close>, interpreted on the
    in-process store.
  \<^item> \<^theory_text>\<open>Redis_Bucket\<close>, \<^theory_text>\<open>Redis_Refines\<close>, \<^theory_text>\<open>Redis_Twin\<close>: the scripts of
    \<^verbatim>\<open>store/redis.rs\<close> that decide and charge a bucket on the Redis server, their refinement of the
    in-process store, and the lease that gives a slot back.
  \<^item> \<^theory_text>\<open>Redis_Store\<close>, \<^theory_text>\<open>Redis_Failover\<close>: the client side of the same file: every operation with
    its fall-back to the in-process store, the leases, the post-stream queue and its worker; then runs in
    which the server's state and each call's outcome are arbitrary.
  \<^item> \<^theory_text>\<open>Redis_Breaker\<close>: the breaker of \<^verbatim>\<open>aisix-redis/src/lib.rs\<close> as a step relation on its
    callers and its prober.
  \<^item> \<^theory_text>\<open>Bytes\<close>, \<^theory_text>\<open>Sse\<close>, \<^theory_text>\<open>Sse_Stream\<close>: the decoder of server-sent events,
    \<^verbatim>\<open>aisix-gateway/src/sse.rs\<close>, as a state machine over byte chunks, and its agreement with a
    reference reading of the whole stream.
  \<^item> \<^theory_text>\<open>Routing_Config\<close>, \<^theory_text>\<open>Model_Config\<close>, \<^theory_text>\<open>Config_Snapshot\<close>: the configuration documents of
    \<^verbatim>\<open>aisix-core/src/models\<close> the request path reads, with their defaults, the upgrade of stored routing
    blocks, deadlines, cooldown settings and the client-IP allowlist.
  \<^item> \<^theory_text>\<open>Policy_Conditions\<close>, \<^theory_text>\<open>Policies\<close>: rate-limit policies, their condition trees, schedules and
    two forms (\<^verbatim>\<open>aisix-core/src/models/policy_conditions.rs\<close>, \<^verbatim>\<open>rate_limit_policy.rs\<close>, \<^verbatim>\<open>tags.rs\<close>).
  \<^item> \<^theory_text>\<open>Policy_Match\<close>, \<^theory_text>\<open>Policy_Index\<close>, \<^theory_text>\<open>Quota\<close>, \<^theory_text>\<open>Quota_Results\<close>: the quota gate
    (\<^verbatim>\<open>aisix-proxy/src/quota.rs\<close>, \<^verbatim>\<open>policy_index.rs\<close>): which policies apply at which phase and to
    which bucket, the index that finds them, and the gates that reserve every layer over a store, with what
    other requests do between two acquires as an argument.
  \<^item> \<^theory_text>\<open>Snapshot\<close>: \<^verbatim>\<open>aisix-core/src/snapshot.rs\<close>, the resource tables with their indices, and the
    publication of snapshots to readers and listeners.
  \<^item> \<^theory_text>\<open>Config_Key\<close>, \<^theory_text>\<open>Config_Loader\<close>: \<^verbatim>\<open>aisix-etcd/src/key.rs\<close> and \<^verbatim>\<open>loader.rs\<close>: which
    watched prefix a key belongs to, and how raw entries become rows of the tables or rejections.
  \<^item> \<^theory_text>\<open>Supervisor\<close>, \<^theory_text>\<open>Supervisor_Apply\<close>: the state and the operations of
    \<^verbatim>\<open>aisix-etcd/src/supervisor.rs\<close>: batches of watch events staged and committed at once, full reads, the
    values pinned for keys whose latest document is rejected, restoration from the on-disk cache, reports.
    One apply holds the transaction lock, so an apply is one step.
  \<^item> \<^theory_text>\<open>Config_Status\<close>, \<^theory_text>\<open>Config_Status_Results\<close>: \<^verbatim>\<open>aisix-core/src/config_status.rs\<close>, the load
    status the supervisor records every apply in: what is observed and applied, which rows were rejected,
    the derived state, the views, and their consistency over every sequence of recordings.
  \<^item> \<^theory_text>\<open>Supervisor_Serving\<close>, \<^theory_text>\<open>Supervisor_Refines\<close>, \<^theory_text>\<open>Supervisor_Results\<close>,
    \<^theory_text>\<open>Supervisor_Batches\<close>: what a state serves as a map from keys to documents, its invariant, the
    refinement of the last-good specification by every operation, restarts, and coalescing.
  \<^item> \<^theory_text>\<open>Pricing\<close>, \<^theory_text>\<open>Budget\<close>: the price index (\<^verbatim>\<open>models/pricing.rs\<close>) and the budget gate
    (\<^verbatim>\<open>aisix-proxy/src/budget.rs\<close>), each a cache that interprets the locale \<^theory_text>\<open>generation_cache\<close>.
  \<^item> \<^theory_text>\<open>Gateway_Errors\<close>: the bridge errors, the proxy errors and the platform's answers
    (\<^verbatim>\<open>bridge.rs\<close>, \<^verbatim>\<open>error.rs\<close>, \<^verbatim>\<open>platform_errors.rs\<close>).
  \<^item> \<^theory_text>\<open>Health\<close>: \<^verbatim>\<open>health.rs\<close> and \<^verbatim>\<open>cooldown.rs\<close>, the per-target runtime state, cooldowns, in-flight
    counts, latency penalties and probe answers.
  \<^item> \<^theory_text>\<open>Balancer\<close>, \<^theory_text>\<open>Rotation\<close>, \<^theory_text>\<open>Ring\<close>, \<^theory_text>\<open>Target_Order\<close>: the strategies of
    \<^verbatim>\<open>aisix-proxy/src/routing.rs\<close>: priority tiers, smooth weighted round-robin, the hash ring, the
    registry that holds their state.
  \<^item> \<^theory_text>\<open>Resolve\<close>, \<^theory_text>\<open>Resolve_Results\<close>, \<^theory_text>\<open>Resolve_Properties\<close>: \<^verbatim>\<open>resolve_attempt_models\<close>, which
    composes the filters (provider groups, tags, client IP, budget, health), the strategy's order and the
    pinning of a conversation.
  \<^item> \<^theory_text>\<open>Retry\<close>, \<^theory_text>\<open>Dispatch\<close>: which errors are retried, how long to wait, and the walk over the
    targets with its attempt records (\<^verbatim>\<open>routing.rs\<close>, \<^verbatim>\<open>attempt.rs\<close>, \<^verbatim>\<open>lib.rs\<close>).

  \<^bold>\<open>How the code is represented.\<close> A struct is a record with the source's fields, an enum a datatype
  with its variants, a method a function from the state to the state and the result. \<^verbatim>\<open>u64\<close> and \<^verbatim>\<open>u32\<close>
  counters are natural numbers with the saturation or wrap-around of the code written out; fingerprints
  and hashes are 64-bit words. A panic is \<^theory_text>\<open>None\<close>; an error is the left of a sum. A mutex- or
  shard-guarded operation is one step, and results about interleavings quantify over all sequences of
  steps. Clocks are arguments; where the code reads a clock several times, a function of the reading's
  index. Durations are milliseconds. The order in which a concurrent map is walked is an argument.

  \<^bold>\<open>Parameters.\<close> Address parsing, regular expressions, time zones, the calendar and number formatting, floating-point arithmetic, the
  reading of JSON documents with their schemas and typed forms, SHA-256, the
  upstream call and the reservation made around an attempt are arguments of the definitions that use
  them; what is relied on is stated as a hypothesis (the calendar laws, the store contract) and each
  property with such a hypothesis has an instance. The server's number arithmetic is the argument
  \<^theory_text>\<open>lua\<close>, of which the law of double rounding is asked, for times below \<open>10 ^ 17\<close> microseconds. What
  a call to the Redis server comes back with (no connection, a lost reply, an answer) is an argument of
  the operation, and between two operations the server's state is arbitrary. The breaker's time is in
  milliseconds, and its runs have fewer than \<open>2 ^ 64\<close> steps, so its generation does not wrap. Loops are structural recursions over the lists the
  code iterates, or carry the retry budget as their bound, so no fuel is needed.

  \<^bold>\<open>What the lemmas show.\<close> For the store: the admission verdict in every state, that refusals take
  nothing, the concurrency cap, spent allowances, invisible reclamation, and streaming against unary
  accounting; for the Redis store: refinement of the in-process store, reclaimed leases, and what the
  fall-back still counts. For the breaker: an open breaker shields its callers and never stays open for
  good. For the event stream: the events do not depend on how the bytes were cut into chunks (but for a
  byte-order mark after a cut line end). For quotas: the gate charges what the documents say, refusals hold
  nothing, buckets are identified by policy and values, conditions and schedules mean what they say. For
  configuration: the snapshot holds the last good document of each key, across rejections, full reads and
  restarts, and batching does not show; this asks that each scope is watched once and that keys lie where
  their kind belongs (a lemma shows what a misplaced key does). For tables and snapshots: the agreement of the indices and the publication barrier. For
  prices and budgets: the answers as functions of the documents. For routing: constraints, bounds,
  order, fair shares, ring stability, health. For dispatch: no replay of a served answer, attempt
  bounds, in-flight balance. For errors: closed platform answers and status ranges.

  \<^bold>\<open>Not modelled.\<close> The HTTP handlers and streaming of the endpoints, the translation of provider
  documents, guardrails, caches of responses, MCP and A2A forwarding, administration, the portal and
  consoles, telemetry back ends, and the connections and watch streams of etcd: they are network
  input and output or rewriting of JSON documents by third-party libraries. Serialisation attributes and
  schema derivations are left out of the modelled documents, as are fields the request path does not read.
\<close>

end
